(* ===== verification/Prelude.thy ===== *)
theory Prelude
  imports Main "HOL-Library.Char_ord" "HOL-Library.List_Lexorder" "HOL-Library.Sublist" "HOL-Library.Word"
begin

text \<open>
  Shared vocabulary of the development.

  A Rust \<open>String\<close> or \<open>&[u8]\<close> is a \<open>string\<close>, one \<open>char\<close> per UTF-8 byte, so \<open>length\<close> is
  Rust's \<open>len()\<close> and the order of \<open>List_Lexorder\<close> over \<open>Char_ord\<close> is Rust's order on strings
  and byte arrays. A \<open>Result\<close> is \<open>error + value\<close>. An \<open>i64\<close> is an \<open>int\<close> kept in range by the
  checked operations below; a timestamp or a duration is an \<open>int\<close> of nanoseconds.

  The theory holds the string operations of the Rust standard library the program uses, the
  checked integer operations, the collections of simplification rules, and the interface of a
  state machine with an invariant that several components instantiate.
\<close>

section \<open>Collections of rules\<close>

named_theorems text_simps \<open>unfolding rules of the string operations\<close>
named_theorems num_simps \<open>unfolding rules of the checked integer operations\<close>

section \<open>Bytes and ASCII\<close>

type_synonym bytes = string
type_synonym uuid = "128 word"
type_synonym time = int

definition byte_val :: "char \<Rightarrow> nat" where
  "byte_val c = of_char c"

definition byte :: "nat \<Rightarrow> char" where
  "byte n = char_of n"

definition ascii_upper :: "char \<Rightarrow> bool" where
  "ascii_upper c \<longleftrightarrow> 65 \<le> byte_val c \<and> byte_val c \<le> 90"

definition ascii_lower :: "char \<Rightarrow> bool" where
  "ascii_lower c \<longleftrightarrow> 97 \<le> byte_val c \<and> byte_val c \<le> 122"

definition ascii_digit :: "char \<Rightarrow> bool" where
  "ascii_digit c \<longleftrightarrow> 48 \<le> byte_val c \<and> byte_val c \<le> 57"

definition ascii_alpha :: "char \<Rightarrow> bool" where
  "ascii_alpha c \<longleftrightarrow> ascii_upper c \<or> ascii_lower c"

definition ascii_alnum :: "char \<Rightarrow> bool" where
  "ascii_alnum c \<longleftrightarrow> ascii_alpha c \<or> ascii_digit c"

definition lower_char :: "char \<Rightarrow> char" where
  "lower_char c = (if ascii_upper c then byte (byte_val c + 32) else c)"

definition upper_char :: "char \<Rightarrow> char" where
  "upper_char c = (if ascii_lower c then byte (byte_val c - 32) else c)"

definition to_lower :: "string \<Rightarrow> string" where
  "to_lower s = map lower_char s"

definition to_upper :: "string \<Rightarrow> string" where
  "to_upper s = map upper_char s"

definition eq_ignore_case :: "string \<Rightarrow> string \<Rightarrow> bool" where
  "eq_ignore_case a b \<longleftrightarrow> to_lower a = to_lower b"

lemmas ascii_defs [text_simps] = ascii_upper_def ascii_lower_def ascii_digit_def ascii_alpha_def
  ascii_alnum_def lower_char_def upper_char_def byte_val_def byte_def

lemma byte_val_less [simp]: "byte_val c < 256"
  by (simp add: byte_val_def)

lemma byte_val_byte [simp]: "n < 256 \<Longrightarrow> byte_val (byte n) = n"
  by (simp add: byte_val_def byte_def)

lemma byte_byte_val [simp]: "byte (byte_val c) = c"
  by (simp add: byte_val_def byte_def)

lemma byte_val_eq_iff: "byte_val c = byte_val d \<longleftrightarrow> c = d"
  by (metis byte_byte_val)

lemma lower_char_idem [simp]: "lower_char (lower_char c) = lower_char c"
  by (auto simp: lower_char_def ascii_upper_def)

lemma upper_char_idem [simp]: "upper_char (upper_char c) = upper_char c"
  by (auto simp: upper_char_def ascii_lower_def)

lemma lower_upper_char [simp]: "lower_char (upper_char c) = lower_char c"
  by (auto simp: lower_char_def upper_char_def ascii_upper_def ascii_lower_def)

lemma to_lower_idem [simp]: "to_lower (to_lower s) = to_lower s"
  by (simp add: to_lower_def)

lemma to_upper_idem [simp]: "to_upper (to_upper s) = to_upper s"
  by (simp add: to_upper_def)

lemma to_lower_upper [simp]: "to_lower (to_upper s) = to_lower s"
  by (simp add: to_lower_def to_upper_def)

lemma to_lower_append [simp]: "to_lower (a @ b) = to_lower a @ to_lower b"
  by (simp add: to_lower_def)

lemma to_lower_Nil_iff [simp]: "to_lower s = [] \<longleftrightarrow> s = []"
  by (simp add: to_lower_def)

lemma length_to_lower [simp]: "length (to_lower s) = length s"
  by (simp add: to_lower_def)

lemma eq_ignore_case_refl [simp]: "eq_ignore_case s s"
  by (simp add: eq_ignore_case_def)

lemma eq_ignore_case_sym: "eq_ignore_case a b = eq_ignore_case b a"
  by (auto simp: eq_ignore_case_def)

section \<open>Prefixes, suffixes and splitting\<close>

definition starts_with :: "string \<Rightarrow> string \<Rightarrow> bool" where
  "starts_with s p \<longleftrightarrow> take (length p) s = p"

definition ends_with :: "string \<Rightarrow> string \<Rightarrow> bool" where
  "ends_with s p \<longleftrightarrow> length p \<le> length s \<and> drop (length s - length p) s = p"

definition strip_prefix :: "string \<Rightarrow> string \<Rightarrow> string option" where
  "strip_prefix s p = (if starts_with s p then Some (drop (length p) s) else None)"

definition strip_suffix :: "string \<Rightarrow> string \<Rightarrow> string option" where
  "strip_suffix s p = (if ends_with s p then Some (take (length s - length p) s) else None)"

lemma starts_with_iff: "starts_with s p \<longleftrightarrow> (\<exists>r. s = p @ r)"
  by (auto simp: starts_with_def) (metis append_take_drop_id)

lemma ends_with_iff: "ends_with s p \<longleftrightarrow> (\<exists>r. s = r @ p)"
proof
  assume "ends_with s p"
  then show "\<exists>r. s = r @ p" by (metis append_take_drop_id ends_with_def)
qed (auto simp: ends_with_def)

lemma strip_prefix_Some_iff: "strip_prefix s p = Some r \<longleftrightarrow> s = p @ r"
  by (auto simp: strip_prefix_def starts_with_iff)

lemma strip_suffix_Some_iff: "strip_suffix s p = Some r \<longleftrightarrow> s = r @ p"
  by (auto simp: strip_suffix_def ends_with_iff)

lemma starts_with_refl [simp]: "starts_with s s" by (simp add: starts_with_def)

lemma starts_with_append [simp]: "starts_with (p @ r) p" by (simp add: starts_with_def)

fun split_on :: "char \<Rightarrow> string \<Rightarrow> string list" where
  "split_on d [] = [[]]"
| "split_on d (c # cs) =
     (if c = d then [] # split_on d cs
      else (case split_on d cs of [] \<Rightarrow> [[c]] | p # ps \<Rightarrow> (c # p) # ps))"

fun join_with :: "char \<Rightarrow> string list \<Rightarrow> string" where
  "join_with d [] = []"
| "join_with d [p] = p"
| "join_with d (p # q # ps) = p @ d # join_with d (q # ps)"

lemma split_on_not_Nil [simp]: "split_on d s \<noteq> []"
  by (induction s) (auto split: list.splits)

lemma length_split_on: "length (split_on d s) = Suc (count_list s d)"
  by (induction s) (auto split: list.splits)

lemma join_split [simp]: "join_with d (split_on d s) = s"
proof (induction s)
  case (Cons c s)
  then show ?case
    by (cases "split_on d s"; cases "tl (split_on d s)") auto
qed simp

lemma split_on_no_sep: "p \<in> set (split_on d s) \<Longrightarrow> d \<notin> set p"
  by (induction s arbitrary: p) (auto split: list.splits if_splits)

lemma split_on_plain: "d \<notin> set s \<Longrightarrow> split_on d s = [s]"
  by (induction s) auto

lemma split_on_append: "d \<notin> set p \<Longrightarrow> split_on d (p @ d # s) = p # split_on d s"
  by (induction p) auto

lemma split_join: "ps \<noteq> [] \<Longrightarrow> (\<And>p. p \<in> set ps \<Longrightarrow> d \<notin> set p) \<Longrightarrow> split_on d (join_with d ps) = ps"
  by (induction d ps rule: join_with.induct) (auto simp: split_on_plain split_on_append)

lemma split_on_snoc: "split_on d (s @ [d]) = split_on d s @ [[]]"
  by (induction s) (auto split: list.splits)

lemma set_join: "set (join_with d ps) \<subseteq> insert d (\<Union> (set ` set ps))"
  by (induction d ps rule: join_with.induct) auto

lemma set_split_on: "p \<in> set (split_on d s) \<Longrightarrow> set p \<subseteq> set s"
  by (induction s arbitrary: p) (fastforce split: list.splits if_splits)+

lemma join_with_Nil_iff: "[] \<notin> set ps \<Longrightarrow> join_with d ps = [] \<longleftrightarrow> ps = []"
  by (cases ps rule: list.exhaust; cases "tl ps") auto

fun split_once :: "char \<Rightarrow> string \<Rightarrow> (string \<times> string) option" where
  "split_once d [] = None"
| "split_once d (c # cs) =
     (if c = d then Some ([], cs)
      else (case split_once d cs of None \<Rightarrow> None | Some (a, b) \<Rightarrow> Some (c # a, b)))"

definition rsplit_once :: "char \<Rightarrow> string \<Rightarrow> (string \<times> string) option" where
  "rsplit_once d s = map_option (\<lambda>(a, b). (rev b, rev a)) (split_once d (rev s))"

lemma split_once_SomeD: "split_once d s = Some (a, b) \<Longrightarrow> s = a @ d # b \<and> d \<notin> set a"
  by (induction s arbitrary: a b) (auto split: option.splits if_splits)

lemma split_once_SomeI: "d \<notin> set a \<Longrightarrow> split_once d (a @ d # b) = Some (a, b)"
  by (induction a) auto

lemma split_once_Some: "split_once d s = Some (a, b) \<longleftrightarrow> s = a @ d # b \<and> d \<notin> set a"
  using split_once_SomeD split_once_SomeI by fast

lemma split_once_None: "split_once d s = None \<longleftrightarrow> d \<notin> set s"
  by (induction s) (auto split: option.splits)

fun split_once_text :: "string \<Rightarrow> string \<Rightarrow> (string \<times> string) option" where
  "split_once_text pat [] = (if pat = [] then Some ([], []) else None)"
| "split_once_text pat (c # cs) =
     (if starts_with (c # cs) pat then Some ([], drop (length pat) (c # cs))
      else (case split_once_text pat cs of None \<Rightarrow> None | Some (a, b) \<Rightarrow> Some (c # a, b)))"

text \<open>\<open>str::split\<close> at every character of a set, and \<open>str::contains\<close> of a text.\<close>

fun split_by :: "(char \<Rightarrow> bool) \<Rightarrow> string \<Rightarrow> string list" where
  "split_by P [] = [[]]"
| "split_by P (c # cs) =
     (if P c then [] # split_by P cs
      else (case split_by P cs of [] \<Rightarrow> [[c]] | p # ps \<Rightarrow> (c # p) # ps))"

definition trim_start_matches :: "(char \<Rightarrow> bool) \<Rightarrow> string \<Rightarrow> string" where
  "trim_start_matches P s = dropWhile P s"

definition trim_end_matches :: "(char \<Rightarrow> bool) \<Rightarrow> string \<Rightarrow> string" where
  "trim_end_matches P s = rev (dropWhile P (rev s))"

definition trim_matches :: "(char \<Rightarrow> bool) \<Rightarrow> string \<Rightarrow> string" where
  "trim_matches P s = trim_end_matches P (trim_start_matches P s)"

text \<open>\<open>str::trim_start_matches\<close> with a string pattern: the pattern removed as often as it leads.\<close>

function trim_start_text :: "string \<Rightarrow> string \<Rightarrow> string" where
  "trim_start_text p s = (if p \<noteq> [] \<and> starts_with s p then trim_start_text p (drop (length p) s) else s)"
  by pat_completeness auto
termination
  by (relation "measure (\<lambda>(p, s). length s)") (auto simp: starts_with_iff)

declare trim_start_text.simps [simp del]

text \<open>
  The bytes of the white-space characters \<open>str::trim\<close> removes (Unicode \<open>White_Space\<close>), in UTF-8.
  A lead byte never occurs inside another character, so in valid UTF-8 a prefix or a suffix of
  bytes that spells one of them is one of them.
\<close>

definition white_space :: "string list" where
  "white_space =
     [[byte 9], [byte 10], [byte 11], [byte 12], [byte 13], [byte 32],
      [byte 194, byte 133], [byte 194, byte 160], [byte 225, byte 154, byte 128]] @
     map (\<lambda>n. [byte 226, byte 128, byte n]) [128..<139] @
     [[byte 226, byte 128, byte 168], [byte 226, byte 128, byte 169],
      [byte 226, byte 128, byte 175], [byte 226, byte 129, byte 159],
      [byte 227, byte 128, byte 128]]"

lemma white_space_nonempty: "w \<in> set white_space \<Longrightarrow> w \<noteq> []"
  by (auto simp: white_space_def)

definition leading_space :: "string \<Rightarrow> string option" where
  "leading_space s = find (starts_with s) white_space"

definition trailing_space :: "string \<Rightarrow> string option" where
  "trailing_space s = find (ends_with s) white_space"

lemma leading_space_Some: "leading_space s = Some w \<Longrightarrow> w \<noteq> [] \<and> (\<exists>r. s = w @ r)"
  by (auto simp: leading_space_def find_Some_iff starts_with_iff white_space_nonempty
      dest: nth_mem)

lemma trailing_space_Some: "trailing_space s = Some w \<Longrightarrow> w \<noteq> [] \<and> (\<exists>r. s = r @ w)"
  by (auto simp: trailing_space_def find_Some_iff ends_with_iff white_space_nonempty
      dest: nth_mem)

function trim_start :: "string \<Rightarrow> string" where
  "trim_start s = (case leading_space s of None \<Rightarrow> s | Some w \<Rightarrow> trim_start (drop (length w) s))"
  by pat_completeness auto
termination
  by (relation "measure length") (auto dest!: leading_space_Some)

function trim_end :: "string \<Rightarrow> string" where
  "trim_end s = (case trailing_space s of None \<Rightarrow> s
     | Some w \<Rightarrow> trim_end (take (length s - length w) s))"
  by pat_completeness auto
termination
  by (relation "measure length") (auto dest!: trailing_space_Some)

declare trim_start.simps [simp del] trim_end.simps [simp del]

definition trim :: "string \<Rightarrow> string" where
  "trim s = trim_end (trim_start s)"

text \<open>A text of printable ASCII without a space is left as it is.\<close>

definition graphic :: "char \<Rightarrow> bool" where
  "graphic c \<longleftrightarrow> 33 \<le> byte_val c \<and> byte_val c < 127"

lemma white_space_not_graphic: "w \<in> set white_space \<Longrightarrow> \<not> graphic (hd w) \<and> \<not> graphic (last w)"
  by (auto simp: white_space_def graphic_def)

lemma leading_space_graphic: "graphic c \<Longrightarrow> leading_space (c # cs) = None"
  using white_space_not_graphic white_space_nonempty
  by (fastforce simp: leading_space_def find_None_iff starts_with_iff neq_Nil_conv)

lemma trailing_space_graphic: "graphic c \<Longrightarrow> trailing_space (cs @ [c]) = None"
proof -
  assume g: "graphic c"
  have "\<not> ends_with (cs @ [c]) w" if w: "w \<in> set white_space" for w
  proof
    assume "ends_with (cs @ [c]) w"
    then obtain r where "cs @ [c] = r @ w" by (auto simp: ends_with_iff)
    then have "last w = c" using white_space_nonempty [OF w] by (metis last_appendR last_snoc)
    then show False using g white_space_not_graphic [OF w] by simp
  qed
  then show ?thesis by (simp add: trailing_space_def find_None_iff)
qed

lemma spaces_Nil [simp]: "leading_space [] = None" "trailing_space [] = None"
  using white_space_nonempty
  by (auto simp: leading_space_def trailing_space_def find_None_iff starts_with_iff ends_with_iff)

lemma trim_graphic [simp]: "list_all graphic s \<Longrightarrow> trim s = s"
proof -
  assume g: "list_all graphic s"
  have "trim_start s = s"
    using g by (cases s; subst trim_start.simps) (simp_all add: leading_space_graphic)
  moreover have "trim_end s = s"
    using g by (cases s rule: rev_cases; subst trim_end.simps) (simp_all add: trailing_space_graphic)
  ultimately show ?thesis by (simp add: trim_def)
qed

text \<open>\<open>str::split_whitespace\<close>: the maximal runs of characters that are not white space.\<close>

function split_white :: "string \<Rightarrow> string \<Rightarrow> string list" where
  "split_white acc s =
     (case s of
        [] \<Rightarrow> (if acc = [] then [] else [rev acc])
      | c # cs \<Rightarrow>
          (case leading_space s of
             Some w \<Rightarrow> (if acc = [] then [] else [rev acc]) @ split_white [] (drop (length w) s)
           | None \<Rightarrow> split_white (c # acc) cs))"
  by pat_completeness auto
termination
  by (relation "measure (\<lambda>(acc, s). length s)") (auto dest!: leading_space_Some)

declare split_white.simps [simp del]

definition split_whitespace :: "string \<Rightarrow> string list" where
  "split_whitespace s = split_white [] s"

lemma leading_space_blank: "leading_space (CHR '' '' # cs) = Some '' ''"
proof -
  have "byte 32 = CHR '' ''" by (simp add: byte_def char_of_def bit_0)
  then show ?thesis by (simp add: leading_space_def white_space_def starts_with_def byte_def)
qed

lemma split_white_eval:
  "split_white acc [] = (if acc = [] then [] else [rev acc])"
  "graphic c \<Longrightarrow> split_white acc (c # cs) = split_white (c # acc) cs"
  "split_white acc (CHR '' '' # cs) = (if acc = [] then [] else [rev acc]) @ split_white [] cs"
  by (subst split_white.simps; simp add: leading_space_graphic leading_space_blank)+

section \<open>Integers and their text\<close>

definition i64_max :: int where "i64_max = 9223372036854775807"
definition i64_min :: int where "i64_min = -9223372036854775808"

definition in_i64 :: "int \<Rightarrow> bool" where
  "in_i64 n \<longleftrightarrow> i64_min \<le> n \<and> n \<le> i64_max"

definition checked_i64 :: "int \<Rightarrow> int option" where
  "checked_i64 n = (if in_i64 n then Some n else None)"

lemmas i64_defs [num_simps] = i64_max_def i64_min_def in_i64_def checked_i64_def

lemma checked_i64_Some: "checked_i64 n = Some m \<longleftrightarrow> m = n \<and> in_i64 n"
  by (auto simp: checked_i64_def)

definition digit_char :: "nat \<Rightarrow> char" where
  "digit_char d = byte (48 + d)"

fun nat_text :: "nat \<Rightarrow> string" where
  "nat_text n = (if n < 10 then [digit_char n] else nat_text (n div 10) @ [digit_char (n mod 10)])"

declare nat_text.simps [simp del]

definition int_text :: "int \<Rightarrow> string" where
  "int_text i = (if i < 0 then ''-'' @ nat_text (nat (- i)) else nat_text (nat i))"

fun digits_val :: "nat \<Rightarrow> string \<Rightarrow> nat" where
  "digits_val acc [] = acc"
| "digits_val acc (c # cs) = digits_val (acc * 10 + (byte_val c - 48)) cs"

definition digits_only :: "string \<Rightarrow> bool" where
  "digits_only s \<longleftrightarrow> s \<noteq> [] \<and> list_all ascii_digit s"

text \<open>\<open>str::parse\<close> for an unsigned type: an optional plus, then digits, in range.\<close>

definition parse_unsigned :: "nat \<Rightarrow> string \<Rightarrow> nat option" where
  "parse_unsigned limit s =
     (let body = (case s of c # cs \<Rightarrow> if c = CHR ''+'' then cs else s | [] \<Rightarrow> [])
      in if digits_only body \<and> digits_val 0 body \<le> limit then Some (digits_val 0 body) else None)"

text \<open>\<open>str::parse::<i64>\<close>: an optional sign, then digits, in range.\<close>

definition parse_i64 :: "string \<Rightarrow> int option" where
  "parse_i64 s =
     (let neg = (s \<noteq> [] \<and> hd s = CHR ''-'');
          body = (case s of c # cs \<Rightarrow> if c = CHR ''+'' \<or> c = CHR ''-'' then cs else s | [] \<Rightarrow> []);
          n = (if neg then - int (digits_val 0 body) else int (digits_val 0 body))
      in if digits_only body then checked_i64 n else None)"

lemma digit_char_digit: "d < 10 \<Longrightarrow> ascii_digit (digit_char d)"
  by (simp add: ascii_digit_def digit_char_def)

lemma digits_val_append: "digits_val acc (a @ b) = digits_val (digits_val acc a) b"
  by (induction a arbitrary: acc) auto

lemma nat_text_digits: "digits_only (nat_text n)"
proof (induction n rule: nat_text.induct)
  case (1 n)
  then show ?case
    by (subst nat_text.simps) (auto simp: digits_only_def digit_char_digit)
qed

lemma digits_val_nat_text: "digits_val 0 (nat_text n) = n"
proof (induction n rule: nat_text.induct)
  case (1 n)
  then show ?case
    by (subst nat_text.simps) (auto simp: digits_val_append digit_char_def)
qed

lemma nat_text_inj: "nat_text m = nat_text n \<Longrightarrow> m = n"
  by (metis digits_val_nat_text)

lemma nat_text_not_Nil [simp]: "nat_text n \<noteq> []"
  using nat_text_digits [of n] by (simp add: digits_only_def)

lemma hd_nat_text: "ascii_digit (hd (nat_text n))"
  using nat_text_digits [of n] by (cases "nat_text n") (auto simp: digits_only_def)

lemma nat_text_Cons_digit: "nat_text n = c # cs \<Longrightarrow> ascii_digit c"
  using hd_nat_text [of n] by simp

lemma parse_i64_int_text: "in_i64 i \<Longrightarrow> parse_i64 (int_text i) = Some i"
proof (cases "i < 0")
  case True
  assume "in_i64 i"
  with True show ?thesis
    by (simp add: parse_i64_def int_text_def nat_text_digits digits_val_nat_text checked_i64_def)
next
  case False
  assume r: "in_i64 i"
  obtain c cs where nt: "nat_text (nat i) = c # cs"
    by (cases "nat_text (nat i)") auto
  then have "ascii_digit c" by (rule nat_text_Cons_digit)
  then have "c \<noteq> CHR ''+''" "c \<noteq> CHR ''-''"
    by (auto simp: ascii_digit_def byte_val_def)
  with nt False r nat_text_digits [of "nat i"] digits_val_nat_text [of "nat i"] show ?thesis
    by (simp add: parse_i64_def int_text_def checked_i64_def)
qed

section \<open>Durations\<close>

definition seconds :: "int \<Rightarrow> int" where
  "seconds n = n * 1000000000"

lemma seconds_mono_iff [simp]: "seconds m \<le> seconds n \<longleftrightarrow> m \<le> n" "seconds m < seconds n \<longleftrightarrow> m < n"
  by (simp_all add: seconds_def)

section \<open>Checks that stop at the first failure\<close>

text \<open>
  A sequence of Rust checks, each returning early with an error: the list of what each check
  says, in order; the first that says something is the result.
\<close>

fun first_some :: "'a option list \<Rightarrow> 'a option" where
  "first_some [] = None"
| "first_some (None # xs) = first_some xs"
| "first_some (Some x # xs) = Some x"

definition verdict_of :: "'e option list \<Rightarrow> 'e + unit" where
  "verdict_of cs = (case first_some cs of Some e \<Rightarrow> Inl e | None \<Rightarrow> Inr ())"

lemma first_some_None: "first_some xs = None \<longleftrightarrow> set xs \<subseteq> {None}"
  by (induction xs rule: first_some.induct) auto

lemma first_some_append: "first_some (xs @ ys) = (case first_some xs of None \<Rightarrow> first_some ys | Some x \<Rightarrow> Some x)"
  by (induction xs rule: first_some.induct) auto

lemma verdict_of_ok: "verdict_of cs = Inr () \<longleftrightarrow> set cs \<subseteq> {None}"
  by (auto simp: verdict_of_def first_some_None [symmetric] split: option.splits)

section \<open>Bytes of numbers\<close>

definition u64_le_bytes :: "nat \<Rightarrow> bytes" where
  "u64_le_bytes n = map (\<lambda>i. byte (n div 256 ^ i mod 256)) [0..<8]"

lemma length_u64_le_bytes [simp]: "length (u64_le_bytes n) = 8"
  by (simp add: u64_le_bytes_def)

lemma u64_le_bytes_inj:
  assumes "u64_le_bytes m = u64_le_bytes n" and "m < 2 ^ 64" and "n < 2 ^ 64"
  shows "m = n"
proof -
  have step: "m div 256 ^ i mod 256 = n div 256 ^ i mod 256" if "i < 8" for i
  proof -
    have "u64_le_bytes m ! i = u64_le_bytes n ! i" using assms(1) by simp
    then have "byte_val (byte (m div 256 ^ i mod 256)) = byte_val (byte (n div 256 ^ i mod 256))"
      using that by (simp add: u64_le_bytes_def)
    then show ?thesis by simp
  qed
  have mod_eq: "m mod 256 ^ k = n mod 256 ^ k" if "k \<le> 8" for k
    using that
  proof (induction k)
    case (Suc k)
    have "m mod 256 ^ Suc k = 256 ^ k * (m div 256 ^ k mod 256) + m mod 256 ^ k"
      by (metis mod_mult2_eq mult.commute power_Suc)
    moreover have "n mod 256 ^ Suc k = 256 ^ k * (n div 256 ^ k mod 256) + n mod 256 ^ k"
      by (metis mod_mult2_eq mult.commute power_Suc)
    ultimately show ?case using Suc step [of k] by simp
  qed simp
  have "m mod 256 ^ 8 = m" "n mod 256 ^ 8 = n"
    using assms(2,3) by simp_all
  with mod_eq [of 8] show ?thesis by simp
qed

definition hex_digit :: "nat \<Rightarrow> char" where
  "hex_digit d = (if d < 10 then byte (48 + d) else byte (87 + d))"

definition hex_encode :: "bytes \<Rightarrow> string" where
  "hex_encode bs = concat (map (\<lambda>c. [hex_digit (byte_val c div 16), hex_digit (byte_val c mod 16)]) bs)"

lemma hex_digit_inj: "a < 16 \<Longrightarrow> b < 16 \<Longrightarrow> hex_digit a = hex_digit b \<Longrightarrow> a = b"
  by (auto simp: hex_digit_def split: if_splits dest!: arg_cong [where f = byte_val])

lemma hex_encode_Cons: "hex_encode (c # cs) =
    hex_digit (byte_val c div 16) # hex_digit (byte_val c mod 16) # hex_encode cs"
  by (simp add: hex_encode_def)

lemma hex_encode_Nil [simp]: "hex_encode [] = []"
  by (simp add: hex_encode_def)

lemma hex_encode_inj: "hex_encode a = hex_encode b \<Longrightarrow> a = b"
proof (induction a arbitrary: b)
  case Nil
  then show ?case by (cases b) (auto simp: hex_encode_Cons)
next
  case (Cons x xs)
  then obtain y ys where b: "b = y # ys" by (cases b) (auto simp: hex_encode_Cons)
  have lt: "byte_val c div 16 < 16" for c using byte_val_less [of c] by linarith
  from Cons.prems b have "byte_val x div 16 = byte_val y div 16" "byte_val x mod 16 = byte_val y mod 16"
    by (auto simp: hex_encode_Cons dest!: hex_digit_inj [rotated 2] intro: lt)
  then have "byte_val x = byte_val y" by (metis div_mult_mod_eq)
  with Cons b show ?case by (simp add: hex_encode_Cons byte_val_eq_iff)
qed

text \<open>Reading hexadecimal, either case.\<close>

definition hex_val :: "char \<Rightarrow> nat option" where
  "hex_val c =
     (if ascii_digit c then Some (byte_val c - 48)
      else if CHR ''a'' \<le> c \<and> c \<le> CHR ''f'' then Some (byte_val c - 87)
      else if CHR ''A'' \<le> c \<and> c \<le> CHR ''F'' then Some (byte_val c - 55)
      else None)"

fun hex_decode :: "string \<Rightarrow> bytes option" where
  "hex_decode [] = Some []"
| "hex_decode (a # b # rest) =
     (case (hex_val a, hex_val b, hex_decode rest) of
        (Some x, Some y, Some r) \<Rightarrow> Some (byte (16 * x + y) # r)
      | _ \<Rightarrow> None)"
| "hex_decode _ = None"

lemma char_le_byte_val: "c \<le> d \<longleftrightarrow> byte_val c \<le> byte_val d"
  by (simp add: less_eq_char_def byte_val_def)

lemma hex_val_hex_digit [simp]: "d < 16 \<Longrightarrow> hex_val (hex_digit d) = Some d"
  by (auto simp: hex_digit_def hex_val_def ascii_digit_def char_le_byte_val)
    (simp_all add: byte_val_def)

lemma hex_decode_encode [simp]: "hex_decode (hex_encode b) = Some b"
proof (induction b)
  case (Cons c b)
  have "byte_val c div 16 < 16" using byte_val_less [of c] by linarith
  then show ?case using Cons by (simp add: hex_encode_Cons)
qed simp

lemma in_map_filter: "y \<in> set (List.map_filter f xs) \<longleftrightarrow> (\<exists>x \<in> set xs. f x = Some y)"
  by (induction xs) (auto simp: map_filter_simps split: option.split)

section \<open>Fallible steps\<close>

text \<open>The question mark of the source: the error of a step ends it, its value goes on.\<close>

definition try_step :: "'e + 'a \<Rightarrow> ('a \<Rightarrow> 'e + 'b) \<Rightarrow> 'e + 'b" where
  "try_step r k = (case r of Inl e \<Rightarrow> Inl e | Inr x \<Rightarrow> k x)"

definition check_that :: "bool \<Rightarrow> 'e \<Rightarrow> 'e + unit" where
  "check_that ok e = (if ok then Inr () else Inl e)"

definition map_error :: "('e \<Rightarrow> 'f) \<Rightarrow> 'e + 'a \<Rightarrow> 'f + 'a" where
  "map_error f r = (case r of Inl e \<Rightarrow> Inl (f e) | Inr x \<Rightarrow> Inr x)"

lemma try_step_Inr [simp]: "try_step r k = Inr y \<longleftrightarrow> (\<exists>x. r = Inr x \<and> k x = Inr y)"
  by (simp add: try_step_def split: sum.split)

lemma try_step_eval [simp]: "try_step (Inr x) k = k x" "try_step (Inl e) k = Inl e"
  by (simp_all add: try_step_def)

lemma check_that_Inr [simp]: "check_that ok e = Inr u \<longleftrightarrow> ok"
  by (simp add: check_that_def)

lemma check_that_eval [simp]: "check_that True e = Inr ()" "check_that False e = Inl e"
  by (simp_all add: check_that_def)

lemma map_error_Inr [simp]: "map_error f r = Inr x \<longleftrightarrow> r = Inr x"
  by (simp add: map_error_def split: sum.split)

lemma map_error_eval [simp]: "map_error f (Inr x) = Inr x" "map_error f (Inl e) = Inl (f e)"
  by (simp_all add: map_error_def)

lemma find_SomeD: "find P xs = Some x \<Longrightarrow> x \<in> set xs \<and> P x"
  by (induction xs) (auto split: if_splits)

section \<open>A state machine with an invariant\<close>

text \<open>
  The interface several components offer: a step function over events and an invariant that
  every step on an admissible event keeps. What a client gets is that whole runs keep it.
\<close>

locale invariant_machine =
  fixes step :: "'s \<Rightarrow> 'e \<Rightarrow> 's"
    and ok :: "'e \<Rightarrow> bool"
    and inv :: "'s \<Rightarrow> bool"
  assumes step_keeps: "inv s \<Longrightarrow> ok e \<Longrightarrow> inv (step s e)"
begin

lemma run_keeps: "inv s \<Longrightarrow> list_all ok es \<Longrightarrow> inv (foldl step s es)"
  by (induction es arbitrary: s) (auto simp: step_keeps)

lemma run_prefix_keeps: "inv s \<Longrightarrow> list_all ok (es @ fs) \<Longrightarrow> inv (foldl step s es)"
  by (simp add: run_keeps)

end

text \<open>The same for a machine whose next step is not determined: a relation in place of a function.\<close>

locale invariant_relation =
  fixes step :: "'s \<Rightarrow> 's \<Rightarrow> bool"
    and inv :: "'s \<Rightarrow> bool"
  assumes step_keeps: "inv s \<Longrightarrow> step s t \<Longrightarrow> inv t"
begin

lemma reach_keeps: "step\<^sup>*\<^sup>* s t \<Longrightarrow> inv s \<Longrightarrow> inv t"
  by (induction rule: rtranclp_induct) (auto intro: step_keeps)

end

end
