(* ===== verification/Breaker.thy ===== *)
theory Breaker
  imports Prelude
begin

text \<open>
  The circuit breaker policy, \<open>crates/core/src/breaker.rs\<close>: what has been observed about an
  endpoint decides whether the next call goes out. The stored row is the record \<open>health\<close>;
  \<open>check\<close> reads it, \<open>record_observation\<close> and \<open>claim_probe\<close> (the source's \<open>record\<close> and
  \<open>claim_probe\<close>) compute what is stored next. The clock is an argument, in nanoseconds.
\<close>

section \<open>Constants and data\<close>

definition FAILURE_THRESHOLD :: nat where "FAILURE_THRESHOLD = 5"
definition BREADTH_THRESHOLD :: nat where "BREADTH_THRESHOLD = 3"
definition BREADTH_WINDOW :: int where "BREADTH_WINDOW = seconds 120"
definition BASE_BACKOFF :: int where "BASE_BACKOFF = seconds 30"
definition MAX_BACKOFF :: int where "MAX_BACKOFF = seconds 600"
definition PROBE_LEASE :: int where "PROBE_LEASE = seconds 60"
definition RETIRED_FOR :: int where "RETIRED_FOR = seconds (24 * 60 * 60)"

lemmas breaker_constants = FAILURE_THRESHOLD_def BREADTH_THRESHOLD_def BREADTH_WINDOW_def
  BASE_BACKOFF_def MAX_BACKOFF_def PROBE_LEASE_def RETIRED_FOR_def seconds_def

datatype observation = Success | Unreachable | Undetermined | NotEvidence | Retired

datatype circuit_scope = PlatformScope | WorkspaceScope

datatype caller_unit = WorkspaceUnit | SessionUnit

fun caller_unit_of :: "circuit_scope \<Rightarrow> caller_unit" where
  "caller_unit_of PlatformScope = WorkspaceUnit"
| "caller_unit_of WorkspaceScope = SessionUnit"

record caller =
  caller_workspace :: uuid
  caller_session :: uuid

fun caller_key :: "caller \<Rightarrow> caller_unit \<Rightarrow> uuid" where
  "caller_key c WorkspaceUnit = caller_workspace c"
| "caller_key c SessionUnit = caller_session c"

datatype circuit_state = Closed | Open | HalfOpen

record sighting =
  seen_caller :: caller
  seen_at :: time

record health =
  state :: circuit_state
  scope :: circuit_scope
  failures :: nat
  probe_after :: "time option"
  opened_at :: "time option"
  sightings :: "sighting list"

definition new_health :: "circuit_scope \<Rightarrow> health" where
  "new_health sc = \<lparr>state = Closed, scope = sc, failures = 0, probe_after = None,
     opened_at = None, sightings = []\<rparr>"

datatype verdict = Allow | Probe | Reject

section \<open>Operations\<close>

definition elapsed :: "time \<Rightarrow> time \<Rightarrow> int \<Rightarrow> int" where
  "elapsed now since ceiling = min (if now - since < 0 then 0 else now - since) ceiling"

definition backoff_for :: "time \<Rightarrow> time option \<Rightarrow> int" where
  "backoff_for now opened =
     (case opened of
        None \<Rightarrow> BASE_BACKOFF
      | Some t \<Rightarrow>
          (let down = elapsed now t MAX_BACKOFF;
               doublings = nat (down div seconds 1 div max 30 1)
           in min (BASE_BACKOFF * 2 ^ min doublings 16) MAX_BACKOFF))"

text \<open>\<open>chrono::Duration::from_std\<close> holds at most \<open>i64::MAX\<close> milliseconds.\<close>

definition backoff :: "int \<Rightarrow> int" where
  "backoff d = (if d \<le> i64_max * 1000000 then d else seconds 30)"

definition check :: "health \<Rightarrow> time \<Rightarrow> verdict" where
  "check h now =
     (case state h of
        Closed \<Rightarrow> Allow
      | HalfOpen \<Rightarrow>
          (case probe_after h of Some due \<Rightarrow> if now \<ge> due then Probe else Reject | None \<Rightarrow> Probe)
      | Open \<Rightarrow>
          (case probe_after h of Some due \<Rightarrow> if now \<ge> due then Probe else Reject | None \<Rightarrow> Probe))"

definition saturating_succ_u32 :: "nat \<Rightarrow> nat" where
  "saturating_succ_u32 n = min (n + 1) (2 ^ 32 - 1)"

definition record_unreachable :: "health \<Rightarrow> time \<Rightarrow> health" where
  "record_unreachable h now =
     (let next = h\<lparr>failures := saturating_succ_u32 (failures h)\<rparr>
      in if state next = HalfOpen then
           next\<lparr>state := Open,
                probe_after := Some (now + backoff (backoff_for now (opened_at next)))\<rparr>
         else if failures next \<ge> FAILURE_THRESHOLD then
           (let opened = Some (case opened_at next of None \<Rightarrow> now | Some t \<Rightarrow> t)
            in next\<lparr>state := Open, opened_at := opened,
                    probe_after := Some (now + backoff (backoff_for now opened))\<rparr>)
         else next)"

definition record_undetermined :: "health \<Rightarrow> caller \<Rightarrow> time \<Rightarrow> health" where
  "record_undetermined h c now =
     (let unit = caller_unit_of (scope h);
          next = h\<lparr>sightings := sightings h @ [\<lparr>seen_caller = c, seen_at = now\<rparr>]\<rparr>
      in if state next = Closed \<and>
            card (set (map (\<lambda>s. caller_key (seen_caller s) unit) (sightings next))) \<ge> BREADTH_THRESHOLD
         then next\<lparr>state := Open, opened_at := Some now,
                   probe_after := Some (now + backoff (backoff_for now (Some now)))\<rparr>
         else next)"

definition record_observation :: "health \<Rightarrow> observation \<Rightarrow> caller \<Rightarrow> time \<Rightarrow> health" where
  "record_observation h obs c now =
     (let next = h\<lparr>sightings :=
          filter (\<lambda>s. elapsed now (seen_at s) BREADTH_WINDOW < BREADTH_WINDOW) (sightings h)\<rparr>
      in case obs of
           Success \<Rightarrow> next\<lparr>state := Closed, failures := 0, probe_after := None,
                           opened_at := None, sightings := []\<rparr>
         | Unreachable \<Rightarrow> record_unreachable next now
         | Undetermined \<Rightarrow> record_undetermined next c now
         | NotEvidence \<Rightarrow> next
         | Retired \<Rightarrow> next\<lparr>failures := saturating_succ_u32 (failures next), state := Open,
                           opened_at := Some now, probe_after := Some (now + backoff RETIRED_FOR)\<rparr>)"

definition claim_probe :: "health \<Rightarrow> time \<Rightarrow> health" where
  "claim_probe h now = h\<lparr>state := HalfOpen, probe_after := Some (now + backoff PROBE_LEASE)\<rparr>"

text \<open>One thing that happens to a stored circuit: a report, or a probe claimed.\<close>

datatype event = Report observation caller time | Claim time

fun event_time :: "event \<Rightarrow> time" where
  "event_time (Report obs c now) = now"
| "event_time (Claim now) = now"

fun health_step :: "health \<Rightarrow> event \<Rightarrow> health" where
  "health_step h (Report obs c now) = record_observation h obs c now"
| "health_step h (Claim now) = claim_probe h now"

section \<open>Lemmas\<close>

lemma elapsed_bounds: "0 \<le> ceiling \<Longrightarrow> 0 \<le> elapsed now since ceiling \<and> elapsed now since ceiling \<le> ceiling"
  by (simp add: elapsed_def)

lemma elapsed_mono: "now \<le> now' \<Longrightarrow> elapsed now since ceiling \<le> elapsed now' since ceiling"
  by (auto simp: elapsed_def min_def)

lemma backoff_for_lower: "BASE_BACKOFF \<le> backoff_for now opened"
proof -
  have "(1::int) \<le> 2 ^ n" for n :: nat by simp
  then have "BASE_BACKOFF * 1 \<le> BASE_BACKOFF * 2 ^ n" for n :: nat
    by (intro mult_left_mono) (simp_all add: breaker_constants)
  then show ?thesis
    by (auto simp: backoff_for_def Let_def min_def split: option.splits)
      (simp add: breaker_constants)+
qed

lemma backoff_for_upper: "backoff_for now opened \<le> MAX_BACKOFF"
  by (auto simp: backoff_for_def Let_def split: option.splits) (simp add: breaker_constants)

lemma backoff_short: "d \<le> RETIRED_FOR \<Longrightarrow> backoff d = d"
  by (auto simp: backoff_def breaker_constants i64_max_def)

lemma backoff_backoff_for [simp]: "backoff (backoff_for now opened) = backoff_for now opened"
  by (rule backoff_short) (rule order_trans [OF backoff_for_upper], simp add: breaker_constants)

lemma backoff_constants [simp]: "backoff RETIRED_FOR = RETIRED_FOR" "backoff PROBE_LEASE = PROBE_LEASE"
  by (simp_all add: backoff_short) (simp add: backoff_short breaker_constants)

lemma backoff_for_mono:
  assumes "now \<le> now'"
  shows "backoff_for now opened \<le> backoff_for now' opened"
proof (cases opened)
  case (Some t)
  let ?d = "\<lambda>n. nat (elapsed n t MAX_BACKOFF div seconds 1 div max 30 1)"
  have "?d now \<le> ?d now'"
    using elapsed_mono [OF assms, of t MAX_BACKOFF]
    by (intro nat_mono zdiv_mono1) (simp_all add: seconds_def)
  then have "(2::int) ^ min (?d now) 16 \<le> 2 ^ min (?d now') 16"
    by (intro power_increasing min.mono) simp_all
  moreover have "0 \<le> BASE_BACKOFF" by (simp add: breaker_constants)
  ultimately have "BASE_BACKOFF * 2 ^ min (?d now) 16 \<le> BASE_BACKOFF * 2 ^ min (?d now') 16"
    by (rule mult_left_mono)
  then have "min (BASE_BACKOFF * 2 ^ min (?d now) 16) MAX_BACKOFF
      \<le> min (BASE_BACKOFF * 2 ^ min (?d now') 16) MAX_BACKOFF"
    by (rule min.mono) simp
  then show ?thesis by (simp only: backoff_for_def Let_def Some option.case)
qed (simp add: backoff_for_def)

lemma scope_step [simp]: "scope (health_step h e) = scope h"
  by (cases e; cases "case e of Report obs c now \<Rightarrow> obs | _ \<Rightarrow> Success")
    (auto simp: record_observation_def record_unreachable_def record_undetermined_def
      claim_probe_def Let_def)

text \<open>
  Evidence that one caller's request could explain, from callers too few to be breadth: the
  invariant that keeps a circuit closed.
\<close>

definition narrow :: "circuit_scope \<Rightarrow> uuid set \<Rightarrow> event \<Rightarrow> bool" where
  "narrow sc K e \<longleftrightarrow>
     (case e of
        Report obs c now \<Rightarrow> obs \<notin> {Unreachable, Retired} \<and>
          (obs = Undetermined \<longrightarrow> caller_key c (caller_unit_of sc) \<in> K)
      | Claim now \<Rightarrow> False)"

definition closed_narrowly :: "circuit_scope \<Rightarrow> uuid set \<Rightarrow> health \<Rightarrow> bool" where
  "closed_narrowly sc K h \<longleftrightarrow> state h = Closed \<and> scope h = sc \<and>
     (\<forall>s \<in> set (sightings h). caller_key (seen_caller s) (caller_unit_of sc) \<in> K)"

lemma narrow_step:
  assumes "finite K" "card K < BREADTH_THRESHOLD" "closed_narrowly sc K h" "narrow sc K e"
  shows "closed_narrowly sc K (health_step h e)"
proof (cases e)
  case (Claim now)
  with assms(4) show ?thesis by (simp add: narrow_def)
next
  case (Report obs c now)
  have few: "card (set (map (\<lambda>s. caller_key (seen_caller s) (caller_unit_of sc)) ss)) < BREADTH_THRESHOLD"
    if "\<forall>s \<in> set ss. caller_key (seen_caller s) (caller_unit_of sc) \<in> K" for ss
  proof -
    have "set (map (\<lambda>s. caller_key (seen_caller s) (caller_unit_of sc)) ss) \<subseteq> K"
      using that by auto
    from card_mono [OF assms(1) this] assms(2) show ?thesis by linarith
  qed
  show ?thesis
  proof (cases obs)
    case Undetermined
    let ?kept = "filter (\<lambda>s. elapsed now (seen_at s) BREADTH_WINDOW < BREADTH_WINDOW) (sightings h)"
    have "\<forall>s \<in> set (?kept @ [\<lparr>seen_caller = c, seen_at = now\<rparr>]).
        caller_key (seen_caller s) (caller_unit_of sc) \<in> K"
      using assms(3,4) Report Undetermined by (auto simp: closed_narrowly_def narrow_def)
    note all = this and few [OF this]
    then show ?thesis
      using assms(3) Report Undetermined
      by (simp add: closed_narrowly_def record_observation_def record_undetermined_def Let_def)
  qed (use assms(3,4) Report in \<open>auto simp: closed_narrowly_def narrow_def record_observation_def\<close>)
qed

text \<open>
  Every probe is scheduled within a day of the last event: the invariant behind recovery.
\<close>

definition probe_within :: "time \<Rightarrow> health \<Rightarrow> bool" where
  "probe_within T h \<longleftrightarrow> (\<forall>due. probe_after h = Some due \<longrightarrow> due \<le> T + RETIRED_FOR)"

lemma probe_within_step:
  assumes "probe_within T h" "event_time e \<le> T"
  shows "probe_within T (health_step h e)"
proof -
  have "backoff_for now opened \<le> RETIRED_FOR" for now opened
    using backoff_for_upper [of now opened] by (simp add: breaker_constants)
  then have b: "now + backoff_for now opened \<le> T + RETIRED_FOR" if "now \<le> T" for now opened
    using that by (simp add: add_mono)
  have lease: "PROBE_LEASE \<le> RETIRED_FOR" by (simp add: breaker_constants)
  show ?thesis
  proof (cases e)
    case (Claim now)
    with assms lease show ?thesis by (simp add: probe_within_def claim_probe_def)
  next
    case (Report obs c now)
    with assms b show ?thesis
      by (cases obs)
        (simp_all add: probe_within_def record_observation_def record_unreachable_def
          record_undetermined_def Let_def)
  qed
qed

interpretation narrow_machine: invariant_machine health_step "narrow sc K"
    "\<lambda>h. finite K \<and> card K < BREADTH_THRESHOLD \<and> closed_narrowly sc K h" for sc K
  by unfold_locales (auto intro: narrow_step)

interpretation probe_machine: invariant_machine health_step "\<lambda>e. event_time e \<le> T" "probe_within T" for T
  by unfold_locales (rule probe_within_step)

section \<open>What the policy guarantees\<close>

text \<open>
  C32. Fewer than three distinct callers can never open a circuit by reports that a caller's own
  request could explain (undetermined failures, refusals, successes), however many they send, in
  whatever order and with whatever clock readings: after any such run on a new circuit the next
  call is still allowed.
\<close>
theorem few_callers_never_open:
  assumes "finite K" and "card K < BREADTH_THRESHOLD" and "list_all (narrow sc K) es"
  shows "check (foldl health_step (new_health sc) es) now = Allow"
proof -
  have "closed_narrowly sc K (new_health sc)" by (simp add: closed_narrowly_def new_health_def)
  with assms narrow_machine.run_keeps [of K sc "new_health sc" es]
  have "closed_narrowly sc K (foldl health_step (new_health sc) es)" by simp
  then show ?thesis by (simp add: closed_narrowly_def check_def)
qed

theorem few_callers_never_open_witness:
  "check (foldl health_step (new_health PlatformScope)
     [Report Undetermined \<lparr>caller_workspace = 1, caller_session = 7\<rparr> 0,
      Report Undetermined \<lparr>caller_workspace = 2, caller_session = 8\<rparr> 5,
      Report Undetermined \<lparr>caller_workspace = 1, caller_session = 9\<rparr> 3]) 6 = Allow"
  by (rule few_callers_never_open [where K = "{1, 2}"])
    (simp_all add: narrow_def BREADTH_THRESHOLD_def)

text \<open>
  Recovery: whatever has been reported or claimed, in any order, no circuit refuses calls more
  than a day (\<open>RETIRED_FOR\<close>) past the latest event: from then on the answer is to allow or to
  probe.
\<close>
theorem circuit_always_recovers:
  assumes "list_all (\<lambda>e. event_time e \<le> T) es" and "T + RETIRED_FOR \<le> now"
  shows "check (foldl health_step (new_health sc) es) now \<noteq> Reject"
proof -
  have "probe_within T (new_health sc)" by (simp add: probe_within_def new_health_def)
  from probe_machine.run_keeps [OF this assms(1)] assms(2) show ?thesis
    by (auto simp: probe_within_def check_def split: circuit_state.splits option.splits)
qed

theorem circuit_always_recovers_witness:
  "check (foldl health_step (new_health WorkspaceScope)
     [Report Retired \<lparr>caller_workspace = 1, caller_session = 7\<rparr> 10, Claim 20])
     (20 + RETIRED_FOR) \<noteq> Reject"
  by (rule circuit_always_recovers [where T = 20]) simp_all

text \<open>
  The backoff is at least the base, at most the ceiling, and never shrinks as an outage lasts.
\<close>
theorem backoff_for_bounded_monotone:
  assumes "now \<le> now'"
  shows "BASE_BACKOFF \<le> backoff_for now opened \<and> backoff_for now opened \<le> backoff_for now' opened
    \<and> backoff_for now' opened \<le> MAX_BACKOFF"
  using backoff_for_lower backoff_for_upper backoff_for_mono [OF assms] by blast

theorem backoff_for_bounded_monotone_witness:
  "BASE_BACKOFF \<le> backoff_for 0 (Some 0) \<and> backoff_for 0 (Some 0) \<le> backoff_for (seconds 100) (Some 0)
    \<and> backoff_for (seconds 100) (Some 0) \<le> MAX_BACKOFF"
  by (rule backoff_for_bounded_monotone) (simp add: seconds_def)

text \<open>
  An undetermined failure contributes a sighting and nothing else unless it completes breadth
  on a closed circuit: failure count, state, opening time and probe schedule stay as they were, so
  one noisy caller can neither hold an open circuit open nor delay its probe. Breadth opens it for
  exactly the base backoff.
\<close>
theorem undetermined_only_counts_breadth:
  fixes h c now
  defines "h' \<equiv> record_observation h Undetermined c now"
    and "kept \<equiv> filter (\<lambda>s. elapsed now (seen_at s) BREADTH_WINDOW < BREADTH_WINDOW) (sightings h)
          @ [\<lparr>seen_caller = c, seen_at = now\<rparr>]"
  defines "wide \<equiv> card (set (map (\<lambda>s. caller_key (seen_caller s) (caller_unit_of (scope h))) kept)) \<ge> BREADTH_THRESHOLD"
  shows "sightings h' = kept \<and> failures h' = failures h \<and> scope h' = scope h \<and>
    (if state h = Closed \<and> wide
     then state h' = Open \<and> opened_at h' = Some now \<and> probe_after h' = Some (now + BASE_BACKOFF)
     else state h' = state h \<and> opened_at h' = opened_at h \<and> probe_after h' = probe_after h)"
proof -
  have b: "backoff_for now (Some now) = BASE_BACKOFF"
    by (simp add: backoff_for_def elapsed_def Let_def breaker_constants)
  have bb: "backoff BASE_BACKOFF = BASE_BACKOFF"
    by (metis b backoff_backoff_for)
  show ?thesis
    unfolding h'_def kept_def wide_def
    by (simp add: record_observation_def record_undetermined_def Let_def b bb)
qed

text \<open>
  Unreachability needs no breadth: a new circuit that only ever hears \<open>Unreachable\<close>, from any
  callers, is open exactly when it has heard it five times or more.
\<close>
theorem unreachable_opens_at_threshold:
  assumes "list_all (\<lambda>e. \<exists>c t. e = Report Unreachable c t) es"
  shows "state (foldl health_step (new_health sc) es) = (if length es \<ge> FAILURE_THRESHOLD then Open else Closed)"
proof -
  have "failures (foldl health_step (new_health sc) es) = min (length es) (2 ^ 32 - 1) \<and>
      state (foldl health_step (new_health sc) es) = (if length es \<ge> FAILURE_THRESHOLD then Open else Closed)"
    using assms
  proof (induction es rule: rev_induct)
    case Nil
    then show ?case by (simp add: new_health_def FAILURE_THRESHOLD_def)
  next
    case (snoc e es)
    then obtain c t where e: "e = Report Unreachable c t" by auto
    from snoc have IH: "failures (foldl health_step (new_health sc) es) = min (length es) (2 ^ 32 - 1)"
      "state (foldl health_step (new_health sc) es) = (if length es \<ge> FAILURE_THRESHOLD then Open else Closed)"
      by simp_all
    show ?case
      using IH
      by (simp add: e record_observation_def record_unreachable_def Let_def saturating_succ_u32_def
          FAILURE_THRESHOLD_def min_def)
  qed
  then show ?thesis by blast
qed

theorem unreachable_opens_at_threshold_witness:
  "state (foldl health_step (new_health PlatformScope)
     (replicate 5 (Report Unreachable \<lparr>caller_workspace = 1, caller_session = 7\<rparr> 0))) = Open"
  using unreachable_opens_at_threshold [of "replicate 5 (Report Unreachable
      \<lparr>caller_workspace = 1, caller_session = 7\<rparr> 0)" PlatformScope]
  by (simp add: FAILURE_THRESHOLD_def numeral_eq_Suc)

text \<open>
  A success puts the circuit back to a new one whatever it was doing, so the evidence gathered
  on the way down is spent.
\<close>
theorem success_restores_new:
  "record_observation h Success c now = new_health (scope h)"
  by (simp add: record_observation_def new_health_def Let_def)

text \<open>
  A claimed probe holds the circuit for its lease, to the instant: before then every caller is
  refused, from then on the next may probe.
\<close>
theorem claimed_probe_lease:
  "check (claim_probe h t) now = (if now < t + PROBE_LEASE then Reject else Probe)"
  by (simp add: claim_probe_def check_def)

end
