(* ===== verification/Json.thy ===== *)
theory Json
  imports Prelude
begin

text \<open>
  JSON values as the program holds them. \<open>serde_json::Value\<close> is a tree; a number is one of the
  three kinds the crate documents (an unsigned or a negative integer, or a float, kept as its
  bits); an object is \<open>serde_json\<close>'s ordered map, here its list of entries in key order. Parsing
  and printing are the crate's and stay parameters of the definitions that use them.
\<close>

datatype json_number = PosInt nat | NegInt int | Float "64 word"

datatype json = JNull | JBool bool | JNum json_number | JStr string | JArr "json list"
  | JObj "(string \<times> json) list"

type_synonym object = "(string \<times> json) list"

text \<open>\<open>Number::as_i64\<close>: an integer that fits.\<close>

fun number_as_i64 :: "json_number \<Rightarrow> int option" where
  "number_as_i64 (PosInt n) = checked_i64 (int n)"
| "number_as_i64 (NegInt i) = checked_i64 i"
| "number_as_i64 (Float w) = None"

fun as_i64 :: "json \<Rightarrow> int option" where
  "as_i64 (JNum n) = number_as_i64 n"
| "as_i64 _ = None"

definition json_of_i64 :: "int \<Rightarrow> json" where
  "json_of_i64 i = JNum (if i < 0 then NegInt i else PosInt (nat i))"

fun is_null :: "json \<Rightarrow> bool" where
  "is_null JNull = True"
| "is_null _ = False"

fun as_str :: "json \<Rightarrow> string option" where
  "as_str (JStr s) = Some s"
| "as_str _ = None"

definition obj_get :: "object \<Rightarrow> string \<Rightarrow> json option" where
  "obj_get o1 k = map_of o1 k"

fun obj_insert :: "string \<Rightarrow> json \<Rightarrow> object \<Rightarrow> object" where
  "obj_insert k v [] = [(k, v)]"
| "obj_insert k v ((k', v') # rest) =
     (if k = k' then (k, v) # rest
      else if k < k' then (k, v) # (k', v') # rest
      else (k', v') # obj_insert k v rest)"

text \<open>\<open>Value::get\<close> with a string: the member of an object, nothing of any other value.\<close>

fun json_get :: "json \<Rightarrow> string \<Rightarrow> json option" where
  "json_get (JObj o1) k = obj_get o1 k"
| "json_get _ k = None"

text \<open>\<open>Value\<close> indexed by a name or a position: \<open>null\<close> where there is nothing.\<close>

definition json_at :: "json \<Rightarrow> string \<Rightarrow> json" where
  "json_at v k = (case json_get v k of Some x \<Rightarrow> x | None \<Rightarrow> JNull)"

fun json_nth :: "json \<Rightarrow> nat \<Rightarrow> json" where
  "json_nth (JArr vs) n = (if n < length vs then vs ! n else JNull)"
| "json_nth _ n = JNull"

text \<open>A \<open>json!\<close> object: its members in key order, whatever order they are written in.\<close>

definition json_object :: "(string \<times> json) list \<Rightarrow> json" where
  "json_object ms = JObj (fold (\<lambda>(k, v) o1. obj_insert k v o1) ms [])"

definition json_opt :: "('a \<Rightarrow> json) \<Rightarrow> 'a option \<Rightarrow> json" where
  "json_opt f x = (case x of None \<Rightarrow> JNull | Some y \<Rightarrow> f y)"

lemma as_i64_range: "as_i64 v = Some i \<Longrightarrow> in_i64 i"
  by (cases v rule: as_i64.cases; cases "case v of JNum n \<Rightarrow> n | _ \<Rightarrow> PosInt 0")
    (auto simp: checked_i64_Some)

lemma as_i64_json_of_i64 [simp]: "in_i64 i \<Longrightarrow> as_i64 (json_of_i64 i) = Some i"
  by (auto simp: json_of_i64_def checked_i64_def)

lemma obj_get_insert [simp]: "obj_get (obj_insert k v o1) k' = (if k' = k then Some v else obj_get o1 k')"
  by (induction k v o1 rule: obj_insert.induct) (auto simp: obj_get_def)

lemma obj_get_Nil [simp]: "obj_get [] k = None"
  by (simp add: obj_get_def)

text \<open>The entries of an object are in key order without repeats, which inserting keeps.\<close>

definition obj_ok :: "object \<Rightarrow> bool" where
  "obj_ok o1 \<longleftrightarrow> sorted_wrt (<) (map fst o1)"

lemma keys_obj_insert [simp]: "fst ` set (obj_insert k v o1) = insert k (fst ` set o1)"
  by (induction k v o1 rule: obj_insert.induct) auto

lemma obj_ok_insert: "obj_ok o1 \<Longrightarrow> obj_ok (obj_insert k v o1)"
proof (induction k v o1 rule: obj_insert.induct)
  case (2 k v k' v' rest)
  then show ?case
    by (auto simp: obj_ok_def image_iff dest: order_less_trans)
qed (simp add: obj_ok_def)

lemma json_get_object: "json_get (json_object ms) k = map_of (rev ms) k"
proof -
  have "obj_get (fold (\<lambda>(k, v) o1. obj_insert k v o1) ms o1) k =
      (case map_of (rev ms) k of Some v \<Rightarrow> Some v | None \<Rightarrow> obj_get o1 k)" for o1
    by (induction ms arbitrary: o1) (auto simp: map_add_def split: option.splits)
  then show ?thesis by (simp add: json_object_def split: option.splits)
qed

lemma json_at_object: "json_at (json_object ms) k = (case map_of (rev ms) k of Some v \<Rightarrow> v | None \<Rightarrow> JNull)"
  by (simp add: json_at_def json_get_object)

end
