(* ===== verification/External.thy ===== *)
theory External
  imports Prelude Json
begin

text \<open>
  The code the repository calls and does not contain, as one record of functions: the hash of the
  \<open>sha2\<close> crate, the two forms a \<open>uuid::Uuid\<close> is written in, and \<open>serde_json\<close>'s reading and writing
  of a document. A definition that uses any of them takes the record as its argument, and what a
  lemma relies on is one of the predicates below, each a documented behaviour of that code.
\<close>

record outside =
  sha256 :: "bytes \<Rightarrow> bytes"
  uuid_bytes :: "uuid \<Rightarrow> bytes"
  uuid_text :: "uuid \<Rightarrow> string"
  json_parse :: "bytes \<Rightarrow> json option"
  json_text :: "json \<Rightarrow> string"

text \<open>A digest is 32 bytes whatever was hashed.\<close>

definition digest_width :: "outside \<Rightarrow> bool" where
  "digest_width e \<longleftrightarrow> (\<forall>x. length (sha256 e x) = 32)"

text \<open>A UUID is 16 bytes, and neither of its forms is shared by two of them.\<close>

definition uuid_forms :: "outside \<Rightarrow> bool" where
  "uuid_forms e \<longleftrightarrow> (\<forall>u. length (uuid_bytes e u) = 16) \<and> inj (uuid_bytes e) \<and> inj (uuid_text e) \<and>
     (\<forall>u. length (uuid_text e u) = 36)"

text \<open>No two of the byte strings in a set share a digest.\<close>

definition no_collision :: "outside \<Rightarrow> bytes set \<Rightarrow> bool" where
  "no_collision e S \<longleftrightarrow> inj_on (sha256 e) S"

lemma digest_widthD [simp]: "digest_width e \<Longrightarrow> length (sha256 e x) = 32"
  by (simp add: digest_width_def)

lemma no_collisionD: "no_collision e S \<Longrightarrow> sha256 e x = sha256 e y \<Longrightarrow> x \<in> S \<Longrightarrow> y \<in> S \<Longrightarrow> x = y"
  by (auto simp: no_collision_def inj_on_def)

lemma no_collision_mono: "no_collision e S \<Longrightarrow> T \<subseteq> S \<Longrightarrow> no_collision e T"
  by (auto simp: no_collision_def intro: inj_on_subset)

lemma uuid_formsD:
  assumes "uuid_forms e"
  shows "length (uuid_bytes e u) = 16" "length (uuid_text e u) = 36"
    "uuid_bytes e u = uuid_bytes e v \<longleftrightarrow> u = v" "uuid_text e u = uuid_text e v \<longleftrightarrow> u = v"
  using assms by (auto simp: uuid_forms_def inj_eq)

lemma uuid_text_option:
  "uuid_forms e \<Longrightarrow> map_option (uuid_text e) a = map_option (uuid_text e) b \<longleftrightarrow> a = b"
  by (cases a; cases b) (auto simp: uuid_formsD)

section \<open>A concrete instance, for witnesses\<close>

text \<open>
  Functions with the documented behaviour, on which hypotheses about the outside are shown to be
  satisfiable: the last 32 bytes for a digest, and the digits of the number a UUID is.
\<close>

definition toy_digest :: "bytes \<Rightarrow> bytes" where
  "toy_digest x = take 32 (rev x @ replicate 32 (CHR 0x00))"

definition toy_uuid_bytes :: "uuid \<Rightarrow> bytes" where
  "toy_uuid_bytes u = u64_le_bytes (unat u mod 2 ^ 64) @ u64_le_bytes (unat u div 2 ^ 64)"

definition toy_uuid_text :: "uuid \<Rightarrow> string" where
  "toy_uuid_text u = hex_encode (toy_uuid_bytes u) @ ''----''"

definition toy_outside :: outside where
  "toy_outside = \<lparr>sha256 = toy_digest, uuid_bytes = toy_uuid_bytes, uuid_text = toy_uuid_text,
     json_parse = (\<lambda>b. Some (JStr b)), json_text = (\<lambda>v. case v of JStr s \<Rightarrow> s | _ \<Rightarrow> [])\<rparr>"

lemma toy_digest_width [simp]: "digest_width toy_outside"
  by (auto simp: digest_width_def toy_outside_def toy_digest_def min_def)

lemma toy_uuid_bytes_inj: "toy_uuid_bytes u = toy_uuid_bytes v \<Longrightarrow> u = v"
proof -
  assume eq: "toy_uuid_bytes u = toy_uuid_bytes v"
  have small: "unat w div 2 ^ 64 < 2 ^ 64" for w :: uuid
    using unsigned_less [of w] less_mult_imp_div_less [of "unat w" "2 ^ 64" "2 ^ 64"] by simp
  note small [simplified]
  then have "unat u mod 2 ^ 64 = unat v mod 2 ^ 64" and "unat u div 2 ^ 64 = unat v div 2 ^ 64"
    using eq by (auto simp: toy_uuid_bytes_def intro!: u64_le_bytes_inj)
  then have "unat u = unat v" by (metis div_mult_mod_eq)
  then show ?thesis by (simp add: word_unat_eq_iff)
qed

lemma length_hex_encode [simp]: "length (hex_encode b) = 2 * length b"
  by (induction b) (simp_all add: hex_encode_def)

lemma toy_uuid_forms [simp]: "uuid_forms toy_outside"
proof -
  have "length (toy_uuid_bytes u) = 16" for u by (simp add: toy_uuid_bytes_def)
  then show ?thesis
    by (auto simp: uuid_forms_def toy_outside_def toy_uuid_text_def inj_def
        dest!: hex_encode_inj toy_uuid_bytes_inj)
qed

text \<open>Two inputs with different last bytes have different toy digests.\<close>

lemma toy_digest_last:
  assumes "toy_digest (x @ y) = toy_digest (z @ w)" and "length y = length w" and "length y \<le> 32"
  shows "y = w"
proof -
  have "take (length y) (toy_digest (x @ y)) = rev y" "take (length w) (toy_digest (z @ w)) = rev w"
    using assms(2,3) by (simp_all add: toy_digest_def)
  then show ?thesis using assms(1,2) by (metis rev_is_rev_conv)
qed

end
