(* ===== verification/Merkle.thy ===== *)
theory Merkle
  imports External
begin

text \<open>
  The tree both commitments are built over, from \<open>crates/core/src/egress/commit.rs\<close>: the
  length-prefixed fields of a leaf, one node, the carried-up levels, the order leaves are put in, a
  path from one leaf to the root, and what a path folds to. A hash is its 32 bytes; a streaming
  digest is the digest of what was fed to it, in order. The tree's symbolic form, \<open>merkle\<close>, is what
  the binding of a root to its leaves is proved on.
\<close>

section \<open>Hashing\<close>

type_synonym hash = bytes

fun field_bytes :: "string option \<Rightarrow> bytes" where
  "field_bytes (Some v) = CHR 0x01 # u64_le_bytes (length v) @ v"
| "field_bytes None = [CHR 0x00]"

definition hash_fields :: "string option list \<Rightarrow> bytes" where
  "hash_fields fs = concat (map field_bytes fs)"

definition node_with :: "outside \<Rightarrow> bytes \<Rightarrow> hash \<Rightarrow> hash \<Rightarrow> hash" where
  "node_with e tag l r = sha256 e (tag @ l @ r)"

definition empty_root_with :: "outside \<Rightarrow> bytes \<Rightarrow> hash" where
  "empty_root_with e tag = sha256 e tag"

section \<open>Levels\<close>

text \<open>One level up: the pairs combined in order, an odd one at the end carried up as it is.\<close>

fun pair_up :: "('a \<Rightarrow> 'a \<Rightarrow> 'a) \<Rightarrow> 'a list \<Rightarrow> 'a list" where
  "pair_up f (a # b # rest) = f a b # pair_up f rest"
| "pair_up f rest = rest"

lemma length_pair_up [simp]: "length (pair_up f xs) = (length xs + 1) div 2"
  by (induction f xs rule: pair_up.induct) auto

function climb :: "('a \<Rightarrow> 'a \<Rightarrow> 'a) \<Rightarrow> 'a list \<Rightarrow> 'a" where
  "climb f level = (if length level > 1 then climb f (pair_up f level) else hd level)"
  by pat_completeness auto
termination
  by (relation "measure (\<lambda>(f, level). length level)") auto

declare climb.simps [simp del]

lemma climb_single [simp]: "climb f [x] = x"
  by (simp add: climb.simps)

lemma climb_more: "length level > 1 \<Longrightarrow> climb f level = climb f (pair_up f level)"
  by (subst climb.simps) simp

definition root_with :: "outside \<Rightarrow> bytes \<Rightarrow> bytes \<Rightarrow> hash list \<Rightarrow> hash" where
  "root_with e node_tag empty_tag leaves =
     (if leaves = [] then empty_root_with e empty_tag else climb (node_with e node_tag) leaves)"

text \<open>Sorted and deduplicated, by the bytes of the hash.\<close>

definition ordered :: "hash list \<Rightarrow> hash list" where
  "ordered leaves = remdups_adj (sort leaves)"

section \<open>Paths\<close>

text \<open>One step up the tree: a sibling, and whether it is the left of the pair.\<close>

record path_step =
  step_hash :: hash
  step_left :: bool

function path_up :: "(hash \<Rightarrow> hash \<Rightarrow> hash) \<Rightarrow> hash list \<Rightarrow> nat \<Rightarrow> path_step list" where
  "path_up f level index =
     (if length level > 1 then
        (if index + 1 < length level \<or> index mod 2 = 1
         then [\<lparr>step_hash = level ! (if index mod 2 = 0 then index + 1 else index - 1),
                step_left = (index mod 2 = 1)\<rparr>]
         else []) @
        path_up f (pair_up f level) (index div 2)
      else [])"
  by pat_completeness auto
termination
  by (relation "measure (\<lambda>(f, level, index). length level)") auto

declare path_up.simps [simp del]

definition fold_step :: "(hash \<Rightarrow> hash \<Rightarrow> hash) \<Rightarrow> hash \<Rightarrow> path_step \<Rightarrow> hash" where
  "fold_step f h s = (if step_left s then f (step_hash s) h else f h (step_hash s))"

definition fold_path :: "(hash \<Rightarrow> hash \<Rightarrow> hash) \<Rightarrow> hash \<Rightarrow> path_step list \<Rightarrow> hash" where
  "fold_path f h steps = foldl (fold_step f) h steps"

section \<open>Field lists decode\<close>

text \<open>A field whose length is a \<open>u64\<close>, which every string in memory has.\<close>

definition fits_u64 :: "string option \<Rightarrow> bool" where
  "fits_u64 f \<longleftrightarrow> (case f of Some v \<Rightarrow> length v < 2 ^ 64 | None \<Rightarrow> True)"

lemma field_bytes_decode:
  assumes "field_bytes a @ x = field_bytes b @ y" and "fits_u64 a" and "fits_u64 b"
  shows "a = b \<and> x = y"
proof (cases a)
  case None
  then show ?thesis using assms by (cases b) auto
next
  case (Some v)
  then obtain w where b: "b = Some w" using assms(1) by (cases b) auto
  have "u64_le_bytes (length v) = u64_le_bytes (length w)" and rest: "v @ x = w @ y"
    using assms(1) Some b by (auto simp: append_eq_append_conv)
  then have "length v = length w"
    using assms Some b by (auto simp: fits_u64_def intro!: u64_le_bytes_inj)
  then show ?thesis using rest Some b by simp
qed

lemma hash_fields_simps [simp]:
  "hash_fields [] = []" "hash_fields (f # fs) = field_bytes f @ hash_fields fs"
  by (simp_all add: hash_fields_def)

lemma hash_fields_append [simp]: "hash_fields (fs @ gs) = hash_fields fs @ hash_fields gs"
  by (simp add: hash_fields_def)

lemma field_bytes_nonempty [simp]: "field_bytes f \<noteq> []"
  by (cases f) auto

lemma hash_fields_inj:
  "hash_fields fs = hash_fields gs \<Longrightarrow> list_all fits_u64 fs \<Longrightarrow> list_all fits_u64 gs \<Longrightarrow> fs = gs"
proof (induction fs arbitrary: gs)
  case Nil
  then show ?case by (cases gs) auto
next
  case (Cons f fs)
  then obtain g gs' where gs: "gs = g # gs'" by (cases gs) auto
  with Cons.prems have "f = g \<and> hash_fields fs = hash_fields gs'"
    by (intro field_bytes_decode) auto
  with Cons gs show ?case by auto
qed

section \<open>The symbolic tree\<close>

datatype merkle = Tip bytes | Join merkle merkle

fun tips :: "merkle \<Rightarrow> bytes list" where
  "tips (Tip x) = [x]"
| "tips (Join l r) = tips l @ tips r"

fun tree_hash :: "outside \<Rightarrow> bytes \<Rightarrow> merkle \<Rightarrow> hash" where
  "tree_hash e tag (Tip x) = sha256 e x"
| "tree_hash e tag (Join l r) = node_with e tag (tree_hash e tag l) (tree_hash e tag r)"

text \<open>Every byte string hashed on the way to the root.\<close>

fun tree_inputs :: "outside \<Rightarrow> bytes \<Rightarrow> merkle \<Rightarrow> bytes set" where
  "tree_inputs e tag (Tip x) = {x}"
| "tree_inputs e tag (Join l r) =
     insert (tag @ tree_hash e tag l @ tree_hash e tag r) (tree_inputs e tag l \<union> tree_inputs e tag r)"

definition tree_of :: "bytes list \<Rightarrow> merkle" where
  "tree_of xs = climb Join (map Tip xs)"

lemma pair_up_map:
  "(\<forall>a b. h (g a b) = f (h a) (h b)) \<Longrightarrow> map h (pair_up g xs) = pair_up f (map h xs)"
  by (induction g xs rule: pair_up.induct) simp_all

lemma pair_up_Nil_iff [simp]: "pair_up f xs = [] \<longleftrightarrow> xs = []"
  by (cases "(f, xs)" rule: pair_up.cases) simp_all

lemma climb_map:
  "(\<forall>a b. h (g a b) = f (h a) (h b)) \<Longrightarrow> xs \<noteq> [] \<Longrightarrow> h (climb g xs) = climb f (map h xs)"
proof (induction g xs rule: climb.induct)
  case (1 g level)
  show ?case
  proof (cases "length level > 1")
    case True
    then have "pair_up g level \<noteq> []" using 1 by simp
    from 1(1) [OF True 1(2) this] show ?thesis
      using True pair_up_map [OF 1(2)] by (simp add: climb_more)
  next
    case False
    then obtain x where "level = [x]" using 1(3) by (cases level) auto
    then show ?thesis by simp
  qed
qed

text \<open>The root over the hashes of some leaves is the hash of the tree over the leaves.\<close>

lemma root_is_tree_hash:
  assumes "xs \<noteq> []"
  shows "climb (node_with e tag) (map (sha256 e) xs) = tree_hash e tag (tree_of xs)"
proof -
  have "map (tree_hash e tag) (map Tip xs) = map (sha256 e) xs" by simp
  with climb_map [of "tree_hash e tag" Join "node_with e tag" "map Tip xs"] assms show ?thesis
    by (simp only: tree_of_def tree_hash.simps simp_thms map_is_Nil_conv)
qed

lemma tips_pair_up: "concat (map tips (pair_up Join ts)) = concat (map tips ts)"
  by (induction "Join" ts rule: pair_up.induct) simp_all

lemma tips_climb: "ts \<noteq> [] \<Longrightarrow> tips (climb Join ts) = concat (map tips ts)"
proof (induction Join ts rule: climb.induct)
  case (1 level)
  show ?case
  proof (cases "length level > 1")
    case True
    then show ?thesis using 1 by (simp add: climb_more tips_pair_up)
  next
    case False
    then obtain t where "level = [t]" using 1(2) by (cases level) auto
    then show ?thesis by simp
  qed
qed

lemma tips_tree_of [simp]: "xs \<noteq> [] \<Longrightarrow> tips (tree_of xs) = xs"
  by (simp add: tree_of_def tips_climb o_def)

lemma tips_inputs: "set (tips t) \<subseteq> tree_inputs e tag t"
  by (induction t) auto

section \<open>A root binds its leaves\<close>

lemma length_tree_hash [simp]: "digest_width e \<Longrightarrow> length (tree_hash e tag t) = 32"
  by (cases t) (simp_all add: node_with_def)

lemma tree_hash_inj:
  assumes "digest_width e" and "no_collision e S"
    and "tree_inputs e tag t \<subseteq> S" and "tree_inputs e tag u \<subseteq> S"
    and "list_all (\<lambda>x. \<not> prefix tag x) (tips t)" and "list_all (\<lambda>x. \<not> prefix tag x) (tips u)"
    and "tree_hash e tag t = tree_hash e tag u"
  shows "t = u"
  using assms(3-7)
proof (induction t arbitrary: u)
  case (Tip x)
  show ?case
  proof (cases u)
    case (Tip y)
    have "sha256 e x = sha256 e y" "x \<in> S" "y \<in> S" using Tip.prems \<open>u = Tip y\<close> by simp_all
    then show ?thesis using no_collisionD [OF assms(2)] \<open>u = Tip y\<close> by simp
  next
    case (Join l r)
    have "sha256 e x = sha256 e (tag @ tree_hash e tag l @ tree_hash e tag r)"
      "x \<in> S" "tag @ tree_hash e tag l @ tree_hash e tag r \<in> S"
      using Tip.prems Join by (simp_all add: node_with_def)
    then have "x = tag @ tree_hash e tag l @ tree_hash e tag r" by (rule no_collisionD [OF assms(2)])
    then show ?thesis using Tip.prems(3) by simp
  qed
next
  case (Join l r)
  show ?case
  proof (cases u)
    case (Tip y)
    have "sha256 e y = sha256 e (tag @ tree_hash e tag l @ tree_hash e tag r)"
      "y \<in> S" "tag @ tree_hash e tag l @ tree_hash e tag r \<in> S"
      using Join.prems Tip by (simp_all add: node_with_def)
    then have "y = tag @ tree_hash e tag l @ tree_hash e tag r" by (rule no_collisionD [OF assms(2)])
    then show ?thesis using Join.prems(4) Tip by simp
  next
    case (Join l' r')
    have "tag @ tree_hash e tag l @ tree_hash e tag r = tag @ tree_hash e tag l' @ tree_hash e tag r'"
      by (rule no_collisionD [OF assms(2)]) (use Join.prems Join in \<open>simp_all add: node_with_def\<close>)
    then have "tree_hash e tag l = tree_hash e tag l'" "tree_hash e tag r = tree_hash e tag r'"
      using assms(1) by simp_all
    moreover have "tree_inputs e tag l \<subseteq> S" "tree_inputs e tag r \<subseteq> S"
      "tree_inputs e tag l' \<subseteq> S" "tree_inputs e tag r' \<subseteq> S"
      using Join.prems(1,2) Join by simp_all
    moreover have "list_all (\<lambda>x. \<not> prefix tag x) (tips l)" "list_all (\<lambda>x. \<not> prefix tag x) (tips r)"
      "list_all (\<lambda>x. \<not> prefix tag x) (tips l')" "list_all (\<lambda>x. \<not> prefix tag x) (tips r')"
      using Join.prems(3,4) Join by simp_all
    ultimately show ?thesis using Join.IH Join by blast
  qed
qed

section \<open>Paths\<close>

lemma fold_path_simps [simp]:
  "fold_path f h [] = h" "fold_path f h (s # p) = fold_path f (fold_step f h s) p"
  by (simp_all add: fold_path_def)

lemma fold_path_snoc: "fold_path f h (p @ [s]) = fold_step f (fold_path f h p) s"
  by (simp add: fold_path_def)

lemma nth_pair_up:
  "i < length xs \<Longrightarrow> pair_up f xs ! (i div 2) =
     (if i mod 2 = 1 then f (xs ! (i - 1)) (xs ! i)
      else if i + 1 < length xs then f (xs ! i) (xs ! (i + 1)) else xs ! i)"
proof (induction f xs arbitrary: i rule: pair_up.induct)
  case (1 f a b rest)
  consider "i = 0" | "i = 1" | j where "i = Suc (Suc j)" by (cases i; cases "i - 1") auto
  then show ?case
    using 1 by cases (auto simp: nth_Cons split: nat.splits)
qed auto

text \<open>The path of a leaf folds, from the leaf's hash, to the root.\<close>

lemma fold_path_up: "i < length level \<Longrightarrow> fold_path f (level ! i) (path_up f level i) = climb f level"
proof (induction f level i rule: path_up.induct)
  case (1 f level i)
  show ?case
  proof (cases "length level > 1")
    case True
    have "fold_path f (level ! i) (path_up f level i) =
      fold_path f (pair_up f level ! (i div 2)) (path_up f (pair_up f level) (i div 2))"
      using True 1(2) by (subst path_up.simps) (auto simp: nth_pair_up fold_step_def)
    moreover have "i div 2 < length (pair_up f level)" using 1(2) by simp
    ultimately show ?thesis using 1(1) [OF True] climb_more [OF True] by simp
  next
    case False
    then obtain h where "level = [h]" using 1(2) by (cases level) auto
    then show ?thesis using 1(2) by (simp add: path_up.simps)
  qed
qed

text \<open>A path is no longer than the tree is deep.\<close>

lemma length_path_up: "length level \<le> 2 ^ k \<Longrightarrow> length (path_up f level i) \<le> k"
proof (induction k arbitrary: level i)
  case 0
  then show ?case by (simp add: path_up.simps)
next
  case (Suc k)
  have "length (path_up f (pair_up f level) (i div 2)) \<le> k" using Suc by simp
  then show ?case by (subst path_up.simps) auto
qed

lemma path_up_width: "\<forall>h \<in> set level. length h = 32 \<Longrightarrow> (\<And>a b. length (f a b) = 32) \<Longrightarrow>
   i < length level \<Longrightarrow> s \<in> set (path_up f level i) \<Longrightarrow> length (step_hash s) = 32"
proof (induction f level i rule: path_up.induct)
  case (1 f level i)
  have next_level: "\<forall>h \<in> set (pair_up f level). length h = 32"
    using 1(2,3) by (induction f level rule: pair_up.induct) auto
  show ?case
    using 1(1) [OF _ next_level 1(3)] 1(2,4,5)
    by (subst (asm) path_up.simps) (auto split: if_splits)
qed

text \<open>What a path hashes on the way from a leaf.\<close>

definition step_input :: "bytes \<Rightarrow> hash \<Rightarrow> path_step \<Rightarrow> bytes" where
  "step_input tag h s = (if step_left s then tag @ step_hash s @ h else tag @ h @ step_hash s)"

fun path_inputs :: "outside \<Rightarrow> bytes \<Rightarrow> hash \<Rightarrow> path_step list \<Rightarrow> bytes set" where
  "path_inputs e tag h [] = {}"
| "path_inputs e tag h (s # p) =
     insert (step_input tag h s) (path_inputs e tag (fold_step (node_with e tag) h s) p)"

lemma fold_step_input: "fold_step (node_with e tag) h s = sha256 e (step_input tag h s)"
  by (simp add: fold_step_def node_with_def step_input_def)

lemma path_inputs_snoc:
  "path_inputs e tag h (p @ [s]) =
     insert (step_input tag (fold_path (node_with e tag) h p) s) (path_inputs e tag h p)"
  by (induction p arbitrary: h) auto

text \<open>A path that folds to the hash of a tree starts at one of its leaves.\<close>

lemma path_reaches_tip:
  assumes "digest_width e" and "no_collision e S" and "\<not> prefix tag x" and "x \<in> S"
    and "tree_inputs e tag t \<subseteq> S" and "path_inputs e tag (sha256 e x) p \<subseteq> S"
    and "list_all (\<lambda>s. length (step_hash s) = 32) p"
    and "list_all (\<lambda>x. \<not> prefix tag x) (tips t)"
    and "fold_path (node_with e tag) (sha256 e x) p = tree_hash e tag t"
  shows "x \<in> set (tips t)"
  using assms(5-9)
proof (induction p arbitrary: t rule: rev_induct)
  case Nil
  then have "tree_hash e tag (Tip x) = tree_hash e tag t" by simp
  then have "Tip x = t"
    by (rule tree_hash_inj [OF assms(1,2), rotated -1]) (use Nil assms in simp_all)
  then show ?case by auto
next
  case (snoc s p)
  let ?acc = "fold_path (node_with e tag) (sha256 e x) p"
  have acc: "length ?acc = 32"
    using assms(1) by (cases p rule: rev_cases) (simp_all add: fold_path_snoc fold_step_input)
  have inS: "step_input tag ?acc s \<in> S" using snoc.prems(2) by (simp add: path_inputs_snoc)
  have top: "sha256 e (step_input tag ?acc s) = tree_hash e tag t"
    using snoc.prems(5) by (simp add: fold_path_snoc fold_step_input)
  show ?case
  proof (cases t)
    case (Tip y)
    have "step_input tag ?acc s = y"
      by (rule no_collisionD [OF assms(2) _ inS]) (use top Tip snoc.prems(1) in simp_all)
    then show ?thesis using snoc.prems(4) Tip by (auto simp: step_input_def split: if_splits)
  next
    case (Join l r)
    have "step_input tag ?acc s = tag @ tree_hash e tag l @ tree_hash e tag r"
      by (rule no_collisionD [OF assms(2) _ inS]) (use top Join snoc.prems(1) in \<open>simp_all add: node_with_def\<close>)
    then have "?acc = tree_hash e tag l \<or> ?acc = tree_hash e tag r"
      using snoc.prems(3) acc assms(1) by (auto simp: step_input_def split: if_splits)
    moreover have "tree_inputs e tag l \<subseteq> S" "tree_inputs e tag r \<subseteq> S" "path_inputs e tag (sha256 e x) p \<subseteq> S"
      "list_all (\<lambda>s. length (step_hash s) = 32) p"
      "list_all (\<lambda>x. \<not> prefix tag x) (tips l)" "list_all (\<lambda>x. \<not> prefix tag x) (tips r)"
      using snoc.prems Join by (simp_all add: path_inputs_snoc)
    ultimately have "x \<in> set (tips l) \<or> x \<in> set (tips r)" using snoc.IH by blast
    then show ?thesis using Join by auto
  qed
qed

section \<open>Leaves in order\<close>

lemma set_ordered [simp]: "set (ordered l) = set l"
  by (simp add: ordered_def)

lemma ordered_Nil_iff [simp]: "ordered l = [] \<longleftrightarrow> l = []"
  by (metis set_ordered set_empty)

lemma sorted_ordered: "sorted (ordered l) \<and> distinct (ordered l)"
proof -
  have "sorted (remdups_adj xs) \<and> distinct (remdups_adj xs)" if "sorted xs" for xs :: "hash list"
    using that by (induction xs rule: remdups_adj.induct) (auto simp: le_less dest: antisym_conv2)
  then show ?thesis by (simp add: ordered_def)
qed

lemma ordered_set_eq: "set a = set b \<Longrightarrow> ordered a = ordered b"
  using sorted_ordered [of a] sorted_ordered [of b] by (intro sorted_distinct_set_unique) auto

lemma length_ordered: "length (ordered l) \<le> length l"
  by (metis ordered_def length_sort remdups_adj_length)

section \<open>The contract of a commitment\<close>

text \<open>
  What is hashed to commit to a set of leaves, given by their inputs: the leaves themselves, the
  nodes of their tree, and the tag an empty set is committed to with.
\<close>

definition in_order :: "outside \<Rightarrow> bytes list \<Rightarrow> bytes list" where
  "in_order e inputs = sort_key (sha256 e) (remdups inputs)"

definition committed_inputs :: "outside \<Rightarrow> bytes \<Rightarrow> bytes \<Rightarrow> bytes list \<Rightarrow> bytes set" where
  "committed_inputs e node_tag empty_tag inputs =
     insert empty_tag (if inputs = [] then {} else tree_inputs e node_tag (tree_of (in_order e inputs)))"

lemma set_in_order [simp]: "set (in_order e xs) = set xs"
  by (simp add: in_order_def)

lemma in_order_Nil_iff [simp]: "in_order e xs = [] \<longleftrightarrow> xs = []"
  by (metis set_in_order set_empty)

lemma ordered_hashes: "no_collision e (set xs) \<Longrightarrow> ordered (map (sha256 e) xs) = map (sha256 e) (in_order e xs)"
proof -
  assume nc: "no_collision e (set xs)"
  have "sorted (map (sha256 e) (in_order e xs))" by (simp add: in_order_def)
  moreover have "distinct (map (sha256 e) (in_order e xs))"
    using nc by (simp add: in_order_def no_collision_def distinct_map inj_on_def)
  ultimately show ?thesis
    using sorted_ordered [of "map (sha256 e) xs"] by (intro sorted_distinct_set_unique) auto
qed

lemma committed_tips: "xs \<noteq> [] \<Longrightarrow> set xs \<subseteq> committed_inputs e nt et xs"
  using tips_inputs [of "tree_of (in_order e xs)" e nt] by (auto simp: committed_inputs_def)

text \<open>
  The interface a commitment is proved against: a leaf's input never begins like a node's and is
  never the empty set's tag.
\<close>

locale commitment =
  fixes node_tag :: bytes and empty_tag :: bytes and leaf_input :: "'a \<Rightarrow> bytes"
  assumes leaf_not_node: "\<not> prefix node_tag (leaf_input x)"
    and leaf_not_empty: "leaf_input x \<noteq> empty_tag"
    and empty_not_node: "\<not> prefix node_tag empty_tag"
begin

lemma root_as_tree:
  assumes "xs \<noteq> []" and "no_collision e (committed_inputs e node_tag empty_tag (map leaf_input xs))"
  shows "root_with e node_tag empty_tag (ordered (map (sha256 e) (map leaf_input xs))) =
    tree_hash e node_tag (tree_of (in_order e (map leaf_input xs)))"
proof -
  have "no_collision e (set (map leaf_input xs))"
    using assms committed_tips [of "map leaf_input xs" e node_tag empty_tag]
    by (intro no_collision_mono [OF assms(2)]) simp
  from ordered_hashes [OF this] assms(1) show ?thesis
    by (simp add: root_with_def root_is_tree_hash del: map_map)
qed

lemma fresh_tips: "xs \<noteq> [] \<Longrightarrow>
    list_all (\<lambda>x. \<not> prefix node_tag x) (tips (tree_of (in_order e (map leaf_input xs))))"
  by (auto simp: list_all_iff leaf_not_node)

text \<open>The root of something is never the root of nothing.\<close>

lemma root_not_empty:
  assumes "xs \<noteq> []" and "no_collision e (committed_inputs e node_tag empty_tag (map leaf_input xs))"
  shows "root_with e node_tag empty_tag (ordered (map (sha256 e) (map leaf_input xs))) \<noteq>
    empty_root_with e empty_tag"
proof
  let ?t = "tree_of (in_order e (map leaf_input xs))"
  assume "root_with e node_tag empty_tag (ordered (map (sha256 e) (map leaf_input xs))) = empty_root_with e empty_tag"
  then have eq: "tree_hash e node_tag ?t = sha256 e empty_tag"
    using root_as_tree [OF assms] by (simp add: empty_root_with_def)
  have sub: "tree_inputs e node_tag ?t \<subseteq> committed_inputs e node_tag empty_tag (map leaf_input xs)"
    using assms(1) by (auto simp: committed_inputs_def)
  have et: "empty_tag \<in> committed_inputs e node_tag empty_tag (map leaf_input xs)"
    by (simp add: committed_inputs_def)
  show False
  proof (cases ?t)
    case (Tip x)
    then have "x = empty_tag" using eq sub et by (auto intro: no_collisionD [OF assms(2)])
    moreover have "x \<in> set (tips ?t)" using Tip by simp
    ultimately show False using assms(1) by (auto simp: leaf_not_empty [symmetric])
  next
    case (Join l r)
    then have "node_tag @ tree_hash e node_tag l @ tree_hash e node_tag r = empty_tag"
      using eq sub et by (auto simp: node_with_def intro: no_collisionD [OF assms(2)])
    then show False using empty_not_node by (metis prefixI)
  qed
qed

text \<open>One root commits to one set of leaves.\<close>

lemma root_binds:
  assumes width: "digest_width e"
    and nc: "no_collision e (committed_inputs e node_tag empty_tag (map leaf_input xs) \<union>
      committed_inputs e node_tag empty_tag (map leaf_input ys))"
    and eq: "root_with e node_tag empty_tag (ordered (map (sha256 e) (map leaf_input xs))) =
      root_with e node_tag empty_tag (ordered (map (sha256 e) (map leaf_input ys)))"
  shows "leaf_input ` set xs = leaf_input ` set ys"
proof -
  note nx = no_collision_mono [OF nc Un_upper1] and ny = no_collision_mono [OF nc Un_upper2]
  consider "xs = []" "ys = []" | "xs = []" "ys \<noteq> []" | "xs \<noteq> []" "ys = []" | "xs \<noteq> []" "ys \<noteq> []" by blast
  then show ?thesis
  proof cases
    case 4
    let ?t = "tree_of (in_order e (map leaf_input xs))" and ?u = "tree_of (in_order e (map leaf_input ys))"
    have "tree_hash e node_tag ?t = tree_hash e node_tag ?u"
      using eq root_as_tree [OF 4(1) nx] root_as_tree [OF 4(2) ny] by simp
    then have "?t = ?u"
      by (rule tree_hash_inj [OF width nc, rotated -1])
        (use 4 fresh_tips in \<open>auto simp: committed_inputs_def\<close>)
    then have "set (tips ?t) = set (tips ?u)" by simp
    then show ?thesis using 4 by simp
  qed (use eq root_not_empty [OF _ nx] root_not_empty [OF _ ny] in \<open>auto simp: root_with_def\<close>)
qed

lemma path_not_empty:
  assumes nc: "no_collision e (insert empty_tag
      (insert (leaf_input y) (path_inputs e node_tag (sha256 e (leaf_input y)) p)))"
  shows "fold_path (node_with e node_tag) (sha256 e (leaf_input y)) p \<noteq> empty_root_with e empty_tag"
proof (cases p rule: rev_cases)
  case Nil
  then show ?thesis using no_collisionD [OF nc, of "leaf_input y" empty_tag] leaf_not_empty
    by (auto simp: empty_root_with_def)
next
  case (snoc q s)
  let ?x = "step_input node_tag (fold_path (node_with e node_tag) (sha256 e (leaf_input y)) q) s"
  have "prefix node_tag ?x" by (simp add: step_input_def)
  then have "?x \<noteq> empty_tag" using empty_not_node by auto
  moreover have "?x \<in> path_inputs e node_tag (sha256 e (leaf_input y)) p"
    by (simp add: snoc path_inputs_snoc)
  ultimately show ?thesis using no_collisionD [OF nc, of ?x empty_tag]
    by (auto simp: snoc fold_path_snoc fold_step_input empty_root_with_def)
qed

text \<open>A path that folds to the root starts at a committed leaf.\<close>

lemma path_binds:
  assumes width: "digest_width e"
    and nc: "no_collision e (committed_inputs e node_tag empty_tag (map leaf_input xs) \<union>
      insert (leaf_input y) (path_inputs e node_tag (sha256 e (leaf_input y)) p))"
    and steps: "list_all (\<lambda>s. length (step_hash s) = 32) p"
    and folds: "fold_path (node_with e node_tag) (sha256 e (leaf_input y)) p =
      root_with e node_tag empty_tag (ordered (map (sha256 e) (map leaf_input xs)))"
  shows "leaf_input y \<in> leaf_input ` set xs"
proof -
  have some: "xs \<noteq> []"
  proof
    assume "xs = []"
    then have "fold_path (node_with e node_tag) (sha256 e (leaf_input y)) p = empty_root_with e empty_tag"
      using folds by (simp add: root_with_def)
    moreover have "no_collision e (insert empty_tag
        (insert (leaf_input y) (path_inputs e node_tag (sha256 e (leaf_input y)) p)))"
      by (rule no_collision_mono [OF nc]) (auto simp: committed_inputs_def)
    ultimately show False using path_not_empty by blast
  qed
  let ?t = "tree_of (in_order e (map leaf_input xs))"
  note nx = no_collision_mono [OF nc Un_upper1]
  have "leaf_input y \<in> set (tips ?t)"
  proof (rule path_reaches_tip [OF width nc])
    show "fold_path (node_with e node_tag) (sha256 e (leaf_input y)) p = tree_hash e node_tag ?t"
      using folds root_as_tree [OF some nx] by simp
  qed (use some steps fresh_tips leaf_not_node in \<open>auto simp: committed_inputs_def\<close>)
  then show ?thesis using some by simp
qed

end

end
