(* ===== verification/Ip.thy ===== *)
theory Ip
  imports Prelude
begin

text \<open>
  IP addresses: the textual forms \<open>std::net\<close> parses, and the addresses an agent must never be
  pointed at (\<open>is_forbidden\<close> in \<open>crates/core/src/egress/rule.rs\<close>). An address is its number, a
  32-bit or a 128-bit word.
\<close>

unbundle bit_operations_syntax

datatype ip = V4 "32 word" | V6 "128 word"

section \<open>Parsing, as the standard library does it\<close>

definition to_digit :: "nat \<Rightarrow> char \<Rightarrow> nat option" where
  "to_digit radix c =
     (let v = (if ascii_digit c then byte_val c - 48
               else if ascii_lower c then byte_val c - 87
               else if ascii_upper c then byte_val c - 55
               else radix)
      in if v < radix then Some v else None)"

fun read_digits :: "nat \<Rightarrow> string \<Rightarrow> nat list \<times> string" where
  "read_digits radix [] = ([], [])"
| "read_digits radix (c # cs) =
     (case to_digit radix c of
        None \<Rightarrow> ([], c # cs)
      | Some d \<Rightarrow> (case read_digits radix cs of (ds, rest) \<Rightarrow> (d # ds, rest)))"

definition read_number :: "nat \<Rightarrow> nat \<Rightarrow> bool \<Rightarrow> nat \<Rightarrow> string \<Rightarrow> (nat \<times> string) option" where
  "read_number radix max_digits zero_prefix limit s =
     (case read_digits radix s of (ds, rest) \<Rightarrow>
        (let v = foldl (\<lambda>a d. a * radix + d) 0 ds
         in if ds = [] \<or> length ds > max_digits then None
            else if \<not> zero_prefix \<and> hd ds = 0 \<and> length ds > 1 then None
            else if v > limit then None
            else Some (v, rest)))"

definition read_separator :: "char \<Rightarrow> nat \<Rightarrow> (string \<Rightarrow> ('a \<times> string) option) \<Rightarrow> string \<Rightarrow> ('a \<times> string) option" where
  "read_separator sep index inner s =
     (if index = 0 then inner s
      else (case s of c # cs \<Rightarrow> if c = sep then inner cs else None | [] \<Rightarrow> None))"

definition read_ipv4 :: "string \<Rightarrow> (nat list \<times> string) option" where
  "read_ipv4 s0 =
     (let octet = (\<lambda>i s. read_separator (CHR ''.'') i (read_number 10 3 False 255) s) in
      case octet 0 s0 of None \<Rightarrow> None | Some (a, s1) \<Rightarrow>
      (case octet 1 s1 of None \<Rightarrow> None | Some (b, s2) \<Rightarrow>
      (case octet 2 s2 of None \<Rightarrow> None | Some (c, s3) \<Rightarrow>
      (case octet 3 s3 of None \<Rightarrow> None | Some (d, s4) \<Rightarrow> Some ([a, b, c, d], s4)))))"

function read_groups :: "nat \<Rightarrow> nat \<Rightarrow> string \<Rightarrow> nat list \<times> bool \<times> string" where
  "read_groups limit i s =
     (if i \<ge> limit then ([], False, s)
      else
        (case (if i < limit - 1 then read_separator (CHR '':'') i read_ipv4 s else None) of
           Some (q, rest) \<Rightarrow> ([q ! 0 * 256 + q ! 1, q ! 2 * 256 + q ! 3], True, rest)
         | None \<Rightarrow>
             (case read_separator (CHR '':'') i (read_number 16 4 True 65535) s of
                Some (g, rest) \<Rightarrow>
                  (case read_groups limit (Suc i) rest of (gs, v4, r) \<Rightarrow> (g # gs, v4, r))
              | None \<Rightarrow> ([], False, s))))"
  by pat_completeness auto
termination
  by (relation "measure (\<lambda>(limit, i, s). limit - i)") auto

declare read_groups.simps [simp del]

definition ipv6_of_groups :: "nat list \<Rightarrow> 128 word" where
  "ipv6_of_groups gs = of_nat (foldl (\<lambda>a g. a * 65536 + g) 0 gs)"

definition read_ipv6 :: "string \<Rightarrow> (128 word \<times> string) option" where
  "read_ipv6 s =
     (case read_groups 8 0 s of (head, head_v4, r) \<Rightarrow>
        (if length head = 8 then Some (ipv6_of_groups head, r)
         else if head_v4 then None
         else
           (case strip_prefix r ''::'' of
              None \<Rightarrow> None
            | Some r' \<Rightarrow>
                (case read_groups (8 - (length head + 1)) 0 r' of (tail, tail_v4, r'') \<Rightarrow>
                   Some (ipv6_of_groups (head @ replicate (8 - length head - length tail) 0 @ tail), r'')))))"

definition parse_ipv6 :: "string \<Rightarrow> 128 word option" where
  "parse_ipv6 s = (case read_ipv6 s of Some (v, []) \<Rightarrow> Some v | _ \<Rightarrow> None)"

definition parse_ip :: "string \<Rightarrow> ip option" where
  "parse_ip s =
     (case read_ipv4 s of
        Some (q, rest) \<Rightarrow>
          if rest = [] then Some (V4 (of_nat (foldl (\<lambda>a b. a * 256 + b) 0 q))) else None
      | None \<Rightarrow> map_option V6 (parse_ipv6 s))"

section \<open>Addresses an agent must never reach\<close>

definition v4_of_octets :: "nat \<times> nat \<times> nat \<times> nat \<Rightarrow> 32 word" where
  "v4_of_octets q = (case q of (a, b, c, d) \<Rightarrow> of_nat (((a * 256 + b) * 256 + c) * 256 + d))"

definition SPECIAL_V4 :: "((nat \<times> nat \<times> nat \<times> nat) \<times> nat) list" where
  "SPECIAL_V4 =
     [((0, 0, 0, 0), 8), ((10, 0, 0, 0), 8), ((100, 64, 0, 0), 10), ((127, 0, 0, 0), 8),
      ((169, 254, 0, 0), 16), ((172, 16, 0, 0), 12), ((192, 0, 0, 0), 24), ((192, 0, 2, 0), 24),
      ((192, 31, 196, 0), 24), ((192, 52, 193, 0), 24), ((192, 88, 99, 0), 24), ((192, 168, 0, 0), 16),
      ((192, 175, 48, 0), 24), ((198, 18, 0, 0), 15), ((198, 51, 100, 0), 24), ((203, 0, 113, 0), 24),
      ((224, 0, 0, 0), 4), ((240, 0, 0, 0), 4)]"

definition is_forbidden_v4 :: "32 word \<Rightarrow> bool" where
  "is_forbidden_v4 addr \<longleftrightarrow>
     list_ex (\<lambda>(net, len). let mask = push_bit (32 - len) (- 1)
                 in (addr AND mask) = (v4_of_octets net AND mask)) SPECIAL_V4"

definition SPECIAL_V6 :: "(128 word \<times> nat) list" where
  "SPECIAL_V6 =
     [(0x20010000000000000000000000000000, 23), (0x20010db8000000000000000000000000, 32),
      (0x20020000000000000000000000000000, 16), (0x3fff0000000000000000000000000000, 20)]"

definition within_v6 :: "128 word \<Rightarrow> 128 word \<Rightarrow> nat \<Rightarrow> bool" where
  "within_v6 addr net len \<longleftrightarrow>
     (let mask = push_bit (128 - len) (- 1) in (addr AND mask) = (net AND mask))"

definition is_forbidden_v6 :: "128 word \<Rightarrow> bool" where
  "is_forbidden_v6 addr \<longleftrightarrow>
     \<not> within_v6 addr 0x20000000000000000000000000000000 3 \<or>
     list_ex (\<lambda>(net, len). within_v6 addr net len) SPECIAL_V6"

text \<open>\<open>Ipv6Addr::to_ipv4_mapped\<close>: \<open>::ffff:a.b.c.d\<close>.\<close>

definition to_ipv4_mapped :: "128 word \<Rightarrow> 32 word option" where
  "to_ipv4_mapped v6 = (if drop_bit 32 v6 = 0xffff then Some (ucast v6) else None)"

fun is_forbidden :: "ip \<Rightarrow> bool" where
  "is_forbidden (V4 v4) = is_forbidden_v4 v4"
| "is_forbidden (V6 v6) =
     (case to_ipv4_mapped v6 of Some v4 \<Rightarrow> is_forbidden_v4 v4 | None \<Rightarrow> is_forbidden_v6 v6)"

section \<open>Lemmas\<close>

text \<open>Comparing under a network mask is comparing the leading bits, and so a range of addresses.\<close>

lemma mask_eq_drop_bit:
  fixes a b :: "'a::len word"
  shows "(a AND push_bit n (- 1)) = (b AND push_bit n (- 1)) \<longleftrightarrow> drop_bit n a = drop_bit n b"
proof -
  have m: "(x AND push_bit n (- 1)) = push_bit n (drop_bit n x)" for x :: "'a word"
    by (rule bit_word_eqI) (auto simp: bit_simps)
  have d: "drop_bit n (push_bit n (drop_bit n x)) = drop_bit n x" for x :: "'a word"
    by (rule bit_word_eqI) (auto simp: bit_simps dest: bit_imp_le_length)
  have "push_bit n (drop_bit n a) = push_bit n (drop_bit n b) \<longleftrightarrow> drop_bit n a = drop_bit n b"
    by (metis d)
  then show ?thesis unfolding m .
qed

lemma unat_masked_eq:
  fixes a b :: "'a::len word"
  shows "(a AND push_bit n (- 1)) = (b AND push_bit n (- 1)) \<longleftrightarrow> unat a div 2 ^ n = unat b div 2 ^ n"
  unfolding mask_eq_drop_bit
  by (simp add: word_unat_eq_iff unat_drop_bit_eq) (simp add: drop_bit_eq_div)

lemma div_eq_range:
  fixes a b m :: nat
  assumes "0 < m" and "m dvd b"
  shows "a div m = b div m \<longleftrightarrow> b \<le> a \<and> a < b + m"
proof -
  obtain k where b: "b = m * k" using assms(2) by blast
  have "a div m = k \<longleftrightarrow> m * k \<le> a \<and> a < m * k + m"
  proof
    assume "a div m = k"
    then have "a = m * k + a mod m" by (metis mult_div_mod_eq)
    moreover have "a mod m < m" using assms(1) by simp
    ultimately show "m * k \<le> a \<and> a < m * k + m" by linarith
  next
    assume "m * k \<le> a \<and> a < m * k + m"
    then show "a div m = k" by (intro div_nat_eqI) simp_all
  qed
  then show ?thesis using assms(1) by (simp add: b)
qed

definition octets_val :: "nat \<times> nat \<times> nat \<times> nat \<Rightarrow> nat" where
  "octets_val q = (case q of (a, b, c, d) \<Rightarrow> ((a * 256 + b) * 256 + c) * 256 + d)"

lemma SPECIAL_V4_aligned:
  "(net, len) \<in> set SPECIAL_V4 \<Longrightarrow>
     unat (v4_of_octets net) = octets_val net \<and> 2 ^ (32 - len) dvd octets_val net"
  by (auto simp: SPECIAL_V4_def v4_of_octets_def octets_val_def)

lemma SPECIAL_V6_aligned:
  "(net, len) \<in> set SPECIAL_V6 \<Longrightarrow> 2 ^ (128 - len) dvd unat net"
  by (auto simp: SPECIAL_V6_def)

lemma masked_range:
  fixes a b :: "'a::len word"
  assumes "2 ^ n dvd unat b"
  shows "(a AND push_bit n (- 1)) = (b AND push_bit n (- 1)) \<longleftrightarrow> unat b \<le> unat a \<and> unat a < unat b + 2 ^ n"
  unfolding unat_masked_eq using assms by (intro div_eq_range) simp_all

lemma within_v6_range:
  "2 ^ (128 - len) dvd unat net \<Longrightarrow>
     within_v6 a net len \<longleftrightarrow> unat net \<le> unat a \<and> unat a < unat net + 2 ^ (128 - len)"
  by (simp only: within_v6_def Let_def masked_range)

definition mapped_ipv4 :: "32 word \<Rightarrow> 128 word" where
  "mapped_ipv4 v4 = push_bit 32 0xffff OR ucast v4"

lemma to_ipv4_mapped_mapped: "to_ipv4_mapped (mapped_ipv4 v4) = Some v4"
proof -
  have "drop_bit 32 (mapped_ipv4 v4) = 0xffff"
    unfolding mapped_ipv4_def by (rule bit_word_eqI) (auto simp: bit_simps dest: bit_imp_le_length)
  moreover have "ucast (push_bit 32 w OR ucast v4 :: 128 word) = v4" for w :: "128 word"
    by (rule bit_word_eqI) (auto simp: bit_simps)
  then have "ucast (mapped_ipv4 v4) = v4"
    unfolding mapped_ipv4_def .
  ultimately show ?thesis by (simp add: to_ipv4_mapped_def)
qed

section \<open>What the check refuses\<close>

lemma forbidden_v4_blocks:
  "is_forbidden (V4 a) \<longleftrightarrow>
     (\<exists>(net, len) \<in> set SPECIAL_V4. octets_val net \<le> unat a \<and> unat a < octets_val net + 2 ^ (32 - len))"
proof -
  have "(a AND push_bit (32 - len) (- 1)) = (v4_of_octets net AND push_bit (32 - len) (- 1)) \<longleftrightarrow>
      octets_val net \<le> unat a \<and> unat a < octets_val net + 2 ^ (32 - len)"
    if "(net, len) \<in> set SPECIAL_V4" for net len
    using SPECIAL_V4_aligned [OF that] masked_range [of "32 - len" "v4_of_octets net" a] by simp
  then show ?thesis
    by (fastforce simp: is_forbidden_v4_def list_ex_iff Let_def)
qed

text \<open>An address in none of them, for examples.\<close>

lemma public_address: "\<not> is_forbidden (V4 (v4_of_octets (8, 8, 8, 8)))"
  unfolding forbidden_v4_blocks by (simp add: SPECIAL_V4_def octets_val_def v4_of_octets_def)

text \<open>
  The masked comparison is a comparison of ranges: an IPv4 address is forbidden exactly when its
  number lies in one of the special-purpose blocks, from the block's first address for
  \<open>2 ^ (32 - length)\<close> addresses.
\<close>
theorem forbidden_v4_iff_in_a_block:
  "is_forbidden (V4 a) \<longleftrightarrow>
     (\<exists>(net, len) \<in> set SPECIAL_V4. octets_val net \<le> unat a \<and> unat a < octets_val net + 2 ^ (32 - len))"
  by (rule forbidden_v4_blocks)

text \<open>
  An IPv6 address that is not an IPv4 one in disguise is reachable exactly when it is in global
  unicast, \<open>2000::/3\<close>, and in none of the special-purpose blocks inside it; one that is an IPv4
  address in disguise is judged as that address.
\<close>
theorem forbidden_v6_iff_outside_global_unicast:
  "is_forbidden (V6 a) \<longleftrightarrow>
     (case to_ipv4_mapped a of
        Some v4 \<Rightarrow> is_forbidden (V4 v4)
      | None \<Rightarrow>
          \<not> (2 ^ 125 \<le> unat a \<and> unat a < 2 ^ 126 \<and>
             \<not> (\<exists>(net, len) \<in> set SPECIAL_V6. unat net \<le> unat a \<and> unat a < unat net + 2 ^ (128 - len))))
   \<and> is_forbidden (V6 (mapped_ipv4 v)) = is_forbidden (V4 v)"
proof -
  have g: "within_v6 a 0x20000000000000000000000000000000 3 \<longleftrightarrow> 2 ^ 125 \<le> unat a \<and> unat a < 2 ^ 126"
    by (subst within_v6_range) simp_all
  have b: "within_v6 a net len \<longleftrightarrow> unat net \<le> unat a \<and> unat a < unat net + 2 ^ (128 - len)"
    if "(net, len) \<in> set SPECIAL_V6" for net len
    by (rule within_v6_range) (rule SPECIAL_V6_aligned [OF that])
  have "is_forbidden_v6 a \<longleftrightarrow> \<not> (2 ^ 125 \<le> unat a \<and> unat a < 2 ^ 126) \<or>
      (\<exists>(net, len) \<in> set SPECIAL_V6. unat net \<le> unat a \<and> unat a < unat net + 2 ^ (128 - len))"
    unfolding is_forbidden_v6_def g list_ex_iff using b by fastforce
  then show ?thesis by (auto simp: to_ipv4_mapped_mapped split: option.split)
qed

end
