(* ===== verification/Internal.thy ===== *)
theory Internal
  imports Prelude
begin

text \<open>
  The hosts inside the network that an operator has opened,
  \<open>crates/core/src/egress/internal.rs\<close>: the \<open>OUTTURN_INTERNAL_HOSTS\<close> list, how it is read, and the
  two questions asked of it (may a rule name this host, may a connection go to this host and port).
\<close>

record internal_entry =
  entry_host :: string
  entry_port :: "nat option"

type_synonym internal = "internal_entry list"

definition parse_port :: "string \<Rightarrow> nat option" where
  "parse_port s = parse_unsigned 65535 s"

definition entry_of :: "string \<Rightarrow> nat option \<Rightarrow> internal_entry option" where
  "entry_of host port = (if host \<noteq> [] then Some \<lparr>entry_host = host, entry_port = port\<rparr> else None)"

definition parse_entry :: "string \<Rightarrow> internal_entry option" where
  "parse_entry raw =
     (case strip_prefix raw ''['' of
        Some rest \<Rightarrow>
          (case split_once (CHR '']'') rest of
             None \<Rightarrow> None
           | Some (host, tail) \<Rightarrow>
               if tail = [] then entry_of host None
               else
                 (case strip_prefix tail '':'' of
                    None \<Rightarrow> None
                  | Some p \<Rightarrow>
                      (case parse_port p of None \<Rightarrow> None | Some port \<Rightarrow> entry_of host (Some port))))
      | None \<Rightarrow>
          if count_list raw (CHR '':'') > 1 then entry_of raw None
          else
            (case split_once (CHR '':'') raw of
               Some (host, port) \<Rightarrow>
                 (case parse_port port of
                    None \<Rightarrow> None
                  | Some p \<Rightarrow> if p \<noteq> 0 then entry_of host (Some p) else None)
             | None \<Rightarrow> entry_of raw None))"

definition parse_internal :: "string \<Rightarrow> internal" where
  "parse_internal raw =
     List.map_filter (\<lambda>t. parse_entry (trim t))
       (filter (\<lambda>t. trim t \<noteq> []) (split_by (\<lambda>c. c \<in> {CHR '','', CHR '' '', byte 9, byte 10}) raw))"

definition internal_is_empty :: "internal \<Rightarrow> bool" where
  "internal_is_empty l \<longleftrightarrow> l = []"

definition bracket :: "char \<Rightarrow> bool" where
  "bracket c \<longleftrightarrow> c = CHR ''['' \<or> c = CHR '']''"

definition internal_names :: "internal \<Rightarrow> string \<Rightarrow> bool" where
  "internal_names l host0 \<longleftrightarrow>
     (let host = trim_matches bracket host0 in list_ex (\<lambda>e. eq_ignore_case (entry_host e) host) l)"

definition internal_allows :: "internal \<Rightarrow> string \<Rightarrow> nat \<Rightarrow> bool" where
  "internal_allows l host0 port \<longleftrightarrow>
     (let host = trim_matches bracket host0
      in list_ex (\<lambda>e. eq_ignore_case (entry_host e) host \<and>
           (case entry_port e of None \<Rightarrow> True | Some allowed \<Rightarrow> allowed = port)) l)"

definition internal_allows_resolved :: "internal \<Rightarrow> string \<Rightarrow> ('ip \<times> nat) list \<Rightarrow> bool" where
  "internal_allows_resolved l host addrs \<longleftrightarrow>
     addrs \<noteq> [] \<and> list_all (\<lambda>(ip, port). internal_allows l host port) addrs"

text \<open>
  What a connection may use is what a rule may name: allowing a port never opens a host the list
  does not name, and a host named is allowed on some port.
\<close>

lemma allows_names: "internal_allows l host port \<Longrightarrow> internal_names l host"
  by (auto simp: internal_allows_def internal_names_def Let_def list_ex_iff)

lemma names_allows_some:
  assumes "internal_names l host"
  shows "\<exists>port. internal_allows l host port"
proof -
  obtain e where e: "e \<in> set l" "eq_ignore_case (entry_host e) (trim_matches bracket host)"
    using assms by (auto simp: internal_names_def Let_def list_ex_iff)
  let ?port = "case entry_port e of None \<Rightarrow> 0 | Some p \<Rightarrow> p"
  have "case entry_port e of None \<Rightarrow> True | Some allowed \<Rightarrow> allowed = ?port"
    by (simp split: option.split)
  with e have "internal_allows l host ?port"
    unfolding internal_allows_def Let_def list_ex_iff by blast
  then show ?thesis ..
qed

lemma empty_list_opens_nothing [simp]: "\<not> internal_allows [] host port" "\<not> internal_names [] host"
  by (simp_all add: internal_allows_def internal_names_def Let_def)

lemma parse_entry_host: "parse_entry raw = Some e \<Longrightarrow> entry_host e \<noteq> []"
  by (auto simp: parse_entry_def entry_of_def split: option.splits prod.splits if_splits)

end
