(* ===== verification/EgressRule.thy ===== *)
theory EgressRule
  imports Ip Internal
begin

text \<open>
  What a workspace's agents may reach, \<open>crates/core/src/egress/rule.rs\<close>: the rule, the host
  matcher, reading a rule out of what somebody typed, choosing the rule for a host, and the checks
  on a header, a credential variable, a URL and what a name resolved to. A parsed URL is the record
  of what \<open>reqwest::Url\<close>'s accessors answer.
\<close>

section \<open>Data\<close>

datatype client_auth = Basic | Post

fun client_auth_text :: "client_auth \<Rightarrow> string" where
  "client_auth_text Basic = ''basic''"
| "client_auth_text Post = ''post''"

record client_credentials =
  token_url :: string
  cc_scope :: "string option"
  client_id_env :: string
  client_secret_env :: string
  cc_auth :: client_auth

record egress_rule =
  rule_host :: string
  rule_header :: "string option"
  credential_env :: "string option"
  rule_client :: "client_credentials option"
  rule_credential :: "uuid option"
  rule_asker :: "uuid option"
  on_behalf_of :: bool

definition carries_credential :: "egress_rule \<Rightarrow> bool" where
  "carries_credential r \<longleftrightarrow> credential_env r \<noteq> None \<or> rule_client r \<noteq> None \<or> rule_credential r \<noteq> None"

datatype refused =
    Scheme string
  | Userinfo
  | NoHost
  | NotAllowed string
  | PrivateAddress string ip
  | Unresolvable string
  | Header string
  | Unproven string

record url =
  url_scheme :: string
  url_username :: string
  url_password :: "string option"
  url_host :: "string option"
  url_path :: string
  url_query :: "string option"
  url_port :: "nat option"

definition ON_BEHALF_HEADER :: string where
  "ON_BEHALF_HEADER = ''outturn-on-behalf-of''"

definition RESERVED_HEADERS :: "string list" where
  "RESERVED_HEADERS =
     [''authorization'', ''proxy-authorization'', ''cookie'', ''host'', ''x-api-key'', ON_BEHALF_HEADER]"

section \<open>Matching a host\<close>

definition is_dot :: "char \<Rightarrow> bool" where
  "is_dot c \<longleftrightarrow> c = CHR ''.''"

definition norm_host :: "string \<Rightarrow> string" where
  "norm_host s = to_lower (trim_end_matches is_dot (trim s))"

definition host_matches :: "string \<Rightarrow> string \<Rightarrow> bool" where
  "host_matches rule0 host0 =
     (let rule = norm_host rule0; host = norm_host host0
      in if rule = [] \<or> host = [] then False
         else
           (case strip_prefix rule ''*.'' of
              Some sfx \<Rightarrow> sfx \<noteq> [] \<and> ends_with host (''.'' @ sfx)
            | None \<Rightarrow> rule = host))"

definition rule_for :: "egress_rule list \<Rightarrow> string \<Rightarrow> egress_rule option" where
  "rule_for rules host =
     (case find (\<lambda>r. \<not> starts_with (rule_host r) ''*.'' \<and> host_matches (rule_host r) host) rules of
        Some r \<Rightarrow> Some r
      | None \<Rightarrow> find (\<lambda>r. host_matches (rule_host r) host) rules)"

section \<open>Reading a rule\<close>

datatype host_error =
    NotAHostname string
  | PrivateRule ip
  | EmptyHost
  | BareWildcard
  | InnerWildcard
  | NoDomain string

text \<open>\<open>Ipv6Addr\<close>'s \<open>Display\<close>: the longest run of two or more zero groups as \<open>::\<close>.\<close>

definition hex_nat :: "nat \<Rightarrow> string" where
  "hex_nat n = (let ds = [hex_digit (n div 4096 mod 16), hex_digit (n div 256 mod 16),
                          hex_digit (n div 16 mod 16), hex_digit (n mod 16)]
                in if n < 16 then drop 3 ds else if n < 256 then drop 2 ds
                   else if n < 4096 then drop 1 ds else ds)"

definition v6_groups :: "128 word \<Rightarrow> nat list" where
  "v6_groups a = map (\<lambda>i. unat a div 65536 ^ (7 - i) mod 65536) [0..<8]"

fun longest_zeroes :: "nat \<Rightarrow> nat list \<Rightarrow> nat \<times> nat \<Rightarrow> nat \<times> nat \<Rightarrow> nat \<times> nat" where
  "longest_zeroes i [] current longest = longest"
| "longest_zeroes i (g # gs) current longest =
     (if g = 0 then
        (let cur = (if snd current = 0 then (i, 1) else (fst current, snd current + 1))
         in longest_zeroes (Suc i) gs cur (if snd cur > snd longest then cur else longest))
      else longest_zeroes (Suc i) gs (0, 0) longest)"

definition ipv4_text :: "32 word \<Rightarrow> string" where
  "ipv4_text a = join_with (CHR ''.'') (map (\<lambda>i. nat_text (unat a div 256 ^ (3 - i) mod 256)) [0..<4])"

definition ipv6_text :: "128 word \<Rightarrow> string" where
  "ipv6_text a =
     (case to_ipv4_mapped a of
        Some v4 \<Rightarrow> ''::ffff:'' @ ipv4_text v4
      | None \<Rightarrow>
          (let gs = v6_groups a; z = longest_zeroes 0 gs (0, 0) (0, 0);
               show_groups = (\<lambda>xs. join_with (CHR '':'') (map hex_nat xs))
           in if snd z > 1 then
                show_groups (take (fst z) gs) @ ''::'' @ show_groups (drop (fst z + snd z) gs)
              else show_groups gs))"

text \<open>The IPv6 literal a text names, bracketed or bare; \<open>Inr None\<close> where it is not one.\<close>

definition v6_literal :: "string \<Rightarrow> host_error + 128 word option" where
  "v6_literal host =
     (case strip_prefix host ''['' of
        Some rest \<Rightarrow>
          (case split_once (CHR '']'') rest of
             None \<Rightarrow> Inl (NotAHostname host)
           | Some (inner, after) \<Rightarrow>
               (let port = (case strip_prefix after '':'' of Some p \<Rightarrow> p | None \<Rightarrow> after)
                in if \<not> list_all ascii_digit port \<or> (after \<noteq> [] \<and> \<not> starts_with after '':'')
                   then Inl (NotAHostname host)
                   else (case parse_ipv6 inner of None \<Rightarrow> Inl (NotAHostname host) | Some a \<Rightarrow> Inr (Some a))))
      | None \<Rightarrow>
          if count_list host (CHR '':'') > 1 then
            (case parse_ipv6 host of None \<Rightarrow> Inl (NotAHostname host) | Some a \<Rightarrow> Inr (Some a))
          else Inr None)"

definition valid_label :: "string \<Rightarrow> bool" where
  "valid_label label \<longleftrightarrow>
     label \<noteq> [] \<and> length label \<le> 63 \<and> list_all (\<lambda>c. ascii_alnum c \<or> c = CHR ''-'') label \<and>
     \<not> starts_with label ''-'' \<and> \<not> ends_with label ''-''"

text \<open>What is left of the input once a scheme, a path and credentials are cut away.\<close>

definition host_part :: "string \<Rightarrow> string" where
  "host_part input =
     (let h0 = to_lower (trim input);
          h1 = (case split_once_text ''://'' h0 of Some (_, rest) \<Rightarrow> rest | None \<Rightarrow> h0);
          h2 = (case split_once (CHR ''/'') h1 of Some (before, _) \<Rightarrow> before | None \<Rightarrow> h1)
      in case rsplit_once (CHR ''@'') h2 of Some (_, after) \<Rightarrow> after | None \<Rightarrow> h2)"

definition normalize_host :: "internal \<Rightarrow> string \<Rightarrow> host_error + string" where
  "normalize_host opened input =
     (let host0 = host_part input in
      case v6_literal host0 of
        Inl e \<Rightarrow> Inl e
      | Inr (Some addr) \<Rightarrow>
          if is_forbidden (V6 addr) then Inl (PrivateRule (V6 addr))
          else Inr (''['' @ ipv6_text addr @ '']'')
      | Inr None \<Rightarrow>
          (let host1 = (case rsplit_once (CHR '':'') host0 of
                          Some (before, after) \<Rightarrow> if list_all ascii_digit after then before else host0
                        | None \<Rightarrow> host0);
               host = trim_end_matches is_dot host1;
               labels = (case strip_prefix host ''*.'' of Some l \<Rightarrow> l | None \<Rightarrow> host)
           in if host = [] then Inl EmptyHost
              else if host = ''*'' \<or> host = ''*.'' then Inl BareWildcard
              else if CHR ''*'' \<in> set labels then Inl InnerWildcard
              else
                (case parse_ip labels of
                   Some addr \<Rightarrow> if is_forbidden addr then Inl (PrivateRule addr) else Inr host
                 | None \<Rightarrow>
                     if CHR ''.'' \<notin> set labels \<and> \<not> internal_names opened labels then Inl (NoDomain labels)
                     else if list_all valid_label (split_on (CHR ''.'') labels) then Inr host
                     else Inl (NotAHostname host))))"

section \<open>The other checks\<close>

definition CREDENTIAL_PREFIX :: string where
  "CREDENTIAL_PREFIX = ''OUTTURN_EGRESS_''"

datatype variable_error = NotAVariable string | OutsideNamespace string

definition check_credential_variable :: "string \<Rightarrow> variable_error + unit" where
  "check_credential_variable name =
     (let well_formed =
        (case name of
           [] \<Rightarrow> False
         | c # cs \<Rightarrow> (ascii_alpha c \<or> c = CHR ''_'') \<and> list_all (\<lambda>c. ascii_alnum c \<or> c = CHR ''_'') cs)
      in if \<not> well_formed then Inl (NotAVariable name)
         else if \<not> starts_with name CREDENTIAL_PREFIX \<or> length name = length CREDENTIAL_PREFIX
              then Inl (OutsideNamespace name)
         else Inr ())"

definition check_header :: "string \<Rightarrow> refused + unit" where
  "check_header name =
     (let lowered = to_lower (trim name)
      in if lowered \<in> set RESERVED_HEADERS then Inl (Header lowered) else Inr ())"

definition check_rule_header :: "string \<Rightarrow> refused + unit" where
  "check_rule_header name =
     (let lowered = to_lower (trim name)
      in if lowered = ''host'' \<or> lowered = ON_BEHALF_HEADER then Inl (Header lowered) else Inr ())"

definition check_url :: "egress_rule list \<Rightarrow> url \<Rightarrow> refused + (string \<times> egress_rule)" where
  "check_url rules u =
     (if url_scheme u \<noteq> ''http'' \<and> url_scheme u \<noteq> ''https'' then Inl (Scheme (url_scheme u))
      else if url_username u \<noteq> [] \<or> url_password u \<noteq> None then Inl Userinfo
      else
        (case url_host u of
           None \<Rightarrow> Inl NoHost
         | Some host \<Rightarrow>
             (case parse_ip (trim_matches bracket host) of
                Some addr \<Rightarrow>
                  if is_forbidden addr then Inl (PrivateAddress host addr)
                  else (case rule_for rules host of None \<Rightarrow> Inl (NotAllowed host) | Some r \<Rightarrow> Inr (host, r))
              | None \<Rightarrow>
                  (case rule_for rules host of None \<Rightarrow> Inl (NotAllowed host) | Some r \<Rightarrow> Inr (host, r)))))"

definition vet_addresses :: "string \<Rightarrow> (ip \<times> nat) list \<Rightarrow> refused + unit" where
  "vet_addresses host addrs =
     (if addrs = [] then Inl (Unresolvable host)
      else
        (case find (\<lambda>(ip, port). is_forbidden ip) addrs of
           Some (ip, port) \<Rightarrow> Inl (PrivateAddress host ip)
         | None \<Rightarrow> Inr ()))"

text \<open>
  Resolving: a literal address is itself; a name is what the resolver answers, a parameter
  (\<open>None\<close> where the lookup fails). The addresses vetted are the ones handed back.
\<close>

definition resolve :: "(string \<Rightarrow> nat \<Rightarrow> (ip \<times> nat) list option) \<Rightarrow> string \<Rightarrow> nat \<Rightarrow> refused + (ip \<times> nat) list" where
  "resolve lookup_host host port =
     (case parse_ip (trim_matches bracket host) of
        Some addr \<Rightarrow> Inr [(addr, port)]
      | None \<Rightarrow>
          (case lookup_host host port of
             None \<Rightarrow> Inl (Unresolvable host)
           | Some addrs \<Rightarrow> if addrs = [] then Inl (Unresolvable host) else Inr addrs))"

definition resolve_and_vet :: "(string \<Rightarrow> nat \<Rightarrow> (ip \<times> nat) list option) \<Rightarrow> string \<Rightarrow> nat \<Rightarrow> refused + (ip \<times> nat) list" where
  "resolve_and_vet lookup_host host port =
     (case resolve lookup_host host port of
        Inl e \<Rightarrow> Inl e
      | Inr addrs \<Rightarrow> (case vet_addresses host addrs of Inl e \<Rightarrow> Inl e | Inr _ \<Rightarrow> Inr addrs))"

section \<open>Lemmas\<close>

text \<open>
  What the users of the matcher rely on: it reads a host only through its normal form (white space,
  trailing dots and case gone), and a rule matches the hosts its own normal form spells.
\<close>

locale host_matching =
  fixes matches :: "string \<Rightarrow> string \<Rightarrow> bool"
    and norm :: "string \<Rightarrow> string"
  assumes reads_norm: "norm h = norm h' \<Longrightarrow> matches r h = matches r h'"
    and rule_reads_norm: "norm r = norm r' \<Longrightarrow> matches r h = matches r' h"
begin

lemma same_spelling: "norm r = norm r' \<Longrightarrow> norm h = norm h' \<Longrightarrow> matches r h = matches r' h'"
  using reads_norm rule_reads_norm by metis

lemma filter_spelling:
  "norm h = norm h' \<Longrightarrow> filter (\<lambda>x. matches (f x) h \<and> P x) xs = filter (\<lambda>x. matches (f x) h' \<and> P x) xs"
  by (metis reads_norm)

lemma find_spelling:
  "norm h = norm h' \<Longrightarrow> find (\<lambda>x. P x \<and> matches (f x) h) xs = find (\<lambda>x. P x \<and> matches (f x) h') xs"
  by (metis reads_norm)

end

interpretation rule_hosts: host_matching host_matches norm_host
  by unfold_locales (simp_all add: host_matches_def)

lemma rule_for_SomeD: "rule_for rules host = Some r \<Longrightarrow> r \<in> set rules \<and> host_matches (rule_host r) host"
  by (auto simp: rule_for_def find_Some_iff split: option.splits)

lemma rule_for_spelling:
  assumes "norm_host h = norm_host h'"
  shows "rule_for rules h = rule_for rules h'"
  using rule_hosts.find_spelling [OF assms, where f = rule_host and xs = rules and P = "\<lambda>_. True"]
    rule_hosts.find_spelling [OF assms, where f = rule_host and xs = rules and
      P = "\<lambda>r. \<not> starts_with (rule_host r) ''*.''"]
  by (simp add: rule_for_def split: option.split)

lemma check_url_InrD:
  "check_url rules u = Inr (host, r) \<Longrightarrow>
     url_host u = Some host \<and> rule_for rules host = Some r \<and>
     (url_scheme u = ''http'' \<or> url_scheme u = ''https'') \<and> url_username u = [] \<and> url_password u = None \<and>
     (\<forall>addr. parse_ip (trim_matches bracket host) = Some addr \<longrightarrow> \<not> is_forbidden addr)"
  by (auto simp: check_url_def split: option.splits if_splits)

lemma vet_addresses_InrD: "vet_addresses host addrs = Inr () \<Longrightarrow> addrs \<noteq> [] \<and> (\<forall>(ip, port) \<in> set addrs. \<not> is_forbidden ip)"
  by (auto simp: vet_addresses_def find_None_iff split: option.splits if_splits)

section \<open>What a rule lets out\<close>

text \<open>
  A wildcard rule covers every subdomain at any depth and never the apex itself: it matches
  exactly the hosts whose normal form ends in a dot and the rule's domain.
\<close>
theorem wildcard_covers_only_subdomains:
  assumes "norm_host rule = ''*.'' @ d"
  shows "(host_matches rule host \<longleftrightarrow> d \<noteq> [] \<and> (\<exists>sub. norm_host host = sub @ ''.'' @ d))
    \<and> (norm_host host = d \<longrightarrow> \<not> host_matches rule host)"
proof -
  have "strip_prefix (norm_host rule) ''*.'' = Some d" by (simp add: strip_prefix_Some_iff assms)
  with assms have "host_matches rule host \<longleftrightarrow> d \<noteq> [] \<and> (\<exists>sub. norm_host host = sub @ ''.'' @ d)"
    by (auto simp: host_matches_def Let_def ends_with_iff)
  moreover have "norm_host host = d \<Longrightarrow> \<not> (\<exists>sub. norm_host host = sub @ ''.'' @ d)"
    by (auto dest: arg_cong [where f = length])
  ultimately show ?thesis by blast
qed

lemma norm_example: "norm_host ''*.ab.c'' = ''*.ab.c''" "norm_host ''AB.c.'' = ''ab.c''"
  by (simp_all add: norm_host_def graphic_def trim_end_matches_def is_dot_def to_lower_def ascii_defs char_of_def bit_0)

theorem wildcard_covers_only_subdomains_witness:
  "\<not> host_matches ''*.ab.c'' ''AB.c.''"
  using wildcard_covers_only_subdomains [of "''*.ab.c''" "''ab.c''" "''AB.c.''"] norm_example
  by simp

text \<open>
  A URL is let past only by one of the rules given: the rule handed back is among them and
  matches the URL's host, the scheme is http or https, there is no user or password in it, and a
  literal address in it is not a forbidden one.
\<close>
theorem check_url_admits_only_by_a_rule:
  assumes "check_url rules u = Inr (host, r)"
  shows "r \<in> set rules \<and> host_matches (rule_host r) host \<and> url_host u = Some host \<and>
    (url_scheme u = ''http'' \<or> url_scheme u = ''https'') \<and> url_username u = [] \<and> url_password u = None \<and>
    (case parse_ip (trim_matches bracket host) of Some addr \<Rightarrow> \<not> is_forbidden addr | None \<Rightarrow> True)"
  using check_url_InrD [OF assms] by (auto dest: rule_for_SomeD split: option.splits)

definition example_rule :: egress_rule where
  "example_rule = \<lparr>rule_host = ''ab.c'', rule_header = None, credential_env = None, rule_client = None,
     rule_credential = None, rule_asker = None, on_behalf_of = False\<rparr>"

definition example_url :: url where
  "example_url = \<lparr>url_scheme = ''https'', url_username = [], url_password = None,
     url_host = Some ''AB.c.'', url_path = ''/'', url_query = None, url_port = Some 443\<rparr>"

lemma example_name: "parse_ip (trim_matches bracket ''AB.c.'') = None"
  by (simp add: trim_matches_def trim_end_matches_def trim_start_matches_def bracket_def
      parse_ip_def read_ipv4_def read_separator_def read_number_def to_digit_def ascii_defs
      parse_ipv6_def read_ipv6_def read_groups.simps strip_prefix_def starts_with_def)

lemma example_check: "check_url [example_rule] example_url = Inr (''AB.c.'', example_rule)"
proof -
  have "norm_host ''ab.c'' = ''ab.c''"
    by (simp add: norm_host_def graphic_def trim_end_matches_def is_dot_def to_lower_def ascii_defs)
  then show ?thesis
    using norm_example example_name
    by (simp add: check_url_def example_rule_def example_url_def rule_for_def host_matches_def
        starts_with_def strip_prefix_def)
qed

theorem check_url_admits_only_by_a_rule_witness:
  "example_rule \<in> set [example_rule] \<and> host_matches (rule_host example_rule) ''AB.c.''"
  using check_url_admits_only_by_a_rule [OF example_check] by blast

text \<open>
  Every address a connection may be made to was vetted: what \<open>resolve_and_vet\<close> hands back is
  not empty and holds no forbidden address, however many the name resolved to; and a literal
  address is never put to the resolver.
\<close>
theorem resolved_addresses_are_all_vetted:
  assumes "resolve_and_vet lookup host port = Inr addrs"
  shows "addrs \<noteq> [] \<and> (\<forall>(ip, p) \<in> set addrs. \<not> is_forbidden ip) \<and>
    (case parse_ip (trim_matches bracket host) of
       Some addr \<Rightarrow> addrs = [(addr, port)]
     | None \<Rightarrow> lookup host port = Some addrs)"
  using assms
  by (auto simp: resolve_and_vet_def resolve_def split: sum.splits option.splits if_splits
      dest: vet_addresses_InrD)

theorem resolved_addresses_are_all_vetted_witness:
  "[(V4 (v4_of_octets (8, 8, 8, 8)), 443 :: nat)] \<noteq> []
   \<and> \<not> is_forbidden (V4 (v4_of_octets (8, 8, 8, 8)))"
proof -
  note public_address
  moreover have "parse_ip ''ab.c'' = None"
    by (simp add: parse_ip_def read_ipv4_def read_separator_def read_number_def to_digit_def ascii_defs
        parse_ipv6_def read_ipv6_def read_groups.simps strip_prefix_def starts_with_def)
  ultimately have r: "resolve_and_vet (\<lambda>h p. Some [(V4 (v4_of_octets (8, 8, 8, 8)), p)]) ''ab.c'' 443
      = Inr [(V4 (v4_of_octets (8, 8, 8, 8)), 443)]"
    by (simp add: resolve_and_vet_def resolve_def vet_addresses_def trim_matches_def
        trim_end_matches_def trim_start_matches_def bracket_def)
  show ?thesis using resolved_addresses_are_all_vetted [OF r] by auto
qed

end
