(* ===== verification/Commit.thy ===== *)
theory Commit
  imports Merkle EgressRule
begin

text \<open>
  What the API promises about a workspace's egress rules and how the tier that enforces them checks
  that promise, \<open>crates/core/src/egress/commit.rs\<close>, with \<open>vet_commitment\<close> of \<open>rule.rs\<close>, its one
  caller in the runtime. The tree itself is in \<open>Merkle\<close>. How long a proof is once encoded is an
  argument of \<open>prove\<close>, which only decides by it which of the two shapes to send.
\<close>

section \<open>Leaves\<close>

definition TAG_LEAF :: bytes where "TAG_LEAF = ''outturn:egress:leaf:v1'' @ [CHR 0x00]"
definition TAG_LEAF_CLIENT :: bytes where "TAG_LEAF_CLIENT = ''outturn:egress:leaf-client:v1'' @ [CHR 0x00]"
definition TAG_LEAF_SEALED :: bytes where "TAG_LEAF_SEALED = ''outturn:egress:leaf-sealed:v1'' @ [CHR 0x00]"
definition TAG_LEAF_ASKER :: bytes where "TAG_LEAF_ASKER = ''outturn:egress:leaf-asker:v1'' @ [CHR 0x00]"
definition TAG_NODE :: bytes where "TAG_NODE = ''outturn:egress:node:v1'' @ [CHR 0x00]"
definition TAG_EMPTY :: bytes where "TAG_EMPTY = ''outturn:egress:empty:v1'' @ [CHR 0x00]"

lemmas tag_defs = TAG_LEAF_def TAG_LEAF_CLIENT_def TAG_LEAF_SEALED_def TAG_LEAF_ASKER_def
  TAG_NODE_def TAG_EMPTY_def

definition leaf_tag :: "egress_rule \<Rightarrow> bytes" where
  "leaf_tag r =
     (if rule_asker r \<noteq> None then TAG_LEAF_ASKER
      else if rule_client r \<noteq> None then TAG_LEAF_CLIENT
      else if rule_credential r \<noteq> None then TAG_LEAF_SEALED
      else TAG_LEAF)"

definition client_fields :: "client_credentials \<Rightarrow> string option list" where
  "client_fields c =
     [Some (token_url c), cc_scope c, Some (client_id_env c), Some (client_secret_env c),
      Some (client_auth_text (cc_auth c))]"

text \<open>Everything fed to the digest of a rule's leaf, in the order it is fed.\<close>

definition leaf_input :: "outside \<Rightarrow> uuid \<Rightarrow> egress_rule \<Rightarrow> bytes" where
  "leaf_input e workspace_id r =
     leaf_tag r @
     uuid_bytes e workspace_id @
     hash_fields [Some (rule_host r), rule_header r, credential_env r] @
     (case rule_asker r of
        Some asker \<Rightarrow>
          hash_fields [Some (uuid_text e asker), map_option (uuid_text e) (rule_credential r)]
      | None \<Rightarrow>
          (case rule_credential r of
             Some credential \<Rightarrow> hash_fields [Some (uuid_text e credential)]
           | None \<Rightarrow> [])) @
     (case rule_client r of Some client \<Rightarrow> hash_fields (client_fields client) | None \<Rightarrow> []) @
     (if on_behalf_of r then hash_fields [Some ''on-behalf-of''] else [])"

definition leaf :: "outside \<Rightarrow> uuid \<Rightarrow> egress_rule \<Rightarrow> hash" where
  "leaf e workspace_id r = sha256 e (leaf_input e workspace_id r)"

definition node :: "outside \<Rightarrow> hash \<Rightarrow> hash \<Rightarrow> hash" where
  "node e l r = node_with e TAG_NODE l r"

definition empty_root :: "outside \<Rightarrow> hash" where
  "empty_root e = empty_root_with e TAG_EMPTY"

definition leaves :: "outside \<Rightarrow> uuid \<Rightarrow> egress_rule list \<Rightarrow> hash list" where
  "leaves e workspace_id rules = ordered (map (leaf e workspace_id) rules)"

definition root_of :: "outside \<Rightarrow> hash list \<Rightarrow> hash" where
  "root_of e ls = root_with e TAG_NODE TAG_EMPTY ls"

definition root :: "outside \<Rightarrow> uuid \<Rightarrow> egress_rule list \<Rightarrow> hash" where
  "root e workspace_id rules = root_of e (leaves e workspace_id rules)"

section \<open>Proofs\<close>

datatype invalid = Root | PathTooLong | Empty

definition MAX_PATH :: nat where "MAX_PATH = 32"

datatype proof_shape = WholeSet "egress_rule list" | Inclusion egress_rule "path_step list"

fun unverified_rule :: "proof_shape \<Rightarrow> egress_rule option" where
  "unverified_rule (WholeSet rules) = None"
| "unverified_rule (Inclusion r path) = Some r"

text \<open>The first position of an element, \<open>Iterator::position\<close>.\<close>

fun position :: "('a \<Rightarrow> bool) \<Rightarrow> 'a list \<Rightarrow> nat option" where
  "position P [] = None"
| "position P (x # xs) = (if P x then Some 0 else map_option Suc (position P xs))"

definition prove ::
  "outside \<Rightarrow> (proof_shape \<Rightarrow> nat option) \<Rightarrow> uuid \<Rightarrow> egress_rule list \<Rightarrow> egress_rule \<Rightarrow> proof_shape option" where
  "prove e encoded_len workspace_id rules r =
     (let ls = leaves e workspace_id rules; target = leaf e workspace_id r in
      case position (\<lambda>l. l = target) ls of
        None \<Rightarrow> None
      | Some index \<Rightarrow>
          (let inclusion = Inclusion r (path_up (node e) ls index); whole = WholeSet rules in
           case (encoded_len inclusion, encoded_len whole) of
             (Some a, Some b) \<Rightarrow> Some (if a \<le> b then inclusion else whole)
           | _ \<Rightarrow> Some inclusion))"

fun verify :: "outside \<Rightarrow> uuid \<Rightarrow> hash \<Rightarrow> proof_shape \<Rightarrow> invalid + egress_rule list" where
  "verify e workspace_id committed (WholeSet rules) =
     (if rules = [] \<and> committed \<noteq> empty_root e then Inl Empty
      else if root e workspace_id rules \<noteq> committed then Inl Root
      else Inr rules)"
| "verify e workspace_id committed (Inclusion r path) =
     (if length path > MAX_PATH then Inl PathTooLong
      else if fold_path (node e) (leaf e workspace_id r) path \<noteq> committed then Inl Root
      else Inr [r])"

definition vet_commitment ::
  "outside \<Rightarrow> (proof_shape \<Rightarrow> nat option) \<Rightarrow> uuid \<Rightarrow> egress_rule list \<Rightarrow> hash \<Rightarrow> egress_rule \<Rightarrow> string
     \<Rightarrow> refused + egress_rule" where
  "vet_commitment e encoded_len workspace_id rules committed r host =
     (case prove e encoded_len workspace_id rules r of
        None \<Rightarrow> Inl (Unproven host)
      | Some p \<Rightarrow>
          (case verify e workspace_id committed p of
             Inl _ \<Rightarrow> Inl (Unproven host)
           | Inr vouched \<Rightarrow>
               (case find (\<lambda>v. v = r) vouched of Some v \<Rightarrow> Inr v | None \<Rightarrow> Inl (Unproven host))))"

section \<open>A leaf names its workspace and its rule\<close>

text \<open>Strings whose length a \<open>u64\<close> holds, which every string in memory has.\<close>

definition rule_fits :: "egress_rule \<Rightarrow> bool" where
  "rule_fits r \<longleftrightarrow> list_all fits_u64 [Some (rule_host r), rule_header r, credential_env r] \<and>
     (case rule_client r of Some c \<Rightarrow> list_all fits_u64 (client_fields c) | None \<Rightarrow> True)"

definition leaf_fields :: "outside \<Rightarrow> egress_rule \<Rightarrow> string option list" where
  "leaf_fields e r =
     [Some (rule_host r), rule_header r, credential_env r] @
     (case rule_asker r of
        Some asker \<Rightarrow> [Some (uuid_text e asker), map_option (uuid_text e) (rule_credential r)]
      | None \<Rightarrow> (case rule_credential r of Some c \<Rightarrow> [Some (uuid_text e c)] | None \<Rightarrow> [])) @
     (case rule_client r of Some client \<Rightarrow> client_fields client | None \<Rightarrow> []) @
     (if on_behalf_of r then [Some ''on-behalf-of''] else [])"

lemma leaf_input_fields: "leaf_input e ws r = leaf_tag r @ uuid_bytes e ws @ hash_fields (leaf_fields e r)"
  by (simp add: leaf_input_def leaf_fields_def split: option.split)

lemma leaf_fields_fit:
  assumes "uuid_forms e" and "rule_fits r"
  shows "list_all fits_u64 (leaf_fields e r)"
  using assms(2)
  by (auto simp: leaf_fields_def rule_fits_def fits_u64_def uuid_formsD [OF assms(1)] split: option.splits)

lemma leaf_tag_prefix: "leaf_tag r @ x = leaf_tag s @ y \<Longrightarrow> leaf_tag r = leaf_tag s \<and> x = y"
  by (simp add: leaf_tag_def tag_defs split: if_splits)

lemma leaf_tag_eq:
  "leaf_tag r = leaf_tag s \<Longrightarrow>
     (rule_asker r = None \<longleftrightarrow> rule_asker s = None) \<and>
     (rule_asker r = None \<longrightarrow> (rule_client r = None \<longleftrightarrow> rule_client s = None)) \<and>
     (rule_asker r = None \<longrightarrow> rule_client r = None \<longrightarrow> (rule_credential r = None \<longleftrightarrow> rule_credential s = None))"
  by (simp add: leaf_tag_def tag_defs split: if_splits)

lemma client_auth_text_inj: "client_auth_text a = client_auth_text b \<longleftrightarrow> a = b"
  by (cases a; cases b) simp_all

lemma client_auth_text_marker [simp]: "client_auth_text a \<noteq> ''on-behalf-of''" "''on-behalf-of'' \<noteq> client_auth_text a"
  by (cases a; simp)+

lemma leaf_fields_inj:
  assumes "uuid_forms e" and "leaf_tag r = leaf_tag s" and "leaf_fields e r = leaf_fields e s"
  shows "r = s"
  using leaf_tag_eq [OF assms(2)] assms(3)
  by (cases r; cases s)
    (auto simp: leaf_fields_def client_fields_def client_auth_text_inj uuid_formsD [OF assms(1)]
      uuid_text_option [OF assms(1)] client_credentials.equality split: option.splits if_splits)

text \<open>The list of leaf inputs hashed for a rule set, and for a proof offered against it.\<close>

definition rules_hashed :: "outside \<Rightarrow> uuid \<Rightarrow> egress_rule list \<Rightarrow> bytes set" where
  "rules_hashed e ws rules = committed_inputs e TAG_NODE TAG_EMPTY (map (leaf_input e ws) rules)"

fun proof_hashed :: "outside \<Rightarrow> uuid \<Rightarrow> proof_shape \<Rightarrow> bytes set" where
  "proof_hashed e ws (WholeSet rules) = rules_hashed e ws rules"
| "proof_hashed e ws (Inclusion r path) =
     insert (leaf_input e ws r) (path_inputs e TAG_NODE (sha256 e (leaf_input e ws r)) path)"

fun proof_wf :: "proof_shape \<Rightarrow> bool" where
  "proof_wf (WholeSet rules) = list_all rule_fits rules"
| "proof_wf (Inclusion r path) = (rule_fits r \<and> list_all (\<lambda>s. length (step_hash s) = 32) path)"

interpretation egress_tree: commitment TAG_NODE TAG_EMPTY "leaf_input e ws" for e ws
  by unfold_locales (auto simp: leaf_input_def leaf_tag_def tag_defs)

lemma root_eq: "root e ws rules = root_with e TAG_NODE TAG_EMPTY (ordered (map (sha256 e) (map (leaf_input e ws) rules)))"
  by (simp add: root_def root_of_def leaves_def leaf_def o_def cong: map_cong)

lemma node_eq: "node e = node_with e TAG_NODE"
  by (rule ext)+ (simp add: node_def)

lemma leaf_input_inj:
  assumes "uuid_forms e" and "rule_fits r" and "rule_fits s"
    and "leaf_input e ws r = leaf_input e ws' s"
  shows "ws = ws' \<and> r = s"
proof -
  have tag: "leaf_tag r = leaf_tag s"
    and rest: "uuid_bytes e ws @ hash_fields (leaf_fields e r) = uuid_bytes e ws' @ hash_fields (leaf_fields e s)"
    using leaf_tag_prefix assms(4) unfolding leaf_input_fields by blast+
  have "uuid_bytes e ws = uuid_bytes e ws'" and "hash_fields (leaf_fields e r) = hash_fields (leaf_fields e s)"
    using rest by (simp_all add: uuid_formsD [OF assms(1)])
  then have "ws = ws'" and "leaf_fields e r = leaf_fields e s"
    using assms by (auto simp: uuid_formsD intro!: hash_fields_inj leaf_fields_fit)
  then show ?thesis using leaf_fields_inj [OF assms(1) tag] by simp
qed

lemma leaf_image:
  assumes "uuid_forms e" and "list_all rule_fits rules" and "rule_fits r"
    and "leaf_input e ws r \<in> leaf_input e ws ` set rules"
  shows "r \<in> set rules"
  using assms leaf_input_inj [OF assms(1) assms(3)] by (auto simp: list_all_iff)

lemma position_SomeD: "position P xs = Some i \<Longrightarrow> i < length xs \<and> P (xs ! i)"
  by (induction xs arbitrary: i) (auto split: if_splits)

lemma position_exists: "x \<in> set xs \<Longrightarrow> P x \<Longrightarrow> position P xs \<noteq> None"
  by (induction xs) auto

lemma inclusion_verifies:
  assumes "position (\<lambda>l. l = leaf e ws r) (leaves e ws rules) = Some i" and "length rules \<le> 2 ^ 32"
  shows "verify e ws (root e ws rules) (Inclusion r (path_up (node e) (leaves e ws rules) i)) = Inr [r]"
proof -
  have i: "i < length (leaves e ws rules)" "leaves e ws rules ! i = leaf e ws r"
    using position_SomeD [OF assms(1)] by auto
  have "length (leaves e ws rules) \<le> 2 ^ 32"
    using assms(2) length_ordered [of "map (leaf e ws) rules"] by (simp add: leaves_def)
  then have "length (path_up (node e) (leaves e ws rules) i) \<le> MAX_PATH"
    unfolding MAX_PATH_def by (rule length_path_up)
  moreover have "fold_path (node e) (leaf e ws r) (path_up (node e) (leaves e ws rules) i) = root e ws rules"
    using fold_path_up [OF i(1), of "node e"] i by (auto simp: root_def root_of_def root_with_def node_eq)
  ultimately show ?thesis by simp
qed

section \<open>What the commitment promises\<close>

lemma vouched_committed:
  assumes "digest_width e" and "uuid_forms e" and "list_all rule_fits rules" and "proof_wf p"
    and "no_collision e (rules_hashed e ws rules \<union> proof_hashed e ws p)"
    and "verify e ws (root e ws rules) p = Inr vouched"
  shows "set vouched \<subseteq> set rules"
proof (cases p)
  case (WholeSet offered)
  then have "leaf_input e ws ` set offered = leaf_input e ws ` set rules" and "vouched = offered"
    using assms egress_tree.root_binds [OF assms(1), of e ws rules offered]
    by (auto simp: rules_hashed_def root_eq split: if_splits)
  then show ?thesis
    using leaf_image [OF assms(2,3)] assms(4) WholeSet by (auto simp: list_all_iff)
next
  case (Inclusion r path)
  then have "leaf_input e ws r \<in> leaf_input e ws ` set rules" and "vouched = [r]"
    using assms egress_tree.path_binds [OF assms(1), of e ws rules r path]
    by (auto simp: rules_hashed_def root_eq node_eq leaf_def split: if_splits)
  then show ?thesis
    using leaf_image [OF assms(2,3)] assms(4) Inclusion by auto
qed

text \<open>
  C12. Nothing the API did not commit to can be vouched for: whatever proof is offered against the
  root over a rule set, whole or by inclusion, the rules \<open>verify\<close> answers with are among the rules
  committed to, unless two of the byte strings hashed on the way share a digest.
\<close>
theorem verify_vouches_only_for_committed:
  assumes "digest_width e" and "uuid_forms e" and "list_all rule_fits rules" and "proof_wf p"
    and "no_collision e (rules_hashed e ws rules \<union> proof_hashed e ws p)"
    and "verify e ws (root e ws rules) p = Inr vouched"
  shows "set vouched \<subseteq> set rules"
  using assms by (rule vouched_committed)

text \<open>
  A rule in the set can always be proved and the proof is always accepted: for any set of up to
  2^32 rules and whichever shape is the shorter, \<open>prove\<close> answers with a proof that \<open>verify\<close> accepts
  against the set's own root, no path is longer than the verifier reads, and the runtime's
  \<open>vet_commitment\<close> hands back exactly the rule that matched.
\<close>
theorem committed_rule_is_provable:
  assumes "r \<in> set rules" and "length rules \<le> 2 ^ 32"
  shows "\<exists>p vouched. prove e encoded_len ws rules r = Some p \<and>
    verify e ws (root e ws rules) p = Inr vouched \<and> r \<in> set vouched \<and>
    vet_commitment e encoded_len ws rules (root e ws rules) r host = Inr r"
proof -
  have "leaf e ws r \<in> set (leaves e ws rules)" using assms(1) by (simp add: leaves_def)
  then obtain i where i: "position (\<lambda>l. l = leaf e ws r) (leaves e ws rules) = Some i"
    using position_exists [of "leaf e ws r"] by fastforce
  let ?inc = "Inclusion r (path_up (node e) (leaves e ws rules) i)"
  have whole: "verify e ws (root e ws rules) (WholeSet rules) = Inr rules" using assms(1) by auto
  have found: "find (\<lambda>v. v = r) rules = Some r" "find (\<lambda>v. v = r) [r] = Some r"
    using assms(1) by (induction rules) auto
  have "prove e encoded_len ws rules r = Some ?inc \<or> prove e encoded_len ws rules r = Some (WholeSet rules)"
    using i by (auto simp: prove_def Let_def split: option.split)
  then show ?thesis
    using inclusion_verifies [OF i assms(2)] whole found assms(1)
    by (elim disjE) (auto simp: vet_commitment_def)
qed

text \<open>
  One root, one set of rules: two rule lists of a workspace commit to the same root exactly
  when they hold the same rules, in whatever order and however often each, unless two of the byte
  strings hashed share a digest. In particular a set with a rule missing is a different root.
\<close>
theorem root_commits_to_one_set:
  assumes "digest_width e" and "uuid_forms e" and "list_all rule_fits rules" and "list_all rule_fits rules'"
    and "no_collision e (rules_hashed e ws rules \<union> rules_hashed e ws rules')"
  shows "root e ws rules = root e ws rules' \<longleftrightarrow> set rules = set rules'"
proof
  assume "root e ws rules = root e ws rules'"
  then have eq: "leaf_input e ws ` set rules = leaf_input e ws ` set rules'"
    using assms egress_tree.root_binds [OF assms(1), of e ws rules rules']
    by (simp add: rules_hashed_def root_eq)
  have "r \<in> set rules'" if "r \<in> set rules" for r
    using leaf_image [OF assms(2,4), of r ws] imageI [OF that, of "leaf_input e ws"] that assms(3) eq
    by (simp add: list_all_iff)
  moreover have "r \<in> set rules" if "r \<in> set rules'" for r
    using leaf_image [OF assms(2,3), of r ws] imageI [OF that, of "leaf_input e ws"] that assms(4) eq
    by (simp add: list_all_iff)
  ultimately show "set rules = set rules'" by blast
next
  assume "set rules = set rules'"
  then show "root e ws rules = root e ws rules'"
    unfolding root_def leaves_def by (subst ordered_set_eq) auto
qed

text \<open>
  A leaf names its workspace and every field of its rule: two leaves fed the same bytes are the
  same rule of the same workspace, whichever of the four kinds each is.
\<close>
theorem leaf_names_workspace_and_rule:
  assumes "uuid_forms e" and "rule_fits r" and "rule_fits s"
  shows "leaf_input e ws r = leaf_input e ws' s \<longleftrightarrow> ws = ws' \<and> r = s"
  using leaf_input_inj [OF assms] by auto

section \<open>Witnesses\<close>

definition plain_rule :: egress_rule where
  "plain_rule = \<lparr>rule_host = ''ab.c'', rule_header = None, credential_env = None, rule_client = None,
     rule_credential = None, rule_asker = None, on_behalf_of = False\<rparr>"

definition sealed_rule :: egress_rule where
  "sealed_rule = plain_rule\<lparr>rule_host := ''ab.d'', rule_credential := Some 7\<rparr>"

lemma example_rules_fit [simp]: "rule_fits plain_rule" "rule_fits sealed_rule"
  by (simp_all add: rule_fits_def fits_u64_def plain_rule_def sealed_rule_def)

theorem leaf_names_workspace_and_rule_witness:
  "leaf_input toy_outside 1 plain_rule \<noteq> leaf_input toy_outside 2 plain_rule"
  using leaf_names_workspace_and_rule [of toy_outside plain_rule plain_rule 1 2] by simp

theorem committed_rule_is_provable_witness:
  "\<exists>p vouched. prove toy_outside (\<lambda>_. None) 1 [plain_rule, sealed_rule] sealed_rule = Some p \<and>
     verify toy_outside 1 (root toy_outside 1 [plain_rule, sealed_rule]) p = Inr vouched \<and>
     sealed_rule \<in> set vouched \<and>
     vet_commitment toy_outside (\<lambda>_. None) 1 [plain_rule, sealed_rule]
       (root toy_outside 1 [plain_rule, sealed_rule]) sealed_rule ''ab.d'' = Inr sealed_rule"
  using committed_rule_is_provable [of sealed_rule "[plain_rule, sealed_rule]" toy_outside "\<lambda>_. None" 1 "''ab.d''"]
  by simp

text \<open>What one rule and nothing commit to: the rule's own leaf and the empty tag.\<close>

lemma rules_hashed_single: "rules_hashed e ws [r] = {TAG_EMPTY, leaf_input e ws r}"
  by (auto simp: rules_hashed_def committed_inputs_def in_order_def tree_of_def)

lemma example_endings:
  "\<exists>x. leaf_input toy_outside 1 plain_rule = x @ [CHR 0x00, CHR 0x00]"
  "\<exists>x. leaf_input toy_outside 1 sealed_rule = x @ ''--''"
  "\<exists>x. TAG_EMPTY = x @ [CHR ''1'', CHR 0x00]"
  by (auto simp: leaf_input_def plain_rule_def sealed_rule_def toy_outside_def toy_uuid_text_def TAG_EMPTY_def)

lemma example_no_collision:
  "no_collision toy_outside {TAG_EMPTY, leaf_input toy_outside 1 plain_rule, leaf_input toy_outside 1 sealed_rule}"
proof -
  obtain x y z where eqs:
    "leaf_input toy_outside 1 plain_rule = x @ [CHR 0x00, CHR 0x00]"
    "leaf_input toy_outside 1 sealed_rule = y @ ''--''" "TAG_EMPTY = z @ [CHR ''1'', CHR 0x00]"
    using example_endings by blast
  have "sha256 toy_outside = toy_digest" by (simp add: toy_outside_def)
  then show ?thesis
    unfolding no_collision_def inj_on_def eqs by (auto dest!: toy_digest_last)
qed

theorem verify_vouches_only_for_committed_witness:
  "verify toy_outside 1 (root toy_outside 1 [plain_rule]) (Inclusion plain_rule []) = Inr [plain_rule] \<and>
   set [plain_rule] \<subseteq> set [plain_rule]"
proof -
  have ok: "verify toy_outside 1 (root toy_outside 1 [plain_rule]) (Inclusion plain_rule []) = Inr [plain_rule]"
    by (simp add: root_def root_of_def leaves_def root_with_def ordered_def)
  show ?thesis
    using verify_vouches_only_for_committed [OF _ _ _ _ _ ok] ok
      no_collision_mono [OF example_no_collision]
    by (simp add: rules_hashed_single)
qed

theorem root_commits_to_one_set_witness:
  "root toy_outside 1 [plain_rule] \<noteq> root toy_outside 1 [sealed_rule]"
  using root_commits_to_one_set [of toy_outside "[plain_rule]" "[sealed_rule]" 1]
    no_collision_mono [OF example_no_collision]
  by (simp add: rules_hashed_single) (simp add: plain_rule_def sealed_rule_def)

end
