(* ===== verification/Utf8.thy ===== *)
theory Utf8
  imports Prelude
begin

text \<open>
  Text arriving in pieces, \<open>crates/core/src/utf8.rs\<close>: the decoder that holds back a character
  split across two chunks, and what a byte string plainly is when it is not text. The standard
  library's validation, \<open>str::from_utf8\<close> with its \<open>valid_up_to\<close> and \<open>error_len\<close>, and
  \<open>String::from_utf8_lossy\<close> are modelled here too.
\<close>

section \<open>Validation\<close>

text \<open>What a byte string begins with: a whole character of some width, an invalid sequence of some
  length, or the start of a character whose rest is missing.\<close>

datatype utf8_head = Whole nat | Bad nat | Cut

definition between :: "nat \<Rightarrow> char \<Rightarrow> nat \<Rightarrow> bool" where
  "between lo c hi \<longleftrightarrow> lo \<le> byte_val c \<and> byte_val c \<le> hi"

definition cont :: "char \<Rightarrow> bool" where
  "cont c \<longleftrightarrow> between 0x80 c 0xBF"

definition second3 :: "char \<Rightarrow> char \<Rightarrow> bool" where
  "second3 b0 b1 \<longleftrightarrow>
     (if byte_val b0 = 0xE0 then between 0xA0 b1 0xBF
      else if byte_val b0 = 0xED then between 0x80 b1 0x9F
      else cont b1)"

definition second4 :: "char \<Rightarrow> char \<Rightarrow> bool" where
  "second4 b0 b1 \<longleftrightarrow>
     (if byte_val b0 = 0xF0 then between 0x90 b1 0xBF
      else if byte_val b0 = 0xF4 then between 0x80 b1 0x8F
      else cont b1)"

text \<open>The bytes after the first, against a list of what each must be.\<close>

fun rest_of :: "nat \<Rightarrow> (char \<Rightarrow> bool) list \<Rightarrow> bytes \<Rightarrow> utf8_head" where
  "rest_of seen [] s = Whole seen"
| "rest_of seen (p # ps) [] = Cut"
| "rest_of seen (p # ps) (b # s) = (if p b then rest_of (seen + 1) ps s else Bad seen)"

fun head_of :: "bytes \<Rightarrow> utf8_head" where
  "head_of [] = Cut"
| "head_of (b # s) =
     (if byte_val b < 0x80 then Whole 1
      else if between 0xC2 b 0xDF then rest_of 1 [cont] s
      else if between 0xE0 b 0xEF then rest_of 1 [second3 b, cont] s
      else if between 0xF0 b 0xF4 then rest_of 1 [second4 b, cont, cont] s
      else Bad 1)"

lemma rest_of_Whole: "rest_of seen ps s = Whole n \<Longrightarrow> n = seen + length ps \<and> length ps \<le> length s"
  by (induction seen ps s rule: rest_of.induct) (auto split: if_splits)

lemma rest_of_Bad: "rest_of seen ps s = Bad n \<Longrightarrow> seen \<le> n \<and> n < seen + length s"
  by (induction seen ps s rule: rest_of.induct) (auto split: if_splits)

lemma rest_of_Cut: "rest_of seen ps s = Cut \<Longrightarrow> length s < length ps"
  by (induction seen ps s rule: rest_of.induct) (auto split: if_splits)

lemma rest_of_append: "rest_of seen ps s \<noteq> Cut \<Longrightarrow> rest_of seen ps (s @ t) = rest_of seen ps s"
  by (induction seen ps s rule: rest_of.induct) auto

lemma head_of_Whole: "head_of s = Whole n \<Longrightarrow> 0 < n \<and> n \<le> length s"
  by (cases s) (auto split: if_splits dest!: rest_of_Whole)

lemma head_of_Bad: "head_of s = Bad n \<Longrightarrow> 0 < n \<and> n \<le> length s"
  by (cases s) (auto split: if_splits dest!: rest_of_Bad)

lemma head_of_Cut: "head_of s = Cut \<Longrightarrow> length s \<le> 3"
  by (cases s) (auto split: if_splits dest!: rest_of_Cut)

lemma head_of_append: "head_of s \<noteq> Cut \<Longrightarrow> head_of (s @ t) = head_of s"
  by (cases s) (auto simp: rest_of_append split: if_splits)

text \<open>\<open>str::from_utf8\<close>: nothing wrong, or how far the text is valid and how long the invalid
  sequence there is, none for one that is merely unfinished.\<close>

function from_utf8 :: "bytes \<Rightarrow> (nat \<times> nat option) option" where
  "from_utf8 s =
     (if s = [] then None
      else (case head_of s of
          Whole n \<Rightarrow> map_option (\<lambda>(v, l). (n + v, l)) (from_utf8 (drop n s))
        | Bad n \<Rightarrow> Some (0, Some n)
        | Cut \<Rightarrow> Some (0, None)))"
  by pat_completeness auto
termination
  by (relation "measure length") (auto dest: head_of_Whole)

declare from_utf8.simps [simp del]

lemma from_utf8_Nil [simp]: "from_utf8 [] = None"
  by (simp add: from_utf8.simps)

definition replacement :: bytes where
  "replacement = [CHR 0xEF, CHR 0xBF, CHR 0xBD]"

text \<open>\<open>String::from_utf8_lossy\<close>: every invalid sequence becomes one replacement character.\<close>

function from_utf8_lossy :: "bytes \<Rightarrow> string" where
  "from_utf8_lossy s =
     (if s = [] then []
      else (case head_of s of
          Whole n \<Rightarrow> take n s @ from_utf8_lossy (drop n s)
        | Bad n \<Rightarrow> replacement @ from_utf8_lossy (drop n s)
        | Cut \<Rightarrow> replacement))"
  by pat_completeness auto
termination
  by (relation "measure length") (auto dest: head_of_Whole head_of_Bad)

declare from_utf8_lossy.simps [simp del]

lemma from_utf8_lossy_valid: "from_utf8 s = None \<Longrightarrow> from_utf8_lossy s = s"
proof (induction s rule: from_utf8_lossy.induct)
  case (1 s)
  show ?case
    using 1(3) 1(1) by (subst from_utf8_lossy.simps)
      (auto simp: from_utf8.simps [of s] split: utf8_head.splits if_splits)
qed

text \<open>A byte below 0x80 is its own character and ends whatever came before it.\<close>

lemma rest_of_interrupted:
  "rest_of seen ps s = Cut \<Longrightarrow> \<forall>p \<in> set ps. \<not> p c \<Longrightarrow> rest_of seen ps (s @ c # t) = Bad (seen + length s)"
  by (induction seen ps s rule: rest_of.induct) (auto split: if_splits)

lemma ascii_not_continuation [simp]:
  "byte_val c < 0x80 \<Longrightarrow> \<not> cont c" "byte_val c < 0x80 \<Longrightarrow> \<not> second3 b c" "byte_val c < 0x80 \<Longrightarrow> \<not> second4 b c"
  by (auto simp: cont_def second3_def second4_def between_def)

lemma head_of_interrupted:
  "head_of s = Cut \<Longrightarrow> s \<noteq> [] \<Longrightarrow> byte_val c < 0x80 \<Longrightarrow> head_of (s @ c # t) = Bad (length s)"
  by (cases s) (auto split: if_splits simp: rest_of_interrupted)

lemma from_utf8_lossy_Nil [simp]: "from_utf8_lossy [] = []"
  by (simp add: from_utf8_lossy.simps)

lemma from_utf8_lossy_ascii: "byte_val c < 0x80 \<Longrightarrow> from_utf8_lossy (c # t) = c # from_utf8_lossy t"
  by (simp add: from_utf8_lossy.simps [of "c # t"])

lemma from_utf8_lossy_split:
  assumes "byte_val c < 0x80"
  shows "from_utf8_lossy (s @ c # t) = from_utf8_lossy s @ c # from_utf8_lossy t"
proof (induction s rule: from_utf8_lossy.induct)
  case (1 s)
  show ?case
  proof (cases "s = []")
    case True
    then show ?thesis using assms by (simp add: from_utf8_lossy_ascii)
  next
    case False
    show ?thesis
    proof (cases "head_of s")
      case (Whole n)
      then have h: "head_of (s @ c # t) = Whole n" "n \<le> length s"
        using head_of_append head_of_Whole by fastforce+
      have "from_utf8_lossy (s @ c # t) = take n s @ from_utf8_lossy (drop n s @ c # t)"
        using h by (simp add: from_utf8_lossy.simps [of "s @ c # t"])
      then show ?thesis using 1(1) [OF False Whole] False Whole by (simp add: from_utf8_lossy.simps [of s])
    next
      case (Bad n)
      then have h: "head_of (s @ c # t) = Bad n" "n \<le> length s"
        using head_of_append head_of_Bad by fastforce+
      have "from_utf8_lossy (s @ c # t) = replacement @ from_utf8_lossy (drop n s @ c # t)"
        using h by (simp add: from_utf8_lossy.simps [of "s @ c # t"])
      then show ?thesis using 1(2) [OF False Bad] False Bad by (simp add: from_utf8_lossy.simps [of s])
    next
      case Cut
      then show ?thesis using False assms head_of_interrupted [OF Cut False assms, of t]
        by (simp add: from_utf8_lossy.simps [of "s @ c # t"] from_utf8_lossy.simps [of s] from_utf8_lossy_ascii)
    qed
  qed
qed

lemma from_utf8_lossy_Nil_iff [simp]: "from_utf8_lossy s = [] \<longleftrightarrow> s = []"
proof
  assume e: "from_utf8_lossy s = []"
  show "s = []"
  proof (rule ccontr)
    assume "s \<noteq> []"
    with e show False
      by (subst (asm) from_utf8_lossy.simps)
        (auto simp: replacement_def split: utf8_head.splits if_splits dest: head_of_Whole)
  qed
qed simp

section \<open>The decoder\<close>

text \<open>The bytes held back are the decoder's state. A push answers with what it appends and the next
  state, or with the error's two numbers.\<close>

type_synonym decoder = bytes

definition new_decoder :: decoder where
  "new_decoder = []"

definition push :: "decoder \<Rightarrow> bytes \<Rightarrow> string \<Rightarrow> (nat \<times> nat) + (decoder \<times> string)" where
  "push pending chunk out =
     (let bytes = (if pending = [] then chunk else pending @ chunk) in
      case from_utf8 bytes of
        None \<Rightarrow> Inr ([], out @ bytes)
      | Some (whole, None) \<Rightarrow> Inr (drop whole bytes, out @ take whole bytes)
      | Some (whole, Some n) \<Rightarrow> Inl (whole, n))"

definition is_partial :: "decoder \<Rightarrow> bool" where
  "is_partial pending \<longleftrightarrow> pending \<noteq> []"

text \<open>A stream's chunks pushed in order, to the first error.\<close>

fun push_all :: "decoder \<Rightarrow> bytes list \<Rightarrow> string \<Rightarrow> (nat \<times> nat) + (decoder \<times> string)" where
  "push_all pending [] out = Inr (pending, out)"
| "push_all pending (chunk # chunks) out =
     (case push pending chunk out of
        Inl err \<Rightarrow> Inl err
      | Inr (pending', out') \<Rightarrow> push_all pending' chunks out')"

lemma from_utf8_bounds: "from_utf8 s = Some (v, l) \<Longrightarrow> v \<le> length s"
proof (induction s arbitrary: v rule: from_utf8.induct)
  case (1 s)
  then show ?case
    by (subst (asm) (2) from_utf8.simps)
      (fastforce split: if_splits utf8_head.splits dest!: head_of_Whole)
qed

text \<open>What a prefix says of the whole.\<close>

lemma from_utf8_append:
  "from_utf8 (s @ t) =
     (case from_utf8 s of
        None \<Rightarrow> map_option (\<lambda>(v, l). (length s + v, l)) (from_utf8 t)
      | Some (v, None) \<Rightarrow> map_option (\<lambda>(v', l). (v + v', l)) (from_utf8 (drop v s @ t))
      | Some (v, Some n) \<Rightarrow> Some (v, Some n))"
proof (induction s rule: from_utf8.induct)
  case (1 s)
  show ?case
  proof (cases "s = []")
    case True
    then show ?thesis by (cases "from_utf8 t") auto
  next
    case False
    show ?thesis
    proof (cases "head_of s")
      case (Whole n)
      then have n: "0 < n" "n \<le> length s" and h: "head_of (s @ t) = Whole n"
        using head_of_Whole head_of_append by fastforce+
      have "from_utf8 (s @ t) = map_option (\<lambda>(v, l). (n + v, l)) (from_utf8 (drop n s @ t))"
        using False h n by (simp add: from_utf8.simps [of "s @ t"])
      moreover have "from_utf8 s = map_option (\<lambda>(v, l). (n + v, l)) (from_utf8 (drop n s))"
        using False Whole by (simp add: from_utf8.simps [of s])
      ultimately show ?thesis using 1 [OF False Whole] n
        by (cases "from_utf8 (drop n s)")
          (auto simp: option.map_comp o_def case_prod_unfold ac_simps split: option.splits)
    next
      case (Bad n)
      then have "head_of (s @ t) = Bad n" using head_of_append by fastforce
      then show ?thesis using False Bad by (simp add: from_utf8.simps [of s] from_utf8.simps [of "s @ t"])
    next
      case Cut
      then show ?thesis using False
        by (cases "from_utf8 (s @ t)") (auto simp: from_utf8.simps [of s])
    qed
  qed
qed

text \<open>What is left past the valid part of an unfinished string is the start of a character.\<close>

lemma from_utf8_rest: "from_utf8 s = Some (v, None) \<Longrightarrow> from_utf8 (drop v s) = Some (0, None) \<and> length (drop v s) \<le> 3"
proof (induction s arbitrary: v rule: from_utf8.induct)
  case (1 s)
  have "s \<noteq> []" using 1(2) by auto
  show ?case
  proof (cases "head_of s")
    case (Whole n)
    then obtain w where w: "from_utf8 (drop n s) = Some (w, None)" "v = n + w"
      using 1(2) \<open>s \<noteq> []\<close> by (auto simp: from_utf8.simps [of s])
    from 1(1) [OF \<open>s \<noteq> []\<close> Whole w(1)] show ?thesis by (simp add: w add.commute)
  next
    case (Bad n)
    then show ?thesis using 1(2) \<open>s \<noteq> []\<close> by (simp add: from_utf8.simps [of s])
  next
    case Cut
    then show ?thesis using 1(2) \<open>s \<noteq> []\<close> head_of_Cut by (simp add: from_utf8.simps [of s])
  qed
qed

definition held_back :: "decoder \<Rightarrow> bool" where
  "held_back pending \<longleftrightarrow> pending = [] \<or> (from_utf8 pending = Some (0, None) \<and> length pending \<le> 3)"

lemma split_at:
  assumes "v \<le> length b"
  shows "take (v + w) (b @ r) = take v b @ take w (drop v b @ r)"
    and "drop (v + w) (b @ r) = drop w (drop v b @ r)"
proof -
  have "b @ r = take v b @ (drop v b @ r)" by simp
  with assms show "take (v + w) (b @ r) = take v b @ take w (drop v b @ r)"
    "drop (v + w) (b @ r) = drop w (drop v b @ r)"
    by (metis add_diff_cancel_left' diff_is_0_eq' drop_0 drop_all drop_append length_take min.absorb2
        le_add1 append_Nil take_all_iff take_append)+
qed

lemma push_eq:
  "push pending chunk out = (case from_utf8 (pending @ chunk) of
        None \<Rightarrow> Inr ([], out @ pending @ chunk)
      | Some (whole, None) \<Rightarrow> Inr (drop whole (pending @ chunk), out @ take whole (pending @ chunk))
      | Some (whole, Some n) \<Rightarrow> Inl (whole, n))"
  by (auto simp: push_def Let_def split: option.split)

lemma push_all_reads:
  "held_back pending \<Longrightarrow>
   (case from_utf8 (pending @ concat chunks) of
      None \<Rightarrow> push_all pending chunks out = Inr ([], out @ pending @ concat chunks)
    | Some (whole, None) \<Rightarrow>
        push_all pending chunks out =
          Inr (drop whole (pending @ concat chunks), out @ take whole (pending @ concat chunks))
    | Some (whole, Some n) \<Rightarrow> \<exists>err. push_all pending chunks out = Inl err)"
proof (induction chunks arbitrary: pending out)
  case Nil
  then show ?case by (auto simp: held_back_def)
next
  case (Cons chunk chunks)
  define b where "b = pending @ chunk"
  have push: "push pending chunk out = (case from_utf8 b of
        None \<Rightarrow> Inr ([], out @ b)
      | Some (whole, None) \<Rightarrow> Inr (drop whole b, out @ take whole b)
      | Some (whole, Some n) \<Rightarrow> Inl (whole, n))"
    by (simp only: push_eq b_def)
  have all: "pending @ concat (chunk # chunks) = b @ concat chunks" by (simp add: b_def)
  show ?case
  proof (cases "from_utf8 b")
    case None
    have "held_back []" by (simp add: held_back_def)
    from Cons.IH [OF this, of "out @ b"] show ?thesis
      unfolding all from_utf8_append [of b] using None
      by (auto simp: push split: option.splits)
  next
    case (Some r)
    then obtain v l where r: "from_utf8 b = Some (v, l)" by (cases r) auto
    note v = from_utf8_bounds [OF r]
    show ?thesis
    proof (cases l)
      case None
      then have rest: "held_back (drop v b)"
        using r from_utf8_rest [of b v] by (auto simp: held_back_def)
      from Cons.IH [OF rest, of "out @ take v b"] show ?thesis
        unfolding all from_utf8_append [of b] using None r
        by (auto simp: push split_at [OF v] simp del: drop_append take_append split: option.splits)
    next
      case (Some n)
      then show ?thesis unfolding all from_utf8_append [of b] using r by (simp add: push)
    qed
  qed
qed

text \<open>
  C28. A stream reads the same wherever the network cut it: pushing its chunks one by one gives
  exactly what validating all its bytes at once gives. Valid text comes out whole and nothing is
  held back; a stream that ends inside a character gives everything before it and holds back at
  most three bytes; invalid bytes are an error however they are cut.
\<close>
theorem decoder_reads_stream_as_whole:
  "case from_utf8 (concat chunks) of
     None \<Rightarrow> push_all new_decoder chunks [] = Inr (new_decoder, concat chunks)
   | Some (whole, None) \<Rightarrow>
       push_all new_decoder chunks [] = Inr (drop whole (concat chunks), take whole (concat chunks)) \<and>
       is_partial (drop whole (concat chunks)) \<and> length (drop whole (concat chunks)) \<le> 3
   | Some (whole, Some n) \<Rightarrow> \<exists>err. push_all new_decoder chunks [] = Inl err"
proof -
  have "held_back []" by (simp add: held_back_def)
  from push_all_reads [OF this, of chunks "[]"] from_utf8_rest [of "concat chunks"] show ?thesis
    by (auto simp: new_decoder_def is_partial_def split: option.splits)
qed

section \<open>What is plainly not text\<close>

definition describe_binary :: "bytes \<Rightarrow> string option" where
  "describe_binary bytes =
     (if bytes = [] then None
      else if starts_with bytes (''PK'' @ [CHR 0x03, CHR 0x04]) \<or> starts_with bytes (''PK'' @ [CHR 0x05, CHR 0x06])
        then Some ''a zip archive; use expand_archive to unpack it''
      else if starts_with bytes ''%PDF''
        then Some ''a PDF, and document extraction is not configured here, so its text cannot be read''
      else if starts_with bytes (CHR 0x89 # ''PNG'') then Some ''a PNG image''
      else if starts_with bytes [CHR 0xFF, CHR 0xD8, CHR 0xFF] then Some ''a JPEG image''
      else if starts_with bytes ''GIF8'' then Some ''a GIF image''
      else if starts_with bytes [CHR 0x1F, CHR 0x8B] then Some ''gzip-compressed data''
      else
        (let window = take 8192 bytes;
             control = length (filter (\<lambda>b. byte_val b < 0x20 \<and> b \<notin> {CHR 0x09, CHR 0x0A, CHR 0x0D}) window) in
         if CHR 0x00 \<in> set window then Some ''binary data''
         else if control * 10 > length window then Some ''binary data''
         else None))"

end
