(* ===== verification/Gate.thy ===== *)
theory Gate
  imports Commit Utf8
begin

text \<open>
  Which outbound requests a turn may not make without somebody's word,
  \<open>crates/core/src/egress/gate.rs\<close>: one gate, the path it is matched on and how a path is read, the
  values a gate's pattern names in a path and its binds name in a body, and its leaf. The set of a
  turn's gates is in \<open>Gates\<close>.
\<close>

section \<open>Data\<close>

definition METHODS :: "string list" where
  "METHODS = [''GET'', ''POST'', ''PUT'', ''PATCH'', ''DELETE'', ''HEAD'']"

definition TAG_GATE_LEAF :: bytes where "TAG_GATE_LEAF = ''outturn:gate:leaf:v1'' @ [CHR 0x00]"
definition TAG_GRANT_LEAF :: bytes where "TAG_GRANT_LEAF = ''outturn:grant:leaf:v1'' @ [CHR 0x00]"
definition TAG_GATE_NODE :: bytes where "TAG_GATE_NODE = ''outturn:gate:node:v1'' @ [CHR 0x00]"
definition TAG_GATE_EMPTY :: bytes where "TAG_GATE_EMPTY = ''outturn:gate:empty:v1'' @ [CHR 0x00]"

lemmas gate_tag_defs = TAG_GATE_LEAF_def TAG_GRANT_LEAF_def TAG_GATE_NODE_def TAG_GATE_EMPTY_def

record gate =
  gate_requires :: string
  gate_host :: string
  gate_method :: string
  gate_path :: string
  identified_by :: "string option"
  binds :: "string list"

section \<open>Paths\<close>

text \<open>\<open>u8::from_str_radix(_, 16)\<close> on two bytes of text: two hexadecimal digits, or a plus sign and
  one.\<close>

definition hex_byte :: "char \<Rightarrow> char \<Rightarrow> char option" where
  "hex_byte a b =
     (case (hex_val a, hex_val b) of
        (Some x, Some y) \<Rightarrow> Some (byte (16 * x + y))
      | (None, Some y) \<Rightarrow> if a = CHR ''+'' then Some (byte y) else None
      | _ \<Rightarrow> None)"

fun percent_bytes :: "bytes \<Rightarrow> bytes" where
  "percent_bytes [] = []"
| "percent_bytes (c # rest) =
     (case rest of
        a # b # rest' \<Rightarrow>
          (if c = CHR ''%''
           then (case hex_byte a b of
                   Some d \<Rightarrow> d # percent_bytes rest'
                 | None \<Rightarrow> c # percent_bytes rest)
           else c # percent_bytes rest)
      | _ \<Rightarrow> c # percent_bytes rest)"

definition percent_decode :: "string \<Rightarrow> string" where
  "percent_decode path = from_utf8_lossy (percent_bytes path)"

text \<open>The loop over the characters, with whether the last one was a slash.\<close>

fun collapse_from :: "bool \<Rightarrow> string \<Rightarrow> string" where
  "collapse_from last_was_slash [] = []"
| "collapse_from last_was_slash (c # cs) =
     (if c = CHR ''/''
      then (if last_was_slash then collapse_from True cs else c # collapse_from True cs)
      else c # collapse_from False cs)"

definition collapse :: "string \<Rightarrow> string" where
  "collapse path =
     (let out = collapse_from False path in
      if length out > 1 \<and> ends_with out ''/'' then butlast out else out)"

definition normalize_path :: "string \<Rightarrow> string" where
  "normalize_path path = collapse (percent_decode path)"

definition param_char :: "char \<Rightarrow> bool" where
  "param_char c \<longleftrightarrow> ascii_alnum c \<or> c = CHR ''_''"

definition param_name :: "string \<Rightarrow> string option" where
  "param_name segment =
     (case strip_prefix segment ''{'' of
        None \<Rightarrow> None
      | Some s \<Rightarrow>
          (case strip_suffix s ''}'' of
             None \<Rightarrow> None
           | Some n \<Rightarrow> if n \<noteq> [] \<and> list_all param_char n then Some n else None))"

text \<open>The parameters of a path in order, or the first segment with a brace that is not one.\<close>

fun collect_params :: "string list \<Rightarrow> string + string list" where
  "collect_params [] = Inr []"
| "collect_params (s # ss) =
     (case param_name s of
        None \<Rightarrow> Inl s
      | Some n \<Rightarrow> (case collect_params ss of Inl e \<Rightarrow> Inl e | Inr ns \<Rightarrow> Inr (n # ns)))"

definition placeholders :: "string \<Rightarrow> string + string list" where
  "placeholders path =
     collect_params (filter (\<lambda>s. CHR ''{'' \<in> set s \<or> CHR ''}'' \<in> set s) (split_on (CHR ''/'') path))"

definition url_path_of :: "string \<Rightarrow> string" where
  "url_path_of u =
     (let rest = (case split_once_text ''://'' u of Some (_, r) \<Rightarrow> r | None \<Rightarrow> u);
          path = dropWhile (\<lambda>c. c \<noteq> CHR ''/'') rest in
      if path = [] then ''/'' else path)"

definition segments :: "string \<Rightarrow> string list" where
  "segments pattern = split_on (CHR ''/'') (collapse pattern)"

definition fits_segments :: "string list \<Rightarrow> string list \<Rightarrow> bool" where
  "fits_segments pattern sent \<longleftrightarrow>
     length sent = length pattern \<and>
     list_all (\<lambda>(want, got). case param_name want of Some _ \<Rightarrow> got \<noteq> [] | None \<Rightarrow> want = got) (zip pattern sent)"

definition has_path_params :: "string \<Rightarrow> bool" where
  "has_path_params pattern \<longleftrightarrow> list_ex (\<lambda>s. param_name s \<noteq> None) (split_on (CHR ''/'') pattern)"

definition path_params :: "gate \<Rightarrow> string list" where
  "path_params g = List.map_filter param_name (split_on (CHR ''/'') (gate_path g))"

section \<open>Covering a request\<close>

definition covers_request :: "gate \<Rightarrow> string \<Rightarrow> string \<Rightarrow> string \<Rightarrow> bool" where
  "covers_request g host method path \<longleftrightarrow>
     host_matches (gate_host g) host \<and> eq_ignore_case method (gate_method g) \<and>
     (if has_path_params (gate_path g)
      then
        (let pattern = segments (gate_path g) in
         fits_segments pattern (split_on (CHR ''/'') (normalize_path path)) \<or>
         fits_segments pattern (map percent_decode (split_on (CHR ''/'') (collapse path))))
      else
        (case strip_suffix (normalize_path (gate_path g)) ''*'' of
           Some pre \<Rightarrow> starts_with (normalize_path path) pre
         | None \<Rightarrow> normalize_path path = normalize_path (gate_path g)))"

section \<open>The values a request carries\<close>

datatype path_error = WrongSegments | AmbiguousSegment string string | NoMatch

text \<open>The loop over a pattern's segments and the path's, to the first that does not fit.\<close>

fun read_segments :: "(string \<times> string) list \<Rightarrow> path_error + (string \<times> string) list" where
  "read_segments [] = Inr []"
| "read_segments ((want, got) # rest) =
     (case param_name want of
        Some name \<Rightarrow>
          (if CHR ''/'' \<in> set got \<or> got = ''.'' \<or> got = ''..'' then Inl (AmbiguousSegment name got)
           else (case read_segments rest of Inl e \<Rightarrow> Inl e | Inr out \<Rightarrow> Inr ((name, got) # out)))
      | None \<Rightarrow> if want = got then read_segments rest else Inl NoMatch)"

definition path_values :: "string \<Rightarrow> string \<Rightarrow> path_error + (string \<times> string) list" where
  "path_values pattern path =
     (if \<not> has_path_params pattern then Inr []
      else
        (let names = segments pattern;
             sent = map percent_decode (split_on (CHR ''/'') (collapse path)) in
         if length sent \<noteq> length names then Inl WrongSegments
         else read_segments (zip names sent)))"

text \<open>One field's value: out of the path where its pattern names the field, else out of the body.\<close>

definition read_field :: "(string \<times> string) list \<Rightarrow> json option \<Rightarrow> string \<Rightarrow> json option" where
  "read_field from_path parsed field =
     (case find (\<lambda>(name, _). name = field) from_path of
        Some (_, v) \<Rightarrow> Some (JStr v)
      | None \<Rightarrow> (case parsed of Some v \<Rightarrow> json_get v field | None \<Rightarrow> None))"

fun bind_fields :: "(string \<Rightarrow> json option) \<Rightarrow> string list \<Rightarrow> object \<Rightarrow> object" where
  "bind_fields rd [] out = out"
| "bind_fields rd (f # fs) out =
     bind_fields rd fs
       (if obj_get out f = None
        then (case rd f of Some v \<Rightarrow> obj_insert f v out | None \<Rightarrow> out)
        else out)"

definition parse_body :: "outside \<Rightarrow> string option \<Rightarrow> json option" where
  "parse_body e body = (case body of Some b \<Rightarrow> json_parse e b | None \<Rightarrow> None)"

definition option_list :: "'a option \<Rightarrow> 'a list" where
  "option_list x = (case x of Some v \<Rightarrow> [v] | None \<Rightarrow> [])"

definition bound :: "outside \<Rightarrow> gate \<Rightarrow> string \<Rightarrow> string option \<Rightarrow> path_error + object" where
  "bound e g path body =
     (case path_values (gate_path g) path of
        Inl err \<Rightarrow> Inl err
      | Inr from_path \<Rightarrow>
          Inr (bind_fields (read_field from_path (parse_body e body))
                 (binds g @ option_list (identified_by g)) []))"

section \<open>A gate's leaf\<close>

definition gate_fields :: "gate \<Rightarrow> string option list" where
  "gate_fields g =
     [Some (gate_requires g), Some (gate_host g), Some (gate_method g), Some (gate_path g),
      identified_by g] @ map Some (binds g)"

definition gate_leaf_input :: "outside \<Rightarrow> uuid \<Rightarrow> gate \<Rightarrow> bytes" where
  "gate_leaf_input e workspace_id g =
     TAG_GATE_LEAF @ uuid_bytes e workspace_id @ hash_fields (gate_fields g)"

definition gate_leaf :: "outside \<Rightarrow> uuid \<Rightarrow> gate \<Rightarrow> hash" where
  "gate_leaf e workspace_id g = sha256 e (gate_leaf_input e workspace_id g)"

definition gate_key :: "outside \<Rightarrow> uuid \<Rightarrow> gate \<Rightarrow> string" where
  "gate_key e workspace_id g = hex_encode (gate_leaf e workspace_id g)"

section \<open>Hosts nobody reviewed\<close>

definition REACH :: string where "REACH = ''reach''"

definition reach_gate :: "string \<Rightarrow> string \<Rightarrow> gate" where
  "reach_gate host method =
     \<lparr>gate_requires = REACH, gate_host = host, gate_method = method, gate_path = ''/*'',
      identified_by = None, binds = []\<rparr>"

definition for_unreviewed_hosts :: "string list \<Rightarrow> string list \<Rightarrow> gate list" where
  "for_unreviewed_hosts allowed exempt =
     concat (map (\<lambda>host. map (reach_gate host) METHODS) (filter (\<lambda>host. host \<notin> set exempt) allowed))"

section \<open>Paths under other spellings\<close>

lemma hex_val_slash [simp]: "hex_val (CHR ''/'') = None"
  by (simp add: hex_val_def ascii_defs)

lemma hex_byte_slash [simp]: "hex_byte a (CHR ''/'') = None" "hex_byte (CHR ''/'') b = None"
  by (auto simp: hex_byte_def split: option.split)

lemma percent_bytes_split: "percent_bytes (a @ CHR ''/'' # b) = percent_bytes a @ CHR ''/'' # percent_bytes b"
proof (induction a rule: percent_bytes.induct)
  case 1
  then show ?case by (cases b; cases "tl b") auto
next
  case (2 c rest)
  consider "rest = []" | x where "rest = [x]" | x y r where "rest = x # y # r"
    by (cases rest; cases "tl rest") auto
  then show ?case
  proof cases
    case 1
    then show ?thesis using 2 by (cases b; cases "tl b") (auto split: option.splits)
  next
    case 2
    then show ?thesis using "2.IH"(1) "2.IH" by (cases b; cases "tl b") (auto split: option.splits)
  next
    case 3
    then show ?thesis using "2.IH" by (auto split: option.splits)
  qed
qed

lemma slash_ascii [simp]: "byte_val (CHR ''/'') < 0x80"
  by (simp add: byte_val_def)

lemma percent_decode_split:
  "percent_decode (a @ CHR ''/'' # b) = percent_decode a @ CHR ''/'' # percent_decode b"
  by (simp add: percent_decode_def percent_bytes_split from_utf8_lossy_split)

lemma percent_bytes_Nil_iff [simp]: "percent_bytes s = [] \<longleftrightarrow> s = []"
  by (cases s) (auto split: list.split option.split)

lemma percent_decode_Nil_iff [simp]: "percent_decode s = [] \<longleftrightarrow> s = []"
  by (simp add: percent_decode_def)

lemma collapse_from_double: "collapse_from l (a @ CHR ''/'' # CHR ''/'' # b) = collapse_from l (a @ CHR ''/'' # b)"
  by (induction a arbitrary: l) auto

lemma collapse_double: "collapse (a @ CHR ''/'' # CHR ''/'' # b) = collapse (a @ CHR ''/'' # b)"
  by (simp add: collapse_def collapse_from_double)

lemma collapse_from_snoc:
  "collapse_from l (a @ [CHR ''/'']) =
     (if (if a = [] then l else last a = CHR ''/'') then collapse_from l a
      else collapse_from l a @ [CHR ''/''])"
  by (induction a arbitrary: l) auto

lemma last_collapse_from:
  "a \<noteq> [] \<Longrightarrow> last a \<noteq> CHR ''/'' \<Longrightarrow> collapse_from l a \<noteq> [] \<and> last (collapse_from l a) = last a"
  by (induction a arbitrary: l) (auto split: if_splits)

lemma collapse_trailing:
  assumes "a \<noteq> []"
  shows "collapse (a @ [CHR ''/'']) = collapse a"
proof (cases "last a = CHR ''/''")
  case False
  then show ?thesis using last_collapse_from [OF assms False, of False] assms
    by (auto simp: collapse_def Let_def collapse_from_snoc ends_with_iff)
qed (use assms in \<open>simp add: collapse_def collapse_from_snoc\<close>)

lemma normalize_path_double: "normalize_path (a @ ''//'' @ b) = normalize_path (a @ ''/'' @ b)"
  using percent_decode_split [of a "CHR ''/'' # b"] percent_decode_split [of a b]
    percent_decode_split [of "[]" b]
  by (simp add: normalize_path_def collapse_double percent_decode_def)

lemma normalize_path_trailing: "path \<noteq> [] \<Longrightarrow> normalize_path (path @ ''/'') = normalize_path path"
  using percent_decode_split [of path "[]"]
  by (simp add: normalize_path_def collapse_trailing percent_decode_def)

lemma eq_ignore_case_lower: "to_lower a = to_lower b \<Longrightarrow> eq_ignore_case a c = eq_ignore_case b c"
  by (simp add: eq_ignore_case_def)

text \<open>
  C27. A gate is not got round by another spelling of the request: doubled slashes anywhere in the
  path, a slash after it, the case of the method, and the case or a trailing dot of the host change
  nothing about whether the gate covers it, whichever kind of pattern it has.
\<close>
theorem gate_not_evaded_by_spelling:
  assumes "path \<noteq> []" and "to_lower method = to_lower method'" and "norm_host host = norm_host host'"
  shows "covers_request g host method (a @ ''//'' @ b) = covers_request g host method (a @ ''/'' @ b) \<and>
    covers_request g host method (path @ ''/'') = covers_request g host method path \<and>
    covers_request g host method path = covers_request g host' method' path"
proof (intro conjI)
  have "collapse (a @ ''//'' @ b) = collapse (a @ ''/'' @ b)" using collapse_double [of a b] by simp
  then show "covers_request g host method (a @ ''//'' @ b) = covers_request g host method (a @ ''/'' @ b)"
    unfolding covers_request_def normalize_path_double by simp
  show "covers_request g host method (path @ ''/'') = covers_request g host method path"
    unfolding covers_request_def normalize_path_trailing [OF assms(1)] collapse_trailing [OF assms(1)] by simp
  show "covers_request g host method path = covers_request g host' method' path"
    unfolding covers_request_def rule_hosts.reads_norm [OF assms(3)] eq_ignore_case_lower [OF assms(2)] by simp
qed

definition charge_gate :: gate where
  "charge_gate = \<lparr>gate_requires = ''charge'', gate_host = ''ab.c'', gate_method = ''POST'',
     gate_path = ''/charges'', identified_by = None, binds = [''amount'', ''card'']\<rparr>"

theorem gate_not_evaded_by_spelling_witness:
  "covers_request charge_gate ''ab.c'' ''post'' ''/x//charges'' = covers_request charge_gate ''ab.c'' ''post'' ''/x/charges'' \<and>
   covers_request charge_gate ''ab.c'' ''post'' ''/charges/'' = covers_request charge_gate ''ab.c'' ''post'' ''/charges'' \<and>
   covers_request charge_gate ''ab.c'' ''post'' ''/charges'' = covers_request charge_gate ''AB.c.'' ''POST'' ''/charges''"
proof -
  have "norm_host ''ab.c'' = norm_host ''AB.c.''"
    by (simp add: norm_host_def graphic_def trim_end_matches_def is_dot_def to_lower_def ascii_defs char_of_def bit_0)
  moreover have "to_lower ''post'' = to_lower ''POST''"
    by (simp add: to_lower_def ascii_defs char_of_def bit_0)
  ultimately show ?thesis
    using gate_not_evaded_by_spelling [of "''/charges''" "''post''" "''POST''" "''ab.c''" "''AB.c.''" charge_gate "''/x''" "''charges''"]
    by simp
qed

text \<open>Every path a request can have begins with a slash, which normalizing keeps.\<close>

lemma normalize_path_slash: "\<exists>r. normalize_path (CHR ''/'' # p) = CHR ''/'' # r"
proof -
  have d: "percent_decode (CHR ''/'' # p) = CHR ''/'' # percent_decode p"
    using percent_decode_split [of "[]" p] by (simp add: percent_decode_def)
  have "\<exists>r. collapse (CHR ''/'' # s) = CHR ''/'' # r" for s
    by (cases "collapse_from True s") (auto simp: collapse_def Let_def)
  then show ?thesis by (simp add: normalize_path_def d)
qed

lemma reach_pattern: "normalize_path ''/*'' = ''/*''" "\<not> has_path_params ''/*''"
  by (simp_all add: normalize_path_def percent_decode_def collapse_def has_path_params_def param_name_def
      strip_prefix_def starts_with_def ends_with_def from_utf8_lossy_ascii byte_val_def)

lemma reach_gate_covers:
  assumes "host_matches host' host" and "eq_ignore_case method m"
  shows "covers_request (reach_gate host' m) host method (CHR ''/'' # p)"
proof -
  have "strip_suffix (normalize_path ''/*'') ''*'' = Some ''/''"
    by (simp add: reach_pattern strip_suffix_Some_iff)
  moreover obtain r where "normalize_path (CHR ''/'' # p) = CHR ''/'' # r" using normalize_path_slash by blast
  ultimately show ?thesis
    using assms by (simp add: covers_request_def reach_gate_def reach_pattern starts_with_iff)
qed

text \<open>
  A host nobody reviewed is gated for every method the platform sends and every path: a request
  to a host that an allowed, unexempt entry matches is covered by one of the gates the setting
  yields, and that gate asks for \<open>reach\<close> and binds nothing.
\<close>
theorem unreviewed_host_is_gated:
  assumes "entry \<in> set allowed" and "entry \<notin> set exempt" and "host_matches entry host"
    and "m \<in> set METHODS" and "eq_ignore_case method m"
  shows "\<exists>g \<in> set (for_unreviewed_hosts allowed exempt).
    covers_request g host method (CHR ''/'' # p) \<and> gate_requires g = REACH \<and> binds g = []"
proof -
  have "reach_gate entry m \<in> set (for_unreviewed_hosts allowed exempt)"
    using assms by (auto simp: for_unreviewed_hosts_def)
  then show ?thesis
    using reach_gate_covers [OF assms(3,5), of p] by (intro bexI [of _ "reach_gate entry m"]) (auto simp: reach_gate_def)
qed

theorem unreviewed_host_is_gated_witness:
  "\<exists>g \<in> set (for_unreviewed_hosts [''ab.c''] []).
     covers_request g ''ab.c'' ''POST'' ''/charges'' \<and> gate_requires g = REACH \<and> binds g = []"
proof -
  have "host_matches ''ab.c'' ''ab.c''" by (simp add: host_matches_def strip_prefix_def starts_with_def norm_host_def
      graphic_def trim_end_matches_def is_dot_def to_lower_def ascii_defs char_of_def bit_0)
  then show ?thesis
    using unreviewed_host_is_gated [of "''ab.c''" "[''ab.c'']" "[]" "''ab.c''" "''POST''" "''POST''" "''charges''"]
    by (simp add: METHODS_def)
qed

section \<open>What a pattern reads out of a path\<close>

definition whole_segment :: "string \<Rightarrow> bool" where
  "whole_segment v \<longleftrightarrow> CHR ''/'' \<notin> set v \<and> v \<noteq> ''.'' \<and> v \<noteq> ''..''"

lemma read_segments_Inr:
  "read_segments ps = Inr vs \<Longrightarrow>
     map fst vs = List.map_filter param_name (map fst ps) \<and> list_all (whole_segment \<circ> snd) vs"
proof (induction ps arbitrary: vs rule: read_segments.induct)
  case (2 want got rest)
  then show ?case
    by (cases "param_name want") (auto split: if_splits sum.splits simp: map_filter_simps whole_segment_def)
qed (simp add: map_filter_simps)

text \<open>
  What a gate's pattern reads out of a path is exactly its parameters, in order, and no value is
  one a recipient could read as more than one segment or resolve away.
\<close>
theorem path_values_are_whole_segments:
  assumes "path_values pattern path = Inr vs" and "has_path_params pattern"
  shows "map fst vs = List.map_filter param_name (segments pattern) \<and>
    list_all (whole_segment \<circ> snd) vs"
proof -
  let ?sent = "map percent_decode (split_on (CHR ''/'') (collapse path))"
  have "length ?sent = length (segments pattern)" "read_segments (zip (segments pattern) ?sent) = Inr vs"
    using assms by (auto simp: path_values_def Let_def split: if_splits)
  then show ?thesis using read_segments_Inr by fastforce
qed

lemma invoice_values:
  "has_path_params ''/invoices/{id}''" "path_values ''/invoices/{id}'' ''/invoices/7'' = Inr [(''id'', ''7'')]"
  by code_simp+

theorem path_values_are_whole_segments_witness:
  "map fst [(''id'', ''7'')] = List.map_filter param_name (segments ''/invoices/{id}'')"
  using path_values_are_whole_segments [OF invoice_values(2,1)] by blast

end
