(* ===== verification/Grant.thy ===== *)
theory Grant
  imports Gate
begin

text \<open>
  What a yes permits, \<open>crates/core/src/egress/grant.rs\<close>: how far a grant reaches, what a call grant
  is keyed on, the unit a wider one is, and whether a grant permits the request in hand. Parsing a
  URL is an argument of the one definition that does it.
\<close>

section \<open>Data\<close>

datatype extent = Call | Unit

fun extent_text :: "extent \<Rightarrow> string" where
  "extent_text Call = ''call''"
| "extent_text Unit = ''unit''"

definition extent_parse :: "string \<Rightarrow> extent option" where
  "extent_parse raw =
     (if raw = ''call'' then Some Call else if raw = ''unit'' then Some Unit else None)"

record granted =
  granted_requires :: string
  granted_extent :: extent
  keyed_on :: string

record shape =
  shape_method :: string
  shape_host :: string
  shape_path :: string
  shape_body :: "string option"

text \<open>A member of a document as text: nothing where it is missing or not text.\<close>

definition text_member :: "json \<Rightarrow> string \<Rightarrow> string option" where
  "text_member v k = (case json_get v k of Some m \<Rightarrow> as_str m | None \<Rightarrow> None)"

definition of_fetch_arguments :: "outside \<Rightarrow> (string \<Rightarrow> url option) \<Rightarrow> json \<Rightarrow> shape option" where
  "of_fetch_arguments e parse_url arguments =
     (case as_str arguments of
        None \<Rightarrow> None
      | Some text \<Rightarrow>
     (case json_parse e text of
        None \<Rightarrow> None
      | Some args \<Rightarrow>
     (case text_member args ''url'' of
        None \<Rightarrow> None
      | Some address \<Rightarrow>
     (case parse_url address of
        None \<Rightarrow> None
      | Some u \<Rightarrow>
     (case (text_member args ''method'', url_host u) of
        (Some m, Some h) \<Rightarrow>
          Some \<lparr>shape_method = to_upper m, shape_host = h, shape_path = url_path u,
                shape_body = text_member args ''body''\<rparr>
      | _ \<Rightarrow> None)))))"

section \<open>The key of a call grant\<close>

definition NUL :: char where "NUL = CHR 0x00"

definition structured :: "outside \<Rightarrow> json \<Rightarrow> string" where
  "structured e v = json_text e v"

fun value_part :: "outside \<Rightarrow> json option \<Rightarrow> bytes" where
  "value_part e (Some (JStr s)) = CHR ''s'' # s"
| "value_part e (Some (JNum n)) = CHR ''n'' # json_text e (JNum n)"
| "value_part e (Some (JBool b)) = (if b then ''b1'' else ''b0'')"
| "value_part e (Some JNull) = ''-''"
| "value_part e None = ''-''"
| "value_part e (Some (JArr l)) =
     CHR ''j'' # u64_le_bytes (length (structured e (JArr l))) @ structured e (JArr l)"
| "value_part e (Some (JObj ob)) =
     CHR ''j'' # u64_le_bytes (length (structured e (JObj ob))) @ structured e (JObj ob)"

definition field_part :: "outside \<Rightarrow> (path_error + object) \<Rightarrow> string \<Rightarrow> bytes" where
  "field_part e bnd f =
     [NUL] @ f @ [NUL] @ (case bnd of Inl _ \<Rightarrow> ''!'' | Inr b \<Rightarrow> value_part e (obj_get b f))"

text \<open>Everything fed to the digest, in the order it is fed.\<close>

definition digest_input :: "outside \<Rightarrow> gate \<Rightarrow> string \<Rightarrow> string \<Rightarrow> string \<Rightarrow> string option \<Rightarrow> bytes" where
  "digest_input e g method host path body =
     ''outturn:grant:digest:v1'' @ [NUL] @ gate_requires g @ [NUL] @ to_upper method @ [NUL] @
     to_lower host @ [NUL] @ normalize_path path @
     concat (map (field_part e (bound e g path body)) (binds g))"

definition digest :: "outside \<Rightarrow> gate \<Rightarrow> string \<Rightarrow> string \<Rightarrow> string \<Rightarrow> string option \<Rightarrow> string" where
  "digest e g method host path body = hex_encode (sha256 e (digest_input e g method host path body))"

section \<open>The unit of a wider one\<close>

fun unit_value :: "outside \<Rightarrow> json \<Rightarrow> string option" where
  "unit_value e (JStr s) = Some s"
| "unit_value e (JNum n) = Some (json_text e (JNum n))"
| "unit_value e _ = None"

definition unit_from_body :: "outside \<Rightarrow> string option \<Rightarrow> string \<Rightarrow> string option" where
  "unit_from_body e body field =
     (case parse_body e body of
        None \<Rightarrow> None
      | Some v \<Rightarrow> (case json_get v field of None \<Rightarrow> None | Some m \<Rightarrow> unit_value e m))"

definition grant_unit :: "outside \<Rightarrow> gate \<Rightarrow> string \<Rightarrow> string option \<Rightarrow> string option" where
  "grant_unit e g path body =
     (case identified_by g of
        None \<Rightarrow> None
      | Some field \<Rightarrow>
          (case bound e g path body of
             Inl _ \<Rightarrow> None
           | Inr b \<Rightarrow> (case obj_get b field of None \<Rightarrow> None | Some v \<Rightarrow> unit_value e v)))"

definition missing_bound_field :: "outside \<Rightarrow> gate \<Rightarrow> string \<Rightarrow> string option \<Rightarrow> string option" where
  "missing_bound_field e g path body =
     (let b = (case bound e g path body of Inl _ \<Rightarrow> [] | Inr b \<Rightarrow> b) in
      find (\<lambda>field. case obj_get b field of Some v \<Rightarrow> is_null v | None \<Rightarrow> True) (binds g))"

section \<open>Whether a grant permits a request\<close>

definition permits :: "outside \<Rightarrow> granted \<Rightarrow> gate \<Rightarrow> string \<Rightarrow> string \<Rightarrow> string \<Rightarrow> string option \<Rightarrow> bool" where
  "permits e gr g method host path body \<longleftrightarrow>
     granted_requires gr = gate_requires g \<and>
     (case granted_extent gr of
        Call \<Rightarrow> keyed_on gr = digest e g method host path body
      | Unit \<Rightarrow> (case grant_unit e g path body of Some u \<Rightarrow> u = keyed_on gr | None \<Rightarrow> False))"

definition grant_leaf_input :: "outside \<Rightarrow> uuid \<Rightarrow> granted \<Rightarrow> bytes" where
  "grant_leaf_input e workspace_id gr =
     TAG_GRANT_LEAF @ uuid_bytes e workspace_id @
     hash_fields [Some (granted_requires gr), Some (extent_text (granted_extent gr)), Some (keyed_on gr)]"

definition grant_leaf :: "outside \<Rightarrow> uuid \<Rightarrow> granted \<Rightarrow> hash" where
  "grant_leaf e workspace_id gr = sha256 e (grant_leaf_input e workspace_id gr)"

section \<open>What a call grant is keyed on\<close>

definition clean :: "string \<Rightarrow> bool" where
  "clean s \<longleftrightarrow> NUL \<notin> set s"

text \<open>What follows a value in the digest: nothing, or the separator before the next field.\<close>

definition at_separator :: "bytes \<Rightarrow> bool" where
  "at_separator r \<longleftrightarrow> r = [] \<or> hd r = NUL"

fun value_clean :: "outside \<Rightarrow> json option \<Rightarrow> bool" where
  "value_clean e (Some (JStr s)) = clean s"
| "value_clean e (Some (JNum n)) = clean (json_text e (JNum n))"
| "value_clean e (Some (JArr l)) = (length (json_text e (JArr l)) < 2 ^ 64)"
| "value_clean e (Some (JObj ob)) = (length (json_text e (JObj ob)) < 2 ^ 64)"
| "value_clean e _ = True"

fun nested :: "json \<Rightarrow> bool" where
  "nested (JArr l) = True"
| "nested (JObj ob) = True"
| "nested _ = False"

text \<open>Two bound values a person could not tell apart: both absent or null, or of one kind and the
  same as text.\<close>

fun same_value :: "outside \<Rightarrow> json option \<Rightarrow> json option \<Rightarrow> bool" where
  "same_value e (Some (JStr s)) w = (w = Some (JStr s))"
| "same_value e (Some (JBool b)) w = (w = Some (JBool b))"
| "same_value e (Some (JNum n)) w =
     (case w of Some (JNum m) \<Rightarrow> json_text e (JNum n) = json_text e (JNum m) | _ \<Rightarrow> False)"
| "same_value e None w = (w = None \<or> w = Some JNull)"
| "same_value e (Some JNull) w = (w = None \<or> w = Some JNull)"
| "same_value e (Some v) w =
     (case w of Some v' \<Rightarrow> nested v' \<and> json_text e v = json_text e v' | None \<Rightarrow> False)"

lemma clean_separated:
  assumes "clean x" "clean y" "at_separator r" "at_separator r'" "x @ r = y @ r'"
  shows "x = y \<and> r = r'"
proof -
  have "takeWhile (\<lambda>c. c \<noteq> NUL) (z @ q) = z" if "clean z" "at_separator q" for z q
    using that by (induction z) (cases q; auto simp: clean_def at_separator_def)+
  from this [OF assms(1,3)] this [OF assms(2,4)] assms(5) show ?thesis by (metis same_append_eq)
qed

lemma clean_NUL: "clean x \<Longrightarrow> clean y \<Longrightarrow> x @ NUL # r = y @ NUL # r' \<Longrightarrow> x = y \<and> r = r'"
  using clean_separated [of x y "NUL # r" "NUL # r'"] by (simp add: at_separator_def)

text \<open>The first byte of a value is its kind, which tells where it ends.\<close>

lemma nested_decode:
  "u64_le_bytes (length x) = u64_le_bytes (length y) \<Longrightarrow> x @ r = y @ r' \<Longrightarrow>
   length x < 18446744073709551616 \<Longrightarrow> length y < 18446744073709551616 \<Longrightarrow> x = y \<and> r = r'"
  using u64_le_bytes_inj [of "length x" "length y"] by simp

lemma value_part_decode:
  assumes "value_clean e v" "value_clean e w" "at_separator r" "at_separator r'"
    and eq: "value_part e v @ r = value_part e w @ r'"
  shows "same_value e v w \<and> r = r'"
proof (cases "(e, v)" rule: value_part.cases)
  case (1 e' s)
  with assms show ?thesis
    by (cases "(e, w)" rule: value_part.cases) (auto split: if_splits dest: clean_separated)
next
  case (2 e' n)
  with assms show ?thesis
    by (cases "(e, w)" rule: value_part.cases) (auto split: if_splits dest: clean_separated)
next
  case (3 e' b)
  with assms show ?thesis
    by (cases "(e, w)" rule: value_part.cases) (auto split: if_splits)
next
  case (4 e')
  with assms show ?thesis
    by (cases "(e, w)" rule: value_part.cases) (auto split: if_splits)
next
  case (5 e')
  with assms show ?thesis
    by (cases "(e, w)" rule: value_part.cases) (auto split: if_splits)
next
  case (6 e' l)
  with assms show ?thesis
    by (cases "(e, w)" rule: value_part.cases)
      (auto simp: structured_def split: if_splits dest: nested_decode)
next
  case (7 e' ob)
  with assms show ?thesis
    by (cases "(e, w)" rule: value_part.cases)
      (auto simp: structured_def split: if_splits dest: nested_decode)
qed

lemma field_parts_at_separator: "at_separator (concat (map (field_part e b) fs))"
  by (cases fs) (auto simp: at_separator_def field_part_def)

lemma field_parts_decode:
  assumes "concat (map (field_part e (Inr b)) fs) = concat (map (field_part e (Inr b')) fs)"
    and "list_all (\<lambda>f. value_clean e (obj_get b f) \<and> value_clean e (obj_get b' f)) fs"
  shows "list_all (\<lambda>f. same_value e (obj_get b f) (obj_get b' f)) fs"
  using assms
proof (induction fs)
  case (Cons f fs)
  have "value_part e (obj_get b f) @ concat (map (field_part e (Inr b)) fs) =
    value_part e (obj_get b' f) @ concat (map (field_part e (Inr b')) fs)"
    using Cons.prems(1) by (simp add: field_part_def [of _ _ f])
  from value_part_decode [OF _ _ field_parts_at_separator field_parts_at_separator this] Cons
  show ?case by simp
qed simp

lemma digest_input_decode:
  assumes eq: "digest_input e g m h p body = digest_input e g m' h' p' body'"
    and "bound e g p body = Inr b" "bound e g p' body' = Inr b'"
    and "clean (to_upper m)" "clean (to_upper m')" "clean (to_lower h)" "clean (to_lower h')"
    and "clean (normalize_path p)" "clean (normalize_path p')"
    and "list_all (\<lambda>f. value_clean e (obj_get b f) \<and> value_clean e (obj_get b' f)) (binds g)"
  shows "to_upper m = to_upper m' \<and> to_lower h = to_lower h' \<and> normalize_path p = normalize_path p' \<and>
    list_all (\<lambda>f. same_value e (obj_get b f) (obj_get b' f)) (binds g)"
proof -
  let ?parts = "\<lambda>b. concat (map (field_part e (Inr b)) (binds g))"
  have 1: "to_upper m @ NUL # (to_lower h @ NUL # (normalize_path p @ ?parts b)) =
    to_upper m' @ NUL # (to_lower h' @ NUL # (normalize_path p' @ ?parts b'))"
    using eq assms(2,3) by (simp add: digest_input_def)
  note 2 = clean_NUL [OF assms(4,5) 1]
  note 3 = clean_NUL [OF assms(6,7) 2 [THEN conjunct2]]
  note 4 = clean_separated [OF assms(8,9) field_parts_at_separator field_parts_at_separator 3 [THEN conjunct2]]
  show ?thesis using 2 3 4 field_parts_decode [OF 4 [THEN conjunct2] assms(10)] by simp
qed

section \<open>What a call grant permits\<close>

text \<open>The strings of a request that reach the digest hold no separator.\<close>

definition request_clean :: "string \<Rightarrow> string \<Rightarrow> string \<Rightarrow> bool" where
  "request_clean method host path \<longleftrightarrow>
     clean (to_upper method) \<and> clean (to_lower host) \<and> clean (normalize_path path)"

lemma call_permits_shown:
  assumes "granted_extent gr = Call" and "keyed_on gr = digest e g m h p body"
    and "permits e gr g m' h' p' body'"
    and "no_collision e {digest_input e g m h p body, digest_input e g m' h' p' body'}"
    and "request_clean m h p" and "request_clean m' h' p'"
    and "bound e g p body = Inr b" and "bound e g p' body' = Inr b'"
    and "list_all (\<lambda>f. value_clean e (obj_get b f) \<and> value_clean e (obj_get b' f)) (binds g)"
  shows "to_upper m = to_upper m' \<and> to_lower h = to_lower h' \<and> normalize_path p = normalize_path p' \<and>
    list_all (\<lambda>f. same_value e (obj_get b f) (obj_get b' f)) (binds g)"
proof -
  have "hex_encode (sha256 e (digest_input e g m h p body)) = hex_encode (sha256 e (digest_input e g m' h' p' body'))"
    using assms(1-3) by (simp add: permits_def digest_def)
  then have "digest_input e g m h p body = digest_input e g m' h' p' body'"
    using no_collisionD [OF assms(4)] hex_encode_inj by blast
  from digest_input_decode [OF this assms(7,8)] assms(5,6,9) show ?thesis
    by (simp add: request_clean_def)
qed

text \<open>
  A call grant permits only the request somebody looked at. Where a grant was taken out on one
  request through a gate and permits another through it, the two have the same method, host and
  normalized path and the same value in every field the gate binds, as long as no string of either
  holds the byte zero the digest separates by and the two digests are not a collision.
\<close>
theorem call_grant_permits_only_what_was_shown:
  assumes "granted_extent gr = Call" and "keyed_on gr = digest e g m h p body"
    and "permits e gr g m' h' p' body'"
    and "no_collision e {digest_input e g m h p body, digest_input e g m' h' p' body'}"
    and "request_clean m h p" and "request_clean m' h' p'"
    and "bound e g p body = Inr b" and "bound e g p' body' = Inr b'"
    and "list_all (\<lambda>f. value_clean e (obj_get b f) \<and> value_clean e (obj_get b' f)) (binds g)"
  shows "to_upper m = to_upper m' \<and> to_lower h = to_lower h' \<and> normalize_path p = normalize_path p' \<and>
    list_all (\<lambda>f. same_value e (obj_get b f) (obj_get b' f)) (binds g)"
  using assms by (rule call_permits_shown)

text \<open>The gate and two bodies of the witnesses: the same charge to two cards.\<close>

definition charge_outside :: "json \<Rightarrow> json \<Rightarrow> outside" where
  "charge_outside v w = toy_outside\<lparr>json_parse := (\<lambda>b. if b = ''1'' then Some v else if b = ''2'' then Some w else None)\<rparr>"

definition charge :: "string \<Rightarrow> string \<Rightarrow> json" where
  "charge amt crd = JObj [(''amount'', JStr amt), (''card'', JStr crd)]"

lemma charge_bound:
  "json_parse e t = Some (charge a c) \<Longrightarrow>
     bound e charge_gate ''/charges'' (Some t) = Inr [(''amount'', JStr a), (''card'', JStr c)]"
proof -
  have np: "path_values ''/charges'' ''/charges'' = Inr []" by code_simp
  have lt: "\<not> ''card'' < ''amount''" by code_simp
  show "json_parse e t = Some (charge a c) \<Longrightarrow>
     bound e charge_gate ''/charges'' (Some t) = Inr [(''amount'', JStr a), (''card'', JStr c)]"
    by (simp add: bound_def np charge_gate_def option_list_def parse_body_def
        read_field_def charge_def obj_get_def lt)
qed

lemma charge_digest:
  "json_parse e t = Some (charge a c) \<Longrightarrow>
   digest_input e charge_gate m h ''/charges'' (Some t) =
     ''outturn:grant:digest:v1'' @ [NUL] @ ''charge'' @ [NUL] @ to_upper m @ [NUL] @ to_lower h @ [NUL] @
     normalize_path ''/charges'' @ [NUL] @ ''amount'' @ [NUL] @ ''s'' @ a @ [NUL] @ ''card'' @ [NUL] @ ''s'' @ c"
  by (simp add: digest_input_def charge_bound field_part_def obj_get_def)
    (simp add: charge_gate_def field_part_def obj_get_def)

lemma charge_outside_parse [simp]:
  "json_parse (charge_outside v w) ''1'' = Some v" "json_parse (charge_outside v w) ''2'' = Some w"
  by (simp_all add: charge_outside_def)

lemma charge_request_clean: "request_clean ''POST'' ''ab.c'' ''/charges''"
  unfolding request_clean_def clean_def NUL_def by code_simp

theorem call_grant_permits_only_what_was_shown_witness:
  "list_all (\<lambda>f. same_value (charge_outside (charge ''40'' ''visa'') (charge ''40'' ''visa''))
       (obj_get [(''amount'', JStr ''40''), (''card'', JStr ''visa'')] f)
       (obj_get [(''amount'', JStr ''40''), (''card'', JStr ''visa'')] f)) (binds charge_gate)"
proof -
  let ?e = "charge_outside (charge ''40'' ''visa'') (charge ''40'' ''visa'')"
  let ?gr = "\<lparr>granted_requires = ''charge'', granted_extent = Call,
    keyed_on = digest ?e charge_gate ''POST'' ''ab.c'' ''/charges'' (Some ''1'')\<rparr>"
  have same: "digest_input ?e charge_gate ''POST'' ''ab.c'' ''/charges'' (Some ''1'') =
      digest_input ?e charge_gate ''POST'' ''ab.c'' ''/charges'' (Some ''2'')"
    by (simp add: charge_digest)
  have "permits ?e ?gr charge_gate ''POST'' ''ab.c'' ''/charges'' (Some ''2'')"
    by (simp add: permits_def digest_def same) (simp add: charge_gate_def)
  moreover have "no_collision ?e {digest_input ?e charge_gate ''POST'' ''ab.c'' ''/charges'' (Some ''1''),
      digest_input ?e charge_gate ''POST'' ''ab.c'' ''/charges'' (Some ''2'')}"
    by (simp add: no_collision_def same)
  moreover have "list_all (\<lambda>f. value_clean ?e (obj_get [(''amount'', JStr ''40''), (''card'', JStr ''visa'')] f) \<and>
      value_clean ?e (obj_get [(''amount'', JStr ''40''), (''card'', JStr ''visa'')] f)) (binds charge_gate)"
    by (simp add: charge_gate_def obj_get_def clean_def NUL_def)
  ultimately show ?thesis
    using call_grant_permits_only_what_was_shown [OF _ _ _ _ charge_request_clean charge_request_clean
        charge_bound charge_bound, of ?gr]
    by simp
qed

definition long_amount :: string where "long_amount = ''40'' @ [NUL] @ ''card'' @ [NUL] @ ''svisa''"
definition long_card :: string where "long_card = ''visa'' @ [NUL] @ ''card'' @ [NUL] @ ''sx''"

text \<open>
  A scalar is not length-prefixed, and a JSON string may hold the byte zero: then two different
  charges have one digest. A charge of \<open>40 NUL card NUL svisa\<close> to the card \<open>x\<close> and a charge of \<open>40\<close> to
  the card \<open>visa NUL card NUL sx\<close> are fed to the hash as the same bytes, neither lacks a bound
  field, and a call grant taken out on the first permits the second.
\<close>
theorem digest_confuses_values_holding_zero:
  assumes "json_parse e t = Some (charge long_amount ''x'')" and "json_parse e t' = Some (charge ''40'' long_card)"
    and "granted_requires gr = ''charge''" and "granted_extent gr = Call"
    and "keyed_on gr = digest e charge_gate m h ''/charges'' (Some t)"
  shows "permits e gr charge_gate m h ''/charges'' (Some t') \<and>
    bound e charge_gate ''/charges'' (Some t) \<noteq> bound e charge_gate ''/charges'' (Some t') \<and>
    missing_bound_field e charge_gate ''/charges'' (Some t) = None \<and>
    missing_bound_field e charge_gate ''/charges'' (Some t') = None"
proof -
  have "digest e charge_gate m h ''/charges'' (Some t) = digest e charge_gate m h ''/charges'' (Some t')"
    unfolding digest_def charge_digest [OF assms(1)] charge_digest [OF assms(2)]
    by (simp add: long_amount_def long_card_def)
  moreover have "gate_requires charge_gate = ''charge''" by (simp add: charge_gate_def)
  moreover have "missing_bound_field e charge_gate ''/charges'' (Some t) = None"
    "missing_bound_field e charge_gate ''/charges'' (Some t') = None"
    unfolding missing_bound_field_def charge_bound [OF assms(1)] charge_bound [OF assms(2)]
    by (simp_all add: charge_gate_def obj_get_def)
  ultimately show ?thesis
    using assms(3-5) unfolding charge_bound [OF assms(1)] charge_bound [OF assms(2)]
    by (simp add: permits_def) (simp add: long_amount_def)
qed

definition zero_outside :: outside where
  "zero_outside = charge_outside (charge long_amount ''x'') (charge ''40'' long_card)"

theorem digest_confuses_values_holding_zero_witness:
  "permits zero_outside
     \<lparr>granted_requires = ''charge'', granted_extent = Call,
      keyed_on = digest zero_outside charge_gate ''POST'' ''ab.c'' ''/charges'' (Some ''1'')\<rparr>
     charge_gate ''POST'' ''ab.c'' ''/charges'' (Some ''2'')"
  using digest_confuses_values_holding_zero [of zero_outside "''1''" "''2''"
      "\<lparr>granted_requires = ''charge'', granted_extent = Call,
        keyed_on = digest zero_outside charge_gate ''POST'' ''ab.c'' ''/charges'' (Some ''1'')\<rparr>" "''POST''" "''ab.c''"]
  by (simp add: zero_outside_def)

end
