(* ===== verification/Amount.thy ===== *)
theory Amount
  imports Json
begin

text \<open>
  Risk worked out from the amount a request carries, \<open>crates/core/src/egress/amount.rs\<close>, with the
  risk levels of \<open>policy.rs\<close> it is built on and the bound the rules table shows for it
  (\<open>most\<close> in \<open>crates/api/src/auto_approval/rules.rs\<close>). The error texts are constructors.
\<close>

section \<open>Risk levels\<close>

datatype risk = Low | Medium | High

fun risk_rank :: "risk \<Rightarrow> nat" where
  "risk_rank Low = 0"
| "risk_rank Medium = 1"
| "risk_rank High = 2"

lemma risk_rank_inj: "risk_rank a = risk_rank b \<Longrightarrow> a = b"
  by (cases a; cases b) auto

instantiation risk :: linorder
begin

definition less_eq_risk :: "risk \<Rightarrow> risk \<Rightarrow> bool" where
  "less_eq_risk a b \<longleftrightarrow> risk_rank a \<le> risk_rank b"

definition less_risk :: "risk \<Rightarrow> risk \<Rightarrow> bool" where
  "less_risk a b \<longleftrightarrow> risk_rank a < risk_rank b"

instance
  by standard (auto simp: less_eq_risk_def less_risk_def intro: risk_rank_inj)

end

lemma risk_less_simps [simp]:
  "Low < Medium" "Low < High" "Medium < High" "\<not> High < r" "\<not> r < Low" "\<not> Medium < Low"
  "\<not> Medium < Medium"
  by (cases r; simp add: less_risk_def)+

lemma risk_le_simps [simp]:
  "Low \<le> r" "r \<le> High" "Medium \<le> r \<longleftrightarrow> r \<noteq> Low" "r \<le> Low \<longleftrightarrow> r = Low" "r \<le> Medium \<longleftrightarrow> r \<noteq> High"
  "High \<le> r \<longleftrightarrow> r = High"
  by (cases r; simp add: less_eq_risk_def)+

lemma risk_less_iff [simp]:
  "Low < r \<longleftrightarrow> r \<noteq> Low" "Medium < r \<longleftrightarrow> r = High" "r < Medium \<longleftrightarrow> r = Low" "r < High \<longleftrightarrow> r \<noteq> High"
  by (cases r; simp add: less_risk_def)+

lemma all_risk: "(\<forall>r. P r) \<longleftrightarrow> P Low \<and> P Medium \<and> P High"
  by (metis risk.exhaust)

fun risk_text :: "risk \<Rightarrow> string" where
  "risk_text Low = ''low''"
| "risk_text Medium = ''medium''"
| "risk_text High = ''high''"

definition risk_parse :: "string \<Rightarrow> risk option" where
  "risk_parse raw =
     (if raw = ''low'' then Some Low
      else if raw = ''medium'' then Some Medium
      else if raw = ''high'' then Some High
      else None)"

section \<open>Data\<close>

definition MAX_MINOR_UNITS :: nat where "MAX_MINOR_UNITS = 4"

record amount =
  am_field :: string
  am_currency :: string
  am_minor_units :: nat
  am_currency_field :: "string option"

record bands =
  band_low :: "int option"
  band_medium :: "int option"

record floor =
  floor_medium :: "int option"
  floor_high :: "int option"

record amount_decl =
  decl_amount :: amount
  decl_bands :: bands
  decl_floor :: floor

datatype amount_error =
    BandNotPositive risk
  | BandMeansNothing risk risk
  | BandsDoNotRise
  | BandPastFloor risk risk
  | FloorNotPositive risk
  | FloorsDoNotRise
  | NotACurrency string
  | AmountNotBound string
  | AmountNotANumber string
  | CurrencyNotBound string
  | CurrencyIsAmount
  | TooManyMinorUnits

section \<open>Bands and floors\<close>

fun bands_get :: "bands \<Rightarrow> risk \<Rightarrow> int option" where
  "bands_get b Low = band_low b"
| "bands_get b Medium = band_medium b"
| "bands_get b High = None"

definition bands_is_empty :: "bands \<Rightarrow> bool" where
  "bands_is_empty b \<longleftrightarrow> band_low b = None \<and> band_medium b = None"

definition check_band :: "risk \<Rightarrow> risk \<times> int option \<Rightarrow> amount_error option" where
  "check_band base lb =
     (case lb of (level, band) \<Rightarrow>
        (case band of
           None \<Rightarrow> None
         | Some b \<Rightarrow>
             if b \<le> 0 then Some (BandNotPositive level)
             else if level \<ge> base then Some (BandMeansNothing level base)
             else None))"

definition check_rising :: "int option \<Rightarrow> int option \<Rightarrow> amount_error \<Rightarrow> amount_error option" where
  "check_rising lower upper e =
     (case (lower, upper) of
        (Some l, Some u) \<Rightarrow> if l \<ge> u then Some e else None
      | _ \<Rightarrow> None)"

definition check_below_floor :: "bands \<Rightarrow> risk \<times> int option \<Rightarrow> amount_error option list" where
  "check_below_floor b la =
     (case la of (level, bound) \<Rightarrow>
        (case bound of
           None \<Rightarrow> []
         | Some at \<Rightarrow>
             map (\<lambda>below. case bands_get b below of
                            Some band \<Rightarrow> if band > at then Some (BandPastFloor below level) else None
                          | None \<Rightarrow> None)
               (filter (\<lambda>l. l < level) [Low, Medium])))"

definition bands_check :: "bands \<Rightarrow> risk \<Rightarrow> floor \<Rightarrow> amount_error + unit" where
  "bands_check b base f =
     verdict_of
       (map (check_band base) [(Low, band_low b), (Medium, band_medium b)] @
        [check_rising (band_low b) (band_medium b) BandsDoNotRise] @
        concat (map (check_below_floor b) [(Medium, floor_medium f), (High, floor_high f)]))"

fun floor_get :: "floor \<Rightarrow> risk \<Rightarrow> int option" where
  "floor_get f Low = None"
| "floor_get f Medium = floor_medium f"
| "floor_get f High = floor_high f"

definition floor_check :: "floor \<Rightarrow> amount_error + unit" where
  "floor_check f =
     verdict_of
       (map (\<lambda>(level, at). case at of
               Some a \<Rightarrow> if a \<le> 0 then Some (FloorNotPositive level) else None
             | None \<Rightarrow> None)
          [(Medium, floor_medium f), (High, floor_high f)] @
        [check_rising (floor_medium f) (floor_high f) FloorsDoNotRise])"

section \<open>Currencies and their units\<close>

definition standard_minor_units :: "string \<Rightarrow> nat" where
  "standard_minor_units currency =
     (if currency \<in> set [''BIF'', ''CLP'', ''DJF'', ''GNF'', ''ISK'', ''JPY'', ''KMF'', ''KRW'', ''PYG'',
          ''RWF'', ''UGX'', ''UYI'', ''VND'', ''VUV'', ''XAF'', ''XOF'', ''XPF''] then 0
      else if currency \<in> set [''BHD'', ''IQD'', ''JOD'', ''KWD'', ''LYD'', ''OMR'', ''TND''] then 3
      else if currency \<in> set [''CLF'', ''UYW''] then 4
      else 2)"

definition checked_pow10 :: "nat \<Rightarrow> int option" where
  "checked_pow10 k = checked_i64 (10 ^ k)"

definition to_standard :: "int \<Rightarrow> string \<Rightarrow> nat \<Rightarrow> int option" where
  "to_standard amt currency minor_units =
     (let standard = standard_minor_units currency
      in if minor_units \<ge> standard then
           (case checked_pow10 (minor_units - standard) of
              None \<Rightarrow> None
            | Some scale \<Rightarrow> Some (amt div scale + (if amt mod scale \<noteq> 0 then 1 else 0)))
         else
           (case checked_pow10 (standard - minor_units) of
              None \<Rightarrow> None
            | Some scale \<Rightarrow> checked_i64 (amt * scale)))"

definition from_standard :: "int \<Rightarrow> string \<Rightarrow> nat \<Rightarrow> int option" where
  "from_standard bound currency minor_units =
     (let standard = standard_minor_units currency;
          converted =
            (if minor_units \<ge> standard then
               (case checked_pow10 (minor_units - standard) of
                  None \<Rightarrow> None
                | Some scale \<Rightarrow> checked_i64 (bound * scale))
             else
               (case checked_pow10 (standard - minor_units) of
                  None \<Rightarrow> None
                | Some scale \<Rightarrow> Some (bound div scale)))
      in case converted of None \<Rightarrow> None | Some c \<Rightarrow> if c > 0 then Some c else None)"

definition bands_from_standard :: "bands \<Rightarrow> string \<Rightarrow> nat \<Rightarrow> bands" where
  "bands_from_standard b currency minor_units =
     (let at = (\<lambda>x. Option.bind x (\<lambda>v. from_standard v currency minor_units))
      in \<lparr>band_low = at (band_low b), band_medium = at (band_medium b)\<rparr>)"

definition check_currency :: "string \<Rightarrow> amount_error + unit" where
  "check_currency currency =
     (if length currency = 3 \<and> list_all ascii_upper currency then Inr () else Inl (NotACurrency currency))"

definition amount_decl_check ::
    "amount_decl \<Rightarrow> risk \<Rightarrow> string list \<Rightarrow> string list \<Rightarrow> amount_error + unit" where
  "amount_decl_check d base binds numbers =
     (let a = decl_amount d; field = am_field a in
      if field \<notin> set binds then Inl (AmountNotBound field)
      else if field \<notin> set numbers then Inl (AmountNotANumber field)
      else
        (case (case am_currency_field a of
                 None \<Rightarrow> Inr ()
               | Some named \<Rightarrow>
                   if named \<notin> set binds then Inl (CurrencyNotBound named)
                   else if named = field then Inl CurrencyIsAmount
                   else Inr ()) of
           Inl e \<Rightarrow> Inl e
         | Inr _ \<Rightarrow>
             (case check_currency (am_currency a) of
                Inl e \<Rightarrow> Inl e
              | Inr _ \<Rightarrow>
                  if am_minor_units a > MAX_MINOR_UNITS then Inl TooManyMinorUnits
                  else
                    (case floor_check (decl_floor d) of
                       Inl e \<Rightarrow> Inl e
                     | Inr _ \<Rightarrow> bands_check (decl_bands d) base (decl_floor d)))))"

section \<open>The risk of one request\<close>

definition read_amount :: "object \<Rightarrow> string \<Rightarrow> int option" where
  "read_amount body field =
     (case obj_get body field of
        Some (JNum n) \<Rightarrow>
          (case number_as_i64 n of Some v \<Rightarrow> if v \<ge> 0 then Some v else None | None \<Rightarrow> None)
      | _ \<Rightarrow> None)"

definition risk_of :: "risk \<Rightarrow> bands \<Rightarrow> floor \<Rightarrow> int option \<Rightarrow> risk" where
  "risk_of base b f amt =
     (case amt of
        None \<Rightarrow> base
      | Some a \<Rightarrow>
          (let banded =
             (case find (\<lambda>level. case bands_get b level of Some band \<Rightarrow> a < band | None \<Rightarrow> False)
                     (filter (\<lambda>level. level < base) [Low, Medium]) of
                Some level \<Rightarrow> level | None \<Rightarrow> base)
           in foldl (\<lambda>r level. case floor_get f level of
                                 Some at \<Rightarrow> if a \<ge> at then max r level else r
                               | None \<Rightarrow> r)
                banded [Medium, High]))"

record banding =
  bg_field :: string
  bg_currency :: string
  bg_currency_field :: "string option"
  bg_minor_units :: nat
  bg_base :: risk
  bg_bands :: bands
  bg_floor :: floor

definition assess :: "banding \<Rightarrow> object \<Rightarrow> risk \<times> int option" where
  "assess g body =
     (let in_currency =
            (case bg_currency_field g of
               None \<Rightarrow> True
             | Some named \<Rightarrow> obj_get body named = Some (JStr (bg_currency g)));
          amt = (case read_amount body (bg_field g) of
                   Some a \<Rightarrow> if in_currency then Some a else None
                 | None \<Rightarrow> None)
      in (risk_of (bg_base g) (bg_bands g) (bg_floor g) amt, amt))"

definition counted :: "banding \<Rightarrow> int \<Rightarrow> int option" where
  "counted g amt = to_standard amt (bg_currency g) (bg_minor_units g)"

definition lowest :: "banding \<Rightarrow> risk" where
  "lowest g = risk_of (bg_base g) (bg_bands g) (bg_floor g) (Some 0)"

text \<open>Where the rules table says a person is always asked from: \<open>most\<close> in \<open>rules.rs\<close>.\<close>

definition most_passes :: "banding \<Rightarrow> risk \<Rightarrow> int option" where
  "most_passes g ceiling =
     (let points = List.map_filter (\<lambda>x. x)
            [Some 0, band_low (bg_bands g), band_medium (bg_bands g),
             floor_medium (bg_floor g), floor_high (bg_floor g)]
      in find (\<lambda>a. risk_of (bg_base g) (bg_bands g) (bg_floor g) (Some a) > ceiling) (sort points))"

definition most :: "banding \<Rightarrow> risk \<Rightarrow> int option" where
  "most g ceiling =
     (case (most_passes g ceiling, floor_high (bg_floor g)) of
        (Some p, Some f) \<Rightarrow> Some (min p f)
      | (Some p, None) \<Rightarrow> Some p
      | (None, f) \<Rightarrow> f)"

section \<open>Amounts as people read them\<close>

definition symbol :: "string \<Rightarrow> string option" where
  "symbol currency =
     (if currency = ''GBP'' then Some [byte 194, byte 163]
      else if currency = ''USD'' then Some ''$''
      else if currency = ''EUR'' then Some [byte 226, byte 130, byte 172]
      else if currency = ''JPY'' then Some [byte 194, byte 165]
      else if currency = ''INR'' then Some [byte 226, byte 130, byte 185]
      else if currency = ''AUD'' then Some ''A$''
      else if currency = ''CAD'' then Some ''CA$''
      else if currency = ''NZD'' then Some ''NZ$''
      else None)"

text \<open>\<open>{part:0width$}\<close>: the decimal text, padded with zeroes on the left to the width.\<close>

definition zero_padded :: "nat \<Rightarrow> nat \<Rightarrow> string" where
  "zero_padded width n = replicate (width - length (nat_text n)) (CHR ''0'') @ nat_text n"

text \<open>The digits with a comma before each group of three but the first.\<close>

definition grouped :: "string \<Rightarrow> string" where
  "grouped digits =
     concat (map (\<lambda>(i, c). if i > 0 \<and> (length digits - i) mod 3 = 0 then [CHR '','', c] else [c])
       (enumerate 0 digits))"

text \<open>Rust's \<open>/\<close> and \<open>%\<close> truncate, so the magnitudes are those of the absolute value.\<close>

definition format_amount :: "int \<Rightarrow> string \<Rightarrow> nat \<Rightarrow> string" where
  "format_amount amt currency minor_units =
     (let scale = 10 ^ min minor_units MAX_MINOR_UNITS;
          sgn_text = (if amt < 0 then ''-'' else []);
          whole = nat \<bar>amt\<bar> div scale;
          part = nat \<bar>amt\<bar> mod scale;
          digits = nat_text whole;
          number = (if minor_units = 0 then grouped digits
                    else grouped digits @ ''.'' @ zero_padded minor_units part)
      in case symbol currency of
           Some mark \<Rightarrow> sgn_text @ mark @ number
         | None \<Rightarrow> sgn_text @ currency @ '' '' @ number)"

definition figure :: "int \<Rightarrow> nat \<Rightarrow> string" where
  "figure amt minor_units0 =
     (let minor_units = min minor_units0 MAX_MINOR_UNITS;
          scale = 10 ^ minor_units;
          sgn_text = (if amt < 0 then ''-'' else []);
          whole = nat \<bar>amt\<bar> div scale;
          part = nat \<bar>amt\<bar> mod scale
      in if part = 0 then sgn_text @ nat_text whole
         else sgn_text @ nat_text whole @ ''.'' @ zero_padded minor_units part)"

section \<open>Lemmas\<close>

text \<open>The risk of an amount is the larger of what the bands say and what the floor says.\<close>

definition under :: "int \<Rightarrow> int option \<Rightarrow> bool" where
  "under a band = (case band of Some b \<Rightarrow> a < b | None \<Rightarrow> False)"

definition reached :: "int \<Rightarrow> int option \<Rightarrow> bool" where
  "reached a at = (case at of Some v \<Rightarrow> a \<ge> v | None \<Rightarrow> False)"

definition banded :: "risk \<Rightarrow> bands \<Rightarrow> int \<Rightarrow> risk" where
  "banded base b a =
     (if Low < base \<and> under a (band_low b) then Low
      else if Medium < base \<and> under a (band_medium b) then Medium
      else base)"

definition floored :: "floor \<Rightarrow> int \<Rightarrow> risk" where
  "floored f a =
     (if reached a (floor_high f) then High
      else if reached a (floor_medium f) then Medium
      else Low)"

lemma max_risk_simps [simp]:
  "max Low r = r" "max r Low = r" "max High r = High" "max r High = High" "max (r::risk) r = r"
  by (auto simp: max_def)

lemma risk_of_None [simp]: "risk_of base b f None = base"
  by (simp add: risk_of_def)

lemma risk_of_Some: "risk_of base b f (Some a) = max (banded base b a) (floored f a)"
  by (cases base; cases "band_low b"; cases "band_medium b"; cases "floor_medium f"; cases "floor_high f")
    (auto simp: risk_of_def banded_def floored_def under_def reached_def max_def split: if_splits)

lemma under_anti: "a \<le> a' \<Longrightarrow> under a' band \<Longrightarrow> under a band"
  by (auto simp: under_def split: option.splits)

lemma reached_mono: "a \<le> a' \<Longrightarrow> reached a at \<Longrightarrow> reached a' at"
  by (auto simp: reached_def split: option.splits)

lemma banded_mono: "a \<le> a' \<Longrightarrow> banded base b a \<le> banded base b a'"
  by (cases base) (auto simp: banded_def dest: under_anti)

lemma floored_mono: "a \<le> a' \<Longrightarrow> floored f a \<le> floored f a'"
  by (auto simp: floored_def dest: reached_mono)

lemma risk_of_mono: "a \<le> a' \<Longrightarrow> risk_of base b f (Some a) \<le> risk_of base b f (Some a')"
  unfolding risk_of_Some by (intro max.mono banded_mono floored_mono)

lemma check_rising_None:
  "check_rising l u e = None \<longleftrightarrow> (\<forall>x y. l = Some x \<longrightarrow> u = Some y \<longrightarrow> x < y)"
  by (auto simp: check_rising_def split: option.splits)

lemma check_below_floor_None:
  "set (check_below_floor b (level, at)) \<subseteq> {None} \<longleftrightarrow>
     (\<forall>x below band. at = Some x \<longrightarrow> below < level \<longrightarrow> bands_get b below = Some band \<longrightarrow> band \<le> x)"
  by (cases at; cases level)
    (auto simp: check_below_floor_def all_risk split: option.splits)

lemma bands_check_ok:
  assumes "bands_check b base f = Inr ()"
  shows "bands_get b l = Some v \<Longrightarrow> 0 < v \<and> l < base"
    and "bands_get b l = Some v \<Longrightarrow> l < l' \<Longrightarrow> floor_get f l' = Some at \<Longrightarrow> v \<le> at"
    and "band_low b = Some x \<Longrightarrow> band_medium b = Some y \<Longrightarrow> x < y"
proof -
  from assms have all: "check_band base (Low, band_low b) = None" "check_band base (Medium, band_medium b) = None"
    "check_rising (band_low b) (band_medium b) BandsDoNotRise = None"
    "set (check_below_floor b (Medium, floor_medium f)) \<subseteq> {None}"
    "set (check_below_floor b (High, floor_high f)) \<subseteq> {None}"
    by (auto simp: bands_check_def verdict_of_ok)
  show "bands_get b l = Some v \<Longrightarrow> 0 < v \<and> l < base"
    using all(1,2) by (cases l) (auto simp: check_band_def split: if_splits)
  show "bands_get b l = Some v \<Longrightarrow> l < l' \<Longrightarrow> floor_get f l' = Some at \<Longrightarrow> v \<le> at"
    using all(4,5) unfolding check_below_floor_None by (cases l') auto
  show "band_low b = Some x \<Longrightarrow> band_medium b = Some y \<Longrightarrow> x < y"
    using all(3) by (simp add: check_rising_None)
qed

lemma div_ceil_bounds:
  fixes a s :: int
  assumes "0 < s"
  defines "q \<equiv> a div s + (if a mod s \<noteq> 0 then 1 else 0)"
  shows "(q - 1) * s < a" and "a \<le> q * s"
proof -
  have eq: "a div s * s = a - a mod s" by (simp add: minus_mod_eq_div_mult)
  have r: "0 \<le> a mod s" "a mod s < s" using assms(1) by simp_all
  then have pos: "a mod s \<noteq> 0 \<Longrightarrow> 0 < a mod s" by linarith
  show "(q - 1) * s < a"
    using eq pos assms(1) by (cases "a mod s = 0") (simp_all add: q_def left_diff_distrib)
  show "a \<le> q * s"
    using eq r by (cases "a mod s = 0") (simp_all add: q_def distrib_right)
qed

lemma checked_pow10_Some: "checked_pow10 k = Some s \<Longrightarrow> s = 10 ^ k \<and> 0 < s"
  by (auto simp: checked_pow10_def checked_i64_Some)

lemma from_standard_finer:
  "standard_minor_units c \<le> mu \<Longrightarrow> from_standard bound c mu = Some b' \<Longrightarrow>
     b' = bound * 10 ^ (mu - standard_minor_units c)"
  by (auto simp: from_standard_def Let_def checked_i64_Some split: option.splits if_splits
      dest: checked_pow10_Some)

lemma from_standard_coarser:
  "\<not> standard_minor_units c \<le> mu \<Longrightarrow> from_standard bound c mu = Some b' \<Longrightarrow>
     b' = bound div 10 ^ (standard_minor_units c - mu)"
  by (auto simp: from_standard_def Let_def split: option.splits if_splits dest: checked_pow10_Some)

lemma to_standard_finer:
  "standard_minor_units c \<le> mu \<Longrightarrow> to_standard a c mu = Some s \<Longrightarrow>
     s = (let sc = 10 ^ (mu - standard_minor_units c) in a div sc + (if a mod sc \<noteq> 0 then 1 else 0))"
  by (auto simp: to_standard_def Let_def split: option.splits if_splits dest: checked_pow10_Some)

lemma to_standard_coarser:
  "\<not> standard_minor_units c \<le> mu \<Longrightarrow> to_standard a c mu = Some s \<Longrightarrow>
     s = a * 10 ^ (standard_minor_units c - mu)"
  by (auto simp: to_standard_def Let_def checked_i64_Some split: option.splits if_splits
      dest: checked_pow10_Some)

text \<open>Nothing changes between the points where a band or a floor is: the largest one at or below decides.\<close>

lemma find_sorted_least: "sorted xs \<Longrightarrow> find P xs = Some x \<Longrightarrow> y \<in> set xs \<Longrightarrow> P y \<Longrightarrow> x \<le> y"
  by (induction xs) (auto split: if_splits)

definition points :: "banding \<Rightarrow> int list" where
  "points g = List.map_filter (\<lambda>x. x)
     [Some 0, band_low (bg_bands g), band_medium (bg_bands g), floor_medium (bg_floor g), floor_high (bg_floor g)]"

lemma set_points: "x \<in> set (points g) \<longleftrightarrow> Some x \<in>
    {Some 0, band_low (bg_bands g), band_medium (bg_bands g), floor_medium (bg_floor g), floor_high (bg_floor g)}"
  by (auto simp: points_def List.map_filter_def)

lemma risk_at_point:
  assumes "0 \<le> a"
  obtains p where "p \<in> set (points g)" "p \<le> a"
    "risk_of (bg_base g) (bg_bands g) (bg_floor g) (Some p) = risk_of (bg_base g) (bg_bands g) (bg_floor g) (Some a)"
proof -
  let ?S = "{x \<in> set (points g). x \<le> a}"
  let ?p = "Max ?S"
  have ne: "0 \<in> ?S" using assms by (simp add: set_points)
  have p: "?p \<in> ?S" using Max_in [of ?S] ne by fastforce
  have top: "v \<le> ?p" if "v \<in> set (points g)" "v \<le> a" for v
    using that by (intro Max_ge) auto
  have same: "under ?p b = under a b \<and> reached ?p b = reached a b"
    if "\<And>v. b = Some v \<Longrightarrow> v \<in> set (points g)" for b
  proof (cases b)
    case (Some v)
    with that have "v \<in> set (points g)" by blast
    with top p have "v \<le> a \<longleftrightarrow> v \<le> ?p" by force
    then show ?thesis by (simp add: Some under_def reached_def not_le [symmetric])
  qed (simp add: under_def reached_def)
  have pts: "\<And>v. band_low (bg_bands g) = Some v \<Longrightarrow> v \<in> set (points g)"
    "\<And>v. band_medium (bg_bands g) = Some v \<Longrightarrow> v \<in> set (points g)"
    "\<And>v. floor_medium (bg_floor g) = Some v \<Longrightarrow> v \<in> set (points g)"
    "\<And>v. floor_high (bg_floor g) = Some v \<Longrightarrow> v \<in> set (points g)"
    by (auto simp: set_points)
  have "risk_of (bg_base g) (bg_bands g) (bg_floor g) (Some ?p)
      = risk_of (bg_base g) (bg_bands g) (bg_floor g) (Some a)"
    by (simp add: risk_of_Some banded_def floored_def same [OF pts(1)] same [OF pts(2)]
        same [OF pts(3)] same [OF pts(4)])
  with p that show ?thesis by blast
qed

lemma most_passes_iff:
  assumes "0 \<le> a"
  shows "(\<exists>p. most_passes g ceiling = Some p \<and> p \<le> a) \<longleftrightarrow>
    ceiling < risk_of (bg_base g) (bg_bands g) (bg_floor g) (Some a)" (is "?l \<longleftrightarrow> ?r")
proof
  let ?P = "\<lambda>a. ceiling < risk_of (bg_base g) (bg_bands g) (bg_floor g) (Some a)"
  have mp: "most_passes g ceiling = find ?P (sort (points g))"
    by (simp add: most_passes_def points_def Let_def)
  {
    assume ?l
    then obtain p where "find ?P (sort (points g)) = Some p" "p \<le> a" by (auto simp: mp)
    then have "?P p" "p \<le> a" by (auto dest: find_SomeD)
    then show ?r using risk_of_mono order_less_le_trans by blast
  next
    assume ?r
    obtain p where p: "p \<in> set (points g)" "p \<le> a" "?P p"
      using risk_at_point [OF assms, of g] \<open>?r\<close> by metis
    then obtain q where q: "find ?P (sort (points g)) = Some q"
      by (metis find_None_iff not_None_eq set_sort)
    then have "q \<le> p" using p by (intro find_sorted_least [OF sorted_sort q]) simp_all
    with q p show ?l by (auto simp: mp)
  }
qed

section \<open>What the arithmetic guarantees\<close>

text \<open>
  The risk worked out never falls as the amount rises, whatever bands and floor are written:
  no larger charge is ever classed lower than a smaller one.
\<close>
theorem risk_never_falls_with_amount:
  "a \<le> a' \<Longrightarrow> risk_of base b f (Some a) \<le> risk_of base b f (Some a')"
  by (rule risk_of_mono)

theorem risk_never_falls_with_amount_witness:
  "risk_of High \<lparr>band_low = Some 5000, band_medium = Some 20000\<rparr>
     \<lparr>floor_medium = None, floor_high = Some 500000\<rparr> (Some 4999) \<le>
   risk_of High \<lparr>band_low = Some 5000, band_medium = Some 20000\<rparr>
     \<lparr>floor_medium = None, floor_high = Some 500000\<rparr> (Some 600000)"
  by (rule risk_never_falls_with_amount) simp

text \<open>
  Bands that pass the check mean what they say under that floor: an amount below the band of a
  level is of that level at most, so no accepted band is quietly overruled by the floor.
\<close>
theorem accepted_band_means_what_it_says:
  assumes "bands_check b base f = Inr ()" and "bands_get b l = Some v" and "a < v"
  shows "risk_of base b f (Some a) \<le> l"
proof -
  note ok = bands_check_ok [OF assms(1)]
  have lb: "l < base" using ok(1) assms(2) by blast
  have nr: "\<not> reached a (floor_get f l')" if "l < l'" for l'
    using ok(2) [OF assms(2) that] assms(3) by (fastforce simp: reached_def split: option.splits)
  have "floored f a \<le> l"
    using nr [of High] nr [of Medium] lb by (cases l) (auto simp: floored_def)
  moreover have "banded base b a \<le> l"
    using lb assms(2,3) by (cases l) (auto simp: banded_def under_def)
  ultimately show ?thesis by (simp add: risk_of_Some)
qed

theorem accepted_band_means_what_it_says_witness:
  "risk_of High \<lparr>band_low = Some 5000, band_medium = Some 20000\<rparr>
     \<lparr>floor_medium = None, floor_high = Some 500000\<rparr> (Some 4999) \<le> Low"
  by (rule accepted_band_means_what_it_says [where v = 5000])
    (simp_all add: bands_check_def verdict_of_def check_band_def check_rising_def check_below_floor_def)

text \<open>
  The bound the rules table shows is exact: a non-negative amount is at or above \<open>most\<close>
  precisely when its risk passes the ceiling or the operator's high floor holds.
\<close>
theorem most_is_exact:
  assumes "0 \<le> a"
  shows "(\<exists>p. most g ceiling = Some p \<and> p \<le> a) \<longleftrightarrow>
    (ceiling < risk_of (bg_base g) (bg_bands g) (bg_floor g) (Some a) \<or> reached a (floor_high (bg_floor g)))"
  using most_passes_iff [OF assms, of g ceiling]
  by (cases "most_passes g ceiling"; cases "floor_high (bg_floor g)") (auto simp: most_def reached_def)

theorem most_is_exact_witness:
  "(\<exists>p. most \<lparr>bg_field = ''amount_pence'', bg_currency = ''GBP'', bg_currency_field = None,
      bg_minor_units = 2, bg_base = High, bg_bands = \<lparr>band_low = Some 5000, band_medium = Some 20000\<rparr>,
      bg_floor = \<lparr>floor_medium = None, floor_high = None\<rparr>\<rparr> Low = Some p \<and> p \<le> 6000) \<longleftrightarrow>
   (Low < risk_of High \<lparr>band_low = Some 5000, band_medium = Some 20000\<rparr>
      \<lparr>floor_medium = None, floor_high = None\<rparr> (Some 6000) \<or> reached 6000 None)"
  using most_is_exact [of 6000 "\<lparr>bg_field = ''amount_pence'', bg_currency = ''GBP'', bg_currency_field = None,
      bg_minor_units = 2, bg_base = High, bg_bands = \<lparr>band_low = Some 5000, band_medium = Some 20000\<rparr>,
      bg_floor = \<lparr>floor_medium = None, floor_high = None\<rparr>\<rparr>" Low]
  by simp

text \<open>
  A currency's band converted to an operation's own units never lets more through: an amount
  below the converted band counts, in the currency's standard units, at most the band itself, so
  rounding goes the safe way in both directions.
\<close>
theorem converted_band_never_looser:
  assumes "from_standard bound currency mu = Some b'" and "a < b'" and "to_standard a currency mu = Some s"
  shows "s \<le> bound"
proof (cases "standard_minor_units currency \<le> mu")
  case True
  define sc :: int where "sc = 10 ^ (mu - standard_minor_units currency)"
  have sc: "0 < sc" "b' = bound * sc" "s = a div sc + (if a mod sc \<noteq> 0 then 1 else 0)"
    using from_standard_finer [OF True assms(1)] to_standard_finer [OF True assms(3)]
    by (simp_all add: sc_def Let_def)
  have "(s - 1) * sc < a" using div_ceil_bounds(1) [OF sc(1), of a] sc(3) by simp
  then have "(s - 1) * sc < bound * sc" using assms(2) sc(2) by simp
  then show ?thesis using sc(1) by simp
next
  case False
  define sc :: int where "sc = 10 ^ (standard_minor_units currency - mu)"
  have sc: "0 < sc" "b' = bound div sc" "s = a * sc"
    using from_standard_coarser [OF False assms(1)] to_standard_coarser [OF False assms(3)]
    by (simp_all add: sc_def)
  have "a * sc \<le> (bound div sc) * sc" using assms(2) sc by (intro mult_right_mono) simp_all
  also have "\<dots> \<le> bound" using sc(1) by (simp add: minus_mod_eq_div_mult [symmetric])
  finally show ?thesis using sc(3) by simp
qed

theorem converted_band_never_looser_witness:
  "from_standard 12 ''GBP'' 3 = Some 120 \<and> to_standard 119 ''GBP'' 3 = Some 12 \<and> (12::int) \<le> 12"
proof -
  have f: "from_standard 12 ''GBP'' 3 = Some 120" and t: "to_standard 119 ''GBP'' 3 = Some 12"
    by (simp_all add: from_standard_def to_standard_def standard_minor_units_def checked_pow10_def num_simps)
  from f t converted_band_never_looser [OF f _ t] show ?thesis by simp
qed

text \<open>
  \<open>lowest\<close>, which decides before a request arrives whether a selector reaches an operation at
  all, is a true lower bound: under an accepted floor no body is assessed below it.
\<close>
theorem lowest_bounds_every_request:
  assumes "floor_check (bg_floor g) = Inr ()"
  shows "lowest g \<le> fst (assess g body)"
proof -
  have pos: "\<not> reached 0 (floor_medium (bg_floor g))" "\<not> reached 0 (floor_high (bg_floor g))"
    using assms by (auto simp: floor_check_def verdict_of_ok reached_def split: option.splits if_splits)
  have base: "lowest g \<le> bg_base g"
    using pos by (auto simp: lowest_def risk_of_Some floored_def banded_def)
  have "lowest g \<le> risk_of (bg_base g) (bg_bands g) (bg_floor g) (Some a)" if "0 \<le> a" for a
    unfolding lowest_def using that by (rule risk_of_mono)
  moreover have "0 \<le> a" if "read_amount body (bg_field g) = Some a" for a
    using that by (auto simp: read_amount_def split: option.splits json.splits if_splits)
  ultimately show ?thesis
    using base by (auto simp: assess_def Let_def split: option.splits)
qed

theorem lowest_bounds_every_request_witness:
  "lowest \<lparr>bg_field = ''pence'', bg_currency = ''GBP'', bg_currency_field = None, bg_minor_units = 2,
      bg_base = High, bg_bands = \<lparr>band_low = Some 5000, band_medium = None\<rparr>,
      bg_floor = \<lparr>floor_medium = Some 10, floor_high = Some 500000\<rparr>\<rparr>
   \<le> fst (assess \<lparr>bg_field = ''pence'', bg_currency = ''GBP'', bg_currency_field = None, bg_minor_units = 2,
      bg_base = High, bg_bands = \<lparr>band_low = Some 5000, band_medium = None\<rparr>,
      bg_floor = \<lparr>floor_medium = Some 10, floor_high = Some 500000\<rparr>\<rparr> [(''pence'', JNum (PosInt 3))])"
  by (rule lowest_bounds_every_request) (simp add: floor_check_def verdict_of_def check_rising_def)

end
