(* ===== verification/Policy.thy ===== *)
theory Policy
  imports Grant Amount
begin

text \<open>
  Approval policies, \<open>crates/core/src/egress/policy.rs\<close>: the language of tests, when a set of tests
  may be written and applied, what a policy admits, its leaf, and the record of each automatic yes.
  The serialized bytes of a policy grant are an argument; the two tables the record reads and
  writes are a value, with the transaction's \<open>now()\<close> as an argument.
\<close>

section \<open>Tests\<close>

definition TAG_POLICY_LEAF :: bytes where "TAG_POLICY_LEAF = ''outturn:policy:leaf:v1'' @ [CHR 0x00]"

definition MAX_TESTS :: nat where "MAX_TESTS = 32"

datatype test_op = Eq | Ne | In | NotIn | Lt | Le | Gt | Ge

definition compares :: "test_op \<Rightarrow> bool" where
  "compares op \<longleftrightarrow> op \<in> {Lt, Le, Gt, Ge}"

definition positive :: "test_op \<Rightarrow> bool" where
  "positive op \<longleftrightarrow> op \<in> {Eq, In}"

definition excludes :: "test_op \<Rightarrow> bool" where
  "excludes op \<longleftrightarrow> op \<in> {Ne, NotIn}"

record test =
  test_field :: string
  test_op :: test_op
  test_value :: json

fun scalar :: "json \<Rightarrow> bool" where
  "scalar (JStr s) = True"
| "scalar (JBool b) = True"
| "scalar (JNum n) = (number_as_i64 n \<noteq> None)"
| "scalar _ = False"

fun list_of :: "json \<Rightarrow> json list" where
  "list_of (JArr l) = l"
| "list_of _ = []"

datatype tests_error =
    TooManyTests
  | NoField
  | NotSingle string
  | NotList string
  | NotWholeBound string
  | ExcludesAlone string

definition check_test :: "test list \<Rightarrow> test \<Rightarrow> tests_error option" where
  "check_test tests t =
     (if trim (test_field t) = [] then Some NoField
      else
        (case (if test_op t \<in> {Eq, Ne} then (if scalar (test_value t) then None else Some (NotSingle (test_field t)))
               else if test_op t \<in> {In, NotIn} then
                 (if list_of (test_value t) \<noteq> [] \<and> list_all scalar (list_of (test_value t)) then None
                  else Some (NotList (test_field t)))
               else (if as_i64 (test_value t) = None then Some (NotWholeBound (test_field t)) else None)) of
           Some e \<Rightarrow> Some e
         | None \<Rightarrow>
             (if excludes (test_op t) \<and>
                 \<not> list_ex (\<lambda>o1. test_field o1 = test_field t \<and> positive (test_op o1)) tests
              then Some (ExcludesAlone (test_field t)) else None)))"

definition check_tests :: "test list \<Rightarrow> tests_error + unit" where
  "check_tests tests =
     (if length tests > MAX_TESTS then Inl TooManyTests
      else (case List.map_filter (check_test tests) tests of
              e # _ \<Rightarrow> Inl e
            | [] \<Rightarrow> Inr ()))"

definition fits :: "test list \<Rightarrow> string option \<Rightarrow> string list \<Rightarrow> string list \<Rightarrow> bool" where
  "fits tests sum_field bnds numbers \<longleftrightarrow>
     list_all (\<lambda>t. test_field t \<in> set bnds \<and> (\<not> compares (test_op t) \<or> test_field t \<in> set numbers)) tests \<and>
     (case sum_field of None \<Rightarrow> True | Some f \<Rightarrow> f \<in> set bnds \<and> f \<in> set numbers)"

fun same :: "json \<Rightarrow> json \<Rightarrow> bool" where
  "same (JStr x) (JStr y) = (x = y)"
| "same (JBool x) (JBool y) = (x = y)"
| "same (JNum x) (JNum y) = (number_as_i64 x \<noteq> None \<and> number_as_i64 x = number_as_i64 y)"
| "same _ _ = False"

fun whole :: "json \<Rightarrow> int option" where
  "whole (JNum n) = number_as_i64 n"
| "whole _ = None"

definition whole_text :: "string \<Rightarrow> int option" where
  "whole_text text =
     (case parse_i64 text of Some n \<Rightarrow> if int_text n = text then Some n else None | None \<Rightarrow> None)"

text \<open>A field a body carries with a value that is not null.\<close>

definition present :: "object \<Rightarrow> string \<Rightarrow> json option" where
  "present body f = (case obj_get body f of Some v \<Rightarrow> if is_null v then None else Some v | None \<Rightarrow> None)"

definition test_holds :: "object \<Rightarrow> test \<Rightarrow> bool" where
  "test_holds body t =
     (case present body (test_field t) of
        None \<Rightarrow> False
      | Some v \<Rightarrow>
          (case test_op t of
             Eq \<Rightarrow> same v (test_value t)
           | Ne \<Rightarrow> scalar v \<and> \<not> same v (test_value t)
           | In \<Rightarrow> list_ex (same v) (list_of (test_value t))
           | NotIn \<Rightarrow> scalar v \<and> \<not> list_ex (same v) (list_of (test_value t))
           | op \<Rightarrow>
               (case (whole v, as_i64 (test_value t)) of
                  (Some n, Some bnd) \<Rightarrow>
                    (case op of Lt \<Rightarrow> n < bnd | Le \<Rightarrow> n \<le> bnd | Gt \<Rightarrow> n > bnd | _ \<Rightarrow> n \<ge> bnd)
                | _ \<Rightarrow> False)))"

definition whole_field :: "object \<Rightarrow> string \<Rightarrow> int option" where
  "whole_field body f = (case obj_get body f of Some v \<Rightarrow> whole v | None \<Rightarrow> None)"

definition holds :: "test list \<Rightarrow> object \<Rightarrow> bool" where
  "holds tests body \<longleftrightarrow>
     list_all (test_holds body) tests \<and>
     list_all (\<lambda>t. case whole_field body (test_field t) of Some v \<Rightarrow> v \<ge> 0 | None \<Rightarrow> False)
       (filter (\<lambda>t. \<not> list_ex (\<lambda>o1. test_field o1 = test_field t \<and> test_op o1 \<in> {Gt, Ge}) tests)
         (filter (\<lambda>t. compares (test_op t)) tests))"

section \<open>What a policy admits\<close>

record policy_grant =
  policy_id :: uuid
  pg_version :: int
  job_id :: uuid
  pg_gate :: string
  pg_requires :: string
  pg_tests :: "test list"
  pg_fields :: "string list"
  per_turn :: int
  per_day :: int
  sum_field :: "string option"
  sum_per_day :: "int option"
  pg_banding :: "banding option"
  pg_max_risk :: "risk option"
  currency_per_day :: "int option"
  path_numbers :: "string list"

record admitted =
  ad_bound :: json
  ad_amount :: "int option"
  ad_money :: "(string \<times> int) option"
  ad_body :: "string option"

text \<open>The document a request's body is, \<open>None\<close> where it is not one JSON object, and an empty one for
  no body where every bound field is in the path.\<close>

definition body_object :: "outside \<Rightarrow> gate \<Rightarrow> (string \<times> string) list \<Rightarrow> string option \<Rightarrow> object option" where
  "body_object e g from_path body =
     (case body of
        Some b \<Rightarrow> (case json_parse e b of Some (JObj parsed) \<Rightarrow> Some parsed | _ \<Rightarrow> None)
      | None \<Rightarrow> if list_all (\<lambda>b. list_ex (\<lambda>(name, _). name = b) from_path) (binds g) then Some [] else None)"

definition key_allowed :: "policy_grant \<Rightarrow> gate \<Rightarrow> (string \<times> string) list \<Rightarrow> string \<Rightarrow> bool" where
  "key_allowed p g from_path key \<longleftrightarrow>
     \<not> list_ex (\<lambda>(name, _). name = key) from_path \<and> key \<in> set (pg_fields p) \<and>
     \<not> list_ex (\<lambda>b. b \<noteq> key \<and> eq_ignore_case b key) (binds g)"

fun insert_path_fields :: "string list \<Rightarrow> (string \<times> string) list \<Rightarrow> object \<Rightarrow> object" where
  "insert_path_fields numbers [] fs = fs"
| "insert_path_fields numbers ((name, v) # rest) fs =
     insert_path_fields numbers rest
       (if name \<in> set numbers
        then (case whole_text v of Some n \<Rightarrow> obj_insert name (json_of_i64 n) fs | None \<Rightarrow> fs)
        else obj_insert name (JStr v) fs)"

text \<open>The summed field, \<open>Inl\<close> where it must be there and is not a whole number from zero.\<close>

definition summed :: "policy_grant \<Rightarrow> object \<Rightarrow> unit + int option" where
  "summed p parsed =
     (case sum_field p of
        None \<Rightarrow> Inr None
      | Some f \<Rightarrow>
          (case whole_field parsed f of
             Some v \<Rightarrow> if v \<ge> 0 then Inr (Some v) else Inl ()
           | None \<Rightarrow> Inl ()))"

text \<open>The request's own risk against the most admitted, and the money a day's total counts.\<close>

definition money_of :: "policy_grant \<Rightarrow> object \<Rightarrow> unit + (string \<times> int) option" where
  "money_of p parsed =
     (case pg_banding p of
        None \<Rightarrow> Inr None
      | Some bg \<Rightarrow>
          (let (r, m) = assess bg parsed in
           if (case pg_max_risk p of None \<Rightarrow> True | Some cap \<Rightarrow> r > cap) then Inl ()
           else Inr (case m of
                       None \<Rightarrow> None
                     | Some a \<Rightarrow> map_option (\<lambda>c. (bg_currency bg, c)) (counted bg a))))"

fun collect_bound :: "object \<Rightarrow> string list \<Rightarrow> object \<Rightarrow> object" where
  "collect_bound fs [] out = out"
| "collect_bound fs (b # bs) out =
     collect_bound fs bs (case obj_get fs b of Some v \<Rightarrow> obj_insert b v out | None \<Rightarrow> out)"

definition admits ::
  "outside \<Rightarrow> policy_grant \<Rightarrow> uuid \<Rightarrow> gate \<Rightarrow> string \<Rightarrow> string option \<Rightarrow> string option \<Rightarrow> admitted option" where
  "admits e p workspace_id g path query body =
     (if pg_gate p \<noteq> gate_key e workspace_id g \<or> pg_requires p \<noteq> gate_requires g then None
      else if binds g = [] \<or> query \<noteq> None then None
      else
     (case path_values (gate_path g) path of
        Inl _ \<Rightarrow> None
      | Inr from_path \<Rightarrow>
     (case body_object e g from_path body of
        None \<Rightarrow> None
      | Some parsed \<Rightarrow>
          if \<not> list_all (key_allowed p g from_path \<circ> fst) parsed then None
          else
            (let fs = insert_path_fields (path_numbers p) from_path parsed in
             if \<not> holds (pg_tests p) fs then None
             else
               (case (summed p parsed, money_of p parsed) of
                  (Inr amt, Inr money) \<Rightarrow>
                    if currency_per_day p \<noteq> None \<and> money = None then None
                    else Some \<lparr>ad_bound = JObj (collect_bound fs (binds g) []), ad_amount = amt,
                               ad_money = money,
                               ad_body = map_option (\<lambda>_. json_text e (JObj parsed)) body\<rparr>
                | _ \<Rightarrow> None)))))"

definition policy_leaf_input :: "outside \<Rightarrow> (policy_grant \<Rightarrow> bytes) \<Rightarrow> uuid \<Rightarrow> policy_grant \<Rightarrow> bytes" where
  "policy_leaf_input e policy_bytes workspace_id p =
     TAG_POLICY_LEAF @ uuid_bytes e workspace_id @ policy_bytes p"

definition policy_leaf :: "outside \<Rightarrow> (policy_grant \<Rightarrow> bytes) \<Rightarrow> uuid \<Rightarrow> policy_grant \<Rightarrow> hash" where
  "policy_leaf e policy_bytes workspace_id p = sha256 e (policy_leaf_input e policy_bytes workspace_id p)"

section \<open>The record of each automatic yes\<close>

text \<open>A row of \<open>approval_policies\<close>, in the columns the record reads.\<close>

record policy_row =
  row_workspace :: uuid
  row_id :: uuid
  row_include :: bool
  row_on :: bool
  row_revoked :: bool
  row_expires :: time
  row_version :: int
  row_created_by :: "uuid option"
  row_per_turn :: int
  row_per_day :: int
  row_sum_field :: "string option"
  row_sum_per_day :: "int option"
  row_daily_totals :: "(string \<times> int) list"

text \<open>A row of \<open>auto_approvals\<close>, without its own id, a fresh UUID nothing here reads.\<close>

record approval_row =
  ap_workspace :: uuid
  ap_policy :: uuid
  ap_session :: uuid
  ap_job :: uuid
  ap_requires :: string
  ap_method :: string
  ap_host :: string
  ap_path :: string
  ap_bound :: json
  ap_amount :: "int option"
  ap_currency :: "string option"
  ap_currency_amount :: "int option"
  ap_at :: time

record tables =
  policies :: "policy_row list"
  members :: "(uuid \<times> uuid) list"
  approvals :: "approval_row list"

record approval_record =
  rec_workspace :: uuid
  rec_session :: uuid
  rec_grant :: policy_grant
  rec_method :: string
  rec_host :: string
  rec_path :: string
  rec_admitted :: admitted

definition DAY :: time where "DAY = seconds 86400"

text \<open>SQL's \<open>least\<close>, which passes over nulls, and \<open>sum\<close> over a column that may be null.\<close>

definition least :: "int option \<Rightarrow> int option \<Rightarrow> int option" where
  "least a b = (case (a, b) of (Some x, Some y) \<Rightarrow> Some (min x y) | (Some x, None) \<Rightarrow> Some x | (None, y) \<Rightarrow> y)"

definition sum_of :: "('a \<Rightarrow> int option) \<Rightarrow> 'a list \<Rightarrow> int" where
  "sum_of f xs = sum_list (List.map_filter f xs)"

definition of_policy :: "policy_row \<Rightarrow> approval_row \<Rightarrow> bool" where
  "of_policy p a \<longleftrightarrow> ap_workspace a = row_workspace p \<and> ap_policy a = row_id p"

definition last_day :: "tables \<Rightarrow> time \<Rightarrow> policy_row \<Rightarrow> approval_row list" where
  "last_day db now p = filter (\<lambda>a. of_policy p a \<and> ap_at a > now - DAY) (approvals db)"

definition this_turn :: "tables \<Rightarrow> uuid \<Rightarrow> policy_row \<Rightarrow> approval_row list" where
  "this_turn db job p = filter (\<lambda>a. of_policy p a \<and> ap_job a = job) (approvals db)"

text \<open>The policy stands: what the insert asks of the row itself.\<close>

definition stands :: "tables \<Rightarrow> time \<Rightarrow> approval_record \<Rightarrow> policy_row \<Rightarrow> bool" where
  "stands db now r p \<longleftrightarrow>
     row_workspace p = rec_workspace r \<and> row_id p = policy_id (rec_grant r) \<and>
     row_include p \<and> row_on p \<and> \<not> row_revoked p \<and> row_expires p > now \<and>
     row_version p = pg_version (rec_grant r) \<and>
     list_ex (\<lambda>(user, ws). row_created_by p = Some user \<and> ws = row_workspace p) (members db)"

definition sum_room :: "tables \<Rightarrow> time \<Rightarrow> approval_record \<Rightarrow> policy_row \<Rightarrow> bool" where
  "sum_room db now r p \<longleftrightarrow>
     (row_sum_field p = None \<or>
      (case ad_amount (rec_admitted r) of
         None \<Rightarrow> False
       | Some amt \<Rightarrow>
           (case least (row_sum_per_day p)
                   (Some (case sum_per_day (rec_grant r) of Some m \<Rightarrow> m | None \<Rightarrow> i64_max)) of
              None \<Rightarrow> False
            | Some cap \<Rightarrow> sum_of ap_amount (last_day db now p) + amt \<le> cap)))"

definition money_room :: "tables \<Rightarrow> time \<Rightarrow> approval_record \<Rightarrow> policy_row \<Rightarrow> bool" where
  "money_room db now r p \<longleftrightarrow>
     (case ad_money (rec_admitted r) of
        None \<Rightarrow> True
      | Some (currency, m) \<Rightarrow>
          sum_of ap_currency_amount
            (filter (\<lambda>a. ap_currency a = Some currency) (last_day db now p)) + m \<le>
          (case least (currency_per_day (rec_grant r)) (map_of (row_daily_totals p) currency) of
             Some cap \<Rightarrow> cap
           | None \<Rightarrow> i64_max))"

definition has_room :: "tables \<Rightarrow> time \<Rightarrow> approval_record \<Rightarrow> policy_row \<Rightarrow> bool" where
  "has_room db now r p \<longleftrightarrow>
     int (length (this_turn db (job_id (rec_grant r)) p)) < min (row_per_turn p) (per_turn (rec_grant r)) \<and>
     int (length (last_day db now p)) < min (row_per_day p) (per_day (rec_grant r)) \<and>
     sum_room db now r p \<and> money_room db now r p"

definition approval_of :: "time \<Rightarrow> approval_record \<Rightarrow> policy_row \<Rightarrow> approval_row" where
  "approval_of now r p =
     \<lparr>ap_workspace = rec_workspace r, ap_policy = row_id p, ap_session = rec_session r,
      ap_job = job_id (rec_grant r), ap_requires = pg_requires (rec_grant r),
      ap_method = rec_method r, ap_host = rec_host r, ap_path = rec_path r,
      ap_bound = ad_bound (rec_admitted r), ap_amount = ad_amount (rec_admitted r),
      ap_currency = map_option fst (ad_money (rec_admitted r)),
      ap_currency_amount = map_option snd (ad_money (rec_admitted r)), ap_at = now\<rparr>"

text \<open>One insert: a row for each policy row that qualifies, and one exactly is success.\<close>

definition insert_record :: "tables \<Rightarrow> time \<Rightarrow> approval_record \<Rightarrow> tables option" where
  "insert_record db now r =
     (case filter (\<lambda>p. stands db now r p \<and> has_room db now r p) (policies db) of
        [p] \<Rightarrow> Some (db\<lparr>approvals := approvals db @ [approval_of now r p]\<rparr>)
      | _ \<Rightarrow> None)"

fun insert_records :: "time \<Rightarrow> approval_record list \<Rightarrow> tables \<Rightarrow> tables option" where
  "insert_records now [] db = Some db"
| "insert_records now (r # rs) db =
     (case insert_record db now r of None \<Rightarrow> None | Some db' \<Rightarrow> insert_records now rs db')"

text \<open>The transaction: every record or none.\<close>

definition record_all :: "time \<Rightarrow> approval_record list \<Rightarrow> tables \<Rightarrow> tables \<times> bool" where
  "record_all now rs db = (case insert_records now rs db of Some db' \<Rightarrow> (db', True) | None \<Rightarrow> (db, False))"

section \<open>Caps are never passed\<close>

text \<open>
  A policy is its workspace and its id; its row is edited in place. What is said of a policy is said of every
  row it ever had: a bound no row of it ever allowed more than.
\<close>

definition same_policy :: "policy_row \<Rightarrow> policy_row \<Rightarrow> bool" where
  "same_policy p q \<longleftrightarrow> row_workspace q = row_workspace p \<and> row_id q = row_id p"

definition always :: "policy_row list \<Rightarrow> policy_row \<Rightarrow> (policy_row \<Rightarrow> bool) \<Rightarrow> bool" where
  "always ever p Q \<longleftrightarrow> list_all (\<lambda>q. same_policy p q \<longrightarrow> Q q) ever"

definition sums_within :: "int \<Rightarrow> policy_row \<Rightarrow> bool" where
  "sums_within n q \<longleftrightarrow> row_sum_field q \<noteq> None \<and> (case row_sum_per_day q of Some cap \<Rightarrow> cap \<le> n | None \<Rightarrow> False)"

definition totals_within :: "string \<Rightarrow> int \<Rightarrow> policy_row \<Rightarrow> bool" where
  "totals_within currency n q \<longleftrightarrow> (case map_of (row_daily_totals q) currency of Some cap \<Rightarrow> cap \<le> n | None \<Rightarrow> False)"

text \<open>The records of a policy in the day that ends at an instant, and those of them in a currency.\<close>

definition day_to :: "approval_row list \<Rightarrow> policy_row \<Rightarrow> time \<Rightarrow> approval_row list" where
  "day_to as1 p t = filter (\<lambda>a. of_policy p a \<and> t - DAY < ap_at a \<and> ap_at a \<le> t) as1"

definition spent_to :: "approval_row list \<Rightarrow> policy_row \<Rightarrow> string \<Rightarrow> time \<Rightarrow> approval_row list" where
  "spent_to as1 p currency t = filter (\<lambda>a. ap_currency a = Some currency) (day_to as1 p t)"

text \<open>What the tables promise of every policy: its cap in every turn, and its caps in every day, whenever that day ends.\<close>

definition caps_kept :: "policy_row list \<Rightarrow> tables \<Rightarrow> bool" where
  "caps_kept ever db \<longleftrightarrow> (\<forall>p n.
     (always ever p (\<lambda>q. row_per_turn q \<le> n) \<longrightarrow>
        (\<forall>job. this_turn db job p = [] \<or> int (length (this_turn db job p)) \<le> n)) \<and>
     (always ever p (\<lambda>q. row_per_day q \<le> n) \<longrightarrow>
        (\<forall>t. day_to (approvals db) p t = [] \<or> int (length (day_to (approvals db) p t)) \<le> n)) \<and>
     (always ever p (sums_within n) \<longrightarrow>
        (\<forall>t. day_to (approvals db) p t = [] \<or> sum_of ap_amount (day_to (approvals db) p t) \<le> n)) \<and>
     (\<forall>currency. always ever p (totals_within currency n) \<longrightarrow>
        (\<forall>t. spent_to (approvals db) p currency t = [] \<or> sum_of ap_currency_amount (spent_to (approvals db) p currency t) \<le> n)))"

text \<open>
  What happens to the tables, in the order it is committed: a transaction of records, begun at whatever instant
  (the row of a policy is locked while one is counted and written, so two that race for it are one after the
  other, but the one that began later may be the first); policies set, edited or revoked in any way; members
  changed. Kept beside the tables is every row a policy ever had.
\<close>

datatype policy_event =
    Recorded time "approval_record list"
  | PoliciesWritten "policy_row list"
  | MembersWritten "(uuid \<times> uuid) list"

fun policy_step :: "tables \<times> policy_row list \<Rightarrow> policy_event \<Rightarrow> tables \<times> policy_row list" where
  "policy_step (db, ever) (Recorded now rs) = (fst (record_all now rs db), ever)"
| "policy_step (db, ever) (PoliciesWritten ps) = (db\<lparr>policies := ps\<rparr>, ps @ ever)"
| "policy_step (db, ever) (MembersWritten ms) = (db\<lparr>members := ms\<rparr>, ever)"

text \<open>Amounts are not negative; whatever a policy admits has none that is (\<open>admitted_not_negative\<close>).\<close>

definition not_negative :: "int option \<Rightarrow> bool" where
  "not_negative x \<longleftrightarrow> (case x of Some a \<Rightarrow> 0 \<le> a | None \<Rightarrow> True)"

definition amounts_ok :: "admitted \<Rightarrow> bool" where
  "amounts_ok ad \<longleftrightarrow> not_negative (ad_amount ad) \<and> not_negative (map_option snd (ad_money ad))"

fun policy_event_ok :: "policy_event \<Rightarrow> bool" where
  "policy_event_ok (Recorded now rs) \<longleftrightarrow> list_all (\<lambda>r. amounts_ok (rec_admitted r)) rs"
| "policy_event_ok _ \<longleftrightarrow> True"

definition rows_ok :: "tables \<Rightarrow> bool" where
  "rows_ok db \<longleftrightarrow> list_all (\<lambda>a. not_negative (ap_amount a) \<and> not_negative (ap_currency_amount a)) (approvals db)"

definition policy_inv :: "tables \<times> policy_row list \<Rightarrow> bool" where
  "policy_inv s \<longleftrightarrow> rows_ok (fst s) \<and> set (policies (fst s)) \<subseteq> set (snd s) \<and> caps_kept (snd s) (fst s)"

lemma summed_not_negative: "summed p parsed = Inr amt \<Longrightarrow> not_negative amt"
  by (auto simp: summed_def not_negative_def split: option.splits if_splits)

lemma counted_not_negative:
  assumes "0 \<le> a" "counted bg a = Some m"
  shows "0 \<le> m"
proof -
  have "0 \<le> scale" if "checked_pow10 k = Some scale" for k and scale :: int
    using checked_pow10_Some [OF that] by simp
  then show ?thesis
    using assms unfolding counted_def to_standard_def Let_def
    by (auto simp: checked_i64_Some split: if_splits option.splits intro!: add_nonneg_nonneg div_int_pos_iff [THEN iffD2])
qed

lemma assessed_not_negative: "snd (assess bg body) = Some a \<Longrightarrow> 0 \<le> a"
  by (auto simp: assess_def Let_def read_amount_def split: option.splits json.splits if_splits)

lemma admitted_not_negative: "admits e p ws g path query body = Some ad \<Longrightarrow> amounts_ok ad"
proof -
  assume "admits e p ws g path query body = Some ad"
  then obtain parsed where s: "summed p parsed = Inr (ad_amount ad)" and m: "money_of p parsed = Inr (ad_money ad)"
    by (auto simp: admits_def Let_def split: if_splits sum.splits option.splits prod.splits)
  have "not_negative (map_option snd (ad_money ad))"
  proof (cases "ad_money ad")
    case (Some cm)
    then have "\<exists>bg amt. snd (assess bg parsed) = Some amt \<and> counted bg amt = Some (snd cm)"
      using m by (force simp: money_of_def Let_def split: option.splits prod.splits if_splits)
    then have "0 \<le> snd cm" using assessed_not_negative counted_not_negative by blast
    then show ?thesis using Some by (simp add: not_negative_def)
  qed (simp add: not_negative_def)
  then show ?thesis using summed_not_negative [OF s] by (simp add: amounts_ok_def)
qed

lemma map_filter_filter_Cons:
  "List.map_filter f (x # xs) = (case f x of Some y \<Rightarrow> y # List.map_filter f xs | None \<Rightarrow> List.map_filter f xs)"
  by (simp add: map_filter_simps split: option.split)

lemma sum_of_simps [simp]:
  "sum_of f [] = 0" "sum_of f (x # xs) = (case f x of Some y \<Rightarrow> y | None \<Rightarrow> 0) + sum_of f xs"
  by (simp_all add: sum_of_def map_filter_filter_Cons map_filter_simps split: option.split)

lemma sum_of_append [simp]: "sum_of f (xs @ ys) = sum_of f xs + sum_of f ys"
  by (induction xs) auto

lemma sum_of_filter_mono:
  assumes "\<And>x. P x \<Longrightarrow> Q x" and "list_all (\<lambda>x. not_negative (f x)) xs"
  shows "sum_of f (filter P xs) \<le> sum_of f (filter Q xs)"
  using assms(2) by (induction xs) (auto simp: assms(1) not_negative_def split: option.splits dest: assms(1))

lemma length_filter_mono: "(\<And>x. P x \<Longrightarrow> Q x) \<Longrightarrow> length (filter P xs) \<le> length (filter Q xs)"
  by (induction xs) (auto simp: le_SucI)

lemma insert_record_SomeD:
  assumes "insert_record db now r = Some db'"
  obtains p where "p \<in> set (policies db)" "stands db now r p" "has_room db now r p"
    "db' = db\<lparr>approvals := approvals db @ [approval_of now r p]\<rparr>"
proof -
  obtain p where f: "filter (\<lambda>p. stands db now r p \<and> has_room db now r p) (policies db) = [p]"
    and d: "db' = db\<lparr>approvals := approvals db @ [approval_of now r p]\<rparr>"
    using assms by (auto simp: insert_record_def split: list.splits)
  have "p \<in> set (filter (\<lambda>p. stands db now r p \<and> has_room db now r p) (policies db))"
    unfolding f by simp
  then have "p \<in> set (policies db)" "stands db now r p" "has_room db now r p" by simp_all
  then show ?thesis using d by (rule that)
qed

lemma of_same_policy: "same_policy p q \<Longrightarrow> of_policy q = of_policy p"
  by (rule ext) (simp add: same_policy_def of_policy_def)

lemma alwaysD: "always ever p Q \<Longrightarrow> q \<in> set ever \<Longrightarrow> same_policy p q \<Longrightarrow> Q q"
  by (auto simp: always_def list_all_iff)

lemma always_append: "always (ps @ ever) p Q \<Longrightarrow> always ever p Q"
  by (simp add: always_def)

text \<open>A day that takes in the new row holds no row the insert did not count, whenever the others were written.\<close>

lemma day_to_snoc:
  "day_to (as1 @ [a]) p t = day_to as1 p t @ (if of_policy p a \<and> t - DAY < ap_at a \<and> ap_at a \<le> t then [a] else [])"
  by (simp add: day_to_def)

lemma day_to_last_day: "now \<le> t \<Longrightarrow> length (day_to (approvals db) p t) \<le> length (last_day db now p)"
  unfolding day_to_def last_day_def by (rule length_filter_mono) auto

lemma day_to_sum:
  "now \<le> t \<Longrightarrow> rows_ok db \<Longrightarrow>
     sum_of ap_amount (day_to (approvals db) p t) \<le> sum_of ap_amount (last_day db now p)"
  unfolding day_to_def last_day_def
  by (rule sum_of_filter_mono) (auto simp: rows_ok_def list_all_iff)

lemma spent_to_sum:
  "now \<le> t \<Longrightarrow> rows_ok db \<Longrightarrow>
     sum_of ap_currency_amount (spent_to (approvals db) p currency t) \<le>
     sum_of ap_currency_amount (filter (\<lambda>a. ap_currency a = Some currency) (last_day db now p))"
  unfolding spent_to_def day_to_def last_day_def filter_filter
  by (rule sum_of_filter_mono) (auto simp: rows_ok_def list_all_iff)

lemma insert_record_keeps:
  assumes inv: "policy_inv (db, ever)" and ok: "amounts_ok (rec_admitted r)" and ins: "insert_record db now r = Some db'"
  shows "policy_inv (db', ever)"
proof -
  obtain q where q: "q \<in> set (policies db)" "stands db now r q" "has_room db now r q"
    "db' = db\<lparr>approvals := approvals db @ [approval_of now r q]\<rparr>"
    using insert_record_SomeD [OF ins] by metis
  let ?a = "approval_of now r q"
  have db': "policies db' = policies db" "approvals db' = approvals db @ [?a]" using q(4) by simp_all
  have rows: "rows_ok db" and caps: "caps_kept ever db" and ever: "q \<in> set ever" using inv q(1) by (auto simp: policy_inv_def)
  have "rows_ok db'" using rows ok by (simp add: rows_ok_def db' approval_of_def amounts_ok_def)
  moreover have "caps_kept ever db'"
    unfolding caps_kept_def
  proof (intro allI)
    fix p :: policy_row and n :: int
    note cp = caps [unfolded caps_kept_def, rule_format (no_asm), of p n]
    let ?goal = "(always ever p (\<lambda>q. row_per_turn q \<le> n) \<longrightarrow>
        (\<forall>job. this_turn db' job p = [] \<or> int (length (this_turn db' job p)) \<le> n)) \<and>
     (always ever p (\<lambda>q. row_per_day q \<le> n) \<longrightarrow>
        (\<forall>t. day_to (approvals db') p t = [] \<or> int (length (day_to (approvals db') p t)) \<le> n)) \<and>
     (always ever p (sums_within n) \<longrightarrow>
        (\<forall>t. day_to (approvals db') p t = [] \<or> sum_of ap_amount (day_to (approvals db') p t) \<le> n)) \<and>
     (\<forall>currency. always ever p (totals_within currency n) \<longrightarrow>
        (\<forall>t. spent_to (approvals db') p currency t = [] \<or> sum_of ap_currency_amount (spent_to (approvals db') p currency t) \<le> n))"
    show ?goal
    proof (cases "same_policy p q")
      case False
      then have "\<not> of_policy p ?a" using q(2) by (auto simp: same_policy_def of_policy_def approval_of_def stands_def)
      then have "this_turn db' job p = this_turn db job p" "day_to (approvals db') p t = day_to (approvals db) p t"
          "spent_to (approvals db') p currency t = spent_to (approvals db) p currency t" for job t currency
        by (simp_all add: this_turn_def day_to_snoc spent_to_def db')
      then show ?thesis using cp by simp
    next
      case True
      have mine: "of_policy p ?a" "ap_at ?a = now" "ap_job ?a = job_id (rec_grant r)" "ap_amount ?a = ad_amount (rec_admitted r)"
        using True q(2) by (simp_all add: same_policy_def of_policy_def approval_of_def stands_def)
      have counted: "this_turn db job q = this_turn db job p" "last_day db now q = last_day db now p" for job
        by (simp_all add: this_turn_def last_day_def of_same_policy [OF True])
      have room: "int (length (this_turn db (job_id (rec_grant r)) p)) < row_per_turn q"
        "int (length (last_day db now p)) < row_per_day q" "sum_room db now r q" "money_room db now r q"
        using q(3) by (simp_all add: has_room_def counted)
      have "int (length (this_turn db' job p)) \<le> n" if "always ever p (\<lambda>q. row_per_turn q \<le> n)" "this_turn db' job p \<noteq> []" for job
        using alwaysD [OF that(1) ever True] cp that room(1) mine
        by (cases "job = job_id (rec_grant r)") (auto simp: this_turn_def db')
      moreover have "int (length (day_to (approvals db') p t)) \<le> n"
        if "always ever p (\<lambda>q. row_per_day q \<le> n)" "day_to (approvals db') p t \<noteq> []" for t
        using alwaysD [OF that(1) ever True] cp that room(2) mine day_to_last_day [of now t db p]
        by (cases "t - DAY < now \<and> now \<le> t") (auto simp: day_to_snoc db')
      moreover have "sum_of ap_amount (day_to (approvals db') p t) \<le> n"
        if a: "always ever p (sums_within n)" "day_to (approvals db') p t \<noteq> []" for t
      proof -
        have "sums_within n q" using alwaysD [OF a(1) ever True] .
        then obtain amt where amt: "ad_amount (rec_admitted r) = Some amt" "sum_of ap_amount (last_day db now p) + amt \<le> n"
          using room(3) by (auto simp: sums_within_def sum_room_def least_def counted split: option.splits)
        show ?thesis
          using cp a amt mine day_to_sum [OF _ rows, of now t p]
          by (cases "t - DAY < now \<and> now \<le> t") (auto simp: day_to_snoc db')
      qed
      moreover have "sum_of ap_currency_amount (spent_to (approvals db') p currency t) \<le> n"
        if a: "always ever p (totals_within currency n)" "spent_to (approvals db') p currency t \<noteq> []" for currency t
      proof (cases "ap_currency ?a = Some currency \<and> t - DAY < now \<and> now \<le> t")
        case False
        then have "spent_to (approvals db') p currency t = spent_to (approvals db) p currency t"
          using mine by (auto simp: spent_to_def day_to_snoc db')
        then show ?thesis using cp a by auto
      next
        case money: True
        then obtain m where m: "ad_money (rec_admitted r) = Some (currency, m)" by (auto simp: approval_of_def)
        have "totals_within currency n q" using alwaysD [OF a(1) ever True] .
        then have "sum_of ap_currency_amount (filter (\<lambda>a. ap_currency a = Some currency) (last_day db now p)) + m \<le> n"
          using room(4) m by (auto simp: totals_within_def money_room_def least_def counted split: option.splits)
        moreover have "ap_currency_amount ?a = Some m" by (simp add: approval_of_def m)
        moreover have "spent_to (approvals db') p currency t = spent_to (approvals db) p currency t @ [?a]"
          using money mine by (simp add: spent_to_def day_to_snoc db')
        ultimately show ?thesis using spent_to_sum [OF _ rows, of now t p currency] money by simp
      qed
      ultimately show ?thesis by blast
    qed
  qed
  ultimately show ?thesis using inv by (simp add: policy_inv_def db')
qed

lemma insert_records_keeps:
  "insert_records now rs db = Some db' \<Longrightarrow> policy_inv (db, ever) \<Longrightarrow>
     list_all (\<lambda>r. amounts_ok (rec_admitted r)) rs \<Longrightarrow> policy_inv (db', ever)"
proof (induction rs arbitrary: db)
  case (Cons r rs)
  then obtain d where d: "insert_record db now r = Some d" "insert_records now rs d = Some db'"
    by (auto split: option.splits)
  have "policy_inv (d, ever)"
    by (rule insert_record_keeps [OF Cons.prems(2) _ d(1)]) (use Cons.prems(3) in simp)
  then show ?case using Cons.IH [OF d(2)] Cons.prems(3) by simp
qed simp

lemma caps_kept_more: "caps_kept ever db \<Longrightarrow> caps_kept (ps @ ever) db"
  unfolding caps_kept_def by (blast dest: always_append)

lemma caps_kept_same: "approvals db' = approvals db \<Longrightarrow> caps_kept ever db' = caps_kept ever db"
  by (simp add: caps_kept_def this_turn_def)

interpretation policy_machine: invariant_machine policy_step policy_event_ok policy_inv
proof
  fix s :: "tables \<times> policy_row list" and ev :: policy_event
  assume inv: "policy_inv s" and ok: "policy_event_ok ev"
  obtain db ever where s: "s = (db, ever)" by (cases s)
  show "policy_inv (policy_step s ev)"
  proof (cases ev)
    case (Recorded now rs)
    then show ?thesis
      using insert_records_keeps [of now rs db _ ever] inv ok by (simp add: s record_all_def split: option.split)
  next
    case (PoliciesWritten ps)
    have "caps_kept (ps @ ever) (db\<lparr>policies := ps\<rparr>)"
      using inv caps_kept_more caps_kept_same [of "db\<lparr>policies := ps\<rparr>" db] by (simp add: s policy_inv_def)
    then show ?thesis using PoliciesWritten inv by (simp add: s policy_inv_def rows_ok_def)
  next
    case (MembersWritten ms)
    then show ?thesis using inv caps_kept_same [of "db\<lparr>members := ms\<rparr>" db] by (simp add: s policy_inv_def rows_ok_def)
  qed
qed

text \<open>
  C5. No cap is ever passed. From empty records, whatever transactions of admitted requests commit, in whatever
  order and begun at whatever instants, and however policies and members are edited between them: where no row a
  policy ever had allowed more than so many requests in a turn or in a day, more than such a daily sum, or more
  than such a daily total in a currency, its records stay within that in every turn, and in every day however
  the day is cut. Of the requests recorded only that none has a negative amount is asked, which is so of
  whatever a policy admits; transactions that lock the one policy are taken in the order they lock it.
\<close>
theorem policy_caps_never_passed:
  assumes "approvals db = []" and "list_all policy_event_ok events"
    and "foldl policy_step (db, policies db) events = (db', ever)"
  shows "caps_kept ever db'"
proof -
  have "policy_inv (db, policies db)"
    using assms(1) by (simp add: policy_inv_def rows_ok_def caps_kept_def this_turn_def day_to_def spent_to_def)
  from policy_machine.run_keeps [OF this assms(2)] show ?thesis by (simp add: policy_inv_def assms(3))
qed

text \<open>One policy capped at one request a turn and two a day, and what a run over it starts from.\<close>

definition example_grant :: policy_grant where
  "example_grant = \<lparr>policy_id = 5, pg_version = 1, job_id = 9, pg_gate = [], pg_requires = ''charge'',
     pg_tests = [], pg_fields = [], per_turn = 1, per_day = 2, sum_field = None, sum_per_day = None,
     pg_banding = None, pg_max_risk = None, currency_per_day = None, path_numbers = []\<rparr>"

definition example_tables :: tables where
  "example_tables = \<lparr>policies = [\<lparr>row_workspace = 1, row_id = 5, row_include = True, row_on = True,
       row_revoked = False, row_expires = 1000, row_version = 1, row_created_by = Some 3,
       row_per_turn = 1, row_per_day = 2, row_sum_field = None, row_sum_per_day = None,
       row_daily_totals = []\<rparr>], members = [(3, 1)], approvals = []\<rparr>"

definition example_record :: approval_record where
  "example_record = \<lparr>rec_workspace = 1, rec_session = 2, rec_grant = example_grant,
     rec_method = ''POST'', rec_host = ''ab.c'', rec_path = ''/charges'',
     rec_admitted = \<lparr>ad_bound = JNull, ad_amount = None, ad_money = None, ad_body = None\<rparr>\<rparr>"

text \<open>The first of two requests of one turn is recorded and the second is not.\<close>

lemma example_run:
  "snd (record_all 10 [example_record] example_tables) \<and>
   \<not> snd (record_all 10 [example_record, example_record] example_tables)"
  by code_simp

text \<open>A later request is recorded under the next version of the policy, by a transaction that began before the first.\<close>

definition example_edited :: policy_row where
  "example_edited = (hd (policies example_tables))\<lparr>row_version := 2, row_per_turn := 2\<rparr>"

definition example_events :: "policy_event list" where
  "example_events = [Recorded 10 [example_record], PoliciesWritten [example_edited],
     Recorded 5 [example_record\<lparr>rec_grant := example_grant\<lparr>pg_version := 2, per_turn := 2\<rparr>\<rparr>]]"

lemma example_recorded: "map ap_at (approvals (fst (foldl policy_step (example_tables, policies example_tables) example_events))) = [10, 5]"
  by code_simp

theorem policy_caps_never_passed_witness:
  "length (day_to (approvals (fst (foldl policy_step (example_tables, policies example_tables) example_events))) example_edited 11) \<le> 2"
proof -
  obtain db' ever where run: "foldl policy_step (example_tables, policies example_tables) example_events = (db', ever)"
    by (cases "foldl policy_step (example_tables, policies example_tables) example_events")
  have "approvals example_tables = []" "list_all policy_event_ok example_events"
    by (simp_all add: example_tables_def example_events_def example_record_def amounts_ok_def not_negative_def)
  then have kept: "caps_kept ever db'" by (rule policy_caps_never_passed [OF _ _ run])
  have "ever = example_edited # policies example_tables"
    using arg_cong [OF run, of snd] by (simp add: example_events_def)
  then have "always ever example_edited (\<lambda>q. row_per_day q \<le> 2)"
    by (simp add: always_def example_edited_def example_tables_def)
  then show ?thesis using kept [unfolded caps_kept_def, rule_format (no_asm), of example_edited 2] unfolding run by force
qed

section \<open>All or nothing\<close>

text \<open>Whose approval a row is, and whose a record asks for.\<close>

definition row_stamp :: "approval_row \<Rightarrow> uuid \<times> uuid \<times> uuid \<times> time" where
  "row_stamp a = (ap_workspace a, ap_policy a, ap_job a, ap_at a)"

definition record_stamp :: "time \<Rightarrow> approval_record \<Rightarrow> uuid \<times> uuid \<times> uuid \<times> time" where
  "record_stamp now r = (rec_workspace r, policy_id (rec_grant r), job_id (rec_grant r), now)"

lemma insert_records_adds:
  "insert_records now rs db = Some db' \<Longrightarrow>
     \<exists>rows. db' = db\<lparr>approvals := approvals db @ rows\<rparr> \<and> map row_stamp rows = map (record_stamp now) rs"
proof (induction rs arbitrary: db)
  case Nil
  then show ?case by (auto intro: exI [of _ "[]"])
next
  case (Cons r rs)
  then obtain d where d: "insert_record db now r = Some d" "insert_records now rs d = Some db'"
    by (auto split: option.splits)
  obtain p where p: "stands db now r p" "d = db\<lparr>approvals := approvals db @ [approval_of now r p]\<rparr>"
    using insert_record_SomeD [OF d(1)] by metis
  obtain rows where rows: "db' = d\<lparr>approvals := approvals d @ rows\<rparr>" "map row_stamp rows = map (record_stamp now) rs"
    using Cons.IH [OF d(2)] by blast
  have "db' = db\<lparr>approvals := approvals db @ (approval_of now r p # rows)\<rparr>" using rows(1) p(2) by simp
  moreover have "map row_stamp (approval_of now r p # rows) = map (record_stamp now) (r # rs)"
    using rows(2) p(1) by (simp add: approval_of_def stands_def row_stamp_def record_stamp_def)
  ultimately show ?case by blast
qed

text \<open>
  A request that several policies admit is recorded for every one of them or for none: a
  transaction that does not succeed leaves the tables as they were, and one that does adds exactly
  one row for each record, in order, under the policy and the turn it names, and changes nothing else.
\<close>
theorem record_is_all_or_nothing:
  "case record_all now rs db of
     (db', ok) \<Rightarrow>
       (if ok then \<exists>rows. db' = db\<lparr>approvals := approvals db @ rows\<rparr> \<and> map row_stamp rows = map (record_stamp now) rs
        else db' = db)"
  by (auto simp: record_all_def dest: insert_records_adds split: option.split)

section \<open>What a policy admits\<close>

text \<open>The values a positive test names.\<close>

definition named :: "test \<Rightarrow> json list" where
  "named t = (if test_op t = Eq then [test_value t] else if test_op t = In then list_of (test_value t) else [])"

lemma check_tests_excludes:
  assumes "check_tests tests = Inr ()" and "t \<in> set tests" and "excludes (test_op t)"
  shows "\<exists>o1 \<in> set tests. test_field o1 = test_field t \<and> positive (test_op o1)"
proof -
  have "List.map_filter (check_test tests) tests = []"
    using assms(1) by (auto simp: check_tests_def split: if_splits list.splits)
  then have "check_test tests t = None" using assms(2)
    by (auto simp: List.map_filter_def filter_empty_conv)
  then show ?thesis using assms(3) by (auto simp: check_test_def list_ex_iff split: if_splits option.splits)
qed

lemma test_holds_positive:
  "test_holds body t \<Longrightarrow> positive (test_op t) \<Longrightarrow>
     \<exists>v. present body (test_field t) = Some v \<and> (\<exists>x \<in> set (named t). same v x)"
  by (cases "test_op t") (auto simp: test_holds_def positive_def named_def list_ex_iff split: option.splits)

lemma test_holds_compares:
  "test_holds body t \<Longrightarrow> compares (test_op t) \<Longrightarrow>
     \<exists>v n. present body (test_field t) = Some v \<and> whole v = Some n"
  by (cases "test_op t") (auto simp: test_holds_def compares_def split: option.splits prod.splits)

lemma present_get: "present body f = Some v \<Longrightarrow> obj_get body f = Some v"
  by (auto simp: present_def split: option.splits if_splits)

lemma op_kinds: "positive op \<or> excludes op \<or> compares op"
  by (cases op) (simp_all add: positive_def excludes_def compares_def)

text \<open>
  A policy admits only what its tests say. For tests that may be written at all, a request they
  hold of carries every field tested, with a value; a compared field is a whole number, and not below
  zero unless a test bounds it from below; and any other tested field, one tested only by exclusion
  included, has one of the values a test names for it.
\<close>
theorem tests_admit_only_what_they_say:
  assumes "check_tests tests = Inr ()" and "holds tests body" and "t \<in> set tests"
  shows "\<exists>v. obj_get body (test_field t) = Some v \<and>
    (if compares (test_op t)
     then \<exists>n. whole v = Some n \<and>
       (n \<ge> 0 \<or> (\<exists>o1 \<in> set tests. test_field o1 = test_field t \<and> test_op o1 \<in> {Gt, Ge} \<and> test_holds body o1))
     else \<exists>o1 \<in> set tests. test_field o1 = test_field t \<and> (\<exists>x \<in> set (named o1). same v x))"
proof -
  have each: "test_holds body o1" if "o1 \<in> set tests" for o1
    using assms(2) that by (simp add: holds_def list_all_iff)
  show ?thesis
  proof (cases "compares (test_op t)")
    case True
    obtain v n where v: "present body (test_field t) = Some v" "whole v = Some n"
      using test_holds_compares [OF each [OF assms(3)] True] by blast
    have floor: "n \<ge> 0" if "\<not> list_ex (\<lambda>o1. test_field o1 = test_field t \<and> test_op o1 \<in> {Gt, Ge}) tests"
    proof -
      have "case whole_field body (test_field t) of Some v \<Rightarrow> v \<ge> 0 | None \<Rightarrow> False"
        using assms(2,3) True that by (simp add: holds_def list_all_iff)
      then show ?thesis using v present_get [OF v(1)] by (simp add: whole_field_def)
    qed
    then show ?thesis using True v present_get [OF v(1)] each by (auto simp: list_ex_iff)
  next
    case False
    then obtain o1 where o1: "o1 \<in> set tests" "test_field o1 = test_field t" "positive (test_op o1)"
      using op_kinds [of "test_op t"] check_tests_excludes [OF assms(1,3)] assms(3) by blast
    from test_holds_positive [OF each [OF o1(1)] o1(3)] show ?thesis
      using False o1 by (auto dest: present_get)
  qed
qed

theorem tests_admit_only_what_they_say_witness:
  "\<exists>v. obj_get [(''amount'', JNum (PosInt 7))] ''amount'' = Some v \<and> (\<exists>n. whole v = Some n \<and> n \<ge> 0)"
proof -
  let ?t = "\<lparr>test_field = ''amount'', test_op = Le, test_value = JNum (PosInt 50)\<rparr>"
  have c: "check_tests [?t] = Inr ()" "holds [?t] [(''amount'', JNum (PosInt 7))]" by code_simp+
  show ?thesis using tests_admit_only_what_they_say [OF c, of ?t] by (simp add: compares_def)
qed

text \<open>
  What is admitted is what was tested and is what is sent. A policy admits a request only through
  its own gate and only without a query string; every member of the body is one the policy lists and
  none is a second spelling of a bound one or of a path parameter; the tests hold of the body's
  members with the path's; the risk is within the most allowed; the amount summed is the body's own
  and not below zero; and the body sent on is the one document that was read.
\<close>
theorem admitted_request_is_as_tested:
  assumes "admits e p ws g path query body = Some ad"
  shows "query = None \<and> pg_gate p = gate_key e ws g \<and> pg_requires p = gate_requires g \<and> binds g \<noteq> [] \<and>
    (\<exists>from_path parsed.
       path_values (gate_path g) path = Inr from_path \<and> body_object e g from_path body = Some parsed \<and>
       list_all (key_allowed p g from_path \<circ> fst) parsed \<and>
       holds (pg_tests p) (insert_path_fields (path_numbers p) from_path parsed) \<and>
       (case pg_banding p of
          None \<Rightarrow> True
        | Some bg \<Rightarrow> (case pg_max_risk p of Some m \<Rightarrow> fst (assess bg parsed) \<le> m | None \<Rightarrow> False)) \<and>
       (case sum_field p of
          None \<Rightarrow> ad_amount ad = None
        | Some f \<Rightarrow> \<exists>v \<ge> 0. ad_amount ad = Some v \<and> whole_field parsed f = Some v) \<and>
       ad_body ad = map_option (\<lambda>_. json_text e (JObj parsed)) body)"
  using assms
  by (fastforce simp: admits_def Let_def summed_def money_of_def split: if_splits sum.splits option.splits prod.splits)

definition charge_policy :: "outside \<Rightarrow> policy_grant" where
  "charge_policy e = example_grant\<lparr>pg_gate := gate_key e 1 charge_gate, pg_requires := ''charge'',
     pg_tests := [\<lparr>test_field = ''card'', test_op = Eq, test_value = JStr ''visa''\<rparr>],
     pg_fields := [''amount'', ''card'']\<rparr>"

lemma charge_admitted:
  assumes "json_parse e t = Some (charge a ''visa'')"
  shows "admits e (charge_policy e) 1 charge_gate ''/charges'' None (Some t) =
    Some \<lparr>ad_bound = JObj (collect_bound [(''amount'', JStr a), (''card'', JStr ''visa'')] [''amount'', ''card''] []),
      ad_amount = None, ad_money = None, ad_body = Some (json_text e (charge a ''visa''))\<rparr>"
proof -
  have np: "path_values ''/charges'' ''/charges'' = Inr []" by code_simp
  have keys: "\<not> eq_ignore_case ''amount'' ''card''" "\<not> eq_ignore_case ''card'' ''amount''" by code_simp+
  have gate: "gate_path charge_gate = ''/charges''" "binds charge_gate = [''amount'', ''card'']"
    "gate_requires charge_gate = ''charge''"
    by (simp_all add: charge_gate_def)
  show ?thesis
    using assms
    by (simp add: admits_def charge_policy_def gate np body_object_def charge_def key_allowed_def keys Let_def
        holds_def test_holds_def present_def obj_get_def summed_def money_of_def example_grant_def compares_def)
qed

theorem admitted_request_is_as_tested_witness:
  "list_all (key_allowed (charge_policy (charge_outside (charge ''40'' ''visa'') JNull)) charge_gate [] \<circ> fst)
     [(''amount'', JStr ''40''), (''card'', JStr ''visa'')]"
proof -
  let ?e = "charge_outside (charge ''40'' ''visa'') JNull"
  have parse: "json_parse ?e ''1'' = Some (charge ''40'' ''visa'')" by simp
  have gate: "gate_path charge_gate = ''/charges''" by (simp add: charge_gate_def)
  have np: "path_values ''/charges'' ''/charges'' = Inr []" by code_simp
  show ?thesis
    using admitted_request_is_as_tested [OF charge_admitted [OF parse]]
    by (auto simp: gate np body_object_def charge_def)
qed

end
