(* ===== verification/Gates.thy ===== *)
theory Gates
  imports Policy "HOL-Library.Product_Lexorder"
begin

text \<open>
  What a turn is gated by, the \<open>Gates\<close> of \<open>crates/core/src/egress/gate.rs\<close>: the gates, what
  somebody has approved, what the workspace's policies say, which gates cover a request and which
  of those nothing permits, and the root the API signs over all three.
\<close>

section \<open>Data\<close>

record gate_set =
  gs_gates :: "gate list"
  gs_grants :: "granted list"
  gs_policies :: "policy_grant list"

definition no_gates :: gate_set where
  "no_gates = \<lparr>gs_gates = [], gs_grants = [], gs_policies = []\<rparr>"

definition gates_of :: "gate list \<Rightarrow> gate_set" where
  "gates_of gs = \<lparr>gs_gates = sort_key (\<lambda>g. (gate_host g, gate_method g, gate_path g, gate_requires g)) gs,
     gs_grants = [], gs_policies = []\<rparr>"

definition with_grants :: "gate_set \<Rightarrow> granted list \<Rightarrow> gate_set" where
  "with_grants s grants =
     s\<lparr>gs_grants := sort_key (\<lambda>g. (granted_requires g, extent_text (granted_extent g), keyed_on g)) grants\<rparr>"

definition with_policies :: "gate_set \<Rightarrow> policy_grant list \<Rightarrow> gate_set" where
  "with_policies s ps = s\<lparr>gs_policies := sort_key (\<lambda>p. (pg_gate p, policy_id p)) ps\<rparr>"

definition into_vec :: "gate_set \<Rightarrow> gate list" where
  "into_vec s = gs_gates s"

definition gates_is_empty :: "gate_set \<Rightarrow> bool" where
  "gates_is_empty s \<longleftrightarrow> gs_gates s = []"

section \<open>Reading a set\<close>

definition permitted ::
  "outside \<Rightarrow> gate_set \<Rightarrow> gate \<Rightarrow> string \<Rightarrow> string \<Rightarrow> string \<Rightarrow> string option \<Rightarrow> granted option" where
  "permitted e s g method host path body = find (\<lambda>gr. permits e gr g method host path body) (gs_grants s)"

definition policy_for :: "outside \<Rightarrow> gate_set \<Rightarrow> uuid \<Rightarrow> gate \<Rightarrow> policy_grant option" where
  "policy_for e s workspace_id g = find (\<lambda>p. pg_gate p = gate_key e workspace_id g) (gs_policies s)"

definition covering_all :: "gate_set \<Rightarrow> string \<Rightarrow> string \<Rightarrow> string \<Rightarrow> gate list" where
  "covering_all s host method path = filter (\<lambda>g. covers_request g host method path) (gs_gates s)"

definition unpermitted ::
  "outside \<Rightarrow> gate_set \<Rightarrow> string \<Rightarrow> string \<Rightarrow> string \<Rightarrow> string option \<Rightarrow> gate option" where
  "unpermitted e s host method path body =
     find (\<lambda>g. permitted e s g method host path body = None) (covering_all s host method path)"

definition covering :: "gate_set \<Rightarrow> string \<Rightarrow> string \<Rightarrow> string \<Rightarrow> gate option" where
  "covering s host method path = find (\<lambda>g. covers_request g host method path) (gs_gates s)"

section \<open>The commitment\<close>

definition gate_leaves :: "outside \<Rightarrow> (policy_grant \<Rightarrow> bytes) \<Rightarrow> uuid \<Rightarrow> gate_set \<Rightarrow> hash list" where
  "gate_leaves e policy_bytes workspace_id s =
     ordered (map (gate_leaf e workspace_id) (gs_gates s) @ map (grant_leaf e workspace_id) (gs_grants s) @
              map (policy_leaf e policy_bytes workspace_id) (gs_policies s))"

definition gate_root_of :: "outside \<Rightarrow> hash list \<Rightarrow> hash" where
  "gate_root_of e ls = root_with e TAG_GATE_NODE TAG_GATE_EMPTY ls"

definition gates_root :: "outside \<Rightarrow> (policy_grant \<Rightarrow> bytes) \<Rightarrow> uuid \<Rightarrow> gate_set \<Rightarrow> hash" where
  "gates_root e policy_bytes workspace_id s = gate_root_of e (gate_leaves e policy_bytes workspace_id s)"

definition gates_match :: "outside \<Rightarrow> (policy_grant \<Rightarrow> bytes) \<Rightarrow> uuid \<Rightarrow> gate_set \<Rightarrow> hash \<Rightarrow> bool" where
  "gates_match e policy_bytes workspace_id s committed \<longleftrightarrow> gates_root e policy_bytes workspace_id s = committed"

section \<open>The three kinds of leaf\<close>

datatype gate_leaf_kind = GateLeaf gate | GrantLeaf granted | PolicyLeaf policy_grant

definition leaf_kinds :: "gate_set \<Rightarrow> gate_leaf_kind list" where
  "leaf_kinds s = map GateLeaf (gs_gates s) @ map GrantLeaf (gs_grants s) @ map PolicyLeaf (gs_policies s)"

fun kind_input :: "outside \<Rightarrow> (policy_grant \<Rightarrow> bytes) \<Rightarrow> uuid \<Rightarrow> gate_leaf_kind \<Rightarrow> bytes" where
  "kind_input e pb ws (GateLeaf g) = gate_leaf_input e ws g"
| "kind_input e pb ws (GrantLeaf gr) = grant_leaf_input e ws gr"
| "kind_input e pb ws (PolicyLeaf p) = policy_leaf_input e pb ws p"

text \<open>Field lists a \<open>u64\<close> length holds.\<close>

fun kind_fits :: "gate_leaf_kind \<Rightarrow> bool" where
  "kind_fits (GateLeaf g) = list_all fits_u64 (gate_fields g)"
| "kind_fits (GrantLeaf gr) = list_all fits_u64 [Some (granted_requires gr), Some (keyed_on gr)]"
| "kind_fits (PolicyLeaf p) = True"

definition gates_hashed :: "outside \<Rightarrow> (policy_grant \<Rightarrow> bytes) \<Rightarrow> uuid \<Rightarrow> gate_set \<Rightarrow> bytes set" where
  "gates_hashed e pb ws s =
     committed_inputs e TAG_GATE_NODE TAG_GATE_EMPTY (map (kind_input e pb ws) (leaf_kinds s))"

lemmas kind_input_defs = gate_leaf_input_def grant_leaf_input_def policy_leaf_input_def

interpretation gate_tree: commitment TAG_GATE_NODE TAG_GATE_EMPTY "kind_input e pb ws" for e pb ws
proof
  show "\<not> prefix TAG_GATE_NODE (kind_input e pb ws x)" "kind_input e pb ws x \<noteq> TAG_GATE_EMPTY" for x
    by (cases x; simp add: kind_input_defs gate_tag_defs TAG_POLICY_LEAF_def)+
qed (simp add: gate_tag_defs)

lemma gates_root_eq:
  "gates_root e pb ws s =
     root_with e TAG_GATE_NODE TAG_GATE_EMPTY (ordered (map (sha256 e) (map (kind_input e pb ws) (leaf_kinds s))))"
  by (simp add: gates_root_def gate_root_of_def gate_leaves_def leaf_kinds_def o_def
      gate_leaf_def [abs_def] grant_leaf_def [abs_def] policy_leaf_def [abs_def])

lemma extent_text_inj [simp]: "extent_text a = extent_text b \<longleftrightarrow> a = b"
  by (cases a; cases b) simp_all

lemma extent_text_fits [simp]: "fits_u64 (Some (extent_text a))"
  by (cases a) (simp_all add: fits_u64_def)

lemma gate_fields_inj: "gate_fields g = gate_fields g' \<Longrightarrow> g = g'"
  by (cases g; cases g') (auto simp: gate_fields_def dest: map_injective [OF _ inj_Some])

lemma kind_input_inj:
  assumes "uuid_forms e" and "\<And>p q. x = PolicyLeaf p \<Longrightarrow> y = PolicyLeaf q \<Longrightarrow> pb p = pb q \<Longrightarrow> p = q"
    and "kind_fits x" and "kind_fits y"
    and "kind_input e pb ws x = kind_input e pb ws y"
  shows "x = y"
proof (cases x)
  case (GateLeaf g)
  then show ?thesis using assms(3-5)
    by (cases y) (auto simp: kind_input_defs gate_tag_defs TAG_POLICY_LEAF_def
        dest!: hash_fields_inj gate_fields_inj)
next
  case (GrantLeaf gr)
  show ?thesis
  proof (cases y)
    case (GrantLeaf gr')
    let ?fs = "\<lambda>g. [Some (granted_requires g), Some (extent_text (granted_extent g)), Some (keyed_on g)]"
    have "hash_fields (?fs gr) = hash_fields (?fs gr')"
      using assms(5) GrantLeaf \<open>x = GrantLeaf gr\<close> by (simp add: grant_leaf_input_def)
    then have "?fs gr = ?fs gr'"
      by (rule hash_fields_inj) (use assms(3,4) GrantLeaf \<open>x = GrantLeaf gr\<close> in simp_all)
    then show ?thesis using GrantLeaf \<open>x = GrantLeaf gr\<close> by simp
  qed (use GrantLeaf assms(5) in \<open>simp_all add: kind_input_defs gate_tag_defs TAG_POLICY_LEAF_def\<close>)
next
  case (PolicyLeaf p)
  then show ?thesis using assms(2,5)
    by (cases y) (auto simp: kind_input_defs gate_tag_defs TAG_POLICY_LEAF_def)
qed

lemma leaf_kinds_sets:
  assumes "set (leaf_kinds s) = set (leaf_kinds s')"
  shows "set (gs_gates s) = set (gs_gates s') \<and> set (gs_grants s) = set (gs_grants s') \<and>
    set (gs_policies s) = set (gs_policies s')"
proof -
  have "g \<in> set (gs_gates r) \<longleftrightarrow> GateLeaf g \<in> set (leaf_kinds r)"
    "gr \<in> set (gs_grants r) \<longleftrightarrow> GrantLeaf gr \<in> set (leaf_kinds r)"
    "p \<in> set (gs_policies r) \<longleftrightarrow> PolicyLeaf p \<in> set (leaf_kinds r)" for g gr p r
    by (auto simp: leaf_kinds_def)
  then show ?thesis using assms by auto
qed

lemma gates_match_sets:
  assumes "digest_width e" and "uuid_forms e" and "inj_on pb (set (gs_policies s) \<union> set (gs_policies s'))"
    and "list_all kind_fits (leaf_kinds s)" and "list_all kind_fits (leaf_kinds s')"
    and "no_collision e (gates_hashed e pb ws s \<union> gates_hashed e pb ws s')"
    and "gates_match e pb ws s' (gates_root e pb ws s)"
  shows "set (gs_gates s) = set (gs_gates s') \<and> set (gs_grants s) = set (gs_grants s') \<and>
    set (gs_policies s) = set (gs_policies s')"
proof -
  have im: "kind_input e pb ws ` set (leaf_kinds s) = kind_input e pb ws ` set (leaf_kinds s')"
    using gate_tree.root_binds [OF assms(1) assms(6) [unfolded gates_hashed_def]] assms(7)
    by (simp add: gates_match_def gates_root_eq)
  have "inj_on (kind_input e pb ws) (set (leaf_kinds s) \<union> set (leaf_kinds s'))"
  proof (rule inj_onI)
    fix x y
    assume x: "x \<in> set (leaf_kinds s) \<union> set (leaf_kinds s')" and y: "y \<in> set (leaf_kinds s) \<union> set (leaf_kinds s')"
      and eq: "kind_input e pb ws x = kind_input e pb ws y"
    have "p = q" if "x = PolicyLeaf p" "y = PolicyLeaf q" "pb p = pb q" for p q
      using inj_onD [OF assms(3) that(3)] x y that(1,2) by (auto simp: leaf_kinds_def)
    moreover have "kind_fits x" "kind_fits y" using x y assms(4,5) by (auto simp: list_all_iff)
    ultimately show "x = y" using kind_input_inj [OF assms(2) _ _ _ eq] by blast
  qed
  with im have "set (leaf_kinds s) = set (leaf_kinds s')"
    by (rule inj_on_Un_image_eq_iff [THEN iffD1, rotated])
  then show ?thesis by (rule leaf_kinds_sets)
qed

section \<open>What a set decides\<close>

lemma permitted_None_iff:
  "permitted e s g method host path body = None \<longleftrightarrow>
     (\<forall>gr \<in> set (gs_grants s). \<not> permits e gr g method host path body)"
  by (auto simp: permitted_def find_None_iff)

lemma unpermitted_None_iff:
  "unpermitted e s host method path body = None \<longleftrightarrow>
     (\<forall>g \<in> set (gs_gates s). covers_request g host method path \<longrightarrow>
        (\<exists>gr \<in> set (gs_grants s). permits e gr g method host path body))"
  by (auto simp: unpermitted_def find_None_iff covering_all_def permitted_None_iff)

text \<open>
  C13. A relay cannot take a gate away, add a grant or loosen a policy: a set of gates the gateway
  accepts against the root the API minted decides every request as the API's own set does. The same
  gates cover it, and it goes out with nothing left to approve in one exactly when it does in the
  other.
\<close>
theorem relayed_gates_decide_alike:
  assumes "digest_width e" and "uuid_forms e"
    and "inj_on policy_bytes (set (gs_policies minted) \<union> set (gs_policies sent))"
    and "list_all kind_fits (leaf_kinds minted)" and "list_all kind_fits (leaf_kinds sent)"
    and "no_collision e (gates_hashed e policy_bytes ws minted \<union> gates_hashed e policy_bytes ws sent)"
    and "gates_match e policy_bytes ws sent (gates_root e policy_bytes ws minted)"
  shows "set (covering_all sent host method path) = set (covering_all minted host method path) \<and>
    (unpermitted e sent host method path body = None \<longleftrightarrow> unpermitted e minted host method path body = None) \<and>
    set (gs_policies sent) = set (gs_policies minted)"
  using gates_match_sets [OF assms] by (simp add: unpermitted_None_iff covering_all_def)

text \<open>
  Every covering gate has to be satisfied: nothing is left unpermitted exactly when each gate
  that covers the request has a grant permitting it, so a grant for one gate never lets a request
  past another; and the gate a refusal names covers the request and no grant permits it.
\<close>
theorem every_covering_gate_is_asked:
  "(unpermitted e s host method path body = None \<longleftrightarrow>
      (\<forall>g \<in> set (gs_gates s). covers_request g host method path \<longrightarrow>
         (\<exists>gr \<in> set (gs_grants s). permits e gr g method host path body))) \<and>
   (case unpermitted e s host method path body of
      None \<Rightarrow> True
    | Some g \<Rightarrow> g \<in> set (gs_gates s) \<and> covers_request g host method path \<and>
        (\<forall>gr \<in> set (gs_grants s). \<not> permits e gr g method host path body))"
proof -
  have "case unpermitted e s host method path body of
      None \<Rightarrow> True
    | Some g \<Rightarrow> g \<in> set (gs_gates s) \<and> covers_request g host method path \<and>
        (\<forall>gr \<in> set (gs_grants s). \<not> permits e gr g method host path body)"
    by (auto simp: unpermitted_def covering_all_def find_Some_iff permitted_None_iff
        split: option.split dest!: nth_mem)
  then show ?thesis using unpermitted_None_iff by blast
qed

text \<open>One gate, committed to once and relayed twice over.\<close>

definition one_gate :: gate_set where
  "one_gate = \<lparr>gs_gates = [charge_gate], gs_grants = [], gs_policies = []\<rparr>"

definition same_gate_twice :: gate_set where
  "same_gate_twice = \<lparr>gs_gates = [charge_gate, charge_gate], gs_grants = [], gs_policies = []\<rparr>"

lemma gates_hashed_example:
  "gates_hashed e pb ws one_gate = {TAG_GATE_EMPTY, gate_leaf_input e ws charge_gate}"
  "gates_hashed e pb ws same_gate_twice = {TAG_GATE_EMPTY, gate_leaf_input e ws charge_gate}"
  by (auto simp: gates_hashed_def committed_inputs_def in_order_def tree_of_def leaf_kinds_def one_gate_def same_gate_twice_def)

lemma gate_no_collision: "no_collision toy_outside {TAG_GATE_EMPTY, gate_leaf_input toy_outside 1 charge_gate}"
proof -
  have "\<exists>x. gate_leaf_input toy_outside 1 charge_gate = x @ ''rd''" "\<exists>x. TAG_GATE_EMPTY = x @ [CHR ''1'', CHR 0x00]"
    by (auto simp: gate_leaf_input_def gate_fields_def charge_gate_def gate_tag_defs)
  then obtain x z where eqs: "gate_leaf_input toy_outside 1 charge_gate = x @ ''rd''"
    "TAG_GATE_EMPTY = z @ [CHR ''1'', CHR 0x00]" by blast
  have "sha256 toy_outside = toy_digest" by (simp add: toy_outside_def)
  then show ?thesis
    unfolding no_collision_def inj_on_def eqs by (auto dest!: toy_digest_last)
qed

theorem relayed_gates_decide_alike_witness:
  "set (covering_all same_gate_twice ''ab.c'' ''POST'' ''/charges'') = set (covering_all one_gate ''ab.c'' ''POST'' ''/charges'')"
proof -
  have "gates_match toy_outside (\<lambda>_. []) 1 same_gate_twice (gates_root toy_outside (\<lambda>_. []) 1 one_gate)"
    by (simp add: gates_match_def gates_root_def gate_leaves_def one_gate_def same_gate_twice_def ordered_def)
  then show ?thesis
    using relayed_gates_decide_alike [of toy_outside "\<lambda>_. []" one_gate same_gate_twice 1 "''ab.c''" "''POST''" "''/charges''" None]
      gate_no_collision
    by (simp add: gates_hashed_example)
      (simp add: leaf_kinds_def one_gate_def same_gate_twice_def gate_fields_def charge_gate_def fits_u64_def)
qed

lemma charge_gate_covers: "covers_request charge_gate ''ab.c'' ''POST'' ''/charges''"
proof -
  have "host_matches ''ab.c'' ''ab.c''"
    by (simp add: host_matches_def Let_def strip_prefix_def starts_with_def norm_host_def graphic_def
        trim_end_matches_def is_dot_def to_lower_def ascii_defs char_of_def bit_0)
  moreover have "\<not> has_path_params ''/charges''"
    by (simp add: has_path_params_def param_name_def strip_prefix_def starts_with_def)
  ultimately show ?thesis
    by (auto simp: covers_request_def charge_gate_def strip_suffix_def starts_with_def eq_ignore_case_def
        split: option.split if_splits)
qed

theorem every_covering_gate_is_asked_witness:
  "unpermitted toy_outside one_gate ''ab.c'' ''POST'' ''/charges'' None \<noteq> None"
  using every_covering_gate_is_asked [of toy_outside one_gate "''ab.c''" "''POST''" "''/charges''" None]
    charge_gate_covers by (auto simp: one_gate_def)

end
