(* ===== verification/Credentials.thy ===== *)
theory Credentials
  imports External EgressRule
begin

text \<open>
  Where a credential may go: the binding a sealed one carries, \<open>crates/core/src/egress/seal.rs\<close>, and
  the operator's bindings of environment variables, \<open>crates/core/src/egress/bindings.rs\<close>. Parsing a
  URL and a UUID are arguments; a parsed URL is its own serialization. Sealing and opening are the
  HPKE crate's and are not modelled.
\<close>

section \<open>The binding of a sealed credential\<close>

datatype seal_kind = Static | ClientId | ClientSecret | Provider | ServiceAccount

definition on_a_request :: "seal_kind \<Rightarrow> seal_kind" where
  "on_a_request k = (case k of ServiceAccount \<Rightarrow> ServiceAccount | _ \<Rightarrow> Static)"

record seal_binding =
  sb_credential :: uuid
  sb_kind :: seal_kind
  sb_workspaces :: "string list"
  sb_hosts :: "string list"
  sb_header :: "string option"
  sb_token_url :: "string option"
  sb_account :: "string option"
  sb_scope :: "string option"
  sb_user :: "uuid option"

datatype seal_error =
    NoWorkspace | StarAmongIds | NotAnId string | NoHosts | NotPlainHost string
  | PersonNotStatic | PersonManyWorkspaces | AccountElsewhere
  | StaticShape | ClientShape | ProviderShape | AccountShape | NoAccount | NoScope
  | NotAUrl string | NotHttps string
  | WrongWorkspace | WrongHost string | WrongUse | WrongHeader string
  | SomebodyElses | OnlyTheirTurns | AgentsOwn

definition https_url :: "(string \<Rightarrow> url option) \<Rightarrow> string \<Rightarrow> seal_error + unit" where
  "https_url parse_url u =
     (case parse_url u of
        None \<Rightarrow> Inl (NotAUrl u)
      | Some p \<Rightarrow> if url_scheme p \<noteq> ''https'' then Inl (NotHttps u) else Inr ())"

text \<open>The first of a list of checks that fails.\<close>

definition plain_host :: "string \<Rightarrow> bool" where
  "plain_host h \<longleftrightarrow>
     h \<noteq> [] \<and> list_all (\<lambda>c. ascii_lower c \<or> ascii_digit c \<or> c = CHR ''.'' \<or> c = CHR ''-'') h \<and>
     \<not> starts_with h ''.'' \<and> \<not> ends_with h ''.''"

definition check_workspaces :: "(string \<Rightarrow> uuid option) \<Rightarrow> string list \<Rightarrow> seal_error option" where
  "check_workspaces parse_uuid ids =
     (if ids = [] then Some NoWorkspace
      else if ids = [''*''] then None
      else first_some
        (map (\<lambda>i. if i = ''*'' then Some StarAmongIds
                  else if parse_uuid i = None then Some (NotAnId i) else None) ids))"

definition check_hosts :: "string list \<Rightarrow> seal_error option" where
  "check_hosts hs =
     (if hs = [] then Some NoHosts
      else first_some (map (\<lambda>h. if plain_host h then None else Some (NotPlainHost h)) hs))"

definition has_white :: "string \<Rightarrow> bool" where
  "has_white s \<longleftrightarrow> length (split_whitespace s) > 1 \<or> trim s \<noteq> s"

fun check_shape :: "(string \<Rightarrow> url option) \<Rightarrow> seal_binding \<Rightarrow> seal_error option" where
  "check_shape parse_url b =
     (case (sb_kind b, sb_header b, sb_token_url b) of
        (Static, Some header, None) \<Rightarrow> if trim header \<noteq> [] then None else Some StaticShape
      | (Static, _, _) \<Rightarrow> Some StaticShape
      | (Provider, None, None) \<Rightarrow> None
      | (Provider, _, _) \<Rightarrow> Some ProviderShape
      | (ServiceAccount, Some header, Some u) \<Rightarrow>
          (if \<not> eq_ignore_case header ''authorization'' then Some AccountShape
           else (case https_url parse_url u of
               Inl err \<Rightarrow> Some err
             | Inr _ \<Rightarrow>
                 (let account = (case sb_account b of Some a \<Rightarrow> a | None \<Rightarrow> []);
                      scope = (case sb_scope b of Some s \<Rightarrow> s | None \<Rightarrow> []) in
                  if account = [] \<or> CHR ''@'' \<notin> set account \<or> has_white account then Some NoAccount
                  else if trim scope = [] then Some NoScope else None)))
      | (ServiceAccount, _, _) \<Rightarrow> Some AccountShape
      | (k, None, Some u) \<Rightarrow> (case https_url parse_url u of Inl err \<Rightarrow> Some err | Inr _ \<Rightarrow> None)
      | (k, _, _) \<Rightarrow> Some ClientShape)"

definition check_person :: "seal_binding \<Rightarrow> seal_error option" where
  "check_person b =
     (if sb_user b = None then None
      else if sb_kind b \<noteq> Static then Some PersonNotStatic
      else (case sb_workspaces b of
              [only] \<Rightarrow> if only \<noteq> ''*'' then None else Some PersonManyWorkspaces
            | _ \<Rightarrow> Some PersonManyWorkspaces))"

definition check_binding ::
  "(string \<Rightarrow> uuid option) \<Rightarrow> (string \<Rightarrow> url option) \<Rightarrow> seal_binding \<Rightarrow> seal_error option" where
  "check_binding parse_uuid parse_url b =
     first_some
       [check_workspaces parse_uuid (sb_workspaces b),
        check_hosts (sb_hosts b),
        check_person b,
        (if sb_kind b \<noteq> ServiceAccount \<and> (sb_account b \<noteq> None \<or> sb_scope b \<noteq> None)
         then Some AccountElsewhere else None),
        check_shape parse_url b]"

definition allows_use ::
  "outside \<Rightarrow> seal_binding \<Rightarrow> uuid \<Rightarrow> string \<Rightarrow> string option \<Rightarrow> seal_kind \<Rightarrow> seal_error + unit" where
  "allows_use e b workspace host header k =
     (if sb_workspaces b \<noteq> [''*''] \<and>
         \<not> list_ex (\<lambda>w. eq_ignore_case w (uuid_text e workspace)) (sb_workspaces b)
      then Inl WrongWorkspace
      else if \<not> list_ex (\<lambda>h. eq_ignore_case h (trim_matches bracket host)) (sb_hosts b)
      then Inl (WrongHost (trim_matches bracket host))
      else if sb_kind b \<noteq> k then Inl WrongUse
      else if k \<in> {Static, ServiceAccount} \<and>
         \<not> (case header of
              Some h \<Rightarrow> eq_ignore_case h (case sb_header b of Some bd \<Rightarrow> bd | None \<Rightarrow> [])
            | None \<Rightarrow> False)
      then Inl (WrongHeader (case sb_header b of Some bd \<Rightarrow> bd | None \<Rightarrow> []))
      else Inr ())"

definition belongs_to :: "seal_binding \<Rightarrow> uuid option \<Rightarrow> seal_error + unit" where
  "belongs_to b asker =
     (case (sb_user b, asker) of
        (None, None) \<Rightarrow> Inr ()
      | (Some u, Some a) \<Rightarrow> if u = a then Inr () else Inl SomebodyElses
      | (Some _, None) \<Rightarrow> Inl OnlyTheirTurns
      | (None, Some _) \<Rightarrow> Inl AgentsOwn)"

definition attaches ::
  "outside \<Rightarrow> seal_binding \<Rightarrow> uuid \<Rightarrow> string \<Rightarrow> string option \<Rightarrow> seal_kind \<Rightarrow> uuid option \<Rightarrow> seal_error + unit" where
  "attaches e b workspace host header k asker =
     (case allows_use e b workspace host header k of
        Inl err \<Rightarrow> Inl err
      | Inr _ \<Rightarrow> belongs_to b asker)"

section \<open>The operator's bindings of variables\<close>

record env_entry =
  ee_workspaces :: "string list"
  ee_hosts :: "string list"
  ee_token_url :: "string option"

record env_binding =
  eb_workspaces :: "uuid list option"
  eb_hosts :: "string list"
  eb_token_url :: "string option"

type_synonym bindings = "(string \<times> env_binding) list"

datatype env_error =
    NotReadable | VariableName variable_error | StarAndIds string | BoundToNoWorkspace string
  | NotWorkspaceId string string | BoundToNoHost string | NotAHost string string | EnvNotAUrl string
  | NotBound string | NotThisWorkspace string | NotToward string string
  | BoundToExchange string | NotToEndpoint string string

fun read_all :: "('a \<Rightarrow> 'e + 'b) \<Rightarrow> 'a list \<Rightarrow> 'e + 'b list" where
  "read_all f [] = Inr []"
| "read_all f (x # xs) =
     (case f x of
        Inl err \<Rightarrow> Inl err
      | Inr y \<Rightarrow> (case read_all f xs of Inl err \<Rightarrow> Inl err | Inr ys \<Rightarrow> Inr (y # ys)))"

definition read_workspaces :: "(string \<Rightarrow> uuid option) \<Rightarrow> string \<Rightarrow> string list \<Rightarrow> env_error + uuid list option" where
  "read_workspaces parse_uuid variable ws =
     (if ''*'' \<in> set ws then (if length ws \<noteq> 1 then Inl (StarAndIds variable) else Inr None)
      else if ws = [] then Inl (BoundToNoWorkspace variable)
      else (case read_all (\<lambda>w. case parse_uuid w of Some u \<Rightarrow> Inr u | None \<Rightarrow> Inl (NotWorkspaceId variable w)) ws of
              Inl err \<Rightarrow> Inl err | Inr us \<Rightarrow> Inr (Some us)))"

definition read_host :: "string \<Rightarrow> string \<Rightarrow> env_error + string" where
  "read_host variable h =
     (let host = to_lower (trim h) in
      if host = [] \<or> list_ex (\<lambda>c. c \<in> set ''*/: '') host then Inl (NotAHost variable host) else Inr host)"

definition read_env_binding ::
  "(string \<Rightarrow> uuid option) \<Rightarrow> (string \<Rightarrow> string option) \<Rightarrow> string \<Rightarrow> env_entry \<Rightarrow> env_error + env_binding" where
  "read_env_binding parse_uuid parse_href variable entry =
     (case read_workspaces parse_uuid variable (ee_workspaces entry) of
        Inl err \<Rightarrow> Inl err
      | Inr ws \<Rightarrow>
          (if ee_hosts entry = [] then Inl (BoundToNoHost variable)
           else (case read_all (read_host variable) (ee_hosts entry) of
               Inl err \<Rightarrow> Inl err
             | Inr hs \<Rightarrow>
                 (case ee_token_url entry of
                    None \<Rightarrow> Inr \<lparr>eb_workspaces = ws, eb_hosts = hs, eb_token_url = None\<rparr>
                  | Some u \<Rightarrow>
                      (case parse_href u of
                         None \<Rightarrow> Inl (EnvNotAUrl variable)
                       | Some href \<Rightarrow>
                           Inr \<lparr>eb_workspaces = ws, eb_hosts = hs, eb_token_url = Some href\<rparr>)))))"

text \<open>A declaration's entries, read whole or not at all. \<open>parse_entries\<close> is the crate's reading of the
  text into them.\<close>

definition parse_bindings ::
  "(string \<Rightarrow> (string \<times> env_entry) list option) \<Rightarrow> (string \<Rightarrow> uuid option) \<Rightarrow> (string \<Rightarrow> string option)
     \<Rightarrow> string \<Rightarrow> env_error + bindings" where
  "parse_bindings parse_entries parse_uuid parse_href raw =
     (if trim raw = [] then Inr []
      else (case parse_entries raw of
          None \<Rightarrow> Inl NotReadable
        | Some entries \<Rightarrow>
            read_all
              (\<lambda>(variable, entry).
                 case check_credential_variable variable of
                   Inl err \<Rightarrow> Inl (VariableName err)
                 | Inr _ \<Rightarrow>
                     (case read_env_binding parse_uuid parse_href variable entry of
                        Inl err \<Rightarrow> Inl err
                      | Inr b \<Rightarrow> Inr (variable, b)))
              entries))"

definition bound_to :: "bindings \<Rightarrow> uuid \<Rightarrow> string \<Rightarrow> env_error + env_binding" where
  "bound_to bs workspace variable =
     (case map_of bs variable of
        None \<Rightarrow> Inl (NotBound variable)
      | Some b \<Rightarrow>
          (case eb_workspaces b of
             Some list1 \<Rightarrow> if workspace \<in> set list1 then Inr b else Inl (NotThisWorkspace variable)
           | None \<Rightarrow> Inr b))"

definition binding_for :: "bindings \<Rightarrow> uuid \<Rightarrow> string \<Rightarrow> string \<Rightarrow> env_error + env_binding" where
  "binding_for bs workspace variable host =
     (case bound_to bs workspace variable of
        Inl err \<Rightarrow> Inl err
      | Inr b \<Rightarrow>
          (let h = trim_matches bracket host in
           if list_ex (\<lambda>x. eq_ignore_case x h) (eb_hosts b) then Inr b else Inl (NotToward variable h)))"

definition check_static :: "bindings \<Rightarrow> uuid \<Rightarrow> string \<Rightarrow> string \<Rightarrow> env_error + unit" where
  "check_static bs workspace variable host =
     (case binding_for bs workspace variable host of
        Inl err \<Rightarrow> Inl err
      | Inr b \<Rightarrow> if eb_token_url b \<noteq> None then Inl (BoundToExchange variable) else Inr ())"

definition check_client ::
  "(string \<Rightarrow> string option) \<Rightarrow> bindings \<Rightarrow> uuid \<Rightarrow> client_credentials \<Rightarrow> string \<Rightarrow> env_error + unit" where
  "check_client parse_href bs workspace c host =
     (case parse_href (token_url c) of
        None \<Rightarrow> Inl (EnvNotAUrl (token_url c))
      | Some asked \<Rightarrow>
          (case read_all
              (\<lambda>variable.
                 case binding_for bs workspace variable host of
                   Inl err \<Rightarrow> Inl err
                 | Inr b \<Rightarrow> if eb_token_url b \<noteq> Some asked then Inl (NotToEndpoint variable asked) else Inr ())
              [client_id_env c, client_secret_env c] of
             Inl err \<Rightarrow> Inl err
           | Inr _ \<Rightarrow> Inr ()))"

definition bound_host :: "egress_rule \<Rightarrow> env_binding \<Rightarrow> string option" where
  "bound_host r b = find (\<lambda>h. host_matches (rule_host r) h) (eb_hosts b)"

definition check_bound_rule :: "(string \<Rightarrow> string option) \<Rightarrow> bindings \<Rightarrow> uuid \<Rightarrow> egress_rule \<Rightarrow> env_error + unit" where
  "check_bound_rule parse_href bs workspace r =
     (let static = (case credential_env r of
            None \<Rightarrow> Inr ()
          | Some variable \<Rightarrow>
              (case bound_to bs workspace variable of
                 Inl err \<Rightarrow> Inl err
               | Inr b \<Rightarrow>
                   (case bound_host r b of
                      None \<Rightarrow> Inl (NotToward variable (rule_host r))
                    | Some h \<Rightarrow> check_static bs workspace variable h)));
          client = (case rule_client r of
            None \<Rightarrow> Inr ()
          | Some c \<Rightarrow>
              (case bound_to bs workspace (client_id_env c) of
                 Inl err \<Rightarrow> Inl err
               | Inr b \<Rightarrow>
                   (case bound_host r b of
                      None \<Rightarrow> Inl (NotToward (client_id_env c) (rule_host r))
                    | Some h \<Rightarrow> check_client parse_href bs workspace c h)))
      in case static of Inl err \<Rightarrow> Inl err | Inr _ \<Rightarrow> client)"

section \<open>What the bindings promise\<close>

text \<open>
  A sealed credential leaves only where it was sealed to go. Where the gateway may attach one to
  an agent's request, its binding names the token's workspace and the request's host, it is one of
  the two kinds that travel on a request at all, the header is the bound one, and it belongs to
  exactly the person the rule is resolved for, or to nobody where the rule is the agent's.
\<close>
theorem sealed_credential_stays_bound:
  assumes "attaches e b workspace host header (on_a_request (sb_kind b)) asker = Inr ()"
  shows "(sb_workspaces b = [''*''] \<or> (\<exists>w \<in> set (sb_workspaces b). eq_ignore_case w (uuid_text e workspace))) \<and>
    (\<exists>h \<in> set (sb_hosts b). eq_ignore_case h (trim_matches bracket host)) \<and>
    sb_kind b \<in> {Static, ServiceAccount} \<and>
    (\<exists>h. header = Some h \<and> eq_ignore_case h (case sb_header b of Some bd \<Rightarrow> bd | None \<Rightarrow> [])) \<and>
    sb_user b = asker"
proof -
  have a: "allows_use e b workspace host header (on_a_request (sb_kind b)) = Inr ()" and o: "belongs_to b asker = Inr ()"
    using assms by (auto simp: attaches_def split: sum.splits)
  have k: "on_a_request (sb_kind b) \<in> {Static, ServiceAccount}" by (cases "sb_kind b") (simp_all add: on_a_request_def)
  have "sb_user b = asker" using o by (auto simp: belongs_to_def split: option.splits if_splits)
  moreover have "sb_kind b = on_a_request (sb_kind b)" using a by (auto simp: allows_use_def split: if_splits)
  ultimately show ?thesis
    using a k by (auto simp: allows_use_def list_ex_iff split: if_splits option.splits)
qed

definition example_seal :: seal_binding where
  "example_seal = \<lparr>sb_credential = 7, sb_kind = Static, sb_workspaces = [''*''], sb_hosts = [''ab.c''],
     sb_header = Some ''x-key'', sb_token_url = None, sb_account = None, sb_scope = None, sb_user = Some 3\<rparr>"

lemma example_attaches:
  "attaches toy_outside example_seal 1 ''ab.c'' (Some ''x-key'') (on_a_request (sb_kind example_seal)) (Some 3) = Inr ()"
  by (simp add: attaches_def allows_use_def belongs_to_def example_seal_def on_a_request_def trim_matches_def
      trim_end_matches_def trim_start_matches_def bracket_def eq_ignore_case_def)

theorem sealed_credential_stays_bound_witness: "sb_user example_seal = Some 3"
  using sealed_credential_stays_bound [OF example_attaches] by blast

lemma check_static_Inr:
  "check_static bs ws v host = Inr () \<Longrightarrow> \<exists>b. map_of bs v = Some b \<and> eb_token_url b = None"
  by (auto simp: check_static_def binding_for_def bound_to_def Let_def split: sum.splits option.splits if_splits)

lemma check_client_Inr:
  "check_client parse_href bs ws c host = Inr () \<Longrightarrow> v \<in> {client_id_env c, client_secret_env c} \<Longrightarrow>
     \<exists>b asked. map_of bs v = Some b \<and> parse_href (token_url c) = Some asked \<and> eb_token_url b = Some asked"
  by (auto simp: check_client_def binding_for_def bound_to_def Let_def split: sum.splits option.splits if_splits)

text \<open>
  A variable is either sent as it is or exchanged, never both: one a rule may send in a header is
  no half of any pair that may be exchanged, whatever workspace, host or endpoint asks, and the two
  halves of a pair that may be exchanged are bound to the one endpoint asked for.
\<close>
theorem variable_is_sent_or_exchanged:
  assumes "check_client parse_href bs ws c host = Inr ()"
  shows "check_static bs ws' (client_id_env c) host' \<noteq> Inr () \<and> check_static bs ws' (client_secret_env c) host' \<noteq> Inr () \<and>
    (\<exists>b b'. map_of bs (client_id_env c) = Some b \<and> map_of bs (client_secret_env c) = Some b' \<and>
       eb_token_url b = parse_href (token_url c) \<and> eb_token_url b' = parse_href (token_url c))"
  using check_client_Inr [OF assms, of "client_id_env c"] check_client_Inr [OF assms, of "client_secret_env c"]
    check_static_Inr [of bs ws' "client_id_env c" host'] check_static_Inr [of bs ws' "client_secret_env c" host']
  by auto

theorem variable_is_sent_or_exchanged_witness:
  "check_static [(''I'', \<lparr>eb_workspaces = None, eb_hosts = [''ab.c''], eb_token_url = Some ''u''\<rparr>),
                 (''S'', \<lparr>eb_workspaces = None, eb_hosts = [''ab.c''], eb_token_url = Some ''u''\<rparr>)] 2 ''I'' ''ab.c'' \<noteq> Inr ()"
proof -
  let ?b = "\<lparr>eb_workspaces = None, eb_hosts = [''ab.c''], eb_token_url = Some ''u''\<rparr>"
  let ?c = "\<lparr>token_url = ''u'', cc_scope = None, client_id_env = ''I'', client_secret_env = ''S'', cc_auth = Basic\<rparr>"
  have "check_client Some [(''I'', ?b), (''S'', ?b)] 1 ?c ''ab.c'' = Inr ()"
    by (simp add: check_client_def binding_for_def bound_to_def Let_def trim_matches_def
        trim_end_matches_def trim_start_matches_def bracket_def eq_ignore_case_def)
  from variable_is_sent_or_exchanged [OF this] show ?thesis by simp
qed

end
