(* ===== verification/Rbac.thy ===== *)
theory Rbac
  imports Prelude
begin

text \<open>
  Authorities and the roles the platform reserves for itself, \<open>crates/core/src/auth/rbac.rs\<close>. A set of
  authorities is a set; the vocabulary and its names are the code's, in its order.
\<close>

section \<open>The vocabulary\<close>

datatype role = SystemAdmin | Runtime | Turn | DocumentFetch

datatype authority =
    WorkspacesCreate | WorkspacesRead | WorkspacesUpdate | WorkspacesDelete | UsersCreate
    | UsersRead | UsersUpdate | UsersDelete | WorkspacesInhibit | AgentsInhibit | RolesAssign
    | RolesManage | AgentsCreate | AgentsRead | AgentsUpdate | AgentsDelete | SessionsCreate
    | SessionsRead | SessionsUpdate | SessionsDelete | SettingsRead | SettingsUpdate
    | StorageWorkspaceRead | StorageWorkspaceWrite | StorageAgentRead | StorageAgentWrite
    | SkillsRead | SkillsWrite | UsageRead | CredentialsRead | CredentialsWrite | GatewayInvoke
    | GatewayFetch | ApprovalsAnswer | ApprovalsDelegate | WorkTake

definition ALL_AUTHORITIES :: "authority list" where
  "ALL_AUTHORITIES =
     [WorkspacesCreate, WorkspacesRead, WorkspacesUpdate, WorkspacesDelete, UsersCreate,
     UsersRead, UsersUpdate, UsersDelete, RolesAssign, RolesManage, AgentsCreate, AgentsRead,
     AgentsUpdate, AgentsDelete, SessionsCreate, SessionsRead, SessionsUpdate, SessionsDelete,
     SettingsRead, SettingsUpdate, StorageWorkspaceRead, StorageWorkspaceWrite, StorageAgentRead,
     StorageAgentWrite, SkillsRead, SkillsWrite, UsageRead, CredentialsRead, CredentialsWrite,
     WorkspacesInhibit, AgentsInhibit, ApprovalsAnswer, ApprovalsDelegate, GatewayInvoke,
     GatewayFetch, WorkTake]"

fun authority_text :: "authority \<Rightarrow> string" where
  "authority_text ApprovalsAnswer = ''approvals:answer''"
| "authority_text ApprovalsDelegate = ''approvals:delegate''"
| "authority_text WorkspacesCreate = ''workspaces:create''"
| "authority_text WorkspacesRead = ''workspaces:read''"
| "authority_text WorkspacesUpdate = ''workspaces:update''"
| "authority_text WorkspacesDelete = ''workspaces:delete''"
| "authority_text UsersCreate = ''users:create''"
| "authority_text UsersRead = ''users:read''"
| "authority_text UsersUpdate = ''users:update''"
| "authority_text UsersDelete = ''users:delete''"
| "authority_text RolesAssign = ''roles:assign''"
| "authority_text RolesManage = ''roles:manage''"
| "authority_text AgentsCreate = ''agents:create''"
| "authority_text AgentsRead = ''agents:read''"
| "authority_text AgentsUpdate = ''agents:update''"
| "authority_text AgentsDelete = ''agents:delete''"
| "authority_text SessionsCreate = ''sessions:create''"
| "authority_text SessionsRead = ''sessions:read''"
| "authority_text SessionsUpdate = ''sessions:update''"
| "authority_text SessionsDelete = ''sessions:delete''"
| "authority_text SettingsRead = ''settings:read''"
| "authority_text SettingsUpdate = ''settings:update''"
| "authority_text StorageWorkspaceRead = ''storage:workspace:read''"
| "authority_text StorageWorkspaceWrite = ''storage:workspace:write''"
| "authority_text StorageAgentRead = ''storage:agent:read''"
| "authority_text StorageAgentWrite = ''storage:agent:write''"
| "authority_text SkillsRead = ''skills:read''"
| "authority_text SkillsWrite = ''skills:write''"
| "authority_text UsageRead = ''usage:read''"
| "authority_text CredentialsRead = ''credentials:read''"
| "authority_text CredentialsWrite = ''credentials:write''"
| "authority_text WorkspacesInhibit = ''workspaces:inhibit''"
| "authority_text AgentsInhibit = ''agents:inhibit''"
| "authority_text GatewayInvoke = ''gateway:invoke''"
| "authority_text GatewayFetch = ''gateway:fetch''"
| "authority_text WorkTake = ''work:take''"

fun describe :: "authority \<Rightarrow> string" where
  "describe WorkspacesCreate = ''Create workspaces''"
| "describe WorkspacesRead = ''See every workspace''"
| "describe WorkspacesUpdate = ''Rename workspaces''"
| "describe WorkspacesDelete = ''Delete workspaces''"
| "describe UsersCreate = ''Add users''"
| "describe UsersRead = ''See users and how they sign in''"
| "describe UsersUpdate = ''Change users'' @ [CHR 0x27] @ '' names and sign-ins''"
| "describe UsersDelete = ''Delete users''"
| "describe RolesAssign = ''Give roles to users and take them away''"
| "describe RolesManage = ''Create, edit and delete roles''"
| "describe AgentsCreate = ''Create agents''"
| "describe AgentsRead = ''See agents''"
| "describe AgentsUpdate = ''Edit agents''"
| "describe AgentsDelete = ''Delete agents''"
| "describe SessionsCreate = ''Start conversations and send messages''"
| "describe SessionsRead = ''Read conversations''"
| "describe SessionsUpdate = ''Rename conversations''"
| "describe SessionsDelete = ''Delete conversations''"
| "describe SettingsRead = ''See settings, including allowed hosts''"
| "describe SettingsUpdate = ''Change settings, including allowed hosts''"
| "describe StorageWorkspaceRead = ''Read files kept for the whole workspace''"
| "describe StorageWorkspaceWrite = ''Add and replace files kept for the whole workspace''"
| "describe StorageAgentRead = ''Read an agent'' @ [CHR 0x27] @ ''s files''"
| "describe StorageAgentWrite = ''Add and replace an agent'' @ [CHR 0x27] @ ''s files''"
| "describe SkillsRead = ''See skills, the workspace'' @ [CHR 0x27] @ ''s own and the operator'' @ [CHR 0x27] @ ''s''"
| "describe SkillsWrite = ''Write skills, and override or fork the operator'' @ [CHR 0x27] @ ''s''"
| "describe UsageRead = ''Read the usage ledger''"
| "describe CredentialsRead = ''See the workspace'' @ [CHR 0x27] @ ''s credentials and where each may go''"
| "describe CredentialsWrite = ''Store, rotate and revoke the workspace'' @ [CHR 0x27] @ ''s credentials''"
| "describe ApprovalsAnswer = ''Answer approvals an agent is waiting on''"
| "describe ApprovalsDelegate = ''Set policies that approve some requests without asking''"
| "describe WorkspacesInhibit = ''Stop and restart everything this workspace runs''"
| "describe AgentsInhibit = ''Stop and restart one agent''"
| "describe GatewayInvoke = ''Call a model''"
| "describe GatewayFetch = ''Fetch a document through the gateway (the API tier)''"
| "describe WorkTake = ''Take turns off the queue (the runtime tier)''"

definition workspace_assignable :: "authority \<Rightarrow> bool" where
  "workspace_assignable a \<longleftrightarrow>
     a \<notin> {WorkspacesCreate, WorkspacesRead, WorkspacesUpdate, WorkspacesDelete, WorkTake, GatewayFetch}"

definition authority_parse :: "string \<Rightarrow> authority option" where
  "authority_parse s = find (\<lambda>a. authority_text a = s) ALL_AUTHORITIES"

section \<open>Roles\<close>

definition authorities :: "role \<Rightarrow> authority set" where
  "authorities r =
     (case r of
        SystemAdmin \<Rightarrow> set (filter (\<lambda>a. a \<noteq> WorkTake) ALL_AUTHORITIES)
      | Runtime \<Rightarrow> {WorkTake}
      | Turn \<Rightarrow> {GatewayInvoke}
      | DocumentFetch \<Rightarrow> {GatewayFetch})"

fun role_text :: "role \<Rightarrow> string" where
  "role_text SystemAdmin = ''system_admin''"
| "role_text Runtime = ''runtime''"
| "role_text Turn = ''turn''"
| "role_text DocumentFetch = ''document_fetch''"

definition role_parse :: "string \<Rightarrow> role option" where
  "role_parse s =
     (if s = ''system_admin'' then Some SystemAdmin
      else if s = ''runtime'' then Some Runtime
      else if s = ''turn'' then Some Turn
      else if s = ''document_fetch'' then Some DocumentFetch
      else None)"

definition platform_authorities :: "string list \<Rightarrow> authority set" where
  "platform_authorities roles = \<Union> (authorities ` set (List.map_filter role_parse roles))"

definition is_platform_role_name :: "string \<Rightarrow> bool" where
  "is_platform_role_name name \<longleftrightarrow> role_parse name \<noteq> None"

section \<open>What they promise\<close>

lemma ALL_AUTHORITIES_complete: "a \<in> set ALL_AUTHORITIES"
  by (cases a) (simp_all add: ALL_AUTHORITIES_def)

lemma authority_text_distinct: "distinct (map authority_text ALL_AUTHORITIES)"
  by code_simp

lemma authority_text_inj: "authority_text a = authority_text b \<Longrightarrow> a = b"
  using authority_text_distinct ALL_AUTHORITIES_complete by (auto simp: distinct_map inj_on_def)

text \<open>
  The names of the authorities are a code for them: every authority is listed, exactly once, and
  reading a text gives an authority exactly when the text is that authority's name.
\<close>
lemma authority_parse_Some:
  "authority_parse s = Some a \<longleftrightarrow> s = authority_text a"
proof
  assume "authority_parse s = Some a"
  then show "s = authority_text a" by (auto simp: authority_parse_def find_Some_iff)
next
  assume s: "s = authority_text a"
  obtain b where b: "authority_parse s = Some b"
    using ALL_AUTHORITIES_complete [of a] s by (cases "authority_parse s") (auto simp: authority_parse_def find_None_iff)
  then have "authority_text b = s" by (auto simp: authority_parse_def find_Some_iff)
  then show "authority_parse s = Some a" using b s authority_text_inj by auto
qed

lemma role_parse_iff: "role_parse s = Some r \<longleftrightarrow> s = role_text r"
  by (cases r) (auto simp: role_parse_def)

lemma platform_authorities_iff:
  "a \<in> platform_authorities roles \<longleftrightarrow> (\<exists>r. role_text r \<in> set roles \<and> a \<in> authorities r)"
proof -
  have "set (List.map_filter role_parse roles) = {r. role_text r \<in> set roles}"
    by (auto simp: in_map_filter role_parse_iff)
  then show ?thesis by (auto simp: platform_authorities_def)
qed

text \<open>
  Who may do what at the platform's own doors. Taking work needs the runtime's role and no other
  carries it; calling the gateway as a turn needs the turn's role or the system administrator's,
  and fetching a document the document role or the administrator's; a list of roles none of which is
  the platform's carries nothing; and no workspace may put taking work or fetching in a role of its
  own, though it may name \<open>gateway:invoke\<close> there.
\<close>
theorem platform_doors:
  "(WorkTake \<in> platform_authorities roles \<longleftrightarrow> ''runtime'' \<in> set roles) \<and>
   (GatewayInvoke \<in> platform_authorities roles \<longleftrightarrow> ''turn'' \<in> set roles \<or> ''system_admin'' \<in> set roles) \<and>
   (GatewayFetch \<in> platform_authorities roles \<longleftrightarrow> ''document_fetch'' \<in> set roles \<or> ''system_admin'' \<in> set roles) \<and>
   (platform_authorities roles = {} \<longleftrightarrow> \<not> list_ex is_platform_role_name roles) \<and>
   \<not> workspace_assignable WorkTake \<and> \<not> workspace_assignable GatewayFetch \<and> workspace_assignable GatewayInvoke"
proof -
  have name: "is_platform_role_name x \<longleftrightarrow> (\<exists>r. x = role_text r)" for x
    unfolding is_platform_role_name_def using role_parse_iff [of x] by blast
  have who: "WorkTake \<in> authorities r \<longleftrightarrow> r = Runtime" "GatewayInvoke \<in> authorities r \<longleftrightarrow> r = Turn \<or> r = SystemAdmin"
    "GatewayFetch \<in> authorities r \<longleftrightarrow> r = DocumentFetch \<or> r = SystemAdmin" "authorities r \<noteq> {}" for r
    by (cases r; simp add: authorities_def ALL_AUTHORITIES_def; fail)+
  have some: "\<exists>a. a \<in> authorities r" for r using who(4) [of r] by blast
  have "(\<exists>a. a \<in> platform_authorities roles) \<longleftrightarrow> (\<exists>r. role_text r \<in> set roles)"
    unfolding platform_authorities_iff using some by blast
  then have "platform_authorities roles = {} \<longleftrightarrow> (\<forall>r. role_text r \<notin> set roles)"
    unfolding ex_in_conv by blast
  then have none: "platform_authorities roles = {} \<longleftrightarrow> \<not> list_ex is_platform_role_name roles"
    unfolding list_ex_iff name by blast
  have "WorkTake \<in> platform_authorities roles \<longleftrightarrow> ''runtime'' \<in> set roles"
    by (simp add: platform_authorities_iff who)
  moreover have "GatewayInvoke \<in> platform_authorities roles \<longleftrightarrow> ''turn'' \<in> set roles \<or> ''system_admin'' \<in> set roles"
    unfolding platform_authorities_iff who by (metis role_text.simps(1,3))
  moreover have "GatewayFetch \<in> platform_authorities roles \<longleftrightarrow> ''document_fetch'' \<in> set roles \<or> ''system_admin'' \<in> set roles"
    unfolding platform_authorities_iff who by (metis role_text.simps(1,4))
  ultimately show ?thesis
    using none by (simp add: workspace_assignable_def)
qed

end
