(* ===== verification/Token.thy ===== *)
theory Token
  imports External Rbac
begin

text \<open>
  What a verified token says about its bearer, \<open>crates/core/src/auth/token.rs\<close>: the claims, their
  writing into a token's payload and their reading out of one, and the platform's authorities among
  them. Signing, verifying and the registered claims a verifier checks itself are the PASETO crate's;
  what is modelled starts at the payload it vouches for.
\<close>

section \<open>Claims\<close>

record session_claims =
  claim_subject :: uuid
  claim_workspace :: uuid
  claim_roles :: "string list"
  claim_egress :: "bytes option"
  claim_gates :: "bytes option"
  claim_family :: "uuid option"
  claim_asker :: "uuid option"

datatype auth_error = Missing | Invalid | Expired | Forbidden | Internal string

definition egress_commitment :: "session_claims \<Rightarrow> auth_error + bytes" where
  "egress_commitment c = (case claim_egress c of Some h \<Rightarrow> Inr h | None \<Rightarrow> Inl Invalid)"

definition gate_commitment :: "session_claims \<Rightarrow> auth_error + bytes" where
  "gate_commitment c = (case claim_gates c of Some h \<Rightarrow> Inr h | None \<Rightarrow> Inl Invalid)"

section \<open>A hash as JSON\<close>

text \<open>\<open>hex_bytes\<close>: 64 characters of hex for 32 bytes, either case read.\<close>

definition hash_of_json :: "json \<Rightarrow> bytes option" where
  "hash_of_json v =
     (case as_str v of
        Some t \<Rightarrow> (case hex_decode t of Some b \<Rightarrow> if length b = 32 then Some b else None | None \<Rightarrow> None)
      | None \<Rightarrow> None)"

definition json_of_hash :: "bytes \<Rightarrow> json" where
  "json_of_hash h = JStr (hex_encode h)"

section \<open>Writing and reading a payload\<close>

definition SUBJECT :: string where "SUBJECT = ''sub''"
definition WORKSPACE :: string where "WORKSPACE = ''wid''"
definition SCOPE :: string where "SCOPE = ''scp''"
definition EGRESS :: string where "EGRESS = ''egr''"
definition GATES :: string where "GATES = ''gat''"
definition FAMILY :: string where "FAMILY = ''fam''"
definition ASKER :: string where "ASKER = ''ask''"

lemmas claim_names = SUBJECT_def WORKSPACE_def SCOPE_def EGRESS_def GATES_def FAMILY_def ASKER_def

definition add_option :: "string \<Rightarrow> json option \<Rightarrow> object \<Rightarrow> object" where
  "add_option k v payload = (case v of Some x \<Rightarrow> obj_insert k x payload | None \<Rightarrow> payload)"

text \<open>The claims \<open>mint_claims\<close> adds to a payload that holds the registered ones.\<close>

definition mint_claims :: "outside \<Rightarrow> session_claims \<Rightarrow> object \<Rightarrow> object" where
  "mint_claims e c registered =
     add_option ASKER (map_option (\<lambda>u. JStr (uuid_text e u)) (claim_asker c))
       (add_option FAMILY (map_option (\<lambda>u. JStr (uuid_text e u)) (claim_family c))
         (add_option GATES (map_option json_of_hash (claim_gates c))
           (add_option EGRESS (map_option json_of_hash (claim_egress c))
             (obj_insert SCOPE (JArr (map JStr (claim_roles c)))
               (obj_insert WORKSPACE (JStr (uuid_text e (claim_workspace c)))
                 (obj_insert SUBJECT (JStr (uuid_text e (claim_subject c))) registered))))))"

text \<open>A claim that must be there, and one that may be absent or null but never malformed.\<close>

definition uuid_claim :: "(string \<Rightarrow> uuid option) \<Rightarrow> json option \<Rightarrow> auth_error + uuid" where
  "uuid_claim parse_uuid v =
     (case (case v of Some x \<Rightarrow> as_str x | None \<Rightarrow> None) of
        None \<Rightarrow> Inl Invalid
      | Some s \<Rightarrow> (case parse_uuid s of Some u \<Rightarrow> Inr u | None \<Rightarrow> Inl Invalid))"

definition optional_claim :: "(json \<Rightarrow> 'a option) \<Rightarrow> json option \<Rightarrow> auth_error + 'a option" where
  "optional_claim rd v =
     (case v of
        None \<Rightarrow> Inr None
      | Some x \<Rightarrow> if is_null x then Inr None
                  else (case rd x of Some y \<Rightarrow> Inr (Some y) | None \<Rightarrow> Inl Invalid))"

definition roles_claim :: "json option \<Rightarrow> auth_error + string list" where
  "roles_claim v =
     (case v of
        Some (JArr l) \<Rightarrow>
          (let roles = filter (\<lambda>r. r \<noteq> []) (List.map_filter as_str l) in
           if roles = [] then Inl Invalid else Inr roles)
      | _ \<Rightarrow> Inl Invalid)"

definition uuid_of_json :: "(string \<Rightarrow> uuid option) \<Rightarrow> json \<Rightarrow> uuid option" where
  "uuid_of_json parse_uuid v = (case as_str v of Some s \<Rightarrow> parse_uuid s | None \<Rightarrow> None)"

definition read_claims :: "(string \<Rightarrow> uuid option) \<Rightarrow> json \<Rightarrow> auth_error + session_claims" where
  "read_claims parse_uuid parsed =
     (case uuid_claim parse_uuid (json_get parsed SUBJECT) of Inl err \<Rightarrow> Inl err | Inr sub \<Rightarrow>
     (case uuid_claim parse_uuid (json_get parsed WORKSPACE) of Inl err \<Rightarrow> Inl err | Inr wid \<Rightarrow>
     (case roles_claim (json_get parsed SCOPE) of Inl err \<Rightarrow> Inl err | Inr roles \<Rightarrow>
     (case optional_claim hash_of_json (json_get parsed EGRESS) of Inl err \<Rightarrow> Inl err | Inr egr \<Rightarrow>
     (case optional_claim hash_of_json (json_get parsed GATES) of Inl err \<Rightarrow> Inl err | Inr gat \<Rightarrow>
     (case optional_claim (uuid_of_json parse_uuid) (json_get parsed FAMILY) of Inl err \<Rightarrow> Inl err | Inr fam \<Rightarrow>
     (case optional_claim (uuid_of_json parse_uuid) (json_get parsed ASKER) of Inl err \<Rightarrow> Inl err | Inr ask \<Rightarrow>
        Inr \<lparr>claim_subject = sub, claim_workspace = wid, claim_roles = roles, claim_egress = egr,
             claim_gates = gat, claim_family = fam, claim_asker = ask\<rparr>)))))))"

section \<open>The platform's authorities among them\<close>

definition has_platform_authority :: "session_claims \<Rightarrow> authority \<Rightarrow> bool" where
  "has_platform_authority c a \<longleftrightarrow> a \<in> platform_authorities (claim_roles c)"

definition require_platform :: "session_claims \<Rightarrow> authority \<Rightarrow> auth_error + unit" where
  "require_platform c a = (if has_platform_authority c a then Inr () else Inl Forbidden)"

definition is_system_admin :: "session_claims \<Rightarrow> bool" where
  "is_system_admin c \<longleftrightarrow> ''system_admin'' \<in> set (claim_roles c)"

text \<open>The bearer's token out of an \<open>Authorization\<close> header that is text.\<close>

definition extract_bearer :: "string option \<Rightarrow> auth_error + string" where
  "extract_bearer value =
     (case value of
        None \<Rightarrow> Inl Missing
      | Some v \<Rightarrow>
          (case split_once (CHR '' '') v of
             None \<Rightarrow> Inl Missing
           | Some (scheme, token) \<Rightarrow> if eq_ignore_case scheme ''bearer'' then Inr token else Inl Missing))"

section \<open>A token reads back as it was minted\<close>

lemma hash_json [simp]: "length h = 32 \<Longrightarrow> hash_of_json (json_of_hash h) = Some h"
  by (simp add: hash_of_json_def json_of_hash_def)

lemma json_of_hash_null [simp]: "\<not> is_null (json_of_hash h)"
  by (simp add: json_of_hash_def)

lemma hash_claim: "(case v of Some h \<Rightarrow> length h = 32 | None \<Rightarrow> True) \<Longrightarrow>
    optional_claim hash_of_json (map_option json_of_hash v) = Inr v"
  by (cases v) (simp_all add: optional_claim_def)

lemma map_filter_strings: "List.map_filter as_str (map JStr rs) = rs"
  by (induction rs) (simp_all add: map_filter_simps)

lemma optional_claim_read:
  "(\<And>x. v = Some x \<Longrightarrow> rd (wr x) = Some x) \<Longrightarrow> (\<And>x. \<not> is_null (wr x)) \<Longrightarrow>
     optional_claim rd (map_option wr v) = Inr v"
  by (cases v) (auto simp: optional_claim_def)

lemma obj_get_add_option [simp]:
  "obj_get (add_option k v o1) k' = (if k' = k \<and> v \<noteq> None then v else obj_get o1 k')"
  by (auto simp: add_option_def split: option.split)

definition claims_wf :: "session_claims \<Rightarrow> bool" where
  "claims_wf c \<longleftrightarrow> claim_roles c \<noteq> [] \<and> [] \<notin> set (claim_roles c) \<and>
     (case claim_egress c of Some h \<Rightarrow> length h = 32 | None \<Rightarrow> True) \<and>
     (case claim_gates c of Some h \<Rightarrow> length h = 32 | None \<Rightarrow> True)"

text \<open>
  A token says what it was minted to say. Claims written into a payload that holds none of the
  platform's own names read back exactly; in particular a commitment that was not made reads as
  absent, never as the commitment to nothing, and a turn with no asker reads as having none.
\<close>
theorem claims_read_back:
  assumes "claims_wf c"
    and "\<forall>u \<in> {claim_subject c, claim_workspace c} \<union> set_option (claim_family c) \<union> set_option (claim_asker c).
      parse_uuid (uuid_text e u) = Some u"
    and "\<forall>k \<in> {EGRESS, GATES, FAMILY, ASKER}. obj_get registered k = None"
  shows "read_claims parse_uuid (JObj (mint_claims e c registered)) = Inr c"
proof -
  let ?p = "mint_claims e c registered"
  have get: "obj_get ?p SUBJECT = Some (JStr (uuid_text e (claim_subject c)))"
    "obj_get ?p WORKSPACE = Some (JStr (uuid_text e (claim_workspace c)))"
    "obj_get ?p SCOPE = Some (JArr (map JStr (claim_roles c)))"
    "obj_get ?p EGRESS = map_option json_of_hash (claim_egress c)"
    "obj_get ?p GATES = map_option json_of_hash (claim_gates c)"
    "obj_get ?p FAMILY = map_option (\<lambda>u. JStr (uuid_text e u)) (claim_family c)"
    "obj_get ?p ASKER = map_option (\<lambda>u. JStr (uuid_text e u)) (claim_asker c)"
    using assms(3) by (simp_all add: mint_claims_def claim_names)
  have roles: "roles_claim (Some (JArr (map JStr (claim_roles c)))) = Inr (claim_roles c)"
  proof -
    have "filter (\<lambda>r. r \<noteq> []) (claim_roles c) = claim_roles c"
      using assms(1) by (auto simp: claims_wf_def filter_id_conv)
    then show ?thesis using assms(1) by (simp add: roles_claim_def map_filter_strings claims_wf_def)
  qed
  have hashes: "optional_claim hash_of_json (map_option json_of_hash (claim_egress c)) = Inr (claim_egress c)"
    "optional_claim hash_of_json (map_option json_of_hash (claim_gates c)) = Inr (claim_gates c)"
    using assms(1) by (simp_all add: claims_wf_def hash_claim)
  have ids: "optional_claim (uuid_of_json parse_uuid) (map_option (\<lambda>u. JStr (uuid_text e u)) v) = Inr v"
    if "v = claim_family c \<or> v = claim_asker c" for v
    using assms(2) that by (intro optional_claim_read) (auto simp: uuid_of_json_def)
  show ?thesis
    using assms(2) by (simp add: read_claims_def get roles hashes ids uuid_claim_def)
qed

text \<open>A turn's token: no browser session, nobody asking, and both commitments made.\<close>

definition turn_claims :: session_claims where
  "turn_claims = \<lparr>claim_subject = 2, claim_workspace = 1, claim_roles = [''turn''],
     claim_egress = Some (replicate 32 (CHR ''e'')), claim_gates = Some (replicate 32 (CHR ''g'')),
     claim_family = None, claim_asker = None\<rparr>"

theorem claims_read_back_witness:
  "read_claims (\<lambda>s. if s = uuid_text toy_outside 1 then Some 1 else if s = uuid_text toy_outside 2 then Some 2 else None)
     (JObj (mint_claims toy_outside turn_claims [])) = Inr turn_claims"
proof -
  have "uuid_text toy_outside 1 \<noteq> uuid_text toy_outside 2" by (simp add: uuid_formsD)
  then show ?thesis
    by (intro claims_read_back) (auto simp: turn_claims_def claims_wf_def)
qed

end
