(* ===== verification/Gateway.thy ===== *)
theory Gateway
  imports Gates Credentials Token
begin

text \<open>
  The gateway's egress path, \<open>crates/gateway/src/egress/mod.rs\<close>: everything between a request the
  runtime asks for and the one that is sent. \<open>vet_and_send\<close> is one function in the source; its
  stages are definitions here, composed in its order. What the gateway asks of the world outside
  (the resolver, its environment, its sealed store, a token endpoint, the signer) is a record of
  answers, and the two tables of automatic approvals are its one piece of state.
\<close>

section \<open>Data\<close>

record opened_seal =
  os_binding :: seal_binding
  os_secret :: bytes
  os_fingerprint :: string

record egress_request =
  rq_method :: string
  rq_url :: string
  rq_gates :: gate_set
  rq_headers :: "(string \<times> string) list"
  rq_body :: "string option"
  rq_body_size :: "nat option"
  rq_proof :: proof_shape

text \<open>What is outside: a parsed URL's accessors and serialization, the header crate's readings, and
  the answers of the resolver, the environment, the sealed store, the token endpoints and the
  signer. A failed exchange says whether the configuration was at fault.\<close>

record gateway_world =
  gw_outside :: outside
  parse_url :: "string \<Rightarrow> url option"
  parse_href :: "string \<Rightarrow> string option"
  policy_bytes :: "policy_grant \<Rightarrow> bytes"
  lookup_host :: "string \<Rightarrow> nat \<Rightarrow> (ip \<times> nat) list option"
  env_var :: "string \<Rightarrow> string option"
  header_name :: "string \<Rightarrow> string option"
  header_value :: "string \<Rightarrow> bool"
  sealed_get :: "uuid \<Rightarrow> string + opened_seal"
  service_account :: "uuid \<Rightarrow> egress_rule \<Rightarrow> opened_seal \<Rightarrow> (bool \<times> string) + string"
  client_bearer :: "uuid \<Rightarrow> egress_rule \<Rightarrow> client_credentials \<Rightarrow> (bool \<times> string) + string"
  sign_assertion :: "(string \<Rightarrow> uuid \<Rightarrow> uuid \<Rightarrow> string) option"
  gw_internal :: internal
  gw_bindings :: bindings
  has_database :: bool

text \<open>A refusal is a status and a reason, one constructor for each of the source's.\<close>

datatype why =
    BadToken auth_error | NoCommitment | ProofRefused invalid | UnknownMethod string | DocumentOnly
  | NotAUrlSent | RuleRefused refused | SomebodyElsesTurn string | NotTheAskers string
  | NotConnected string | NoVouching string | NoSigner string | NoGateStatement | OtherGates
  | Unreadable string path_error | MissingField string string | FileNeedsApproval
  | NeedsApproval string | NoPort | PlainText string | HeaderName string | HeaderValue string
  | EnvRefused env_error | VariableRefused variable_error | NotConfigured string
  | TwoCredentials string | NoHeader string | SealUnavailable string | SealRefused seal_error
  | ExchangeFailed string

type_synonym refusal = "nat \<times> why"

record vetted_request =
  v_method :: string
  v_url :: url
  v_host :: string
  v_addrs :: "(ip \<times> nat) list"
  v_headers :: "(string \<times> string) list"
  v_body :: "string option"
  v_file :: bool
  v_document :: bool
  v_fingerprint :: "string option"

section \<open>Who is calling\<close>

fun auth_status :: "auth_error \<Rightarrow> nat" where
  "auth_status Forbidden = 403"
| "auth_status _ = 401"

text \<open>\<open>authenticate_for\<close> of \<open>crates/gateway/src/router.rs\<close>, on what validating the bearer's token
  answered.\<close>

definition authenticate_for :: "auth_error + session_claims \<Rightarrow> authority \<Rightarrow> refusal + session_claims" where
  "authenticate_for validated a =
     try_step (map_error (\<lambda>err. (auth_status err, BadToken err)) validated)
       (\<lambda>c. try_step (map_error (\<lambda>err. (403, BadToken err)) (require_platform c a)) (\<lambda>_. Inr c))"

definition caller_of :: "auth_error + session_claims \<Rightarrow> refusal + session_claims" where
  "caller_of validated =
     (case authenticate_for validated GatewayInvoke of
        Inr c \<Rightarrow> Inr c
      | Inl refusal \<Rightarrow>
          (case authenticate_for validated GatewayFetch of Inr c \<Rightarrow> Inr c | Inl _ \<Rightarrow> Inl refusal))"

definition is_document :: "session_claims \<Rightarrow> bool" where
  "is_document c \<longleftrightarrow> \<not> has_platform_authority c GatewayInvoke"

section \<open>What is asked for, and by which rule\<close>

text \<open>From the commitment to the rule that matches: the method, the URL, the host and the rule.\<close>

definition vet_target ::
  "gateway_world \<Rightarrow> session_claims \<Rightarrow> egress_request \<Rightarrow> bool \<Rightarrow> refusal + string \<times> url \<times> string \<times> egress_rule" where
  "vet_target w c rq has_file =
     try_step (map_error (\<lambda>_. (403, NoCommitment)) (egress_commitment c)) (\<lambda>committed.
     try_step (map_error (\<lambda>err. (403, ProofRefused err))
       (verify (gw_outside w) (claim_workspace c) committed (rq_proof rq))) (\<lambda>vouched.
     let meth = to_upper (rq_method rq) in
     try_step (check_that (meth \<in> set METHODS) (400, UnknownMethod meth)) (\<lambda>_.
     try_step (check_that (\<not> (is_document c \<and> meth \<noteq> ''GET'')) (403, DocumentOnly)) (\<lambda>_.
     try_step (case parse_url w (rq_url rq) of Some u \<Rightarrow> Inr u | None \<Rightarrow> Inl (400, NotAUrlSent)) (\<lambda>u.
     try_step (check_that (\<not> (has_file \<and> is_document c)) (403, DocumentOnly)) (\<lambda>_.
     try_step (map_error (\<lambda>err. (403, RuleRefused err)) (check_url vouched u)) (\<lambda>(host, r).
     Inr (meth, u, host, r))))))))"

text \<open>A rule whose connection is the asker's.\<close>

definition vet_asker :: "session_claims \<Rightarrow> egress_rule \<Rightarrow> string \<Rightarrow> refusal + unit" where
  "vet_asker c r host =
     (case rule_asker r of
        None \<Rightarrow> Inr ()
      | Some asker \<Rightarrow>
          try_step (check_that (claim_asker c = Some asker) (403, SomebodyElsesTurn host)) (\<lambda>_.
          try_step (check_that (credential_env r = None \<and> rule_client r = None) (403, NotTheAskers host)) (\<lambda>_.
          check_that (rule_credential r \<noteq> None) (403, NotConnected host))))"

text \<open>The statement of who is asking, for a rule that sends one.\<close>

definition vet_on_behalf :: "gateway_world \<Rightarrow> session_claims \<Rightarrow> egress_rule \<Rightarrow> string \<Rightarrow> refusal + string option" where
  "vet_on_behalf w c r host =
     (case (on_behalf_of r, claim_asker c) of
        (True, Some asker) \<Rightarrow>
          try_step (check_that (\<not> (rule_asker r \<noteq> None \<or> \<not> carries_credential r)) (403, NoVouching host)) (\<lambda>_.
          (case sign_assertion w of
             None \<Rightarrow> Inl (403, NoSigner host)
           | Some sign \<Rightarrow> Inr (Some (sign host (claim_workspace c) asker))))
      | _ \<Rightarrow> Inr None)"

section \<open>The gates\<close>

definition readable_gate :: "outside \<Rightarrow> string \<Rightarrow> string option \<Rightarrow> gate \<Rightarrow> refusal option" where
  "readable_gate e path body g =
     (case path_values (gate_path g) path of
        Inl err \<Rightarrow> Some (400, Unreadable (gate_requires g) err)
      | Inr _ \<Rightarrow>
          (case missing_bound_field e g path body of
             Some field \<Rightarrow> Some (400, MissingField field (gate_requires g))
           | None \<Rightarrow> None))"

text \<open>The set is the one the token speaks of, and every covering gate can be read in the request.\<close>

definition vet_gates :: "gateway_world \<Rightarrow> session_claims \<Rightarrow> egress_request \<Rightarrow> string \<Rightarrow> string \<Rightarrow> url \<Rightarrow> refusal + unit" where
  "vet_gates w c rq host meth u =
     try_step (map_error (\<lambda>_. (403, NoGateStatement)) (gate_commitment c)) (\<lambda>gated.
     try_step (check_that (gates_match (gw_outside w) (policy_bytes w) (claim_workspace c) (rq_gates rq) gated)
       (403, OtherGates)) (\<lambda>_.
     (case first_some (map (readable_gate (gw_outside w) (url_path u) (rq_body rq))
         (covering_all (rq_gates rq) host meth (url_path u))) of
        Some refusal \<Rightarrow> Inl refusal
      | None \<Rightarrow> Inr ())))"

type_synonym admission = "gate \<times> policy_grant \<times> admitted"

definition by_policy :: "gateway_world \<Rightarrow> uuid \<Rightarrow> egress_request \<Rightarrow> url \<Rightarrow> gate \<Rightarrow> admission option" where
  "by_policy w ws rq u g =
     (case policy_for (gw_outside w) (rq_gates rq) ws g of
        None \<Rightarrow> None
      | Some p \<Rightarrow>
          map_option (\<lambda>a. (g, p, a))
            (admits (gw_outside w) p ws g (url_path u) (url_query u) (rq_body rq)))"

text \<open>The loop over the covering gates: \<open>Inl\<close> the first nothing satisfies, else what policies let
  through.\<close>

fun satisfy_gates :: "(gate \<Rightarrow> bool) \<Rightarrow> (gate \<Rightarrow> admission option) \<Rightarrow> gate list \<Rightarrow> gate + admission list" where
  "satisfy_gates granted_by policy_says [] = Inr []"
| "satisfy_gates granted_by policy_says (g # gs) =
     (if granted_by g then satisfy_gates granted_by policy_says gs
      else
        (case policy_says g of
           None \<Rightarrow> Inl g
         | Some yes \<Rightarrow>
             (case satisfy_gates granted_by policy_says gs of
                Inl refusing \<Rightarrow> Inl refusing
              | Inr rest \<Rightarrow> Inr (yes # rest))))"

definition admit_gates ::
  "gateway_world \<Rightarrow> session_claims \<Rightarrow> egress_request \<Rightarrow> bool \<Rightarrow> string \<Rightarrow> string \<Rightarrow> url \<Rightarrow> refusal + admission list" where
  "admit_gates w c rq has_file host meth u =
     (if covering (rq_gates rq) host meth (url_path u) = None then Inr []
      else if has_file then Inl (400, FileNeedsApproval)
      else
        (case satisfy_gates
            (\<lambda>g. permitted (gw_outside w) (rq_gates rq) g meth host (url_path u) (rq_body rq) \<noteq> None)
            (by_policy w (claim_workspace c) rq u)
            (covering_all (rq_gates rq) host meth (url_path u)) of
           Inl g \<Rightarrow> Inl (403, NeedsApproval (gate_requires g))
         | Inr yes \<Rightarrow> Inr yes))"

section \<open>Where it goes\<close>

definition may_carry_credential :: "egress_rule \<Rightarrow> string \<Rightarrow> bool \<Rightarrow> bool" where
  "may_carry_credential r scheme operator_opened \<longleftrightarrow>
     \<not> carries_credential r \<or> scheme = ''https'' \<or> operator_opened"

definition vet_connection :: "gateway_world \<Rightarrow> egress_rule \<Rightarrow> string \<Rightarrow> url \<Rightarrow> refusal + (ip \<times> nat) list" where
  "vet_connection w r host u =
     (case url_port u of
        None \<Rightarrow> Inl (400, NoPort)
      | Some port \<Rightarrow>
          (let opened = internal_allows (gw_internal w) host port in
           try_step (check_that (may_carry_credential r (url_scheme u) opened) (403, PlainText host)) (\<lambda>_.
           map_error (\<lambda>err. (403, RuleRefused err))
             (if opened then resolve (lookup_host w) host port
              else resolve_and_vet (lookup_host w) host port))))"

section \<open>What travels with it\<close>

text \<open>A header map: one value to a name, a later one in place of an earlier.\<close>

type_synonym headers = "(string \<times> string) list"

definition set_header :: "string \<Rightarrow> string \<Rightarrow> headers \<Rightarrow> headers" where
  "set_header name v hs = filter (\<lambda>(n, _). n \<noteq> name) hs @ [(name, v)]"

text \<open>The caller's own headers, none of which may be reserved.\<close>

fun caller_headers :: "gateway_world \<Rightarrow> (string \<times> string) list \<Rightarrow> headers \<Rightarrow> refusal + headers" where
  "caller_headers w [] out = Inr out"
| "caller_headers w ((name, v) # rest) out =
     try_step (map_error (\<lambda>err. (403, RuleRefused err)) (check_header name)) (\<lambda>_.
     try_step (case header_name w name of Some n \<Rightarrow> Inr n | None \<Rightarrow> Inl (400, HeaderName name)) (\<lambda>n.
     try_step (check_that (header_value w v) (400, HeaderValue name)) (\<lambda>_.
     caller_headers w rest (set_header n v out))))"

text \<open>A value put in a header by its written name; a failure is the deployment's.\<close>

definition attach_header :: "gateway_world \<Rightarrow> string \<Rightarrow> string \<Rightarrow> headers \<Rightarrow> refusal + headers" where
  "attach_header w name v out =
     (case header_name w name of
        None \<Rightarrow> Inl (500, HeaderName name)
      | Some n \<Rightarrow> if header_value w v then Inr (set_header n v out) else Inl (500, HeaderValue name))"

definition static_credential ::
  "gateway_world \<Rightarrow> session_claims \<Rightarrow> egress_rule \<Rightarrow> string \<Rightarrow> headers \<Rightarrow> refusal + headers" where
  "static_credential w c r host out =
     (case (rule_header r, credential_env r) of
        (Some header, Some variable) \<Rightarrow>
          try_step (map_error (\<lambda>err. (403, VariableRefused err)) (check_credential_variable variable)) (\<lambda>_.
          try_step (map_error (\<lambda>err. (403, EnvRefused err))
            (check_static (gw_bindings w) (claim_workspace c) variable host)) (\<lambda>_.
          (case env_var w variable of
             None \<Rightarrow> Inl (403, NotConfigured variable)
           | Some secret \<Rightarrow> attach_header w header secret out)))
      | _ \<Rightarrow> Inr out)"

definition exchange_status :: "bool \<times> string \<Rightarrow> refusal" where
  "exchange_status failed = (if fst failed then (403, ExchangeFailed (snd failed)) else (502, ExchangeFailed (snd failed)))"

text \<open>A sealed credential, and the fingerprint of the one sent.\<close>

definition sealed_credential ::
  "gateway_world \<Rightarrow> session_claims \<Rightarrow> egress_rule \<Rightarrow> string \<Rightarrow> headers \<Rightarrow> refusal + headers \<times> string option" where
  "sealed_credential w c r host out =
     (case rule_credential r of
        None \<Rightarrow> Inr (out, None)
      | Some i \<Rightarrow>
          try_step (check_that (credential_env r = None \<and> rule_client r = None) (403, TwoCredentials host)) (\<lambda>_.
          try_step (case rule_header r of Some h \<Rightarrow> Inr h | None \<Rightarrow> Inl (403, NoHeader host)) (\<lambda>header.
          try_step (map_error (\<lambda>err. (403, SealUnavailable err)) (sealed_get w i)) (\<lambda>opened.
          let kind = on_a_request (sb_kind (os_binding opened)) in
          try_step (map_error (\<lambda>err. (403, SealRefused err))
            (attaches (gw_outside w) (os_binding opened) (claim_workspace c) host (Some header) kind (rule_asker r))) (\<lambda>_.
          try_step (case header_name w header of Some n \<Rightarrow> Inr n | None \<Rightarrow> Inl (500, HeaderName header)) (\<lambda>n.
          try_step (if kind = ServiceAccount
            then map_error exchange_status
              (try_step (service_account w (claim_workspace c) r opened) (\<lambda>token. Inr (''Bearer '' @ token)))
            else Inr (os_secret opened)) (\<lambda>v.
          try_step (check_that (header_value w v) (500, HeaderValue header)) (\<lambda>_.
          Inr (set_header n v out, Some (os_fingerprint opened))))))))))"

definition client_credential ::
  "gateway_world \<Rightarrow> session_claims \<Rightarrow> egress_rule \<Rightarrow> string \<Rightarrow> headers \<Rightarrow> refusal + headers" where
  "client_credential w c r host out =
     (case rule_client r of
        None \<Rightarrow> Inr out
      | Some client \<Rightarrow>
          try_step (check_that (rule_header r = None \<and> credential_env r = None) (403, TwoCredentials host)) (\<lambda>_.
          try_step (map_error (\<lambda>err. (403, EnvRefused err))
            (check_client (parse_href w) (gw_bindings w) (claim_workspace c) client host)) (\<lambda>_.
          try_step (map_error exchange_status (client_bearer w (claim_workspace c) r client)) (\<lambda>token.
          try_step (check_that (header_value w (''Bearer '' @ token)) (502, HeaderValue ''authorization'')) (\<lambda>_.
          Inr (set_header ''authorization'' (''Bearer '' @ token) out))))))"

text \<open>All of them in order, the gateway's own last so that nothing the caller sent displaces them.\<close>

definition outgoing_headers ::
  "gateway_world \<Rightarrow> session_claims \<Rightarrow> egress_request \<Rightarrow> egress_rule \<Rightarrow> string \<Rightarrow> string option
     \<Rightarrow> refusal + headers \<times> string option" where
  "outgoing_headers w c rq r host assertion =
     try_step (caller_headers w (rq_headers rq) []) (\<lambda>h1.
     try_step (static_credential w c r host h1) (\<lambda>h2.
     try_step (sealed_credential w c r host h2) (\<lambda>(h3, fp).
     try_step (client_credential w c r host h3) (\<lambda>h4.
     Inr (case assertion of Some a \<Rightarrow> set_header ON_BEHALF_HEADER a h4 | None \<Rightarrow> h4, fp)))))"

section \<open>Recorded, then sent\<close>

definition record_of :: "session_claims \<Rightarrow> string \<Rightarrow> string \<Rightarrow> url \<Rightarrow> admission \<Rightarrow> approval_record" where
  "record_of c meth host u adm =
     (case adm of (g, p, a) \<Rightarrow>
        \<lparr>rec_workspace = claim_workspace c, rec_session = claim_subject c, rec_grant = p,
         rec_method = meth, rec_host = host, rec_path = url_path u, rec_admitted = a\<rparr>)"

text \<open>What a request a policy let through is written as and sent as: recorded or refused, and its
  body replaced by the document that was tested.\<close>

definition write_records ::
  "gateway_world \<Rightarrow> time \<Rightarrow> session_claims \<Rightarrow> string \<Rightarrow> string \<Rightarrow> url \<Rightarrow> admission list \<Rightarrow> tables \<Rightarrow> tables \<times> bool" where
  "write_records w now c meth host u adms db =
     (if has_database w then record_all now (map (record_of c meth host u) adms) db else (db, False))"

definition tested_body :: "admission list \<Rightarrow> string option \<Rightarrow> headers \<Rightarrow> string option \<times> headers" where
  "tested_body adms body hs =
     (case adms of
        (g, p, a) # _ \<Rightarrow>
          (case ad_body a of
             Some parsed \<Rightarrow> (Some parsed, set_header ''content-type'' ''application/json'' hs)
           | None \<Rightarrow> (body, hs))
      | [] \<Rightarrow> (body, hs))"

text \<open>Everything that is asked before anything is written: what would be sent, and what policies let
  through.\<close>

definition vet ::
  "gateway_world \<Rightarrow> auth_error + session_claims \<Rightarrow> egress_request \<Rightarrow> bool
     \<Rightarrow> refusal + session_claims \<times> vetted_request \<times> admission list" where
  "vet w validated rq has_file =
     try_step (caller_of validated) (\<lambda>c.
     try_step (vet_target w c rq has_file) (\<lambda>(meth, u, host, r).
     try_step (vet_asker c r host) (\<lambda>_.
     try_step (vet_on_behalf w c r host) (\<lambda>assertion.
     try_step (vet_gates w c rq host meth u) (\<lambda>_.
     try_step (admit_gates w c rq has_file host meth u) (\<lambda>adms.
     try_step (vet_connection w r host u) (\<lambda>addrs.
     try_step (outgoing_headers w c rq r host assertion) (\<lambda>(hs, fp).
     Inr (c, \<lparr>v_method = meth, v_url = u, v_host = host, v_addrs = addrs, v_headers = hs,
              v_body = rq_body rq, v_file = has_file, v_document = is_document c,
              v_fingerprint = fp\<rparr>, adms)))))))))"

definition vet_and_send ::
  "gateway_world \<Rightarrow> time \<Rightarrow> auth_error + session_claims \<Rightarrow> egress_request \<Rightarrow> bool \<Rightarrow> tables
     \<Rightarrow> tables \<times> (refusal + vetted_request)" where
  "vet_and_send w now validated rq has_file db =
     (case vet w validated rq has_file of
        Inl refusal \<Rightarrow> (db, Inl refusal)
      | Inr (c, v, adms) \<Rightarrow>
          (case adms of
             [] \<Rightarrow> (db, Inr v)
           | (g, _, _) # _ \<Rightarrow>
               (case write_records w now c (v_method v) (v_host v) (v_url v) adms db of
                  (db', False) \<Rightarrow> (db', Inl (403, NeedsApproval (gate_requires g)))
                | (db', True) \<Rightarrow>
                    (let (body, hs) = tested_body adms (v_body v) (v_headers v) in
                     (db', Inr (v\<lparr>v_body := body, v_headers := hs\<rparr>))))))"

section \<open>Lemmas\<close>

lemma caller_of_Inr:
  "caller_of validated = Inr c \<Longrightarrow> validated = Inr c \<and>
     (has_platform_authority c GatewayInvoke \<or> has_platform_authority c GatewayFetch)"
  by (auto simp: caller_of_def authenticate_for_def require_platform_def split: sum.splits if_splits)

lemma vet_target_Inr:
  assumes "vet_target w c rq has_file = Inr (meth, u, host, r)"
  obtains committed vouched where "claim_egress c = Some committed"
    "verify (gw_outside w) (claim_workspace c) committed (rq_proof rq) = Inr vouched"
    "check_url vouched u = Inr (host, r)" "meth = to_upper (rq_method rq)" "meth \<in> set METHODS"
    "parse_url w (rq_url rq) = Some u" "is_document c \<longrightarrow> meth = ''GET'' \<and> \<not> has_file"
  using assms
  by (auto simp: vet_target_def egress_commitment_def Let_def split: option.splits)

lemma vet_gates_Inr:
  assumes "vet_gates w c rq host meth u = Inr x"
  shows "\<exists>gated. claim_gates c = Some gated \<and>
      gates_match (gw_outside w) (policy_bytes w) (claim_workspace c) (rq_gates rq) gated \<and>
      list_all (\<lambda>g. readable_gate (gw_outside w) (url_path u) (rq_body rq) g = None)
        (covering_all (rq_gates rq) host meth (url_path u))"
proof -
  have none: "first_some (map f xs) = None \<longleftrightarrow> list_all (\<lambda>x. f x = None) xs" for f :: "gate \<Rightarrow> refusal option" and xs
  proof (induction xs)
    case (Cons x xs)
    then show ?case by (cases "f x") simp_all
  qed simp
  show ?thesis
    using assms by (auto simp: vet_gates_def gate_commitment_def none split: option.splits)
qed

lemma satisfy_gates_Inr:
  "satisfy_gates P Q gs = Inr yes \<Longrightarrow> g \<in> set gs \<Longrightarrow> P g \<or> (\<exists>a \<in> set yes. Q g = Some a)"
  by (induction P Q gs arbitrary: yes rule: satisfy_gates.induct)
    (auto split: if_splits option.splits sum.splits)

lemma satisfy_gates_from: "satisfy_gates P Q gs = Inr yes \<Longrightarrow> a \<in> set yes \<Longrightarrow> \<exists>g \<in> set gs. Q g = Some a"
proof (induction P Q gs arbitrary: yes rule: satisfy_gates.induct)
  case (2 P Q g gs)
  show ?case
  proof (cases "P g")
    case True
    then show ?thesis using 2 by auto
  next
    case False
    then obtain y rest where "Q g = Some y" "satisfy_gates P Q gs = Inr rest" "yes = y # rest"
      using 2(3) by (auto split: option.splits sum.splits)
    then show ?thesis using 2(2) [OF False, of y rest] 2(4) by auto
  qed
qed simp

lemma covering_None: "covering s host meth path = None \<Longrightarrow> covering_all s host meth path = []"
  by (auto simp: covering_def covering_all_def find_None_iff filter_empty_conv)

lemma admit_gates_Inr:
  assumes "admit_gates w c rq has_file host meth u = Inr adms" and "g \<in> set (covering_all (rq_gates rq) host meth (url_path u))"
  shows "(\<exists>gr \<in> set (gs_grants (rq_gates rq)). permits (gw_outside w) gr g meth host (url_path u) (rq_body rq)) \<or>
    (\<exists>a \<in> set adms. by_policy w (claim_workspace c) rq u g = Some a)"
proof -
  have some: "covering (rq_gates rq) host meth (url_path u) \<noteq> None"
    using assms(2) covering_None by fastforce
  then obtain yes where "satisfy_gates
      (\<lambda>g. permitted (gw_outside w) (rq_gates rq) g meth host (url_path u) (rq_body rq) \<noteq> None)
      (by_policy w (claim_workspace c) rq u) (covering_all (rq_gates rq) host meth (url_path u)) = Inr adms"
    using assms(1) by (auto simp: admit_gates_def split: sum.splits if_splits)
  from satisfy_gates_Inr [OF this assms(2)] show ?thesis
    unfolding permitted_None_iff by blast
qed

lemma vet_Inr:
  assumes "vet w validated rq has_file = Inr (c, v, adms)"
  obtains r assertion where "caller_of validated = Inr c"
    "vet_target w c rq has_file = Inr (v_method v, v_url v, v_host v, r)"
    "vet_asker c r (v_host v) = Inr ()" "vet_on_behalf w c r (v_host v) = Inr assertion"
    "vet_gates w c rq (v_host v) (v_method v) (v_url v) = Inr ()"
    "admit_gates w c rq has_file (v_host v) (v_method v) (v_url v) = Inr adms"
    "vet_connection w r (v_host v) (v_url v) = Inr (v_addrs v)"
    "outgoing_headers w c rq r (v_host v) assertion = Inr (v_headers v, v_fingerprint v)"
    "v_body v = rq_body rq" "v_file v = has_file" "v_document v = is_document c"
  using assms by (auto simp: vet_def)

text \<open>Sending changes nothing of what was vetted but the body and the headers.\<close>

lemma vet_and_send_Inr:
  assumes "vet_and_send w now validated rq has_file db = (db', Inr sent)"
  obtains c v adms where "vet w validated rq has_file = Inr (c, v, adms)"
    "v_method sent = v_method v" "v_url sent = v_url v" "v_host sent = v_host v" "v_addrs sent = v_addrs v"
    "adms \<noteq> [] \<longrightarrow> record_all now (map (record_of c (v_method v) (v_host v) (v_url v)) adms) db = (db', True)"
    "adms = [] \<longrightarrow> db' = db \<and> sent = v" "v_fingerprint sent = v_fingerprint v"
    "v_headers sent \<in> {v_headers v, set_header ''content-type'' ''application/json'' (v_headers v)}"
proof -
  obtain c v adms where vet: "vet w validated rq has_file = Inr (c, v, adms)"
    using assms by (auto simp: vet_and_send_def split: sum.splits)
  show ?thesis
  proof (cases adms)
    case Nil
    then show ?thesis using that [OF vet] assms vet by (simp add: vet_and_send_def)
  next
    case (Cons a rest)
    obtain g p ad where a: "a = (g, p, ad)" by (cases a)
    obtain d ok where d: "write_records w now c (v_method v) (v_host v) (v_url v) adms db = (d, ok)" by fastforce
    have ok: "ok = True" "d = db'" and s: "sent = v\<lparr>v_body := fst (tested_body adms (v_body v) (v_headers v)),
        v_headers := snd (tested_body adms (v_body v) (v_headers v))\<rparr>"
      using assms vet d Cons a by (auto simp: vet_and_send_def Let_def case_prod_beta split: bool.splits)
    have "record_all now (map (record_of c (v_method v) (v_host v) (v_url v)) adms) db = (db', True)"
      using d ok by (auto simp: write_records_def split: if_splits)
    moreover have "snd (tested_body adms (v_body v) (v_headers v)) \<in>
        {v_headers v, set_header ''content-type'' ''application/json'' (v_headers v)}"
      by (simp add: tested_body_def Cons a split: option.split)
    ultimately show ?thesis using that [OF vet] s Cons by simp
  qed
qed

lemma recorded:
  assumes "record_all now (map (record_of c meth host u) adms) db = (db', True)" and "(g, p, ad) \<in> set adms"
  shows "\<exists>row \<in> set (approvals db'). row_stamp row = (claim_workspace c, policy_id p, job_id p, now)"
proof -
  have "insert_records now (map (record_of c meth host u) adms) db = Some db'"
    using assms(1) by (auto simp: record_all_def split: option.splits)
  from insert_records_adds [OF this] obtain rows where
    db': "db' = db\<lparr>approvals := approvals db @ rows\<rparr>"
    and rows: "map row_stamp rows = map (record_stamp now) (map (record_of c meth host u) adms)" by blast
  have "record_stamp now (record_of c meth host u (g, p, ad)) \<in> set (map row_stamp rows)"
    unfolding rows using assms(2) by (metis image_eqI list.set_map)
  then show ?thesis by (auto simp: db' record_stamp_def record_of_def)
qed

text \<open>A gate is satisfied in a request: by a grant of the set, or by one of the set's policies that
  admits it and whose yes is on record for this turn.\<close>

definition gate_satisfied ::
  "gateway_world \<Rightarrow> uuid \<Rightarrow> gate_set \<Rightarrow> string \<Rightarrow> string \<Rightarrow> url \<Rightarrow> string option \<Rightarrow> time \<Rightarrow> tables \<Rightarrow> gate \<Rightarrow> bool" where
  "gate_satisfied w ws s meth host u body now db g \<longleftrightarrow>
     list_ex (\<lambda>gr. permits (gw_outside w) gr g meth host (url_path u) body) (gs_grants s) \<or>
     list_ex (\<lambda>p. admits (gw_outside w) p ws g (url_path u) (url_query u) body \<noteq> None \<and>
               list_ex (\<lambda>row. row_stamp row = (ws, policy_id p, job_id p, now)) (approvals db)) (gs_policies s)"

lemma satisfied_when_admitted:
  assumes "admit_gates w c rq has_file host meth u = Inr adms"
    and "g \<in> set (covering_all (rq_gates rq) host meth (url_path u))"
    and "adms \<noteq> [] \<longrightarrow> record_all now (map (record_of c meth host u) adms) db = (db', True)"
  shows "gate_satisfied w (claim_workspace c) (rq_gates rq) meth host u (rq_body rq) now db' g"
  using admit_gates_Inr [OF assms(1,2)]
proof
  assume "\<exists>a \<in> set adms. by_policy w (claim_workspace c) rq u g = Some a"
  then obtain p ad where a: "(g, p, ad) \<in> set adms"
    and p: "policy_for (gw_outside w) (rq_gates rq) (claim_workspace c) g = Some p"
    and ad: "admits (gw_outside w) p (claim_workspace c) g (url_path u) (url_query u) (rq_body rq) = Some ad"
    by (auto simp: by_policy_def split: option.splits)
  have "p \<in> set (gs_policies (rq_gates rq))" using p by (auto simp: policy_for_def find_Some_iff)
  moreover have "\<exists>row \<in> set (approvals db'). row_stamp row = (claim_workspace c, policy_id p, job_id p, now)"
    using recorded [OF _ a] assms(3) a by auto
  ultimately show ?thesis using ad unfolding gate_satisfied_def list_ex_iff by blast
qed (auto simp: gate_satisfied_def list_ex_iff)

section \<open>What is sent\<close>

lemma goes_out:
  assumes "vet_and_send w now validated rq has_file db = (db', Inr sent)"
  shows "\<exists>c committed vouched gated r.
    validated = Inr c \<and> claim_egress c = Some committed \<and>
    verify (gw_outside w) (claim_workspace c) committed (rq_proof rq) = Inr vouched \<and>
    r \<in> set vouched \<and> host_matches (rule_host r) (v_host sent) \<and>
    claim_gates c = Some gated \<and>
    gates_match (gw_outside w) (policy_bytes w) (claim_workspace c) (rq_gates rq) gated \<and>
    list_all (gate_satisfied w (claim_workspace c) (rq_gates rq) (v_method sent) (v_host sent) (v_url sent)
        (rq_body rq) now db')
      (covering_all (rq_gates rq) (v_host sent) (v_method sent) (url_path (v_url sent)))"
proof -
  obtain c v adms where vet: "vet w validated rq has_file = Inr (c, v, adms)"
    and same: "v_method sent = v_method v" "v_url sent = v_url v" "v_host sent = v_host v"
    and rec: "adms \<noteq> [] \<longrightarrow> record_all now (map (record_of c (v_method v) (v_host v) (v_url v)) adms) db = (db', True)"
    by (rule vet_and_send_Inr [OF assms])
  obtain r assertion where r: "caller_of validated = Inr c"
    "vet_target w c rq has_file = Inr (v_method v, v_url v, v_host v, r)"
    "vet_gates w c rq (v_host v) (v_method v) (v_url v) = Inr ()"
    "admit_gates w c rq has_file (v_host v) (v_method v) (v_url v) = Inr adms"
    by (rule vet_Inr [OF vet])
  obtain committed vouched where t: "claim_egress c = Some committed"
    "verify (gw_outside w) (claim_workspace c) committed (rq_proof rq) = Inr vouched"
    "check_url vouched (v_url v) = Inr (v_host v, r)"
    by (rule vet_target_Inr [OF r(2)])
  have "r \<in> set vouched \<and> host_matches (rule_host r) (v_host v)"
    using check_url_InrD [OF t(3)] rule_for_SomeD by blast
  moreover have "list_all (gate_satisfied w (claim_workspace c) (rq_gates rq) (v_method v) (v_host v) (v_url v)
        (rq_body rq) now db') (covering_all (rq_gates rq) (v_host v) (v_method v) (url_path (v_url v)))"
    using satisfied_when_admitted [OF r(4) _ rec] by (simp add: list_all_iff)
  ultimately show ?thesis
    using caller_of_Inr [OF r(1)] t(1,2) vet_gates_Inr [OF r(3)] unfolding same by blast
qed

text \<open>
  C2. Nothing goes out that was not allowed. A request that is sent was made with a token whose two
  commitments were checked: the rule it goes out by is one the proof showed against the first, and
  matches the host; the gates offered are the ones of the second; and every one of those that covers
  the request is satisfied, by a grant or by a policy whose yes was recorded before the request left.
\<close>
theorem request_goes_out_only_if_allowed:
  assumes "vet_and_send w now validated rq has_file db = (db', Inr sent)"
  shows "\<exists>c committed vouched gated r.
    validated = Inr c \<and> claim_egress c = Some committed \<and>
    verify (gw_outside w) (claim_workspace c) committed (rq_proof rq) = Inr vouched \<and>
    r \<in> set vouched \<and> host_matches (rule_host r) (v_host sent) \<and>
    claim_gates c = Some gated \<and>
    gates_match (gw_outside w) (policy_bytes w) (claim_workspace c) (rq_gates rq) gated \<and>
    list_all (gate_satisfied w (claim_workspace c) (rq_gates rq) (v_method sent) (v_host sent) (v_url sent)
        (rq_body rq) now db')
      (covering_all (rq_gates rq) (v_host sent) (v_method sent) (url_path (v_url sent)))"
  using assms by (rule goes_out)

text \<open>The gateway's own word, last; and the headers of a request whose rule's credential is sealed.\<close>

definition with_assertion :: "string option \<Rightarrow> headers \<Rightarrow> headers" where
  "with_assertion assertion hs = (case assertion of Some a \<Rightarrow> set_header ON_BEHALF_HEADER a hs | None \<Rightarrow> hs)"

lemma no_credential_sent:
  assumes "outgoing_headers w c rq r host assertion = Inr (hs, fp)" "\<not> carries_credential r"
  shows "\<exists>own. caller_headers w (rq_headers rq) [] = Inr own \<and> hs = with_assertion assertion own \<and> fp = None"
  using assms
  by (auto simp: outgoing_headers_def static_credential_def sealed_credential_def client_credential_def carries_credential_def
      with_assertion_def split: option.splits)

lemma sealed_credential_sent:
  assumes "outgoing_headers w c rq r host assertion = Inr (hs, fp)" "rule_credential r = Some i"
  shows "\<exists>own opened header name secret. caller_headers w (rq_headers rq) [] = Inr own \<and>
    credential_env r = None \<and> rule_client r = None \<and> sealed_get w i = Inr opened \<and> rule_header r = Some header \<and>
    header_name w header = Some name \<and>
    attaches (gw_outside w) (os_binding opened) (claim_workspace c) host (Some header)
      (on_a_request (sb_kind (os_binding opened))) (rule_asker r) = Inr () \<and>
    sb_user (os_binding opened) = rule_asker r \<and>
    (secret = os_secret opened \<or> (\<exists>token. service_account w (claim_workspace c) r opened = Inr token \<and> secret = ''Bearer '' @ token)) \<and>
    hs = with_assertion assertion (set_header name secret own) \<and> fp = Some (os_fingerprint opened)"
proof -
  obtain own h2 h3 h4 where h: "caller_headers w (rq_headers rq) [] = Inr own" "static_credential w c r host own = Inr h2"
    "sealed_credential w c r host h2 = Inr (h3, fp)" "client_credential w c r host h3 = Inr h4" "hs = with_assertion assertion h4"
    using assms(1) by (auto simp: outgoing_headers_def with_assertion_def)
  have one: "credential_env r = None" "rule_client r = None"
    using h(3) assms(2) by (auto simp: sealed_credential_def)
  then have "h2 = own" "h4 = h3" using h(2,4) by (auto simp: static_credential_def client_credential_def split: option.splits)
  moreover obtain opened header name secret where "sealed_get w i = Inr opened" "rule_header r = Some header" "header_name w header = Some name"
    and attached: "attaches (gw_outside w) (os_binding opened) (claim_workspace c) host (Some header)
      (on_a_request (sb_kind (os_binding opened))) (rule_asker r) = Inr ()"
    and secret: "(if on_a_request (sb_kind (os_binding opened)) = ServiceAccount
       then map_error exchange_status (try_step (service_account w (claim_workspace c) r opened) (\<lambda>token. Inr (''Bearer '' @ token)))
       else Inr (os_secret opened)) = Inr secret"
    and "h3 = set_header name secret h2" "fp = Some (os_fingerprint opened)"
    using h(3) assms(2) by (auto simp: sealed_credential_def Let_def split: option.splits)
  moreover have "secret = os_secret opened \<or> (\<exists>token. service_account w (claim_workspace c) r opened = Inr token \<and> secret = ''Bearer '' @ token)"
    using secret by (auto split: if_split_asm)
  moreover have "sb_user (os_binding opened) = rule_asker r" using sealed_credential_stays_bound [OF attached] by blast
  ultimately show ?thesis using h(1,5) one by blast
qed

lemma vet_connection_Inr:
  assumes "vet_connection w r host u = Inr addrs"
  obtains port where "url_port u = Some port" "may_carry_credential r (url_scheme u) (internal_allows (gw_internal w) host port)"
    "addrs \<noteq> []" "internal_allows (gw_internal w) host port \<or> list_all (\<lambda>(ip, p). \<not> is_forbidden ip) addrs"
proof -
  obtain port where "url_port u = Some port" "may_carry_credential r (url_scheme u) (internal_allows (gw_internal w) host port)"
    and addrs: "(if internal_allows (gw_internal w) host port then resolve (lookup_host w) host port
       else resolve_and_vet (lookup_host w) host port) = Inr addrs"
    using assms by (auto simp: vet_connection_def Let_def split: option.splits)
  moreover have "addrs \<noteq> [] \<and> (internal_allows (gw_internal w) host port \<or> list_all (\<lambda>(ip, p). \<not> is_forbidden ip) addrs)"
    using addrs
    by (auto simp: resolve_and_vet_def resolve_def list_all_iff split: if_splits sum.splits option.splits
        dest: vet_addresses_InrD)
  ultimately show ?thesis using that by blast
qed


text \<open>
  A refusal writes nothing: whenever the gateway refuses a request, for whatever reason and at
  whatever stage, the record of automatic approvals is as it was.
\<close>
theorem refusal_writes_nothing:
  assumes "vet_and_send w now validated rq has_file db = (db', Inl refusal)"
  shows "db' = db"
  using assms
  by (auto simp: vet_and_send_def write_records_def record_all_def Let_def case_prod_beta
      split: sum.splits list.splits prod.splits bool.splits if_splits option.splits)

section \<open>Witnesses\<close>

text \<open>One turn of one workspace, allowed one host and gated by nothing, and the world it runs in.\<close>

definition example_world :: gateway_world where
  "example_world = \<lparr>gw_outside = toy_outside, parse_url = (\<lambda>_. Some example_url), parse_href = Some,
     policy_bytes = (\<lambda>p. pg_gate p), lookup_host = (\<lambda>_ port. Some [(V4 (v4_of_octets (8, 8, 8, 8)), port)]),
     env_var = (\<lambda>_. None), header_name = Some, header_value = (\<lambda>_. True), sealed_get = (\<lambda>_. Inl []),
     service_account = (\<lambda>_ _ _. Inl (True, [])), client_bearer = (\<lambda>_ _ _. Inl (True, [])),
     sign_assertion = None, gw_internal = [], gw_bindings = [], has_database = True\<rparr>"

definition example_claims :: session_claims where
  "example_claims = \<lparr>claim_subject = 2, claim_workspace = 1, claim_roles = [''turn''],
     claim_egress = Some (root toy_outside 1 [plain_rule]),
     claim_gates = Some (gates_root toy_outside (\<lambda>p. pg_gate p) 1 no_gates),
     claim_family = None, claim_asker = None\<rparr>"

definition example_request :: egress_request where
  "example_request = \<lparr>rq_method = ''GET'', rq_url = ''u'', rq_gates = no_gates, rq_headers = [],
     rq_body = None, rq_body_size = None, rq_proof = Inclusion plain_rule []\<rparr>"

definition example_sent :: vetted_request where
  "example_sent = \<lparr>v_method = ''GET'', v_url = example_url, v_host = ''AB.c.'', v_addrs = [(V4 (v4_of_octets (8, 8, 8, 8)), 443)],
     v_headers = [], v_body = None, v_file = False, v_document = False, v_fingerprint = None\<rparr>"

lemma example_root: "leaf toy_outside 1 plain_rule = root toy_outside 1 [plain_rule]"
  by (simp add: root_def root_of_def leaves_def root_with_def ordered_def)

lemma example_vet: "vet example_world (Inr example_claims) example_request False = Inr (example_claims, example_sent, [])"
proof -
  have turn: "has_platform_authority example_claims GatewayInvoke"
    using platform_authorities_iff [of GatewayInvoke "[''turn'']"]
    by (auto simp: has_platform_authority_def example_claims_def authorities_def intro: exI [of _ Turn])
  have get: "to_upper ''GET'' = ''GET''" by code_simp
  have rule: "example_rule = plain_rule" by (simp add: example_rule_def plain_rule_def)
  note literal = example_name
  note public = public_address
  have target: "vet_target example_world example_claims example_request False = Inr (''GET'', example_url, ''AB.c.'', plain_rule)"
    using turn example_check
    by (simp add: vet_target_def egress_commitment_def example_claims_def example_request_def example_world_def
        get METHODS_def rule example_root is_document_def)
  have gates: "covering_all no_gates host meth path = []" "covering no_gates host meth path = None" for host meth path
    by (simp_all add: covering_all_def covering_def no_gates_def)
  have caller: "caller_of (Inr example_claims) = Inr example_claims"
    using turn by (simp add: caller_of_def authenticate_for_def require_platform_def)
  have conn: "vet_connection example_world plain_rule ''AB.c.'' example_url = Inr [(V4 (v4_of_octets (8, 8, 8, 8)), 443)]"
    using public_address
    by (simp add: vet_connection_def example_url_def example_world_def internal_allows_def may_carry_credential_def
        carries_credential_def plain_rule_def resolve_and_vet_def resolve_def literal vet_addresses_def public)
  have plain: "rule_asker plain_rule = None" "on_behalf_of plain_rule = False" "rule_header plain_rule = None"
    "credential_env plain_rule = None" "rule_client plain_rule = None" "rule_credential plain_rule = None"
    by (simp_all add: plain_rule_def)
  show ?thesis
    unfolding vet_def
    by (simp add: caller target conn vet_asker_def vet_on_behalf_def plain vet_gates_def admit_gates_def
        outgoing_headers_def static_credential_def sealed_credential_def client_credential_def)
      (simp add: example_claims_def example_request_def example_world_def gate_commitment_def gates_match_def gates
        example_sent_def is_document_def turn [unfolded example_claims_def])
qed

lemma example_goes_out:
  "vet_and_send example_world now (Inr example_claims) example_request False db = (db, Inr example_sent)"
  by (simp add: vet_and_send_def example_vet)

theorem request_goes_out_only_if_allowed_witness:
  "\<exists>c vouched r. Inr example_claims = (Inr c :: auth_error + session_claims) \<and>
     verify toy_outside (claim_workspace c) (root toy_outside 1 [plain_rule]) (Inclusion plain_rule []) = Inr vouched \<and>
     r \<in> set vouched \<and> host_matches (rule_host r) (v_host example_sent)"
  using request_goes_out_only_if_allowed [OF example_goes_out [of 0 example_tables]]
  by (auto simp: example_claims_def example_request_def example_world_def example_root)


theorem refusal_writes_nothing_witness:
  "fst (vet_and_send example_world 0 (Inl Missing) example_request False example_tables) = example_tables"
proof -
  obtain db' refusal where r: "vet_and_send example_world 0 (Inl Missing) example_request False example_tables = (db', Inl refusal)"
    by (simp add: vet_and_send_def vet_def caller_of_def authenticate_for_def)
  from refusal_writes_nothing [OF r] r show ?thesis by simp
qed

end
