(* ===== verification/Scope.thy ===== *)
theory Scope
  imports External
begin

text \<open>
  Where a guest's path leads: \<open>crates/core/src/storage/scope.rs\<close>, and whose a stored key is:
  \<open>workspace_of\<close> of \<open>storage/stored.rs\<close> and the keys of extracted text of \<open>extract.rs\<close>. A message a
  refusal carries is the constructor that says which refusal it is.
\<close>

section \<open>Data\<close>

datatype scope = Workspace | Agent | Session

definition ALL_SCOPES :: "scope list" where
  "ALL_SCOPES = [Session, Agent, Workspace]"

datatype refused_why = NoScope string | IsFolder scope

datatype storage_error =
    NotFound | PermissionDenied | RefusedPath refused_why | Unavailable string | IoError string

record space =
  sp_workspace :: uuid
  sp_agent :: uuid
  sp_session :: uuid

record skill_object =
  so_path :: string
  so_workspace :: uuid
  so_sha256 :: string
  so_bytes :: nat

fun is_platform_fault :: "storage_error \<Rightarrow> bool" where
  "is_platform_fault (Unavailable _) = True"
| "is_platform_fault _ = False"

fun scope_text :: "scope \<Rightarrow> string" where
  "scope_text Workspace = ''workspace''"
| "scope_text Agent = ''agent''"
| "scope_text Session = ''session''"

definition scope_parse :: "string \<Rightarrow> scope option" where
  "scope_parse segment =
     (if segment = ''workspace'' then Some Workspace
      else if segment = ''agent'' then Some Agent
      else if segment = ''session'' then Some Session
      else None)"

fun bucket_prefix :: "scope \<Rightarrow> string" where
  "bucket_prefix Workspace = ''workspaces/''"
| "bucket_prefix Agent = ''agents/''"
| "bucket_prefix Session = ''sessions/''"

fun root_for :: "outside \<Rightarrow> space \<Rightarrow> scope \<Rightarrow> string" where
  "root_for e sp Workspace = ''workspaces/'' @ uuid_text e (sp_workspace sp) @ ''/''"
| "root_for e sp Agent =
     ''agents/'' @ uuid_text e (sp_workspace sp) @ ''/'' @ uuid_text e (sp_agent sp) @ ''/''"
| "root_for e sp Session =
     ''sessions/'' @ uuid_text e (sp_workspace sp) @ ''/'' @ uuid_text e (sp_agent sp) @ ''/'' @
     uuid_text e (sp_session sp) @ ''/''"

section \<open>Tidying a path\<close>

text \<open>A control character (Unicode \<open>Cc\<close>) somewhere in UTF-8 text: an ASCII one, or \<open>C2 80\<close> to \<open>C2 9F\<close>.\<close>

fun has_control :: "string \<Rightarrow> bool" where
  "has_control [] = False"
| "has_control (c # cs) =
     (byte_val c < 32 \<or> byte_val c = 127 \<or>
      (byte_val c = 194 \<and> cs \<noteq> [] \<and> 128 \<le> byte_val (hd cs) \<and> byte_val (hd cs) < 160) \<or>
      has_control cs)"

fun keep_components :: "string list \<Rightarrow> storage_error + string list" where
  "keep_components [] = Inr []"
| "keep_components (c # cs) =
     (if c = [] \<or> c = ''.'' then keep_components cs
      else if c = ''..'' then Inl PermissionDenied
      else (case keep_components cs of Inl err \<Rightarrow> Inl err | Inr ps \<Rightarrow> Inr (c # ps)))"

definition clean :: "string \<Rightarrow> storage_error + string" where
  "clean rest =
     (if CHR 0x5C \<in> set rest \<or> has_control rest then Inl PermissionDenied
      else
        try_step (keep_components (split_on (CHR ''/'') rest)) (\<lambda>parts.
          let joined = join_with (CHR ''/'') parts in
          Inr (if ends_with rest ''/'' \<and> joined \<noteq> [] then joined @ ''/'' else joined)))"

text \<open>What both kinds of path lose first: white space around them and \<open>./\<close> before them.\<close>

definition tidy :: "string \<Rightarrow> string" where
  "tidy requested = trim_start_text ''./'' (trim requested)"

section \<open>Skill files\<close>

definition SKILL_ROOT :: string where "SKILL_ROOT = ''skill/''"

definition skill_blob_key :: "outside \<Rightarrow> uuid \<Rightarrow> string \<Rightarrow> string" where
  "skill_blob_key e workspace_id sha = ''skills/'' @ uuid_text e workspace_id @ ''/'' @ sha"

definition skill_object_path :: "string \<Rightarrow> string \<Rightarrow> string" where
  "skill_object_path slug path = SKILL_ROOT @ slug @ ''/'' @ path"

definition skill_path :: "string \<Rightarrow> (storage_error + string) option" where
  "skill_path requested =
     (let path = tidy requested in
      map_option (\<lambda>rest. try_step (clean rest) (\<lambda>r. Inr (SKILL_ROOT @ r)))
        (if path = ''skill'' then Some [] else strip_prefix path SKILL_ROOT))"

definition skill_slug :: "string \<Rightarrow> string option" where
  "skill_slug path =
     (case strip_prefix path SKILL_ROOT of
        None \<Rightarrow> None
      | Some rest \<Rightarrow> (let s = hd (split_on (CHR ''/'') rest) in if s = [] then None else Some s))"

section \<open>Resolving a path\<close>

definition split_path :: "string \<Rightarrow> storage_error + (scope \<times> string)" where
  "split_path requested =
     (let path = tidy requested;
          (head, rest) = (case split_once (CHR ''/'') path of Some (h, r) \<Rightarrow> (h, r) | None \<Rightarrow> (path, [])) in
      case scope_parse head of
        None \<Rightarrow> Inl (RefusedPath (NoScope (trim_start_matches (\<lambda>c. c = CHR ''/'') path)))
      | Some sc \<Rightarrow> Inr (sc, rest))"

definition resolve_path :: "outside \<Rightarrow> space \<Rightarrow> string \<Rightarrow> storage_error + string" where
  "resolve_path e sp requested =
     try_step (split_path requested) (\<lambda>(sc, rest).
     try_step (clean rest) (\<lambda>rest.
     try_step (check_that (rest \<noteq> []) (RefusedPath (IsFolder sc))) (\<lambda>_.
       let resolved = root_for e sp sc @ rest in
       try_step (check_that (starts_with resolved (root_for e sp sc)) PermissionDenied) (\<lambda>_.
       Inr resolved))))"

definition resolve_prefix :: "outside \<Rightarrow> space \<Rightarrow> string \<Rightarrow> storage_error + string" where
  "resolve_prefix e sp requested =
     try_step (split_path requested) (\<lambda>(sc, rest).
     try_step (clean rest) (\<lambda>rest. Inr (root_for e sp sc @ rest)))"

definition strip_root :: "outside \<Rightarrow> space \<Rightarrow> string \<Rightarrow> string option" where
  "strip_root e sp stored =
     first_some (map (\<lambda>sc. map_option (\<lambda>rest. scope_text sc @ ''/'' @ rest)
                            (strip_prefix stored (root_for e sp sc))) ALL_SCOPES)"

section \<open>Whose a key is\<close>

definition text_key :: "string \<Rightarrow> string" where
  "text_key object_key = ''extracted/'' @ object_key"

definition failed_key :: "string \<Rightarrow> string" where
  "failed_key object_key = text_key object_key @ ''.failed''"

definition workspace_of :: "(string \<Rightarrow> uuid option) \<Rightarrow> string \<Rightarrow> uuid option" where
  "workspace_of parse_uuid stored =
     (let key = (case strip_prefix stored ''extracted/'' of Some k \<Rightarrow> k | None \<Rightarrow> stored) in
      first_some (map (\<lambda>sc.
        case strip_prefix key (bucket_prefix sc) of
          None \<Rightarrow> None
        | Some rest \<Rightarrow>
            (case split_once (CHR ''/'') rest of None \<Rightarrow> None | Some (ident, _) \<Rightarrow> parse_uuid ident))
        ALL_SCOPES))"

definition belongs_to_workspace :: "(string \<Rightarrow> uuid option) \<Rightarrow> string \<Rightarrow> uuid \<Rightarrow> bool" where
  "belongs_to_workspace parse_uuid key workspace_id \<longleftrightarrow>
     \<not> starts_with key ''extracted/'' \<and> workspace_of parse_uuid key = Some workspace_id"

definition EXTRACTABLE :: "string list" where
  "EXTRACTABLE =
     [''pdf'', ''doc'', ''docx'', ''odt'', ''rtf'', ''xls'', ''xlsx'', ''ods'', ''ppt'', ''pptx'', ''odp'',
      ''epub'', ''msg'', ''eml'']"

definition is_extractable :: "string \<Rightarrow> bool" where
  "is_extractable path \<longleftrightarrow> to_lower (last (split_on (CHR ''.'') path)) \<in> set EXTRACTABLE"

section \<open>Lemmas\<close>

lemma scope_parse_text [simp]: "scope_parse (scope_text sc) = Some sc"
  by (cases sc) (simp_all add: scope_parse_def)

lemma scope_parse_Some: "scope_parse s = Some sc \<longleftrightarrow> s = scope_text sc"
  by (cases sc) (auto simp: scope_parse_def)

lemma byte_val_slash [simp]: "byte_val (CHR ''/'') = 47"
  by (simp add: byte_val_def)

lemma has_control_sep: "has_control (a @ CHR ''/'' # b) \<longleftrightarrow> has_control a \<or> has_control b"
proof (induction a)
  case (Cons c a)
  then show ?case by (cases a) auto
qed simp

lemma has_control_join: "has_control (join_with (CHR ''/'') ps) \<longleftrightarrow> (\<exists>p \<in> set ps. has_control p)"
  by (induction "CHR ''/''" ps rule: join_with.induct) (auto simp: has_control_sep)

lemma has_control_split: "has_control s \<longleftrightarrow> (\<exists>p \<in> set (split_on (CHR ''/'') s). has_control p)"
  using has_control_join [of "split_on (CHR ''/'') s"] by simp

definition plain_part :: "string \<Rightarrow> bool" where
  "plain_part p \<longleftrightarrow> p \<noteq> [] \<and> p \<noteq> ''.'' \<and> p \<noteq> ''..'' \<and> CHR ''/'' \<notin> set p \<and> CHR 0x5C \<notin> set p \<and> \<not> has_control p"

text \<open>A tidied path: plain parts between single slashes, with one slash after them at most.\<close>

definition plain_rest :: "string \<Rightarrow> bool" where
  "plain_rest r \<longleftrightarrow>
     (\<exists>ps. list_all plain_part ps \<and>
        (r = join_with (CHR ''/'') ps \<or> ps \<noteq> [] \<and> r = join_with (CHR ''/'') ps @ ''/''))"

lemma keep_components_eq:
  "keep_components cs =
     (if ''..'' \<in> set cs then Inl PermissionDenied else Inr (filter (\<lambda>c. c \<noteq> [] \<and> c \<noteq> ''.'') cs))"
  by (induction cs) auto

lemma clean_plain:
  assumes "clean rest = Inr r"
  shows "plain_rest r"
proof -
  let ?ps = "filter (\<lambda>c. c \<noteq> [] \<and> c \<noteq> ''.'') (split_on (CHR ''/'') rest)"
  have ok: "CHR 0x5C \<notin> set rest" "\<not> has_control rest" "''..'' \<notin> set (split_on (CHR ''/'') rest)"
    and r: "r = (if ends_with rest ''/'' \<and> join_with (CHR ''/'') ?ps \<noteq> [] then join_with (CHR ''/'') ?ps @ ''/''
                 else join_with (CHR ''/'') ?ps)"
    using assms by (auto simp: clean_def keep_components_eq Let_def split: if_splits)
  have "plain_part p" if "p \<in> set ?ps" for p
    using that ok set_split_on [of p "CHR ''/''" rest] split_on_no_sep [of p "CHR ''/''" rest]
      has_control_split [of rest]
    by (auto simp: plain_part_def)
  then have "list_all plain_part ?ps" by (simp add: list_all_iff)
  moreover have "?ps \<noteq> []" if "join_with (CHR ''/'') ?ps \<noteq> []"
    using that by (cases ?ps) auto
  ultimately show ?thesis unfolding plain_rest_def using r by (intro exI [of _ ?ps]) auto
qed

lemma clean_of_plain:
  assumes "plain_rest r"
  shows "clean r = Inr r"
proof -
  let ?d = "CHR ''/''"
  obtain ps where ps: "list_all plain_part ps"
    and r: "r = join_with ?d ps \<or> ps \<noteq> [] \<and> r = join_with ?d ps @ ''/''"
    using assms by (auto simp: plain_rest_def)
  have parts: "CHR 0x5C \<notin> set p" "\<not> has_control p" "?d \<notin> set p" "p \<noteq> []" "p \<noteq> ''.''" "p \<noteq> ''..''"
    if "p \<in> set ps" for p using ps that by (auto simp: list_all_iff plain_part_def)
  have nil: "join_with ?d ps = [] \<longleftrightarrow> ps = []" using parts(4) by (intro join_with_Nil_iff) auto
  have bs: "CHR 0x5C \<notin> set r" using r set_join [of ?d ps] parts(1) by auto
  have ctl: "\<not> has_control r"
    using r parts(2) has_control_join [of ps] has_control_sep [of "join_with ?d ps" "[]"] by auto
  have split: "split_on ?d (join_with ?d ps) = ps" if "ps \<noteq> []" using that parts(3) by (intro split_join) auto
  have dots: "''..'' \<notin> set ps" using parts(6) by blast
  then have keep: "keep_components ps = Inr ps"
    using parts(4,5) by (auto simp: keep_components_eq filter_id_conv)
  show ?thesis
  proof (cases "ps = []")
    case True
    then show ?thesis using r by (simp add: clean_def)
  next
    case False
    have noend: "\<not> ends_with (join_with ?d ps) ''/''"
    proof
      assume "ends_with (join_with ?d ps) ''/''"
      then obtain x where "join_with ?d ps = x @ [?d]" by (auto simp: ends_with_iff)
      then have "ps = split_on ?d x @ [[]]" using split [OF False] split_on_snoc by metis
      then show False using parts(4) [of "[]"] by simp
    qed
    show ?thesis
    proof (cases "r = join_with ?d ps")
      case True
      with False show ?thesis using bs ctl split keep noend by (simp add: clean_def Let_def)
    next
      case False2: False
      with r have r: "r = join_with ?d ps @ ''/''" by simp
      have "keep_components (ps @ [[]]) = Inr ps"
        using parts(4,5) dots by (auto simp: keep_components_eq filter_id_conv)
      then have "keep_components (split_on ?d r) = Inr ps"
        using split [OF False] by (simp add: r split_on_snoc)
      moreover have "ends_with r ''/''" by (auto simp: r ends_with_iff)
      ultimately show ?thesis using bs ctl nil False by (simp add: clean_def Let_def r)
    qed
  qed
qed

text \<open>The identifiers a scope's files are kept under.\<close>

fun owners :: "space \<Rightarrow> scope \<Rightarrow> uuid list" where
  "owners sp Workspace = [sp_workspace sp]"
| "owners sp Agent = [sp_workspace sp, sp_agent sp]"
| "owners sp Session = [sp_workspace sp, sp_agent sp, sp_session sp]"

lemma root_for_prefix_free:
  assumes "uuid_forms e" and "root_for e sp sc @ x = root_for e sp' sc' @ y"
  shows "sc = sc' \<and> owners sp sc = owners sp' sc \<and> x = y"
  using assms(2) uuid_formsD [OF assms(1)] by (cases sc; cases sc') auto

lemma resolve_path_Inr:
  "resolve_path e sp p = Inr key \<longleftrightarrow>
     (\<exists>sc r rest. split_path p = Inr (sc, r) \<and> clean r = Inr rest \<and> rest \<noteq> [] \<and> key = root_for e sp sc @ rest)"
  by (auto simp: resolve_path_def Let_def)

lemma strip_root_own:
  assumes "uuid_forms e"
  shows "strip_root e sp (root_for e sp sc @ rest) = Some (scope_text sc @ ''/'' @ rest)"
proof -
  have "strip_prefix (root_for e sp sc @ rest) (root_for e sp sc') = (if sc' = sc then Some rest else None)" for sc'
    using root_for_prefix_free [OF assms, of sp sc rest sp sc']
    by (cases "strip_prefix (root_for e sp sc @ rest) (root_for e sp sc')")
      (auto simp: strip_prefix_Some_iff strip_prefix_def starts_with_iff split: if_splits)
  then show ?thesis by (cases sc) (simp_all add: strip_root_def ALL_SCOPES_def)
qed

lemma white_space_no_slash: "w \<in> set white_space \<Longrightarrow> CHR ''/'' \<notin> set w"
proof -
  have "CHR ''/'' \<noteq> byte n" if "n < 256" "n \<noteq> 47" for n
    using that by (metis byte_val_slash byte_val_byte)
  then show "w \<in> set white_space \<Longrightarrow> CHR ''/'' \<notin> set w" by (auto simp: white_space_def)
qed

lemma trailing_space_slash: "trailing_space (a @ CHR ''/'' # r) = trailing_space r"
proof -
  have "ends_with (a @ CHR ''/'' # r) w \<longleftrightarrow> ends_with r w" if "CHR ''/'' \<notin> set w" for w
  proof
    assume "ends_with (a @ CHR ''/'' # r) w"
    then obtain x where x: "a @ CHR ''/'' # r = x @ w" by (auto simp: ends_with_iff)
    then show "ends_with r w"
      using that by (auto simp: ends_with_iff append_eq_append_conv2 Cons_eq_append_conv)
  next
    assume "ends_with r w"
    then obtain x where "r = x @ w" by (auto simp: ends_with_iff)
    then show "ends_with (a @ CHR ''/'' # r) w"
      unfolding ends_with_iff by (intro exI [of _ "a @ CHR ''/'' # x"]) simp
  qed
  then show ?thesis
    unfolding trailing_space_def using white_space_no_slash by (intro find_cong) auto
qed

lemma tidy_scoped:
  assumes "trailing_space rest = None"
  shows "tidy (scope_text sc @ CHR ''/'' # rest) = scope_text sc @ CHR ''/'' # rest"
proof -
  obtain c cs where q: "scope_text sc @ CHR ''/'' # rest = c # cs" and c: "graphic c" "c \<noteq> CHR ''.''"
    by (cases sc) (auto simp: graphic_def byte_val_def)
  have "trim_start (c # cs) = c # cs" by (subst trim_start.simps) (simp add: leading_space_graphic [OF c(1)])
  moreover have "trim_end (c # cs) = c # cs"
    using trailing_space_slash [of "scope_text sc" rest] assms
    by (subst trim_end.simps) (simp add: q [symmetric])
  moreover have "trim_start_text ''./'' (c # cs) = c # cs"
    using c(2) by (subst trim_start_text.simps) (simp add: starts_with_def)
  ultimately show ?thesis by (simp add: tidy_def trim_def q)
qed

lemma split_path_scoped:
  assumes "trailing_space rest = None"
  shows "split_path (scope_text sc @ CHR ''/'' # rest) = Inr (sc, rest)"
proof -
  have "split_once (CHR ''/'') (scope_text sc @ CHR ''/'' # rest) = Some (scope_text sc, rest)"
    using split_once_SomeI [of "CHR ''/''" "scope_text sc" rest] by (cases sc) auto
  then show ?thesis by (simp add: split_path_def tidy_scoped [OF assms])
qed

section \<open>What a guest can name\<close>

text \<open>
  C34. A guest's path leads into its own space or nowhere. Whatever was asked for, the key it resolves
  to is under the root of one of the turn's own three scopes, by a rest with no empty part before its
  end, no \<open>.\<close> or \<open>..\<close> part, no backslash and no control character; and no other turn's path leads to
  the same key unless the two turns share every identifier that scope is kept under.
\<close>
theorem guest_path_stays_in_its_space:
  assumes "uuid_forms e" and "resolve_path e sp p = Inr key"
  shows "\<exists>sc rest. key = root_for e sp sc @ rest \<and> rest \<noteq> [] \<and> plain_rest rest \<and>
    (\<forall>sp' p'. resolve_path e sp' p' = Inr key \<longrightarrow> owners sp' sc = owners sp sc)"
proof -
  obtain sc r rest where key: "key = root_for e sp sc @ rest" and "rest \<noteq> []" and r: "clean r = Inr rest"
    using assms(2) by (auto simp: resolve_path_Inr)
  moreover have "owners sp' sc = owners sp sc" if "resolve_path e sp' p' = Inr key" for sp' p'
    using that root_for_prefix_free [OF assms(1), of sp sc rest sp'] by (fastforce simp: resolve_path_Inr key)
  ultimately show ?thesis using clean_plain [OF r] by blast
qed

text \<open>
  A name in a listing opens the file it names: the path a key is handed back as resolves to that
  key again, for every key a path of the space leads to that does not end in white space.
\<close>
theorem listed_name_reads_back:
  assumes "uuid_forms e" and "resolve_path e sp p = Inr key" and "trailing_space key = None"
  shows "\<exists>q. strip_root e sp key = Some q \<and> resolve_path e sp q = Inr key"
proof -
  obtain sc r rest where key: "key = root_for e sp sc @ rest" and ne: "rest \<noteq> []" and r: "clean r = Inr rest"
    using assms(2) by (auto simp: resolve_path_Inr)
  obtain a where "root_for e sp sc = a @ ''/''" by (cases sc) auto
  then have "trailing_space rest = None" using assms(3) trailing_space_slash [of a rest] by (simp add: key)
  then show ?thesis
    using strip_root_own [OF assms(1)] split_path_scoped clean_of_plain [OF clean_plain [OF r]] ne
    by (auto simp: resolve_path_Inr key)
qed

definition example_space :: space where
  "example_space = \<lparr>sp_workspace = 1, sp_agent = 2, sp_session = 3\<rparr>"

lemma example_resolves:
  "resolve_path toy_outside example_space ''session/a'' = Inr (root_for toy_outside example_space Session @ ''a'')"
proof -
  have "trailing_space ''a'' = None" using trailing_space_graphic [of "CHR ''a''" "[]"] by (simp add: graphic_def byte_val_def)
  then have "split_path ''session/a'' = Inr (Session, ''a'')" using split_path_scoped [of "''a''" Session] by simp
  then show ?thesis by (simp add: resolve_path_Inr clean_def ends_with_def byte_val_def)
qed

theorem guest_path_stays_in_its_space_witness:
  "\<exists>rest. plain_rest rest \<and> root_for toy_outside example_space Session @ ''a'' = root_for toy_outside example_space Session @ rest"
  using guest_path_stays_in_its_space [OF toy_uuid_forms example_resolves]
    root_for_prefix_free [OF toy_uuid_forms] by blast

theorem listed_name_reads_back_witness:
  "\<exists>q. resolve_path toy_outside example_space q = Inr (root_for toy_outside example_space Session @ ''a'')"
proof -
  have "trailing_space (root_for toy_outside example_space Session @ ''a'') = None"
    by (rule trailing_space_graphic) (simp add: graphic_def byte_val_def)
  then show ?thesis using listed_name_reads_back [OF toy_uuid_forms example_resolves] by blast
qed

text \<open>
  Without that, a name may lose its end. A guest that asks for \<open>session/a /.\<close> writes a key that ends
  in a space; a listing names it \<open>session/a \<close>; and that name leads to another key.
\<close>

lemma name_ending_in_space_is_lost:
  assumes "uuid_forms e"
  shows "\<exists>q. resolve_path e sp ''session/a /.'' = Inr (root_for e sp Session @ ''a '') \<and>
    strip_root e sp (root_for e sp Session @ ''a '') = Some q \<and>
    resolve_path e sp q = Inr (root_for e sp Session @ ''a'')"
proof -
  have "trailing_space ''a /.'' = None"
    using trailing_space_graphic [of "CHR ''.''" "''a /''"] by (simp add: graphic_def byte_val_def)
  then have "split_path ''session/a /.'' = Inr (Session, ''a /.'')"
    using split_path_scoped [of "''a /.''" Session] by simp
  moreover have "clean ''a /.'' = Inr ''a ''" by (simp add: clean_def ends_with_def byte_val_def)
  moreover have "split_path ''session/a '' = Inr (Session, ''a'')"
  proof -
    have a: "trailing_space ''session/a'' = None"
      using trailing_space_graphic [of "CHR ''a''" "''session/''"] by (simp add: graphic_def byte_val_def)
    have "byte 32 = CHR '' ''" by (simp add: byte_def char_of_def bit_0)
    then have "trailing_space ''session/a '' = Some '' ''"
      by (simp add: trailing_space_def white_space_def ends_with_def byte_def)
    then have "trim_end ''session/a '' = ''session/a''"
      using a by (simp add: trim_end.simps [of "''session/a ''"] trim_end.simps [of "''session/a''"])
    moreover have "trim_start ''session/a '' = ''session/a ''"
      by (subst trim_start.simps) (simp add: leading_space_graphic graphic_def byte_val_def)
    ultimately have "tidy ''session/a '' = ''session/a''"
      by (simp add: tidy_def trim_def trim_start_text.simps starts_with_def)
    then show ?thesis by (simp add: split_path_def scope_parse_def)
  qed
  moreover have "clean ''a'' = Inr ''a''" by (simp add: clean_def ends_with_def byte_val_def)
  ultimately show ?thesis
    using strip_root_own [OF assms, of sp Session "''a ''"] by (auto simp: resolve_path_Inr)
qed

text \<open>A key counts against the workspace of the space it was resolved in.\<close>

lemma workspace_of_own:
  assumes "\<And>u. CHR ''/'' \<notin> set (uuid_text e u)" and "\<And>u. parse_uuid (uuid_text e u) = Some u"
  shows "workspace_of parse_uuid (root_for e sp sc @ rest) = Some (sp_workspace sp)"
    "belongs_to_workspace parse_uuid (root_for e sp sc @ rest) ws \<longleftrightarrow> ws = sp_workspace sp"
proof -
  have "strip_prefix (root_for e sp sc @ rest) ''extracted/'' = None" "\<not> starts_with (root_for e sp sc @ rest) ''extracted/''"
    by (cases sc; simp add: strip_prefix_def starts_with_def)+
  moreover have "split_once (CHR ''/'') (uuid_text e u @ CHR ''/'' # x) = Some (uuid_text e u, x)" for u x
    using assms(1) by (rule split_once_SomeI)
  ultimately show "workspace_of parse_uuid (root_for e sp sc @ rest) = Some (sp_workspace sp)"
    "belongs_to_workspace parse_uuid (root_for e sp sc @ rest) ws \<longleftrightarrow> ws = sp_workspace sp"
    by (cases sc; auto simp: workspace_of_def belongs_to_workspace_def ALL_SCOPES_def strip_prefix_def starts_with_def assms(2))+
qed

end
