(* ===== verification/ObjectStore.thy ===== *)
theory ObjectStore
  imports Scope "HOL-Library.AList" "HOL-Library.List_Lexorder" "HOL-Library.Char_ord"
begin

text \<open>
  Where files are kept: the trait of \<open>crates/core/src/storage/mod.rs\<close> as a locale, its default paging
  of a listing, and the in-memory store of \<open>storage/memory.rs\<close>, on which the locale is interpreted.
  A map of the source is an association list with one entry to a key; a writer or reader handed out
  is the value it holds.
\<close>

section \<open>Listings\<close>

record file_metadata =
  md_path :: string
  md_size :: nat
  md_is_dir :: bool

definition list_page_of :: "file_metadata list \<Rightarrow> string option \<Rightarrow> nat \<Rightarrow> file_metadata list \<times> bool" where
  "list_page_of entries after lim =
     (let page = take (lim + 1)
            (filter (\<lambda>f. case after of None \<Rightarrow> True | Some a \<Rightarrow> a < md_path f) (sort_key md_path entries))
      in (take lim page, length page > lim))"

section \<open>The store in memory\<close>

type_synonym upload = "string \<times> (nat \<times> bytes) list"

record memory_storage =
  files :: "(string \<times> bytes) list"
  uploads :: "(string \<times> upload) list"

definition new_memory :: memory_storage where
  "new_memory = \<lparr>files = [], uploads = []\<rparr>"

definition mem_read :: "memory_storage \<Rightarrow> string \<Rightarrow> nat \<Rightarrow> nat \<Rightarrow> storage_error + bytes" where
  "mem_read st path offset len =
     (case map_of (files st) path of
        None \<Rightarrow> Inl NotFound
      | Some content \<Rightarrow>
          if offset \<ge> length content then Inr []
          else
            (let stop = min (offset + len) (length content) in
             Inr (drop offset (take stop content))))"

definition mem_write :: "string \<Rightarrow> bytes \<Rightarrow> memory_storage \<Rightarrow> nat \<times> memory_storage" where
  "mem_write path content st = (length content, st\<lparr>files := AList.update path content (files st)\<rparr>)"

definition mem_stat :: "memory_storage \<Rightarrow> string \<Rightarrow> storage_error + file_metadata" where
  "mem_stat st path =
     (case map_of (files st) path of
        None \<Rightarrow> Inl NotFound
      | Some content \<Rightarrow> Inr \<lparr>md_path = path, md_size = length content, md_is_dir = False\<rparr>)"

definition mem_list :: "memory_storage \<Rightarrow> string \<Rightarrow> file_metadata list" where
  "mem_list st pre =
     map (\<lambda>(k, v). \<lparr>md_path = k, md_size = length v, md_is_dir = False\<rparr>)
       (filter (\<lambda>(k, _). starts_with k pre) (files st))"

definition mem_delete :: "string \<Rightarrow> memory_storage \<Rightarrow> storage_error + memory_storage" where
  "mem_delete path st =
     (case map_of (files st) path of
        None \<Rightarrow> Inl NotFound
      | Some _ \<Rightarrow> Inr (st\<lparr>files := AList.delete path (files st)\<rparr>))"

text \<open>An object written in pieces, held aside until it is finished.\<close>

record memory_writer =
  mw_path :: string
  mw_buf :: bytes

definition mem_open_writer :: "string \<Rightarrow> memory_writer" where
  "mem_open_writer path = \<lparr>mw_path = path, mw_buf = []\<rparr>"

definition writer_write :: "bytes \<Rightarrow> memory_writer \<Rightarrow> memory_writer" where
  "writer_write chunk mw = mw\<lparr>mw_buf := mw_buf mw @ chunk\<rparr>"

definition writer_finish :: "memory_writer \<Rightarrow> memory_storage \<Rightarrow> nat \<times> memory_storage" where
  "writer_finish mw st =
     (length (mw_buf mw), st\<lparr>files := AList.update (mw_path mw) (mw_buf mw) (files st)\<rparr>)"

text \<open>An object read from the front.\<close>

record memory_reader =
  mr_data :: bytes
  mr_at :: nat

definition mem_open_reader :: "memory_storage \<Rightarrow> string \<Rightarrow> storage_error + memory_reader" where
  "mem_open_reader st path =
     (case map_of (files st) path of
        None \<Rightarrow> Inl NotFound
      | Some content \<Rightarrow> Inr \<lparr>mr_data = content, mr_at = 0\<rparr>)"

definition reader_read :: "nat \<Rightarrow> memory_reader \<Rightarrow> bytes \<times> memory_reader" where
  "reader_read most rd =
     (let stop = min (mr_at rd + most) (length (mr_data rd)) in
      (drop (mr_at rd) (take stop (mr_data rd)), rd\<lparr>mr_at := stop\<rparr>))"

text \<open>An upload in pieces: by an identifier new each time, its pieces by number, each with its tag.\<close>

definition start_upload :: "string \<Rightarrow> string \<Rightarrow> memory_storage \<Rightarrow> memory_storage" where
  "start_upload ident path st = st\<lparr>uploads := AList.update ident (path, []) (uploads st)\<rparr>"

definition put_upload_part ::
  "outside \<Rightarrow> string \<Rightarrow> string \<Rightarrow> nat \<Rightarrow> bytes \<Rightarrow> memory_storage \<Rightarrow> storage_error + (string \<times> memory_storage)" where
  "put_upload_part e path ident number piece st =
     (case map_of (uploads st) ident of
        None \<Rightarrow> Inl NotFound
      | Some (at, parts) \<Rightarrow>
          if at \<noteq> path then Inl NotFound
          else
            Inr (hex_encode (sha256 e piece),
                 st\<lparr>uploads := AList.update ident (at, AList.update number piece parts) (uploads st)\<rparr>))"

fun join_parts :: "outside \<Rightarrow> (nat \<times> bytes) list \<Rightarrow> (nat \<times> string) list \<Rightarrow> nat + bytes" where
  "join_parts e stored [] = Inr []"
| "join_parts e stored ((number, etag) # rest) =
     (case map_of stored number of
        None \<Rightarrow> Inl number
      | Some piece \<Rightarrow>
          if hex_encode (sha256 e piece) \<noteq> etag then Inl number
          else (case join_parts e stored rest of Inl n \<Rightarrow> Inl n | Inr w \<Rightarrow> Inr (piece @ w)))"

definition complete_upload ::
  "outside \<Rightarrow> string \<Rightarrow> string \<Rightarrow> (nat \<times> string) list \<Rightarrow> memory_storage \<Rightarrow> (storage_error + unit) \<times> memory_storage" where
  "complete_upload e path ident parts st =
     (case map_of (uploads st) ident of
        None \<Rightarrow> (Inl NotFound, st)
      | Some (at, stored) \<Rightarrow>
          (let gone = st\<lparr>uploads := AList.delete ident (uploads st)\<rparr> in
           if at \<noteq> path then (Inl NotFound, gone)
           else
             (case join_parts e stored parts of
                Inl n \<Rightarrow> (Inl (IoError (nat_text n)), gone)
              | Inr whole \<Rightarrow> (Inr (), gone\<lparr>files := AList.update path whole (files gone)\<rparr>))))"

definition abort_upload :: "string \<Rightarrow> memory_storage \<Rightarrow> memory_storage" where
  "abort_upload ident st = st\<lparr>uploads := AList.delete ident (uploads st)\<rparr>"

section \<open>What a store promises\<close>

text \<open>
  The operations a caller has and what it may rely on, over the content a store holds under each key:
  a write replaces, a delete removes or says there was nothing, a read gives the piece asked for, and
  a listing names exactly the keys under its prefix, each once.
\<close>

locale object_store =
  fixes content :: "'s \<Rightarrow> string \<Rightarrow> bytes option"
    and wf :: "'s \<Rightarrow> bool"
    and put :: "string \<Rightarrow> bytes \<Rightarrow> 's \<Rightarrow> nat \<times> 's"
    and remove :: "string \<Rightarrow> 's \<Rightarrow> storage_error + 's"
    and read_at :: "'s \<Rightarrow> string \<Rightarrow> nat \<Rightarrow> nat \<Rightarrow> storage_error + bytes"
    and listing :: "'s \<Rightarrow> string \<Rightarrow> file_metadata list"
  assumes put_content: "content (snd (put k v s)) = (content s)(k \<mapsto> v)"
    and put_size: "fst (put k v s) = length v"
    and put_wf: "wf s \<Longrightarrow> wf (snd (put k v s))"
    and remove_Inr: "remove k s = Inr t \<Longrightarrow> content s k \<noteq> None \<and> content t = (content s)(k := None)"
    and remove_Inl: "remove k s = Inl err \<longleftrightarrow> err = NotFound \<and> content s k = None"
    and remove_wf: "wf s \<Longrightarrow> remove k s = Inr t \<Longrightarrow> wf t"
    and read_at: "read_at s k offset len =
      (case content s k of None \<Rightarrow> Inl NotFound | Some v \<Rightarrow> Inr (take len (drop offset v)))"
    and listing_paths: "md_path ` set (listing s p) = {k. content s k \<noteq> None \<and> starts_with k p}"
    and listing_distinct: "wf s \<Longrightarrow> distinct (map md_path (listing s p))"
begin

lemma read_back: "read_at (snd (put k v s)) k 0 (length v) = Inr v"
  by (simp add: read_at put_content)

text \<open>Removing what may not be there, as clearing stale text does.\<close>

lemma remove_either:
  "content (case remove k s of Inr t \<Rightarrow> t | Inl _ \<Rightarrow> s) = (content s)(k := None)"
proof (cases "remove k s")
  case (Inl err)
  then have "content s k = None" by (simp add: remove_Inl)
  then have "(content s)(k := None) = content s" by (rule fun_upd_idem)
  then show ?thesis by (simp add: Inl)
qed (use remove_Inr in simp)

lemma remove_either_wf: "wf s \<Longrightarrow> wf (case remove k s of Inr t \<Rightarrow> t | Inl _ \<Rightarrow> s)"
  by (auto dest: remove_wf split: sum.split)

text \<open>Reads from where the last one ended, joined, are one read.\<close>

lemma read_in_two:
  assumes "read_at s k offset n = Inr a" and "read_at s k (offset + length a) m = Inr b" and "length a = n"
  shows "read_at s k offset (n + m) = Inr (a @ b)"
  using assms by (auto simp: read_at take_add add.commute [of offset] split: option.splits)

end

definition mem_wf :: "memory_storage \<Rightarrow> bool" where
  "mem_wf st \<longleftrightarrow> distinct (map fst (files st))"

interpretation mem: object_store "map_of \<circ> files" mem_wf mem_write mem_delete mem_read mem_list
proof unfold_locales
  show "md_path ` set (mem_list s p) = {k. (map_of \<circ> files) s k \<noteq> None \<and> starts_with k p}" for s p
    by (force simp: mem_list_def image_iff map_of_eq_None_iff)
  show "mem_wf s \<Longrightarrow> distinct (map md_path (mem_list s p))" for s p
    by (auto simp: mem_list_def mem_wf_def comp_def case_prod_beta distinct_map filter_map inj_on_def
        intro: distinct_filter)
qed (auto simp: mem_write_def mem_delete_def mem_read_def mem_wf_def update_conv' delete_conv' Let_def
    distinct_update distinct_delete take_drop min_def add.commute split: option.splits)

section \<open>A listing read a page at a time\<close>

text \<open>A caller asking for page after page, each from the last name it was given, until there are no more.\<close>

fun walk_pages :: "nat \<Rightarrow> file_metadata list \<Rightarrow> string option \<Rightarrow> nat \<Rightarrow> file_metadata list" where
  "walk_pages 0 entries after lim = []"
| "walk_pages (Suc n) entries after lim =
     (case list_page_of entries after lim of
        (page, again) \<Rightarrow>
          if again then page @ walk_pages n entries (Some (md_path (last page))) lim else page)"

lemma filter_past:
  fixes key :: "'a \<Rightarrow> 'k::linorder"
  assumes "sorted_wrt (<) (map key xs)" and "j < length xs"
  shows "filter (\<lambda>x. key (xs ! j) < key x) xs = drop (Suc j) xs"
proof -
  have less: "key (xs ! a) < key (xs ! b)" if "a < b" "b < length xs" for a b
    using assms(1) that by (simp add: sorted_wrt_iff_nth_less)
  have "filter (\<lambda>x. key (xs ! j) < key x) (take (Suc j) xs) = []"
  proof -
    have "\<not> key (xs ! j) < key (xs ! a)" if "a \<le> j" for a
      using that less [of a j] assms(2) by (cases "a = j") auto
    then show ?thesis using assms(2) by (auto simp: filter_empty_conv in_set_conv_nth)
  qed
  moreover have "filter (\<lambda>x. key (xs ! j) < key x) (drop (Suc j) xs) = drop (Suc j) xs"
    using less [of j] by (auto simp: filter_id_conv in_set_conv_nth)
  ultimately show ?thesis
    by (metis append_Nil append_take_drop_id filter_append)
qed

lemma walk_pages_from:
  assumes "distinct (map md_path entries)" and "0 < lim"
    and "filter (\<lambda>f. case after of None \<Rightarrow> True | Some a \<Rightarrow> a < md_path f) (sort_key md_path entries) =
      drop k (sort_key md_path entries)"
    and "length entries \<le> n + k"
  shows "walk_pages n entries after lim = drop k (sort_key md_path entries)"
  using assms(3,4)
proof (induction n arbitrary: after k)
  case (Suc n)
  let ?xs = "sort_key md_path entries"
  have strict: "sorted_wrt (<) (map md_path ?xs)"
    using assms(1) by (simp add: strict_sorted_iff distinct_map)
  show ?case
  proof (cases "length (drop k ?xs) > lim")
    case False
    then show ?thesis using Suc.prems(1) by (auto simp: list_page_of_def Let_def)
  next
    case True
    let ?j = "k + lim - 1"
    have j: "?j < length ?xs" "Suc ?j = k + lim" using True assms(2) by auto
    have page: "list_page_of entries after lim = (take lim (drop k ?xs), True)"
      using True Suc.prems(1) by (auto simp: list_page_of_def Let_def min_def)
    have "last (take lim (drop k ?xs)) = ?xs ! ?j"
      using True assms(2) by (simp add: last_conv_nth)
    then have "walk_pages n entries (Some (md_path (last (take lim (drop k ?xs))))) lim = drop (k + lim) ?xs"
      using Suc.IH [of "Some (md_path (?xs ! ?j))" "k + lim"] Suc.prems(2) assms(2) filter_past [OF strict j(1)] j(2)
      by simp
    then show ?thesis using page by (simp add: add.commute) (metis append_take_drop_id drop_drop add.commute)
  qed
qed simp

text \<open>
  A listing read a page at a time is the whole listing, in order, each entry once: however small
  the page, asking for the next from the last name given until there are no more ends, after no more
  pages than there are entries, with every entry sorted by its path.
\<close>
theorem pages_make_the_listing:
  assumes "distinct (map md_path entries)" and "0 < lim" and "length entries \<le> n"
  shows "walk_pages n entries None lim = sort_key md_path entries"
  using walk_pages_from [OF assms(1,2), of None 0 n] assms(3) by simp

definition example_entry :: "string \<Rightarrow> file_metadata" where
  "example_entry p = \<lparr>md_path = p, md_size = 0, md_is_dir = False\<rparr>"

theorem pages_make_the_listing_witness:
  "walk_pages 3 [example_entry ''b'', example_entry ''c'', example_entry ''a''] None 2 =
     [example_entry ''a'', example_entry ''b'', example_entry ''c'']"
proof -
  have "sort_key md_path [example_entry ''b'', example_entry ''c'', example_entry ''a''] =
      [example_entry ''a'', example_entry ''b'', example_entry ''c'']"
    by (simp add: example_entry_def less_char_def of_char_def)
  then show ?thesis
    using pages_make_the_listing [of "[example_entry ''b'', example_entry ''c'', example_entry ''a'']" 2 3]
    by (simp add: example_entry_def)
qed

section \<open>An object sent in pieces\<close>

lemma join_parts_own_tags:
  assumes "list_all (\<lambda>n. map_of stored n \<noteq> None) ns"
  shows "join_parts e stored (map (\<lambda>n. (n, hex_encode (sha256 e (the (map_of stored n))))) ns) =
    Inr (concat (map (\<lambda>n. the (map_of stored n)) ns))"
  using assms by (induction ns) auto

text \<open>
  Completing an upload with the tags its pieces were given joins them in the order named and leaves
  every other object; an upload that fails to complete leaves every object.
\<close>

lemma complete_upload_content:
  "complete_upload e path ident parts st = (res, st') \<Longrightarrow>
     map_of (files st') = (case res of Inl _ \<Rightarrow> map_of (files st)
       | Inr _ \<Rightarrow> (map_of (files st))(path := map_of (files st') path))"
  by (auto simp: complete_upload_def Let_def update_conv' split: option.splits if_splits sum.splits)

lemma upload_parts_until_complete [simp]:
  "files (start_upload ident path st) = files st" "files (abort_upload ident st) = files st"
  "put_upload_part e path ident n piece st = Inr (tag, st') \<Longrightarrow> files st' = files st"
  by (auto simp: start_upload_def abort_upload_def put_upload_part_def split: option.splits if_splits)

end
