(* ===== verification/Admission.thy ===== *)
theory Admission
  imports Prelude "HOL-Library.Word" "HOL-Library.Multiset"
begin

text \<open>
  Whether a pod can take another turn: \<open>crates/runtime/src/admission.rs\<close>. First what the memory probe
  reads out of the cgroup's files, then the counters and the two admission decisions as functions,
  then the same decisions as the atomic steps they are made of, interleaved by any number of turns.
  A byte count is 64 bits and wraps as the atomic counter does; the semaphore is a count of slots.
\<close>

type_synonym u64 = "64 word"

section \<open>What the probe reads\<close>

text \<open>Files by path, \<open>None\<close> where one cannot be read.\<close>

type_synonym files = "string \<Rightarrow> string option"

definition parse_u64 :: "string \<Rightarrow> u64 option" where
  "parse_u64 s = map_option of_nat (parse_unsigned (2 ^ 64 - 1) s)"

definition saturating_sub :: "u64 \<Rightarrow> u64 \<Rightarrow> u64" where
  "saturating_sub a b = (if b \<le> a then a - b else 0)"

text \<open>\<open>str::lines\<close>: cut after each line feed, an end that is empty dropped, and a carriage return with it.\<close>

definition drop_return :: "string \<Rightarrow> string" where
  "drop_return l = (case strip_suffix l [byte 13] of Some r \<Rightarrow> r | None \<Rightarrow> l)"

definition text_lines :: "string \<Rightarrow> string list" where
  "text_lines s =
     (let parts = split_on (byte 10) s in
      map drop_return (butlast parts) @ (if last parts = [] then [] else [last parts]))"

definition read_u64 :: "files \<Rightarrow> string \<Rightarrow> u64 option" where
  "read_u64 fs path = (case fs path of None \<Rightarrow> None | Some s \<Rightarrow> parse_u64 (trim s))"

definition stat_of :: "string \<Rightarrow> string \<Rightarrow> u64 option" where
  "stat_of s key =
     (case find (\<lambda>(name, _). name = key) (List.map_filter (split_once (CHR '' '')) (text_lines s)) of
        None \<Rightarrow> None
      | Some (_, v) \<Rightarrow> parse_u64 (trim v))"

definition headroom :: "u64 \<Rightarrow> u64 \<Rightarrow> u64 \<Rightarrow> u64" where
  "headroom cap current inactive_file = saturating_sub cap (saturating_sub current inactive_file)"

definition or_zero :: "u64 option \<Rightarrow> u64" where
  "or_zero v = (case v of Some x \<Rightarrow> x | None \<Rightarrow> 0)"

definition or_empty :: "string option \<Rightarrow> string" where
  "or_empty v = (case v of Some x \<Rightarrow> x | None \<Rightarrow> [])"

definition cgroup_v2 :: "files \<Rightarrow> u64 option" where
  "cgroup_v2 fs =
     (case fs ''/sys/fs/cgroup/memory.max'' of
        None \<Rightarrow> None
      | Some text \<Rightarrow>
     (case parse_u64 (trim text) of
        None \<Rightarrow> None
      | Some cap \<Rightarrow>
     (case read_u64 fs ''/sys/fs/cgroup/memory.current'' of
        None \<Rightarrow> None
      | Some current \<Rightarrow>
          (let st = or_empty (fs ''/sys/fs/cgroup/memory.stat'') in
           Some (headroom cap current (or_zero (stat_of st ''inactive_file'')))))))"

definition cgroup_v1 :: "files \<Rightarrow> u64 option" where
  "cgroup_v1 fs =
     (case read_u64 fs ''/sys/fs/cgroup/memory/memory.limit_in_bytes'' of
        None \<Rightarrow> None
      | Some cap \<Rightarrow>
          if cap \<ge> (- 1) div 2 then None
          else
     (case read_u64 fs ''/sys/fs/cgroup/memory/memory.usage_in_bytes'' of
        None \<Rightarrow> None
      | Some current \<Rightarrow>
          (let st = or_empty (fs ''/sys/fs/cgroup/memory/memory.stat'') in
           Some (headroom cap current (or_zero (stat_of st ''total_inactive_file''))))))"

definition host_memory :: "files \<Rightarrow> u64 option" where
  "host_memory fs =
     (case fs ''/proc/meminfo'' of
        None \<Rightarrow> None
      | Some text \<Rightarrow>
     (case find (\<lambda>l. starts_with l ''MemAvailable:'') (text_lines text) of
        None \<Rightarrow> None
      | Some line \<Rightarrow>
     (case split_whitespace line of
        _ # kb # _ \<Rightarrow> map_option (\<lambda>n. n * 1024) (parse_u64 kb)
      | _ \<Rightarrow> None)))"

definition available_bytes :: "files \<Rightarrow> u64 option" where
  "available_bytes fs =
     (case cgroup_v2 fs of
        Some b \<Rightarrow> Some b
      | None \<Rightarrow> (case cgroup_v1 fs of Some b \<Rightarrow> Some b | None \<Rightarrow> host_memory fs))"

section \<open>The decisions\<close>

datatype refusal = AtCapacity nat nat | LowMemory u64 u64

definition DEFAULT_MAX_CONCURRENT_TURNS :: nat where "DEFAULT_MAX_CONCURRENT_TURNS = 8"
definition DEFAULT_MEMORY_RESERVE_BYTES :: u64 where "DEFAULT_MEMORY_RESERVE_BYTES = 256 * 1024 * 1024"
definition ASSUMED_TURN_BYTES :: u64 where "ASSUMED_TURN_BYTES = 100 * 1024 * 1024"

record admission =
  slots :: nat
  limit :: nat
  reserve_bytes :: u64
  assumed_turn_bytes :: u64
  reserved :: u64

definition with_assumption :: "nat \<Rightarrow> u64 \<Rightarrow> u64 \<Rightarrow> admission" where
  "with_assumption lim reserve assumed =
     \<lparr>slots = max lim 1, limit = max lim 1, reserve_bytes = reserve, assumed_turn_bytes = assumed,
      reserved = 0\<rparr>"

definition new_admission :: "nat \<Rightarrow> u64 \<Rightarrow> admission" where
  "new_admission lim reserve = with_assumption lim reserve ASSUMED_TURN_BYTES"

text \<open>The two variables, read where they can be.\<close>

definition admission_from_env :: "string option \<Rightarrow> string option \<Rightarrow> admission" where
  "admission_from_env turns reserve =
     new_admission
       (case Option.bind turns (parse_unsigned (2 ^ 64 - 1)) of Some n \<Rightarrow> n | None \<Rightarrow> DEFAULT_MAX_CONCURRENT_TURNS)
       (case Option.bind reserve parse_u64 of Some b \<Rightarrow> b | None \<Rightarrow> DEFAULT_MEMORY_RESERVE_BYTES)"

definition in_flight :: "admission \<Rightarrow> nat" where
  "in_flight a = limit a - slots a"

text \<open>What is free once what is spoken for is counted, and whether it is too little for a turn.\<close>

definition turn_refused :: "admission \<Rightarrow> u64 option \<Rightarrow> refusal option" where
  "turn_refused a available =
     (case available of
        None \<Rightarrow> None
      | Some bytes \<Rightarrow>
          (let free = saturating_sub bytes (reserved a);
               need = reserve_bytes a + assumed_turn_bytes a in
           if free < need then Some (LowMemory free need) else None))"

definition charge_refused :: "admission \<Rightarrow> u64 option \<Rightarrow> u64 \<Rightarrow> refusal option" where
  "charge_refused a available bytes =
     (case available of
        None \<Rightarrow> None
      | Some have \<Rightarrow>
          (let free = saturating_sub have (reserved a) in
           if free < bytes then Some (LowMemory free bytes) else None))"

text \<open>The permit or the charge handed out is what it holds: the bytes charged.\<close>

definition try_admit :: "u64 option \<Rightarrow> admission \<Rightarrow> (refusal + u64) \<times> admission" where
  "try_admit available a =
     (if slots a = 0 then (Inl (AtCapacity (limit a) (limit a)), a)
      else
        (let taken = a\<lparr>slots := slots a - 1\<rparr>;
             in_flight_before = limit a - slots taken - 1 in
         case (if in_flight_before > 0 then turn_refused taken available else None) of
           Some r \<Rightarrow> (Inl r, a)
         | None \<Rightarrow>
             (Inr (assumed_turn_bytes a), taken\<lparr>reserved := reserved a + assumed_turn_bytes a\<rparr>)))"

definition drop_permit :: "u64 \<Rightarrow> admission \<Rightarrow> admission" where
  "drop_permit charged a = a\<lparr>reserved := reserved a - charged, slots := slots a + 1\<rparr>"

definition try_charge :: "u64 option \<Rightarrow> u64 \<Rightarrow> admission \<Rightarrow> (refusal + u64) \<times> admission" where
  "try_charge available bytes a =
     (case (if in_flight a > 1 then charge_refused a available bytes else None) of
        Some r \<Rightarrow> (Inl r, a)
      | None \<Rightarrow> (Inr bytes, a\<lparr>reserved := reserved a + bytes\<rparr>))"

definition drop_charge :: "u64 \<Rightarrow> admission \<Rightarrow> admission" where
  "drop_charge bytes a = a\<lparr>reserved := reserved a - bytes\<rparr>"

section \<open>The decisions, a step at a time\<close>

text \<open>
  What each turn and each charge has done so far. A turn has taken its slot, or has had its memory
  looked at, or is carried and charged, or has given its charge back and not yet its slot.
\<close>

datatype turn = Slotted | Cleared | Carried | Leaving

datatype charge = Looked u64 | Held u64

record pod =
  adm :: admission
  turns :: "turn multiset"
  charges :: "charge multiset"

definition idle_pod :: "admission \<Rightarrow> pod" where
  "idle_pod a = \<lparr>adm = a, turns = {#}, charges = {#}\<rparr>"

inductive pod_step :: "pod \<Rightarrow> pod \<Rightarrow> bool" where
  take_slot: "slots (adm s) > 0 \<Longrightarrow>
    pod_step s (s\<lparr>adm := (adm s)\<lparr>slots := slots (adm s) - 1\<rparr>, turns := add_mset Slotted (turns s)\<rparr>)"
| refuse_turn: "Slotted \<in># turns s \<Longrightarrow> limit (adm s) - slots (adm s) - 1 > 0 \<Longrightarrow>
    turn_refused (adm s) available = Some r \<Longrightarrow>
    pod_step s (s\<lparr>adm := (adm s)\<lparr>slots := slots (adm s) + 1\<rparr>, turns := turns s - {#Slotted#}\<rparr>)"
| clear_turn: "Slotted \<in># turns s \<Longrightarrow>
    limit (adm s) - slots (adm s) - 1 = 0 \<or> turn_refused (adm s) available = None \<Longrightarrow>
    pod_step s (s\<lparr>turns := add_mset Cleared (turns s - {#Slotted#})\<rparr>)"
| carry_turn: "Cleared \<in># turns s \<Longrightarrow>
    pod_step s (s\<lparr>adm := (adm s)\<lparr>reserved := reserved (adm s) + assumed_turn_bytes (adm s)\<rparr>,
      turns := add_mset Carried (turns s - {#Cleared#})\<rparr>)"
| discharge_turn: "Carried \<in># turns s \<Longrightarrow>
    pod_step s (s\<lparr>adm := (adm s)\<lparr>reserved := reserved (adm s) - assumed_turn_bytes (adm s)\<rparr>,
      turns := add_mset Leaving (turns s - {#Carried#})\<rparr>)"
| leave_turn: "Leaving \<in># turns s \<Longrightarrow>
    pod_step s (s\<lparr>adm := (adm s)\<lparr>slots := slots (adm s) + 1\<rparr>, turns := turns s - {#Leaving#}\<rparr>)"
| look_charge: "in_flight (adm s) \<le> 1 \<or> charge_refused (adm s) available bytes = None \<Longrightarrow>
    pod_step s (s\<lparr>charges := add_mset (Looked bytes) (charges s)\<rparr>)"
| hold_charge: "Looked bytes \<in># charges s \<Longrightarrow>
    pod_step s (s\<lparr>adm := (adm s)\<lparr>reserved := reserved (adm s) + bytes\<rparr>,
      charges := add_mset (Held bytes) (charges s - {#Looked bytes#})\<rparr>)"
| free_charge: "Held bytes \<in># charges s \<Longrightarrow>
    pod_step s (s\<lparr>adm := (adm s)\<lparr>reserved := reserved (adm s) - bytes\<rparr>,
      charges := charges s - {#Held bytes#}\<rparr>)"

abbreviation pod_steps :: "pod \<Rightarrow> pod \<Rightarrow> bool" where
  "pod_steps \<equiv> pod_step\<^sup>*\<^sup>*"

inductive_cases pod_stepE: "pod_step s t"

section \<open>The accounts of a pod\<close>

fun held_bytes :: "charge \<Rightarrow> u64" where
  "held_bytes (Held b) = b"
| "held_bytes (Looked _) = 0"

definition spoken_for :: "pod \<Rightarrow> u64" where
  "spoken_for s =
     assumed_turn_bytes (adm s) * of_nat (count (turns s) Carried) + sum_mset (image_mset held_bytes (charges s))"

definition accounts_kept :: "admission \<Rightarrow> pod \<Rightarrow> bool" where
  "accounts_kept a s \<longleftrightarrow>
     limit (adm s) = limit a \<and> reserve_bytes (adm s) = reserve_bytes a \<and>
     assumed_turn_bytes (adm s) = assumed_turn_bytes a \<and>
     size (turns s) + slots (adm s) = limit a \<and> reserved (adm s) = spoken_for s"

lemmas admission_defs = accounts_kept_def spoken_for_def in_flight_def

lemma sum_held_remove:
  "c \<in># M \<Longrightarrow> sum_mset (image_mset held_bytes (M - {#c#})) = sum_mset (image_mset held_bytes M) - held_bytes c"
  by (drule multi_member_split) auto

lemma pod_step_accounts:
  assumes "accounts_kept a s" and "pod_step s t"
  shows "accounts_kept a t"
  using assms(2,1)
  by (cases rule: pod_step.cases)
    (auto simp: admission_defs sum_held_remove algebra_simps dest!: multi_member_split)

interpretation pod: invariant_relation pod_step "accounts_kept a" for a
  by unfold_locales (rule pod_step_accounts)

lemma idle_pod_accounts: "accounts_kept (with_assumption lim reserve assumed) (idle_pod (with_assumption lim reserve assumed))"
  by (simp add: admission_defs idle_pod_def with_assumption_def)

text \<open>
  C37. A pod never carries more turns than its limit and never loses track of its memory. However the
  steps of turns and charges are interleaved and whatever the probe reads, the slots given out and the
  slots left add up to the limit; the reservation is what the turns carried and the charges held come
  to; and once the last of them is gone the counters are those of a pod just started.
\<close>
theorem pod_accounts_balance:
  assumes "pod_steps (idle_pod (with_assumption lim reserve assumed)) s"
  shows "size (turns s) + slots (adm s) = max lim 1 \<and>
    reserved (adm s) =
      assumed * of_nat (count (turns s) Carried) + sum_mset (image_mset held_bytes (charges s)) \<and>
    (turns s = {#} \<and> charges s = {#} \<longrightarrow> adm s = with_assumption lim reserve assumed)"
proof -
  have "accounts_kept (with_assumption lim reserve assumed) s"
    by (rule pod.reach_keeps [OF assms idle_pod_accounts])
  then show ?thesis
    by (auto simp: admission_defs with_assumption_def intro!: admission.equality)
qed

lemma try_admit_steps:
  assumes "try_admit available (adm s) = (Inr c, a)"
  shows "pod_steps s (s\<lparr>adm := a, turns := add_mset Carried (turns s)\<rparr>)" (is "pod_steps s ?t")
    and "pod_steps (s\<lparr>adm := a, turns := add_mset Carried (turns s)\<rparr>) s" and "drop_permit c a = adm s"
proof -
  let ?taken = "(adm s)\<lparr>slots := slots (adm s) - 1\<rparr>"
  let ?u = "s\<lparr>adm := ?taken, turns := add_mset Slotted (turns s)\<rparr>"
  let ?v = "s\<lparr>adm := ?taken, turns := add_mset Cleared (turns s)\<rparr>"
  have free: "slots (adm s) > 0"
    and a: "c = assumed_turn_bytes (adm s)" "a = ?taken\<lparr>reserved := reserved (adm s) + assumed_turn_bytes (adm s)\<rparr>"
    and let_in: "limit (adm s) - slots ?taken - 1 = 0 \<or> turn_refused ?taken available = None"
    using assms by (auto simp: try_admit_def Let_def split: if_splits option.splits)
  have "pod_step s ?u" by (rule take_slot [OF free])
  moreover have "pod_step ?u ?v" using clear_turn [of ?u available] let_in by simp
  moreover have "pod_step ?v ?t" using carry_turn [of ?v] by (simp add: a)
  ultimately show "pod_steps s ?t"
    by (meson rtranclp.rtrancl_refl rtranclp.rtrancl_into_rtrancl)
  let ?w = "s\<lparr>adm := ?taken, turns := add_mset Leaving (turns s)\<rparr>"
  have "pod_step ?t ?w" using discharge_turn [of ?t] by (simp add: a)
  moreover have "pod_step ?w s" using leave_turn [of ?w] free by simp
  ultimately show "pod_steps ?t s" by (meson rtranclp.rtrancl_refl rtranclp.rtrancl_into_rtrancl)
  show "drop_permit c a = adm s" using free by (simp add: a drop_permit_def)
qed

lemma try_charge_steps:
  assumes "try_charge available bytes (adm s) = (Inr c, a)"
  shows "pod_steps s (s\<lparr>adm := a, charges := add_mset (Held c) (charges s)\<rparr>)" (is "pod_steps s ?t")
    and "pod_steps (s\<lparr>adm := a, charges := add_mset (Held c) (charges s)\<rparr>) s" and "drop_charge c a = adm s"
proof -
  let ?u = "s\<lparr>charges := add_mset (Looked bytes) (charges s)\<rparr>"
  have a: "c = bytes" "a = (adm s)\<lparr>reserved := reserved (adm s) + bytes\<rparr>"
    and let_in: "in_flight (adm s) \<le> 1 \<or> charge_refused (adm s) available bytes = None"
    using assms by (auto simp: try_charge_def split: if_splits option.splits)
  have "pod_step s ?u" using let_in by (rule look_charge)
  moreover have "pod_step ?u ?t" using hold_charge [of bytes ?u] by (simp add: a)
  ultimately show "pod_steps s ?t" by (meson rtranclp.rtrancl_refl rtranclp.rtrancl_into_rtrancl)
  have "pod_step ?t s" using free_charge [of bytes ?t] by (simp add: a)
  then show "pod_steps ?t s" by blast
  show "drop_charge c a = adm s" by (simp add: a drop_charge_def)
qed

lemma try_admit_refused:
  "try_admit available a = (Inl r, a') \<Longrightarrow> a' = a"
  by (auto simp: try_admit_def Let_def split: if_splits option.splits)

lemma try_charge_refused:
  "try_charge available bytes a = (Inl r, a') \<Longrightarrow> a' = a"
  by (auto simp: try_charge_def split: if_splits option.splits)

text \<open>
  The functions are runs of the steps. What \<open>try_admit\<close> and \<open>try_charge\<close> do at once is what their
  atomic steps do in a row, and dropping what they hand out leads back to where the pod was: so what
  holds of every interleaving holds of any use of them, and a refusal changes nothing.
\<close>
theorem admission_functions_refine_steps:
  "(case try_admit available (adm s) of
      (Inl r, a) \<Rightarrow> a = adm s
    | (Inr c, a) \<Rightarrow>
        pod_steps s (s\<lparr>adm := a, turns := add_mset Carried (turns s)\<rparr>) \<and>
        pod_steps (s\<lparr>adm := a, turns := add_mset Carried (turns s)\<rparr>) (s\<lparr>adm := drop_permit c a\<rparr>) \<and>
        drop_permit c a = adm s) \<and>
   (case try_charge available bytes (adm s) of
      (Inl r, a) \<Rightarrow> a = adm s
    | (Inr c, a) \<Rightarrow>
        pod_steps s (s\<lparr>adm := a, charges := add_mset (Held c) (charges s)\<rparr>) \<and>
        pod_steps (s\<lparr>adm := a, charges := add_mset (Held c) (charges s)\<rparr>) (s\<lparr>adm := drop_charge c a\<rparr>) \<and>
        drop_charge c a = adm s)"
  using try_admit_steps try_admit_refused try_charge_steps try_charge_refused
  by (fastforce split: prod.split sum.split)

text \<open>
  When a turn is refused. With a slot left, only on a pod already carrying another turn and only
  where what is free, once every charge is counted, is less than the reserve and a turn together; so
  a pod with every slot free takes any turn, whatever its memory reads.
\<close>
theorem turn_refused_only_when_short:
  assumes "slots a \<le> limit a" and "0 < limit a"
  shows "(\<exists>r a'. try_admit available a = (Inl r, a')) \<longleftrightarrow>
    slots a = 0 \<or>
    slots a < limit a \<and>
      (\<exists>bytes. available = Some bytes \<and>
        saturating_sub bytes (reserved a) < reserve_bytes a + assumed_turn_bytes a)"
  using assms by (auto simp: try_admit_def turn_refused_def Let_def split: option.splits if_splits)

text \<open>
  Two charges can be let in on the same free bytes. Each is looked at before either is counted, so
  both pass a check that, one after the other, only the first would.
\<close>

lemma charges_can_share_the_same_bytes:
  assumes "in_flight (adm s) > 1"
    and "try_charge (Some have) b (adm s) = (Inr b, a)" and "try_charge (Some have) b a = (Inl r, a)"
  shows "\<exists>t. pod_steps s t \<and> charges t = charges s + {#Held b, Held b#} \<and> reserved (adm t) = reserved (adm s) + b + b"
proof -
  have look: "charge_refused (adm s) (Some have) b = None"
    using assms(1,2) by (auto simp: try_charge_def split: if_splits option.splits)
  let ?s1 = "s\<lparr>charges := add_mset (Looked b) (charges s)\<rparr>"
  let ?s2 = "s\<lparr>charges := add_mset (Looked b) (add_mset (Looked b) (charges s))\<rparr>"
  let ?s3 = "s\<lparr>adm := (adm s)\<lparr>reserved := reserved (adm s) + b\<rparr>,
      charges := add_mset (Held b) (add_mset (Looked b) (charges s))\<rparr>"
  let ?s4 = "s\<lparr>adm := (adm s)\<lparr>reserved := reserved (adm s) + b + b\<rparr>,
      charges := add_mset (Held b) (add_mset (Held b) (charges s))\<rparr>"
  have "pod_step s ?s1" using look_charge [of s "Some have" b] look by simp
  moreover have "pod_step ?s1 ?s2" using look_charge [of ?s1 "Some have" b] look by simp
  moreover have "pod_step ?s2 ?s3" using hold_charge [of b ?s2] by simp
  moreover have "pod_step ?s3 ?s4" using hold_charge [of b ?s3] by (simp add: add_mset_commute)
  ultimately have "pod_steps s ?s4" by (meson rtranclp.rtrancl_refl rtranclp.rtrancl_into_rtrancl)
  then show ?thesis by (intro exI [of _ ?s4]) simp
qed

section \<open>Witnesses\<close>

definition busy_pod :: pod where
  "busy_pod = (idle_pod (with_assumption 2 0 100))
     \<lparr>adm := \<lparr>slots = 1, limit = 2, reserve_bytes = 0, assumed_turn_bytes = 100, reserved = 100\<rparr>,
      turns := {#Carried#}\<rparr>"

lemma busy_pod_reached: "pod_steps (idle_pod (with_assumption 2 0 100)) busy_pod"
  using try_admit_steps(1) [of None "idle_pod (with_assumption 2 0 100)"]
  by (simp add: try_admit_def with_assumption_def idle_pod_def busy_pod_def Let_def numeral_2_eq_2)

theorem pod_accounts_balance_witness:
  "size (turns busy_pod) + slots (adm busy_pod) = 2 \<and> reserved (adm busy_pod) = 100 * of_nat (count (turns busy_pod) Carried)"
  using pod_accounts_balance [OF busy_pod_reached] by (simp add: busy_pod_def idle_pod_def)

theorem turn_refused_only_when_short_witness:
  "\<exists>r a'. try_admit (Some 150) (adm busy_pod) = (Inl r, a')"
  using turn_refused_only_when_short [of "adm busy_pod" "Some 150"]
  by (simp add: busy_pod_def saturating_sub_def)

text \<open>Two turns, 250 bytes and 200 of them spoken for: 80 are let in where 50 are free.\<close>

lemma charges_can_share_the_same_bytes_example:
  "\<exists>t. pod_steps (busy_pod\<lparr>adm := (adm busy_pod)\<lparr>slots := 0, reserved := 200\<rparr>\<rparr>) t \<and> reserved (adm t) = 280"
proof -
  let ?s = "busy_pod\<lparr>adm := (adm busy_pod)\<lparr>slots := 0, reserved := 200\<rparr>\<rparr>"
  have "try_charge (Some 250) 40 (adm ?s) = (Inr 40, (adm ?s)\<lparr>reserved := 240\<rparr>)"
    and "try_charge (Some 250) 40 ((adm ?s)\<lparr>reserved := 240\<rparr>) = (Inl (LowMemory 10 40), (adm ?s)\<lparr>reserved := 240\<rparr>)"
    and "in_flight (adm ?s) > 1"
    by (simp_all add: busy_pod_def try_charge_def in_flight_def charge_refused_def saturating_sub_def)
  then show ?thesis using charges_can_share_the_same_bytes [of ?s 250 40] by fastforce
qed

end
