(* ===== verification/GuestFiles.thy ===== *)
theory GuestFiles
  imports ObjectStore Admission Utf8
begin

text \<open>
  Files as a guest reaches them: \<open>crates/runtime/src/component/storage.rs\<close>, over the store of
  \<open>ObjectStore\<close> and the admission of \<open>Admission\<close>. The host's part of a turn is a record; a call takes it
  and the store and hands both back. What the memory probe reads during a call is an argument, as are
  the renderer's answer and whether documents are read as text here at all. A message to the guest is
  the constructor that says which; the report to the API of each write is a list.
\<close>

section \<open>The host's part of a turn\<close>

definition MAX_OPEN_WRITERS :: nat where "MAX_OPEN_WRITERS = 4"
definition MAX_READ_CHUNK :: nat where "MAX_READ_CHUNK = 4 * 1024 * 1024"
definition MAX_LISTS_PER_TURN :: nat where "MAX_LISTS_PER_TURN = 1000"
definition PART_BYTES :: nat where "PART_BYTES = 5 * 1024 * 1024"
definition MAX_PDF_BYTES :: nat where "MAX_PDF_BYTES = 32 * 1024 * 1024"
definition BODY_FILE_LIMIT :: nat where "BODY_FILE_LIMIT = 32 * 1024 * 1024"

datatype stored_what = Wrote nat | Deleted

datatype guest_error =
    NoStorage | PathNotAllowed string | PathRefused refused_why | ScopeRefused storage_error
  | NoSkillCalled string | NoSkillFile string string "string list" nat
  | MayNotRead scope | MayNotWrite scope | SkillReadOnly
  | TurnLimit nat | StorageFull | ShortOfMemory | TooManyWriters | BadHandle
  | StorageFailed storage_error | NoFileAt string | NotText string string
  | NothingRead string | StillReading string | CouldNotRead string string | FileTooLarge string nat
  | TooManyLists | RenderFailed string

record writer_state =
  ws_inner :: memory_writer
  ws_path :: string
  ws_resolved :: string
  ws_charge :: "u64 option"

record guest_host =
  gh_space :: space
  gh_storage :: bool
  read_scopes :: "scope list"
  write_scopes :: "scope list"
  skill_files :: "skill_object list"
  bytes_written :: nat
  max_written_bytes :: nat
  remaining_stored_bytes :: "nat option"
  lists_used :: nat
  open_writers :: nat
  table :: "(nat \<times> writer_state) list"
  readers :: "(nat \<times> memory_reader) list"
  next_handle :: nat
  gh_admission :: "admission option"
  reads_documents :: bool
  reports :: "(string \<times> string \<times> stored_what) list"

definition clamp_read :: "nat \<Rightarrow> nat" where
  "clamp_read len = min len MAX_READ_CHUNK"

section \<open>What a call asks before it touches the store\<close>

text \<open>Memory charged to admission for as long as the call, or an open writer, holds it.\<close>

definition charge_memory :: "u64 option \<Rightarrow> nat \<Rightarrow> guest_host \<Rightarrow> guest_error + (u64 option \<times> guest_host)" where
  "charge_memory available bytes h =
     (case gh_admission h of
        None \<Rightarrow> Inr (None, h)
      | Some a \<Rightarrow>
          (case try_charge available (of_nat bytes) a of
             (Inl _, _) \<Rightarrow> Inl ShortOfMemory
           | (Inr c, a') \<Rightarrow> Inr (Some c, h\<lparr>gh_admission := Some a'\<rparr>)))"

definition release_charge :: "u64 option \<Rightarrow> guest_host \<Rightarrow> guest_host" where
  "release_charge charged h =
     (case charged of
        None \<Rightarrow> h
      | Some c \<Rightarrow> h\<lparr>gh_admission := map_option (drop_charge c) (gh_admission h)\<rparr>)"

definition skill_file :: "guest_host \<Rightarrow> string \<Rightarrow> guest_error + skill_object" where
  "skill_file h path =
     (case find (\<lambda>f. so_path f = path) (skill_files h) of
        Some f \<Rightarrow> Inr f
      | None \<Rightarrow>
          (let slug = (case skill_slug path of Some s \<Rightarrow> s | None \<Rightarrow> []);
               dir = skill_object_path slug [];
               siblings = map so_path (filter (\<lambda>f. starts_with (so_path f) dir) (skill_files h)) in
           if siblings = [] then Inl (NoSkillCalled slug)
           else Inl (NoSkillFile path dir (take 10 siblings) (length siblings - 10))))"

definition may_read :: "guest_host \<Rightarrow> string \<Rightarrow> guest_error + unit" where
  "may_read h path =
     try_step (map_error ScopeRefused (split_path path)) (\<lambda>(sc, _).
       check_that (sc \<in> set (read_scopes h)) (MayNotRead sc))"

definition may_write :: "guest_host \<Rightarrow> string \<Rightarrow> guest_error + unit" where
  "may_write h path =
     (if skill_path path \<noteq> None then Inl SkillReadOnly
      else
        try_step (map_error ScopeRefused (split_path path)) (\<lambda>(sc, _).
          check_that (sc \<in> set (write_scopes h)) (MayNotWrite sc)))"

definition path_message :: "string \<Rightarrow> storage_error \<Rightarrow> guest_error" where
  "path_message path err = (case err of RefusedPath m \<Rightarrow> PathRefused m | _ \<Rightarrow> PathNotAllowed path)"

definition object_at :: "outside \<Rightarrow> guest_host \<Rightarrow> string \<Rightarrow> guest_error + string" where
  "object_at e h path =
     (if \<not> gh_storage h then Inl NoStorage
      else
        (case skill_path path of
           Some (Inl _) \<Rightarrow> Inl (PathNotAllowed path)
         | Some (Inr tidied) \<Rightarrow>
             try_step (skill_file h tidied) (\<lambda>f. Inr (skill_blob_key e (so_workspace f) (so_sha256 f)))
         | None \<Rightarrow>
             try_step (may_read h path) (\<lambda>_.
               map_error (path_message path) (resolve_path e (gh_space h) path))))"

definition take_bytes :: "nat \<Rightarrow> guest_host \<Rightarrow> guest_error + guest_host" where
  "take_bytes bytes h =
     (let after = min (bytes_written h + bytes) (2 ^ 64 - 1) in
      if max_written_bytes h > 0 \<and> after > max_written_bytes h then Inl (TurnLimit (max_written_bytes h))
      else
        (case remaining_stored_bytes h of
           Some left \<Rightarrow> if after > left then Inl StorageFull else Inr (h\<lparr>bytes_written := after\<rparr>)
         | None \<Rightarrow> Inr (h\<lparr>bytes_written := after\<rparr>)))"

text \<open>What a write leaves behind: older text forgotten, and the API told.\<close>

definition delete_quietly :: "string \<Rightarrow> memory_storage \<Rightarrow> memory_storage" where
  "delete_quietly key st = (case mem_delete key st of Inr st' \<Rightarrow> st' | Inl _ \<Rightarrow> st)"

definition invalidate :: "string \<Rightarrow> memory_storage \<Rightarrow> memory_storage" where
  "invalidate key st = delete_quietly (failed_key key) (delete_quietly (text_key key) st)"

definition report_stored :: "string \<Rightarrow> string \<Rightarrow> stored_what \<Rightarrow> guest_host \<Rightarrow> guest_host" where
  "report_stored path key what h = h\<lparr>reports := reports h @ [(path, key, what)]\<rparr>"

section \<open>Writing\<close>

type_synonym files_state = "guest_host \<times> memory_storage"

definition write_object ::
  "outside \<Rightarrow> u64 option \<Rightarrow> string \<Rightarrow> bytes \<Rightarrow> files_state \<Rightarrow> (guest_error + nat) \<times> files_state" where
  "write_object e available path content s =
     (case s of (h, st) \<Rightarrow>
     (case try_step (may_write h path) (\<lambda>_. object_at e h path) of
        Inl err \<Rightarrow> (Inl err, h, st)
      | Inr key \<Rightarrow>
     (case charge_memory available (length content) h of
        Inl err \<Rightarrow> (Inl err, h, st)
      | Inr (c, h1) \<Rightarrow>
     (case take_bytes (length content) h1 of
        Inl err \<Rightarrow> (Inl err, release_charge c h1, st)
      | Inr h2 \<Rightarrow>
          (case mem_write key content st of
             (n, st1) \<Rightarrow>
               (Inr n, release_charge c (report_stored path key (Wrote n) h2), invalidate key st1))))))"

definition render_pdf ::
  "outside \<Rightarrow> u64 option \<Rightarrow> (string \<Rightarrow> string + bytes) \<Rightarrow> string \<Rightarrow> string \<Rightarrow> files_state
     \<Rightarrow> (guest_error + (string \<times> nat)) \<times> files_state" where
  "render_pdf e available render markdown destination s =
     (case s of (h, st) \<Rightarrow>
     (case try_step (may_write h destination) (\<lambda>_. object_at e h destination) of
        Inl err \<Rightarrow> (Inl err, h, st)
      | Inr key \<Rightarrow>
     (case charge_memory available (length markdown + MAX_PDF_BYTES) h of
        Inl err \<Rightarrow> (Inl err, h, st)
      | Inr (c, h1) \<Rightarrow>
     (case render markdown of
        Inl why \<Rightarrow> (Inl (RenderFailed why), release_charge c h1, st)
      | Inr pdf \<Rightarrow>
     (case take_bytes (length pdf) h1 of
        Inl err \<Rightarrow> (Inl err, release_charge c h1, st)
      | Inr h2 \<Rightarrow>
          (case mem_write key pdf st of
             (n, st1) \<Rightarrow>
               (Inr (destination, n), release_charge c (report_stored destination key (Wrote n) h2),
                invalidate key st1)))))))"

definition delete_object :: "outside \<Rightarrow> string \<Rightarrow> files_state \<Rightarrow> (guest_error + unit) \<times> files_state" where
  "delete_object e path s =
     (case s of (h, st) \<Rightarrow>
     (case try_step (may_write h path) (\<lambda>_. object_at e h path) of
        Inl err \<Rightarrow> (Inl err, h, st)
      | Inr key \<Rightarrow>
     (case mem_delete key st of
        Inl NotFound \<Rightarrow> (Inl (NoFileAt path), h, st)
      | Inl err \<Rightarrow> (Inl (StorageFailed err), h, st)
      | Inr st1 \<Rightarrow> (Inr (), report_stored path key Deleted h, invalidate key st1))))"

section \<open>Writing in pieces\<close>

definition open_writer :: "outside \<Rightarrow> u64 option \<Rightarrow> string \<Rightarrow> files_state \<Rightarrow> (guest_error + nat) \<times> files_state" where
  "open_writer e available path s =
     (case s of (h, st) \<Rightarrow>
     (case try_step (may_write h path) (\<lambda>_. object_at e h path) of
        Inl err \<Rightarrow> (Inl err, h, st)
      | Inr key \<Rightarrow>
          if open_writers h \<ge> MAX_OPEN_WRITERS then (Inl TooManyWriters, h, st)
          else
     (case charge_memory available PART_BYTES h of
        Inl err \<Rightarrow> (Inl err, h, st)
      | Inr (c, h1) \<Rightarrow>
          (Inr (next_handle h1),
           h1\<lparr>table := (next_handle h1, \<lparr>ws_inner = mem_open_writer key, ws_path = path,
                 ws_resolved = key, ws_charge = c\<rparr>) # table h1,
              open_writers := open_writers h1 + 1, next_handle := next_handle h1 + 1\<rparr>, st))))"

definition writer_chunk :: "u64 option \<Rightarrow> nat \<Rightarrow> bytes \<Rightarrow> files_state \<Rightarrow> (guest_error + unit) \<times> files_state" where
  "writer_chunk available handle chunk s =
     (case s of (h, st) \<Rightarrow>
     (case take_bytes (length chunk) h of
        Inl err \<Rightarrow> (Inl err, h, st)
      | Inr h1 \<Rightarrow>
     (case charge_memory available (length chunk) h1 of
        Inl err \<Rightarrow> (Inl err, h1, st)
      | Inr (c, h2) \<Rightarrow>
     (case map_of (table h2) handle of
        None \<Rightarrow> (Inl BadHandle, release_charge c h2, st)
      | Some w \<Rightarrow>
          (Inr (),
           release_charge c (h2\<lparr>table := AList.update handle
             (w\<lparr>ws_inner := writer_write chunk (ws_inner w)\<rparr>) (table h2)\<rparr>), st)))))"

definition close_writer :: "nat \<Rightarrow> guest_host \<Rightarrow> guest_host" where
  "close_writer handle h =
     h\<lparr>table := AList.delete handle (table h), open_writers := open_writers h - 1\<rparr>"

definition writer_done :: "nat \<Rightarrow> files_state \<Rightarrow> (guest_error + (string \<times> nat)) \<times> files_state" where
  "writer_done handle s =
     (case s of (h, st) \<Rightarrow>
     (case map_of (table h) handle of
        None \<Rightarrow> (Inl BadHandle, h, st)
      | Some w \<Rightarrow>
          (case writer_finish (ws_inner w) st of
             (n, st1) \<Rightarrow>
               (Inr (ws_path w, n),
                release_charge (ws_charge w)
                  (report_stored (ws_path w) (ws_resolved w) (Wrote n) (close_writer handle h)),
                invalidate (ws_resolved w) st1))))"

definition writer_drop :: "nat \<Rightarrow> files_state \<Rightarrow> (guest_error + unit) \<times> files_state" where
  "writer_drop handle s =
     (case s of (h, st) \<Rightarrow>
     (case map_of (table h) handle of
        None \<Rightarrow> (Inl BadHandle, h, st)
      | Some w \<Rightarrow> (Inr (), release_charge (ws_charge w) (close_writer handle h), st)))"

section \<open>Reading\<close>

text \<open>The charge for a piece is held while the call runs, and given back however it ends.\<close>

definition with_charge ::
  "u64 option \<Rightarrow> nat \<Rightarrow> guest_host \<Rightarrow> (guest_host \<Rightarrow> guest_error + 'a) \<Rightarrow> guest_error + 'a" where
  "with_charge available bytes h k = try_step (charge_memory available bytes h) (\<lambda>(_, h1). k h1)"

text \<open>What is said of a document whose text is not there: that reading it failed, or that it goes on.\<close>

definition no_text :: "memory_storage \<Rightarrow> string \<Rightarrow> string \<Rightarrow> guest_error" where
  "no_text st path key =
     (case mem_read st (failed_key key) 0 4096 of
        Inr why \<Rightarrow> CouldNotRead path (trim (from_utf8_lossy why))
      | Inl _ \<Rightarrow> StillReading path)"

definition read_object ::
  "outside \<Rightarrow> u64 option \<Rightarrow> string \<Rightarrow> nat \<Rightarrow> nat \<Rightarrow> files_state \<Rightarrow> guest_error + bytes" where
  "read_object e available path offset wanted s =
     (case s of (h, st) \<Rightarrow>
      let len = clamp_read wanted in
      with_charge available len h (\<lambda>h.
      try_step (object_at e h path) (\<lambda>key.
      if reads_documents h \<and> is_extractable key
      then
        (case mem_read st (text_key key) offset len of
           Inr bytes \<Rightarrow> if bytes = [] \<and> offset = 0 then Inl (NothingRead path) else Inr bytes
         | Inl NotFound \<Rightarrow> Inl (no_text st path key)
         | Inl err \<Rightarrow> Inl (StorageFailed err))
      else
        try_step (map_error StorageFailed (mem_read st key offset len)) (\<lambda>bytes.
          (case (if offset = 0 then describe_binary bytes else None) of
             Some what \<Rightarrow> Inl (NotText path what)
           | None \<Rightarrow> Inr bytes)))))"

definition read_bytes ::
  "outside \<Rightarrow> u64 option \<Rightarrow> string \<Rightarrow> nat \<Rightarrow> nat \<Rightarrow> files_state \<Rightarrow> guest_error + bytes" where
  "read_bytes e available path offset wanted s =
     (case s of (h, st) \<Rightarrow>
      let len = clamp_read wanted in
      with_charge available len h (\<lambda>h.
      try_step (object_at e h path) (\<lambda>key. map_error StorageFailed (mem_read st key offset len))))"

definition body_file :: "outside \<Rightarrow> string \<Rightarrow> files_state \<Rightarrow> guest_error + (memory_reader \<times> nat)" where
  "body_file e path s =
     (case s of (h, st) \<Rightarrow>
      try_step (object_at e h path) (\<lambda>key.
        (case (mem_stat st key, mem_open_reader st key) of
           (Inl NotFound, _) \<Rightarrow> Inl (NoFileAt path)
         | (Inl err, _) \<Rightarrow> Inl (StorageFailed err)
         | (Inr _, Inl NotFound) \<Rightarrow> Inl (NoFileAt path)
         | (Inr _, Inl err) \<Rightarrow> Inl (StorageFailed err)
         | (Inr md, Inr rd) \<Rightarrow>
             if md_size md > BODY_FILE_LIMIT then Inl (FileTooLarge path (md_size md))
             else Inr (rd, md_size md))))"

definition stat_object :: "outside \<Rightarrow> string \<Rightarrow> files_state \<Rightarrow> guest_error + (string \<times> nat)" where
  "stat_object e path s =
     (case s of (h, st) \<Rightarrow>
      try_step (object_at e h path) (\<lambda>key.
        let extracting = reads_documents h \<and> is_extractable key in
        (case mem_stat st (if extracting then text_key key else key) of
           Inr md \<Rightarrow> Inr (path, md_size md)
         | Inl err \<Rightarrow>
             if err = NotFound \<and> extracting then Inl (no_text st path key)
             else Inl (StorageFailed err))))"

definition open_reader :: "outside \<Rightarrow> string \<Rightarrow> files_state \<Rightarrow> (guest_error + nat) \<times> files_state" where
  "open_reader e path s =
     (case s of (h, st) \<Rightarrow>
     (case try_step (object_at e h path) (\<lambda>key. map_error StorageFailed (mem_open_reader st key)) of
        Inl err \<Rightarrow> (Inl err, h, st)
      | Inr rd \<Rightarrow>
          (Inr (next_handle h),
           h\<lparr>readers := (next_handle h, rd) # readers h, next_handle := next_handle h + 1\<rparr>, st)))"

definition reader_piece :: "u64 option \<Rightarrow> nat \<Rightarrow> nat \<Rightarrow> files_state \<Rightarrow> (guest_error + bytes) \<times> files_state" where
  "reader_piece available handle wanted s =
     (case s of (h, st) \<Rightarrow>
      let len = clamp_read wanted in
     (case charge_memory available len h of
        Inl err \<Rightarrow> (Inl err, h, st)
      | Inr (c, h1) \<Rightarrow>
     (case map_of (readers h1) handle of
        None \<Rightarrow> (Inl BadHandle, release_charge c h1, st)
      | Some rd \<Rightarrow>
          (case reader_read len rd of
             (bytes, rd') \<Rightarrow>
               (Inr bytes, release_charge c (h1\<lparr>readers := AList.update handle rd' (readers h1)\<rparr>), st)))))"

definition reader_drop :: "nat \<Rightarrow> files_state \<Rightarrow> (guest_error + unit) \<times> files_state" where
  "reader_drop handle s =
     (case s of (h, st) \<Rightarrow>
     (case map_of (readers h) handle of
        None \<Rightarrow> (Inl BadHandle, h, st)
      | Some _ \<Rightarrow> (Inr (), h\<lparr>readers := AList.delete handle (readers h)\<rparr>, st)))"

section \<open>Listing\<close>

definition skill_entries :: "guest_host \<Rightarrow> string \<Rightarrow> (string \<times> nat) list" where
  "skill_entries h folder =
     map (\<lambda>f. (so_path f, so_bytes f)) (filter (\<lambda>f. starts_with (so_path f) folder) (skill_files h))"

text \<open>The sizes of the text read out of documents under a prefix, by the document's key.\<close>

definition text_sizes :: "guest_host \<Rightarrow> memory_storage \<Rightarrow> string \<Rightarrow> (string \<times> nat) list" where
  "text_sizes h st pre =
     (if \<not> reads_documents h then []
      else
        List.map_filter (\<lambda>t. map_option (\<lambda>key. (key, md_size t)) (strip_prefix (md_path t) ''extracted/''))
          (filter (\<lambda>t. \<not> md_is_dir t) (mem_list st (text_key pre))))"

definition listed_under :: "outside \<Rightarrow> guest_host \<Rightarrow> memory_storage \<Rightarrow> string \<Rightarrow> (string \<times> nat) list" where
  "listed_under e h st pre =
     List.map_filter (\<lambda>f.
         map_option (\<lambda>path. (path, case map_of (text_sizes h st pre) (md_path f) of Some n \<Rightarrow> n | None \<Rightarrow> md_size f))
           (strip_root e (gh_space h) (md_path f)))
       (filter (\<lambda>f. \<not> md_is_dir f) (mem_list st pre))"

definition list_objects ::
  "outside \<Rightarrow> string \<Rightarrow> files_state \<Rightarrow> (guest_error + (string \<times> nat) list) \<times> files_state" where
  "list_objects e pre s =
     (case s of (h0, st) \<Rightarrow>
      let h = h0\<lparr>lists_used := lists_used h0 + 1\<rparr> in
      if lists_used h > MAX_LISTS_PER_TURN then (Inl TooManyLists, h, st)
      else if \<not> gh_storage h then (Inl NoStorage, h, st)
      else
        (case skill_path pre of
           Some (Inl err) \<Rightarrow> (Inl (ScopeRefused err), h, st)
         | Some (Inr folder) \<Rightarrow> (Inr (skill_entries h folder), h, st)
         | None \<Rightarrow>
             (let everything = (trim pre = []) in
              case (if everything
                    then Inr (map (root_for e (gh_space h)) (filter (\<lambda>sc. sc \<in> set (read_scopes h)) ALL_SCOPES))
                    else
                      try_step (may_read h pre) (\<lambda>_.
                        map_error ScopeRefused (map_sum id (\<lambda>p. [p]) (resolve_prefix e (gh_space h) pre)))) of
                Inl err \<Rightarrow> (Inl err, h, st)
              | Inr roots \<Rightarrow>
                  (Inr (concat (map (listed_under e h st) roots) @
                        (if everything then skill_entries h SKILL_ROOT else [])), h, st))))"

section \<open>A turn's calls\<close>

datatype guest_call =
    Write string bytes | Render "string \<Rightarrow> string + bytes" string string | Delete string
  | OpenWriter string | Chunk nat bytes | Finish nat | DropWriter nat
  | OpenReader string | Piece nat nat | DropReader nat | ListFiles string

text \<open>A call with what the probe reads while it runs; reads that keep no reader change nothing.\<close>

fun guest_step :: "outside \<Rightarrow> files_state \<Rightarrow> u64 option \<times> guest_call \<Rightarrow> files_state" where
  "guest_step e s (av, Write path content) = snd (write_object e av path content s)"
| "guest_step e s (av, Render render markdown path) = snd (render_pdf e av render markdown path s)"
| "guest_step e s (av, Delete path) = snd (delete_object e path s)"
| "guest_step e s (av, OpenWriter path) = snd (open_writer e av path s)"
| "guest_step e s (av, Chunk handle chunk) = snd (writer_chunk av handle chunk s)"
| "guest_step e s (av, Finish handle) = snd (writer_done handle s)"
| "guest_step e s (av, DropWriter handle) = snd (writer_drop handle s)"
| "guest_step e s (av, OpenReader path) = snd (open_reader e path s)"
| "guest_step e s (av, Piece handle n) = snd (reader_piece av handle n s)"
| "guest_step e s (av, DropReader handle) = snd (reader_drop handle s)"
| "guest_step e s (av, ListFiles pre) = snd (list_objects e pre s)"

section \<open>What a call may do\<close>

text \<open>A key the turn may write: a plain path under the root of one of its writable scopes.\<close>

definition writable :: "outside \<Rightarrow> guest_host \<Rightarrow> string \<Rightarrow> bool" where
  "writable e h key \<longleftrightarrow>
     (\<exists>sc \<in> set (write_scopes h). \<exists>rest. plain_rest rest \<and> rest \<noteq> [] \<and> key = root_for e (gh_space h) sc @ rest)"

text \<open>
  The effects there are, without how a call comes to have one: nothing; what is kept of listings and
  readers; bytes counted; an object stored or removed with what was read out of the old one; a writer
  opened, given a chunk, finished or let go.
\<close>

inductive turn_effect :: "outside \<Rightarrow> files_state \<Rightarrow> files_state \<Rightarrow> bool" for e where
  nothing: "turn_effect e s s"
| aside: "next_handle h \<le> n \<Longrightarrow>
    turn_effect e (h, st) (h\<lparr>lists_used := l, readers := rs, next_handle := n\<rparr>, st)"
| counted: "take_bytes n h = Inr h1 \<Longrightarrow> turn_effect e (h, st) (h1, st)"
| stored: "writable e h key \<Longrightarrow> take_bytes (length v) h = Inr h1 \<Longrightarrow>
    turn_effect e (h, st) (report_stored path key (Wrote (length v)) h1, invalidate key (snd (mem_write key v st)))"
| removed: "writable e h key \<Longrightarrow> mem_delete key st = Inr st1 \<Longrightarrow>
    turn_effect e (h, st) (report_stored path key Deleted h, invalidate key st1)"
| opened: "writable e h key \<Longrightarrow> open_writers h < MAX_OPEN_WRITERS \<Longrightarrow>
    charge_memory available PART_BYTES h = Inr (c, h1) \<Longrightarrow>
    turn_effect e (h, st)
      (h1\<lparr>table := (next_handle h1, \<lparr>ws_inner = mem_open_writer key, ws_path = path,
             ws_resolved = key, ws_charge = c\<rparr>) # table h1,
          open_writers := open_writers h1 + 1, next_handle := next_handle h1 + 1\<rparr>, st)"
| chunk: "take_bytes (length part) h = Inr h1 \<Longrightarrow> map_of (table h1) i = Some w \<Longrightarrow>
    turn_effect e (h, st)
      (h1\<lparr>table := AList.update i (w\<lparr>ws_inner := writer_write part (ws_inner w)\<rparr>) (table h1)\<rparr>, st)"
| finished: "map_of (table h) i = Some w \<Longrightarrow>
    turn_effect e (h, st)
      (release_charge (ws_charge w)
         (report_stored (ws_path w) (ws_resolved w) (Wrote (length (mw_buf (ws_inner w)))) (close_writer i h)),
       invalidate (ws_resolved w) (snd (writer_finish (ws_inner w) st)))"
| abandoned: "map_of (table h) i = Some w \<Longrightarrow>
    turn_effect e (h, st) (release_charge (ws_charge w) (close_writer i h), st)"

lemma release_charge_eq:
  "release_charge c h = h\<lparr>gh_admission := map_option (\<lambda>a. a\<lparr>reserved := reserved a - or_zero c\<rparr>) (gh_admission h)\<rparr>"
  by (cases c; cases "gh_admission h")
    (auto simp: release_charge_def or_zero_def drop_charge_def intro!: guest_host.equality)

lemma charge_memory_Inr:
  "charge_memory available n h = Inr (c, h1) \<Longrightarrow>
     h1 = h\<lparr>gh_admission := map_option (\<lambda>a. a\<lparr>reserved := reserved a + or_zero c\<rparr>) (gh_admission h)\<rparr>"
  by (auto simp: charge_memory_def try_charge_def or_zero_def split: option.splits if_splits
      intro!: guest_host.equality)

lemma charge_released:
  "charge_memory available n h = Inr (c, h1) \<Longrightarrow> release_charge c h1 = h"
  by (drule charge_memory_Inr) (auto simp: release_charge_eq option.map_comp comp_def option.map_ident
      intro!: guest_host.equality)

lemma take_bytes_Inr: "take_bytes n h = Inr h1 \<Longrightarrow> h1 = h\<lparr>bytes_written := min (bytes_written h + n) (2 ^ 64 - 1)\<rparr>"
  by (auto simp: take_bytes_def Let_def split: if_splits option.splits)

lemma take_bytes_charged:
  assumes "charge_memory available m h = Inr (c, h1)"
  shows "take_bytes n h1 =
    map_sum id (\<lambda>h'. h'\<lparr>gh_admission := gh_admission h1\<rparr>) (take_bytes n h)"
  using charge_memory_Inr [OF assms] by (auto simp: take_bytes_def Let_def split: option.split)

lemma may_write_writable:
  assumes "may_write h path = Inr ()" and "object_at e h path = Inr key"
  shows "writable e h key"
proof -
  obtain sc r where sc: "skill_path path = None" "split_path path = Inr (sc, r)" "sc \<in> set (write_scopes h)"
    using assms by (auto simp: may_write_def split: if_splits)
  then have "resolve_path e (gh_space h) path = Inr key"
    using assms by (auto simp: object_at_def split: if_splits)
  then show ?thesis
    using sc clean_plain by (auto simp: resolve_path_Inr writable_def)
qed

lemma release_commutes:
  "release_charge c (report_stored p k what h) = report_stored p k what (release_charge c h)"
  "release_charge c (h\<lparr>table := t\<rparr>) = (release_charge c h)\<lparr>table := t\<rparr>"
  "release_charge c (h\<lparr>readers := rs\<rparr>) = (release_charge c h)\<lparr>readers := rs\<rparr>"
  by (simp_all add: release_charge_eq report_stored_def)

lemma charge_memory_keeps:
  "charge_memory available n h = Inr (c, h1) \<Longrightarrow>
     table h1 = table h \<and> readers h1 = readers h \<and> next_handle h1 = next_handle h \<and> open_writers h1 = open_writers h"
  by (drule charge_memory_Inr) simp

lemma counted_while_charged:
  assumes "charge_memory available m h = Inr (c, h1)" and "take_bytes n h1 = Inr h2"
  shows "take_bytes n h = Inr (release_charge c h2)"
proof -
  obtain h3 where h3: "take_bytes n h = Inr h3" "h2 = h3\<lparr>gh_admission := gh_admission h1\<rparr>"
    using assms(2) take_bytes_charged [OF assms(1), of n] by (cases "take_bytes n h") auto
  have "gh_admission h3 = gh_admission h" using take_bytes_Inr [OF h3(1)] by simp
  moreover have "gh_admission (release_charge c h1) = gh_admission h" using charge_released [OF assms(1)] by simp
  ultimately have "release_charge c h2 = h3" by (simp add: h3(2) release_charge_eq)
  then show ?thesis using h3(1) by simp
qed

text \<open>A step that hands the pair back unchanged, or with an effect there is a rule for.\<close>

lemma stored_effect:
  assumes "may_write h path = Inr ()" and "object_at e h path = Inr key"
    and "charge_memory available m h = Inr (c, h1)" and "take_bytes (length v) h1 = Inr h2"
  shows "turn_effect e (h, st)
    (release_charge c (report_stored path key (Wrote (length v)) h2), invalidate key (snd (mem_write key v st)))"
  using turn_effect.stored [OF may_write_writable [OF assms(1,2)] counted_while_charged [OF assms(3,4)]]
  by (simp add: release_commutes)

lemma write_object_effect: "turn_effect e s (snd (write_object e available path v s))"
  by (cases s) (auto simp: write_object_def mem_write_def charge_released
      intro: turn_effect.nothing dest: stored_effect [unfolded mem_write_def] split: sum.split prod.split)

lemma render_pdf_effect: "turn_effect e s (snd (render_pdf e available render markdown path s))"
  by (cases s) (auto simp: render_pdf_def mem_write_def charge_released
      intro: turn_effect.nothing dest: stored_effect [unfolded mem_write_def] split: sum.split prod.split)

lemma delete_object_effect: "turn_effect e s (snd (delete_object e path s))"
  by (cases s) (auto simp: delete_object_def
      intro: turn_effect.nothing turn_effect.removed may_write_writable split: sum.split storage_error.split)

lemma open_writer_effect: "turn_effect e s (snd (open_writer e available path s))"
  by (cases s) (auto simp: open_writer_def charge_memory_keeps
      intro: turn_effect.nothing dest: turn_effect.opened [OF may_write_writable] split: sum.split prod.split)

lemma writer_chunk_effect: "turn_effect e s (snd (writer_chunk available i part s))"
proof -
  obtain h st where s: "s = (h, st)" by fastforce
  show ?thesis
  proof (cases "take_bytes (length part) h")
    case (Inl err)
    then show ?thesis by (simp add: s writer_chunk_def turn_effect.nothing)
  next
    case (Inr h1)
    show ?thesis
    proof (cases "charge_memory available (length part) h1")
      case (Inl err)
      then show ?thesis using Inr by (simp add: s writer_chunk_def turn_effect.counted)
    next
      case charged: (Inr ch)
      obtain c h2 where ch: "ch = (c, h2)" by fastforce
      have tab: "table h2 = table h1" and rel: "release_charge c h2 = h1"
        using charged ch charge_memory_keeps charge_released by auto
      show ?thesis
        using Inr charged turn_effect.counted [OF Inr] turn_effect.chunk [OF Inr]
        by (auto simp: s ch writer_chunk_def tab rel release_commutes split: option.split)
    qed
  qed
qed

lemma writer_done_effect: "turn_effect e s (snd (writer_done i s))"
  by (cases s) (auto simp: writer_done_def writer_finish_def
      intro: turn_effect.nothing turn_effect.finished [unfolded writer_finish_def snd_conv] split: option.split)

lemma writer_drop_effect: "turn_effect e s (snd (writer_drop i s))"
  by (cases s) (auto simp: writer_drop_def intro: turn_effect.nothing turn_effect.abandoned split: option.split)

lemma aside_readers: "turn_effect e (h, st) (h\<lparr>readers := rs\<rparr>, st)"
  using turn_effect.aside [where h = h and n = "next_handle h" and l = "lists_used h" and rs = rs] by simp

lemma reader_piece_effect: "turn_effect e s (snd (reader_piece available i n s))"
proof -
  obtain h st where s: "s = (h, st)" by fastforce
  show ?thesis
    by (auto simp: s reader_piece_def Let_def charge_released charge_memory_keeps release_commutes
        intro: turn_effect.nothing aside_readers split: sum.split option.split prod.split)
qed

lemma reader_handles_effect:
  "turn_effect e s (snd (open_reader e path s))" "turn_effect e s (snd (reader_drop i s))"
proof -
  obtain h st where s: "s = (h, st)" by fastforce
  show "turn_effect e s (snd (open_reader e path s))"
    using turn_effect.aside [where h = h and n = "next_handle h + 1" and l = "lists_used h"]
    by (auto simp: s open_reader_def intro: turn_effect.nothing split: sum.split)
  show "turn_effect e s (snd (reader_drop i s))"
    by (auto simp: s reader_drop_def intro: turn_effect.nothing aside_readers split: option.split)
qed

lemma list_objects_effect: "turn_effect e s (snd (list_objects e pre s))"
proof -
  obtain h st where s: "s = (h, st)" by fastforce
  show ?thesis
    using turn_effect.aside [where h = h and n = "next_handle h" and l = "lists_used h + 1" and rs = "readers h"]
    by (auto simp: s list_objects_def Let_def split: sum.split option.split)
qed

lemma guest_step_effect: "turn_effect e s (guest_step e s ev)"
  by (cases "(e, s, ev)" rule: guest_step.cases)
    (simp_all add: write_object_effect render_pdf_effect delete_object_effect open_writer_effect
      writer_chunk_effect writer_done_effect writer_drop_effect reader_piece_effect reader_handles_effect
      list_objects_effect)

section \<open>What a turn's calls keep\<close>

text \<open>What was granted to the turn is not among what its calls change.\<close>

definition same_grants :: "guest_host \<Rightarrow> guest_host \<Rightarrow> bool" where
  "same_grants h0 h \<longleftrightarrow>
     gh_space h = gh_space h0 \<and> gh_storage h = gh_storage h0 \<and> read_scopes h = read_scopes h0 \<and>
     write_scopes h = write_scopes h0 \<and> skill_files h = skill_files h0 \<and>
     max_written_bytes h = max_written_bytes h0 \<and> remaining_stored_bytes h = remaining_stored_bytes h0 \<and>
     reads_documents h = reads_documents h0"

text \<open>A key a write may change: one the turn may write, or what was read out of the object there.\<close>

definition within_reach :: "outside \<Rightarrow> guest_host \<Rightarrow> string \<Rightarrow> bool" where
  "within_reach e h k \<longleftrightarrow> (\<exists>key. writable e h key \<and> k \<in> {key, text_key key, failed_key key})"

definition kept_in_scope :: "outside \<Rightarrow> files_state \<Rightarrow> files_state \<Rightarrow> bool" where
  "kept_in_scope e s0 s \<longleftrightarrow>
     same_grants (fst s0) (fst s) \<and>
     (\<forall>(i, w) \<in> set (table (fst s)). writable e (fst s0) (ws_resolved w) \<and> mw_path (ws_inner w) = ws_resolved w) \<and>
     (\<forall>k. \<not> within_reach e (fst s0) k \<longrightarrow> map_of (files (snd s)) k = map_of (files (snd s0)) k)"

lemma same_grants_writable: "same_grants h0 h \<Longrightarrow> writable e h = writable e h0"
  by (simp add: same_grants_def writable_def fun_eq_iff)

lemma delete_quietly_content: "map_of (files (delete_quietly k st)) = (map_of (files st))(k := None)"
  using mem.remove_either [of st k] by (simp add: delete_quietly_def comp_def)

lemma invalidate_content:
  "map_of (files (invalidate key st)) = (map_of (files st))(text_key key := None, failed_key key := None)"
  by (simp add: invalidate_def delete_quietly_content)

lemmas store_content = invalidate_content mem.put_content [unfolded comp_def]

lemma outside_reach:
  assumes "\<not> within_reach e h k" and "writable e h key"
  shows "k \<noteq> key" "k \<noteq> text_key key" "k \<noteq> failed_key key"
  using assms by (auto simp: within_reach_def)

lemma set_update_table:
  "(j, v) \<in> set (AList.update i w xs) \<Longrightarrow> (j, v) \<in> set xs \<or> (j = i \<and> v = w)"
  by (induction xs) (auto split: if_splits)

lemma table_entry: "map_of t i = Some w \<Longrightarrow> (i, w) \<in> set t"
  by (rule map_of_SomeD)

lemma close_kept:
  assumes "kept_in_scope e s0 (h, st)"
  shows "kept_in_scope e s0 (release_charge c (close_writer i h), st)"
proof -
  have "set (AList.delete i (table h)) \<subseteq> set (table h)" by (auto simp: AList.delete_eq)
  then show ?thesis
    using assms by (auto simp: kept_in_scope_def same_grants_def release_charge_eq close_writer_def)
qed

lemma report_kept:
  "kept_in_scope e s0 (h, st) \<Longrightarrow> kept_in_scope e s0 (report_stored path key what h, st)"
  by (simp add: kept_in_scope_def same_grants_def report_stored_def)

lemma store_kept:
  assumes "kept_in_scope e s0 (h, st)" and "writable e (fst s0) key"
    and "\<And>k. k \<notin> {key, text_key key, failed_key key} \<Longrightarrow> map_of (files st') k = map_of (files st) k"
  shows "kept_in_scope e s0 (h, st')"
  using assms by (auto simp: kept_in_scope_def within_reach_def)

lemma effect_kept_in_scope:
  assumes "turn_effect e s t" and "kept_in_scope e s0 s"
  shows "kept_in_scope e s0 t"
  using assms
proof (cases rule: turn_effect.cases)
  case (aside h n st l rs)
  then show ?thesis using assms(2) by (simp add: kept_in_scope_def same_grants_def)
next
  case (counted n h h1 st)
  then show ?thesis using assms(2) take_bytes_Inr [OF counted(3)] by (simp add: kept_in_scope_def same_grants_def)
next
  case (stored h key v h1 st path)
  then show ?thesis
    using assms(2) take_bytes_Inr [OF stored(4)] same_grants_writable [of "fst s0" h e]
    by (auto simp: kept_in_scope_def same_grants_def report_stored_def store_content outside_reach)
next
  case (removed h key st st1 path)
  then show ?thesis
    using assms(2) same_grants_writable [of "fst s0" h e] mem.remove_Inr [of key st st1]
    by (auto simp: kept_in_scope_def same_grants_def report_stored_def store_content outside_reach)
next
  case (opened h key available c h1 st path)
  then show ?thesis
    using assms(2) same_grants_writable [of "fst s0" h e] charge_memory_Inr [OF opened(5)]
    by (auto simp: kept_in_scope_def same_grants_def mem_open_writer_def)
next
  case (chunk part h h1 i w st)
  then show ?thesis
    using assms(2) take_bytes_Inr [OF chunk(3)] table_entry [OF chunk(4)]
    by (auto simp: kept_in_scope_def same_grants_def writer_write_def dest!: set_update_table)
next
  case (finished h i w st)
  then have w: "writable e (fst s0) (ws_resolved w)" "mw_path (ws_inner w) = ws_resolved w"
    using assms(2) table_entry [OF finished(3)] by (auto simp: kept_in_scope_def)
  show ?thesis unfolding finished(2) release_commutes(1)
    by (rule store_kept [OF report_kept [OF close_kept] w(1)])
      (use assms(2) finished(1) w(2) in \<open>auto simp: writer_finish_def update_conv' store_content\<close>)
next
  case (abandoned h i w st)
  then show ?thesis using assms(2) close_kept by simp
qed simp

interpretation reach: invariant_relation "turn_effect e" "kept_in_scope e s0" for e s0
  by unfold_locales (rule effect_kept_in_scope)

lemma calls_are_effects: "(turn_effect e)\<^sup>*\<^sup>* s (foldl (guest_step e) s calls)"
proof (induction calls arbitrary: s)
  case (Cons c calls)
  have "(turn_effect e)\<^sup>*\<^sup>* s (guest_step e s c)" using guest_step_effect by (rule r_into_rtranclp)
  then show ?case using Cons.IH by (simp add: rtranclp_trans)
qed simp

section \<open>What a turn's calls count\<close>

definition wrote_bytes :: "stored_what \<Rightarrow> nat" where
  "wrote_bytes w = (case w of Wrote n \<Rightarrow> n | Deleted \<Rightarrow> 0)"

definition reported_bytes :: "guest_host \<Rightarrow> nat" where
  "reported_bytes h = sum_list (map (\<lambda>(_, _, w). wrote_bytes w) (reports h))"

definition over_table :: "(writer_state \<Rightarrow> 'a::comm_monoid_add) \<Rightarrow> (nat \<times> writer_state) list \<Rightarrow> 'a" where
  "over_table f t = sum_list (map (f \<circ> snd) t)"

definition pending :: "writer_state \<Rightarrow> nat" where
  "pending w = length (mw_buf (ws_inner w))"

definition held_for :: "writer_state \<Rightarrow> u64" where
  "held_for w = or_zero (ws_charge w)"

definition table_ok :: "guest_host \<Rightarrow> bool" where
  "table_ok h \<longleftrightarrow>
     distinct (map fst (table h)) \<and> (\<forall>i \<in> fst ` set (table h). i < next_handle h) \<and>
     open_writers h = length (table h) \<and> length (table h) \<le> MAX_OPEN_WRITERS"

definition within_limits :: "guest_host \<Rightarrow> bool" where
  "within_limits h \<longleftrightarrow>
     (0 < max_written_bytes h \<longrightarrow> bytes_written h \<le> max_written_bytes h) \<and>
     (\<forall>left. remaining_stored_bytes h = Some left \<longrightarrow> bytes_written h \<le> left) \<and>
     (bytes_written h < 2 ^ 64 - 1 \<longrightarrow> reported_bytes h + over_table pending (table h) \<le> bytes_written h)"

definition memory_balanced :: "admission option \<Rightarrow> guest_host \<Rightarrow> bool" where
  "memory_balanced a0 h \<longleftrightarrow>
     gh_admission h = map_option (\<lambda>a. a\<lparr>reserved := reserved a + over_table held_for (table h)\<rparr>) a0"

definition turn_counted :: "admission option \<Rightarrow> files_state \<Rightarrow> bool" where
  "turn_counted a0 s \<longleftrightarrow> table_ok (fst s) \<and> within_limits (fst s) \<and> memory_balanced a0 (fst s)"

lemmas turn_counted_defs = turn_counted_def table_ok_def within_limits_def memory_balanced_def

lemma over_table_simps [simp]: "over_table f [] = 0" "over_table f ((i, w) # t) = f w + over_table f t"
  by (simp_all add: over_table_def)

lemma over_table_delete:
  fixes f :: "writer_state \<Rightarrow> 'a::comm_monoid_add"
  shows "distinct (map fst t) \<Longrightarrow> map_of t i = Some w \<Longrightarrow> over_table f t = f w + over_table f (AList.delete i t)"
  by (induction t) (auto simp: add.left_commute delete_id)

lemma over_table_update:
  fixes f :: "writer_state \<Rightarrow> 'a::comm_monoid_add"
  shows "distinct (map fst t) \<Longrightarrow> map_of t i = Some w \<Longrightarrow>
    over_table f (AList.update i v t) = f v + over_table f (AList.delete i t)"
  by (induction t) (auto simp: add.left_commute delete_id)

lemma length_delete:
  "distinct (map fst t) \<Longrightarrow> map_of t i = Some w \<Longrightarrow> Suc (length (AList.delete i t)) = length t"
  by (induction t) (auto simp: delete_id)

lemma length_update: "map_of t i = Some w \<Longrightarrow> length (AList.update i v t) = length t"
  by (induction t) auto

lemma take_bytes_limits:
  "take_bytes n h = Inr h1 \<Longrightarrow>
     (0 < max_written_bytes h1 \<longrightarrow> bytes_written h1 \<le> max_written_bytes h1) \<and>
     (\<forall>left. remaining_stored_bytes h1 = Some left \<longrightarrow> bytes_written h1 \<le> left) \<and>
     (bytes_written h1 < 2 ^ 64 - 1 \<longrightarrow> bytes_written h1 = bytes_written h + n)"
  by (auto simp: take_bytes_def Let_def split: if_splits option.splits)

text \<open>Bytes counted leave room for as many more, and change nothing else.\<close>

definition with_room :: "admission option \<Rightarrow> nat \<Rightarrow> guest_host \<Rightarrow> bool" where
  "with_room a0 n h \<longleftrightarrow> table_ok h \<and> memory_balanced a0 h \<and>
     (0 < max_written_bytes h \<longrightarrow> bytes_written h \<le> max_written_bytes h) \<and>
     (\<forall>left. remaining_stored_bytes h = Some left \<longrightarrow> bytes_written h \<le> left) \<and>
     (bytes_written h < 2 ^ 64 - 1 \<longrightarrow> reported_bytes h + over_table pending (table h) + n \<le> bytes_written h)"

lemma take_bytes_room:
  assumes "take_bytes n h = Inr h1" and "turn_counted a0 (h, st)"
  shows "with_room a0 n h1"
proof -
  obtain b where b: "h1 = h\<lparr>bytes_written := b\<rparr>" using take_bytes_Inr [OF assms(1)] by blast
  then have "b < 2 ^ 64 - 1 \<longrightarrow> b = bytes_written h + n"
    and lims: "0 < max_written_bytes h \<longrightarrow> b \<le> max_written_bytes h"
      "\<forall>left. remaining_stored_bytes h = Some left \<longrightarrow> b \<le> left"
    using take_bytes_limits [OF assms(1)] by simp_all
  moreover have "bytes_written h < 2 ^ 64 - 1 \<longrightarrow> reported_bytes h + over_table pending (table h) \<le> bytes_written h"
    using assms(2) by (simp add: turn_counted_def within_limits_def)
  ultimately have "b < 2 ^ 64 - 1 \<longrightarrow> reported_bytes h + over_table pending (table h) + n \<le> b" by auto
  then show ?thesis
    using assms(2) lims by (simp add: b with_room_def turn_counted_defs reported_bytes_def)
qed

lemma room_counted: "with_room a0 n h \<Longrightarrow> turn_counted a0 (h, st)"
  unfolding with_room_def turn_counted_def within_limits_def by auto

lemma room_stored: "with_room a0 n h \<Longrightarrow> turn_counted a0 (report_stored path key (Wrote n) h, st)"
  unfolding with_room_def turn_counted_defs by (auto simp: reported_bytes_def report_stored_def wrote_bytes_def)

lemma room_chunk:
  assumes "with_room a0 (length part) h" and "map_of (table h) i = Some w"
  shows "turn_counted a0 (h\<lparr>table := AList.update i (w\<lparr>ws_inner := writer_write part (ws_inner w)\<rparr>) (table h)\<rparr>, st)"
proof -
  let ?t = "AList.update i (w\<lparr>ws_inner := writer_write part (ws_inner w)\<rparr>) (table h)"
  have d: "distinct (map fst (table h))" using assms(1) by (simp add: with_room_def table_ok_def)
  have "over_table pending ?t = over_table pending (table h) + length part"
    "over_table held_for ?t = over_table held_for (table h)"
    using over_table_delete [OF d assms(2), of pending] over_table_delete [OF d assms(2), of held_for]
    by (simp_all add: over_table_update [OF d assms(2)] pending_def held_for_def writer_write_def)
  moreover have "fst ` set ?t = fst ` set (table h)"
    using map_of_SomeD [OF assms(2)] by (force simp: dom_update)
  ultimately show ?thesis
    using assms d unfolding with_room_def turn_counted_defs
    by (simp add: reported_bytes_def length_update distinct_update add.assoc)
qed

lemma closed_counted:
  assumes "turn_counted a0 (h, st)" and "map_of (table h) i = Some w" and "wrote_bytes what \<le> pending w"
  shows "turn_counted a0 (release_charge (ws_charge w) (report_stored path key what (close_writer i h)), st')"
    and "turn_counted a0 (release_charge (ws_charge w) (close_writer i h), st')"
proof -
  have d: "distinct (map fst (table h))" using assms(1) by (simp add: turn_counted_defs)
  have sums: "over_table pending (table h) = pending w + over_table pending (AList.delete i (table h))"
    "over_table held_for (table h) = held_for w + over_table held_for (AList.delete i (table h))"
    by (rule over_table_delete [OF d assms(2)])+
  have "distinct (map fst (AList.delete i (table h)))" using d by (rule distinct_delete)
  moreover have "set (AList.delete i (table h)) \<subseteq> set (table h)" by (auto simp: AList.delete_eq)
  ultimately have tab: "table_ok (close_writer i h)"
    using assms(1) length_delete [OF d assms(2)] by (auto simp: turn_counted_defs close_writer_def)
  have mem: "memory_balanced a0 (release_charge (ws_charge w) (close_writer i h))"
    using assms(1) by (auto simp: turn_counted_defs release_charge_eq close_writer_def sums held_for_def
        option.map_comp comp_def intro!: option.map_cong0)
  have "bytes_written h < 2 ^ 64 - 1 \<longrightarrow>
      reported_bytes h + wrote_bytes what + over_table pending (AList.delete i (table h)) \<le> bytes_written h"
    using assms(1,3) sums(1) by (auto simp: turn_counted_def within_limits_def)
  then have lim: "within_limits (close_writer i h)" "within_limits (report_stored path key what (close_writer i h))"
    using assms(1) by (auto simp: turn_counted_def within_limits_def close_writer_def reported_bytes_def report_stored_def)
  show "turn_counted a0 (release_charge (ws_charge w) (close_writer i h), st')"
    "turn_counted a0 (release_charge (ws_charge w) (report_stored path key what (close_writer i h)), st')"
    using tab mem lim by (simp_all add: turn_counted_defs release_charge_eq reported_bytes_def report_stored_def)
qed

lemma effect_counted:
  assumes "turn_effect e s t" and "turn_counted a0 s"
  shows "turn_counted a0 t"
  using assms
proof (cases rule: turn_effect.cases)
  case (opened h key available c h1 st path)
  then show ?thesis
    using assms(2) charge_memory_Inr [OF opened(5)]
    by (auto simp: turn_counted_defs reported_bytes_def pending_def held_for_def mem_open_writer_def
        option.map_comp comp_def add_ac)
next
  case (finished h i w st)
  then show ?thesis using assms(2) closed_counted(1) by (simp add: wrote_bytes_def pending_def)
next
  case (abandoned h i w st)
  then show ?thesis using assms(2) closed_counted(2) [where what = Deleted] by (simp add: wrote_bytes_def)
next
  case (removed h key st st1 path)
  then show ?thesis
    using assms(2) by (simp add: turn_counted_defs reported_bytes_def report_stored_def wrote_bytes_def)
next
  case (aside h n st l rs)
  then show ?thesis using assms(2) by (auto simp: turn_counted_defs reported_bytes_def)
next
  case (counted n h h1 st)
  then show ?thesis using assms(2) take_bytes_room room_counted by blast
next
  case (stored h key v h1 st path)
  then show ?thesis using assms(2) take_bytes_room room_stored by blast
next
  case (chunk part h h1 i w st)
  then show ?thesis using assms(2) take_bytes_room room_chunk by blast
qed simp

interpretation counts: invariant_relation "turn_effect e" "turn_counted a0" for e a0
  by unfold_locales (rule effect_counted)

section \<open>What a turn can do to files\<close>

lemma fresh_host:
  assumes "table h = []" and "open_writers h = 0" and "bytes_written h = 0" and "reports h = []"
  shows "kept_in_scope e (h, st) (h, st)" and "turn_counted (gh_admission h) (h, st)"
  using assms by (simp_all add: kept_in_scope_def same_grants_def turn_counted_defs reported_bytes_def option.map_ident)

text \<open>
  C33. A guest changes files only where it was let. Whatever calls a turn makes, in whatever order and
  however the probe reads, an object that is not as it was is under the root of one of the turn's
  writable scopes, by a plain path, or is the text read out of such an object or the note that reading
  it failed; and the turn leaves with the scopes, skills and limits it came with.
\<close>
theorem guest_changes_only_writable_scopes:
  assumes "table h = []" and "foldl (guest_step e) (h, st) calls = (h', st')"
  shows "same_grants h h' \<and>
    (map_of (files st') k \<noteq> map_of (files st) k \<longrightarrow>
      (\<exists>sc \<in> set (write_scopes h). \<exists>rest key. plain_rest rest \<and> rest \<noteq> [] \<and>
         key = root_for e (gh_space h) sc @ rest \<and> k \<in> {key, text_key key, failed_key key}))"
proof -
  have "kept_in_scope e (h, st) (h, st)" using assms(1) by (simp add: kept_in_scope_def same_grants_def)
  then have "kept_in_scope e (h, st) (h', st')"
    using reach.reach_keeps [OF calls_are_effects] assms(2) by metis
  then have "same_grants h h'" and "map_of (files st') k \<noteq> map_of (files st) k \<longrightarrow> within_reach e h k"
    by (auto simp: kept_in_scope_def)
  then show ?thesis unfolding within_reach_def writable_def by blast
qed

text \<open>
  C35. A turn stays within what it may store, and gives its memory back. However its calls run, what it
  has been told is stored and what its open writers hold come together to no more than it was counted
  for, which is no more than its limit and than the room its workspace has left; no more than four
  writers are open, each under a handle of its own; and the memory admission holds for it is what its
  open writers were charged, nothing once they are closed.
\<close>
theorem guest_stores_within_limits:
  assumes "table h = []" and "open_writers h = 0" and "bytes_written h = 0" and "reports h = []"
    and "0 < max_written_bytes h" and "max_written_bytes h < 2 ^ 64 - 1"
    and "foldl (guest_step e) (h, st) calls = (h', st')"
  shows "reported_bytes h' + over_table pending (table h') \<le> bytes_written h' \<and>
    bytes_written h' \<le> max_written_bytes h \<and>
    (\<forall>left. remaining_stored_bytes h = Some left \<longrightarrow> bytes_written h' \<le> left) \<and>
    open_writers h' = length (table h') \<and> length (table h') \<le> MAX_OPEN_WRITERS \<and> distinct (map fst (table h')) \<and>
    gh_admission h' =
      map_option (\<lambda>a. a\<lparr>reserved := reserved a + over_table held_for (table h')\<rparr>) (gh_admission h)"
proof -
  have "kept_in_scope e (h, st) (h', st')"
    using reach.reach_keeps [OF calls_are_effects fresh_host(1) [OF assms(1-4)]] assms(7) by metis
  then have same: "max_written_bytes h' = max_written_bytes h" "remaining_stored_bytes h' = remaining_stored_bytes h"
    by (simp_all add: kept_in_scope_def same_grants_def)
  have "turn_counted (gh_admission h) (h', st')"
    using counts.reach_keeps [OF calls_are_effects fresh_host(2) [OF assms(1-4)]] assms(7) by metis
  then show ?thesis using same assms(5,6) by (simp add: turn_counted_defs)
qed

text \<open>
  A guest reads only what it was let read. What a read hands back is a piece, of no more than four
  megabytes, of one stored object, under the root of a scope the turn may read by a plain path, or the
  blob of a skill file the turn was given, by the path asked for.
\<close>
theorem guest_reads_only_granted:
  assumes "read_bytes e available path offset wanted (h, st) = Inr b"
  shows "\<exists>key v. map_of (files st) key = Some v \<and> b = take (min wanted MAX_READ_CHUNK) (drop offset v) \<and>
    ((\<exists>sc \<in> set (read_scopes h). \<exists>rest. plain_rest rest \<and> rest \<noteq> [] \<and> key = root_for e (gh_space h) sc @ rest) \<or>
     (\<exists>f \<in> set (skill_files h). skill_path path = Some (Inr (so_path f)) \<and>
        key = skill_blob_key e (so_workspace f) (so_sha256 f)))"
proof -
  obtain c h1 key where h1: "charge_memory available (clamp_read wanted) h = Inr (c, h1)"
    and key: "object_at e h1 path = Inr key" and got: "mem_read st key offset (clamp_read wanted) = Inr b"
    using assms by (auto simp: read_bytes_def with_charge_def Let_def)
  have same: "gh_space h1 = gh_space h" "read_scopes h1 = read_scopes h" "skill_files h1 = skill_files h"
    using charge_memory_Inr [OF h1] by simp_all
  have piece: "\<exists>v. map_of (files st) key = Some v \<and> b = take (min wanted MAX_READ_CHUNK) (drop offset v)"
    using got by (auto simp: mem.read_at clamp_read_def split: option.splits)
  show ?thesis
  proof (cases "skill_path path")
    case None
    then obtain sc r where sc: "split_path path = Inr (sc, r)" "sc \<in> set (read_scopes h)"
      and "resolve_path e (gh_space h) path = Inr key"
      using key by (auto simp: object_at_def may_read_def same split: if_splits)
    then show ?thesis using piece clean_plain by (fastforce simp: resolve_path_Inr)
  next
    case (Some r)
    then obtain tidied f where "r = Inr tidied" "skill_file h1 tidied = Inr f"
      and k: "key = skill_blob_key e (so_workspace f) (so_sha256 f)"
      using key by (auto simp: object_at_def split: if_splits sum.splits)
    moreover then have "f \<in> set (skill_files h)" "so_path f = tidied"
      by (auto simp: skill_file_def same Let_def find_Some_iff split: option.splits if_splits)
    ultimately show ?thesis using piece Some by blast
  qed
qed

definition example_host :: guest_host where
  "example_host = \<lparr>gh_space = example_space, gh_storage = True, read_scopes = [Session], write_scopes = [Session],
     skill_files = [], bytes_written = 0, max_written_bytes = 10, remaining_stored_bytes = Some 5, lists_used = 0,
     open_writers = 0, table = [], readers = [], next_handle = 0, gh_admission = None, reads_documents = False,
     reports = []\<rparr>"

definition example_key :: string where
  "example_key = root_for toy_outside example_space Session @ ''a''"

lemma example_host_simps [simp]:
  "gh_space example_host = example_space" "gh_storage example_host" "read_scopes example_host = [Session]"
  "write_scopes example_host = [Session]" "skill_files example_host = []" "bytes_written example_host = 0"
  "max_written_bytes example_host = 10" "remaining_stored_bytes example_host = Some 5"
  "open_writers example_host = 0" "table example_host = []" "next_handle example_host = 0"
  "gh_admission example_host = None" "reports example_host = []"
  by (simp_all add: example_host_def)

lemma example_object:
  assumes "same_grants example_host h"
  shows "may_write h ''session/a'' = Inr ()" "object_at toy_outside h ''session/a'' = Inr example_key"
proof -
  have none: "trailing_space ''a'' = None"
    using trailing_space_graphic [of "CHR ''a''" "[]"] by (simp add: graphic_def byte_val_def)
  have split: "split_path ''session/a'' = Inr (Session, ''a'')" using split_path_scoped [OF none, of Session] by simp
  have skill: "skill_path ''session/a'' = None"
    using tidy_scoped [OF none, of Session] by (simp add: skill_path_def SKILL_ROOT_def starts_with_def strip_prefix_def Let_def)
  show "may_write h ''session/a'' = Inr ()"
    using assms by (simp add: may_write_def skill split same_grants_def)
  show "object_at toy_outside h ''session/a'' = Inr example_key"
    using assms by (simp add: object_at_def skill may_read_def split example_resolves example_key_def same_grants_def)
qed

definition example_calls :: "(u64 option \<times> guest_call) list" where
  "example_calls = [(None, Write ''session/a'' ''hi''), (None, Write ''session/a'' ''none''), (None, OpenWriter ''session/a'')]"

lemma example_turn_run:
  "foldl (guest_step toy_outside) (example_host, new_memory) example_calls =
     (example_host\<lparr>bytes_written := 2, reports := [(''session/a'', example_key, Wrote 2)],
        table := [(0, \<lparr>ws_inner = mem_open_writer example_key, ws_path = ''session/a'', ws_resolved = example_key,
          ws_charge = None\<rparr>)], open_writers := 1, next_handle := 1\<rparr>,
      \<lparr>files = [(example_key, ''hi'')], uploads = []\<rparr>)"
proof -
  note objects = example_object [of "example_host\<lparr>bytes_written := n, reports := rs\<rparr>" for n rs]
    example_object [of example_host]
  show ?thesis
    by (simp add: objects example_calls_def write_object_def open_writer_def charge_memory_def take_bytes_def same_grants_def
        new_memory_def mem_write_def invalidate_def delete_quietly_def mem_delete_def text_key_def
        failed_key_def report_stored_def release_charge_def MAX_OPEN_WRITERS_def)
qed

theorem guest_changes_only_writable_scopes_witness:
  "\<exists>rest key. plain_rest rest \<and> key = root_for toy_outside example_space Session @ rest \<and>
     example_key \<in> {key, text_key key, failed_key key}"
  using guest_changes_only_writable_scopes [OF _ example_turn_run, of example_key]
  by (auto simp: new_memory_def)

theorem guest_stores_within_limits_witness:
  "reported_bytes (fst (foldl (guest_step toy_outside) (example_host, new_memory) example_calls)) \<le> 10 \<and>
   length (table (fst (foldl (guest_step toy_outside) (example_host, new_memory) example_calls))) \<le> MAX_OPEN_WRITERS"
  using guest_stores_within_limits [OF _ _ _ _ _ _ example_turn_run] by (simp add: example_turn_run)

theorem guest_reads_only_granted_witness:
  "\<exists>key v. map_of [(example_key, ''hi'')] key = Some v \<and> ''i'' = take (min 9 MAX_READ_CHUNK) (drop 1 v) \<and>
     (\<exists>rest. plain_rest rest \<and> key = root_for toy_outside example_space Session @ rest)"
proof -
  have "read_bytes toy_outside None ''session/a'' 1 9 (example_host, \<lparr>files = [(example_key, ''hi'')], uploads = []\<rparr>) = Inr ''i''"
    using example_object(2) [of example_host]
    by (simp add: read_bytes_def with_charge_def charge_memory_def mem_read_def clamp_read_def
        MAX_READ_CHUNK_def same_grants_def)
  from guest_reads_only_granted [OF this] show ?thesis 
    by (auto simp: MAX_READ_CHUNK_def simp del: root_for.simps split: if_splits)
qed

end
