(* ===== verification/Trim.thy ===== *)
theory Trim
  imports External
begin

text \<open>
  Making a conversation fit: \<open>crates/api/src/chat/trim.rs\<close>. A message is a JSON value and costs the
  length of its text. \<open>usize\<close> sums are natural numbers; the lemmas show that what is subtracted is
  always there.
\<close>

section \<open>Messages\<close>

definition DROPPED :: string where
  "DROPPED = ''{\"note\":\"this result was dropped to fit the conversation into the model's context. The tool ran and this is not an error. Call it again if you still need what it returned.\"}''"

definition cost :: "outside \<Rightarrow> json \<Rightarrow> nat" where
  "cost e m = length (json_text e m)"

definition total_cost :: "outside \<Rightarrow> json list \<Rightarrow> nat" where
  "total_cost e conversation = sum_list (map (cost e) conversation)"

definition room_for_conversation :: "nat \<Rightarrow> string \<Rightarrow> nat" where
  "room_for_conversation budget system_prompt = budget - length system_prompt"

record trimmed =
  results_dropped :: nat
  messages_dropped :: nat
  was_cost :: nat
  now_cost :: nat

definition trimmed_is_empty :: "trimmed \<Rightarrow> bool" where
  "trimmed_is_empty t \<longleftrightarrow> results_dropped t = 0 \<and> messages_dropped t = 0"

definition is_result :: "json \<Rightarrow> bool" where
  "is_result m \<longleftrightarrow> json_at m ''role'' = JStr ''tool''"

definition is_stubbed :: "json \<Rightarrow> bool" where
  "is_stubbed m \<longleftrightarrow> as_str (json_at (json_nth (json_at m ''parts'') 0) ''text'') = Some DROPPED"

definition stub :: "json \<Rightarrow> json" where
  "stub m =
     JObj [(''parts'', JArr [JObj [(''text'', JStr DROPPED), (''type'', JStr ''text'')]]),
           (''role'', JStr ''tool''),
           (''tool_call_id'', json_at m ''tool_call_id'')]"

section \<open>Cutting\<close>

text \<open>Pass one: results replaced by their stubs, oldest first, while the whole is over the budget.\<close>

fun stub_results :: "outside \<Rightarrow> nat \<Rightarrow> json list \<Rightarrow> nat \<Rightarrow> nat \<Rightarrow> json list \<times> nat \<times> nat" where
  "stub_results e budget [] running n = ([], running, n)"
| "stub_results e budget (m # ms) running n =
     (if running \<le> budget then (m # ms, running, n)
      else if \<not> is_result m \<or> is_stubbed m \<or> cost e (stub m) \<ge> cost e m
      then (case stub_results e budget ms running n of (ms', r, k) \<Rightarrow> (m # ms', r, k))
      else (case stub_results e budget ms (running - (cost e m - cost e (stub m))) (n + 1) of
              (ms', r, k) \<Rightarrow> (stub m # ms', r, k)))"

text \<open>Pass two: whole messages, oldest first, each with the results after it.\<close>

fun drop_results :: "outside \<Rightarrow> json list \<Rightarrow> nat \<Rightarrow> nat \<Rightarrow> json list \<times> nat \<times> nat" where
  "drop_results e [] running n = ([], running, n)"
| "drop_results e (m # ms) running n =
     (if is_result m then drop_results e ms (running - cost e m) (n + 1) else (m # ms, running, n))"

lemma length_drop_results: "length (fst (drop_results e ms running n)) \<le> length ms"
  by (induction ms arbitrary: running n) (auto intro: le_SucI)

function drop_messages :: "outside \<Rightarrow> nat \<Rightarrow> json list \<Rightarrow> nat \<Rightarrow> nat \<Rightarrow> json list \<times> nat \<times> nat" where
  "drop_messages e budget ms running n =
     (if running > budget \<and> length ms > 1
      then
        (let left = drop_results e (tl ms) (running - cost e (hd ms)) (n + 1) in
         drop_messages e budget (fst left) (fst (snd left)) (snd (snd left)))
      else (ms, running, n))"
  by pat_completeness auto
termination
proof (relation "measure (\<lambda>(e, budget, ms, running, n). length ms)")
  fix e budget running n left and ms :: "json list"
  assume more: "budget < running \<and> 1 < length ms"
    and left: "left = drop_results e (tl ms) (running - cost e (hd ms)) (n + 1)"
  have "length (fst left) \<le> length (tl ms)" unfolding left by (rule length_drop_results)
  then have "length (fst left) < length ms" using more unfolding length_tl by linarith
  then show "((e, budget, fst left, fst (snd left), snd (snd left)), e, budget, ms, running, n)
      \<in> measure (\<lambda>(e, budget, ms, running, n). length ms)" by (cases left) simp
qed simp

declare drop_messages.simps [simp del]

definition to_fit :: "outside \<Rightarrow> json list \<Rightarrow> nat \<Rightarrow> json list \<times> trimmed" where
  "to_fit e conversation budget =
     (let before = total_cost e conversation in
      if before \<le> budget \<or> conversation = []
      then (conversation, \<lparr>results_dropped = 0, messages_dropped = 0, was_cost = before, now_cost = before\<rparr>)
      else
        (case stub_results e budget (butlast conversation) before 0 of
           (front, running, stubs) \<Rightarrow>
             (case drop_messages e budget (front @ [last conversation]) running 0 of
                (out, running, gone) \<Rightarrow>
                  (out, \<lparr>results_dropped = stubs, messages_dropped = gone, was_cost = before,
                         now_cost = running\<rparr>))))"

section \<open>Lemmas\<close>

lemma total_cost_simps [simp]:
  "total_cost e [] = 0" "total_cost e (m # ms) = cost e m + total_cost e ms"
  "total_cost e (ms @ ns) = total_cost e ms + total_cost e ns"
  by (simp_all add: total_cost_def)

lemma stub_is_result [simp]: "is_result (stub m)"
  by (simp add: is_result_def stub_def json_at_def obj_get_def)

lemma stub_call_id [simp]: "json_at (stub m) ''tool_call_id'' = json_at m ''tool_call_id''"
  by (simp add: stub_def json_at_def obj_get_def)

text \<open>What pass one may do to a message.\<close>

definition kept_or_stubbed :: "outside \<Rightarrow> json \<Rightarrow> json \<Rightarrow> bool" where
  "kept_or_stubbed e m m' \<longleftrightarrow> m' = m \<or> is_result m \<and> m' = stub m \<and> cost e m' < cost e m"

lemma kept_or_stubbed_refl [simp]: "kept_or_stubbed e m m"
  by (simp add: kept_or_stubbed_def)

lemma kept_or_stubbed_result: "kept_or_stubbed e m m' \<Longrightarrow> is_result m' = is_result m"
  by (auto simp: kept_or_stubbed_def)

lemma kept_all [simp]: "list_all2 (kept_or_stubbed e) ms ms"
  by (simp add: list_all2_same)

lemma stub_results_spec:
  assumes "stub_results e budget ms running n = (ms', r, k)" and "running = total_cost e ms + rest"
  shows "list_all2 (kept_or_stubbed e) ms ms' \<and> r = total_cost e ms' + rest \<and>
    k = n + length (filter (\<lambda>(m, m'). m \<noteq> m') (zip ms ms')) \<and> (r \<le> running)"
  using assms
proof (induction ms arbitrary: running n ms' r k rest)
  case (Cons m ms)
  show ?case
  proof (cases "running \<le> budget")
    case True
    then have eq: "ms' = m # ms" "r = running" "k = n" using Cons.prems(1) by auto
    have "filter (\<lambda>(m, m'). m \<noteq> m') (zip (m # ms) (m # ms)) = []" by (auto simp: filter_empty_conv in_set_zip)
    then show ?thesis using Cons.prems(2) eq by simp
  next
    case False
    show ?thesis
    proof (cases "\<not> is_result m \<or> is_stubbed m \<or> cost e (stub m) \<ge> cost e m")
      case True
      then obtain ms1 where rec: "stub_results e budget ms running n = (ms1, r, k)" and ms': "ms' = m # ms1"
        using Cons.prems(1) False by (auto split: prod.splits)
      show ?thesis using Cons.IH [OF rec, of "cost e m + rest"] Cons.prems(2) by (simp add: ms')
    next
      case cut: False
      let ?r = "running - (cost e m - cost e (stub m))"
      obtain ms1 where rec: "stub_results e budget ms ?r (n + 1) = (ms1, r, k)" and ms': "ms' = stub m # ms1"
        using Cons.prems(1) False cut by (auto split: prod.splits)
      have "?r = total_cost e ms + (cost e (stub m) + rest)" using cut Cons.prems(2) by simp
      from Cons.IH [OF rec this] cut Cons.prems(2) show ?thesis
        by (auto simp: ms' kept_or_stubbed_def)
    qed
  qed
qed simp

lemma drop_results_spec:
  assumes "drop_results e ms running n = (ms', r, k)" and "running = total_cost e ms"
  shows "ms' = dropWhile is_result ms \<and> r = total_cost e ms' \<and> k + length ms' = n + length ms"
  using assms by (induction ms arbitrary: running n) (auto split: if_splits)

text \<open>
  What pass two leaves: the messages from a place on, where anything was dropped starting with one
  that is not a result; and it is the whole, or fits, or is one message at most.
\<close>

lemma drop_messages_spec:
  assumes "drop_messages e budget ms running n = (ms', r, k)" and "running = total_cost e ms"
  shows "\<exists>d. ms' = drop d ms \<and> r = total_cost e ms' \<and> k = n + d \<and> d \<le> length ms \<and>
    (d = 0 \<or> ms' = [] \<or> \<not> is_result (hd ms')) \<and> (r \<le> budget \<or> length ms' \<le> 1)"
  using assms
proof (induction e budget ms running n arbitrary: ms' r k rule: drop_messages.induct)
  case (1 e budget ms running n)
  show ?case
  proof (cases "running > budget \<and> length ms > 1")
    case True
    then obtain m tl where ms: "ms = m # tl" by (cases ms) auto
    obtain rest r1 k1 where res: "drop_results e tl (running - cost e m) (n + 1) = (rest, r1, k1)"
      by (cases "drop_results e tl (running - cost e m) (n + 1)") auto
    have rec: "drop_messages e budget rest r1 k1 = (ms', r, k)"
      using 1(2) True res by (subst (asm) drop_messages.simps) (simp add: ms Let_def)
    have sp: "rest = dropWhile is_result tl" "r1 = total_cost e rest" "k1 + length rest = n + 1 + length tl"
      using drop_results_spec [OF res] 1(3) by (auto simp: ms)
    obtain d where d: "ms' = drop d rest" "r = total_cost e ms'" "k = k1 + d" "d \<le> length rest"
      "d = 0 \<or> ms' = [] \<or> \<not> is_result (hd ms')" "r \<le> budget \<or> length ms' \<le> 1"
      using 1(1) [OF True refl] res rec sp(2) by (auto simp: ms)
    obtain j where j: "rest = drop j tl" "j \<le> length tl"
      by (metis sp(1) dropWhile_eq_drop length_takeWhile_le)
    have "k1 = n + Suc j" using sp(3) j by simp
    moreover have "ms' = [] \<or> \<not> is_result (hd ms')"
    proof (cases "d = 0")
      case True
      then show ?thesis using d(1) sp(1) hd_dropWhile [of is_result tl] by (cases "rest = []") auto
    qed (use d(5) in auto)
    ultimately show ?thesis
      using d j by (intro exI [of _ "Suc j + d"]) (auto simp: ms add.commute)
  next
    case False
    then have "ms' = ms" "r = running" "k = n" using 1(2) by (subst (asm) drop_messages.simps; auto)+
    then show ?thesis using False 1(3) by (intro exI [of _ 0]) auto
  qed
qed

text \<open>What is sent, seen from what there was.\<close>

lemma to_fit_spec:
  assumes "to_fit e conversation budget = (out, report)"
  shows "\<exists>d. d \<le> length conversation \<and> list_all2 (kept_or_stubbed e) (drop d conversation) out \<and>
    messages_dropped report = d \<and> was_cost report = total_cost e conversation \<and> now_cost report = total_cost e out \<and>
    (d = 0 \<or> out = [] \<or> \<not> is_result (hd out)) \<and>
    (total_cost e out \<le> budget \<or> length out \<le> 1) \<and>
    (out = [] \<or> last out = last conversation) \<and>
    (total_cost e conversation \<le> budget \<longrightarrow> out = conversation \<and> results_dropped report = 0)"
proof (cases "total_cost e conversation \<le> budget \<or> conversation = []")
  case True
  then have "out = conversation"
    "report = \<lparr>results_dropped = 0, messages_dropped = 0, was_cost = total_cost e conversation,
       now_cost = total_cost e conversation\<rparr>"
    using assms by (auto simp: to_fit_def Let_def)
  then show ?thesis using True by (intro exI [of _ 0]) auto
next
  case False
  obtain front running stubs where front:
    "stub_results e budget (butlast conversation) (total_cost e conversation) 0 = (front, running, stubs)"
    by (cases "stub_results e budget (butlast conversation) (total_cost e conversation) 0") auto
  obtain rest r gone where cut: "drop_messages e budget (front @ [last conversation]) running 0 = (rest, r, gone)"
    by (cases "drop_messages e budget (front @ [last conversation]) running 0") auto
  have res: "out = rest" "report = \<lparr>results_dropped = stubs, messages_dropped = gone,
      was_cost = total_cost e conversation, now_cost = r\<rparr>"
    using assms False front cut by (auto simp: to_fit_def Let_def)
  have conv: "conversation = butlast conversation @ [last conversation]" using False by simp
  have total: "total_cost e conversation = total_cost e (butlast conversation) + cost e (last conversation)"
    by (subst conv) (simp del: append_butlast_last_id)
  have kept: "list_all2 (kept_or_stubbed e) (butlast conversation) front"
    and running: "running = total_cost e (front @ [last conversation])"
    using stub_results_spec [OF front total] by simp_all
  have "list_all2 (kept_or_stubbed e) (butlast conversation @ [last conversation]) (front @ [last conversation])"
    using kept by (intro list_all2_appendI) simp_all
  then have all: "list_all2 (kept_or_stubbed e) conversation (front @ [last conversation])"
    using conv by simp
  obtain d where d: "rest = drop d (front @ [last conversation])" "r = total_cost e rest" "gone = 0 + d"
    "d \<le> length (front @ [last conversation])" "d = 0 \<or> rest = [] \<or> \<not> is_result (hd rest)"
    "r \<le> budget \<or> length rest \<le> 1"
    using drop_messages_spec [OF cut running] by blast
  have "last rest = last conversation" if "rest \<noteq> []"
    using that by (simp add: d(1) last_drop del: drop_append)
  moreover have "d \<le> length conversation" using d(4) list_all2_lengthD [OF all] by simp
  moreover have "list_all2 (kept_or_stubbed e) (drop d conversation) rest"
    unfolding d(1) using all by (rule list_all2_dropI)
  ultimately show ?thesis using d res False by auto
qed

section \<open>What is sent\<close>

text \<open>
  What is sent fits, and is the conversation with its oldest part gone and its older results
  stubbed. Either it costs no more than the budget or a single message is left; the report's figures
  are the true ones; what is left ends with the last message where anything is left; each message is
  there as it was, or is a result now a stub that costs less; and cutting again changes nothing.
\<close>
theorem trimmed_conversation_fits:
  "case to_fit e conversation budget of
     (out, report) \<Rightarrow>
       (length out \<le> 1 \<or> total_cost e out \<le> budget) \<and>
       was_cost report = total_cost e conversation \<and> now_cost report = total_cost e out \<and>
       messages_dropped report + length out = length conversation \<and>
       list_all2 (kept_or_stubbed e) (drop (messages_dropped report) conversation) out \<and>
       (out = [] \<or> last out = last conversation) \<and>
       fst (to_fit e out budget) = out"
proof -
  obtain out report where r: "to_fit e conversation budget = (out, report)" by fastforce
  obtain d where d: "d \<le> length conversation" "list_all2 (kept_or_stubbed e) (drop d conversation) out"
    "messages_dropped report = d" "was_cost report = total_cost e conversation" "now_cost report = total_cost e out"
    "total_cost e out \<le> budget \<or> length out \<le> 1" "out = [] \<or> last out = last conversation"
    using to_fit_spec [OF r] by auto
  have "fst (to_fit e out budget) = out"
  proof (cases "total_cost e out \<le> budget \<or> out = []")
    case False
    then obtain m where "out = [m]" using d(6) by (cases out) auto
    then show ?thesis using False by (simp add: to_fit_def Let_def drop_messages.simps)
  qed (simp add: to_fit_def Let_def)
  then show ?thesis using r d list_all2_lengthD [OF d(2)] by auto
qed

text \<open>
  The identifiers of the calls a message makes, whatever field they are in; a conversation both
  protocols take has every result directly after the message whose call it answers, and every call
  answered before the next message.
\<close>

fun results_after :: "json list \<Rightarrow> json list" where
  "results_after ms = map (\<lambda>m. json_at m ''tool_call_id'') (takeWhile is_result ms)"

fun calls_answered :: "(json \<Rightarrow> json list) \<Rightarrow> json list \<Rightarrow> bool" where
  "calls_answered calls_of [] = True"
| "calls_answered calls_of (m # ms) =
     ((is_result m \<or> set (calls_of m) = set (results_after ms)) \<and> calls_answered calls_of ms)"

definition well_paired :: "(json \<Rightarrow> json list) \<Rightarrow> json list \<Rightarrow> bool" where
  "well_paired calls_of ms \<longleftrightarrow> (ms = [] \<or> \<not> is_result (hd ms)) \<and> calls_answered calls_of ms"

lemma results_after_kept:
  "list_all2 (kept_or_stubbed e) ms ms' \<Longrightarrow> results_after ms' = results_after ms"
  by (induction rule: list_all2_induct) (auto simp: kept_or_stubbed_def)

lemma calls_answered_kept:
  "list_all2 (kept_or_stubbed e) ms ms' \<Longrightarrow> calls_answered calls_of ms \<Longrightarrow> calls_answered calls_of ms'"
proof (induction rule: list_all2_induct)
  case (Cons m ms m' ms')
  then show ?case using results_after_kept [OF Cons.hyps(2)]
    by (auto simp: kept_or_stubbed_def)
qed simp

lemma calls_answered_drop: "calls_answered calls_of ms \<Longrightarrow> calls_answered calls_of (drop d ms)"
  by (induction calls_of ms arbitrary: d rule: calls_answered.induct) (auto simp: drop_Cons split: nat.split)

text \<open>
  C38. Cutting never leaves a call without its answer or an answer without its call: from a
  conversation where each message's calls are exactly the ones the results right after it answer,
  what is sent is such a conversation too, however much was cut.
\<close>
theorem trimming_keeps_calls_answered:
  assumes "well_paired calls_of conversation"
  shows "well_paired calls_of (fst (to_fit e conversation budget))"
proof -
  obtain out report where r: "to_fit e conversation budget = (out, report)" by fastforce
  obtain d where d: "list_all2 (kept_or_stubbed e) (drop d conversation) out"
    "d = 0 \<or> out = [] \<or> \<not> is_result (hd out)"
    using to_fit_spec [OF r] by auto
  have "calls_answered calls_of out"
    using assms d(1) by (auto simp: well_paired_def intro: calls_answered_kept calls_answered_drop)
  moreover have "out = [] \<or> \<not> is_result (hd out)"
  proof (cases "d = 0")
    case True
    then have "list_all2 (kept_or_stubbed e) conversation out" using d(1) by simp
    then show ?thesis using assms by (cases conversation; cases out) (auto simp: well_paired_def kept_or_stubbed_result)
  qed (use d(2) in auto)
  ultimately show ?thesis by (simp add: well_paired_def r)
qed

definition example_conversation :: "json list" where
  "example_conversation = [JStr ''call'', stub (JObj [(''tool_call_id'', JStr ''c1'')]), JStr ''thanks'']"

definition example_calls :: "json \<Rightarrow> json list" where
  "example_calls m = (if m = JStr ''call'' then [JStr ''c1''] else [])"

theorem trimming_keeps_calls_answered_witness:
  "well_paired example_calls (fst (to_fit toy_outside example_conversation 7))"
proof -
  have "well_paired example_calls example_conversation"
  proof -
    have "\<not> is_result (JStr x)" for x by (simp add: is_result_def json_at_def)
    moreover have "json_at (JObj [(''tool_call_id'', JStr ''c1'')]) ''tool_call_id'' = JStr ''c1''"
      by (simp add: json_at_def obj_get_def)
    ultimately show ?thesis
      by (simp add: well_paired_def example_conversation_def example_calls_def)
  qed
  then show ?thesis by (rule trimming_keeps_calls_answered)
qed

text \<open>
  The last message is not always spared: one that is a result goes with the call it answers, and
  then nothing is left to send.
\<close>

lemma last_result_goes_with_its_call:
  "fst (to_fit (toy_outside\<lparr>json_text := \<lambda>_. ''x''\<rparr>) [JStr ''call'', stub JNull] 1) = []"
  by (simp add: to_fit_def cost_def total_cost_def drop_messages.simps is_result_def [of "JStr _"] json_at_def)

end
