(* ===== verification/Cron.thy ===== *)
theory Cron
  imports Prelude
begin

text \<open>
  Schedules: \<open>crates/api/src/schedule/cron.rs\<close>. An expression is parsed into the values each field
  names and stepped in a time zone. The calendar and the zone are the \<open>chrono\<close> and \<open>chrono-tz\<close> crates,
  a record of functions here: the wall-clock time of an instant, the instants of a wall-clock time, the
  next date, and a date's month, day and weekday. Dates are whatever type the record is over.
\<close>

section \<open>Parsing\<close>

datatype cron_error =
    FieldCount nat | NotAStep string string | ZeroStep string | StepTooWide string nat nat nat
  | CountsBackwards string nat nat | MatchesNothing string
  | NotANumber string string | OutsideRange string nat nat nat

record cron =
  minutes :: "nat list"
  hours :: "nat list"
  days :: "nat list"
  months :: "nat list"
  weekdays :: "nat list"
  both_days :: bool

definition HORIZON_DAYS :: nat where "HORIZON_DAYS = 366 * 4"
definition MINUTES_PER_HOUR :: nat where "MINUTES_PER_HOUR = 60"

definition parse_u32 :: "string \<Rightarrow> nat option" where
  "parse_u32 s = parse_unsigned (2 ^ 32 - 1) s"

definition bound :: "string \<Rightarrow> nat \<Rightarrow> nat \<Rightarrow> string \<Rightarrow> cron_error + nat" where
  "bound v lo hi name =
     (case parse_u32 (trim v) of
        None \<Rightarrow> Inl (NotANumber name v)
      | Some n \<Rightarrow> if n < lo \<or> n > hi then Inl (OutsideRange name n lo hi) else Inr n)"

text \<open>What comes before a step, and the step, one where none is written.\<close>

definition step_of :: "string \<Rightarrow> nat \<Rightarrow> nat \<Rightarrow> string \<Rightarrow> cron_error + (string \<times> nat)" where
  "step_of part lo hi name =
     (case split_once (CHR ''/'') part of
        None \<Rightarrow> Inr (part, 1)
      | Some (span, step) \<Rightarrow>
          (case parse_u32 step of
             None \<Rightarrow> Inl (NotAStep name step)
           | Some n \<Rightarrow>
               if n = 0 then Inl (ZeroStep name)
               else if n > hi - lo then Inl (StepTooWide name n lo hi)
               else Inr (span, n)))"

definition range_of :: "string \<Rightarrow> nat \<Rightarrow> nat \<Rightarrow> nat \<Rightarrow> string \<Rightarrow> cron_error + (nat \<times> nat)" where
  "range_of span step lo hi name =
     (if span = ''*'' then Inr (lo, hi)
      else
        (case split_once (CHR ''-'') span of
           Some (a, b) \<Rightarrow>
             try_step (bound a lo hi name) (\<lambda>a. try_step (bound b lo hi name) (\<lambda>b. Inr (a, b)))
         | None \<Rightarrow>
             try_step (bound span lo hi name) (\<lambda>at. Inr (if step > 1 then (at, hi) else (at, at)))))"

text \<open>\<open>(lo..=hi).step_by(step)\<close>.\<close>

definition step_range :: "nat \<Rightarrow> nat \<Rightarrow> nat \<Rightarrow> nat list" where
  "step_range lo hi step = filter (\<lambda>n. (n - lo) mod step = 0) [lo..<Suc hi]"

fun field_parts :: "string list \<Rightarrow> nat \<Rightarrow> nat \<Rightarrow> string \<Rightarrow> cron_error + nat list" where
  "field_parts [] lo hi name = Inr []"
| "field_parts (part # parts) lo hi name =
     try_step (step_of part lo hi name) (\<lambda>(span, step).
     try_step (range_of span step lo hi name) (\<lambda>(a, b).
     try_step (check_that (a \<le> b) (CountsBackwards name a b)) (\<lambda>_.
     try_step (field_parts parts lo hi name) (\<lambda>out. Inr (step_range a b step @ out)))))"

definition field :: "string \<Rightarrow> nat \<Rightarrow> nat \<Rightarrow> string \<Rightarrow> cron_error + nat list" where
  "field spec lo hi name =
     try_step (field_parts (split_on (CHR '','') spec) lo hi name) (\<lambda>out.
     try_step (check_that (out \<noteq> []) (MatchesNothing name)) (\<lambda>_.
     Inr (remdups_adj (sort out))))"

definition parse_cron :: "string \<Rightarrow> cron_error + cron" where
  "parse_cron expression =
     (case split_whitespace expression of
        [f0, f1, f2, f3, f4] \<Rightarrow>
          try_step (field f0 0 59 ''minute'') (\<lambda>mins.
          try_step (field f1 0 23 ''hour'') (\<lambda>hrs.
          try_step (field f2 1 31 ''day of month'') (\<lambda>dys.
          try_step (field f3 1 12 ''month'') (\<lambda>mons.
          try_step (field f4 0 6 ''day of week'') (\<lambda>wdys.
          Inr \<lparr>minutes = mins, hours = hrs, days = dys, months = mons, weekdays = wdys,
               both_days = length dys < 31 \<and> length wdys < 7\<rparr>)))))
      | fs \<Rightarrow> Inl (FieldCount (length fs)))"

section \<open>Stepping\<close>

datatype local_result = Single time | Ambiguous time time | Nonexistent

type_synonym 'd wall = "'d \<times> nat \<times> nat"

record 'd zone =
  local_of :: "time \<Rightarrow> 'd wall"
  instants :: "'d wall \<Rightarrow> local_result"
  later_by :: "nat \<Rightarrow> 'd wall \<Rightarrow> 'd wall"
  next_day :: "'d \<Rightarrow> 'd option"
  month_of :: "'d \<Rightarrow> nat"
  day_of :: "'d \<Rightarrow> nat"
  weekday_of :: "'d \<Rightarrow> nat"

definition fires_within_an_hour :: "cron \<Rightarrow> bool" where
  "fires_within_an_hour c \<longleftrightarrow> length (hours c) = 24 \<or> length (minutes c) > 1"

definition matches_date :: "'d zone \<Rightarrow> cron \<Rightarrow> 'd \<Rightarrow> bool" where
  "matches_date z c date \<longleftrightarrow>
     month_of z date \<in> set (months c) \<and>
     (let dom = day_of z date \<in> set (days c); dow = weekday_of z date \<in> set (weekdays c) in
      if both_days c then dom \<or> dow else dom \<and> dow)"

definition after_gap :: "'d zone \<Rightarrow> 'd wall \<Rightarrow> time option" where
  "after_gap z w =
     first_some (map (\<lambda>extra. case instants z (later_by z extra w) of Single at \<Rightarrow> Some at | _ \<Rightarrow> None) [1..<121])"

definition resolve :: "'d zone \<Rightarrow> 'd wall \<Rightarrow> time list" where
  "resolve z w =
     (case w of (date, hour, minute) \<Rightarrow>
      if hour \<ge> 24 \<or> minute \<ge> 60 then []
      else
        (case instants z w of
           Single at \<Rightarrow> [at]
         | Ambiguous earlier later \<Rightarrow> [earlier, later]
         | Nonexistent \<Rightarrow> (case after_gap z w of Some at \<Rightarrow> [at] | None \<Rightarrow> [])))"

definition candidates :: "'d zone \<Rightarrow> cron \<Rightarrow> 'd \<Rightarrow> nat \<Rightarrow> time list" where
  "candidates z c date start =
     concat (map (\<lambda>hour. concat (map (\<lambda>minute.
       if hour * 60 + minute < start then [] else resolve z (date, hour, minute)) (minutes c))) (hours c))"

fun search_days :: "nat \<Rightarrow> 'd zone \<Rightarrow> cron \<Rightarrow> time \<Rightarrow> 'd \<Rightarrow> nat \<Rightarrow> time option" where
  "search_days 0 z c after date start = None"
| "search_days (Suc n) z c after date start =
     (case (if matches_date z c date then find (\<lambda>at. at > after) (candidates z c date start) else None) of
        Some at \<Rightarrow> Some at
      | None \<Rightarrow>
          (case next_day z date of
             None \<Rightarrow> None
           | Some date' \<Rightarrow> search_days n z c after date' 0))"

definition next_after :: "'d zone \<Rightarrow> cron \<Rightarrow> time \<Rightarrow> time option" where
  "next_after z c after =
     (case local_of z after of (date, hour, minute) \<Rightarrow>
      let start_minute = hour * 60 + minute + 1;
          reach_back = (if fires_within_an_hour c then MINUTES_PER_HOUR else 0)
      in search_days HORIZON_DAYS z c after date (start_minute - reach_back))"

section \<open>What parsing gives\<close>

lemma bound_Inr: "bound v lo hi name = Inr n \<Longrightarrow> lo \<le> n \<and> n \<le> hi"
  by (auto simp: bound_def split: option.splits if_splits)

lemma range_of_Inr: "range_of span step lo hi name = Inr (a, b) \<Longrightarrow> lo \<le> hi \<Longrightarrow> lo \<le> a \<and> a \<le> hi \<and> b \<le> hi"
  by (auto simp: range_of_def dest!: bound_Inr split: if_splits option.splits)

lemma step_of_Inr: "step_of part lo hi name = Inr (span, step) \<Longrightarrow> 0 < step"
  by (auto simp: step_of_def split: if_splits option.splits)

lemma step_range_set: "set (step_range lo hi step) = {n. lo \<le> n \<and> n \<le> hi \<and> step dvd n - lo}"
  by (auto simp: step_range_def mod_eq_0_iff_dvd)

lemma step_range_Nil: "step_range lo hi step = [] \<longleftrightarrow> hi < lo"
proof
  assume "step_range lo hi step = []"
  then have "lo \<notin> set (step_range lo hi step)" by simp
  then show "hi < lo" by (simp add: step_range_set)
qed (simp add: step_range_def)

lemma field_parts_range:
  "field_parts parts lo hi name = Inr out \<Longrightarrow> lo \<le> hi \<Longrightarrow> set out \<subseteq> {lo..hi} \<and> (parts \<noteq> [] \<longrightarrow> out \<noteq> [])"
proof (induction parts arbitrary: out)
  case (Cons part parts)
  then obtain span step a b rest where p: "range_of span step lo hi name = Inr (a, b)" "a \<le> b"
    and rest: "field_parts parts lo hi name = Inr rest" and out: "out = step_range a b step @ rest"
    by auto
  have "set (step_range a b step) \<subseteq> {lo..hi}" "step_range a b step \<noteq> []"
    using range_of_Inr [OF p(1) Cons.prems(2)] p(2) by (auto simp: step_range_set step_range_Nil)
  then show ?case using Cons.IH [OF rest Cons.prems(2)] out by auto
qed simp

lemma remdups_adj_sorted: "sorted xs \<Longrightarrow> sorted_wrt (<) (remdups_adj (xs :: nat list))"
proof (induction xs rule: remdups_adj.induct)
  case (3 x y xs)
  then have "sorted_wrt (<) (remdups_adj (y # xs))" and "\<forall>z \<in> set (y # xs). y \<le> z" and "x \<le> y" by auto
  then show ?case using 3 by (cases "x = y") force+
qed auto

definition good_field :: "nat \<Rightarrow> nat \<Rightarrow> nat list \<Rightarrow> bool" where
  "good_field lo hi vs \<longleftrightarrow> vs \<noteq> [] \<and> sorted_wrt (<) vs \<and> set vs \<subseteq> {lo..hi}"

lemma field_good:
  assumes "field spec lo hi name = Inr vs" and "lo \<le> hi"
  shows "good_field lo hi vs"
proof -
  obtain out where out: "field_parts (split_on (CHR '','') spec) lo hi name = Inr out" "out \<noteq> []"
    and vs: "vs = remdups_adj (sort out)"
    using assms(1) by (auto simp: field_def)
  have "set vs = set out" by (simp add: vs)
  then show ?thesis
    using field_parts_range [OF out(1) assms(2)] out(2) remdups_adj_sorted [OF sorted_sort, of out]
    by (auto simp: good_field_def simp flip: vs)
qed

lemma good_field_full:
  assumes "good_field lo hi vs"
  shows "length vs \<le> Suc hi - lo \<and> (length vs < Suc hi - lo \<longleftrightarrow> set vs \<noteq> {lo..hi})"
proof -
  have card: "card (set vs) = length vs"
    using assms by (auto simp: good_field_def strict_sorted_iff intro: distinct_card)
  have "card (set vs) \<le> card {lo..hi}" using assms by (intro card_mono) (auto simp: good_field_def)
  moreover have "card (set vs) = card {lo..hi} \<longleftrightarrow> set vs = {lo..hi}"
    using assms card_subset_eq [of "{lo..hi}" "set vs"] by (auto simp: good_field_def)
  ultimately show ?thesis using card by auto
qed

lemma parsed_in_order:
  assumes "parse_cron expression = Inr c"
  shows "good_field 0 59 (minutes c) \<and> good_field 0 23 (hours c) \<and> good_field 1 31 (days c) \<and>
    good_field 1 12 (months c) \<and> good_field 0 6 (weekdays c) \<and>
    (both_days c \<longleftrightarrow> set (days c) \<noteq> {1..31} \<and> set (weekdays c) \<noteq> {0..6})"
proof -
  obtain f0 f1 f2 f3 f4 where fs: "split_whitespace expression = [f0, f1, f2, f3, f4]"
    using assms by (auto simp: parse_cron_def split: list.splits)
  then have "field f0 0 59 ''minute'' = Inr (minutes c)" "field f1 0 23 ''hour'' = Inr (hours c)"
    "field f2 1 31 ''day of month'' = Inr (days c)" "field f3 1 12 ''month'' = Inr (months c)"
    "field f4 0 6 ''day of week'' = Inr (weekdays c)"
    and both: "both_days c \<longleftrightarrow> length (days c) < 31 \<and> length (weekdays c) < 7"
    using assms by (auto simp: parse_cron_def)
  then have good: "good_field 0 59 (minutes c)" "good_field 0 23 (hours c)" "good_field 1 31 (days c)"
    "good_field 1 12 (months c)" "good_field 0 6 (weekdays c)"
    using field_good by auto
  then show ?thesis
    using good_field_full [OF good(3)] good_field_full [OF good(5)] both by simp
qed

text \<open>
  C40. A schedule that parses is in order. Each of its five fields names at least one value, in
  increasing order, each once and in the field's own span, so that the search for the next firing
  meets a day's times earliest first; and the two day fields are taken together as either only where
  each leaves some day out, however it was written.
\<close>
theorem parsed_schedule_in_order:
  assumes "parse_cron expression = Inr c"
  shows "good_field 0 59 (minutes c) \<and> good_field 0 23 (hours c) \<and> good_field 1 31 (days c) \<and>
    good_field 1 12 (months c) \<and> good_field 0 6 (weekdays c) \<and>
    (both_days c \<longleftrightarrow> set (days c) \<noteq> {1..31} \<and> set (weekdays c) \<noteq> {0..6})"
  using parsed_in_order [OF assms] .

section \<open>What the search gives\<close>

text \<open>A firing: an instant the expression's wall-clock time on a date it matches maps to.\<close>

definition firing_on :: "'d zone \<Rightarrow> cron \<Rightarrow> 'd \<Rightarrow> time \<Rightarrow> bool" where
  "firing_on z c date at \<longleftrightarrow> matches_date z c date \<and>
     (\<exists>hour \<in> set (hours c). \<exists>minute \<in> set (minutes c). at \<in> set (resolve z (date, hour, minute)))"

lemma candidates_firing:
  "at \<in> set (candidates z c date start) \<Longrightarrow> matches_date z c date \<Longrightarrow> firing_on z c date at"
  by (auto simp: candidates_def firing_on_def split: if_splits)

lemma search_days_firing:
  "search_days n z c after date start = Some at \<Longrightarrow> after < at \<and> (\<exists>d. firing_on z c d at)"
  by (induction n z c after date start rule: search_days.induct)
    (auto simp: find_Some_iff split: option.splits if_splits intro: candidates_firing nth_mem)

text \<open>
  A schedule never fires twice for one instant, nor when it was not asked to. What the search
  answers is strictly after the instant it started from, and it is the instant of an hour and minute
  the expression names on a date its month and day fields match, in whatever zone and calendar.
\<close>
theorem next_firing_is_later_and_matches:
  assumes "next_after z c after = Some at"
  shows "after < at \<and>
    (\<exists>date hour minute. matches_date z c date \<and> hour \<in> set (hours c) \<and> minute \<in> set (minutes c) \<and>
       at \<in> set (resolve z (date, hour, minute)))"
proof -
  obtain date start where "search_days HORIZON_DAYS z c after date start = Some at"
    using assms by (auto simp: next_after_def Let_def split: prod.splits)
  then show ?thesis unfolding firing_on_def [abs_def] by (blast dest: search_days_firing [unfolded firing_on_def])
qed

text \<open>The dates the search meets, and what it finds there.\<close>

fun days_from :: "nat \<Rightarrow> 'd zone \<Rightarrow> 'd \<Rightarrow> 'd list" where
  "days_from 0 z date = []"
| "days_from (Suc n) z date = date # (case next_day z date of None \<Rightarrow> [] | Some d \<Rightarrow> days_from n z d)"

lemma search_days_None:
  assumes "\<And>d. d \<in> set (days_from n z date) \<Longrightarrow> \<not> matches_date z c d"
  shows "search_days n z c after date start = None"
  using assms
  by (induction n z c after date start rule: search_days.induct) (auto split: option.split)

text \<open>The search gives up at its horizon, whether or not the calendar has a matching date past it.\<close>

lemma no_date_within_horizon:
  assumes "\<And>d. d \<in> set (days_from HORIZON_DAYS z (fst (local_of z after))) \<Longrightarrow> \<not> matches_date z c d"
  shows "next_after z c after = None"
  using assms search_days_None [of HORIZON_DAYS z "fst (local_of z after)" c after]
  by (auto simp: next_after_def Let_def split: prod.splits)

section \<open>The first firing, where clocks do not change\<close>

text \<open>
  A zone a constant \<open>off\<close> from UTC, over a calendar without an end: dates are numbered one after the
  other, a wall-clock time is one instant, and an instant is in the minute its wall-clock time names.
\<close>

definition wall_time :: "('d \<Rightarrow> int) \<Rightarrow> int \<Rightarrow> 'd \<Rightarrow> nat \<Rightarrow> nat \<Rightarrow> time" where
  "wall_time idx off d h m = seconds (60 * ((idx d * 24 + int h) * 60 + int m)) - off"

definition steady :: "'d zone \<Rightarrow> ('d \<Rightarrow> int) \<Rightarrow> int \<Rightarrow> bool" where
  "steady z idx off \<longleftrightarrow>
     inj idx \<and>
     (\<forall>d. \<exists>d'. next_day z d = Some d' \<and> idx d' = idx d + 1) \<and>
     (\<forall>d h m. h < 24 \<longrightarrow> m < 60 \<longrightarrow> instants z (d, h, m) = Single (wall_time idx off d h m)) \<and>
     (\<forall>t d h m. local_of z t = (d, h, m) \<longrightarrow>
        h < 24 \<and> m < 60 \<and> wall_time idx off d h m \<le> t \<and> t < wall_time idx off d h m + seconds 60)"

lemma wall_time_less:
  assumes "h < 24" "m < 60" "h' < 24" "m' < 60"
  shows "wall_time idx off d h m < wall_time idx off d' h' m' \<longleftrightarrow>
    idx d < idx d' \<or> idx d = idx d' \<and> h * 60 + m < h' * 60 + m'"
  using assms by (auto simp: wall_time_def)

lemma resolve_steady:
  "steady z idx off \<Longrightarrow> h < 24 \<Longrightarrow> m < 60 \<Longrightarrow> resolve z (d, h, m) = [wall_time idx off d h m]"
  by (simp add: resolve_def steady_def)

definition timely :: "cron \<Rightarrow> bool" where
  "timely c \<longleftrightarrow> sorted_wrt (<) (hours c) \<and> sorted_wrt (<) (minutes c) \<and>
     (\<forall>h \<in> set (hours c). h < 24) \<and> (\<forall>m \<in> set (minutes c). m < 60)"

lemma sorted_wrt_concat:
  "sorted_wrt R (concat xss) \<longleftrightarrow>
     (\<forall>xs \<in> set xss. sorted_wrt R xs) \<and>
     sorted_wrt (\<lambda>xs ys. \<forall>x \<in> set xs. \<forall>y \<in> set ys. R x y) xss"
  by (induction xss) (auto simp: sorted_wrt_append)

lemma candidates_steady:
  assumes "steady z idx off" and "timely c"
  shows "set (candidates z c d start) =
      {wall_time idx off d h m | h m. h \<in> set (hours c) \<and> m \<in> set (minutes c) \<and> start \<le> h * 60 + m}"
    and "sorted_wrt (<) (candidates z c d start)"
proof -
  have res: "resolve z (d, h, m) = [wall_time idx off d h m]" if "h \<in> set (hours c)" "m \<in> set (minutes c)" for h m
    using assms that by (intro resolve_steady) (auto simp: timely_def)
  show "set (candidates z c d start) =
      {wall_time idx off d h m | h m. h \<in> set (hours c) \<and> m \<in> set (minutes c) \<and> start \<le> h * 60 + m}"
    by (force simp: candidates_def res not_less)
  let ?one = "\<lambda>h m. if h * 60 + m < start then [] else resolve z (d, h, m)"
  have inner: "sorted_wrt (<) (concat (map (?one h) (minutes c)))" if "h \<in> set (hours c)" for h
    using assms(2) that
    by (auto simp: sorted_wrt_concat sorted_wrt_map timely_def res wall_time_less
        elim!: sorted_wrt_mono_rel [rotated])
  have outer: "x < y" if "h < h'" "h \<in> set (hours c)" "h' \<in> set (hours c)"
    "x \<in> set (concat (map (?one h) (minutes c)))" "y \<in> set (concat (map (?one h') (minutes c)))" for h h' x y
    using that assms(2) by (force simp: timely_def res wall_time_less split: if_splits)
  have "sorted_wrt (\<lambda>h h'. \<forall>x \<in> set (concat (map (?one h) (minutes c))).
      \<forall>y \<in> set (concat (map (?one h') (minutes c))). x < y) (hours c)"
    by (rule sorted_wrt_mono_rel [of "hours c" "(<)"]) (use assms(2) outer in \<open>auto simp only: timely_def\<close>)
  then show "sorted_wrt (<) (candidates z c d start)"
    using inner by (auto simp: candidates_def sorted_wrt_concat sorted_wrt_map)
qed

lemma find_least:
  assumes "find P xs = Some x" and "sorted_wrt (<) xs" and "y \<in> set xs" and "P y"
  shows "x \<le> (y :: int)"
  using assms by (induction xs) (auto split: if_splits)

lemma firing_steady:
  assumes "steady z idx off" and "timely c"
  shows "firing_on z c d at \<longleftrightarrow> matches_date z c d \<and>
    (\<exists>h \<in> set (hours c). \<exists>m \<in> set (minutes c). at = wall_time idx off d h m)"
  using assms by (auto simp: firing_on_def timely_def resolve_steady)

lemma search_days_first:
  assumes z: "steady z idx off" and c: "timely c"
    and "\<And>h m. h < 24 \<Longrightarrow> m < 60 \<Longrightarrow> h * 60 + m < start \<Longrightarrow> wall_time idx off d h m \<le> after"
    and "firing_on z c d' at'" and "after < at'" and "idx d \<le> idx d'"
  shows "case search_days n z c after d start of Some at \<Rightarrow> at \<le> at' | None \<Rightarrow> idx d + int n \<le> idx d'"
  using assms(3,6)
proof (induction n arbitrary: d start)
  case (Suc n)
  obtain h' m' where at': "at' = wall_time idx off d' h' m'" "matches_date z c d'" "h' \<in> set (hours c)" "m' \<in> set (minutes c)"
    using assms(4) firing_steady [OF z c] by blast
  then have small: "h' < 24" "m' < 60" using c by (auto simp: timely_def)
  obtain d2 where d2: "next_day z d = Some d2" "idx d2 = idx d + 1" using z unfolding steady_def by blast
  let ?found = "if matches_date z c d then find (\<lambda>at. at > after) (candidates z c d start) else None"
  have same: "at' \<in> set (candidates z c d start) \<and> ?found \<noteq> None" if "idx d' = idx d"
  proof -
    have "d' = d" using that z by (auto simp: steady_def inj_def)
    moreover have "start \<le> h' * 60 + m'"
      using Suc.prems(1) [OF small] assms(5) at'(1) \<open>d' = d\<close> by (meson not_less)
    ultimately show ?thesis
      using at' assms(5) by (auto simp: candidates_steady(1) [OF z c] find_None_iff)
  qed
  show ?case
  proof (cases ?found)
    case None
    then have "idx d2 \<le> idx d'" using same Suc.prems(2) d2(2) by (cases "idx d' = idx d") auto
    then have "case search_days n z c after d2 0 of Some at \<Rightarrow> at \<le> at' | None \<Rightarrow> idx d2 + int n \<le> idx d'"
      by (intro Suc.IH) simp
    then show ?thesis using None d2 by (auto split: option.splits)
  next
    case (Some at)
    then have m: "matches_date z c d" "find (\<lambda>at. at > after) (candidates z c d start) = Some at"
      by (auto split: if_splits)
    have "at \<le> at'"
    proof (cases "idx d' = idx d")
      case True
      then show ?thesis
        using find_least [OF m(2) candidates_steady(2) [OF z c]] same assms(5) by blast
    next
      case False
      have "at \<in> set (candidates z c d start)" using m(2) by (auto simp: find_Some_iff)
      then obtain h m where "at = wall_time idx off d h m" "h < 24" "m < 60"
        using c by (auto simp: candidates_steady(1) [OF z c] timely_def)
      then show ?thesis using wall_time_less [of h m h' m' idx off d d'] small at'(1) False Suc.prems(2) by simp
    qed
    then show ?thesis using Some by simp
  qed
qed simp

text \<open>
  C39. Where clocks do not change a schedule misses nothing. In a zone a constant offset from UTC, the
  instant a parsed expression fires next is no later than any other firing after the one searched from;
  and the search finds none only where the next is four years of days away or more.
\<close>
theorem next_firing_is_the_first:
  assumes "parse_cron expression = Inr c" and "steady z idx off"
    and "firing_on z c d at'" and "after < at'"
  shows "case next_after z c after of
      Some at \<Rightarrow> at \<le> at'
    | None \<Rightarrow> idx (fst (local_of z after)) + int HORIZON_DAYS \<le> idx d"
proof -
  have c: "timely c"
    using parsed_in_order [OF assms(1)] by (auto simp: timely_def good_field_def)
  obtain d0 h0 m0 where now: "local_of z after = (d0, h0, m0)" by (cases "local_of z after")
  then have at0: "h0 < 24" "m0 < 60" "wall_time idx off d0 h0 m0 \<le> after"
    "after < wall_time idx off d0 h0 m0 + seconds 60"
    using assms(2) by (auto simp: steady_def)
  obtain h' m' where at': "at' = wall_time idx off d h' m'" "h' < 24" "m' < 60"
    using assms(3) c by (auto simp: firing_steady [OF assms(2) c] timely_def)
  have "idx d0 \<le> idx d"
    using at0(1-3) at' assms(4) wall_time_less [of h' m' h0 m0 idx off d d0] by (auto simp: not_less)
  moreover have "wall_time idx off d0 h m \<le> after" if "h < 24" "m < 60" "h * 60 + m < Suc (h0 * 60 + m0) - k" for h m k
    using that at0(1-3) wall_time_less [of h0 m0 h m idx off d0 d0] by auto
  ultimately have "case search_days HORIZON_DAYS z c after d0 (Suc (h0 * 60 + m0) - k) of
      Some at \<Rightarrow> at \<le> at' | None \<Rightarrow> idx d0 + int HORIZON_DAYS \<le> idx d" for k
    by (intro search_days_first [OF assms(2) c _ assms(3,4)])
  from this [of 0] this [of MINUTES_PER_HOUR] show ?thesis
    unfolding next_after_def now Let_def by (simp split: option.splits)
qed

section \<open>Zones to look at\<close>

text \<open>A zone without an offset, days of one month numbered from zero, and every day a Sunday.\<close>

definition plain_zone :: "int zone" where
  "plain_zone =
     \<lparr>local_of = (\<lambda>t. let m = t div seconds 60 in (m div 1440, nat (m mod 1440) div 60, nat (m mod 1440) mod 60)),
      instants = (\<lambda>(d, h, m). Single (wall_time id 0 d h m)),
      later_by = (\<lambda>k (d, h, m). (d + int ((h * 60 + m + k) div 1440), (h * 60 + m + k) mod 1440 div 60, (m + k) mod 60)),
      next_day = (\<lambda>d. Some (d + 1)), month_of = (\<lambda>_. 1), day_of = (\<lambda>d. Suc (nat (d mod 31))), weekday_of = (\<lambda>_. 0)\<rparr>"

lemma wall_time_minute: "q * 1440 + (int h * 60 + int k) = m \<Longrightarrow> wall_time id 0 q h k = seconds (60 * m)"
  by (auto simp: wall_time_def algebra_simps)

lemma minute_of_day: "int (nat (m mod 1440) div 60) * 60 + int (nat (m mod 1440) mod 60) = m mod 1440"
  by (simp add: zdiv_int zmod_int)

lemma seconds_div: "seconds (60 * (t div seconds 60)) \<le> t \<and> t < seconds (60 * (t div seconds 60)) + seconds 60"
proof -
  have "seconds (60 * (t div seconds 60)) = seconds 60 * (t div seconds 60)" by (simp add: seconds_def)
  moreover have "0 < seconds 60" by (simp add: seconds_def)
  ultimately show ?thesis
    using pos_mod_bound [of "seconds 60" t] pos_mod_sign [of "seconds 60" t] mult_div_mod_eq [of "seconds 60" t]
    by linarith
qed

lemma plain_zone_steady: "steady plain_zone id 0"
proof -
  let ?d = "\<lambda>m. m div 1440" and ?h = "\<lambda>m. nat (m mod 1440) div 60" and ?k = "\<lambda>m. nat (m mod 1440) mod 60"
  have wall: "wall_time id 0 (?d m) (?h m) (?k m) = seconds (60 * m)" for m
    by (rule wall_time_minute) (simp only: minute_of_day div_mult_mod_eq)
  have small: "?h m < 24" "?k m < 60" for m
  proof -
    have "nat (m mod 1440) < 24 * 60" by (simp add: nat_less_iff)
    then show "?h m < 24" "?k m < 60" by (simp_all add: less_mult_imp_div_less)
  qed
  have "local_of plain_zone t = (?d (t div seconds 60), ?h (t div seconds 60), ?k (t div seconds 60))" for t
    by (simp add: plain_zone_def Let_def)
  then show ?thesis
    unfolding steady_def using wall small seconds_div by (auto simp: plain_zone_def simp del: seconds_mono_iff)
qed

text \<open>The same, on the day 0 of which the hour from one to two happens twice.\<close>

definition fold_zone :: "int zone" where
  "fold_zone = plain_zone
     \<lparr>instants := (\<lambda>(d, h, m).
        if d < 0 \<or> d = 0 \<and> h < 1 then Single (wall_time id 0 d h m)
        else if d = 0 \<and> h = 1 then Ambiguous (wall_time id 0 d h m) (wall_time id 0 d h m + seconds 3600)
        else Single (wall_time id 0 d h m + seconds 3600)),
      local_of := (\<lambda>t. local_of plain_zone (if t < seconds 7200 then t else t - seconds 3600))\<rparr>"

definition quarter_hours :: cron where
  "quarter_hours = \<lparr>minutes = [0, 15, 30, 45], hours = [0..<24], days = [1..<32], months = [1..<13],
     weekdays = [0..<7], both_days = False\<rparr>"

text \<open>
  Where clocks go back, the search does not find the first firing. A schedule of every fifteen minutes
  that fired at one o'clock fires next an hour later, at one o'clock again: the second instant of the
  first wall-clock time comes before the first instants of the three after it.
\<close>

lemma fold_zone_eval:
  "local_of fold_zone (seconds 3600) = (0, 1, 0)"
  "next_day fold_zone d = Some (d + 1)" "month_of fold_zone d = 1" "day_of fold_zone d = Suc (nat (d mod 31))"
  "weekday_of fold_zone d = 0"
  "instants fold_zone (0, h, m) =
     (if h < 1 then Single (seconds (int (h * 3600 + m * 60)))
      else if h = 1 then Ambiguous (seconds (int (h * 3600 + m * 60))) (seconds (int (h * 3600 + m * 60 + 3600)))
      else Single (seconds (int (h * 3600 + m * 60 + 3600))))"
  by (simp_all add: fold_zone_def plain_zone_def wall_time_def seconds_def)

lemma repeated_hour_loses_firings:
  "next_after fold_zone quarter_hours (seconds 3600) = Some (seconds 7200)"
  "firing_on fold_zone quarter_hours 0 (seconds 4500)"
proof -
  have day: "matches_date fold_zone quarter_hours 0"
    by (simp add: matches_date_def fold_zone_eval quarter_hours_def)
  have "candidates fold_zone quarter_hours 0 1 = map seconds [900, 1800, 2700, 3600, 7200] @
      concat (map (\<lambda>m. resolve fold_zone (0, 1, m)) [15, 30, 45]) @
      concat (map (\<lambda>h. concat (map (\<lambda>m. resolve fold_zone (0, h, m)) [0, 15, 30, 45])) [2..<24])"
    by (simp add: candidates_def quarter_hours_def resolve_def fold_zone_eval upt_conv_Cons del: One_nat_def)
  then show "next_after fold_zone quarter_hours (seconds 3600) = Some (seconds 7200)"
    using search_days.simps(2) [of 1463 fold_zone quarter_hours "seconds 3600" 0 1] day
    by (simp add: next_after_def fold_zone_eval fires_within_an_hour_def quarter_hours_def MINUTES_PER_HOUR_def HORIZON_DAYS_def)
  have "seconds 4500 \<in> set (resolve fold_zone (0, 1, 15))" by (simp add: resolve_def fold_zone_eval)
  moreover have "1 \<in> set (hours quarter_hours)" "15 \<in> set (minutes quarter_hours)" by (simp_all add: quarter_hours_def)
  ultimately show "firing_on fold_zone quarter_hours 0 (seconds 4500)"
    using day unfolding firing_on_def by blast
qed

lemma midnight_parsed:
  "parse_cron ''0 0 1 * *'' = Inr \<lparr>minutes = [0], hours = [0], days = [1], months = [1..<13], weekdays = [0..<7],
     both_days = False\<rparr>"
proof -
  have "split_whitespace ''0 0 1 * *'' = [''0'', ''0'', ''1'', ''*'', ''*'']"
    by (simp add: split_whitespace_def split_white_eval graphic_def byte_val_def)
  then show ?thesis
    by (simp add: parse_cron_def field_def step_of_def range_of_def bound_def parse_u32_def parse_unsigned_def
        graphic_def digits_only_def ascii_digit_def byte_val_def step_range_def upt_conv_Cons)
qed

text \<open>A number with a step runs to the end of the field, but for the step of one: then it is that number.\<close>

lemma step_of_one_is_a_single_value:
  "field ''7/1'' 0 10 name = Inr [7]" "field ''7/2'' 0 10 name = Inr [7, 9]"
  by (simp_all add: field_def step_of_def range_of_def bound_def parse_u32_def parse_unsigned_def
      graphic_def digits_only_def ascii_digit_def byte_val_def step_range_def upt_conv_Cons
      numeral_2_eq_2 [symmetric] del: One_nat_def)

definition first_of_month :: cron where
  "first_of_month = \<lparr>minutes = [0], hours = [0], days = [1], months = [1..<13], weekdays = [0..<7], both_days = False\<rparr>"

theorem parsed_schedule_in_order_witness: "good_field 1 12 (months first_of_month) \<and> \<not> both_days first_of_month"
  using parsed_schedule_in_order [OF midnight_parsed] by (simp add: first_of_month_def)

theorem next_firing_is_later_and_matches_witness:
  "seconds 3600 < seconds 7200 \<and> (\<exists>date hour minute. seconds 7200 \<in> set (resolve fold_zone (date, hour, minute)))"
  using next_firing_is_later_and_matches [OF repeated_hour_loses_firings(1)] by blast

theorem next_firing_is_the_first_witness:
  "\<exists>at. next_after plain_zone first_of_month 0 = Some at \<and> at \<le> seconds (31 * 86400)"
proof -
  have fires: "firing_on plain_zone first_of_month 31 (seconds (31 * 86400))"
    by (simp add: firing_on_def matches_date_def plain_zone_def first_of_month_def resolve_def wall_time_def)
  have later: "0 < seconds (31 * 86400)" by (simp add: seconds_def)
  have "fst (local_of plain_zone 0) = 0" by (simp add: plain_zone_def)
  then show ?thesis
    using next_firing_is_the_first [OF midnight_parsed [folded first_of_month_def] plain_zone_steady fires later]
    by (cases "next_after plain_zone first_of_month 0") (simp_all add: HORIZON_DAYS_def del: seconds_mono_iff)
qed

end
