(* ===== verification/Jobs.thy ===== *)
theory Jobs
  imports External "HOL-Library.Product_Lexorder"
begin

text \<open>
  The queue of work: \<open>crates/core/src/jobs/mod.rs\<close> and \<open>jobs/store.rs\<close>, each statement over the
  \<open>jobs\<close> table as a function of its rows. A row is found by its id, which is a primary key; \<open>now()\<close> is
  an argument, and so are the identifiers the database makes up. The payloads this program writes hold
  UUIDs where the statements read one; a text that is none, on which the cast fails, is not modelled.
  Claiming is two statements in one transaction and is given twice: as a function, and as the steps
  another transaction may come between.
\<close>

section \<open>Rows\<close>

datatype job_state = Pending | Running | Succeeded | Failed | Cancelled | Parked

definition ALL_STATES :: "job_state list" where
  "ALL_STATES = [Pending, Running, Succeeded, Failed, Cancelled, Parked]"

definition LIVE :: "job_state list" where
  "LIVE = [Pending, Running, Parked]"

fun state_text :: "job_state \<Rightarrow> string" where
  "state_text Pending = ''pending''"
| "state_text Running = ''running''"
| "state_text Succeeded = ''succeeded''"
| "state_text Failed = ''failed''"
| "state_text Cancelled = ''cancelled''"
| "state_text Parked = ''parked''"

definition state_quoted :: "job_state \<Rightarrow> string" where
  "state_quoted s = [CHR 0x27] @ state_text s @ [CHR 0x27]"

definition is_terminal :: "job_state \<Rightarrow> bool" where
  "is_terminal s \<longleftrightarrow> s = Succeeded \<or> s = Failed \<or> s = Cancelled"

definition state_parse :: "string \<Rightarrow> job_state option" where
  "state_parse s = find (\<lambda>state. state_text state = s) ALL_STATES"

fun with_commas :: "string list \<Rightarrow> string" where
  "with_commas [] = []"
| "with_commas [s] = s"
| "with_commas (s # ss) = s @ '', '' @ with_commas ss"

definition sql_in :: "job_state list \<Rightarrow> string" where
  "sql_in states = ''('' @ with_commas (map state_quoted states) @ '')''"

definition PRIORITY_REALTIME :: int where "PRIORITY_REALTIME = 10"
definition PRIORITY_BACKGROUND :: int where "PRIORITY_BACKGROUND = 100"
definition DEFAULT_LEASE :: time where "DEFAULT_LEASE = seconds 45"
definition MAX_RELEASES :: int where "MAX_RELEASES = 150"
definition LEASE_HEARTBEAT :: time where "LEASE_HEARTBEAT = seconds 15"

record job =
  j_id :: uuid
  j_workspace :: uuid
  j_kind :: string
  j_payload :: json
  j_state :: job_state
  attempts :: int
  max_attempts :: int
  releases :: int
  lease_token :: "uuid option"
  leased_until :: "time option"
  run_after :: time
  cancel_requested_at :: "time option"
  last_error :: "string option"
  serial_key :: "string option"
  priority :: int
  updated_at :: time

datatype job_error = JobNotFound
datatype parked = WasParked | NotHeld
datatype requeued = Queued | NotFailed | UnknownJob
datatype cancelled = BeforeItRan | WhileRunning | AlreadyOver
datatype released = BackInQueue | GaveUp

text \<open>\<open>update jobs set \<dots> where \<dots>\<close>, and the rows it returns as they are then.\<close>

definition update_rows :: "(job \<Rightarrow> bool) \<Rightarrow> (job \<Rightarrow> job) \<Rightarrow> job list \<Rightarrow> job list" where
  "update_rows P f db = map (\<lambda>j. if P j then f j else j) db"

definition returning :: "(job \<Rightarrow> bool) \<Rightarrow> (job \<Rightarrow> job) \<Rightarrow> job list \<Rightarrow> job list" where
  "returning P f db = map f (filter P db)"

text \<open>\<open>$n::uuid is null or lease_token = $n\<close>, as most statements ask of the caller.\<close>

definition holds_token :: "uuid option \<Rightarrow> job \<Rightarrow> bool" where
  "holds_token token j \<longleftrightarrow> token = None \<or> lease_token j = token"

definition running_for :: "uuid \<Rightarrow> uuid option \<Rightarrow> job \<Rightarrow> bool" where
  "running_for i token j \<longleftrightarrow> j_id j = i \<and> j_state j = Running \<and> holds_token token j"

definition written :: "'a \<Rightarrow> job list \<Rightarrow> job list \<Rightarrow> (job_error + 'a) \<times> job list" where
  "written x rows db = (if rows = [] then Inl JobNotFound else Inr x, db)"

section \<open>The statements\<close>

definition enqueue ::
  "time \<Rightarrow> uuid \<Rightarrow> uuid \<Rightarrow> string \<Rightarrow> json \<Rightarrow> time option \<Rightarrow> string option \<Rightarrow> int \<Rightarrow> job list \<Rightarrow> uuid \<times> job list" where
  "enqueue now i workspace_id kind payload delay key prio db =
     (i, db @ [\<lparr>j_id = i, j_workspace = workspace_id, j_kind = kind, j_payload = payload, j_state = Pending,
        attempts = 0, max_attempts = 3, releases = 0, lease_token = None, leased_until = None,
        run_after = now + (case delay of Some d \<Rightarrow> d | None \<Rightarrow> 0), cancel_requested_at = None, last_error = None,
        serial_key = key, priority = prio, updated_at = now\<rparr>])"

definition key_running :: "job list \<Rightarrow> string option \<Rightarrow> bool" where
  "key_running db key \<longleftrightarrow> list_ex (\<lambda>r. j_state r = Running \<and> serial_key r = key) db"

text \<open>The first statement of a claim: what it may take, in order, and of that the first of each key.\<close>

definition may_start :: "time \<Rightarrow> string list \<Rightarrow> job list \<Rightarrow> job \<Rightarrow> bool" where
  "may_start now kinds db j \<longleftrightarrow>
     j_state j = Pending \<and> run_after j \<le> now \<and> (kinds = [] \<or> j_kind j \<in> set kinds) \<and>
     (serial_key j = None \<or> \<not> key_running db (serial_key j))"

definition claim_candidates :: "time \<Rightarrow> string list \<Rightarrow> nat \<Rightarrow> (uuid \<Rightarrow> bool) \<Rightarrow> job list \<Rightarrow> job list" where
  "claim_candidates now kinds lim locked db =
     take lim (filter (\<lambda>j. \<not> locked (j_id j))
       (sort_key (\<lambda>j. (priority j, run_after j, j_id j)) (filter (may_start now kinds db) db)))"

definition first_of_key :: "job list \<Rightarrow> job \<Rightarrow> bool" where
  "first_of_key cs j \<longleftrightarrow> list_all (\<lambda>c. serial_key c = serial_key j \<longrightarrow> j_id j \<le> j_id c) cs"

definition pick ::
  "(string \<Rightarrow> int) \<Rightarrow> time \<Rightarrow> string list \<Rightarrow> nat \<Rightarrow> (uuid \<Rightarrow> bool) \<Rightarrow> (int \<Rightarrow> bool) \<Rightarrow> job list \<Rightarrow> job list" where
  "pick hashtext now kinds lim locked held db =
     (let cs = claim_candidates now kinds lim locked db in
      filter (\<lambda>j. case serial_key j of
                    None \<Rightarrow> True
                  | Some key \<Rightarrow> first_of_key cs j \<and> \<not> held (hashtext key)) cs)"

text \<open>The second, over the table as it is by then.\<close>

definition claimed :: "time \<Rightarrow> time \<Rightarrow> (uuid \<Rightarrow> uuid) \<Rightarrow> job \<Rightarrow> job" where
  "claimed now lease fresh j =
     j\<lparr>j_state := Running, attempts := attempts j + 1, leased_until := Some (now + lease),
       lease_token := Some (fresh (j_id j)), updated_at := now\<rparr>"

definition takes :: "uuid list \<Rightarrow> job list \<Rightarrow> job \<Rightarrow> bool" where
  "takes picked db j \<longleftrightarrow> j_id j \<in> set picked \<and> (serial_key j = None \<or> \<not> key_running db (serial_key j))"

definition claim ::
  "(string \<Rightarrow> int) \<Rightarrow> time \<Rightarrow> string list \<Rightarrow> nat \<Rightarrow> time \<Rightarrow> (uuid \<Rightarrow> uuid) \<Rightarrow> job list \<Rightarrow> job list \<times> job list" where
  "claim hashtext now kinds lim lease fresh db =
     (let picked = map j_id (pick hashtext now kinds lim (\<lambda>_. False) (\<lambda>_. False) db) in
      if picked = [] then ([], db)
      else (returning (takes picked db) (claimed now lease fresh) db,
            update_rows (takes picked db) (claimed now lease fresh) db))"

definition complete :: "time \<Rightarrow> uuid \<Rightarrow> uuid option \<Rightarrow> job list \<Rightarrow> (job_error + unit) \<times> job list" where
  "complete now i token db =
     (let P = running_for i token;
          f = (\<lambda>j. j\<lparr>j_state := Succeeded, leased_until := None, lease_token := None, updated_at := now\<rparr>) in
      written () (returning P f db) (update_rows P f db))"

definition record_failure ::
  "time \<Rightarrow> uuid \<Rightarrow> string \<Rightarrow> time \<Rightarrow> uuid option \<Rightarrow> bool \<Rightarrow> job list \<Rightarrow> (job_error + unit) \<times> job list" where
  "record_failure now i err backoff token for_good db =
     (let P = running_for i token;
          f = (\<lambda>j. j\<lparr>j_state :=
                 (if cancel_requested_at j \<noteq> None then Cancelled
                  else if for_good \<or> attempts j \<ge> max_attempts j then Failed else Pending),
               last_error := Some err, leased_until := None, lease_token := None,
               run_after := now + backoff, updated_at := now\<rparr>) in
      written () (returning P f db) (update_rows P f db))"

definition fail :: "time \<Rightarrow> uuid \<Rightarrow> string \<Rightarrow> time \<Rightarrow> uuid option \<Rightarrow> job list \<Rightarrow> (job_error + unit) \<times> job list" where
  "fail now i err backoff token db = record_failure now i err backoff token False db"

definition fail_for_good :: "time \<Rightarrow> uuid \<Rightarrow> string \<Rightarrow> uuid option \<Rightarrow> job list \<Rightarrow> (job_error + unit) \<times> job list" where
  "fail_for_good now i err token db = record_failure now i err 0 token True db"

definition get_job :: "job list \<Rightarrow> uuid \<Rightarrow> job_error + job" where
  "get_job db i = (case find (\<lambda>j. j_id j = i) db of Some j \<Rightarrow> Inr j | None \<Rightarrow> Inl JobNotFound)"

definition is_running :: "job list \<Rightarrow> uuid \<Rightarrow> bool" where
  "is_running db i \<longleftrightarrow> map_option j_state (find (\<lambda>j. j_id j = i) db) = Some Running"

text \<open>\<open>(payload->>'key')::uuid\<close>.\<close>

definition uuid_at :: "(string \<Rightarrow> uuid option) \<Rightarrow> json \<Rightarrow> string \<Rightarrow> uuid option" where
  "uuid_at parse_uuid payload key =
     (case json_get payload key of Some (JStr s) \<Rightarrow> parse_uuid s | _ \<Rightarrow> None)"

fun live_rank :: "job_state \<Rightarrow> nat" where
  "live_rank Running = 0"
| "live_rank Pending = 1"
| "live_rank _ = 2"

definition live_turn_for_session :: "(string \<Rightarrow> uuid option) \<Rightarrow> job list \<Rightarrow> uuid \<Rightarrow> uuid \<Rightarrow> uuid option" where
  "live_turn_for_session parse_uuid db workspace_id session_id =
     (case sort_key (\<lambda>j. (live_rank (j_state j), j_id j))
         (filter (\<lambda>j. j_kind j = ''chat.turn'' \<and> j_workspace j = workspace_id \<and>
            uuid_at parse_uuid (j_payload j) ''session_id'' = Some session_id \<and> j_state j \<in> set LIVE) db) of
        [] \<Rightarrow> None
      | j # _ \<Rightarrow> Some (j_id j))"

definition turn_for_message :: "(string \<Rightarrow> uuid option) \<Rightarrow> job list \<Rightarrow> uuid \<Rightarrow> uuid \<Rightarrow> uuid option" where
  "turn_for_message parse_uuid db workspace_id message_id =
     (case rev (sort_key j_id
         (filter (\<lambda>j. j_kind j = ''chat.turn'' \<and> j_workspace j = workspace_id \<and>
            uuid_at parse_uuid (j_payload j) ''message_id'' = Some message_id) db)) of
        [] \<Rightarrow> None
      | j # _ \<Rightarrow> Some (j_id j))"

definition requeue_failed :: "time \<Rightarrow> uuid \<Rightarrow> job list \<Rightarrow> requeued \<times> job list" where
  "requeue_failed now i db =
     (let P = (\<lambda>j. j_id j = i \<and> j_state j = Failed);
          f = (\<lambda>j. j\<lparr>j_state := Pending, attempts := 0, last_error := None, lease_token := None,
               leased_until := None, cancel_requested_at := None, run_after := now, updated_at := now\<rparr>) in
      if returning P f db \<noteq> [] then (Queued, update_rows P f db)
      else (if list_ex (\<lambda>j. j_id j = i) db then NotFailed else UnknownJob, db))"

text \<open>What a stop does to a row that is not over.\<close>

definition stopped :: "time \<Rightarrow> job \<Rightarrow> job" where
  "stopped now j =
     (let waiting = j_state j \<in> {Pending, Parked} in
      j\<lparr>cancel_requested_at := (case cancel_requested_at j of Some t \<Rightarrow> Some t | None \<Rightarrow> Some now),
        j_state := (if waiting then Cancelled else j_state j),
        leased_until := (if waiting then None else leased_until j), updated_at := now\<rparr>)"

definition request_cancel :: "time \<Rightarrow> uuid \<Rightarrow> job list \<Rightarrow> cancelled \<times> job list" where
  "request_cancel now i db =
     (let P = (\<lambda>j. j_id j = i \<and> j_state j \<in> set LIVE) in
      (case map j_state (returning P (stopped now) db) of
         Cancelled # _ \<Rightarrow> BeforeItRan
       | Running # _ \<Rightarrow> WhileRunning
       | _ \<Rightarrow> AlreadyOver,
       update_rows P (stopped now) db))"

definition cancel_for_session :: "outside \<Rightarrow> time \<Rightarrow> uuid \<Rightarrow> uuid \<Rightarrow> job list \<Rightarrow> nat \<times> job list" where
  "cancel_for_session e now workspace_id session_id db =
     (let P = (\<lambda>j. j_workspace j = workspace_id \<and> j_state j \<in> set LIVE \<and>
                json_get (j_payload j) ''session_id'' = Some (JStr (uuid_text e session_id))) in
      (length (returning P (stopped now) db), update_rows P (stopped now) db))"

definition cancel_requested :: "job list \<Rightarrow> uuid \<Rightarrow> bool" where
  "cancel_requested db i \<longleftrightarrow>
     map_option (\<lambda>j. cancel_requested_at j \<noteq> None) (find (\<lambda>j. j_id j = i) db) = Some True"

definition mark_cancelled :: "time \<Rightarrow> uuid \<Rightarrow> uuid option \<Rightarrow> job list \<Rightarrow> (job_error + unit) \<times> job list" where
  "mark_cancelled now i token db =
     (let P = running_for i token;
          f = (\<lambda>j. j\<lparr>j_state := Cancelled, leased_until := None, lease_token := None, updated_at := now\<rparr>) in
      written () (returning P f db) (update_rows P f db))"

definition holds_lease :: "job list \<Rightarrow> uuid \<Rightarrow> uuid \<Rightarrow> bool" where
  "holds_lease db i token \<longleftrightarrow> list_ex (\<lambda>j. j_id j = i \<and> j_state j = Running \<and> lease_token j = Some token) db"

definition release ::
  "time \<Rightarrow> uuid \<Rightarrow> time \<Rightarrow> int \<Rightarrow> uuid option \<Rightarrow> job list \<Rightarrow> (job_error + released) \<times> job list" where
  "release now i delay max_releases token db =
     (let P = running_for i token;
          spent = (\<lambda>j. releases j + 1 \<ge> max_releases);
          f = (\<lambda>j. j\<lparr>j_state := (if spent j then Failed else Pending), releases := releases j + 1,
               attempts := max (attempts j - 1) 0,
               last_error := (if spent j then Some ''no runtime had room'' else last_error j),
               leased_until := None, lease_token := None, run_after := now + delay, updated_at := now\<rparr>) in
      (case map j_state (returning P f db) of
         [] \<Rightarrow> Inl JobNotFound
       | Failed # _ \<Rightarrow> Inr GaveUp
       | _ \<Rightarrow> Inr BackInQueue,
       update_rows P f db))"

definition park :: "time \<Rightarrow> uuid \<Rightarrow> uuid option \<Rightarrow> job list \<Rightarrow> parked \<times> job list" where
  "park now i token db =
     (let P = running_for i token;
          f = (\<lambda>j. j\<lparr>j_state := Parked, attempts := max (attempts j - 1) 0, leased_until := None,
               lease_token := None, updated_at := now\<rparr>) in
      (if returning P f db = [] then NotHeld else WasParked, update_rows P f db))"

definition resume_parked ::
  "(string \<Rightarrow> uuid option) \<Rightarrow> time \<Rightarrow> uuid \<Rightarrow> uuid option \<Rightarrow> uuid option \<Rightarrow> job list \<Rightarrow> nat \<times> job list" where
  "resume_parked parse_uuid now workspace_id agent_id session_id db =
     (let P = (\<lambda>j. j_state j = Parked \<and> j_workspace j = workspace_id \<and>
                (agent_id = None \<or> uuid_at parse_uuid (j_payload j) ''agent_id'' = agent_id) \<and>
                (session_id = None \<or> uuid_at parse_uuid (j_payload j) ''session_id'' = session_id));
          f = (\<lambda>j. j\<lparr>j_state := Pending, run_after := now, last_error := None, updated_at := now\<rparr>) in
      (length (returning P f db), update_rows P f db))"

definition reap_abandoned :: "time \<Rightarrow> job list \<Rightarrow> (nat \<times> job list) \<times> job list" where
  "reap_abandoned now db =
     (let P = (\<lambda>j. j_state j = Running \<and> (case leased_until j of Some t \<Rightarrow> t < now | None \<Rightarrow> False));
          f = (\<lambda>j. j\<lparr>j_state :=
                 (if cancel_requested_at j \<noteq> None then Cancelled
                  else if attempts j \<ge> max_attempts j then Failed else Pending),
               last_error := (case last_error j of Some err \<Rightarrow> Some err | None \<Rightarrow> Some ''lease expired''),
               leased_until := None, lease_token := None, updated_at := now\<rparr>);
          rows = returning P f db in
      ((length rows, filter (\<lambda>j. j_state j = Failed) rows), update_rows P f db))"

definition extend_lease :: "time \<Rightarrow> uuid \<Rightarrow> time \<Rightarrow> uuid \<Rightarrow> job list \<Rightarrow> bool \<times> job list" where
  "extend_lease now i lease token db =
     (let P = (\<lambda>j. j_id j = i \<and> j_state j = Running \<and> lease_token j = Some token);
          f = (\<lambda>j. j\<lparr>leased_until := Some (now + lease), updated_at := now\<rparr>) in
      (length (returning P f db) = 1, update_rows P f db))"

section \<open>Everything a caller may do to the table\<close>

text \<open>The statements that write, but for claiming. A new row has an id no row has.\<close>

datatype job_op =
    Enqueue uuid uuid string json "time option" "string option" int
  | Complete uuid "uuid option"
  | RecordFailure uuid string time "uuid option" bool
  | Requeue uuid
  | RequestCancel uuid
  | CancelForSession outside uuid uuid
  | MarkCancelled uuid "uuid option"
  | Release uuid time int "uuid option"
  | Park uuid "uuid option"
  | ResumeParked "string \<Rightarrow> uuid option" uuid "uuid option" "uuid option"
  | Reap
  | ExtendLease uuid time uuid

fun apply_op :: "time \<Rightarrow> job_op \<Rightarrow> job list \<Rightarrow> job list" where
  "apply_op now (Enqueue i workspace_id kind payload delay key prio) db =
     snd (enqueue now i workspace_id kind payload delay key prio db)"
| "apply_op now (Complete i token) db = snd (complete now i token db)"
| "apply_op now (RecordFailure i err backoff token for_good) db =
     snd (record_failure now i err backoff token for_good db)"
| "apply_op now (Requeue i) db = snd (requeue_failed now i db)"
| "apply_op now (RequestCancel i) db = snd (request_cancel now i db)"
| "apply_op now (CancelForSession e workspace_id session_id) db =
     snd (cancel_for_session e now workspace_id session_id db)"
| "apply_op now (MarkCancelled i token) db = snd (mark_cancelled now i token db)"
| "apply_op now (Release i delay max_releases token) db = snd (release now i delay max_releases token db)"
| "apply_op now (Park i token) db = snd (park now i token db)"
| "apply_op now (ResumeParked parse_uuid workspace_id agent_id session_id) db =
     snd (resume_parked parse_uuid now workspace_id agent_id session_id db)"
| "apply_op now Reap db = snd (reap_abandoned now db)"
| "apply_op now (ExtendLease i lease token) db = snd (extend_lease now i lease token db)"

definition op_ok :: "job list \<Rightarrow> job_op \<Rightarrow> bool" where
  "op_ok db op \<longleftrightarrow> (case op of Enqueue i _ _ _ _ _ _ \<Rightarrow> i \<notin> j_id ` set db | _ \<Rightarrow> True)"

text \<open>
  The life of one row but for its being taken, without who asks or why: done or stopped; failed; given
  back; parked and resumed; asked for again; asked to stop; its lease renewed.
\<close>

inductive job_moves :: "job \<Rightarrow> job \<Rightarrow> bool" where
  finished: "j_state j = Running \<Longrightarrow> s \<in> {Succeeded, Cancelled} \<Longrightarrow>
    job_moves j (j\<lparr>j_state := s, leased_until := None, lease_token := None, updated_at := now\<rparr>)"
| failed: "j_state j = Running \<Longrightarrow>
    s = (if cancel_requested_at j \<noteq> None then Cancelled
         else if for_good \<or> attempts j \<ge> max_attempts j then Failed else Pending) \<Longrightarrow>
    job_moves j (j\<lparr>j_state := s, last_error := Some err, leased_until := None, lease_token := None,
      run_after := r, updated_at := now\<rparr>)"
| given_back: "j_state j = Running \<Longrightarrow> s \<in> {Pending, Failed} \<Longrightarrow>
    job_moves j (j\<lparr>j_state := s, releases := releases j + 1, attempts := max (attempts j - 1) 0, last_error := err,
      leased_until := None, lease_token := None, run_after := r, updated_at := now\<rparr>)"
| parked: "j_state j = Running \<Longrightarrow>
    job_moves j (j\<lparr>j_state := Parked, attempts := max (attempts j - 1) 0, leased_until := None, lease_token := None,
      updated_at := now\<rparr>)"
| resumed: "j_state j = Parked \<Longrightarrow>
    job_moves j (j\<lparr>j_state := Pending, run_after := now, last_error := None, updated_at := now\<rparr>)"
| asked_again: "j_state j = Failed \<Longrightarrow>
    job_moves j (j\<lparr>j_state := Pending, attempts := 0, last_error := None, lease_token := None, leased_until := None,
      cancel_requested_at := None, run_after := now, updated_at := now\<rparr>)"
| asked_to_stop: "j_state j \<in> {Pending, Running, Parked} \<Longrightarrow> job_moves j (stopped now j)"
| renewed: "j_state j = Running \<Longrightarrow> job_moves j (j\<lparr>leased_until := Some u, updated_at := now\<rparr>)"

text \<open>A table whose rows each stayed or moved, with new ones at its end.\<close>

definition new_row :: "job list \<Rightarrow> job \<Rightarrow> bool" where
  "new_row db j \<longleftrightarrow> j_state j = Pending \<and> attempts j = 0 \<and> max_attempts j = 3 \<and> lease_token j = None \<and>
     leased_until j = None \<and> j_id j \<notin> j_id ` set db"

definition rows_move :: "job list \<Rightarrow> job list \<Rightarrow> bool" where
  "rows_move db db' \<longleftrightarrow>
     (\<exists>rows new. db' = rows @ new \<and> list_all2 (\<lambda>j j'. j' = j \<or> job_moves j j') db rows \<and>
        (\<forall>j \<in> set new. new_row db j) \<and> distinct (map j_id new))"

lemma rows_move_new: "(\<And>j. j \<in> set new \<Longrightarrow> new_row db j) \<Longrightarrow> distinct (map j_id new) \<Longrightarrow> rows_move db (db @ new)"
  unfolding rows_move_def by (intro exI [of _ db] exI [of _ new]) (auto simp: list_all2_refl)

lemma rows_move_refl: "rows_move db db"
  using rows_move_new [of "[]" db] by simp

lemma rows_move_update:
  assumes "\<And>j. j \<in> set db \<Longrightarrow> P j \<Longrightarrow> job_moves j (f j)"
  shows "rows_move db (update_rows P f db)"
  unfolding rows_move_def
  by (intro exI [of _ "update_rows P f db"] exI [of _ "[]"])
    (auto simp: update_rows_def list_all2_conv_all_nth intro: assms)

lemma job_moves_simps:
  "j_state j = Running \<Longrightarrow> job_moves j (j\<lparr>j_state := Succeeded, leased_until := None, lease_token := None, updated_at := now\<rparr>)"
  "j_state j = Running \<Longrightarrow> job_moves j (j\<lparr>j_state := Cancelled, leased_until := None, lease_token := None, updated_at := now\<rparr>)"
  by (rule job_moves.finished; simp)+

lemma op_moves_rows:
  assumes "op_ok db op"
  shows "rows_move db (apply_op now op db)"
proof (cases op)
  case (Enqueue i workspace_id kind payload delay key prio)
  have "i \<notin> j_id ` set db" using assms by (simp add: op_ok_def Enqueue)
  then show ?thesis by (auto simp: Enqueue enqueue_def new_row_def intro!: rows_move_new)
next
  case (RecordFailure i err backoff token for_good)
  then show ?thesis
    by (auto simp: record_failure_def written_def Let_def running_for_def intro!: rows_move_update job_moves.failed)
next
  case Reap
  have "job_moves j (j\<lparr>j_state := (if cancel_requested_at j \<noteq> None then Cancelled
                  else if attempts j \<ge> max_attempts j then Failed else Pending),
               last_error := (case last_error j of Some err \<Rightarrow> Some err | None \<Rightarrow> Some ''lease expired''),
               leased_until := None, lease_token := None, updated_at := now\<rparr>)" if "j_state j = Running" for j
    using job_moves.failed [OF that refl, where for_good = False and r = "run_after j" and now = now
        and err = "case last_error j of Some err \<Rightarrow> err | None \<Rightarrow> ''lease expired''"]
    by (cases "last_error j") (simp_all cong: if_cong)
  then show ?thesis
    using Reap by (auto simp: reap_abandoned_def Let_def intro!: rows_move_update)
next
  case (Release i delay max_releases token)
  then show ?thesis
    by (auto simp: release_def Let_def running_for_def intro!: rows_move_update job_moves.given_back split: if_splits)
qed (auto simp: complete_def requeue_failed_def request_cancel_def cancel_for_session_def mark_cancelled_def park_def
    resume_parked_def extend_lease_def written_def Let_def running_for_def LIVE_def
    intro!: rows_move_update job_moves_simps job_moves.parked job_moves.resumed job_moves.asked_again
      job_moves.asked_to_stop job_moves.renewed rows_move_refl)

lemma job_moves_fixed:
  "job_moves j j' \<Longrightarrow> j_id j' = j_id j \<and> j_workspace j' = j_workspace j \<and> j_kind j' = j_kind j \<and>
     j_payload j' = j_payload j \<and> serial_key j' = serial_key j \<and> priority j' = priority j \<and>
     max_attempts j' = max_attempts j"
  by (cases rule: job_moves.cases) (auto simp: stopped_def Let_def)

lemma job_moves_running: "job_moves j j' \<Longrightarrow> j_state j' = Running \<Longrightarrow> j_state j = Running"
  by (cases rule: job_moves.cases) (auto simp: stopped_def Let_def split: if_splits)

lemma job_moves_not_over: "job_moves j j' \<Longrightarrow> j_state j \<noteq> Succeeded \<and> j_state j \<noteq> Cancelled"
  by (cases rule: job_moves.cases) auto

section \<open>Rows in order\<close>

text \<open>A lease is there exactly while the row runs, and an attempt is left exactly while one may be made.\<close>

definition job_ok :: "job \<Rightarrow> bool" where
  "job_ok j \<longleftrightarrow>
     (lease_token j \<noteq> None \<longleftrightarrow> j_state j = Running) \<and> (leased_until j \<noteq> None \<longleftrightarrow> j_state j = Running) \<and>
     0 \<le> attempts j \<and> attempts j \<le> max_attempts j \<and> 0 < max_attempts j \<and>
     (j_state j = Pending \<or> j_state j = Parked \<longrightarrow> attempts j < max_attempts j)"

definition jobs_ok :: "job list \<Rightarrow> bool" where
  "jobs_ok db \<longleftrightarrow> distinct (map j_id db) \<and> (\<forall>j \<in> set db. job_ok j)"

lemma job_moves_ok: "job_ok j \<Longrightarrow> job_moves j j' \<Longrightarrow> job_ok j'"
  by (erule job_moves.cases) (auto simp: job_ok_def stopped_def Let_def)

lemma new_row_ok: "new_row db j \<Longrightarrow> job_ok j"
  by (simp add: new_row_def job_ok_def)

lemma rows_move_in:
  assumes "rows_move db db'" and "j' \<in> set db'"
  shows "new_row db j' \<or> (\<exists>j \<in> set db. j' = j \<or> job_moves j j')"
proof -
  obtain rows new where d: "db' = rows @ new" "list_all2 (\<lambda>j j'. j' = j \<or> job_moves j j') db rows"
    "\<forall>j \<in> set new. new_row db j"
    using assms(1) by (auto simp: rows_move_def)
  have "\<exists>j \<in> set db. j' = j \<or> job_moves j j'" if "j' \<in> set rows"
    using d(2) that unfolding list_all2_conv_all_nth in_set_conv_nth by force
  then show ?thesis using assms(2) d(1,3) by auto
qed

lemma rows_move_ids:
  assumes "rows_move db db'" and "distinct (map j_id db)"
  shows "distinct (map j_id db')"
proof -
  obtain rows new where d: "db' = rows @ new" "list_all2 (\<lambda>j j'. j' = j \<or> job_moves j j') db rows"
    "\<forall>j \<in> set new. new_row db j" "distinct (map j_id new)"
    using assms(1) by (auto simp: rows_move_def)
  have ids: "map j_id rows = map j_id db"
    using d(2) job_moves_fixed by (auto simp: list_all2_conv_all_nth intro!: nth_equalityI)
  have "j_id ` set new \<inter> j_id ` set db = {}" using d(3) by (auto simp: new_row_def)
  then have "set (map j_id new) \<inter> set (map j_id rows) = {}" unfolding ids by simp
  then show ?thesis using d(1,4) assms(2) ids by (simp add: Int_commute)
qed

lemma rows_move_ok:
  assumes "jobs_ok db" and "rows_move db db'"
  shows "jobs_ok db'"
proof -
  have "job_ok j" if "j \<in> set db'" for j
    using rows_move_in [OF assms(2) that] assms(1) new_row_ok job_moves_ok unfolding jobs_ok_def by blast
  then show ?thesis using rows_move_ids [OF assms(2)] assms(1) by (simp add: jobs_ok_def)
qed

lemma row_unique: "jobs_ok db \<Longrightarrow> a \<in> set db \<Longrightarrow> b \<in> set db \<Longrightarrow> j_id a = j_id b \<Longrightarrow> a = b"
  by (auto simp: jobs_ok_def distinct_map inj_on_def)

lemma pick_pending:
  "j \<in> set (pick hashtext now kinds lim locked held db) \<Longrightarrow> j \<in> set db \<and> may_start now kinds db j \<and> \<not> locked (j_id j)"
  by (auto simp: pick_def claim_candidates_def Let_def dest!: in_set_takeD)

lemma claimed_ok: "job_ok j \<Longrightarrow> j_state j = Pending \<Longrightarrow> job_ok (claimed now lease fresh j)"
  by (simp add: job_ok_def claimed_def)

lemma update_rows_ids: "(\<And>j. j_id (f j) = j_id j) \<Longrightarrow> map j_id (update_rows P f db) = map j_id db"
  by (simp add: update_rows_def)

lemma in_update_rows: "j' \<in> set (update_rows P f db) \<longleftrightarrow> (\<exists>j \<in> set db. j' = (if P j then f j else j))"
  by (auto simp: update_rows_def)

lemma claim_ok:
  assumes "jobs_ok db"
  shows "jobs_ok (snd (claim hashtext now kinds lim lease fresh db))"
proof -
  let ?picked = "map j_id (pick hashtext now kinds lim (\<lambda>_. False) (\<lambda>_. False) db)"
  have pend: "j_state j = Pending" if j: "j \<in> set db" "takes ?picked db j" for j
  proof -
    obtain p where p: "p \<in> set (pick hashtext now kinds lim (\<lambda>_. False) (\<lambda>_. False) db)" "j_id p = j_id j"
      using j(2) by (auto simp: takes_def)
    then have "p = j" using pick_pending [OF p(1)] row_unique [OF assms _ j(1)] by simp
    then show ?thesis using pick_pending [OF p(1)] by (simp add: may_start_def)
  qed
  have "job_ok j'" if "j' \<in> set (update_rows (takes ?picked db) (claimed now lease fresh) db)" for j'
    using that pend claimed_ok assms unfolding jobs_ok_def in_update_rows by (metis (full_types))
  then have "jobs_ok (update_rows (takes ?picked db) (claimed now lease fresh) db)"
    using assms update_rows_ids [of "claimed now lease fresh"] by (simp add: jobs_ok_def claimed_def)
  then show ?thesis using assms by (simp add: claim_def Let_def)
qed

section \<open>Transactions side by side\<close>

text \<open>
  A claim between its two statements: the rows it locked, those of them it will take, the advisory
  locks it holds for their keys, and, once the second statement ran, the rows as it will write them,
  which nobody sees before it commits. The first statement may have looked at an older table than the
  rows it locks are in, so it is given only by what its locks promise. Another statement waits for
  the rows a claim has locked.
\<close>

record claiming =
  cl_rows :: "uuid set"
  cl_picked :: "job list"
  cl_locks :: "int set"
  cl_taken :: "job list option"

record fleet =
  fl_table :: "job list"
  fl_claims :: "nat \<rightharpoonup> claiming"

definition row_locked :: "fleet \<Rightarrow> uuid \<Rightarrow> bool" where
  "row_locked F i \<longleftrightarrow> (\<exists>c cl. fl_claims F c = Some cl \<and> i \<in> cl_rows cl)"

definition key_locked :: "fleet \<Rightarrow> int \<Rightarrow> bool" where
  "key_locked F x \<longleftrightarrow> (\<exists>c cl. fl_claims F c = Some cl \<and> x \<in> cl_locks cl)"

definition same_key :: "job \<Rightarrow> job \<Rightarrow> bool" where
  "same_key p q \<longleftrightarrow> serial_key p = serial_key q \<and> serial_key p \<noteq> None"

definition pick_allowed :: "(string \<Rightarrow> int) \<Rightarrow> fleet \<Rightarrow> uuid set \<Rightarrow> job list \<Rightarrow> bool" where
  "pick_allowed hashtext F rows picked \<longleftrightarrow>
     (\<forall>i \<in> rows. \<not> row_locked F i) \<and>
     (\<forall>p \<in> set picked. p \<in> set (fl_table F) \<and> j_state p = Pending \<and> j_id p \<in> rows \<and>
        (\<forall>key. serial_key p = Some key \<longrightarrow> \<not> key_locked F (hashtext key)) \<and>
        (\<forall>q \<in> set picked. same_key p q \<longrightarrow> p = q))"

definition key_hashes :: "(string \<Rightarrow> int) \<Rightarrow> job list \<Rightarrow> int set" where
  "key_hashes hashtext picked = {hashtext key | key p. p \<in> set picked \<and> serial_key p = Some key}"

definition new_version :: "job list \<Rightarrow> job \<Rightarrow> job" where
  "new_version taken j = (case find (\<lambda>t. j_id t = j_id j) taken of Some t \<Rightarrow> t | None \<Rightarrow> j)"

inductive fleet_step :: "(string \<Rightarrow> int) \<Rightarrow> fleet \<Rightarrow> fleet \<Rightarrow> bool" for hashtext where
  picks: "fl_claims F c = None \<Longrightarrow> pick_allowed hashtext F rows picked \<Longrightarrow>
    fleet_step hashtext F (F\<lparr>fl_claims := (fl_claims F)(c \<mapsto>
      \<lparr>cl_rows = rows, cl_picked = picked, cl_locks = key_hashes hashtext picked, cl_taken = None\<rparr>)\<rparr>)"
| looks_again: "fl_claims F c = Some cl \<Longrightarrow> cl_taken cl = None \<Longrightarrow>
    fleet_step hashtext F (F\<lparr>fl_claims := (fl_claims F)(c \<mapsto> cl\<lparr>cl_taken :=
      Some (returning (takes (map j_id (cl_picked cl)) (fl_table F)) (claimed now lease fresh) (fl_table F))\<rparr>)\<rparr>)"
| commits: "fl_claims F c = Some cl \<Longrightarrow> cl_taken cl = Some taken \<Longrightarrow>
    fleet_step hashtext F
      (F\<lparr>fl_table := map (new_version taken) (fl_table F), fl_claims := (fl_claims F)(c := None)\<rparr>)"
| rolls_back: "fl_claims F c = Some cl \<Longrightarrow> fleet_step hashtext F (F\<lparr>fl_claims := (fl_claims F)(c := None)\<rparr>)"
| other_statement: "op_ok (fl_table F) op \<Longrightarrow>
    (\<forall>j \<in> set (fl_table F). row_locked F (j_id j) \<longrightarrow> j \<in> set (apply_op now op (fl_table F))) \<Longrightarrow>
    fleet_step hashtext F (F\<lparr>fl_table := apply_op now op (fl_table F)\<rparr>)"

definition one_running :: "job list \<Rightarrow> bool" where
  "one_running db \<longleftrightarrow>
     (\<forall>a \<in> set db. \<forall>b \<in> set db. j_state a = Running \<and> j_state b = Running \<and> same_key a b \<longrightarrow>
        a = b)"

text \<open>What a claim may rely on while it is open.\<close>

definition claim_sound :: "(string \<Rightarrow> int) \<Rightarrow> job list \<Rightarrow> claiming \<Rightarrow> bool" where
  "claim_sound hashtext db cl \<longleftrightarrow>
     (\<forall>p \<in> set (cl_picked cl). p \<in> set db \<and> j_state p = Pending \<and> j_id p \<in> cl_rows cl \<and>
        (\<forall>key. serial_key p = Some key \<longrightarrow> hashtext key \<in> cl_locks cl) \<and>
        (\<forall>q \<in> set (cl_picked cl). same_key p q \<longrightarrow> p = q)) \<and>
     (\<forall>taken. cl_taken cl = Some taken \<longrightarrow>
        (\<forall>t \<in> set taken. \<exists>p \<in> set (cl_picked cl). (\<exists>now lease fresh. t = claimed now lease fresh p) \<and>
           (serial_key p = None \<or> \<not> key_running db (serial_key p))))"

definition fleet_ok :: "(string \<Rightarrow> int) \<Rightarrow> fleet \<Rightarrow> bool" where
  "fleet_ok hashtext F \<longleftrightarrow>
     jobs_ok (fl_table F) \<and> one_running (fl_table F) \<and>
     (\<forall>c cl. fl_claims F c = Some cl \<longrightarrow> claim_sound hashtext (fl_table F) cl) \<and>
     (\<forall>c d cl dl. fl_claims F c = Some cl \<longrightarrow> fl_claims F d = Some dl \<longrightarrow> c \<noteq> d \<longrightarrow>
        cl_rows cl \<inter> cl_rows dl = {} \<and> cl_locks cl \<inter> cl_locks dl = {})"

lemma fleet_okD:
  assumes "fleet_ok hashtext F"
  shows "jobs_ok (fl_table F)" "one_running (fl_table F)"
    "fl_claims F c = Some cl \<Longrightarrow> claim_sound hashtext (fl_table F) cl"
    "fl_claims F c = Some cl \<Longrightarrow> fl_claims F d = Some dl \<Longrightarrow> c \<noteq> d \<Longrightarrow>
      cl_rows cl \<inter> cl_rows dl = {} \<and> cl_locks cl \<inter> cl_locks dl = {}"
  using assms unfolding fleet_ok_def by blast+

lemma claimed_fixed [simp]:
  "j_id (claimed now lease fresh j) = j_id j" "serial_key (claimed now lease fresh j) = serial_key j"
  "j_state (claimed now lease fresh j) = Running"
  by (simp_all add: claimed_def)

lemma fleet_ok_claim:
  assumes "fleet_ok hashtext F" and "claim_sound hashtext (fl_table F) cl'"
    and "\<And>d dl. fl_claims F d = Some dl \<Longrightarrow> d \<noteq> c \<Longrightarrow> cl_rows cl' \<inter> cl_rows dl = {} \<and> cl_locks cl' \<inter> cl_locks dl = {}"
  shows "fleet_ok hashtext (F\<lparr>fl_claims := (fl_claims F)(c \<mapsto> cl')\<rparr>)"
proof -
  let ?F = "F\<lparr>fl_claims := (fl_claims F)(c \<mapsto> cl')\<rparr>"
  note ok = fleet_okD [OF assms(1)]
  have "claim_sound hashtext (fl_table F) dl" if "fl_claims ?F d = Some dl" for d dl
    using that ok(3) assms(2) by (cases "d = c") auto
  moreover have "cl_rows dl \<inter> cl_rows el = {} \<and> cl_locks dl \<inter> cl_locks el = {}"
    if "fl_claims ?F d = Some dl" "fl_claims ?F e = Some el" "d \<noteq> e" for d e dl el
    using that ok(4) [of d dl e el] assms(3) [of d dl] assms(3) [of e el]
    by (cases "d = c"; cases "e = c") (simp_all add: Int_commute)
  ultimately show ?thesis using ok(1,2) unfolding fleet_ok_def by simp
qed

lemma picks_keeps:
  assumes "fleet_ok hashtext F" and "pick_allowed hashtext F rows picked"
  shows "fleet_ok hashtext (F\<lparr>fl_claims := (fl_claims F)(c \<mapsto>
      \<lparr>cl_rows = rows, cl_picked = picked, cl_locks = key_hashes hashtext picked, cl_taken = None\<rparr>)\<rparr>)"
proof (rule fleet_ok_claim [OF assms(1)])
  show "claim_sound hashtext (fl_table F)
      \<lparr>cl_rows = rows, cl_picked = picked, cl_locks = key_hashes hashtext picked, cl_taken = None\<rparr>"
    using assms(2) by (auto simp: claim_sound_def pick_allowed_def key_hashes_def)
  fix d dl assume d: "fl_claims F d = Some dl"
  have "rows \<inter> cl_rows dl = {}" using assms(2) d unfolding pick_allowed_def row_locked_def by blast
  moreover have "key_hashes hashtext picked \<inter> cl_locks dl = {}"
    using assms(2) d unfolding pick_allowed_def key_hashes_def key_locked_def by blast
  ultimately show "cl_rows \<lparr>cl_rows = rows, cl_picked = picked, cl_locks = key_hashes hashtext picked, cl_taken = None\<rparr> \<inter> cl_rows dl = {} \<and>
      cl_locks \<lparr>cl_rows = rows, cl_picked = picked, cl_locks = key_hashes hashtext picked, cl_taken = None\<rparr> \<inter> cl_locks dl = {}"
    by simp
qed

lemma looks_again_keeps:
  assumes "fleet_ok hashtext F" and "fl_claims F c = Some cl"
  shows "fleet_ok hashtext (F\<lparr>fl_claims := (fl_claims F)(c \<mapsto> cl\<lparr>cl_taken :=
      Some (returning (takes (map j_id (cl_picked cl)) (fl_table F)) (claimed now lease fresh) (fl_table F))\<rparr>)\<rparr>)"
proof (rule fleet_ok_claim [OF assms(1)])
  note ok = fleet_okD [OF assms(1)]
  have sound: "claim_sound hashtext (fl_table F) cl" using ok(3) assms(2) .
  have "j \<in> set (cl_picked cl)" if j: "j \<in> set (fl_table F)" "takes (map j_id (cl_picked cl)) (fl_table F) j" for j
  proof -
    obtain p where p: "p \<in> set (cl_picked cl)" "j_id p = j_id j" using j(2) by (auto simp: takes_def)
    then have "p \<in> set (fl_table F)" using sound by (simp add: claim_sound_def)
    then show ?thesis using row_unique [OF ok(1) _ j(1)] p by blast
  qed
  then show "claim_sound hashtext (fl_table F) (cl\<lparr>cl_taken :=
      Some (returning (takes (map j_id (cl_picked cl)) (fl_table F)) (claimed now lease fresh) (fl_table F))\<rparr>)"
    using sound unfolding claim_sound_def by (auto simp: returning_def takes_def)
qed (use fleet_okD(4) [OF assms(1) assms(2)] in auto)

lemma rolls_back_keeps:
  assumes "fleet_ok hashtext F"
  shows "fleet_ok hashtext (F\<lparr>fl_claims := (fl_claims F)(c := None)\<rparr>)"
  using fleet_okD [OF assms] unfolding fleet_ok_def by (simp split: if_splits)

text \<open>Another statement leaves the locked rows, makes no row run and moves none to another key.\<close>

lemma op_running:
  assumes "op_ok db op" and "j' \<in> set (apply_op now op db)" and "j_state j' = Running"
  shows "\<exists>j \<in> set db. j_state j = Running \<and> j_id j = j_id j' \<and> serial_key j = serial_key j'"
  using rows_move_in [OF op_moves_rows [OF assms(1)] assms(2)] assms(3) job_moves_running job_moves_fixed
  by (auto simp: new_row_def) metis

lemma key_running_op:
  "op_ok db op \<Longrightarrow> key_running (apply_op now op db) key \<Longrightarrow> key_running db key"
  using op_running unfolding key_running_def list_ex_iff by metis

lemma other_statement_keeps:
  assumes "fleet_ok hashtext F" and "op_ok (fl_table F) op"
    and "\<forall>j \<in> set (fl_table F). row_locked F (j_id j) \<longrightarrow> j \<in> set (apply_op now op (fl_table F))"
  shows "fleet_ok hashtext (F\<lparr>fl_table := apply_op now op (fl_table F)\<rparr>)"
proof -
  let ?db = "fl_table F" and ?db' = "apply_op now op (fl_table F)"
  note ok = fleet_okD [OF assms(1)]
  have jobs: "jobs_ok ?db'" by (rule rows_move_ok [OF ok(1) op_moves_rows [OF assms(2)]])
  have "one_running ?db'"
  proof (unfold one_running_def, intro ballI impI)
    fix a b assume ab: "a \<in> set ?db'" "b \<in> set ?db'" "j_state a = Running \<and> j_state b = Running \<and> same_key a b"
    obtain a0 b0 where "a0 \<in> set ?db" "b0 \<in> set ?db" "j_state a0 = Running" "j_state b0 = Running"
      "j_id a0 = j_id a" "j_id b0 = j_id b" "same_key a0 b0"
      using op_running [OF assms(2) ab(1)] op_running [OF assms(2) ab(2)] ab(3) unfolding same_key_def by metis
    then have "j_id a = j_id b" using ok(2) unfolding one_running_def by metis
    then show "a = b" by (rule row_unique [OF jobs ab(1,2)])
  qed
  moreover have "claim_sound hashtext ?db' cl" if c: "fl_claims F c = Some cl" for c cl
  proof -
    have sound: "claim_sound hashtext ?db cl" using ok(3) c .
    have "p \<in> set ?db'" if "p \<in> set (cl_picked cl)" for p
      using assms(3) sound that c unfolding claim_sound_def row_locked_def by blast
    then show ?thesis
      using sound key_running_op [OF assms(2)] unfolding claim_sound_def by blast
  qed
  ultimately show ?thesis using jobs ok(4) unfolding fleet_ok_def by simp
qed

lemma new_version_id: "j_id (new_version taken j) = j_id j"
  by (auto simp: new_version_def find_Some_iff split: option.split)

lemma new_version_cases:
  assumes "jobs_ok db" and "claim_sound hashtext db cl" and "cl_taken cl = Some taken" and "j \<in> set db"
  obtains (same) "new_version taken j = j"
  | (taken) now lease fresh where "j \<in> set (cl_picked cl)" "new_version taken j = claimed now lease fresh j"
      "serial_key j = None \<or> \<not> key_running db (serial_key j)"
proof (cases "find (\<lambda>t. j_id t = j_id j) taken")
  case None
  then show ?thesis using same by (simp add: new_version_def)
next
  case (Some t)
  then have t: "t \<in> set taken" "j_id t = j_id j" by (auto simp: find_Some_iff)
  then obtain p now lease fresh where p: "p \<in> set (cl_picked cl)" "t = claimed now lease fresh p"
    "serial_key p = None \<or> \<not> key_running db (serial_key p)"
    using assms(2,3) unfolding claim_sound_def by blast
  then have "p \<in> set db" using assms(2) unfolding claim_sound_def by blast
  then have "p = j" using row_unique [OF assms(1) _ assms(4)] p(2) t(2) by simp
  then show ?thesis using taken p Some by (simp add: new_version_def)
qed

lemma commit_keeps_table:
  assumes "jobs_ok db" and "one_running db" and "claim_sound hashtext db cl" and "cl_taken cl = Some taken"
  shows "jobs_ok (map (new_version taken) db)" and "one_running (map (new_version taken) db)"
proof -
  note cases = new_version_cases [OF assms(1,3,4)]
  have pend: "j_state j = Pending" if "j \<in> set (cl_picked cl)" for j using assms(3) that by (simp add: claim_sound_def)
  have disj: "new_version taken j = j \<or> j \<in> set (cl_picked cl) \<and>
      (serial_key j = None \<or> \<not> key_running db (serial_key j)) \<and> (\<exists>now lease fresh. new_version taken j = claimed now lease fresh j)"
    if "j \<in> set db" for j by (rule cases [OF that]) auto
  have "job_ok (new_version taken j)" if "j \<in> set db" for j
    using that assms(1) pend claimed_ok by (cases rule: cases [OF that]) (auto simp: jobs_ok_def)
  moreover have ids: "map j_id (map (new_version taken) db) = map j_id db" by (simp add: new_version_id)
  ultimately show ok: "jobs_ok (map (new_version taken) db)" using assms(1) unfolding jobs_ok_def ids by auto
  show "one_running (map (new_version taken) db)"
  proof (unfold one_running_def set_map, intro ballI impI)
    fix a' b' assume "a' \<in> new_version taken ` set db" "b' \<in> new_version taken ` set db"
      and run: "j_state a' = Running \<and> j_state b' = Running \<and> same_key a' b'"
    then obtain a b where ab: "a \<in> set db" "a' = new_version taken a" "b \<in> set db" "b' = new_version taken b" by blast
    have old_new: False if "x \<in> set db" "new_version taken x = x" "j_state x = Running" "y \<in> set (cl_picked cl)"
      "serial_key y = None \<or> \<not> key_running db (serial_key y)" "same_key x y" for x y
      using that by (auto simp: same_key_def key_running_def list_ex_iff)
    have key: "serial_key (new_version taken j) = serial_key j" if "j \<in> set db" for j
      using disj [OF that] by (metis claimed_fixed(2))
    have same: "same_key a b" "same_key b a" using run key [OF ab(1)] key [OF ab(3)] unfolding ab(2,4) same_key_def by metis+
    from disj [OF ab(1)] have "a = b"
    proof
      assume a: "new_version taken a = a"
      from disj [OF ab(3)] show ?thesis
      proof
        assume "new_version taken b = b"
        then show ?thesis using a ab run assms(2) unfolding one_running_def by metis
      next
        assume "b \<in> set (cl_picked cl) \<and> (serial_key b = None \<or> \<not> key_running db (serial_key b)) \<and>
          (\<exists>now lease fresh. new_version taken b = claimed now lease fresh b)"
        then show ?thesis using old_new [OF ab(1) a _ _ _ same(1)] ab(2) a run by metis
      qed
    next
      assume a: "a \<in> set (cl_picked cl) \<and> (serial_key a = None \<or> \<not> key_running db (serial_key a)) \<and>
        (\<exists>now lease fresh. new_version taken a = claimed now lease fresh a)"
      from disj [OF ab(3)] show ?thesis
      proof
        assume "new_version taken b = b"
        then show ?thesis using old_new [OF ab(3) _ _ _ _ same(2)] a ab(4) run by metis
      next
        assume "b \<in> set (cl_picked cl) \<and> (serial_key b = None \<or> \<not> key_running db (serial_key b)) \<and>
          (\<exists>now lease fresh. new_version taken b = claimed now lease fresh b)"
        then show ?thesis using a same(1) assms(3) unfolding claim_sound_def by blast
      qed
    qed
    then show "a' = b'" using ab by simp
  qed
qed

lemma commits_keeps:
  assumes "fleet_ok hashtext F" and "fl_claims F c = Some cl" and "cl_taken cl = Some taken"
  shows "fleet_ok hashtext (F\<lparr>fl_table := map (new_version taken) (fl_table F), fl_claims := (fl_claims F)(c := None)\<rparr>)"
proof -
  let ?db = "fl_table F" and ?db' = "map (new_version taken) (fl_table F)"
  note ok = fleet_okD [OF assms(1)]
  note sound = ok(3) [OF assms(2)]
  note cases = new_version_cases [OF ok(1) sound assms(3)]
  have "claim_sound hashtext ?db' dl" if d: "fl_claims F d = Some dl" "d \<noteq> c" for d dl
  proof -
    have apart: "cl_rows cl \<inter> cl_rows dl = {}" "cl_locks cl \<inter> cl_locks dl = {}" using ok(4) [OF assms(2) d(1)] d(2) by auto
    note dsound = ok(3) [OF d(1)]
    have "p \<in> set ?db'" if p: "p \<in> set (cl_picked dl)" for p
    proof -
      have inn: "p \<in> set ?db" "j_id p \<in> cl_rows dl" using dsound p unfolding claim_sound_def by blast+
      have "new_version taken p = p \<or> p \<in> set (cl_picked cl)" by (rule cases [OF inn(1)]) auto
      moreover have "p \<notin> set (cl_picked cl)" using sound inn(2) apart(1) unfolding claim_sound_def by blast
      ultimately have "new_version taken p = p" by blast
      then show ?thesis using inn(1) by (metis image_eqI set_map)
    qed
    moreover have "\<not> key_running ?db' (serial_key p)"
      if p: "p \<in> set (cl_picked dl)" "serial_key p \<noteq> None" "\<not> key_running ?db (serial_key p)" for p
    proof
      assume "key_running ?db' (serial_key p)"
      then obtain j where j: "j \<in> set ?db" "j_state (new_version taken j) = Running"
        "serial_key (new_version taken j) = serial_key p"
        by (auto simp: key_running_def list_ex_iff)
      have "new_version taken j = j \<or> j \<in> set (cl_picked cl) \<and> serial_key j = serial_key p"
        by (rule cases [OF j(1)]) (use j(3) in auto)
      then show False
      proof (elim disjE)
        assume "new_version taken j = j"
        then show False using j p(3) by (auto simp: key_running_def list_ex_iff)
      next
        assume taken: "j \<in> set (cl_picked cl) \<and> serial_key j = serial_key p"
        then obtain key where "serial_key j = Some key" "serial_key p = Some key" using p(2) by auto
        then have "hashtext key \<in> cl_locks cl" "hashtext key \<in> cl_locks dl"
          using taken p(1) sound dsound unfolding claim_sound_def by blast+
        then show False using apart(2) by blast
      qed
    qed
    ultimately show ?thesis using dsound unfolding claim_sound_def by blast
  qed
  then show ?thesis
    using commit_keeps_table [OF ok(1,2) sound assms(3)] ok(4) unfolding fleet_ok_def by (simp split: if_splits)
qed

lemma fleet_step_keeps: "fleet_ok hashtext F \<Longrightarrow> fleet_step hashtext F F' \<Longrightarrow> fleet_ok hashtext F'"
  by (erule fleet_step.cases)
    (auto intro: picks_keeps looks_again_keeps commits_keeps rolls_back_keeps other_statement_keeps)

interpretation fleet: invariant_relation "fleet_step hashtext" "fleet_ok hashtext" for hashtext
  by unfold_locales (rule fleet_step_keeps)

definition quiet_fleet :: "job list \<Rightarrow> fleet" where
  "quiet_fleet db = \<lparr>fl_table = db, fl_claims = (\<lambda>_. None)\<rparr>"

lemma quiet_fleet_ok: "jobs_ok db \<Longrightarrow> one_running db \<Longrightarrow> fleet_ok hashtext (quiet_fleet db)"
  by (simp add: fleet_ok_def quiet_fleet_def)

text \<open>
  C7. Work that shares a key never runs beside itself. However any number of claims and other statements
  are interleaved, a claim's two statements and its commit among them, no two jobs of one serial key are
  ever running, in any table a reader sees; a lease is there exactly while its job runs; and no job is
  tried more often than it may be, with one attempt left while it waits.
\<close>
theorem one_running_of_a_key:
  assumes "(fleet_step hashtext)\<^sup>*\<^sup>* (quiet_fleet db) F" and "jobs_ok db" and "one_running db"
    and "a \<in> set (fl_table F)" and "b \<in> set (fl_table F)"
  shows "(j_state a = Running \<and> j_state b = Running \<and> serial_key a = serial_key b \<and> serial_key a \<noteq> None \<longrightarrow> a = b) \<and>
    (lease_token a \<noteq> None \<longleftrightarrow> j_state a = Running) \<and> 0 \<le> attempts a \<and> attempts a \<le> max_attempts a \<and>
    (j_state a = Pending \<longrightarrow> attempts a < max_attempts a)"
proof -
  have "fleet_ok hashtext F" by (rule fleet.reach_keeps [OF assms(1) quiet_fleet_ok [OF assms(2,3)]])
  note ok = fleet_okD [OF this]
  have "job_ok a" using ok(1) assms(4) by (simp add: jobs_ok_def)
  then show ?thesis using ok(2) assms(4,5) unfolding one_running_def same_key_def job_ok_def by blast
qed

section \<open>Claiming, alone\<close>

lemma quiet_fleet_simps [simp]:
  "fl_table (quiet_fleet db) = db" "fl_claims (quiet_fleet db) = (\<lambda>_. None)"
  "row_locked (quiet_fleet db) i \<longleftrightarrow> False" "key_locked (quiet_fleet db) x \<longleftrightarrow> False"
  by (simp_all add: quiet_fleet_def row_locked_def key_locked_def)

lemma pick_one_of_key:
  assumes "jobs_ok db" and "p \<in> set (pick hashtext now kinds lim locked held db)"
    and "q \<in> set (pick hashtext now kinds lim locked held db)" and "same_key p q"
  shows "p = q"
proof -
  let ?cs = "claim_candidates now kinds lim locked db"
  obtain k where k: "serial_key p = Some k" "serial_key q = Some k"
    using assms(4) unfolding same_key_def by (metis not_None_eq)
  then have "p \<in> set ?cs" "q \<in> set ?cs" "first_of_key ?cs p" "first_of_key ?cs q"
    using assms(2,3) by (auto simp: pick_def Let_def)
  then have "j_id p = j_id q" using k by (force simp: first_of_key_def list_all_iff)
  then show ?thesis using row_unique [OF assms(1)] pick_pending [OF assms(2)] pick_pending [OF assms(3)] by blast
qed

lemma new_version_returning:
  assumes "jobs_ok db" and "j \<in> set db" and "\<And>k. j_id (f k) = j_id k"
  shows "new_version (returning P f db) j = (if P j then f j else j)"
proof (cases "find (\<lambda>t. j_id t = j_id j) (returning P f db)")
  case None
  then have "\<not> P j" using assms(2,3) by (force simp: find_None_iff returning_def)
  then show ?thesis using None by (simp add: new_version_def)
next
  case (Some t)
  then have "t \<in> set (returning P f db)" "j_id t = j_id j" by (auto simp: find_Some_iff)
  then obtain k where k: "k \<in> set db" "P k" "t = f k" "j_id k = j_id j" by (auto simp: returning_def assms(3))
  then have "k = j" using row_unique [OF assms(1)] assms(2) by blast
  then show ?thesis using Some k by (simp add: new_version_def)
qed

lemma new_version_returning_all:
  "jobs_ok db \<Longrightarrow> (\<And>k. j_id (f k) = j_id k) \<Longrightarrow> map (new_version (returning P f db)) db = update_rows P f db"
  by (auto simp: update_rows_def new_version_returning intro!: map_cong)

text \<open>
  The claim as one function is the claim as it runs where nothing comes between: its two statements
  and its commit are steps of the queue, so whatever holds of every interleaving holds of it.
\<close>
theorem claim_refines_steps:
  assumes "jobs_ok db"
  shows "(fleet_step hashtext)\<^sup>*\<^sup>* (quiet_fleet db) (quiet_fleet (snd (claim hashtext now kinds lim lease fresh db)))"
proof -
  let ?picked = "pick hashtext now kinds lim (\<lambda>_. False) (\<lambda>_. False) db"
  let ?cl = "\<lparr>cl_rows = j_id ` set ?picked, cl_picked = ?picked, cl_locks = key_hashes hashtext ?picked, cl_taken = None\<rparr>"
  let ?taken = "returning (takes (map j_id ?picked) db) (claimed now lease fresh) db"
  let ?F1 = "(quiet_fleet db)\<lparr>fl_claims := (\<lambda>_. None)(0 \<mapsto> ?cl)\<rparr>"
  let ?F2 = "(quiet_fleet db)\<lparr>fl_claims := (\<lambda>_. None)(0 \<mapsto> ?cl\<lparr>cl_taken := Some ?taken\<rparr>)\<rparr>"
  let ?F3 = "quiet_fleet (map (new_version ?taken) db)"
  have eq: "?F3 = ?F2\<lparr>fl_table := map (new_version ?taken) (fl_table ?F2), fl_claims := (fl_claims ?F2)(0 := None)\<rparr>"
    by (auto simp: quiet_fleet_def fun_eq_iff)
  have "pick_allowed hashtext (quiet_fleet db) (j_id ` set ?picked) ?picked"
    using pick_pending pick_one_of_key [OF assms] by (fastforce simp: pick_allowed_def may_start_def)
  then have "fleet_step hashtext (quiet_fleet db) ?F1" using fleet_step.picks [of "quiet_fleet db" 0] by simp
  moreover have "fleet_step hashtext ?F1 ?F2" using fleet_step.looks_again [of ?F1 0 ?cl hashtext] by simp
  moreover have "fleet_step hashtext ?F2 ?F3" 
    unfolding eq by (rule fleet_step.commits [of _ 0 "?cl\<lparr>cl_taken := Some ?taken\<rparr>"]) simp_all
  ultimately have "(fleet_step hashtext)\<^sup>*\<^sup>* (quiet_fleet db) ?F3"
    by (meson rtranclp.rtrancl_refl rtranclp.rtrancl_into_rtrancl)
  moreover have "map (new_version ?taken) db = update_rows (takes (map j_id ?picked) db) (claimed now lease fresh) db"
    by (rule new_version_returning_all [OF assms]) simp
  ultimately show ?thesis by (auto simp: claim_def Let_def)
qed

text \<open>
  C36. A busy key holds up nobody else. As long as some waiting job may start -- its time has come, its
  kind is asked for and nothing of its key runs -- a claim of at least one job takes one, however many
  jobs of busy keys stand before it in the queue.
\<close>
theorem busy_key_stalls_nobody:
  assumes "jobs_ok db" and "j \<in> set db" and "may_start now kinds db j" and "0 < lim"
  shows "fst (claim hashtext now kinds lim lease fresh db) \<noteq> []"
proof -
  let ?cs = "claim_candidates now kinds lim (\<lambda>_. False) db"
  let ?picked = "pick hashtext now kinds lim (\<lambda>_. False) (\<lambda>_. False) db"
  let ?queue = "sort_key (\<lambda>j. (priority j, run_after j, j_id j)) (filter (may_start now kinds db) db)"
  have "j \<in> set ?queue" using assms(2,3) by simp
  then have "?queue \<noteq> []" by (cases ?queue) auto
  then have "?cs \<noteq> []" using assms(4) by (simp add: claim_candidates_def del: set_sort)
  then have "Min (j_id ` set ?cs) \<in> j_id ` set ?cs" by (intro Min_in) auto
  then obtain c where c: "c \<in> set ?cs" "j_id c = Min (j_id ` set ?cs)" by fastforce
  have "j_id c \<le> j_id d" if "d \<in> set ?cs" for d using that unfolding c(2) by (intro Min_le) auto
  then have "c \<in> set ?picked" using c(1) by (auto simp: pick_def Let_def first_of_key_def list_all_iff split: option.split)
  moreover then have "takes (map j_id ?picked) db c" "c \<in> set db"
    using pick_pending [of c] by (auto simp: takes_def may_start_def)
  ultimately show ?thesis by (auto simp: claim_def Let_def returning_def filter_empty_conv)
qed

section \<open>Who may speak for a job\<close>

lemma update_rows_none: "(\<And>j. j \<in> set db \<Longrightarrow> \<not> P j) \<Longrightarrow> update_rows P f db = db"
  unfolding update_rows_def by (rule map_idI) auto

lemma returning_none: "(\<And>j. j \<in> set db \<Longrightarrow> \<not> P j) \<Longrightarrow> returning P f db = []"
  by (simp add: returning_def)

text \<open>
  C26. A runtime whose lease is gone can say nothing of the job any more. Where no running row holds the
  token it quotes -- the job was reaped, finished, parked, or is out again under another token -- every
  report it may make changes nothing and is answered with a refusal.
\<close>
theorem stale_lease_changes_nothing:
  assumes "\<not> holds_lease db i t"
  shows "complete now i (Some t) db = (Inl JobNotFound, db) \<and>
    fail now i err backoff (Some t) db = (Inl JobNotFound, db) \<and>
    fail_for_good now i err (Some t) db = (Inl JobNotFound, db) \<and>
    mark_cancelled now i (Some t) db = (Inl JobNotFound, db) \<and>
    release now i delay max_releases (Some t) db = (Inl JobNotFound, db) \<and>
    park now i (Some t) db = (NotHeld, db) \<and> extend_lease now i lease t db = (False, db)"
proof -
  have "\<not> running_for i (Some t) j" if "j \<in> set db" for j
    using assms that by (auto simp: holds_lease_def list_ex_iff running_for_def holds_token_def)
  then have none: "update_rows (running_for i (Some t)) f db = db" "returning (running_for i (Some t)) f db = []" for f
    by (auto intro!: update_rows_none returning_none)
  have "\<not> (j_id j = i \<and> j_state j = Running \<and> lease_token j = Some t)" if "j \<in> set db" for j
    using assms that by (auto simp: holds_lease_def list_ex_iff)
  then have lease: "update_rows (\<lambda>j. j_id j = i \<and> j_state j = Running \<and> lease_token j = Some t) f db = db"
    "returning (\<lambda>j. j_id j = i \<and> j_state j = Running \<and> lease_token j = Some t) f db = []" for f
    by (auto intro!: update_rows_none returning_none)
  show ?thesis
    by (simp add: complete_def fail_def fail_for_good_def record_failure_def mark_cancelled_def release_def park_def
        extend_lease_def written_def Let_def none lease)
qed

section \<open>What is over stays over\<close>

text \<open>A job that succeeded or was stopped, and the table it is in.\<close>

definition over_and_kept :: "(string \<Rightarrow> int) \<Rightarrow> job \<Rightarrow> fleet \<Rightarrow> bool" where
  "over_and_kept hashtext j F \<longleftrightarrow>
     fleet_ok hashtext F \<and> j \<in> set (fl_table F) \<and> (j_state j = Succeeded \<or> j_state j = Cancelled)"

lemma rows_move_over:
  assumes "rows_move db db'" and "j \<in> set db" and "j_state j = Succeeded \<or> j_state j = Cancelled"
  shows "j \<in> set db'"
proof -
  obtain rows new where d: "db' = rows @ new" "list_all2 (\<lambda>j j'. j' = j \<or> job_moves j j') db rows"
    using assms(1) by (auto simp: rows_move_def)
  obtain n where n: "n < length db" "db ! n = j" using assms(2) by (auto simp: in_set_conv_nth)
  then have "rows ! n = j \<or> job_moves j (rows ! n)" "n < length rows"
    using list_all2_nthD [OF d(2) n(1)] list_all2_lengthD [OF d(2)] by auto
  then have "rows ! n = j" using job_moves_not_over assms(3) by blast
  then show ?thesis using \<open>n < length rows\<close> d(1) by auto
qed

lemma fleet_step_over:
  assumes "over_and_kept hashtext j F" and "fleet_step hashtext F F'"
  shows "over_and_kept hashtext j F'"
proof -
  have over: "fleet_ok hashtext F" "j \<in> set (fl_table F)" "j_state j = Succeeded \<or> j_state j = Cancelled"
    using assms(1) unfolding over_and_kept_def by auto
  note ok = fleet_okD [OF over(1)]
  have "j \<in> set (fl_table F')"
    using assms(2)
  proof (cases rule: fleet_step.cases)
    case (commits c cl taken)
    have "new_version taken j = j \<or> j \<in> set (cl_picked cl)"
      by (rule new_version_cases [OF ok(1) ok(3) [OF commits(2)] commits(3) over(2)]) auto
    moreover have "j \<notin> set (cl_picked cl)" using ok(3) [OF commits(2)] over(3) unfolding claim_sound_def by fastforce
    ultimately have "new_version taken j = j" by blast
    then show ?thesis using over(2) commits(1) by (simp add: image_iff) metis
  next
    case (other_statement op now)
    then show ?thesis using rows_move_over [OF op_moves_rows over(2,3)] by simp
  qed (use over(2) in simp_all)
  then show ?thesis using over fleet_step_keeps [OF over(1) assms(2)] by (simp add: over_and_kept_def)
qed

interpretation over: invariant_relation "fleet_step hashtext" "over_and_kept hashtext j" for hashtext j
  by unfold_locales (rule fleet_step_over)

text \<open>
  What is over stays over. A job that succeeded, or that somebody stopped, is the same row ever
  after: no claim takes it, no report, reaping or resumption changes it, whatever else runs beside.
\<close>
theorem finished_job_never_changes:
  assumes "(fleet_step hashtext)\<^sup>*\<^sup>* (quiet_fleet db) F" and "(fleet_step hashtext)\<^sup>*\<^sup>* F F'"
    and "jobs_ok db" and "one_running db"
    and "j \<in> set (fl_table F)" and "j_state j = Succeeded \<or> j_state j = Cancelled"
  shows "j \<in> set (fl_table F')"
proof -
  have "fleet_ok hashtext F" by (rule fleet.reach_keeps [OF assms(1) quiet_fleet_ok [OF assms(3,4)]])
  then have "over_and_kept hashtext j F" using assms(5,6) by (simp add: over_and_kept_def)
  then have "over_and_kept hashtext j F'" by (rule over.reach_keeps [OF assms(2)])
  then show ?thesis by (simp add: over_and_kept_def)
qed

text \<open>
  Asking again for a job that gave up for want of room does not give it room: its releases are not
  counted from the start, as its attempts are, and the first time it is handed back it gives up again.
\<close>

definition example_job :: "uuid \<Rightarrow> string \<Rightarrow> job" where
  "example_job i key = \<lparr>j_id = i, j_workspace = 1, j_kind = ''chat.turn'', j_payload = JNull, j_state = Pending,
     attempts = 0, max_attempts = 3, releases = 0, lease_token = None, leased_until = None, run_after = 0,
     cancel_requested_at = None, last_error = None, serial_key = Some key, priority = 10, updated_at = 0\<rparr>"

definition out_with :: "uuid \<Rightarrow> job \<Rightarrow> job" where
  "out_with t j = j\<lparr>j_state := Running, attempts := 1, lease_token := Some t, leased_until := Some 45\<rparr>"

lemma asked_again_gives_up_at_once:
  fixes hashtext
  defines "db \<equiv> [(example_job 1 ''s'')\<lparr>j_state := Failed, releases := MAX_RELEASES\<rparr>]"
  defines "out \<equiv> claim hashtext 0 [] 1 DEFAULT_LEASE (\<lambda>_. 7) (snd (requeue_failed 0 1 db))"
  shows "fst (requeue_failed 0 1 db) = Queued" and "map lease_token (fst out) = [Some 7]"
    and "fst (release 1 1 0 MAX_RELEASES (Some 7) (snd out)) = Inr GaveUp"
  by (simp_all add: db_def out_def requeue_failed_def claim_def pick_def claim_candidates_def may_start_def
      key_running_def first_of_key_def takes_def returning_def update_rows_def claimed_def release_def
      running_for_def holds_token_def example_job_def Let_def)

section \<open>Witnesses\<close>

definition example_queue :: "job list" where
  "example_queue = [out_with 9 (example_job 1 ''s''), example_job 2 ''s'', example_job 3 ''t'']"

lemma example_queue_ok: "jobs_ok example_queue" "one_running example_queue"
  by (simp_all add: example_queue_def jobs_ok_def job_ok_def one_running_def example_job_def out_with_def)

lemma example_claim:
  "snd (claim hashtext 5 [] 1 10 (\<lambda>_. 7) example_queue) =
     [out_with 9 (example_job 1 ''s''), example_job 2 ''s'', claimed 5 10 (\<lambda>_. 7) (example_job 3 ''t'')]"
  by (simp add: example_queue_def claim_def pick_def claim_candidates_def may_start_def key_running_def first_of_key_def
      takes_def returning_def update_rows_def claimed_def example_job_def out_with_def Let_def)

theorem claim_refines_steps_witness:
  "(fleet_step (\<lambda>_. 0))\<^sup>*\<^sup>* (quiet_fleet example_queue)
     (quiet_fleet [out_with 9 (example_job 1 ''s''), example_job 2 ''s'', claimed 5 10 (\<lambda>_. 7) (example_job 3 ''t'')])"
  using claim_refines_steps [OF example_queue_ok(1), of "\<lambda>_. 0" 5 "[]" 1 10 "\<lambda>_. 7"] unfolding example_claim .

lemma example_reached:
  "(fleet_step (\<lambda>_. 0))\<^sup>*\<^sup>* (quiet_fleet example_queue)
     ((quiet_fleet example_queue)\<lparr>fl_claims := (\<lambda>_. None)(4 \<mapsto>
       \<lparr>cl_rows = {3}, cl_picked = [example_job 3 ''t''], cl_locks = key_hashes (\<lambda>_. 0) [example_job 3 ''t''],
        cl_taken = None\<rparr>)\<rparr>)"
proof -
  have "pick_allowed (\<lambda>_. 0) (quiet_fleet example_queue) {3} [example_job 3 ''t'']"
    by (simp add: pick_allowed_def example_queue_def example_job_def)
  then show ?thesis using fleet_step.picks [of "quiet_fleet example_queue" 4] by auto
qed

theorem one_running_of_a_key_witness:
  "lease_token (out_with 9 (example_job 1 ''s'')) \<noteq> None \<and> attempts (out_with 9 (example_job 1 ''s'')) \<le> 3"
  using one_running_of_a_key [OF example_reached example_queue_ok, of "out_with 9 (example_job 1 ''s'')" "out_with 9 (example_job 1 ''s'')"]
  by (simp add: example_queue_def out_with_def example_job_def)

theorem busy_key_stalls_nobody_witness: "fst (claim (\<lambda>_. 0) 5 [] 1 10 (\<lambda>_. 7) example_queue) \<noteq> []"
  by (rule busy_key_stalls_nobody [OF example_queue_ok(1), of "example_job 3 ''t''"])
    (simp_all add: example_queue_def may_start_def key_running_def example_job_def out_with_def)

theorem stale_lease_changes_nothing_witness: "complete 5 1 (Some 8) example_queue = (Inl JobNotFound, example_queue)"
  using stale_lease_changes_nothing [of example_queue 1 8]
  by (simp add: holds_lease_def example_queue_def example_job_def out_with_def)

theorem finished_job_never_changes_witness:
  "(example_job 1 ''s'')\<lparr>j_state := Cancelled\<rparr> \<in>
     set (fl_table ((quiet_fleet [(example_job 1 ''s'')\<lparr>j_state := Cancelled\<rparr>])\<lparr>fl_table :=
       apply_op 5 (Requeue 1) [(example_job 1 ''s'')\<lparr>j_state := Cancelled\<rparr>]\<rparr>))"
proof (rule finished_job_never_changes)
  let ?db = "[(example_job 1 ''s'')\<lparr>j_state := Cancelled\<rparr>]"
  show "(fleet_step (\<lambda>_. 0))\<^sup>*\<^sup>* (quiet_fleet ?db) (quiet_fleet ?db)" by simp
  show "(fleet_step (\<lambda>_. 0))\<^sup>*\<^sup>* (quiet_fleet ?db) ((quiet_fleet ?db)\<lparr>fl_table := apply_op 5 (Requeue 1) ?db\<rparr>)"
    using fleet_step.other_statement [of "quiet_fleet ?db" "Requeue 1" 5 "\<lambda>_. 0"] by (auto simp: op_ok_def)
qed (simp_all add: jobs_ok_def job_ok_def one_running_def example_job_def)

end
