(* ===== verification/Holds.thy ===== *)
theory Holds
  imports Jobs
begin

text \<open>
  Holds on work: \<open>crates/core/src/inhibitor/mod.rs\<close>, what a set of them says, and
  \<open>inhibitor/postgres.rs\<close>, each statement over the rows of \<open>inhibitors\<close>; and of \<open>jobs/store.rs\<close> what a
  hold's release gives back to the queue. A row keeps its level as text and its scope as columns, as
  the table does, so reading one may fail.
\<close>

section \<open>What holds say\<close>

datatype strength = SuspendedHold | StoppedHold

fun strength_text :: "strength \<Rightarrow> string" where
  "strength_text SuspendedHold = ''suspended''"
| "strength_text StoppedHold = ''stopped''"

definition strength_parse :: "string \<Rightarrow> strength option" where
  "strength_parse s =
     (if s = ''suspended'' then Some SuspendedHold else if s = ''stopped'' then Some StoppedHold else None)"

datatype hold_verdict = Proceed | Suspend | Stop

instantiation hold_verdict :: linorder
begin

fun verdict_rank :: "hold_verdict \<Rightarrow> nat" where
  "verdict_rank Proceed = 0"
| "verdict_rank Suspend = 1"
| "verdict_rank Stop = 2"

definition less_eq_hold_verdict :: "hold_verdict \<Rightarrow> hold_verdict \<Rightarrow> bool" where
  "less_eq_hold_verdict a b \<longleftrightarrow> verdict_rank a \<le> verdict_rank b"

definition less_hold_verdict :: "hold_verdict \<Rightarrow> hold_verdict \<Rightarrow> bool" where
  "less_hold_verdict a b \<longleftrightarrow> verdict_rank a < verdict_rank b"

instance
proof
  fix a b :: hold_verdict
  show "a \<le> b \<Longrightarrow> b \<le> a \<Longrightarrow> a = b" by (cases a; cases b) (simp_all add: less_eq_hold_verdict_def)
qed (auto simp: less_eq_hold_verdict_def less_hold_verdict_def)

end

fun verdict_of_strength :: "strength \<Rightarrow> hold_verdict" where
  "verdict_of_strength SuspendedHold = Suspend"
| "verdict_of_strength StoppedHold = Stop"

datatype hold_scope =
    PlatformScope
  | WorkspaceScope uuid
  | AgentScope uuid uuid
  | SessionScope uuid uuid

fun scope_workspace :: "hold_scope \<Rightarrow> uuid option" where
  "scope_workspace PlatformScope = None"
| "scope_workspace (WorkspaceScope ws) = Some ws"
| "scope_workspace (AgentScope ws _) = Some ws"
| "scope_workspace (SessionScope ws _) = Some ws"

record inhibitor =
  in_id :: uuid
  in_scope :: hold_scope
  in_strength :: strength
  in_reason :: string
  in_held_by :: string
  in_created :: time

record decision =
  dc_verdict :: hold_verdict
  contributors :: "inhibitor list"

definition proceeds :: "decision \<Rightarrow> bool" where
  "proceeds d \<longleftrightarrow> dc_verdict d = Proceed"

definition deciding :: "decision \<Rightarrow> inhibitor list" where
  "deciding d = filter (\<lambda>i. verdict_of_strength (in_strength i) = dc_verdict d) (contributors d)"

fun with_semicolons :: "string list \<Rightarrow> string" where
  "with_semicolons [] = []"
| "with_semicolons [s] = s"
| "with_semicolons (s # ss) = s @ ''; '' @ with_semicolons ss"

definition why :: "decision \<Rightarrow> string" where
  "why d = with_semicolons (map in_reason (deciding d))"

definition decide :: "inhibitor list \<Rightarrow> decision" where
  "decide holds =
     \<lparr>dc_verdict = foldr max (map (verdict_of_strength \<circ> in_strength) holds) Proceed, contributors = holds\<rparr>"

definition should_latch :: "decision \<Rightarrow> bool" where
  "should_latch d \<longleftrightarrow> dc_verdict d = Stop \<and> \<not> list_ex (\<lambda>i. in_strength i = SuspendedHold) (contributors d)"

section \<open>Rows\<close>

datatype hold_error = NoSuchHold | NoReason | NoHolder | BadRow string | BadStrength string

record hold_row =
  hr_id :: uuid
  hr_level :: string
  hr_workspace :: "uuid option"
  hr_agent :: "uuid option"
  hr_session :: "uuid option"
  hr_strength :: string
  hr_reason :: string
  hr_held_by :: string
  hr_created :: time

definition read_scope :: "hold_row \<Rightarrow> hold_error + hold_scope" where
  "read_scope r =
     (case (hr_workspace r, hr_agent r, hr_session r) of
        (None, None, None) \<Rightarrow> if hr_level r = ''platform'' then Inr PlatformScope else Inl (BadRow (hr_level r))
      | (Some ws, None, None) \<Rightarrow> if hr_level r = ''workspace'' then Inr (WorkspaceScope ws) else Inl (BadRow (hr_level r))
      | (Some ws, Some ag, None) \<Rightarrow> if hr_level r = ''agent'' then Inr (AgentScope ws ag) else Inl (BadRow (hr_level r))
      | (Some ws, None, Some ss) \<Rightarrow> if hr_level r = ''session'' then Inr (SessionScope ws ss) else Inl (BadRow (hr_level r))
      | _ \<Rightarrow> Inl (BadRow (hr_level r)))"

definition read_hold :: "hold_row \<Rightarrow> hold_error + inhibitor" where
  "read_hold r =
     try_step (read_scope r) (\<lambda>sc.
     (case strength_parse (hr_strength r) of
        None \<Rightarrow> Inl (BadStrength (hr_strength r))
      | Some st \<Rightarrow>
          Inr \<lparr>in_id = hr_id r, in_scope = sc, in_strength = st, in_reason = hr_reason r,
               in_held_by = hr_held_by r, in_created = hr_created r\<rparr>))"

fun read_holds :: "hold_row list \<Rightarrow> hold_error + inhibitor list" where
  "read_holds [] = Inr []"
| "read_holds (r # rs) = try_step (read_hold r) (\<lambda>i. try_step (read_holds rs) (\<lambda>is. Inr (i # is)))"

fun columns :: "hold_scope \<Rightarrow> string \<times> uuid option \<times> uuid option \<times> uuid option" where
  "columns PlatformScope = (''platform'', None, None, None)"
| "columns (WorkspaceScope ws) = (''workspace'', Some ws, None, None)"
| "columns (AgentScope ws ag) = (''agent'', Some ws, Some ag, None)"
| "columns (SessionScope ws ss) = (''session'', Some ws, None, Some ss)"

section \<open>The store\<close>

definition covering_session ::
  "(uuid \<Rightarrow> uuid option) \<Rightarrow> hold_row list \<Rightarrow> uuid \<Rightarrow> uuid \<Rightarrow> hold_error + inhibitor list" where
  "covering_session agent_of db workspace_id session_id =
     read_holds (sort_key hr_created (filter (\<lambda>r.
       hr_level r = ''platform'' \<or>
       (hr_level r = ''workspace'' \<and> hr_workspace r = Some workspace_id) \<or>
       (hr_level r = ''session'' \<and> hr_session r = Some session_id) \<or>
       (hr_level r = ''agent'' \<and> hr_agent r \<noteq> None \<and> hr_agent r = agent_of session_id)) db))"

record take_hold =
  th_scope :: hold_scope
  th_strength :: strength
  th_reason :: string
  th_held_by :: string

definition take_inhibitor ::
  "uuid \<Rightarrow> time \<Rightarrow> take_hold \<Rightarrow> hold_row list \<Rightarrow> (hold_error + inhibitor) \<times> hold_row list" where
  "take_inhibitor i now inp db =
     (if trim (th_reason inp) = [] then (Inl NoReason, db)
      else if trim (th_held_by inp) = [] then (Inl NoHolder, db)
      else
        (case columns (th_scope inp) of
           (level, ws, ag, ss) \<Rightarrow>
             (let r = \<lparr>hr_id = i, hr_level = level, hr_workspace = ws, hr_agent = ag, hr_session = ss,
                hr_strength = strength_text (th_strength inp), hr_reason = trim (th_reason inp),
                hr_held_by = trim (th_held_by inp), hr_created = now\<rparr> in
              (read_hold r, db @ [r]))))"

definition release_hold :: "uuid \<Rightarrow> hold_row list \<Rightarrow> (hold_error + unit) \<times> hold_row list" where
  "release_hold i db =
     (if filter (\<lambda>r. hr_id r = i) db = [] then (Inl NoSuchHold, db)
      else (Inr (), filter (\<lambda>r. hr_id r \<noteq> i) db))"

definition covers_row :: "uuid \<Rightarrow> uuid \<Rightarrow> uuid \<Rightarrow> hold_row \<Rightarrow> bool" where
  "covers_row workspace_id agent_id session_id r \<longleftrightarrow>
     hr_level r = ''platform'' \<or>
     (hr_level r = ''workspace'' \<and> hr_workspace r = Some workspace_id) \<or>
     (hr_level r = ''agent'' \<and> hr_workspace r = Some workspace_id \<and> hr_agent r = Some agent_id) \<or>
     (hr_level r = ''session'' \<and> hr_workspace r = Some workspace_id \<and> hr_session r = Some session_id)"

definition covering :: "hold_row list \<Rightarrow> uuid \<Rightarrow> uuid \<Rightarrow> uuid \<Rightarrow> hold_error + inhibitor list" where
  "covering db workspace_id agent_id session_id =
     read_holds (sort_key hr_created (filter (covers_row workspace_id agent_id session_id) db))"

definition get_hold :: "hold_row list \<Rightarrow> uuid \<Rightarrow> hold_error + inhibitor" where
  "get_hold db i = (case find (\<lambda>r. hr_id r = i) db of None \<Rightarrow> Inl NoSuchHold | Some r \<Rightarrow> read_hold r)"

definition in_workspace :: "hold_row list \<Rightarrow> uuid \<Rightarrow> uuid option \<Rightarrow> nat \<Rightarrow> hold_error + inhibitor list" where
  "in_workspace db workspace_id after lim =
     read_holds (take lim (sort_key hr_id (filter (\<lambda>r.
       hr_workspace r = Some workspace_id \<and> (case after of None \<Rightarrow> True | Some a \<Rightarrow> a < hr_id r)) db)))"

definition at_scope :: "hold_row list \<Rightarrow> hold_scope \<Rightarrow> hold_error + inhibitor list" where
  "at_scope db sc =
     (case columns sc of
        (level, ws, ag, ss) \<Rightarrow>
          read_holds (sort_key hr_created (filter (\<lambda>r.
            hr_level r = level \<and> hr_workspace r = ws \<and> hr_agent r = ag \<and> hr_session r = ss) db)))"

text \<open>What a release gives back to the queue: the breadth of the hold, in the one place it is decided.\<close>

fun resume_for_scope :: "(string \<Rightarrow> uuid option) \<Rightarrow> time \<Rightarrow> hold_scope \<Rightarrow> job list \<Rightarrow> nat \<times> job list" where
  "resume_for_scope parse_uuid now PlatformScope db = (0, db)"
| "resume_for_scope parse_uuid now (WorkspaceScope ws) db = resume_parked parse_uuid now ws None None db"
| "resume_for_scope parse_uuid now (AgentScope ws ag) db = resume_parked parse_uuid now ws (Some ag) None db"
| "resume_for_scope parse_uuid now (SessionScope ws ss) db = resume_parked parse_uuid now ws None (Some ss) db"

section \<open>Scopes and rows\<close>

fun covers :: "hold_scope \<Rightarrow> uuid \<Rightarrow> uuid \<Rightarrow> uuid \<Rightarrow> bool" where
  "covers PlatformScope ws ag ss \<longleftrightarrow> True"
| "covers (WorkspaceScope w) ws ag ss \<longleftrightarrow> w = ws"
| "covers (AgentScope w a) ws ag ss \<longleftrightarrow> w = ws \<and> a = ag"
| "covers (SessionScope w s) ws ag ss \<longleftrightarrow> w = ws \<and> s = ss"

lemma strength_parse_text [simp]: "strength_parse (strength_text st) = Some st"
  by (cases st) (simp_all add: strength_parse_def)

lemma read_scope_Inr:
  "read_scope r = Inr sc \<longleftrightarrow> columns sc = (hr_level r, hr_workspace r, hr_agent r, hr_session r)"
  by (cases sc) (auto simp: read_scope_def split: option.splits if_splits)

lemma covers_row_iff: "read_scope r = Inr sc \<Longrightarrow> covers_row ws ag ss r \<longleftrightarrow> covers sc ws ag ss"
  by (cases sc) (auto simp: read_scope_Inr covers_row_def)

lemma read_hold_fields:
  "read_hold r = Inr i \<Longrightarrow> in_id i = hr_id r \<and> in_created i = hr_created r \<and> read_scope r = Inr (in_scope i)"
  by (auto simp: read_hold_def split: option.splits)

definition holds_readable :: "hold_row list \<Rightarrow> bool" where
  "holds_readable db \<longleftrightarrow> (\<forall>r \<in> set db. \<exists>i. read_hold r = Inr i)"

definition holds_of :: "hold_row list \<Rightarrow> inhibitor list" where
  "holds_of rs = List.map_filter (\<lambda>r. case read_hold r of Inr i \<Rightarrow> Some i | Inl _ \<Rightarrow> None) rs"

lemma holds_of_simps [simp]:
  "holds_of [] = []"
  "holds_of (r # rs) = (case read_hold r of Inr i \<Rightarrow> i # holds_of rs | Inl _ \<Rightarrow> holds_of rs)"
  by (simp_all add: holds_of_def split: sum.split)

lemma read_holds_readable: "holds_readable rs \<Longrightarrow> read_holds rs = Inr (holds_of rs)"
  by (induction rs) (auto simp: holds_readable_def)

lemma holds_readable_sub: "holds_readable db \<Longrightarrow> set rs \<subseteq> set db \<Longrightarrow> holds_readable rs"
  by (auto simp: holds_readable_def)

lemma in_holds_of: "h \<in> set (holds_of rs) \<longleftrightarrow> (\<exists>r \<in> set rs. read_hold r = Inr h)"
  by (induction rs) (auto split: sum.split)

lemma holds_of_filter_id: "holds_of (filter (\<lambda>r. hr_id r \<noteq> i) rs) = filter (\<lambda>h. in_id h \<noteq> i) (holds_of rs)"
  by (induction rs) (auto dest: read_hold_fields split: sum.split)

lemma covering_readable:
  "holds_readable db \<Longrightarrow> covering db ws ag ss = Inr (holds_of (sort_key hr_created (filter (covers_row ws ag ss) db)))"
  unfolding covering_def by (rule read_holds_readable) (auto intro: holds_readable_sub)

lemma in_covering:
  assumes "holds_readable db" and "covering db ws ag ss = Inr holds"
  shows "h \<in> set holds \<longleftrightarrow> (\<exists>r \<in> set db. read_hold r = Inr h \<and> covers (in_scope h) ws ag ss)"
proof -
  have "holds = holds_of (sort_key hr_created (filter (covers_row ws ag ss) db))"
    using covering_readable [OF assms(1), of ws ag ss] assms(2) by simp
  then show ?thesis using read_hold_fields covers_row_iff by (fastforce simp: in_holds_of)
qed

section \<open>What holds do\<close>

lemma max_verdicts:
  "foldr max (map (verdict_of_strength \<circ> in_strength) hs) Proceed =
     (if list_ex (\<lambda>h. in_strength h = StoppedHold) hs then Stop else if hs = [] then Proceed else Suspend)"
proof (induction hs)
  case (Cons h hs)
  then show ?case
    by (cases "in_strength h") (auto simp: max_def less_eq_hold_verdict_def)
qed simp

text \<open>
  What holds say, all of them together. A turn is stopped when any hold on it stops, suspended when
  some do and none stops, and goes on when there is none; a session is latched only where every hold on
  it is a stop, so that answering what a turn waited for lets it go on.
\<close>
theorem strongest_hold_decides:
  "dc_verdict (decide hs) =
     (if list_ex (\<lambda>h. in_strength h = StoppedHold) hs then Stop else if hs = [] then Proceed else Suspend) \<and>
   (should_latch (decide hs) \<longleftrightarrow> hs \<noteq> [] \<and> list_all (\<lambda>h. in_strength h = StoppedHold) hs) \<and>
   (proceeds (decide hs) \<longleftrightarrow> deciding (decide hs) = [] \<and> hs = [])"
proof -
  have other: "(in_strength h = SuspendedHold) \<longleftrightarrow> in_strength h \<noteq> StoppedHold" for h
    by (cases "in_strength h") simp_all
  have ex: "list_ex (\<lambda>h. in_strength h = SuspendedHold) hs \<longleftrightarrow> \<not> list_all (\<lambda>h. in_strength h = StoppedHold) hs"
    by (simp add: other list_ex_iff list_all_iff)
  have "hs \<noteq> [] \<Longrightarrow> list_all (\<lambda>h. in_strength h = StoppedHold) hs \<Longrightarrow> list_ex (\<lambda>h. in_strength h = StoppedHold) hs"
    by (cases hs) auto
  then show ?thesis
    by (auto simp: decide_def max_verdicts should_latch_def proceeds_def deciding_def ex split: if_splits)
qed

text \<open>
  The last hold out decides. What covers a turn is every hold on the platform, on its workspace, its
  agent or its session; releasing one leaves every other where it was; and the turn may go on exactly
  when the one released was all that held it.
\<close>
theorem last_hold_out_decides:
  assumes "holds_readable db" and "covering db ws ag ss = Inr holds" and "release_hold i db = (Inr (), db')"
  shows "covering db' ws ag ss = Inr (filter (\<lambda>h. in_id h \<noteq> i) holds) \<and>
    (proceeds (decide (filter (\<lambda>h. in_id h \<noteq> i) holds)) \<longleftrightarrow> list_all (\<lambda>h. in_id h = i) holds) \<and>
    (h \<in> set holds \<longleftrightarrow> (\<exists>r \<in> set db. read_hold r = Inr h \<and> covers (in_scope h) ws ag ss))"
proof -
  have db': "db' = filter (\<lambda>r. hr_id r \<noteq> i) db" using assms(3) by (auto simp: release_hold_def split: if_splits)
  then have "holds_readable db'" using assms(1) holds_readable_sub by auto
  note after = covering_readable [OF this, of ws ag ss]
  have "holds = holds_of (sort_key hr_created (filter (covers_row ws ag ss) db))"
    using covering_readable [OF assms(1), of ws ag ss] assms(2) by simp
  moreover have "sort_key hr_created (filter (covers_row ws ag ss) db') =
      filter (\<lambda>r. hr_id r \<noteq> i) (sort_key hr_created (filter (covers_row ws ag ss) db))"
    by (simp add: db' filter_sort conj_commute)
  ultimately have "covering db' ws ag ss = Inr (filter (\<lambda>h. in_id h \<noteq> i) holds)"
    using after by (simp add: holds_of_filter_id)
  moreover have "proceeds (decide hs) \<longleftrightarrow> hs = []" for hs
    by (auto simp: proceeds_def decide_def max_verdicts split: if_splits)
  ultimately show ?thesis
    using in_covering [OF assms(1,2), of h] by (auto simp: filter_empty_conv list_all_iff)
qed

text \<open>
  The gateway and the queue see the same holds. For a session of one agent and one workspace, where
  every row on that session or that agent names that workspace, the holds the gateway finds by the
  session alone are those turn preparation finds by all three.
\<close>
theorem gateway_sees_the_same_holds:
  assumes "agent_of ss = Some ag"
    and "\<And>r. r \<in> set db \<Longrightarrow> hr_level r = ''session'' \<Longrightarrow> hr_session r = Some ss \<Longrightarrow> hr_workspace r = Some ws"
    and "\<And>r. r \<in> set db \<Longrightarrow> hr_level r = ''agent'' \<Longrightarrow> hr_agent r = Some ag \<Longrightarrow> hr_workspace r = Some ws"
  shows "covering_session agent_of db ws ss = covering db ws ag ss"
proof -
  have "filter (\<lambda>r. hr_level r = ''platform'' \<or> hr_level r = ''workspace'' \<and> hr_workspace r = Some ws \<or>
      hr_level r = ''session'' \<and> hr_session r = Some ss \<or>
      hr_level r = ''agent'' \<and> hr_agent r \<noteq> None \<and> hr_agent r = agent_of ss) db = filter (covers_row ws ag ss) db"
    using assms by (intro filter_cong refl) (auto simp: covers_row_def)
  then show ?thesis by (simp add: covering_session_def covering_def)
qed

text \<open>
  A release wakes what the hold covered and nothing else. Given back are exactly the parked turns of
  the scope -- the workspace's, the agent's or the session's -- each once, to run at once; a hold on the
  platform gives back none.
\<close>
theorem release_wakes_what_was_covered:
  assumes "\<And>j. j \<in> set db \<Longrightarrow> uuid_at parse_uuid (j_payload j) ''agent_id'' = Some (ag j)"
    and "\<And>j. j \<in> set db \<Longrightarrow> uuid_at parse_uuid (j_payload j) ''session_id'' = Some (ss j)"
  shows "snd (resume_for_scope parse_uuid now sc db) =
    map (\<lambda>j. if j_state j = Parked \<and> sc \<noteq> PlatformScope \<and> covers sc (j_workspace j) (ag j) (ss j)
             then j\<lparr>j_state := Pending, run_after := now, last_error := None, updated_at := now\<rparr> else j) db"
  using assms by (cases sc) (auto simp: resume_parked_def update_rows_def Let_def intro!: map_cong)

lemma read_scope_columns: "read_scope r = Inr sc \<Longrightarrow> columns sc = (hr_level r, hr_workspace r, hr_agent r, hr_session r)"
  by (simp add: read_scope_Inr)

lemma taken_hold_reads_back:
  assumes "take_inhibitor i now inp db = (Inr h, db')"
  shows "in_scope h = th_scope inp \<and> in_strength h = th_strength inp \<and>
    (covers (th_scope inp) ws ag ss \<longrightarrow> (\<exists>r \<in> set db'. covers_row ws ag ss r \<and> read_hold r = Inr h))"
proof -
  obtain level w a s where c: "columns (th_scope inp) = (level, w, a, s)" by (metis prod_cases4)
  let ?r = "\<lparr>hr_id = i, hr_level = level, hr_workspace = w, hr_agent = a, hr_session = s,
     hr_strength = strength_text (th_strength inp), hr_reason = trim (th_reason inp),
     hr_held_by = trim (th_held_by inp), hr_created = now\<rparr>"
  have r: "read_hold ?r = Inr h" "?r \<in> set db'" using assms c by (auto simp: take_inhibitor_def Let_def split: if_splits)
  have "read_scope ?r = Inr (th_scope inp)" using c by (simp add: read_scope_Inr)
  then show ?thesis using r covers_row_iff by (fastforce simp: read_hold_def)
qed

section \<open>Witnesses\<close>

definition example_hold :: "uuid \<Rightarrow> string \<Rightarrow> uuid option \<Rightarrow> uuid option \<Rightarrow> hold_row" where
  "example_hold i level ws ss = \<lparr>hr_id = i, hr_level = level, hr_workspace = ws, hr_agent = None, hr_session = ss,
     hr_strength = ''suspended'', hr_reason = ''why'', hr_held_by = ''who'', hr_created = 0\<rparr>"

definition example_holds :: "hold_row list" where
  "example_holds = [example_hold 1 ''platform'' None None, example_hold 2 ''session'' (Some 5) (Some 7)]"

lemma example_holds_readable: "holds_readable example_holds"
  by (simp add: holds_readable_def example_holds_def example_hold_def read_hold_def read_scope_def strength_parse_def)

theorem last_hold_out_decides_witness:
  "\<exists>holds. covering example_holds 5 6 7 = Inr holds \<and>
     covering [example_hold 1 ''platform'' None None] 5 6 7 = Inr (filter (\<lambda>h. in_id h \<noteq> 2) holds)"
proof -
  have "release_hold 2 example_holds = (Inr (), [example_hold 1 ''platform'' None None])"
    by (simp add: release_hold_def example_holds_def example_hold_def)
  then show ?thesis
    using last_hold_out_decides [OF example_holds_readable covering_readable [OF example_holds_readable, of 5 6 7]]
      covering_readable [OF example_holds_readable, of 5 6 7] by blast
qed

theorem gateway_sees_the_same_holds_witness:
  "covering_session (\<lambda>_. Some 6) example_holds 5 7 = covering example_holds 5 6 7"
  by (rule gateway_sees_the_same_holds) (auto simp: example_holds_def example_hold_def)

definition parked_job :: job where
  "parked_job = (example_job 1 ''s'')\<lparr>j_state := Parked,
     j_payload := JObj [(''agent_id'', JStr ''a''), (''session_id'', JStr ''s'')]\<rparr>"

theorem release_wakes_what_was_covered_witness:
  "map j_state (snd (resume_for_scope (\<lambda>_. Some 7) 5 (SessionScope 1 7) [parked_job])) = [Pending]"
  using release_wakes_what_was_covered [of "[parked_job]" "\<lambda>_. Some 7" "\<lambda>_. 7" "\<lambda>_. 7" 5 "SessionScope 1 7"]
  by (simp add: parked_job_def uuid_at_def obj_get_def example_job_def)

end
