(* ===== verification/Actions.thy ===== *)
theory Actions
  imports Holds
begin

text \<open>
  The queue of what waits for a person, \<open>crates/api/src/actions/mod.rs\<close> and
  \<open>crates/api/src/actions/postgres.rs\<close>: its items, whom each is addressed to, every statement over
  the two tables, and what each statement announces. A table is a list of rows; a statement is what
  it reads or leaves behind. The text of a JSON value inside a document (\<open>->>\<close>) is the database's, an
  argument where it is not a string already.

  The theorems: a decision stands once made, whatever is done to the queue after; a turn has at most
  one open question of a kind; and whoever's queue a statement changes is told.
\<close>

section \<open>Data\<close>

datatype target = RoleTarget uuid | UserTarget uuid

fun target_role :: "target \<Rightarrow> uuid option" where
  "target_role (RoleTarget i) = Some i"
| "target_role (UserTarget i) = None"

fun target_user :: "target \<Rightarrow> uuid option" where
  "target_user (UserTarget i) = Some i"
| "target_user (RoleTarget i) = None"

datatype delivery = Targeted "uuid list" "target list" | Invalidate "target list"

fun delivery_targets :: "delivery \<Rightarrow> target list" where
  "delivery_targets (Targeted item_ids ts) = ts"
| "delivery_targets (Invalidate ts) = ts"

fun delivery_is_empty :: "delivery \<Rightarrow> bool" where
  "delivery_is_empty (Targeted item_ids ts) \<longleftrightarrow> item_ids = [] \<or> ts = []"
| "delivery_is_empty (Invalidate ts) \<longleftrightarrow> ts = []"

datatype item_state = ItemPending | ItemResolved | ItemCancelled | ItemExpired

fun item_state_text :: "item_state \<Rightarrow> string" where
  "item_state_text ItemPending = ''pending''"
| "item_state_text ItemResolved = ''resolved''"
| "item_state_text ItemCancelled = ''cancelled''"
| "item_state_text ItemExpired = ''expired''"

definition item_state_parse :: "string \<Rightarrow> item_state option" where
  "item_state_parse s =
     (if s = ''pending'' then Some ItemPending
      else if s = ''resolved'' then Some ItemResolved
      else if s = ''cancelled'' then Some ItemCancelled
      else if s = ''expired'' then Some ItemExpired
      else None)"

definition item_is_open :: "item_state \<Rightarrow> bool" where
  "item_is_open st \<longleftrightarrow> st = ItemPending"

record action_item =
  ai_id :: uuid
  ai_workspace :: uuid
  ai_kind :: string
  ai_event :: "uuid option"
  ai_inhibitor :: "uuid option"
  ai_payload :: json
  ai_state :: item_state
  ai_note :: "string option"
  ai_created :: time
  ai_expires :: "time option"

record new_item =
  ni_kind :: string
  ni_event :: "uuid option"
  ni_inhibitor :: "uuid option"
  ni_payload :: json
  ni_targets :: "target list"
  ni_expires :: "time option"

text \<open>An internal error is one the database gave, or a row whose state nobody knows.\<close>

datatype action_error = ItemNotFound | NotPending string | InvalidItem string | StoreFailed | UnknownState string

definition validate_item :: "new_item \<Rightarrow> action_error + unit" where
  "validate_item i =
     (if trim (ni_kind i) = [] then Inl (InvalidItem ''kind cannot be empty'')
      else if ni_targets i = [] then Inl (InvalidItem ''an action item must have at least one target'')
      else
        (case ni_payload i of
           JObj _ \<Rightarrow> Inr ()
         | _ \<Rightarrow> Inl (InvalidItem ''payload must be a JSON object'')))"

text \<open>Repeats removed, the first of each kept.\<close>

fun dedupe_from :: "target list \<Rightarrow> target list \<Rightarrow> target list" where
  "dedupe_from seen [] = []"
| "dedupe_from seen (t # ts) = (if t \<in> set seen then dedupe_from seen ts else t # dedupe_from (t # seen) ts)"

definition dedupe_targets :: "target list \<Rightarrow> target list" where
  "dedupe_targets ts = dedupe_from [] ts"

section \<open>Rows\<close>

record item_row =
  it_workspace :: uuid
  it_id :: uuid
  it_kind :: string
  it_event :: "uuid option"
  it_inhibitor :: "uuid option"
  it_payload :: json
  it_state :: string
  it_resolved_by :: "uuid option"
  it_note :: "string option"
  it_resolved_at :: "time option"
  it_created :: time
  it_expires :: "time option"

record target_row =
  tr_workspace :: uuid
  tr_item :: uuid
  tr_role :: "uuid option"
  tr_user :: "uuid option"

record announcement =
  an_workspace :: uuid
  an_roles :: "uuid list"
  an_users :: "uuid list"
  an_invalidate :: bool

record queue =
  q_items :: "item_row list"
  q_targets :: "target_row list"
  q_announced :: "announcement list"

text \<open>Who holds what: a user's roles by workspace, and the platform's own roles.\<close>

record memberships =
  workspace_roles :: "(uuid \<times> uuid \<times> uuid) list"
  system_roles :: "(uuid \<times> string) list"

definition read_item :: "item_row \<Rightarrow> action_error + action_item" where
  "read_item r =
     (case item_state_parse (it_state r) of
        None \<Rightarrow> Inl (UnknownState (it_state r))
      | Some st \<Rightarrow>
          Inr \<lparr>ai_id = it_id r, ai_workspace = it_workspace r, ai_kind = it_kind r, ai_event = it_event r,
               ai_inhibitor = it_inhibitor r, ai_payload = it_payload r, ai_state = st, ai_note = it_note r,
               ai_created = it_created r, ai_expires = it_expires r\<rparr>)"

fun read_items :: "item_row list \<Rightarrow> action_error + action_item list" where
  "read_items [] = Inr []"
| "read_items (r # rs) = try_step (read_item r) (\<lambda>i. try_step (read_items rs) (\<lambda>is. Inr (i # is)))"

text \<open>\<open>payload ->> key\<close>.\<close>

definition payload_text :: "(json \<Rightarrow> string) \<Rightarrow> json \<Rightarrow> string \<Rightarrow> string option" where
  "payload_text jsonb_text payload key =
     (case json_get payload key of
        None \<Rightarrow> None
      | Some JNull \<Rightarrow> None
      | Some (JStr s) \<Rightarrow> Some s
      | Some v \<Rightarrow> Some (jsonb_text v))"

definition is_approval :: "string \<Rightarrow> bool" where
  "is_approval kind \<longleftrightarrow> starts_with kind ''approval.''"

section \<open>Writing\<close>

definition target_row_of :: "uuid \<Rightarrow> uuid \<Rightarrow> target \<Rightarrow> target_row" where
  "target_row_of workspace_id item_id t =
     \<lparr>tr_workspace = workspace_id, tr_item = item_id, tr_role = target_role t, tr_user = target_user t\<rparr>"

fun insert_targets :: "uuid \<Rightarrow> uuid \<Rightarrow> target list \<Rightarrow> target_row list \<Rightarrow> target_row list" where
  "insert_targets workspace_id item_id [] rows = rows"
| "insert_targets workspace_id item_id (t # ts) rows =
     (let r = target_row_of workspace_id item_id t in
      insert_targets workspace_id item_id ts (if r \<in> set rows then rows else rows @ [r]))"

definition announce :: "uuid \<Rightarrow> delivery \<Rightarrow> queue \<Rightarrow> queue" where
  "announce workspace_id d q =
     q\<lparr>q_announced := q_announced q @
         [\<lparr>an_workspace = workspace_id, an_roles = List.map_filter target_role (delivery_targets d),
           an_users = List.map_filter target_user (delivery_targets d),
           an_invalidate = (case d of Invalidate _ \<Rightarrow> True | _ \<Rightarrow> False)\<rparr>]\<rparr>"

definition targets_of :: "target_row list \<Rightarrow> uuid \<Rightarrow> uuid \<Rightarrow> target list" where
  "targets_of rows workspace_id item_id =
     List.map_filter (\<lambda>r.
       (case (tr_role r, tr_user r) of
          (Some i, None) \<Rightarrow> Some (RoleTarget i)
        | (None, Some i) \<Rightarrow> Some (UserTarget i)
        | _ \<Rightarrow> None))
       (filter (\<lambda>r. tr_workspace r = workspace_id \<and> tr_item r = item_id) rows)"

text \<open>The index that keeps a turn to one open question of a kind.\<close>

definition asked_by_turn :: "(json \<Rightarrow> string) \<Rightarrow> item_row \<Rightarrow> (uuid \<times> string \<times> string) option" where
  "asked_by_turn jsonb_text r =
     (if it_state r = ''pending'' \<and> is_approval (it_kind r)
      then map_option (\<lambda>job. (it_workspace r, job, it_kind r)) (payload_text jsonb_text (it_payload r) ''job_id'')
      else None)"

definition item_row_of :: "time \<Rightarrow> uuid \<Rightarrow> uuid \<Rightarrow> new_item \<Rightarrow> item_row" where
  "item_row_of now workspace_id i inp =
     \<lparr>it_workspace = workspace_id, it_id = i, it_kind = ni_kind inp, it_event = ni_event inp,
      it_inhibitor = ni_inhibitor inp, it_payload = ni_payload inp, it_state = ''pending'', it_resolved_by = None,
      it_note = None, it_resolved_at = None, it_created = now, it_expires = ni_expires inp\<rparr>"

definition raise_item ::
  "(json \<Rightarrow> string) \<Rightarrow> time \<Rightarrow> uuid \<Rightarrow> uuid \<Rightarrow> new_item \<Rightarrow> queue \<Rightarrow> (action_error + uuid) \<times> queue" where
  "raise_item jsonb_text now i workspace_id inp q =
     (case validate_item inp of
        Inl err \<Rightarrow> (Inl err, q)
      | Inr _ \<Rightarrow>
          (let ts = dedupe_targets (ni_targets inp);
               r = item_row_of now workspace_id i inp in
           if (case asked_by_turn jsonb_text r of
                 None \<Rightarrow> False
               | Some question \<Rightarrow> Some question \<in> asked_by_turn jsonb_text ` set (q_items q))
           then (Inl StoreFailed, q)
           else (Inr i,
             announce workspace_id (Targeted [i] ts)
               (q\<lparr>q_items := q_items q @ [r], q_targets := insert_targets workspace_id i ts (q_targets q)\<rparr>))))"

definition add_targets :: "uuid \<Rightarrow> uuid \<Rightarrow> target list \<Rightarrow> queue \<Rightarrow> (action_error + unit) \<times> queue" where
  "add_targets workspace_id item_id ts q =
     (if ts = [] then (Inr (), q)
      else
        (let ts = dedupe_targets ts in
         if \<not> list_ex (\<lambda>r. it_workspace r = workspace_id \<and> it_id r = item_id) (q_items q) then (Inl ItemNotFound, q)
         else (Inr (),
           announce workspace_id (Targeted [item_id] ts)
             (q\<lparr>q_targets := insert_targets workspace_id item_id ts (q_targets q)\<rparr>))))"

definition remove_targets :: "uuid \<Rightarrow> uuid \<Rightarrow> target list \<Rightarrow> queue \<Rightarrow> (action_error + unit) \<times> queue" where
  "remove_targets workspace_id item_id ts q =
     (if ts = [] then (Inr (), q)
      else
        (let ts = dedupe_targets ts in
         (Inr (),
          announce workspace_id (Targeted [item_id] ts)
            (q\<lparr>q_targets := filter (\<lambda>r. r \<notin> target_row_of workspace_id item_id ` set ts) (q_targets q)\<rparr>))))"

definition deliver :: "uuid \<Rightarrow> delivery \<Rightarrow> queue \<Rightarrow> queue" where
  "deliver workspace_id d q = (if delivery_is_empty d then q else announce workspace_id d q)"

text \<open>The conditional update of a settle, and the row it leaves.\<close>

definition settled_row :: "time \<Rightarrow> item_state \<Rightarrow> uuid option \<Rightarrow> string option \<Rightarrow> item_row \<Rightarrow> item_row" where
  "settled_row now st by note r =
     r\<lparr>it_state := item_state_text st, it_resolved_by := by, it_note := note, it_resolved_at := Some now\<rparr>"

definition to_settle :: "uuid \<Rightarrow> uuid \<Rightarrow> item_row \<Rightarrow> bool" where
  "to_settle workspace_id item_id r \<longleftrightarrow>
     it_workspace r = workspace_id \<and> it_id r = item_id \<and> it_state r = ''pending''"

definition change_items :: "(item_row \<Rightarrow> bool) \<Rightarrow> (item_row \<Rightarrow> item_row) \<Rightarrow> queue \<Rightarrow> queue" where
  "change_items P f q = q\<lparr>q_items := map (\<lambda>r. if P r then f r else r) (q_items q)\<rparr>"

text \<open>Why nothing was settled.\<close>

definition not_settled :: "uuid \<Rightarrow> uuid \<Rightarrow> queue \<Rightarrow> action_error" where
  "not_settled workspace_id item_id q =
     (case find (\<lambda>r. it_workspace r = workspace_id \<and> it_id r = item_id) (q_items q) of
        None \<Rightarrow> ItemNotFound
      | Some r \<Rightarrow>
          (case item_state_parse (it_state r) of
             Some st \<Rightarrow> NotPending (item_state_text st)
           | None \<Rightarrow> ItemNotFound))"

text \<open>What a settle does to the queue; what else commits with it is in \<open>Approvals\<close>.\<close>

definition settle_queue ::
  "time \<Rightarrow> uuid \<Rightarrow> uuid \<Rightarrow> item_state \<Rightarrow> uuid option \<Rightarrow> string option \<Rightarrow> queue \<Rightarrow> (action_error + unit) \<times> queue" where
  "settle_queue now workspace_id item_id st by note q =
     (if item_is_open st then (Inl (InvalidItem ''settling an item requires a state that is not pending''), q)
      else if filter (to_settle workspace_id item_id) (q_items q) = [] then (Inl (not_settled workspace_id item_id q), q)
      else (Inr (),
        announce workspace_id (Targeted [item_id] (targets_of (q_targets q) workspace_id item_id))
          (change_items (to_settle workspace_id item_id) (settled_row now st by note) q)))"

fun announce_each :: "uuid \<Rightarrow> uuid list \<Rightarrow> queue \<Rightarrow> queue" where
  "announce_each workspace_id [] q = q"
| "announce_each workspace_id (i # is) q =
     announce_each workspace_id is
       (announce workspace_id (Targeted [i] (targets_of (q_targets q) workspace_id i)) q)"

definition about_session :: "(json \<Rightarrow> string) \<Rightarrow> outside \<Rightarrow> uuid \<Rightarrow> uuid \<Rightarrow> item_row \<Rightarrow> bool" where
  "about_session jsonb_text e workspace_id session_id r \<longleftrightarrow>
     it_workspace r = workspace_id \<and> it_state r = ''pending'' \<and>
     payload_text jsonb_text (it_payload r) ''session_id'' = Some (uuid_text e session_id)"

definition cancel_items_for_session ::
  "(json \<Rightarrow> string) \<Rightarrow> outside \<Rightarrow> time \<Rightarrow> uuid \<Rightarrow> uuid \<Rightarrow> queue \<Rightarrow> queue" where
  "cancel_items_for_session jsonb_text e now workspace_id session_id q =
     (let P = about_session jsonb_text e workspace_id session_id;
          items = map it_id (filter P (q_items q));
          f = (\<lambda>r. r\<lparr>it_state := ''cancelled'', it_note := Some ''the conversation was deleted'',
                 it_resolved_at := Some now\<rparr>) in
      announce_each workspace_id items (change_items P f q))"

definition expired_rows :: "time \<Rightarrow> nat \<Rightarrow> queue \<Rightarrow> item_row list" where
  "expired_rows now lim q =
     take lim (sort_key (\<lambda>r. the (it_expires r))
       (filter (\<lambda>r. it_state r = ''pending'' \<and> (case it_expires r of Some t \<Rightarrow> t < now | None \<Rightarrow> False)) (q_items q)))"

definition sweep_expired :: "time \<Rightarrow> nat \<Rightarrow> queue \<Rightarrow> nat \<times> queue" where
  "sweep_expired now lim q =
     (let due = map (\<lambda>r. (it_workspace r, it_id r)) (expired_rows now lim q);
          P = (\<lambda>r. (it_workspace r, it_id r) \<in> set due) in
      (length (filter P (q_items q)),
       change_items P (\<lambda>r. r\<lparr>it_state := ''expired'', it_resolved_at := Some now\<rparr>) q))"

section \<open>Reading\<close>

definition roles_of :: "memberships \<Rightarrow> uuid \<Rightarrow> uuid list" where
  "roles_of m user_id = map (\<lambda>(u, ws, r). r) (filter (\<lambda>(u, ws, r). u = user_id) (workspace_roles m))"

text \<open>Whether a target row is this user: named, or through a role held in that workspace.\<close>

definition reached_by :: "memberships \<Rightarrow> uuid \<Rightarrow> uuid \<Rightarrow> target_row \<Rightarrow> bool" where
  "reached_by m workspace_id user_id t \<longleftrightarrow>
     tr_user t = Some user_id \<or>
     (case tr_role t of Some r \<Rightarrow> (user_id, workspace_id, r) \<in> set (workspace_roles m) | None \<Rightarrow> False)"

definition targeted_at :: "memberships \<Rightarrow> queue \<Rightarrow> uuid \<Rightarrow> item_row \<Rightarrow> bool" where
  "targeted_at m q user_id r \<longleftrightarrow>
     list_ex (\<lambda>t. tr_workspace t = it_workspace r \<and> tr_item t = it_id r \<and>
       reached_by m (it_workspace r) user_id t) (q_targets q)"

definition waiting_on_user :: "memberships \<Rightarrow> queue \<Rightarrow> uuid \<Rightarrow> uuid \<Rightarrow> item_row list" where
  "waiting_on_user m q workspace_id user_id =
     sort_key it_id (filter (\<lambda>r. it_workspace r = workspace_id \<and> it_state r = ''pending'' \<and>
       targeted_at m q user_id r) (q_items q))"

definition queue_for_user :: "memberships \<Rightarrow> queue \<Rightarrow> uuid \<Rightarrow> uuid \<Rightarrow> action_error + action_item list" where
  "queue_for_user m q workspace_id user_id = read_items (waiting_on_user m q workspace_id user_id)"

definition queue_for_role :: "queue \<Rightarrow> uuid \<Rightarrow> uuid \<Rightarrow> action_error + action_item list" where
  "queue_for_role q workspace_id role_id =
     read_items (sort_key it_id (concat (map (\<lambda>r.
       map (\<lambda>_. r) (filter (\<lambda>t. tr_workspace t = it_workspace r \<and> tr_item t = it_id r \<and>
         it_workspace r = workspace_id \<and> tr_role t = Some role_id \<and> it_state r = ''pending'') (q_targets q)))
       (q_items q))))"

definition count_for_user :: "memberships \<Rightarrow> queue \<Rightarrow> uuid \<Rightarrow> uuid \<Rightarrow> nat" where
  "count_for_user m q workspace_id user_id = length (waiting_on_user m q workspace_id user_id)"

text \<open>The platform's own workspace, which an operator belongs to by being one.\<close>

definition PLATFORM_WORKSPACE :: uuid where "PLATFORM_WORKSPACE = 1"

definition is_member :: "memberships \<Rightarrow> uuid \<Rightarrow> uuid \<Rightarrow> bool" where
  "is_member m workspace_id user_id \<longleftrightarrow>
     list_ex (\<lambda>(u, ws, r). ws = workspace_id \<and> u = user_id) (workspace_roles m)"

definition admitted :: "memberships \<Rightarrow> uuid \<Rightarrow> uuid \<Rightarrow> bool" where
  "admitted m workspace_id user_id \<longleftrightarrow>
     is_member m workspace_id user_id \<or>
     (workspace_id = PLATFORM_WORKSPACE \<and> (user_id, ''system_admin'') \<in> set (system_roles m))"

definition owed_everywhere :: "memberships \<Rightarrow> queue \<Rightarrow> uuid \<Rightarrow> uuid option \<Rightarrow> nat \<Rightarrow> item_row list" where
  "owed_everywhere m q user_id after lim =
     take lim (sort_key it_id (filter (\<lambda>r. it_state r = ''pending'' \<and> admitted m (it_workspace r) user_id \<and>
       targeted_at m q user_id r \<and> (case after of None \<Rightarrow> True | Some a \<Rightarrow> a < it_id r)) (q_items q)))"

definition queue_for_user_everywhere ::
  "memberships \<Rightarrow> queue \<Rightarrow> uuid \<Rightarrow> uuid option \<Rightarrow> nat \<Rightarrow> action_error + action_item list" where
  "queue_for_user_everywhere m q user_id after lim = read_items (owed_everywhere m q user_id after lim)"

definition count_for_user_everywhere :: "memberships \<Rightarrow> queue \<Rightarrow> uuid \<Rightarrow> nat \<Rightarrow> nat" where
  "count_for_user_everywhere m q user_id cap = length (owed_everywhere m q user_id None cap)"

definition approval_on_session ::
  "hold_row list \<Rightarrow> queue \<Rightarrow> uuid \<Rightarrow> uuid \<Rightarrow> action_error + action_item option" where
  "approval_on_session holds q workspace_id session_id =
     (case rev (sort_key it_id (filter (\<lambda>r. it_workspace r = workspace_id \<and> it_state r = ''pending'' \<and>
         is_approval (it_kind r) \<and>
         list_ex (\<lambda>h. it_inhibitor r = Some (hr_id h) \<and> hr_level h = ''session'' \<and> hr_session h = Some session_id)
           holds) (q_items q))) of
        [] \<Rightarrow> Inr None
      | r # _ \<Rightarrow> try_step (read_item r) (\<lambda>i. Inr (Some i)))"

definition settled_for_user :: "memberships \<Rightarrow> queue \<Rightarrow> uuid \<Rightarrow> uuid \<Rightarrow> action_error + item_state option" where
  "settled_for_user m q user_id item_id =
     (case find (\<lambda>r. it_id r = item_id \<and> it_state r \<noteq> ''pending'' \<and> is_member m (it_workspace r) user_id \<and>
         targeted_at m q user_id r) (q_items q) of
        None \<Rightarrow> Inr None
      | Some r \<Rightarrow>
          (case item_state_parse (it_state r) of
             Some st \<Rightarrow> Inr (Some st)
           | None \<Rightarrow> Inl (UnknownState (it_state r))))"

definition orphaned :: "queue \<Rightarrow> uuid \<Rightarrow> nat \<Rightarrow> action_error + action_item list" where
  "orphaned q workspace_id lim =
     read_items (take lim (sort_key it_id (filter (\<lambda>r. it_workspace r = workspace_id \<and> it_state r = ''pending'' \<and>
       \<not> list_ex (\<lambda>t. tr_workspace t = it_workspace r \<and> tr_item t = it_id r) (q_targets q)) (q_items q))))"

section \<open>Everything done to the queue\<close>

datatype queue_op =
    Raise uuid uuid new_item
  | AddTargets uuid uuid "target list"
  | RemoveTargets uuid uuid "target list"
  | Settle uuid uuid item_state "uuid option" "string option"
  | CancelForSession uuid uuid
  | Sweep nat
  | Deliver uuid delivery

fun apply_queue_op :: "(json \<Rightarrow> string) \<Rightarrow> outside \<Rightarrow> time \<Rightarrow> queue_op \<Rightarrow> queue \<Rightarrow> queue" where
  "apply_queue_op jt e now (Raise i ws inp) q = snd (raise_item jt now i ws inp q)"
| "apply_queue_op jt e now (AddTargets ws i ts) q = snd (add_targets ws i ts q)"
| "apply_queue_op jt e now (RemoveTargets ws i ts) q = snd (remove_targets ws i ts q)"
| "apply_queue_op jt e now (Settle ws i st by note) q = snd (settle_queue now ws i st by note q)"
| "apply_queue_op jt e now (CancelForSession ws ss) q = cancel_items_for_session jt e now ws ss q"
| "apply_queue_op jt e now (Sweep lim) q = snd (sweep_expired now lim q)"
| "apply_queue_op jt e now (Deliver ws d) q = deliver ws d q"

text \<open>A new item's id is one no item and no target row has.\<close>

fun op_fresh :: "queue \<Rightarrow> queue_op \<Rightarrow> bool" where
  "op_fresh q (Raise i ws inp) \<longleftrightarrow>
     list_all (\<lambda>r. it_id r \<noteq> i) (q_items q) \<and> list_all (\<lambda>t. tr_item t \<noteq> i) (q_targets q)"
| "op_fresh q _ \<longleftrightarrow> True"

text \<open>What the tables' keys and checks promise: what every statement keeps.\<close>

definition one_sided :: "target_row \<Rightarrow> bool" where
  "one_sided t \<longleftrightarrow> (tr_role t = None) \<noteq> (tr_user t = None)"

definition queue_ok :: "(json \<Rightarrow> string) \<Rightarrow> queue \<Rightarrow> bool" where
  "queue_ok jt q \<longleftrightarrow>
     distinct (map it_id (q_items q)) \<and>
     list_all (\<lambda>r. item_state_parse (it_state r) \<noteq> None) (q_items q) \<and>
     distinct (List.map_filter (asked_by_turn jt) (q_items q)) \<and>
     list_all one_sided (q_targets q) \<and> distinct (q_targets q)"

inductive queue_step :: "(json \<Rightarrow> string) \<Rightarrow> outside \<Rightarrow> queue \<Rightarrow> queue \<Rightarrow> bool" for jt e where
  "op_fresh q op \<Longrightarrow> queue_step jt e q (apply_queue_op jt e now op q)"

inductive_cases queue_stepE: "queue_step jt e q q'"

section \<open>What the statements leave alone\<close>

lemma set_dedupe_from: "set (dedupe_from seen ts) = set ts - set seen"
  by (induction ts arbitrary: seen) auto

lemma set_dedupe [simp]: "set (dedupe_targets ts) = set ts"
  by (simp add: dedupe_targets_def set_dedupe_from)

lemma announce_simps [simp]:
  "q_items (announce ws d q) = q_items q" "q_targets (announce ws d q) = q_targets q"
  by (simp_all add: announce_def)

lemma announce_each_simps [simp]:
  "q_items (announce_each ws is q) = q_items q" "q_targets (announce_each ws is q) = q_targets q"
  by (induction "is" arbitrary: q) simp_all

lemma deliver_simps [simp]: "q_items (deliver ws d q) = q_items q" "q_targets (deliver ws d q) = q_targets q"
  by (simp_all add: deliver_def)

lemma change_items_simps [simp]:
  "q_items (change_items P f q) = map (\<lambda>r. if P r then f r else r) (q_items q)"
  "q_targets (change_items P f q) = q_targets q" "q_announced (change_items P f q) = q_announced q"
  by (simp_all add: change_items_def)

lemma set_insert_targets: "set (insert_targets ws i ts rows) = set rows \<union> target_row_of ws i ` set ts"
  by (induction ws i ts rows rule: insert_targets.induct) (auto simp: Let_def)

lemma distinct_insert_targets: "distinct rows \<Longrightarrow> distinct (insert_targets ws i ts rows)"
  by (induction ws i ts rows rule: insert_targets.induct) (auto simp: Let_def)

lemma one_sided_target [simp]: "one_sided (target_row_of ws i t)"
  by (cases t) (simp_all add: one_sided_def target_row_of_def)

text \<open>Every statement either leaves a row as it is, or settles one that was waiting.\<close>

definition settles :: "item_row \<Rightarrow> item_row \<Rightarrow> bool" where
  "settles r r' \<longleftrightarrow>
     it_state r = ''pending'' \<and> it_state r' \<in> {''resolved'', ''cancelled'', ''expired''} \<and>
     it_workspace r' = it_workspace r \<and> it_id r' = it_id r"

lemma settled_row_settles: "it_state r = ''pending'' \<Longrightarrow> \<not> item_is_open st \<Longrightarrow> settles r (settled_row now st by note r)"
  by (cases st) (simp_all add: settles_def settled_row_def item_is_open_def)

definition items_settle :: "item_row list \<Rightarrow> item_row list \<Rightarrow> bool" where
  "items_settle rows rows' \<longleftrightarrow> list_all2 (\<lambda>r r'. r' = r \<or> settles r r') rows rows'"

lemma items_settle_refl [simp]: "items_settle rows rows"
  by (simp add: items_settle_def list.rel_refl)

lemma items_settle_change:
  "(\<And>r. r \<in> set rows \<Longrightarrow> P r \<Longrightarrow> settles r (f r)) \<Longrightarrow> items_settle rows (map (\<lambda>r. if P r then f r else r) rows)"
  by (auto simp: items_settle_def list_all2_conv_all_nth)

lemma expired_rows_pending: "r \<in> set (expired_rows now lim q) \<Longrightarrow> it_state r = ''pending'' \<and> r \<in> set (q_items q)"
  by (auto simp: expired_rows_def dest: in_set_takeD)

lemma row_by_id: "distinct (map it_id rows) \<Longrightarrow> r \<in> set rows \<Longrightarrow> r' \<in> set rows \<Longrightarrow> it_id r = it_id r' \<Longrightarrow> r = r'"
  by (meson distinct_map inj_onD)

lemma op_settles:
  assumes "distinct (map it_id (q_items q))"
  obtains rows new where "q_items (apply_queue_op jt e now op q) = rows @ new" "items_settle (q_items q) rows"
    "new = [] \<or> (\<exists>i ws inp. op = Raise i ws inp \<and> new = [item_row_of now ws i inp] \<and> rows = q_items q \<and>
       (asked_by_turn jt (hd new) = None \<or> asked_by_turn jt (hd new) \<notin> asked_by_turn jt ` set (q_items q)))"
proof (cases op)
  case (Raise i ws inp)
  let ?r = "item_row_of now ws i inp"
  have "q_items (snd (raise_item jt now i ws inp q)) = q_items q \<or>
      q_items (snd (raise_item jt now i ws inp q)) = q_items q @ [?r] \<and>
      (asked_by_turn jt ?r = None \<or> asked_by_turn jt ?r \<notin> asked_by_turn jt ` set (q_items q))"
    by (cases "asked_by_turn jt ?r") (simp_all add: raise_item_def Let_def split: sum.split)
  then show thesis
    using that [of "q_items q" "[]"] that [of "q_items q" "[?r]"] Raise by auto
next
  case (Settle ws i st who wrote)
  have "items_settle (q_items q) (q_items (snd (settle_queue now ws i st who wrote q)))"
    by (auto simp: settle_queue_def intro!: items_settle_change settled_row_settles) (simp add: to_settle_def)
  then show thesis using that [of _ "[]"] Settle by simp
next
  case (CancelForSession ws ss)
  have "items_settle (q_items q) (q_items (cancel_items_for_session jt e now ws ss q))"
    by (auto simp: cancel_items_for_session_def Let_def about_session_def settles_def intro!: items_settle_change)
  then show thesis using that [of _ "[]"] CancelForSession by simp
next
  case (Sweep lim)
  have "it_state r = ''pending''"
    if row: "r \<in> set (q_items q)" and due: "(it_workspace r, it_id r) \<in> (\<lambda>r. (it_workspace r, it_id r)) ` set (expired_rows now lim q)" for r
  proof -
    obtain d where "d \<in> set (expired_rows now lim q)" "it_id r = it_id d" using due by auto
    then show ?thesis using row_by_id [OF assms row] expired_rows_pending by metis
  qed
  then have "items_settle (q_items q) (q_items (snd (sweep_expired now lim q)))"
    by (auto simp: sweep_expired_def Let_def settles_def intro!: items_settle_change)
  then show thesis using that [of _ "[]"] Sweep by simp
qed (use that [of "q_items q" "[]"] in \<open>auto simp: add_targets_def remove_targets_def Let_def\<close>)

section \<open>What every statement keeps\<close>

lemma items_settle_ids: "items_settle rows rows' \<Longrightarrow> map it_id rows' = map it_id rows"
  unfolding items_settle_def by (induction rows rows' rule: list_all2_induct) (auto simp: settles_def)

lemma item_state_known: "item_state_parse s \<noteq> None \<longleftrightarrow> s \<in> {''pending'', ''resolved'', ''cancelled'', ''expired''}"
  by (simp add: item_state_parse_def)

lemma items_settle_known:
  "items_settle rows rows' \<Longrightarrow> list_all (\<lambda>r. item_state_parse (it_state r) \<noteq> None) rows \<Longrightarrow>
     list_all (\<lambda>r. item_state_parse (it_state r) \<noteq> None) rows'"
  unfolding items_settle_def by (induction rows rows' rule: list_all2_induct) (auto simp: settles_def item_state_known simp del: not_None_eq)

lemma settles_asked: "settles r r' \<Longrightarrow> asked_by_turn jt r' = None"
  by (auto simp: settles_def asked_by_turn_def)

lemma items_settle_asked:
  assumes "items_settle rows rows'"
  shows "set (List.map_filter (asked_by_turn jt) rows') \<subseteq> set (List.map_filter (asked_by_turn jt) rows) \<and>
    (distinct (List.map_filter (asked_by_turn jt) rows) \<longrightarrow> distinct (List.map_filter (asked_by_turn jt) rows'))"
  using assms unfolding items_settle_def
  by (induction rows rows' rule: list_all2_induct)
    (auto simp: map_filter_simps settles_asked split: option.splits)

lemma items_settle_row:
  assumes "items_settle rows rows'" and "r \<in> set rows" and "it_state r \<noteq> ''pending''"
  shows "r \<in> set rows'"
  using assms unfolding items_settle_def
  by (induction rows rows' rule: list_all2_induct) (auto simp: settles_def)

lemma map_filter_append: "List.map_filter f (xs @ ys) = List.map_filter f xs @ List.map_filter f ys"
  by (simp add: map_filter_def)

lemma set_map_filter: "x \<in> set (List.map_filter f xs) \<longleftrightarrow> Some x \<in> f ` set xs"
  by (induction xs) (auto simp: map_filter_simps split: option.splits)

lemma op_targets_ok:
  assumes "list_all one_sided (q_targets q)" and "distinct (q_targets q)"
  shows "list_all one_sided (q_targets (apply_queue_op jt e now op q)) \<and>
    distinct (q_targets (apply_queue_op jt e now op q))"
  using assms
  by (cases op) (auto simp: raise_item_def add_targets_def remove_targets_def settle_queue_def
      cancel_items_for_session_def sweep_expired_def Let_def list_all_iff set_insert_targets distinct_insert_targets
      split: sum.split)

lemma op_keeps_ok:
  assumes "queue_ok jt q" and "op_fresh q op"
  shows "queue_ok jt (apply_queue_op jt e now op q)"
proof -
  have ok: "distinct (map it_id (q_items q))" "list_all (\<lambda>r. item_state_parse (it_state r) \<noteq> None) (q_items q)"
    "distinct (List.map_filter (asked_by_turn jt) (q_items q))"
    using assms(1) by (auto simp: queue_ok_def)
  obtain rows new where r: "q_items (apply_queue_op jt e now op q) = rows @ new" "items_settle (q_items q) rows"
    "new = [] \<or> (\<exists>i ws inp. op = Raise i ws inp \<and> new = [item_row_of now ws i inp] \<and> rows = q_items q \<and>
       (asked_by_turn jt (hd new) = None \<or> asked_by_turn jt (hd new) \<notin> asked_by_turn jt ` set (q_items q)))"
    using op_settles [OF ok(1), of jt e now op] by metis
  note kept = items_settle_ids [OF r(2)] items_settle_known [OF r(2) ok(2)] items_settle_asked [OF r(2), of jt]
  have "distinct (map it_id (rows @ new)) \<and> list_all (\<lambda>r. item_state_parse (it_state r) \<noteq> None) (rows @ new) \<and>
      distinct (List.map_filter (asked_by_turn jt) (rows @ new))"
  proof (cases "new = []")
    case True
    then show ?thesis using kept ok by simp
  next
    case False
    then obtain i ws inp where n: "op = Raise i ws inp" "new = [item_row_of now ws i inp]"
      "asked_by_turn jt (hd new) = None \<or> asked_by_turn jt (hd new) \<notin> asked_by_turn jt ` set (q_items q)" "rows = q_items q"
      using r(3) by auto
    then have "i \<notin> it_id ` set (q_items q)" using assms(2) by (auto simp: list_all_iff)
    then show ?thesis using n ok kept
      by (auto simp: item_row_of_def item_state_parse_def map_filter_append map_filter_simps set_map_filter
          split: option.split)
  qed
  then show ?thesis using op_targets_ok [of q jt e now op] assms(1) r(1) by (simp add: queue_ok_def)
qed

lemma queue_step_keeps_ok: "queue_ok jt q \<Longrightarrow> queue_step jt e q q' \<Longrightarrow> queue_ok jt q'"
  by (auto elim!: queue_stepE intro: op_keeps_ok)

interpretation queue: invariant_relation "queue_step jt e" "queue_ok jt" for jt e
  by unfold_locales (rule queue_step_keeps_ok)

section \<open>A decision stands\<close>

lemma op_keeps_settled:
  assumes "queue_ok jt q" and "r \<in> set (q_items q)" and "it_state r \<noteq> ''pending''"
  shows "r \<in> set (q_items (apply_queue_op jt e now op q))"
proof -
  have "distinct (map it_id (q_items q))" using assms(1) by (simp add: queue_ok_def)
  then obtain rows new where "q_items (apply_queue_op jt e now op q) = rows @ new" "items_settle (q_items q) rows"
    using op_settles [of q jt e now op] by metis
  then show ?thesis using items_settle_row assms(2,3) by simp
qed

definition settled_and_kept :: "(json \<Rightarrow> string) \<Rightarrow> item_row \<Rightarrow> queue \<Rightarrow> bool" where
  "settled_and_kept jt r q \<longleftrightarrow> queue_ok jt q \<and> r \<in> set (q_items q) \<and> it_state r \<noteq> ''pending''"

interpretation settled: invariant_relation "queue_step jt e" "settled_and_kept jt r" for jt e r
  by unfold_locales (auto simp: settled_and_kept_def queue_step_keeps_ok elim!: queue_stepE intro: op_keeps_settled op_keeps_ok)

lemma find_row: "distinct (map it_id rows) \<Longrightarrow> r \<in> set rows \<Longrightarrow>
    find (\<lambda>x. it_workspace x = it_workspace r \<and> it_id x = it_id r) rows = Some r"
  by (induction rows) (auto simp: image_iff)

lemma item_state_parse_text: "item_state_parse s = Some st \<Longrightarrow> item_state_text st = s"
  by (auto simp: item_state_parse_def split: if_splits)

text \<open>
  A decision stands. An item somebody settled, or that expired or was cancelled, is the same row
  whatever is done to the queue after; and whoever answers it next changes nothing and is told which of
  these it was.
\<close>
theorem decision_stands:
  assumes "(queue_step jt e)\<^sup>*\<^sup>* q q'" and "queue_ok jt q" and "r \<in> set (q_items q)" and "it_state r \<noteq> ''pending''"
    and "\<not> item_is_open st"
  shows "r \<in> set (q_items q') \<and>
    settle_queue now (it_workspace r) (it_id r) st by note q' = (Inl (NotPending (it_state r)), q')"
proof -
  have kept: "settled_and_kept jt r q'"
    by (rule settled.reach_keeps [OF assms(1)]) (simp add: settled_and_kept_def assms)
  then have ok: "distinct (map it_id (q_items q'))" "r \<in> set (q_items q')" "item_state_parse (it_state r) \<noteq> None"
    by (auto simp: settled_and_kept_def queue_ok_def list_all_iff)
  have "\<not> to_settle (it_workspace r) (it_id r) x" if "x \<in> set (q_items q')" for x
    using row_by_id [OF ok(1) that ok(2)] assms(4) by (auto simp: to_settle_def)
  then have "filter (to_settle (it_workspace r) (it_id r)) (q_items q') = []" by (simp add: filter_empty_conv)
  moreover have "not_settled (it_workspace r) (it_id r) q' = NotPending (it_state r)"
    using find_row [OF ok(1,2)] ok(3) by (auto simp: not_settled_def dest: item_state_parse_text)
  ultimately show ?thesis using ok(2) assms(5) by (simp add: settle_queue_def)
qed

section \<open>What a reader finds\<close>

lemma read_items_ok:
  "list_all (\<lambda>r. item_state_parse (it_state r) \<noteq> None) rows \<Longrightarrow>
     \<exists>is. read_items rows = Inr is \<and> map ai_id is = map it_id rows"
  by (induction rows) (auto simp: read_item_def)

lemma one_question: "distinct (List.map_filter f rows) \<Longrightarrow> a \<in> set rows \<Longrightarrow> b \<in> set rows \<Longrightarrow> f a = f b \<Longrightarrow> f a \<noteq> None \<Longrightarrow>
    distinct (map g rows) \<Longrightarrow> g a = g b"
  by (induction rows) (auto simp: map_filter_simps set_map_filter image_iff split: option.splits)

text \<open>
  A turn asks each thing once, and a queue can always be read. Whatever is done to the queue, no two
  open items are approvals of one kind for one turn; every read of a user's queue succeeds, gives the
  items as they were raised in order, each once, and as many as the badge says.
\<close>
theorem one_open_question_of_a_kind:
  assumes "(queue_step jt e)\<^sup>*\<^sup>* q q'" and "queue_ok jt q"
  shows "(\<forall>a \<in> set (q_items q'). \<forall>b \<in> set (q_items q'). asked_by_turn jt a = asked_by_turn jt b \<and> asked_by_turn jt a \<noteq> None \<longrightarrow> a = b) \<and>
    (\<exists>is. queue_for_user m q' ws u = Inr is \<and> sorted (map ai_id is) \<and> distinct (map ai_id is) \<and>
      length is = count_for_user m q' ws u)"
proof -
  have ok: "queue_ok jt q'" by (rule queue.reach_keeps [OF assms])
  let ?w = "waiting_on_user m q' ws u"
  have "list_all (\<lambda>r. item_state_parse (it_state r) \<noteq> None) ?w"
    using ok by (auto simp: queue_ok_def waiting_on_user_def list_all_iff)
  from read_items_ok [OF this] obtain "is" where r: "queue_for_user m q' ws u = Inr is" "map ai_id is = map it_id ?w"
    by (auto simp: queue_for_user_def)
  have "distinct (map it_id (q_items q'))" using ok by (simp add: queue_ok_def)
  then have "distinct (map it_id ?w)"
    by (auto simp: waiting_on_user_def distinct_map inj_on_def)
  moreover have "length is = length ?w" using r(2) by (metis length_map)
  ultimately have "sorted (map ai_id is)" "distinct (map ai_id is)" "length is = count_for_user m q' ws u"
    unfolding r(2) by (simp_all add: waiting_on_user_def count_for_user_def)
  moreover have "a = b"
    if "a \<in> set (q_items q')" "b \<in> set (q_items q')" "asked_by_turn jt a = asked_by_turn jt b" "asked_by_turn jt a \<noteq> None" for a b
    using one_question [of "asked_by_turn jt" "q_items q'" a b it_id] that ok row_by_id [of "q_items q'" a b]
    by (auto simp: queue_ok_def)
  ultimately show ?thesis using r(1) by blast
qed

section \<open>Whoever's queue changes is told\<close>

text \<open>A connected reader refetches where an announcement names it, or a role it holds there.\<close>

definition heard_by :: "memberships \<Rightarrow> uuid \<Rightarrow> uuid \<Rightarrow> announcement \<Rightarrow> bool" where
  "heard_by m ws u an \<longleftrightarrow>
     an_workspace an = ws \<and>
     (u \<in> set (an_users an) \<or> list_ex (\<lambda>r. (u, ws, r) \<in> set (workspace_roles m)) (an_roles an))"

definition new_announcements :: "queue \<Rightarrow> queue \<Rightarrow> announcement list" where
  "new_announcements q q' = drop (length (q_announced q)) (q_announced q')"

definition is_told :: "memberships \<Rightarrow> uuid \<Rightarrow> uuid \<Rightarrow> queue \<Rightarrow> queue \<Rightarrow> bool" where
  "is_told m ws u q q' \<longleftrightarrow> list_ex (heard_by m ws u) (new_announcements q q')"

lemma heard_targets:
  "list_ex (heard_by m ws u) [\<lparr>an_workspace = ws, an_roles = List.map_filter target_role ts,
     an_users = List.map_filter target_user ts, an_invalidate = b\<rparr>] \<longleftrightarrow>
   (\<exists>t \<in> set ts. reached_by m ws u (target_row_of w i t))"
proof -
  have "(\<exists>t \<in> set ts. reached_by m ws u (target_row_of w i t)) \<longleftrightarrow>
      UserTarget u \<in> set ts \<or> (\<exists>r. RoleTarget r \<in> set ts \<and> (u, ws, r) \<in> set (workspace_roles m))"
    by (auto simp: reached_by_def target_row_of_def split: option.splits elim!: target_role.elims target_user.elims) force+
  moreover have "x \<in> set (List.map_filter target_user ts) \<longleftrightarrow> UserTarget x \<in> set ts"
    "x \<in> set (List.map_filter target_role ts) \<longleftrightarrow> RoleTarget x \<in> set ts" for x
    by (auto simp: set_map_filter image_iff elim!: target_role.elims target_user.elims dest: sym) force+
  ultimately show ?thesis by (auto simp: heard_by_def list_ex_iff)
qed

lemma told_announce:
  assumes "q_announced q'' = q_announced q"
  shows "is_told m ws u q (announce ws' (Targeted is ts) q'') \<longleftrightarrow>
    ws' = ws \<and> (\<exists>t \<in> set ts. reached_by m ws u (target_row_of w i t))"
  using heard_targets [of m ws u ts False w i] assms
  by (auto simp: is_told_def new_announcements_def announce_def heard_by_def)

lemma reached_target:
  assumes "one_sided t" and "reached_by m ws u t" and "t \<in> set rows" and "tr_workspace t = w" and "tr_item t = i"
  shows "\<exists>x \<in> set (targets_of rows w i). reached_by m ws u (target_row_of w i x)"
proof -
  have "t = target_row_of w i (case tr_role t of Some r \<Rightarrow> RoleTarget r | None \<Rightarrow> UserTarget (the (tr_user t)))"
    using assms(1,4,5) by (cases t) (auto simp: one_sided_def target_row_of_def split: option.splits)
  then obtain x where x: "t = target_row_of w i x" by blast
  then have "x \<in> set (targets_of rows w i)"
    using assms(3) by (cases x) (auto simp: targets_of_def set_map_filter target_row_of_def image_iff intro!: bexI [of _ t])
  then show ?thesis using assms(2) x by blast
qed

text \<open>Settling rows nobody here can see changes nothing of what is seen.\<close>

lemma waiting_unseen_change:
  assumes "\<And>r. r \<in> set (q_items q) \<Longrightarrow> P r \<Longrightarrow> it_workspace r = ws \<Longrightarrow> it_state r = ''pending'' \<Longrightarrow> \<not> targeted_at m q u r"
    and "\<And>r. r \<in> set (q_items q) \<Longrightarrow> P r \<Longrightarrow> settles r (f r)"
  shows "waiting_on_user m (change_items P f q) ws u = waiting_on_user m q ws u"
proof -
  let ?seen = "\<lambda>r. it_workspace r = ws \<and> it_state r = ''pending'' \<and> targeted_at m q u r"
  have "it_state (f r) \<noteq> ''pending''" if "r \<in> set (q_items q)" "P r" for r
    using assms(2) [OF that] by (auto simp: settles_def)
  then have "filter ?seen (map (\<lambda>r. if P r then f r else r) rows) = filter ?seen rows" if "set rows \<subseteq> set (q_items q)" for rows
    using that assms(1) by (induction rows) auto
  then show ?thesis by (simp add: waiting_on_user_def targeted_at_def)
qed

lemma waiting_same_targets:
  assumes "q_items q' = q_items q"
    and "\<And>t. reached_by m ws u t \<Longrightarrow> tr_workspace t = ws \<Longrightarrow> t \<in> set (q_targets q') \<longleftrightarrow> t \<in> set (q_targets q)"
  shows "waiting_on_user m q' ws u = waiting_on_user m q ws u"
proof -
  have "targeted_at m q' u r = targeted_at m q u r" if "it_workspace r = ws" for r
    using assms(2) that by (auto simp: targeted_at_def list_ex_iff)
  then show ?thesis by (simp add: waiting_on_user_def assms(1) cong: conj_cong)
qed

lemma waiting_announce [simp]:
  "waiting_on_user m (announce w d q) ws u = waiting_on_user m q ws u"
  "waiting_on_user m (announce_each w is q) ws u = waiting_on_user m q ws u"
  "waiting_on_user m (deliver w d q) ws u = waiting_on_user m q ws u"
  by (simp_all add: waiting_on_user_def targeted_at_def)

lemma announced_each:
  "q_announced (announce_each w is q) = q_announced q @
     map (\<lambda>i. \<lparr>an_workspace = w, an_roles = List.map_filter target_role (targets_of (q_targets q) w i),
       an_users = List.map_filter target_user (targets_of (q_targets q) w i), an_invalidate = False\<rparr>) is"
  by (induction "is" arbitrary: q) (simp_all add: announce_def)

lemma told_each:
  assumes "q_announced q'' = q_announced q" and "i \<in> set is"
    and "x \<in> set (targets_of (q_targets q'') ws i)" and "reached_by m ws u (target_row_of ws i x)"
  shows "is_told m ws u q (announce_each ws is q'')"
  using heard_targets [of m ws u "targets_of (q_targets q'') ws i" False ws i] assms
  by (auto simp: is_told_def new_announcements_def announced_each list_ex_iff)

lemma told_by_settle:
  assumes "queue_ok jt q" and "r \<in> set (q_items q)" and "it_workspace r = ws" and "targeted_at m q u r"
  shows "\<exists>x \<in> set (targets_of (q_targets q) ws (it_id r)). reached_by m ws u (target_row_of ws (it_id r) x)"
proof -
  obtain t where t: "t \<in> set (q_targets q)" "tr_workspace t = ws" "tr_item t = it_id r" "reached_by m ws u t"
    using assms(3,4) by (auto simp: targeted_at_def list_ex_iff)
  then have "one_sided t" using assms(1) by (auto simp: queue_ok_def list_all_iff)
  then show ?thesis using reached_target t by metis
qed

lemma raise_told:
  assumes "op_fresh q (Raise i ws' inp)" and "\<not> is_told m ws u q (snd (raise_item jt now i ws' inp q))"
  shows "waiting_on_user m (snd (raise_item jt now i ws' inp q)) ws u = waiting_on_user m q ws u"
proof (cases "q_items (snd (raise_item jt now i ws' inp q)) = q_items q")
  case True
  then have "snd (raise_item jt now i ws' inp q) = q"
    by (auto simp: raise_item_def Let_def split: sum.splits option.splits if_splits)
  then show ?thesis by simp
next
  case False
  let ?r = "item_row_of now ws' i inp" and ?ts = "dedupe_targets (ni_targets inp)"
  let ?q1 = "q\<lparr>q_items := q_items q @ [?r]\<rparr>"
  let ?q2 = "?q1\<lparr>q_targets := insert_targets ws' i ?ts (q_targets q)\<rparr>"
  have q': "snd (raise_item jt now i ws' inp q) = announce ws' (Targeted [i] ?ts) ?q2"
    using False by (auto simp: raise_item_def Let_def split: sum.splits option.splits if_splits)
  have "\<not> (ws' = ws \<and> (\<exists>t \<in> set ?ts. reached_by m ws u (target_row_of ws' i t)))"
    using assms(2) told_announce [of ?q2 q m ws u ws' "[i]" ?ts ws' i] unfolding q' by simp
  then have "waiting_on_user m ?q2 ws u = waiting_on_user m ?q1 ws u"
    by (intro waiting_same_targets) (auto simp: set_insert_targets target_row_of_def)
  moreover have "\<not> targeted_at m q u ?r" "it_id ?r = i"
    using assms(1) by (auto simp: targeted_at_def list_ex_iff list_all_iff item_row_of_def)
  then have "waiting_on_user m ?q1 ws u = waiting_on_user m q ws u"
    by (simp add: waiting_on_user_def targeted_at_def)
  ultimately show ?thesis by (simp add: q')
qed

lemma settle_told:
  assumes ok: "queue_ok jt q" and un: "\<not> is_told m ws u q (snd (settle_queue now ws' i st who wrote q))"
  shows "waiting_on_user m (snd (settle_queue now ws' i st who wrote q)) ws u = waiting_on_user m q ws u"
proof -
  let ?q1 = "change_items (to_settle ws' i) (settled_row now st who wrote) q"
  show ?thesis
  proof (cases "item_is_open st \<or> filter (to_settle ws' i) (q_items q) = []")
    case False
    then have q': "snd (settle_queue now ws' i st who wrote q) = announce ws' (Targeted [i] (targets_of (q_targets q) ws' i)) ?q1"
      by (simp add: settle_queue_def)
    have "\<not> targeted_at m q u r" if "r \<in> set (q_items q)" "to_settle ws' i r" "it_workspace r = ws" for r
      using told_by_settle [OF ok that(1,3)] un that(2,3)
        told_announce [of ?q1 q m ws u ws' "[i]" "targets_of (q_targets q) ws' i" ws' i]
      unfolding q' by (auto simp: to_settle_def)
    then show ?thesis using False unfolding q'
      by (auto intro!: waiting_unseen_change settled_row_settles simp: to_settle_def)
  qed (auto simp: settle_queue_def)
qed

lemma cancel_told:
  assumes ok: "queue_ok jt q" and un: "\<not> is_told m ws u q (cancel_items_for_session jt e now ws' ss q)"
  shows "waiting_on_user m (cancel_items_for_session jt e now ws' ss q) ws u = waiting_on_user m q ws u"
proof -
  let ?P = "about_session jt e ws' ss"
  let ?f = "\<lambda>r. r\<lparr>it_state := ''cancelled'', it_note := Some ''the conversation was deleted'', it_resolved_at := Some now\<rparr>"
  have q': "cancel_items_for_session jt e now ws' ss q = announce_each ws' (map it_id (filter ?P (q_items q))) (change_items ?P ?f q)"
    by (simp add: cancel_items_for_session_def Let_def)
  have "\<not> targeted_at m q u r" if "r \<in> set (q_items q)" "?P r" "it_workspace r = ws" for r
    using told_by_settle [OF ok that(1,3)] un that
      told_each [of "change_items ?P ?f q" q "it_id r" "map it_id (filter ?P (q_items q))" _ ws m u]
    unfolding q' by (auto simp: about_session_def)
  then show ?thesis unfolding q'
    by (auto intro!: waiting_unseen_change simp: about_session_def settles_def)
qed

text \<open>
  No queue changes behind its reader's back. Whatever is done to the queue -- an item raised, widened,
  narrowed, answered, or gone with its conversation -- wherever what waits for a user in a workspace is
  not what it was, an announcement names the user there or a role the user holds there. Only the sweep
  of what expired tells nobody.
\<close>
theorem changed_queue_is_announced:
  assumes "queue_ok jt q" and "op_fresh q op" and "\<forall>n. op \<noteq> Sweep n"
    and "waiting_on_user m (apply_queue_op jt e now op q) ws u \<noteq> waiting_on_user m q ws u"
  shows "is_told m ws u q (apply_queue_op jt e now op q)"
proof (rule ccontr)
  assume un: "\<not> is_told m ws u q (apply_queue_op jt e now op q)"
  have "waiting_on_user m (apply_queue_op jt e now op q) ws u = waiting_on_user m q ws u"
  proof (cases op)
    case (Raise i ws' inp)
    then show ?thesis using raise_told assms(2) un by simp
  next
    case (AddTargets ws' i ts)
    then show ?thesis using un told_announce [of "q\<lparr>q_targets := insert_targets ws' i (dedupe_targets ts) (q_targets q)\<rparr>"
          q m ws u ws' "[i]" "dedupe_targets ts" ws' i]
      by (auto simp: add_targets_def Let_def set_insert_targets target_row_of_def intro!: waiting_same_targets split: if_splits)
  next
    case (RemoveTargets ws' i ts)
    then show ?thesis using un told_announce [of
          "q\<lparr>q_targets := filter (\<lambda>r. r \<notin> target_row_of ws' i ` set (dedupe_targets ts)) (q_targets q)\<rparr>"
          q m ws u ws' "[i]" "dedupe_targets ts" ws' i]
      by (auto simp: remove_targets_def Let_def target_row_of_def intro!: waiting_same_targets split: if_splits)
  next
    case (Settle ws' i st who wrote)
    then show ?thesis using settle_told [OF assms(1)] un by simp
  next
    case (CancelForSession ws' ss)
    then show ?thesis using cancel_told [OF assms(1)] un by simp
  qed (use assms(3) in auto)
  then show False using assms(4) by simp
qed

section \<open>What the platform's operator is told\<close>

text \<open>
  The operator reads what waits in the platform's own workspace without holding a role there. Asked what
  became of it once it is settled, the store does not make that exception: the operator is told there was
  no such item, where anybody else would be told it was answered already.
\<close>

definition operator :: memberships where
  "operator = \<lparr>workspace_roles = [], system_roles = [(5, ''system_admin'')]\<rparr>"

definition upgrade_queue :: queue where
  "upgrade_queue = snd (raise_item (\<lambda>_. []) 1 9 PLATFORM_WORKSPACE
     \<lparr>ni_kind = ''model.upgrade'', ni_event = None, ni_inhibitor = None, ni_payload = JObj [],
      ni_targets = [UserTarget 5], ni_expires = None\<rparr> \<lparr>q_items = [], q_targets = [], q_announced = []\<rparr>)"

lemma upgrade_queue_eq:
  "upgrade_queue = \<lparr>q_items = [\<lparr>it_workspace = 1, it_id = 9, it_kind = ''model.upgrade'', it_event = None, it_inhibitor = None,
       it_payload = JObj [], it_state = ''pending'', it_resolved_by = None, it_note = None, it_resolved_at = None,
       it_created = 1, it_expires = None\<rparr>],
     q_targets = [\<lparr>tr_workspace = 1, tr_item = 9, tr_role = None, tr_user = Some 5\<rparr>],
     q_announced = [\<lparr>an_workspace = 1, an_roles = [], an_users = [5], an_invalidate = False\<rparr>]\<rparr>"
  by (simp add: upgrade_queue_def raise_item_def validate_item_def Let_def dedupe_targets_def item_row_of_def
      asked_by_turn_def is_approval_def starts_with_def announce_def target_row_of_def PLATFORM_WORKSPACE_def
      map_filter_simps graphic_def text_simps)

lemma operator_is_told_there_was_none:
  "map it_id (owed_everywhere operator upgrade_queue 5 None 10) = [9]"
  "fst (settle_queue 2 PLATFORM_WORKSPACE 9 ItemResolved (Some 5) None upgrade_queue) = Inr ()"
  "settled_for_user operator (snd (settle_queue 2 PLATFORM_WORKSPACE 9 ItemResolved (Some 5) None upgrade_queue)) 5 9 = Inr None"
  by (simp_all add: upgrade_queue_eq operator_def owed_everywhere_def admitted_def is_member_def targeted_at_def reached_by_def
      settle_queue_def item_is_open_def to_settle_def settled_for_user_def announce_def change_items_def settled_row_def
      PLATFORM_WORKSPACE_def)

section \<open>Witnesses\<close>

definition charge_item :: new_item where
  "charge_item = \<lparr>ni_kind = ''approval.charge'', ni_event = None, ni_inhibitor = Some 3,
     ni_payload = JObj [(''job_id'', JStr ''7'')], ni_targets = [RoleTarget 4, UserTarget 5, RoleTarget 4], ni_expires = None\<rparr>"

definition charge_row :: item_row where
  "charge_row = item_row_of 1 2 9 charge_item"

definition charge_queue :: queue where
  "charge_queue = \<lparr>q_items = [charge_row],
     q_targets = [target_row_of 2 9 (RoleTarget 4), target_row_of 2 9 (UserTarget 5)], q_announced = []\<rparr>"

definition answered_queue :: queue where
  "answered_queue = snd (settle_queue 2 2 9 ItemResolved (Some 5) None charge_queue)"

lemma charge_queue_ok: "queue_ok jt charge_queue"
  by (simp add: queue_ok_def charge_queue_def charge_row_def charge_item_def item_row_of_def item_state_parse_def
      target_row_of_def one_sided_def map_filter_simps split: option.split)

lemma answered_step: "queue_step jt e charge_queue answered_queue"
  using queue_step.intros [of charge_queue "Settle 2 9 ItemResolved (Some 5) None" jt e 2] by (simp add: answered_queue_def)

lemma answered_row: "settled_row 2 ItemResolved (Some 5) None charge_row \<in> set (q_items answered_queue)"
  by (simp add: answered_queue_def settle_queue_def item_is_open_def charge_queue_def charge_row_def item_row_of_def to_settle_def)

lemma answered_reached: "(queue_step jt e)\<^sup>*\<^sup>* charge_queue answered_queue"
  by (rule r_into_rtranclp) (rule answered_step)

theorem decision_stands_witness:
  "settle_queue 3 2 9 ItemCancelled (Some 6) None answered_queue = (Inl (NotPending ''resolved''), answered_queue)"
proof -
  have ok: "queue_ok (\<lambda>_. []) answered_queue"
    by (rule queue_step_keeps_ok [OF charge_queue_ok answered_step [of _ toy_outside]])
  show ?thesis
    using decision_stands [OF rtranclp.rtrancl_refl ok answered_row, of ItemCancelled 3 "Some 6" None]
    by (simp add: settled_row_def charge_row_def item_row_of_def item_is_open_def)
qed

theorem one_open_question_of_a_kind_witness:
  "\<exists>is. queue_for_user \<lparr>workspace_roles = [(6, 2, 4)], system_roles = []\<rparr> answered_queue 2 6 = Inr is \<and> length is = 0"
  using one_open_question_of_a_kind [OF answered_reached charge_queue_ok,
      where m = "\<lparr>workspace_roles = [(6, 2, 4)], system_roles = []\<rparr>" and ws = 2 and u = 6]
  by (auto simp: count_for_user_def waiting_on_user_def answered_queue_def settle_queue_def item_is_open_def charge_queue_def
      charge_row_def item_row_of_def to_settle_def settled_row_def)

theorem changed_queue_is_announced_witness:
  "is_told \<lparr>workspace_roles = [(6, 2, 4)], system_roles = []\<rparr> 2 6 charge_queue answered_queue"
  using changed_queue_is_announced [OF charge_queue_ok, of "Settle 2 9 ItemResolved (Some 5) None"
      "\<lparr>workspace_roles = [(6, 2, 4)], system_roles = []\<rparr>" "\<lambda>_. []" toy_outside 2 2 6]
  by (simp add: answered_queue_def settle_queue_def item_is_open_def charge_queue_def waiting_on_user_def targeted_at_def
      reached_by_def target_row_of_def charge_row_def item_row_of_def to_settle_def settled_row_def announce_def)

end
