(* ===== verification/HeldRequests.thy ===== *)
theory HeldRequests
  imports Actions Grant Rbac
begin

text \<open>
  Requests held for a person to approve, \<open>crates/core/src/egress/held.rs\<close> and
  \<open>crates/api/src/held.rs\<close>, with the check every report of a running turn passes,
  \<open>leased_turn\<close> of \<open>crates/api/src/work.rs\<close>: what travels between the tiers, the table of held
  requests, what a person decides, what a runtime says before and after it sends one, and what each
  outcome means for what happens next.

  What follows of every history of a held request is in \<open>HeldHistory\<close>.
\<close>

section \<open>What travels\<close>

definition BODY_LIMIT :: nat where "BODY_LIMIT = 256 * 1024"
definition MAX_ATTEMPTS :: int where "MAX_ATTEMPTS = 3"

type_synonym headers = "(string \<times> string) list"

record held_call =
  hc_id :: uuid
  hc_method :: string
  hc_url :: string
  hc_headers :: headers
  hc_body :: "string option"
  hc_operation :: "string option"
  hc_tool_call_id :: "string option"
  hc_approved_by :: string

datatype outcome =
    Answered (out_status: nat) (out_headers: headers) (out_body: string) (out_truncated: bool)
  | NeverSent string
  | NoAnswer string
  | Refused string

record sending_note =
  sn_job :: uuid
  sn_held :: uuid

record held_report =
  rp_job :: uuid
  rp_held :: uuid
  rp_outcome :: outcome

definition LOST_IN_FLIGHT :: string where
  "LOST_IN_FLIGHT = ''the turn sending it was lost before it could say what came back''"

definition NL :: char where "NL = CHR 0x0A"

fun result_text :: "outside \<Rightarrow> string \<Rightarrow> string \<Rightarrow> string \<Rightarrow> outcome \<Rightarrow> string" where
  "result_text e method url approved_by (Answered status hs body truncated) =
     ''Approved by '' @ approved_by @ '' and sent:'' @ [NL] @
     json_text e (json_object [(''method'', JStr method), (''url'', JStr url), (''status'', JNum (PosInt status)),
       (''body'', JStr body), (''truncated'', JBool truncated)])"
| "result_text e method url approved_by (NeverSent message) =
     ''Approved by '' @ approved_by @ '', but it could not be sent: '' @ message @
     ''. Somebody has been asked what to do about it; do not make this call yourself.''"
| "result_text e method url approved_by (Refused message) =
     ''Approved by '' @ approved_by @ '', but it could not be sent: '' @ message @
     ''. Somebody has been asked what to do about it; do not make this call yourself.''"
| "result_text e method url approved_by (NoAnswer message) =
     ''Approved by '' @ approved_by @ '' and sent, but no answer came back: '' @ message @
     ''. Whether it happened is not known, and somebody has been asked to check. Do not make this call again.''"

definition unmatched_note :: "string \<Rightarrow> string \<Rightarrow> string \<Rightarrow> string" where
  "unmatched_note method url told =
     ''[A request this conversation was waiting on: '' @ method @ '' '' @ url @ ''. '' @ told @ '']''"

definition pending_text :: "string \<Rightarrow> string" where
  "pending_text approved_by =
     ''Approved by '' @ approved_by @
     ''. It could not be sent yet and will be tried again; do not make this call yourself.''"

section \<open>Stored documents\<close>

text \<open>Headers and outcomes as they are stored, in the form serde gives them, and read back.\<close>

definition headers_json :: "headers \<Rightarrow> json" where
  "headers_json hs = JArr (map (\<lambda>(k, v). JArr [JStr k, JStr v]) hs)"

fun read_header :: "json \<Rightarrow> (string \<times> string) option" where
  "read_header (JArr [JStr k, JStr v]) = Some (k, v)"
| "read_header _ = None"

fun read_all :: "('a \<Rightarrow> 'b option) \<Rightarrow> 'a list \<Rightarrow> 'b list option" where
  "read_all f [] = Some []"
| "read_all f (x # xs) =
     (case f x of None \<Rightarrow> None | Some y \<Rightarrow> map_option ((#) y) (read_all f xs))"

fun read_headers :: "json \<Rightarrow> headers option" where
  "read_headers (JArr vs) = read_all read_header vs"
| "read_headers _ = None"

fun outcome_json :: "outcome \<Rightarrow> json" where
  "outcome_json (Answered status hs body truncated) =
     json_object [(''outcome'', JStr ''answered''), (''status'', JNum (PosInt status)), (''headers'', headers_json hs),
       (''body'', JStr body), (''truncated'', JBool truncated)]"
| "outcome_json (NeverSent message) = json_object [(''outcome'', JStr ''never_sent''), (''message'', JStr message)]"
| "outcome_json (NoAnswer message) = json_object [(''outcome'', JStr ''no_answer''), (''message'', JStr message)]"
| "outcome_json (Refused message) = json_object [(''outcome'', JStr ''refused''), (''message'', JStr message)]"

fun read_u16 :: "json \<Rightarrow> nat option" where
  "read_u16 (JNum (PosInt n)) = (if n < 65536 then Some n else None)"
| "read_u16 _ = None"

definition read_answered :: "json \<Rightarrow> outcome option" where
  "read_answered v =
     (case (Option.bind (json_get v ''status'') read_u16,
            (case json_get v ''headers'' of None \<Rightarrow> Some [] | Some h \<Rightarrow> read_headers h),
            Option.bind (json_get v ''body'') as_str,
            (case json_get v ''truncated'' of None \<Rightarrow> Some False | Some (JBool b) \<Rightarrow> Some b | Some _ \<Rightarrow> None)) of
        (Some status, Some hs, Some body, Some truncated) \<Rightarrow> Some (Answered status hs body truncated)
      | _ \<Rightarrow> None)"

definition read_outcome :: "json \<Rightarrow> outcome option" where
  "read_outcome v =
     (case Option.bind (json_get v ''outcome'') as_str of
        None \<Rightarrow> None
      | Some tag \<Rightarrow>
          (let message = Option.bind (json_get v ''message'') as_str in
           if tag = ''answered'' then read_answered v
           else if tag = ''never_sent'' then map_option NeverSent message
           else if tag = ''no_answer'' then map_option NoAnswer message
           else if tag = ''refused'' then map_option Refused message
           else None))"

fun outcome_fits :: "outcome \<Rightarrow> bool" where
  "outcome_fits (Answered status hs body truncated) \<longleftrightarrow> status < 65536"
| "outcome_fits _ \<longleftrightarrow> True"

lemma read_all_map: "(\<And>x. x \<in> set xs \<Longrightarrow> f (g x) = Some x) \<Longrightarrow> read_all f (map g xs) = Some xs"
  by (induction xs) auto

lemma headers_read_back [simp]: "read_headers (headers_json hs) = Some hs"
  by (auto simp: headers_json_def intro!: read_all_map)

lemma outcome_reads_back: "outcome_fits o1 \<Longrightarrow> read_outcome (outcome_json o1) = Some o1"
  by (cases o1) (simp_all add: json_object_def read_outcome_def read_answered_def obj_get_def)

section \<open>Turns a runtime holds\<close>

text \<open>An error of the API: a status and a sentence.\<close>

type_synonym api_error = "nat \<times> string"

record chat_turn =
  ct_workspace :: uuid
  ct_session :: uuid
  ct_agent :: uuid
  ct_message :: uuid
  ct_timezone :: "string option"
  ct_user :: "uuid option"

definition CHAT_TURN :: string where "CHAT_TURN = ''chat.turn''"

definition LEASE_HEADER :: string where "LEASE_HEADER = ''x-outturn-lease''"

text \<open>The payload as serde reads and writes it: an id is text, and what is optional may be missing or null.\<close>

definition read_optional :: "json \<Rightarrow> string \<Rightarrow> (string \<Rightarrow> 'a option) \<Rightarrow> 'a option option" where
  "read_optional v k f =
     (case json_get v k of
        None \<Rightarrow> Some None
      | Some JNull \<Rightarrow> Some None
      | Some (JStr s) \<Rightarrow> map_option Some (f s)
      | Some _ \<Rightarrow> None)"

definition read_chat_turn :: "(string \<Rightarrow> uuid option) \<Rightarrow> json \<Rightarrow> chat_turn option" where
  "read_chat_turn parse_uuid v =
     (case (uuid_at parse_uuid v ''workspace_id'', uuid_at parse_uuid v ''session_id'', uuid_at parse_uuid v ''agent_id'',
            uuid_at parse_uuid v ''message_id'', read_optional v ''timezone'' Some, read_optional v ''user_id'' parse_uuid) of
        (Some ws, Some ss, Some ag, Some msg, Some tz, Some user) \<Rightarrow>
          Some \<lparr>ct_workspace = ws, ct_session = ss, ct_agent = ag, ct_message = msg, ct_timezone = tz, ct_user = user\<rparr>
      | _ \<Rightarrow> None)"

definition chat_turn_json :: "outside \<Rightarrow> chat_turn \<Rightarrow> json" where
  "chat_turn_json e t =
     json_object [(''workspace_id'', JStr (uuid_text e (ct_workspace t))), (''session_id'', JStr (uuid_text e (ct_session t))),
       (''agent_id'', JStr (uuid_text e (ct_agent t))), (''message_id'', JStr (uuid_text e (ct_message t))),
       (''timezone'', json_opt JStr (ct_timezone t)), (''user_id'', json_opt (JStr \<circ> uuid_text e) (ct_user t))]"

definition lease_from :: "(string \<Rightarrow> uuid option) \<Rightarrow> headers \<Rightarrow> api_error + uuid" where
  "lease_from parse_uuid hs =
     (case Option.bind (map_of hs LEASE_HEADER) parse_uuid of
        Some lease \<Rightarrow> Inr lease
      | None \<Rightarrow> Inl (400, LEASE_HEADER @ '' must carry the lease this turn was handed out under''))"

text \<open>Who is asking is the router's to say, an argument: what it answers for an authority.\<close>

type_synonym authorizing = "headers \<Rightarrow> authority \<Rightarrow> api_error + unit"

definition leased_turn ::
  "authorizing \<Rightarrow> (string \<Rightarrow> uuid option) \<Rightarrow> job list \<Rightarrow> headers \<Rightarrow> uuid \<Rightarrow> api_error + (job \<times> chat_turn)" where
  "leased_turn may parse_uuid jobs hs job_id =
     try_step (may hs WorkTake) (\<lambda>_.
     try_step (lease_from parse_uuid hs) (\<lambda>lease.
     (case get_job jobs job_id of
        Inl _ \<Rightarrow> Inl (404, ''no such turn'')
      | Inr j \<Rightarrow>
          if \<not> holds_lease jobs job_id lease then Inl (409, ''that turn is not leased to this runtime'')
          else
            (case read_chat_turn parse_uuid (j_payload j) of
               None \<Rightarrow> Inl (500, ''payload'')
             | Some t \<Rightarrow> Inr (j, t)))))"

section \<open>The tables\<close>

record held_row =
  hd_workspace :: uuid
  hd_id :: uuid
  hd_item :: uuid
  hd_session :: uuid
  hd_job :: uuid
  hd_requires :: string
  hd_shape :: string
  hd_operation :: "string option"
  hd_method :: string
  hd_url :: string
  hd_headers :: json
  hd_body :: "string option"
  hd_asker :: "uuid option"
  hd_state :: string
  hd_attempts :: int
  hd_outcome :: "json option"
  hd_approved_by :: "uuid option"
  hd_approved_at :: "time option"
  hd_spent_at :: "time option"
  hd_settled_at :: "time option"
  hd_sending_job :: "uuid option"
  hd_sending_at :: "time option"

record grant_row =
  gw_workspace :: uuid
  gw_id :: uuid
  gw_session :: uuid
  gw_job :: uuid
  gw_requires :: string
  gw_extent :: string
  gw_keyed_on :: string
  gw_granted_by :: "uuid option"
  gw_granted_at :: time
  gw_spent_at :: "time option"

record message_row =
  ms_id :: uuid
  ms_session :: uuid
  ms_role :: string
  ms_content :: string
  ms_user :: "uuid option"
  ms_metadata :: json
  ms_created :: time
  ms_replies_to :: "uuid option"
  ms_absorbed_by :: "uuid option"

record event_row =
  ev_workspace :: uuid
  ev_session :: "uuid option"
  ev_kind :: string
  ev_payload :: json

text \<open>Everything an approval touches.\<close>

record desk =
  ds_queue :: queue
  ds_holds :: "hold_row list"
  ds_jobs :: "job list"
  ds_grants :: "grant_row list"
  ds_held :: "held_row list"
  ds_messages :: "message_row list"
  ds_live :: "(uuid \<times> time) list"
  ds_events :: "event_row list"

definition change_held :: "(held_row \<Rightarrow> bool) \<Rightarrow> (held_row \<Rightarrow> held_row) \<Rightarrow> desk \<Rightarrow> desk" where
  "change_held P f ds = ds\<lparr>ds_held := map (\<lambda>r. if P r then f r else r) (ds_held ds)\<rparr>"

definition append_event :: "uuid \<Rightarrow> uuid option \<Rightarrow> string \<Rightarrow> json \<Rightarrow> desk \<Rightarrow> desk" where
  "append_event workspace_id session_id kind payload ds =
     ds\<lparr>ds_events := ds_events ds @
       [\<lparr>ev_workspace = workspace_id, ev_session = session_id, ev_kind = kind, ev_payload = payload\<rparr>]\<rparr>"

section \<open>Holding and deciding\<close>

record new_held =
  nh_workspace :: uuid
  nh_item :: uuid
  nh_session :: uuid
  nh_job :: uuid
  nh_requires :: string
  nh_shape :: string
  nh_operation :: "string option"
  nh_method :: string
  nh_url :: string
  nh_headers :: headers
  nh_body :: "string option"
  nh_asker :: "uuid option"

definition hold_request :: "uuid \<Rightarrow> new_held \<Rightarrow> desk \<Rightarrow> uuid \<times> desk" where
  "hold_request i h ds =
     (i, ds\<lparr>ds_held := ds_held ds @
        [\<lparr>hd_workspace = nh_workspace h, hd_id = i, hd_item = nh_item h, hd_session = nh_session h, hd_job = nh_job h,
          hd_requires = nh_requires h, hd_shape = nh_shape h, hd_operation = nh_operation h, hd_method = nh_method h,
          hd_url = nh_url h, hd_headers = headers_json (nh_headers h), hd_body = nh_body h, hd_asker = nh_asker h,
          hd_state = ''held'', hd_attempts = 0, hd_outcome = None, hd_approved_by = None, hd_approved_at = None,
          hd_spent_at = None, hd_settled_at = None, hd_sending_job = None, hd_sending_at = None\<rparr>]\<rparr>)"

datatype held_decision = Approve | Decline | Resend | Done

fun transition :: "held_decision \<Rightarrow> string list \<times> string" where
  "transition Approve = ([''held''], ''approved'')"
| "transition Decline = ([''held''], ''declined'')"
| "transition Resend = ([''unsent'', ''unknown''], ''approved'')"
| "transition Done = ([''unsent'', ''unknown''], ''done'')"

definition decided_by :: "uuid \<Rightarrow> uuid \<Rightarrow> held_decision \<Rightarrow> held_row \<Rightarrow> bool" where
  "decided_by workspace_id item_id d r \<longleftrightarrow>
     hd_workspace r = workspace_id \<and> hd_item r = item_id \<and> hd_state r \<in> set (fst (transition d))"

definition decide_tx ::
  "time \<Rightarrow> uuid \<Rightarrow> uuid \<Rightarrow> held_decision \<Rightarrow> uuid option \<Rightarrow> desk \<Rightarrow> nat \<times> desk" where
  "decide_tx now workspace_id item_id d by ds =
     (let approving = d \<in> {Approve, Resend};
          P = decided_by workspace_id item_id d;
          f = (\<lambda>r. r\<lparr>hd_state := snd (transition d),
                 hd_approved_by := (if approving then by else hd_approved_by r),
                 hd_approved_at := (if approving then Some now else hd_approved_at r),
                 hd_attempts := (if approving then 0 else hd_attempts r)\<rparr>) in
      (length (filter P (ds_held ds)), change_held P f ds))"

definition held_for_item :: "desk \<Rightarrow> uuid \<Rightarrow> uuid \<Rightarrow> bool" where
  "held_for_item ds workspace_id item_id \<longleftrightarrow>
     list_ex (\<lambda>r. hd_workspace r = workspace_id \<and> hd_item r = item_id) (ds_held ds)"

section \<open>What a turn sees\<close>

record held =
  h_id :: uuid
  h_item :: uuid
  h_requires :: string
  h_shape :: string
  h_state :: string
  h_attempts :: int
  h_operation :: "string option"
  h_method :: string
  h_url :: string
  h_headers :: headers
  h_body :: "string option"
  h_outcome :: "outcome option"
  h_settled_at :: "time option"
  h_approved_by :: string
  h_asker :: "uuid option"

definition held_host :: "(string \<Rightarrow> url option) \<Rightarrow> held \<Rightarrow> string" where
  "held_host parse_url h =
     (case Option.bind (parse_url (h_url h)) url_host of Some host \<Rightarrow> to_lower host | None \<Rightarrow> [])"

definition waiting :: "held \<Rightarrow> bool" where
  "waiting h \<longleftrightarrow> h_state h = ''approved''"

definition in_flight_held :: "held \<Rightarrow> bool" where
  "in_flight_held h \<longleftrightarrow> h_state h = ''sending''"

definition held_grant :: "held \<Rightarrow> granted" where
  "held_grant h = \<lparr>granted_requires = h_requires h, granted_extent = Call, keyed_on = h_shape h\<rparr>"

definition told :: "outside \<Rightarrow> held \<Rightarrow> string option" where
  "told e h =
     (case h_outcome h of
        None \<Rightarrow> None
      | Some out \<Rightarrow>
          if h_state h \<in> {''spent'', ''unsent'', ''unknown'', ''done''}
          then Some (result_text e (h_method h) (h_url h) (h_approved_by h) out)
          else None)"

definition call_of :: "held \<Rightarrow> string option \<Rightarrow> held_call" where
  "call_of h tool_call_id =
     \<lparr>hc_id = h_id h, hc_method = h_method h, hc_url = h_url h, hc_headers = h_headers h, hc_body = h_body h,
      hc_operation = h_operation h, hc_tool_call_id = tool_call_id, hc_approved_by = h_approved_by h\<rparr>"

definition SOMEBODY :: string where "SOMEBODY = ''somebody''"

text \<open>A row whose documents do not decode is an error, never a row without them.\<close>

definition read_held :: "(uuid \<Rightarrow> string option) \<Rightarrow> held_row \<Rightarrow> held option" where
  "read_held name_of r =
     (case (read_headers (hd_headers r),
            (case hd_outcome r of None \<Rightarrow> Some None | Some v \<Rightarrow> map_option Some (read_outcome v))) of
        (Some hs, Some out) \<Rightarrow>
          Some \<lparr>h_id = hd_id r, h_item = hd_item r, h_requires = hd_requires r, h_shape = hd_shape r, h_state = hd_state r,
            h_attempts = hd_attempts r, h_operation = hd_operation r, h_method = hd_method r, h_url = hd_url r,
            h_headers = hs, h_body = hd_body r, h_outcome = out, h_settled_at = hd_settled_at r,
            h_approved_by = (case Option.bind (hd_approved_by r) name_of of Some n \<Rightarrow> n | None \<Rightarrow> SOMEBODY),
            h_asker = hd_asker r\<rparr>
      | _ \<Rightarrow> None)"

definition answered_in :: "uuid \<Rightarrow> uuid \<Rightarrow> held_row \<Rightarrow> bool" where
  "answered_in workspace_id session_id r \<longleftrightarrow>
     hd_workspace r = workspace_id \<and> hd_session r = session_id \<and> hd_state r \<notin> {''held'', ''declined''}"

definition in_session :: "(uuid \<Rightarrow> string option) \<Rightarrow> desk \<Rightarrow> uuid \<Rightarrow> uuid \<Rightarrow> held list option" where
  "in_session name_of ds workspace_id session_id =
     read_all (read_held name_of) (sort_key hd_id (filter (answered_in workspace_id session_id) (ds_held ds)))"

section \<open>What an outcome means\<close>

datatype next_step = Spent | Again | Unsent | Unknown

definition try_again :: "int \<Rightarrow> next_step" where
  "try_again attempts_before = (if attempts_before + 1 \<ge> MAX_ATTEMPTS then Unsent else Again)"

fun next_of :: "outcome \<Rightarrow> int \<Rightarrow> bool \<Rightarrow> next_step" where
  "next_of (Answered status hs body truncated) attempts_before keyed = Spent"
| "next_of (NeverSent message) attempts_before keyed = try_again attempts_before"
| "next_of (NoAnswer message) attempts_before keyed = (if keyed then try_again attempts_before else Unknown)"
| "next_of (Refused message) attempts_before keyed = Unsent"

text \<open>
  What the rest of the API and the database supply: the router's answer on an authority, the display
  name of a user, the agent of a session, the operations of the skills as they stand (nothing where they
  could not be read), the roles that carry an authority, and the text of a JSON value in a document.
\<close>

record operation =
  op_name :: string
  op_key_header :: "string option"
  op_key_field :: "string option"

record api_world =
  aw_outside :: outside
  aw_parse_uuid :: "string \<Rightarrow> uuid option"
  aw_parse_url :: "string \<Rightarrow> url option"
  aw_jsonb_text :: "json \<Rightarrow> string"
  aw_authorize :: authorizing
  aw_name_of :: "uuid \<Rightarrow> string option"
  aw_agent_of :: "uuid \<Rightarrow> uuid option"
  aw_operations :: "uuid \<Rightarrow> uuid \<Rightarrow> operation list option"
  aw_roles_with :: "uuid \<Rightarrow> authority \<Rightarrow> api_error + uuid list"

definition keyed :: "api_world \<Rightarrow> chat_turn \<Rightarrow> string \<Rightarrow> bool" where
  "keyed w t name =
     (case aw_operations w (ct_workspace t) (ct_agent t) of
        None \<Rightarrow> False
      | Some ops \<Rightarrow>
          (case find (\<lambda>o1. op_name o1 = name) ops of
             None \<Rightarrow> False
           | Some o1 \<Rightarrow> op_key_header o1 \<noteq> None \<or> op_key_field o1 \<noteq> None))"

definition approvers :: "api_world \<Rightarrow> uuid \<Rightarrow> api_error + target list" where
  "approvers w workspace_id =
     try_step (aw_roles_with w workspace_id ApprovalsAnswer) (\<lambda>roles. Inr (map RoleTarget roles))"

text \<open>The workspace and payload of the item a request was held under.\<close>

definition original :: "desk \<Rightarrow> uuid \<Rightarrow> (uuid \<times> json) option" where
  "original ds held_id =
     (case [(it_workspace a, it_payload a). r \<leftarrow> ds_held ds, hd_id r = held_id,
             a \<leftarrow> q_items (ds_queue ds), hd_workspace r = it_workspace a \<and> hd_item r = it_id a] of
        [] \<Rightarrow> None
      | x # _ \<Rightarrow> Some x)"

definition member_or_null :: "json \<Rightarrow> string \<Rightarrow> string \<times> json" where
  "member_or_null v k = (k, case json_get v k of Some m \<Rightarrow> m | None \<Rightarrow> JNull)"

definition without_nulls :: "(string \<times> json) list \<Rightarrow> json" where
  "without_nulls ms = json_object (filter (\<lambda>(k, v). \<not> is_null v) ms)"

fun why_not :: "outcome \<Rightarrow> string option" where
  "why_not (Answered status hs body truncated) = None"
| "why_not (NeverSent message) = Some message"
| "why_not (NoAnswer message) = Some message"
| "why_not (Refused message) = Some message"

definition followup_reason :: "held \<Rightarrow> bool \<Rightarrow> string \<Rightarrow> string" where
  "followup_reason h unknown cause =
     (if unknown
      then h_requires h @ '' was approved and sent, and no answer came back, so whether it happened is not known: '' @ cause
      else h_requires h @ '' was approved, but could not be sent: '' @ cause)"

definition followup_payload :: "outside \<Rightarrow> held \<Rightarrow> bool \<Rightarrow> string \<Rightarrow> json \<Rightarrow> json" where
  "followup_payload e h unknown cause item_payload =
     without_nulls [(''requires'', JStr (h_requires h)), (''reason'', JStr (followup_reason h unknown cause)),
       member_or_null item_payload ''session_id'', member_or_null item_payload ''method'',
       member_or_null item_payload ''host'', member_or_null item_payload ''path'',
       member_or_null item_payload ''binds'', (''held_id'', JStr (uuid_text e (h_id h))),
       (''follows'', JStr (uuid_text e (h_item h))),
       (''followup'', JStr (if unknown then ''unknown'' else ''unsent''))]"

definition ask_again :: "api_world \<Rightarrow> time \<Rightarrow> uuid \<Rightarrow> held \<Rightarrow> bool \<Rightarrow> outcome \<Rightarrow> desk \<Rightarrow> desk" where
  "ask_again w now i h unknown out ds =
     (case original ds (h_id h) of
        None \<Rightarrow> ds
      | Some (item_workspace, item_payload) \<Rightarrow>
     (case why_not out of
        None \<Rightarrow> ds
      | Some cause \<Rightarrow>
     (case approvers w item_workspace of
        Inl _ \<Rightarrow> ds
      | Inr targets \<Rightarrow>
     (case raise_item (aw_jsonb_text w) now i item_workspace
        \<lparr>ni_kind = ''approval.'' @ h_requires h, ni_event = None, ni_inhibitor = None,
         ni_payload = followup_payload (aw_outside w) h unknown cause item_payload, ni_targets = targets,
         ni_expires = None\<rparr> (ds_queue ds) of
        (Inl _, q) \<Rightarrow> ds
      | (Inr item_id, q) \<Rightarrow>
          change_held (\<lambda>r. hd_workspace r = item_workspace \<and> hd_id r = h_id h) (\<lambda>r. r\<lparr>hd_item := item_id\<rparr>)
            (ds\<lparr>ds_queue := q\<rparr>)))))"

fun next_state :: "next_step \<Rightarrow> string" where
  "next_state Spent = ''spent''"
| "next_state Again = ''approved''"
| "next_state Unsent = ''unsent''"
| "next_state Unknown = ''unknown''"

fun is_never_sent :: "outcome \<Rightarrow> bool" where
  "is_never_sent (NeverSent message) = True"
| "is_never_sent _ = False"

definition to_be_settled :: "uuid \<Rightarrow> uuid \<Rightarrow> held_row \<Rightarrow> bool" where
  "to_be_settled workspace_id i r \<longleftrightarrow>
     hd_workspace r = workspace_id \<and> hd_id r = i \<and> hd_state r \<in> {''approved'', ''sending''}"

definition after_outcome :: "time \<Rightarrow> next_step \<Rightarrow> outcome \<Rightarrow> held_row \<Rightarrow> held_row" where
  "after_outcome now nx out r =
     r\<lparr>hd_state := next_state nx, hd_outcome := Some (outcome_json out), hd_settled_at := Some now,
       hd_attempts := hd_attempts r + (if is_never_sent out \<or> nx = Again then 1 else 0),
       hd_spent_at := (if nx = Spent then Some now else hd_spent_at r)\<rparr>"

text \<open>What its operation says of a request: whether the recipient dedupes on a key it carries.\<close>

definition dedupes :: "api_world \<Rightarrow> chat_turn \<Rightarrow> held \<Rightarrow> bool" where
  "dedupes w t h = (case h_operation h of Some name \<Rightarrow> keyed w t name | None \<Rightarrow> False)"

definition settle ::
  "api_world \<Rightarrow> time \<Rightarrow> uuid \<Rightarrow> chat_turn \<Rightarrow> held \<Rightarrow> outcome \<Rightarrow> desk \<Rightarrow> (api_error + next_step) \<times> desk" where
  "settle w now i t h out ds =
     (let nx = next_of out (h_attempts h) (dedupes w t h);
          P = to_be_settled (ct_workspace t) (h_id h) in
      if filter P (ds_held ds) = [] then (Inl (409, ''that request was answered meanwhile''), ds)
      else
        (let ds1 = change_held P (after_outcome now nx out) ds in
         (Inr nx, if nx \<in> {Unsent, Unknown} then ask_again w now i h (nx = Unknown) out ds1 else ds1)))"

definition going :: "uuid \<Rightarrow> uuid \<Rightarrow> uuid \<Rightarrow> held_row \<Rightarrow> bool" where
  "going workspace_id session_id i r \<longleftrightarrow>
     hd_workspace r = workspace_id \<and> hd_session r = session_id \<and> hd_id r = i \<and> hd_state r = ''approved''"

definition sending :: "api_world \<Rightarrow> time \<Rightarrow> headers \<Rightarrow> sending_note \<Rightarrow> desk \<Rightarrow> (api_error + unit) \<times> desk" where
  "sending w now hs inp ds =
     (case leased_turn (aw_authorize w) (aw_parse_uuid w) (ds_jobs ds) hs (sn_job inp) of
        Inl err \<Rightarrow> (Inl err, ds)
      | Inr (_, t) \<Rightarrow>
          (let P = going (ct_workspace t) (ct_session t) (sn_held inp) in
           if filter P (ds_held ds) = []
           then (Inl (409, ''no such request is waiting to be sent in this conversation''), ds)
           else (Inr (), change_held P (\<lambda>r. r\<lparr>hd_state := ''sending'', hd_sending_job := Some (sn_job inp),
                   hd_sending_at := Some now\<rparr>) ds)))"

definition report ::
  "api_world \<Rightarrow> time \<Rightarrow> uuid \<Rightarrow> headers \<Rightarrow> held_report \<Rightarrow> desk \<Rightarrow> (api_error + string) \<times> desk" where
  "report w now i hs inp ds =
     (case leased_turn (aw_authorize w) (aw_parse_uuid w) (ds_jobs ds) hs (rp_job inp) of
        Inl err \<Rightarrow> (Inl err, ds)
      | Inr (_, t) \<Rightarrow>
     (case in_session (aw_name_of w) ds (ct_workspace t) (ct_session t) of
        None \<Rightarrow> (Inl (500, ''held request''), ds)
      | Some hs' \<Rightarrow>
     (case find (\<lambda>h. h_id h = rp_held inp) hs' of
        None \<Rightarrow> (Inl (404, ''no such request is held in this conversation''), ds)
      | Some h \<Rightarrow>
          if \<not> waiting h \<and> \<not> in_flight_held h
          then (Inl (409, ''that request is '' @ h_state h @ '', not waiting to be sent''), ds)
          else
            (case settle w now i t h (rp_outcome inp) ds of
               (Inl err, ds') \<Rightarrow> (Inl err, ds')
             | (Inr nx, ds') \<Rightarrow>
                 (Inr (case nx of
                    Again \<Rightarrow> pending_text (h_approved_by h)
                  | _ \<Rightarrow> result_text (aw_outside w) (h_method h) (h_url h) (h_approved_by h) (rp_outcome inp)), ds')))))"

definition recover :: "api_world \<Rightarrow> time \<Rightarrow> (uuid \<Rightarrow> uuid) \<Rightarrow> chat_turn \<Rightarrow> desk \<Rightarrow> desk" where
  "recover w now fresh t ds =
     (case in_session (aw_name_of w) ds (ct_workspace t) (ct_session t) of
        None \<Rightarrow> ds
      | Some hs \<Rightarrow>
          fold (\<lambda>h ds. snd (settle w now (fresh (h_id h)) t h (NoAnswer LOST_IN_FLIGHT) ds)) (filter in_flight_held hs) ds)"

section \<open>Sending again\<close>

definition RESEND_MARK :: string where "RESEND_MARK = ''resend''"

definition last_timezone :: "(json \<Rightarrow> string) \<Rightarrow> outside \<Rightarrow> job list \<Rightarrow> uuid \<Rightarrow> string option" where
  "last_timezone jsonb_text e jobs session_id =
     (case rev (sort_key j_id (filter (\<lambda>j. j_kind j = CHAT_TURN \<and>
         payload_text jsonb_text (j_payload j) ''session_id'' = Some (uuid_text e session_id)) jobs)) of
        [] \<Rightarrow> None
      | j # _ \<Rightarrow> payload_text jsonb_text (j_payload j) ''timezone'')"

definition resend_note :: "string \<Rightarrow> held_row \<Rightarrow> string" where
  "resend_note who r =
     who @ '' asked for the approved '' @ hd_requires r @ '' ('' @ hd_method r @ '' '' @ hd_url r @
     '') to be sent again. It was sent before this turn began; what came back is where it was refused.''"

definition resend_now ::
  "api_world \<Rightarrow> time \<Rightarrow> uuid \<Rightarrow> uuid \<Rightarrow> uuid \<Rightarrow> uuid \<Rightarrow> uuid \<Rightarrow> desk \<Rightarrow> bool \<times> desk" where
  "resend_now w now note_id job_id workspace_id item_id by ds =
     (case find (\<lambda>r. hd_workspace r = workspace_id \<and> hd_item r = item_id \<and> hd_state r = ''approved'' \<and>
             aw_agent_of w (hd_session r) \<noteq> None) (ds_held ds) of
        None \<Rightarrow> (False, ds)
      | Some r \<Rightarrow>
          (let e = aw_outside w;
               session_id = hd_session r;
               who = (case aw_name_of w by of Some n \<Rightarrow> n | None \<Rightarrow> SOMEBODY);
               content = resend_note who r;
               metadata = json_object [(RESEND_MARK, json_object [(''held_id'', JStr (uuid_text e (hd_id r))),
                 (''requires'', JStr (hd_requires r)), (''by'', JStr who)])];
               payload = chat_turn_json e \<lparr>ct_workspace = workspace_id, ct_session = session_id,
                 ct_agent = the (aw_agent_of w session_id), ct_message = note_id,
                 ct_timezone = last_timezone (aw_jsonb_text w) e (ds_jobs ds) session_id, ct_user = None\<rparr> in
           (True, append_event workspace_id (Some session_id) ''chat.message''
              (json_object [(''id'', JStr (uuid_text e note_id)), (''session_id'', JStr (uuid_text e session_id)),
                 (''role'', JStr ''user''), (''content'', JStr content), (''metadata'', metadata)])
              (ds\<lparr>ds_messages := ds_messages ds @ [\<lparr>ms_id = note_id, ms_session = session_id, ms_role = ''user'',
                   ms_content = content, ms_user = None, ms_metadata = metadata, ms_created = now,
                   ms_replies_to = None, ms_absorbed_by = None\<rparr>],
                 ds_live := (session_id, now + seconds 300) # filter (\<lambda>(s, _). s \<noteq> session_id) (ds_live ds),
                 ds_jobs := snd (enqueue now job_id workspace_id CHAT_TURN payload None
                   (Some (uuid_text e session_id)) PRIORITY_REALTIME (ds_jobs ds))\<rparr>))))"

end
