(* ===== verification/HeldHistory.thy ===== *)
theory HeldHistory
  imports HeldRequests
begin

text \<open>
  The histories of held requests: whatever is done to the table of \<open>HeldRequests\<close>, by however many
  people and runtimes, each request lives through a history of one small machine (a refinement). None
  goes out that nobody approved; none goes out again unless the first try never left, the recipient
  dedupes, or a person asked for it; and what was answered, declined or closed is never sent.
\<close>

section \<open>The history of a request\<close>

text \<open>
  What happens to one request, and the machine its histories are those of. An outcome comes with whether
  the recipient dedupes and with the tries counted when it was decided, which another report may have
  changed since.
\<close>

datatype event = Raised | Said held_decision | Going | Came outcome bool int

datatype phase = Unheld | OnHold | Yes int | OnItsWay int | AskedAgain | Over

fun after :: "int \<Rightarrow> outcome \<Rightarrow> bool \<Rightarrow> int \<Rightarrow> phase" where
  "after m out k n = (case next_of out n k of Spent \<Rightarrow> Over | Again \<Rightarrow> Yes (m + 1) | _ \<Rightarrow> AskedAgain)"

fun follow :: "phase \<Rightarrow> event \<Rightarrow> phase option" where
  "follow Unheld Raised = Some OnHold"
| "follow OnHold (Said Approve) = Some (Yes 0)"
| "follow OnHold (Said Decline) = Some Over"
| "follow (Yes m) Going = Some (OnItsWay m)"
| "follow (Yes m) (Came out k n) = Some (after m out k n)"
| "follow (OnItsWay m) (Came out k n) = Some (after m out k n)"
| "follow AskedAgain (Said Resend) = Some (Yes 0)"
| "follow AskedAgain (Said Done) = Some Over"
| "follow _ _ = None"

fun follow_all :: "phase \<Rightarrow> event list \<Rightarrow> phase option" where
  "follow_all p [] = Some p"
| "follow_all p (ev # evs) = Option.bind (follow p ev) (\<lambda>p'. follow_all p' evs)"

lemma follow_all_append: "follow_all p (xs @ ys) = Option.bind (follow_all p xs) (\<lambda>p'. follow_all p' ys)"
  by (induction p xs rule: follow_all.induct) (auto split: bind_splits)

definition row_phase :: "held_row \<Rightarrow> phase" where
  "row_phase r =
     (if hd_state r = ''held'' then OnHold
      else if hd_state r = ''approved'' then Yes (hd_attempts r)
      else if hd_state r = ''sending'' then OnItsWay (hd_attempts r)
      else if hd_state r \<in> {''unsent'', ''unknown''} then AskedAgain
      else Over)"

definition phase_of :: "desk \<Rightarrow> uuid \<Rightarrow> phase" where
  "phase_of ds i = (case find (\<lambda>r. hd_id r = i) (ds_held ds) of None \<Rightarrow> Unheld | Some r \<Rightarrow> row_phase r)"

text \<open>
  Everything that happens to the table of held requests, and what of it each request lives through. The
  request a report speaks of was read some time before; everything else on the desk may change at will.
\<close>

inductive held_step :: "api_world \<Rightarrow> desk \<Rightarrow> (uuid \<times> event) list \<Rightarrow> desk \<Rightarrow> bool" for w where
  holds: "list_all (\<lambda>r. hd_id r \<noteq> i) (ds_held ds) \<Longrightarrow> held_step w ds [(i, Raised)] (snd (hold_request i h ds))"
| decides: "held_step w ds (map (\<lambda>r. (hd_id r, Said d)) (filter (decided_by ws item d) (ds_held ds)))
    (snd (decide_tx now ws item d who ds))"
| goes: "sending w now hs inp ds = (Inr (), ds') \<Longrightarrow> held_step w ds [(sn_held inp, Going)] ds'"
| settled: "settle w now i t h out ds = (Inr nx, ds') \<Longrightarrow>
    held_step w ds [(h_id h, Came out (dedupes w t h) (h_attempts h))] ds'"
| elsewhere: "ds_held ds' = ds_held ds \<Longrightarrow> held_step w ds [] ds'"

inductive held_run :: "api_world \<Rightarrow> desk \<Rightarrow> (uuid \<times> event) list \<Rightarrow> desk \<Rightarrow> bool" for w where
  stays: "held_run w ds [] ds"
| runs: "held_run w ds evs ds' \<Longrightarrow> held_step w ds' new ds'' \<Longrightarrow> held_run w ds (evs @ new) ds''"

definition events_of :: "uuid \<Rightarrow> (uuid \<times> event) list \<Rightarrow> event list" where
  "events_of i evs = map snd (filter (\<lambda>(j, _). j = i) evs)"

lemma events_of_simps [simp]:
  "events_of i [] = []" "events_of i ((j, ev) # evs) = (if j = i then ev # events_of i evs else events_of i evs)"
  "events_of i (xs @ ys) = events_of i xs @ events_of i ys"
  by (simp_all add: events_of_def)

lemma find_change:
  "(\<And>r. hd_id (f r) = hd_id r) \<Longrightarrow>
     find (\<lambda>r. hd_id r = i) (map (\<lambda>r. if P r then f r else r) rows) =
     map_option (\<lambda>r. if P r then f r else r) (find (\<lambda>r. hd_id r = i) rows)"
  by (induction rows) auto

lemma phase_change:
  assumes "\<And>r. hd_id (f r) = hd_id r"
  shows "phase_of (change_held P f ds) i =
    (case find (\<lambda>r. hd_id r = i) (ds_held ds) of None \<Rightarrow> Unheld | Some r \<Rightarrow> row_phase (if P r then f r else r))"
  using assms by (simp add: phase_of_def change_held_def find_change split: option.split)

lemma phase_ask_again [simp]: "phase_of (ask_again w now i h unknown out ds) j = phase_of ds j"
proof -
  have same: "phase_of (change_held P (\<lambda>r. r\<lparr>hd_item := x\<rparr>) (ds\<lparr>ds_queue := q\<rparr>)) j = phase_of ds j" for P x q
    by (subst phase_change) (auto simp: phase_of_def row_phase_def split: option.split)
  show ?thesis
    by (auto simp: ask_again_def same split: option.split prod.split sum.split)
qed

lemma ids_change [simp]:
  "(\<And>r. hd_id (f r) = hd_id r) \<Longrightarrow> map hd_id (ds_held (change_held P f ds)) = map hd_id (ds_held ds)"
  by (simp add: change_held_def)

lemma ids_ask_again [simp]: "map hd_id (ds_held (ask_again w now i h unknown out ds)) = map hd_id (ds_held ds)"
  by (auto simp: ask_again_def change_held_def split: option.split prod.split sum.split)

lemma row_of: "distinct (map hd_id rows) \<Longrightarrow> r \<in> set rows \<Longrightarrow> find (\<lambda>x. hd_id x = hd_id r) rows = Some r"
  by (induction rows) (auto simp: image_iff)

lemma no_row: "i \<notin> hd_id ` set rows \<Longrightarrow> find (\<lambda>r. hd_id r = i) rows = None"
  by (auto simp: find_None_iff)

lemma find_row_id: "find (\<lambda>r. hd_id r = i) rows = Some r \<Longrightarrow> hd_id r = i \<and> r \<in> set rows"
  by (induction rows) (auto split: if_splits)

lemma find_either: "find P (xs @ ys) = (case find P xs of None \<Rightarrow> find P ys | Some x \<Rightarrow> Some x)"
  by (induction xs) auto

lemma events_decided:
  assumes "distinct (map hd_id rows)"
  shows "events_of i (map (\<lambda>r. (hd_id r, ev)) (filter P rows)) =
    (case find (\<lambda>r. hd_id r = i) rows of None \<Rightarrow> [] | Some r \<Rightarrow> if P r then [ev] else [])"
proof -
  have none: "events_of i (map (\<lambda>r. (hd_id r, ev)) (filter P xs)) = []" if "i \<notin> hd_id ` set xs" for xs
    using that by (induction xs) auto
  show ?thesis using assms by (induction rows) (auto simp: none no_row)
qed

lemma held_step_ids:
  assumes "held_step w ds evs ds'" and "distinct (map hd_id (ds_held ds))"
  shows "distinct (map hd_id (ds_held ds'))"
  using assms
proof (cases rule: held_step.cases)
  case (settled now i t h out nx)
  then have "map hd_id (ds_held ds') = map hd_id (ds_held ds)"
    by (auto simp: settle_def Let_def after_outcome_def split: if_splits)
  then show ?thesis using assms(2) by simp
qed (use assms(2) in \<open>auto simp: hold_request_def decide_tx_def Let_def sending_def list_all_iff
    split: sum.splits prod.splits if_splits\<close>)

text \<open>The row a conditional update found is the request it named.\<close>

lemma found_row:
  assumes "distinct (map hd_id rows)" and "filter P rows \<noteq> []" and "\<And>r. P r \<Longrightarrow> hd_id r = i"
  obtains r where "find (\<lambda>x. hd_id x = i) rows = Some r" "P r"
proof -
  obtain r where "r \<in> set rows" "P r" using assms(2) by (auto simp: filter_empty_conv)
  then show thesis using that [of r] row_of [OF assms(1), of r] assms(3) [of r] by simp
qed

lemma phase_change_one:
  assumes "distinct (map hd_id (ds_held ds))" and "filter P (ds_held ds) \<noteq> []"
    and "\<And>r. P r \<Longrightarrow> hd_id r = j" and "\<And>r. hd_id (f r) = hd_id r"
  obtains r where "P r" "phase_of ds j = row_phase r" "phase_of (change_held P f ds) j = row_phase (f r)"
    "\<And>i. i \<noteq> j \<Longrightarrow> phase_of (change_held P f ds) i = phase_of ds i"
proof -
  obtain r where r: "find (\<lambda>x. hd_id x = j) (ds_held ds) = Some r" "P r"
    by (rule found_row [OF assms(1,2,3)])
  have "phase_of (change_held P f ds) i = phase_of ds i" if "i \<noteq> j" for i
    unfolding phase_change [OF assms(4)] unfolding phase_of_def
    using that assms(3) by (auto dest: find_row_id split: option.split)
  then show thesis using that [of r] r assms(4) by (simp add: phase_change) (simp add: phase_of_def)
qed

lemma settled_follows:
  assumes "to_be_settled ws i r"
  shows "follow (row_phase r) (Came out k n) = Some (row_phase (after_outcome now (next_of out n k) out r))"
proof -
  obtain m where "row_phase r = Yes m \<or> row_phase r = OnItsWay m" "hd_attempts r = m"
    using assms by (auto simp: to_be_settled_def row_phase_def)
  then have "follow (row_phase r) (Came out k n) = Some (after m out k n)" by auto
  moreover have "row_phase (after_outcome now (next_of out n k) out r) = after m out k n"
    using \<open>hd_attempts r = m\<close> by (cases "next_of out n k") (simp_all add: after_outcome_def row_phase_def)
  ultimately show ?thesis by simp
qed

lemma sending_Inr:
  assumes "sending w now hs inp ds = (Inr (), ds')"
  obtains j t where "leased_turn (aw_authorize w) (aw_parse_uuid w) (ds_jobs ds) hs (sn_job inp) = Inr (j, t)"
    "filter (going (ct_workspace t) (ct_session t) (sn_held inp)) (ds_held ds) \<noteq> []"
    "ds' = change_held (going (ct_workspace t) (ct_session t) (sn_held inp)) (\<lambda>r. r\<lparr>hd_state := ''sending'',
       hd_sending_job := Some (sn_job inp), hd_sending_at := Some now\<rparr>) ds"
proof (cases "leased_turn (aw_authorize w) (aw_parse_uuid w) (ds_jobs ds) hs (sn_job inp)")
  case (Inr jt)
  obtain j t where "jt = (j, t)" by (cases jt)
  then show thesis using that [of j t] assms Inr by (simp add: sending_def Let_def split: if_splits)
qed (use assms in \<open>simp add: sending_def\<close>)

lemma step_follows:
  assumes "held_step w ds evs ds'" and "distinct (map hd_id (ds_held ds))"
  shows "follow_all (phase_of ds i) (events_of i evs) = Some (phase_of ds' i)"
  using assms(1)
proof (cases rule: held_step.cases)
  case (holds j h)
  then show ?thesis
    by (auto simp: hold_request_def phase_of_def row_phase_def find_either list_all_iff dest: find_row_id split: option.split)
next
  case (decides d ws item now who)
  show ?thesis
    unfolding decides events_decided [OF assms(2)] decide_tx_def Let_def snd_conv
    by (subst phase_change, simp)
      (cases d; auto simp: phase_of_def decided_by_def row_phase_def split: option.split)
next
  case (goes now hs inp)
  from goes(2) obtain j t where "leased_turn (aw_authorize w) (aw_parse_uuid w) (ds_jobs ds) hs (sn_job inp) = Inr (j, t)"
    and t: "filter (going (ct_workspace t) (ct_session t) (sn_held inp)) (ds_held ds) \<noteq> []"
    "ds' = change_held (going (ct_workspace t) (ct_session t) (sn_held inp)) (\<lambda>r. r\<lparr>hd_state := ''sending'',
       hd_sending_job := Some (sn_job inp), hd_sending_at := Some now\<rparr>) ds"
    by (rule sending_Inr)
  let ?f = "\<lambda>r. r\<lparr>hd_state := ''sending'', hd_sending_job := Some (sn_job inp), hd_sending_at := Some now\<rparr>"
  obtain r where "going (ct_workspace t) (ct_session t) (sn_held inp) r" "phase_of ds (sn_held inp) = row_phase r"
    "phase_of ds' (sn_held inp) = row_phase (?f r)" "\<And>i. i \<noteq> sn_held inp \<Longrightarrow> phase_of ds' i = phase_of ds i"
    unfolding t(2) by (rule phase_change_one [OF assms(2) t(1), of "sn_held inp" ?f]) (simp add: going_def, simp, blast)
  then show ?thesis by (auto simp: goes(1) going_def row_phase_def)
next
  case (settled now j t h out nx)
  let ?P = "to_be_settled (ct_workspace t) (h_id h)" and ?nx = "next_of out (h_attempts h) (dedupes w t h)"
  have some: "filter ?P (ds_held ds) \<noteq> []"
    and ds': "phase_of ds' k = phase_of (change_held ?P (after_outcome now ?nx out) ds) k" for k
    using settled(2) by (auto simp: settle_def Let_def split: if_splits)
  obtain r where "?P r" "phase_of ds (h_id h) = row_phase r"
    "phase_of (change_held ?P (after_outcome now ?nx out) ds) (h_id h) = row_phase (after_outcome now ?nx out r)"
    "\<And>i. i \<noteq> h_id h \<Longrightarrow> phase_of (change_held ?P (after_outcome now ?nx out) ds) i = phase_of ds i"
    by (rule phase_change_one [OF assms(2) some, of "h_id h" "after_outcome now ?nx out"])
      (simp add: to_be_settled_def, simp add: after_outcome_def, blast)
  then show ?thesis
    using settled_follows [of "ct_workspace t" "h_id h" r out "dedupes w t h" "h_attempts h" now]
    by (cases "h_id h = i") (auto simp: settled(1) ds')
next
  case elsewhere
  then show ?thesis by (simp add: phase_of_def)
qed

lemma held_run_ids: "held_run w ds evs ds' \<Longrightarrow> distinct (map hd_id (ds_held ds)) \<Longrightarrow> distinct (map hd_id (ds_held ds'))"
  by (induction rule: held_run.induct) (auto intro: held_step_ids)

lemma held_run_follows:
  assumes "held_run w ds evs ds'" and "distinct (map hd_id (ds_held ds))"
  shows "follow_all (phase_of ds i) (events_of i evs) = Some (phase_of ds' i)"
  using assms
proof (induction rule: held_run.induct)
  case (runs ds evs ds' new ds'')
  then show ?case using step_follows [OF runs(2)] held_run_ids [OF runs(1)] by (simp add: follow_all_append)
qed simp

text \<open>
  C25. Every request lives a life of the same small machine. However the answers of people, the marks and
  reports of runtimes, the recovery of what a lost turn left and everything else on the desk are
  interleaved, what happens to one held request is a history the machine follows, from the request's
  state before to its state after.
\<close>
theorem held_history_follows:
  assumes "held_run w ds evs ds'" and "distinct (map hd_id (ds_held ds))"
  shows "follow_all (phase_of ds i) (events_of i evs) = Some (phase_of ds' i) \<and> distinct (map hd_id (ds_held ds'))"
  using held_run_follows [OF assms] held_run_ids [OF assms] by simp

section \<open>What a history can be\<close>

text \<open>Why a request may be sent again: a person said yes or asked for it, or the outcome called for another try.\<close>

fun lets_go_again :: "event \<Rightarrow> bool" where
  "lets_go_again (Said d) \<longleftrightarrow> d = Approve \<or> d = Resend"
| "lets_go_again (Came out k n) \<longleftrightarrow> next_of out n k = Again"
| "lets_go_again _ \<longleftrightarrow> False"

lemma lets_go_again_iff: "lets_go_again e \<longleftrightarrow>
    e = Said Approve \<or> e = Said Resend \<or> (\<exists>out k n. e = Came out k n \<and> next_of out n k = Again)"
  by (cases e) auto

text \<open>Only a try that never left, or one the recipient would dedupe, is tried again unasked.\<close>

lemma next_again: "next_of out n k = Again \<longleftrightarrow>
    n + 1 < MAX_ATTEMPTS \<and> (is_never_sent out \<or> k \<and> (\<exists>m. out = NoAnswer m))"
  by (cases out) (auto simp: try_again_def)

lemma follow_to_yes:
  assumes "follow_all p evs = Some (Yes m)" and "\<forall>n. p \<noteq> Yes n"
  shows "\<exists>ev \<in> set evs. lets_go_again ev"
  using assms
proof (induction p evs arbitrary: m rule: follow_all.induct)
  case (2 p ev evs)
  from 2(2) obtain p' where p: "follow p ev = Some p'" "follow_all p' evs = Some (Yes m)"
    by (auto split: bind_splits)
  show ?case
  proof (cases "\<exists>n. p' = Yes n")
    case True
    then have "lets_go_again ev" using p(1) 2(3)
      by (cases "(p, ev)" rule: follow.cases) (auto split: next_step.splits)
    then show ?thesis by simp
  next
    case False
    then show ?thesis using 2(1) [OF p(1) p(2)] by auto
  qed
qed simp

lemma follow_over: "follow_all Over evs = Some p \<Longrightarrow> evs = []"
  by (cases evs) auto

lemma follow_back: "follow_all p evs = Some p' \<Longrightarrow> p \<noteq> Unheld \<Longrightarrow> p \<noteq> OnHold \<Longrightarrow> p' \<noteq> Unheld \<and> p' \<noteq> OnHold"
proof (induction p evs rule: follow_all.induct)
  case (2 p ev evs)
  then obtain q where q: "follow p ev = Some q" "follow_all q evs = Some p'" by (auto split: bind_splits)
  then have "q \<noteq> Unheld \<and> q \<noteq> OnHold" using 2(3,4)
    by (cases "(p, ev)" rule: follow.cases) (auto split: next_step.splits)
  then show ?case using 2(1) [OF q] by simp
qed simp

lemma follow_Going: "follow p Going = Some q \<Longrightarrow> \<exists>m. p = Yes m \<and> q = OnItsWay m"
  by (cases p) auto

lemma follow_split:
  assumes "follow_all p (xs @ ev # ys) = Some q"
  obtains p1 p2 where "follow_all p xs = Some p1" "follow p1 ev = Some p2" "follow_all p2 ys = Some q"
  using assms by (auto simp: follow_all_append split: bind_splits)

section \<open>Once, and only with a yes\<close>

lemma first_yes: "follow_all p evs = Some (Yes m) \<Longrightarrow> p = Unheld \<or> p = OnHold \<Longrightarrow> Said Approve \<in> set evs"
proof (induction p evs rule: follow_all.induct)
  case (2 p ev evs)
  then obtain q where q: "follow p ev = Some q" "follow_all q evs = Some (Yes m)" by (auto split: bind_splits)
  then have "q = OnHold \<or> ev = Said Approve \<or> q = Over" using 2(3)
    by (cases "(p, ev)" rule: follow.cases) auto
  then show ?case using 2(1) [OF q] follow_over q(2) by fastforce
qed auto

lemma never_approved_twice:
  "follow_all p evs \<noteq> None \<Longrightarrow> p \<noteq> Unheld \<Longrightarrow> p \<noteq> OnHold \<Longrightarrow> Said Approve \<notin> set evs"
proof (induction p evs rule: follow_all.induct)
  case (2 p ev evs)
  then obtain q where q: "follow p ev = Some q" "follow_all q evs \<noteq> None" by (auto split: bind_splits)
  then have "ev \<noteq> Said Approve \<and> q \<noteq> Unheld \<and> q \<noteq> OnHold" using 2(3,4)
    by (cases "(p, ev)" rule: follow.cases) (auto split: next_step.splits)
  then show ?case using 2(1) [OF q(1,2)] by auto
qed simp

text \<open>
  C3. Nothing goes out that nobody approved, and nothing goes out twice by itself. Before a request not
  held at the start is marked as going, a person has approved it; and between two such marks a person
  asked for it to be sent again, or an outcome said the first never left, or that it did and the recipient
  dedupes. Once a request was answered, declined or closed, nothing more happens to it.
\<close>
theorem held_request_goes_once_a_yes:
  assumes "held_run w ds evs ds'" and "distinct (map hd_id (ds_held ds))" and "phase_of ds i = Unheld"
  shows "(events_of i evs = xs @ Going # ys \<longrightarrow> Said Approve \<in> set xs) \<and>
    (events_of i evs = xs @ Going # ys @ Going # zs \<longrightarrow>
       Said Resend \<in> set ys \<or>
       (\<exists>out k n. Came out k n \<in> set ys \<and> (is_never_sent out \<or> k \<and> (\<exists>m. out = NoAnswer m)))) \<and>
    (events_of i evs = xs @ ev # ys \<and> ev \<in> {Said Decline, Said Done, Came (Answered status hs body truncated) k n} \<longrightarrow> ys = [])"
proof -
  note run = held_run_follows [OF assms(1,2), of i, unfolded assms(3)]
  have yes: "Said Approve \<in> set xs" if ev: "events_of i evs = xs @ Going # ys"
  proof -
    obtain p where p: "follow_all Unheld xs = Some p" "follow p Going \<noteq> None"
      using follow_split [OF run [unfolded ev]] by (metis option.distinct(1))
    then obtain m where m: "p = Yes m" using follow_Going by fastforce
    show ?thesis using first_yes p(1) m by blast
  qed
  have again: "Said Resend \<in> set ys \<or>
       (\<exists>out k n. Came out k n \<in> set ys \<and> (is_never_sent out \<or> k \<and> (\<exists>m. out = NoAnswer m)))"
    if ev: "events_of i evs = xs @ Going # ys @ Going # zs"
  proof -
    obtain p1 p2 where p: "follow p1 Going = Some p2" "follow_all p2 (ys @ Going # zs) = Some (phase_of ds' i)"
      using follow_split [OF run [unfolded ev]] by metis
    then obtain m where m: "p2 = OnItsWay m" using follow_Going by blast
    obtain p3 p4 where q: "follow_all p2 ys = Some p3" "follow p3 Going = Some p4" using follow_split [OF p(2)] by metis
    then obtain m' where "p3 = Yes m'" using follow_Going by blast
    then obtain e where e: "e \<in> set ys" "lets_go_again e" using follow_to_yes q(1) m by blast
    moreover have "Said Approve \<notin> set ys" using never_approved_twice q(1) m by blast
    ultimately show ?thesis unfolding lets_go_again_iff next_again by blast
  qed
  have "ys = []"
    if ev: "events_of i evs = xs @ ev # ys" and last: "ev \<in> {Said Decline, Said Done, Came (Answered status hs body truncated) k n}"
  proof -
    obtain p1 p2 where "follow p1 ev = Some p2" "follow_all p2 ys = Some (phase_of ds' i)"
      using follow_split [OF run [unfolded ev]] by metis
    moreover from this(1) last have "p2 = Over" by (cases "(p1, ev)" rule: follow.cases) auto
    ultimately show ?thesis using follow_over by blast
  qed
  then show ?thesis using yes again by blast
qed

section \<open>What a lost turn left\<close>

text \<open>Where a request stands: whose workspace it is in, and how far it has come.\<close>

definition standing :: "desk \<Rightarrow> uuid \<Rightarrow> (uuid \<times> phase) option" where
  "standing ds i = map_option (\<lambda>r. (hd_workspace r, row_phase r)) (find (\<lambda>r. hd_id r = i) (ds_held ds))"

lemma standing_change:
  assumes "\<And>r. hd_id (f r) = hd_id r"
  shows "standing (change_held P f ds) i =
    map_option (\<lambda>r. (hd_workspace (if P r then f r else r), row_phase (if P r then f r else r)))
      (find (\<lambda>r. hd_id r = i) (ds_held ds))"
  using assms by (simp add: standing_def change_held_def find_change option.map_comp comp_def)

lemma standing_ask_again [simp]: "standing (ask_again w now i h unknown out ds) j = standing ds j"
proof -
  have same: "standing (change_held P (\<lambda>r. r\<lparr>hd_item := x\<rparr>) (ds\<lparr>ds_queue := q\<rparr>)) j = standing ds j" for P x q
    by (subst standing_change) (auto simp: standing_def row_phase_def intro!: option.map_cong)
  show ?thesis
    by (auto simp: ask_again_def same split: option.split prod.split sum.split)
qed

lemma row_phase_on_its_way: "row_phase r = OnItsWay m \<longleftrightarrow> hd_state r = ''sending'' \<and> hd_attempts r = m"
  by (auto simp: row_phase_def)

lemma settle_standing:
  assumes "distinct (map hd_id (ds_held ds))" and "standing ds (h_id h) = Some (ct_workspace t, OnItsWay m)"
  shows "standing (snd (settle w now i t h out ds)) j =
    (if j = h_id h then Some (ct_workspace t, after m out (dedupes w t h) (h_attempts h)) else standing ds j)"
proof -
  let ?P = "to_be_settled (ct_workspace t) (h_id h)" and ?nx = "next_of out (h_attempts h) (dedupes w t h)"
  obtain r where r: "find (\<lambda>r. hd_id r = h_id h) (ds_held ds) = Some r" "hd_workspace r = ct_workspace t"
    "hd_state r = ''sending''" "hd_attempts r = m"
    using assms(2) by (auto simp: standing_def row_phase_on_its_way)
  then have P: "?P r" "r \<in> set (ds_held ds)" using find_row_id [OF r(1)] by (auto simp: to_be_settled_def)
  then have some: "filter ?P (ds_held ds) \<noteq> []" by (auto simp: filter_empty_conv)
  have "standing (snd (settle w now i t h out ds)) j = standing (change_held ?P (after_outcome now ?nx out) ds) j"
    using some by (auto simp: settle_def Let_def)
  also have "\<dots> = (if j = h_id h then Some (ct_workspace t, after m out (dedupes w t h) (h_attempts h)) else standing ds j)"
  proof (cases "j = h_id h")
    case True
    have "row_phase r = OnItsWay m" using r(3,4) by (simp add: row_phase_on_its_way)
    then have "row_phase (after_outcome now ?nx out r) = after m out (dedupes w t h) (h_attempts h)"
      using settled_follows [OF P(1), of out "dedupes w t h" "h_attempts h" now] by simp
    then show ?thesis using True r P(1) by (subst standing_change) (auto simp: after_outcome_def)
  next
    case False
    then show ?thesis
      by (subst standing_change) (auto simp: after_outcome_def standing_def to_be_settled_def dest: find_row_id intro!: option.map_cong)
  qed
  finally show ?thesis .
qed

lemma settle_ids [simp]: "map hd_id (ds_held (snd (settle w now i t h out ds))) = map hd_id (ds_held ds)"
  by (auto simp: settle_def Let_def after_outcome_def)

lemma settle_each_standing:
  assumes "distinct (map hd_id (ds_held ds))" and "distinct (map h_id hs)"
    and "\<And>h. h \<in> set hs \<Longrightarrow> standing ds (h_id h) = Some (ct_workspace t, OnItsWay (h_attempts h))"
  shows "(h \<in> set hs \<longrightarrow> standing (fold (\<lambda>h ds. snd (settle w now (fresh (h_id h)) t h out ds)) hs ds) (h_id h) =
      Some (ct_workspace t, after (h_attempts h) out (dedupes w t h) (h_attempts h))) \<and>
    (j \<notin> h_id ` set hs \<longrightarrow>
      standing (fold (\<lambda>h ds. snd (settle w now (fresh (h_id h)) t h out ds)) hs ds) j = standing ds j)"
  using assms
proof (induction hs arbitrary: ds h j)
  case (Cons x xs)
  let ?ds = "snd (settle w now (fresh (h_id x)) t x out ds)"
  note x = settle_standing [OF Cons.prems(1) Cons.prems(3) [of x, simplified], of w now "fresh (h_id x)" out]
  have "standing ?ds (h_id y) = Some (ct_workspace t, OnItsWay (h_attempts y))" if "y \<in> set xs" for y
    using that Cons.prems(2) Cons.prems(3) [of y] x [of "h_id y"] by (auto simp: image_iff)
  then have IH: "(h \<in> set xs \<longrightarrow> standing (fold (\<lambda>h ds. snd (settle w now (fresh (h_id h)) t h out ds)) xs ?ds) (h_id h) =
        Some (ct_workspace t, after (h_attempts h) out (dedupes w t h) (h_attempts h))) \<and>
      (j \<notin> h_id ` set xs \<longrightarrow>
        standing (fold (\<lambda>h ds. snd (settle w now (fresh (h_id h)) t h out ds)) xs ?ds) j = standing ?ds j)" for h j
    using Cons.IH [of ?ds h j] Cons.prems(1,2) by simp
  show ?case using IH [of h j] IH [of x "h_id x"] x Cons.prems(2) by auto
qed simp

lemma read_all_Some: "read_all f xs = Some ys \<Longrightarrow> list_all2 (\<lambda>x y. f x = Some y) xs ys"
  by (induction xs arbitrary: ys) (auto split: option.splits)

lemma read_held_fields:
  "read_held name_of r = Some h \<Longrightarrow> h_id h = hd_id r \<and> h_state h = hd_state r \<and> h_attempts h = hd_attempts r"
  by (auto simp: read_held_def split: option.splits)

lemma in_session_ids:
  assumes "in_session name_of ds ws ss = Some hs" and "distinct (map hd_id (ds_held ds))"
  shows "distinct (map h_id hs)"
    and "h \<in> set hs \<Longrightarrow> \<exists>r \<in> set (ds_held ds). read_held name_of r = Some h \<and> answered_in ws ss r"
proof -
  let ?rows = "sort_key hd_id (filter (answered_in ws ss) (ds_held ds))"
  have read: "list_all2 (\<lambda>r h. read_held name_of r = Some h) ?rows hs"
    using assms(1) unfolding in_session_def by (rule read_all_Some)
  then have "map h_id hs = map hd_id ?rows"
    by (induction rule: list_all2_induct) (auto dest: read_held_fields)
  moreover have "distinct (map hd_id ?rows)" using assms(2) by (auto simp: distinct_map inj_on_def)
  ultimately show "distinct (map h_id hs)" by simp
  assume "h \<in> set hs"
  then obtain n where "n < length hs" "hs ! n = h" by (auto simp: in_set_conv_nth)
  then have "read_held name_of (?rows ! n) = Some h" "n < length ?rows"
    using list_all2_nthD2 [OF read] list_all2_lengthD [OF read] by auto
  moreover from this(2) have "?rows ! n \<in> set ?rows" by (rule nth_mem)
  ultimately show "\<exists>r \<in> set (ds_held ds). read_held name_of r = Some h \<and> answered_in ws ss r" by auto
qed

text \<open>
  What a lost turn was sending is never simply sent again. Once the next turn of the conversation has
  recovered what was left, no request of it stands as going: one the recipient dedupes waits for another
  try, or a person where it was tried as often as it is; every other is in front of a person. Requests
  that were not going stand as they did.
\<close>
theorem lost_send_is_asked_about:
  assumes "in_session (aw_name_of w) ds (ct_workspace t) (ct_session t) = Some hs"
    and "distinct (map hd_id (ds_held ds))" and "h \<in> set hs"
  shows "standing (recover w now fresh t ds) (h_id h) =
    (if \<not> in_flight_held h then standing ds (h_id h)
     else if dedupes w t h \<and> h_attempts h + 1 < MAX_ATTEMPTS then Some (ct_workspace t, Yes (h_attempts h + 1))
     else Some (ct_workspace t, AskedAgain))"
proof -
  let ?lost = "filter in_flight_held hs"
  note ids = in_session_ids [OF assms(1,2)]
  have going: "standing ds (h_id h) = Some (ct_workspace t, OnItsWay (h_attempts h))" if "h \<in> set ?lost" for h
  proof -
    have "h \<in> set hs" using that by simp
    from ids(2) [OF this] obtain r where
      r: "r \<in> set (ds_held ds)" "read_held (aw_name_of w) r = Some h" "answered_in (ct_workspace t) (ct_session t) r"
      by blast
    then show ?thesis using that row_of [OF assms(2) r(1)] read_held_fields [OF r(2)]
      by (simp add: standing_def in_flight_held_def answered_in_def row_phase_on_its_way)
  qed
  have lost: "distinct (map h_id ?lost)" using ids(1) by (simp add: distinct_map_filter)
  note each = settle_each_standing [OF assms(2) lost going, of h w now fresh "NoAnswer LOST_IN_FLIGHT" "h_id h"]
  have "h_id h \<notin> h_id ` set ?lost" if "\<not> in_flight_held h"
    using that ids(1) assms(3) by (auto simp: distinct_map inj_on_def)
  then show ?thesis using each assms(1,3) by (simp add: recover_def try_again_def)
qed

text \<open>
  A request the recipient dedupes, sent three times without an answer, is put in front of a person as one
  that could not be sent, while the model is told that it was.
\<close>

lemma unanswered_send_called_unsent:
  "next_of (NoAnswer m) 2 True = Unsent"
  "\<exists>rest. followup_reason h (Unsent = Unknown) m = h_requires h @ '' was approved, but could not be sent: '' @ rest"
  "\<exists>rest. result_text e method url who (NoAnswer m) = ''Approved by '' @ who @ '' and sent, but no answer came back: '' @ rest"
  by (simp_all add: try_again_def MAX_ATTEMPTS_def followup_reason_def)

section \<open>Witnesses\<close>

definition example_uuids :: "string \<Rightarrow> uuid option" where
  "example_uuids = map_of [(''1'', 1), (''2'', 2), (''3'', 3), (''4'', 4), (''9'', 9)]"

definition desk_world :: api_world where
  "desk_world = \<lparr>aw_outside = toy_outside, aw_parse_uuid = example_uuids, aw_parse_url = \<lambda>_. None,
     aw_jsonb_text = \<lambda>_. [], aw_authorize = \<lambda>_ _. Inr (), aw_name_of = \<lambda>_. Some ''Dana'', aw_agent_of = \<lambda>_. Some 3,
     aw_operations = \<lambda>_ _. Some [], aw_roles_with = \<lambda>_ _. Inr [4]\<rparr>"

definition turn_payload :: json where
  "turn_payload = JObj [(''workspace_id'', JStr ''1''), (''session_id'', JStr ''2''), (''agent_id'', JStr ''3''),
     (''message_id'', JStr ''4'')]"

definition sending_turn :: job where
  "sending_turn = \<lparr>j_id = 8, j_workspace = 1, j_kind = CHAT_TURN, j_payload = turn_payload, j_state = Running,
     attempts = 1, max_attempts = 3, releases = 0, lease_token = Some 9, leased_until = Some 60, run_after = 0,
     cancel_requested_at = None, last_error = None, serial_key = Some ''2'', priority = 10, updated_at = 0\<rparr>"

definition held_charge :: new_held where
  "held_charge = \<lparr>nh_workspace = 1, nh_item = 6, nh_session = 2, nh_job = 8, nh_requires = ''charge'', nh_shape = ''abc'',
     nh_operation = None, nh_method = ''POST'', nh_url = ''https://pay/c'', nh_headers = [(''a'', ''b'')], nh_body = None,
     nh_asker = None\<rparr>"

definition empty_desk :: desk where
  "empty_desk = \<lparr>ds_queue = \<lparr>q_items = [], q_targets = [], q_announced = []\<rparr>, ds_holds = [], ds_jobs = [sending_turn],
     ds_grants = [], ds_held = [], ds_messages = [], ds_live = [], ds_events = []\<rparr>"

definition held_desk :: desk where "held_desk = snd (hold_request 5 held_charge empty_desk)"
definition approved_desk :: desk where "approved_desk = snd (decide_tx 10 1 6 Approve (Some 7) held_desk)"
definition sending_desk :: desk where
  "sending_desk = snd (sending desk_world 11 [(LEASE_HEADER, ''9'')] \<lparr>sn_job = 8, sn_held = 5\<rparr> approved_desk)"

lemma held_desk_rows: "map hd_id (ds_held held_desk) = [5]" "filter (decided_by 1 6 Approve) (ds_held held_desk) = ds_held held_desk"
  by (simp_all add: held_desk_def hold_request_def empty_desk_def held_charge_def decided_by_def)

lemma example_lease:
  "leased_turn (aw_authorize desk_world) (aw_parse_uuid desk_world) (ds_jobs approved_desk) [(LEASE_HEADER, ''9'')] 8 =
     Inr (sending_turn, \<lparr>ct_workspace = 1, ct_session = 2, ct_agent = 3, ct_message = 4, ct_timezone = None, ct_user = None\<rparr>)"
  by (simp add: leased_turn_def lease_from_def desk_world_def approved_desk_def decide_tx_def Let_def change_held_def
      held_desk_def hold_request_def empty_desk_def sending_turn_def get_job_def holds_lease_def read_chat_turn_def
      turn_payload_def uuid_at_def read_optional_def example_uuids_def obj_get_def)

lemma example_sending:
  "sending desk_world 11 [(LEASE_HEADER, ''9'')] \<lparr>sn_job = 8, sn_held = 5\<rparr> approved_desk = (Inr (), sending_desk)"
proof -
  have "filter (going 1 2 5) (ds_held approved_desk) \<noteq> []"
    by (simp add: approved_desk_def decide_tx_def Let_def change_held_def held_desk_def hold_request_def empty_desk_def
        held_charge_def decided_by_def going_def)
  then show ?thesis by (simp add: sending_desk_def sending_def example_lease Let_def)
qed

lemma one_yes_run: "held_run desk_world empty_desk [(5, Raised), (5, Said Approve), (5, Going)] sending_desk"
proof -
  have "held_step desk_world empty_desk [(5, Raised)] held_desk"
    unfolding held_desk_def by (rule held_step.holds) (simp add: empty_desk_def)
  moreover have "map (\<lambda>r. (hd_id r, Said Approve)) (ds_held held_desk) = [(5, Said Approve)]"
    using held_desk_rows(1) by (cases "ds_held held_desk") auto
  then have "held_step desk_world held_desk [(5, Said Approve)] approved_desk"
    using held_step.decides [of desk_world held_desk Approve 1 6 10 "Some 7"]
    by (simp add: approved_desk_def held_desk_rows(2))
  moreover have "held_step desk_world approved_desk [(5, Going)] sending_desk"
    using held_step.goes [OF example_sending] by simp
  ultimately show ?thesis
    using held_run.runs [OF held_run.runs [OF held_run.runs [OF held_run.stays]]] by fastforce
qed

theorem held_history_follows_witness: "phase_of sending_desk 5 = OnItsWay 0"
  using held_history_follows [OF one_yes_run, of 5] by (simp add: empty_desk_def phase_of_def)

theorem held_request_goes_once_a_yes_witness: "Said Approve \<in> set [Raised, Said Approve]"
  using held_request_goes_once_a_yes [OF one_yes_run, where i = 5 and xs = "[Raised, Said Approve]" and ys = "[]"]
  by (simp add: empty_desk_def phase_of_def)

theorem lost_send_is_asked_about_witness:
  "map_option snd (standing (recover desk_world 20 (\<lambda>i. i + 1)
     \<lparr>ct_workspace = 1, ct_session = 2, ct_agent = 3, ct_message = 4, ct_timezone = None, ct_user = None\<rparr> sending_desk) 5) =
   Some AskedAgain"
proof -
  let ?t = "\<lparr>ct_workspace = 1, ct_session = 2, ct_agent = 3, ct_message = 4, ct_timezone = None, ct_user = None\<rparr>"
  let ?h = "\<lparr>h_id = 5, h_item = 6, h_requires = ''charge'', h_shape = ''abc'', h_state = ''sending'', h_attempts = 0,
     h_operation = None, h_method = ''POST'', h_url = ''https://pay/c'', h_headers = [(''a'', ''b'')], h_body = None,
     h_outcome = None, h_settled_at = None, h_approved_by = ''Dana'', h_asker = None\<rparr>"
  have rows: "ds_held sending_desk = [\<lparr>hd_workspace = 1, hd_id = 5, hd_item = 6, hd_session = 2, hd_job = 8,
     hd_requires = ''charge'', hd_shape = ''abc'', hd_operation = None, hd_method = ''POST'', hd_url = ''https://pay/c'',
     hd_headers = headers_json [(''a'', ''b'')], hd_body = None, hd_asker = None, hd_state = ''sending'', hd_attempts = 0,
     hd_outcome = None, hd_approved_by = Some 7, hd_approved_at = Some 10, hd_spent_at = None, hd_settled_at = None,
     hd_sending_job = Some 8, hd_sending_at = Some 11\<rparr>]"
    by (simp add: sending_desk_def sending_def example_lease Let_def)
      (simp add: approved_desk_def decide_tx_def Let_def change_held_def held_desk_def hold_request_def empty_desk_def
        held_charge_def decided_by_def going_def)
  have "in_session (aw_name_of desk_world) sending_desk (ct_workspace ?t) (ct_session ?t) = Some [?h]"
    by (simp add: in_session_def rows answered_in_def read_held_def desk_world_def)
  from lost_send_is_asked_about [OF this, of ?h 20 "\<lambda>i. i + 1"] show ?thesis
    by (simp add: rows in_flight_held_def dedupes_def)
qed

end
