(* ===== verification/WakeNotes.thy ===== *)
theory WakeNotes
  imports HeldRequests
begin

text \<open>
  The note a wait ends with, of \<open>crates/api/src/wake.rs\<close>: what a wakeup carries until it is due, how
  the note is worded, and the statements that write it and hand it to a turn. Writing a moment as a
  clock reads it, as a person says it or as a document carries it is \<open>chrono\<close>'s, an argument.
\<close>

section \<open>What waits\<close>

definition WAKE :: string where "WAKE = ''chat.wake''"
definition SLEEP_ITEM :: string where "SLEEP_ITEM = ''sleep''"
definition SLEEP_HOLDER :: string where "SLEEP_HOLDER = ''sleep''"
definition WAKE_MARK :: string where "WAKE_MARK = ''wake''"
definition LONGEST :: time where "LONGEST = seconds (30 * 24 * 60 * 60)"
definition LONGEST_REASON :: nat where "LONGEST_REASON = 500"

datatype wake_kind = Sleep | Timer

fun wake_kind_text :: "wake_kind \<Rightarrow> string" where
  "wake_kind_text Sleep = ''sleep''"
| "wake_kind_text Timer = ''timer''"

definition read_wake_kind :: "string \<Rightarrow> wake_kind option" where
  "read_wake_kind s = (if s = ''sleep'' then Some Sleep else if s = ''timer'' then Some Timer else None)"

record due =
  du_workspace :: uuid
  du_session :: uuid
  du_agent :: uuid
  du_kind :: wake_kind
  du_reason :: string
  du_set_at :: time
  du_due_at :: time
  du_timezone :: "string option"
  du_item :: "uuid option"
  du_inhibitor :: "uuid option"

record wake_note =
  wn_workspace :: uuid
  wn_session :: uuid
  wn_agent :: uuid
  wn_kind :: wake_kind
  wn_reason :: string
  wn_set_at :: time
  wn_due_at :: time
  wn_timezone :: "string option"
  wn_woken_by :: "string option"

definition note_of :: "due \<Rightarrow> string option \<Rightarrow> wake_note" where
  "note_of d woken_by =
     \<lparr>wn_workspace = du_workspace d, wn_session = du_session d, wn_agent = du_agent d, wn_kind = du_kind d,
      wn_reason = du_reason d, wn_set_at = du_set_at d, wn_due_at = du_due_at d, wn_timezone = du_timezone d,
      wn_woken_by = woken_by\<rparr>"

text \<open>
  What \<open>chrono\<close> supplies: a moment in a zone as a clock shows it and as a person says it, a moment as a
  document carries it and read back, and a moment read from what an agent wrote, with its offset or in a zone.
\<close>

datatype local_reading = NotATime | NoSuchLocal string | Moment time

record calendar =
  cal_clock :: "time \<Rightarrow> string option \<Rightarrow> string"
  cal_when :: "time \<Rightarrow> string option \<Rightarrow> string"
  cal_text :: "time \<Rightarrow> string"
  cal_read :: "string \<Rightarrow> time option"
  cal_exact :: "string \<Rightarrow> time option"
  cal_local :: "string \<Rightarrow> string option \<Rightarrow> local_reading"

section \<open>Its words\<close>

text \<open>A whole number of seconds between two moments, as \<open>num_seconds\<close> counts them: toward zero.\<close>

definition whole_seconds :: "time \<Rightarrow> int" where
  "whole_seconds d = (if d < 0 then - (- d div 1000000000) else d div 1000000000)"

definition span :: "int \<Rightarrow> string" where
  "span secs0 =
     (let secs = max secs0 0;
          (n, unit) = (if secs < 60 then (secs, ''second'')
             else if secs < 90 * 60 then ((secs + 30) div 60, ''minute'')
             else if secs < 36 * 60 * 60 then ((secs + 1800) div 3600, ''hour'')
             else ((secs + 43200) div 86400, ''day'')) in
      int_text n @ '' '' @ unit @ (if n = 1 then [] else ''s''))"

definition with_full_stop :: "string \<Rightarrow> string" where
  "with_full_stop s =
     (if s \<noteq> [] \<and> last s \<in> {CHR ''.'', CHR ''!'', CHR ''?''} then s else s @ ''.'')"

text \<open>One, or all but the last and the last.\<close>

definition listed :: "string list \<Rightarrow> string" where
  "listed ss =
     (case ss of
        [one] \<Rightarrow> one
      | _ \<Rightarrow> with_commas (butlast ss) @ '' and '' @ last ss)"

definition opening_words :: "calendar \<Rightarrow> wake_note \<Rightarrow> time \<Rightarrow> string" where
  "opening_words c n woke_at =
     (case wn_kind n of
        Sleep \<Rightarrow>
          with_full_stop (''You slept from '' @ cal_clock c (wn_set_at n) (wn_timezone n) @ '' to '' @
            cal_clock c woke_at (wn_timezone n) @ '' ('' @ span (whole_seconds (woke_at - wn_set_at n)) @ ''): '' @
            trim (wn_reason n)) @
          (case wn_woken_by n of
             None \<Rightarrow> []
           | Some who \<Rightarrow> '' '' @ who @ '' woke you early; you had asked to sleep until '' @
               cal_clock c (wn_due_at n) (wn_timezone n) @ ''.'')
      | Timer \<Rightarrow>
          with_full_stop (''A timer you set at '' @ cal_clock c (wn_set_at n) (wn_timezone n) @ '' has fired: '' @
            trim (wn_reason n)))"

definition compose :: "calendar \<Rightarrow> wake_note \<Rightarrow> time \<Rightarrow> time list \<Rightarrow> string" where
  "compose c n woke_at queued =
     opening_words c n woke_at @
     (if queued = [] then []
      else
        '' '' @ (if length queued = 1 then ''1 message'' else nat_text (length queued) @ '' messages'') @
        '' arrived while you slept and '' @ (if length queued = 1 then ''is'' else ''are'') @
        '' shown above, sent '' @ listed (map (\<lambda>at. span (whole_seconds (woke_at - at))) queued) @
        '' before you woke. Answer '' @ (if length queued = 1 then ''it'' else ''them together'') @ ''.'')"

section \<open>Writing it\<close>

definition waits_unanswered :: "'m message_row_scheme list \<Rightarrow> uuid \<Rightarrow> 'm message_row_scheme \<Rightarrow> bool" where
  "waits_unanswered ms session_id u \<longleftrightarrow>
     ms_session u = session_id \<and> ms_role u = ''user'' \<and> ms_absorbed_by u = None \<and> ms_user u \<noteq> None \<and>
     \<not> list_ex (\<lambda>r. ms_replies_to r = Some (ms_id u)) ms"

definition unanswered :: "'m message_row_scheme list \<Rightarrow> wake_note \<Rightarrow> 'm message_row_scheme list" where
  "unanswered ms n =
     (if wn_kind n = Sleep then sort_key ms_id (filter (waits_unanswered ms (wn_session n)) ms) else [])"

text \<open>Whose turn it is, and the messages it answers: the first sender's alone.\<close>

definition wake_asker :: "'m message_row_scheme list \<Rightarrow> uuid option" where
  "wake_asker left = (case left of [] \<Rightarrow> None | u # _ \<Rightarrow> ms_user u)"

definition wake_answers :: "'m message_row_scheme list \<Rightarrow> 'm message_row_scheme list" where
  "wake_answers left = filter (\<lambda>u. ms_user u = wake_asker left) left"

definition wake_metadata :: "outside \<Rightarrow> calendar \<Rightarrow> wake_note \<Rightarrow> time \<Rightarrow> uuid list \<Rightarrow> json" where
  "wake_metadata e c n woke_at ids =
     json_object [(WAKE_MARK, json_object
       [(''kind'', JStr (wake_kind_text (wn_kind n))), (''reason'', JStr (wn_reason n)),
        (''set_at'', JStr (cal_text c (wn_set_at n))), (''due_at'', JStr (cal_text c (wn_due_at n))),
        (''woke_at'', JStr (cal_text c woke_at)), (''woken_by'', json_opt JStr (wn_woken_by n)),
        (''answers'', JArr (map (JStr \<circ> uuid_text e) ids))])]"

definition absorb :: "uuid \<Rightarrow> uuid list \<Rightarrow> 'm message_row_scheme list \<Rightarrow> 'm message_row_scheme list" where
  "absorb note_id ids ms =
     map (\<lambda>u. if ms_id u \<in> set ids then u\<lparr>ms_absorbed_by := Some note_id\<rparr> else u) ms"

fun tell_absorbed :: "outside \<Rightarrow> uuid \<Rightarrow> uuid \<Rightarrow> uuid \<Rightarrow> uuid list \<Rightarrow> desk \<Rightarrow> desk" where
  "tell_absorbed e workspace_id session_id note_id [] ds = ds"
| "tell_absorbed e workspace_id session_id note_id (i # is) ds =
     tell_absorbed e workspace_id session_id note_id is
       (append_event workspace_id (Some session_id) ''chat.absorbed''
          (json_object [(''message_id'', JStr (uuid_text e i)), (''absorbed_by'', JStr (uuid_text e note_id))]) ds)"

definition write_note :: "outside \<Rightarrow> calendar \<Rightarrow> time \<Rightarrow> uuid \<Rightarrow> uuid \<Rightarrow> wake_note \<Rightarrow> desk \<Rightarrow> uuid \<times> desk" where
  "write_note e c woke_at note_id job_id n ds =
     (let left = unanswered (ds_messages ds) n;
          queued = wake_answers left;
          ids = map ms_id queued;
          content = compose c n woke_at (map ms_created queued);
          metadata = wake_metadata e c n woke_at ids;
          payload = chat_turn_json e \<lparr>ct_workspace = wn_workspace n, ct_session = wn_session n, ct_agent = wn_agent n,
            ct_message = note_id, ct_timezone = wn_timezone n, ct_user = wake_asker left\<rparr>;
          note = \<lparr>ms_id = note_id, ms_session = wn_session n, ms_role = ''user'', ms_content = content, ms_user = None,
            ms_metadata = metadata, ms_created = woke_at, ms_replies_to = None, ms_absorbed_by = None\<rparr>;
          ds1 = ds\<lparr>ds_messages := absorb note_id ids (ds_messages ds @ [note]),
            ds_live := (wn_session n, woke_at + seconds 300) # filter (\<lambda>(s, _). s \<noteq> wn_session n) (ds_live ds),
            ds_jobs := snd (enqueue woke_at job_id (wn_workspace n) CHAT_TURN payload None
              (Some (uuid_text e (wn_session n)))
              (if ids = [] then PRIORITY_BACKGROUND else PRIORITY_REALTIME) (ds_jobs ds))\<rparr>;
          ds2 = append_event (wn_workspace n) (Some (wn_session n)) ''chat.message''
            (json_object [(''id'', JStr (uuid_text e note_id)), (''session_id'', JStr (uuid_text e (wn_session n))),
               (''role'', JStr ''user''), (''content'', JStr content), (''metadata'', metadata)]) ds1 in
      (note_id, tell_absorbed e (wn_workspace n) (wn_session n) note_id ids ds2))"

section \<open>What it leaves alone\<close>

lemma append_event_simps [simp]:
  "ds_queue (append_event ws s k p ds) = ds_queue ds" "ds_holds (append_event ws s k p ds) = ds_holds ds"
  "ds_jobs (append_event ws s k p ds) = ds_jobs ds" "ds_grants (append_event ws s k p ds) = ds_grants ds"
  "ds_held (append_event ws s k p ds) = ds_held ds" "ds_messages (append_event ws s k p ds) = ds_messages ds"
  by (simp_all add: append_event_def)

lemma tell_absorbed_simps [simp]:
  "ds_queue (tell_absorbed e ws s n is ds) = ds_queue ds" "ds_holds (tell_absorbed e ws s n is ds) = ds_holds ds"
  "ds_jobs (tell_absorbed e ws s n is ds) = ds_jobs ds" "ds_grants (tell_absorbed e ws s n is ds) = ds_grants ds"
  "ds_held (tell_absorbed e ws s n is ds) = ds_held ds" "ds_messages (tell_absorbed e ws s n is ds) = ds_messages ds"
  by (induction e ws s n "is" ds rule: tell_absorbed.induct) simp_all

lemma write_note_simps [simp]:
  "ds_queue (snd (write_note e c t ni ji n ds)) = ds_queue ds"
  "ds_holds (snd (write_note e c t ni ji n ds)) = ds_holds ds"
  "ds_grants (snd (write_note e c t ni ji n ds)) = ds_grants ds"
  "ds_held (snd (write_note e c t ni ji n ds)) = ds_held ds"
  by (simp_all add: write_note_def Let_def)

lemma write_note_messages:
  "ds_messages (snd (write_note e c t ni ji n ds)) =
     (let ms = ds_messages ds; queued = wake_answers (unanswered ms n) in
      absorb ni (map ms_id queued) (ms @
        [\<lparr>ms_id = ni, ms_session = wn_session n, ms_role = ''user'', ms_content = compose c n t (map ms_created queued),
          ms_user = None, ms_metadata = wake_metadata e c n t (map ms_id queued), ms_created = t, ms_replies_to = None,
          ms_absorbed_by = None\<rparr>]))"
  by (simp add: write_note_def Let_def)

lemma write_note_jobs:
  "ds_jobs (snd (write_note e c t ni ji n ds)) =
     snd (enqueue t ji (wn_workspace n) CHAT_TURN
       (chat_turn_json e \<lparr>ct_workspace = wn_workspace n, ct_session = wn_session n, ct_agent = wn_agent n,
            ct_message = ni, ct_timezone = wn_timezone n, ct_user = wake_asker (unanswered (ds_messages ds) n)\<rparr>)
       None (Some (uuid_text e (wn_session n)))
       (if wake_answers (unanswered (ds_messages ds) n) = [] then PRIORITY_BACKGROUND else PRIORITY_REALTIME) (ds_jobs ds))"
  by (simp add: write_note_def Let_def)

section \<open>Whom it answers\<close>

definition answers_of :: "'m message_row_scheme list \<Rightarrow> wake_note \<Rightarrow> uuid option \<Rightarrow> 'm message_row_scheme \<Rightarrow> bool" where
  "answers_of ms n who u \<longleftrightarrow> wn_kind n = Sleep \<and> waits_unanswered ms (wn_session n) u \<and> ms_user u = who"

lemma set_unanswered:
  "set (unanswered ms n) = {u \<in> set ms. wn_kind n = Sleep \<and> waits_unanswered ms (wn_session n) u}"
  by (auto simp: unanswered_def)

lemma set_wake_answers:
  "set (wake_answers (unanswered ms n)) = {u \<in> set ms. answers_of ms n (wake_asker (unanswered ms n)) u}"
  by (auto simp: wake_answers_def set_unanswered answers_of_def)

lemma wake_asker_first:
  assumes "u \<in> set (unanswered ms n)"
  shows "\<exists>v \<in> set (unanswered ms n). ms_user v = wake_asker (unanswered ms n) \<and> ms_id v \<le> ms_id u"
proof -
  have "sorted (map ms_id (unanswered ms n))" by (simp add: unanswered_def)
  then show ?thesis using assms by (cases "unanswered ms n") (auto simp: wake_asker_def)
qed

lemma absorb_answers:
  assumes "distinct (map ms_id ms)" "note_id \<notin> ms_id ` set ms"
  shows "absorb note_id (map ms_id (wake_answers (unanswered ms n))) ms =
    map (\<lambda>u. if answers_of ms n (wake_asker (unanswered ms n)) u then u\<lparr>ms_absorbed_by := Some note_id\<rparr> else u) ms"
proof -
  have "ms_id u \<in> ms_id ` set (wake_answers (unanswered ms n)) \<longleftrightarrow>
      answers_of ms n (wake_asker (unanswered ms n)) u" if "u \<in> set ms" for u
  proof -
    have "v = u" if "v \<in> set ms" "ms_id v = ms_id u" for v
      using assms(1) that \<open>u \<in> set ms\<close> by (auto simp: distinct_map inj_on_def)
    then show ?thesis using that by (auto simp: set_wake_answers image_iff)
  qed
  then show ?thesis by (simp add: absorb_def)
qed

text \<open>
  Whom a note answers: of the messages nobody answered or took while the agent slept, those of one
  person, the one who wrote first; those are marked as taken by it and its turn is that person's; every
  other message is as it was, and so is every message where what ended was a timer. The note is nobody's.
\<close>
theorem note_answers_one_person:
  assumes "distinct (map ms_id (ds_messages ds))" and "note_id \<notin> ms_id ` set (ds_messages ds)"
  shows "\<exists>who note j. ds_messages (snd (write_note e c woke_at note_id job_id n ds)) =
      map (\<lambda>u. if answers_of (ds_messages ds) n who u then u\<lparr>ms_absorbed_by := Some note_id\<rparr> else u)
        (ds_messages ds) @ [note] \<and>
    ms_id note = note_id \<and> ms_user note = None \<and> ms_absorbed_by note = None \<and>
    ds_jobs (snd (write_note e c woke_at note_id job_id n ds)) = ds_jobs ds @ [j] \<and>
    j_payload j = chat_turn_json e \<lparr>ct_workspace = wn_workspace n, ct_session = wn_session n, ct_agent = wn_agent n,
      ct_message = note_id, ct_timezone = wn_timezone n, ct_user = who\<rparr> \<and>
    (\<forall>u \<in> set (ds_messages ds). wn_kind n = Sleep \<and> waits_unanswered (ds_messages ds) (wn_session n) u \<longrightarrow>
       (\<exists>v \<in> set (ds_messages ds). answers_of (ds_messages ds) n who v \<and> ms_id v \<le> ms_id u))"
proof -
  let ?ms = "ds_messages ds"
  let ?who = "wake_asker (unanswered ?ms n)"
  have fresh: "note_id \<notin> ms_id ` set (wake_answers (unanswered ?ms n))"
    using assms(2) by (auto simp: set_wake_answers)
  have split: "absorb note_id ids (?ms @ [x]) = absorb note_id ids ?ms @ absorb note_id ids [x]" for ids x
    by (simp add: absorb_def)
  have only: "absorb note_id (map ms_id (wake_answers (unanswered ?ms n))) [x] = [x]" if "ms_id x = note_id" for x :: message_row
    using fresh that by (auto simp: absorb_def)
  obtain x where x: "ds_messages (snd (write_note e c woke_at note_id job_id n ds)) =
       absorb note_id (map ms_id (wake_answers (unanswered ?ms n))) (?ms @ [x])"
    "ms_id x = note_id" "ms_user x = None" "ms_absorbed_by x = None"
    by (rule that, unfold write_note_messages Let_def, rule refl) simp_all
  obtain j where j: "ds_jobs (snd (write_note e c woke_at note_id job_id n ds)) = ds_jobs ds @ [j]"
    "j_payload j = chat_turn_json e \<lparr>ct_workspace = wn_workspace n, ct_session = wn_session n, ct_agent = wn_agent n,
       ct_message = note_id, ct_timezone = wn_timezone n, ct_user = ?who\<rparr>"
    by (rule that, unfold write_note_jobs enqueue_def snd_conv, rule refl) simp
  have first: "\<exists>v \<in> set ?ms. answers_of ?ms n ?who v \<and> ms_id v \<le> ms_id u"
    if "u \<in> set ?ms" "wn_kind n = Sleep" "waits_unanswered ?ms (wn_session n) u" for u
    using wake_asker_first [of u ?ms n] that by (auto simp: set_unanswered answers_of_def)
  have "ds_messages (snd (write_note e c woke_at note_id job_id n ds)) =
      map (\<lambda>u. if answers_of ?ms n ?who u then u\<lparr>ms_absorbed_by := Some note_id\<rparr> else u) ?ms @ [x]"
    unfolding x(1) split only [OF x(2)] absorb_answers [OF assms] by simp
  then show ?thesis using x(2-4) j first by blast
qed

definition toy_calendar :: calendar where
  "toy_calendar = \<lparr>cal_clock = (\<lambda>t z. ''noon''), cal_when = (\<lambda>t z. ''noon''), cal_text = (\<lambda>t. ''noon''),
     cal_read = (\<lambda>s. None), cal_exact = (\<lambda>s. None), cal_local = (\<lambda>s z. NotATime)\<rparr>"

definition slept_desk :: desk where
  "slept_desk = \<lparr>ds_queue = \<lparr>q_items = [], q_targets = [], q_announced = []\<rparr>, ds_holds = [], ds_jobs = [],
     ds_grants = [], ds_held = [],
     ds_messages =
       [\<lparr>ms_id = 1, ms_session = 2, ms_role = ''user'', ms_content = ''Ready?'', ms_user = Some 7, ms_metadata = JObj [],
          ms_created = 0, ms_replies_to = None, ms_absorbed_by = None\<rparr>,
        \<lparr>ms_id = 3, ms_session = 2, ms_role = ''user'', ms_content = ''Hello?'', ms_user = Some 8, ms_metadata = JObj [],
          ms_created = 1, ms_replies_to = None, ms_absorbed_by = None\<rparr>],
     ds_live = [], ds_events = []\<rparr>"

definition deposit_note :: wake_note where
  "deposit_note = \<lparr>wn_workspace = 1, wn_session = 2, wn_agent = 4, wn_kind = Sleep, wn_reason = ''The deposit'',
     wn_set_at = 0, wn_due_at = 600, wn_timezone = None, wn_woken_by = None\<rparr>"

lemma note_answers_one_person_witness:
  "\<exists>who note. ds_messages (snd (write_note toy_outside toy_calendar 9 5 6 deposit_note slept_desk)) =
      map (\<lambda>u. if answers_of (ds_messages slept_desk) deposit_note who u then u\<lparr>ms_absorbed_by := Some 5\<rparr> else u)
        (ds_messages slept_desk) @ [note] \<and> ms_user note = None"
proof -
  have "distinct (map ms_id (ds_messages slept_desk))" "5 \<notin> ms_id ` set (ds_messages slept_desk)"
    by (simp_all add: slept_desk_def)
  from note_answers_one_person [OF this, of toy_outside toy_calendar 9 6 deposit_note] show ?thesis by blast
qed

end
