(* ===== verification/Approvals.thy ===== *)
theory Approvals
  imports WakeNotes
begin

text \<open>
  Settling what waits for a person together with all that hangs on it: the grants of
  \<open>crates/api/src/grant.rs\<close>, and \<open>settle_and_release\<close> of \<open>actions/postgres.rs\<close>, the one transaction in
  which an item is settled, its hold lifted, its turns given back, its grant written, its held request
  decided and its note, where it stands for a sleep, written. A transaction that fails leaves what it
  found.
\<close>

section \<open>What a gate's item records\<close>

record covers_offer =
  co_field :: string
  co_unit :: string

record gate_record =
  gk_requires :: string
  gk_shape :: string
  gk_job :: uuid
  gk_session :: uuid
  gk_covers :: "covers_offer option"

text \<open>
  As serde reads a struct: of an object by name, what is not named left out; of an array by place, with
  no more elements than there are fields.
\<close>

fun as_named :: "string list \<Rightarrow> json \<Rightarrow> json option" where
  "as_named places (JObj o1) = Some (JObj o1)"
| "as_named places (JArr vs) = (if length vs \<le> length places then Some (json_object (zip places vs)) else None)"
| "as_named places _ = None"

definition text_at :: "json \<Rightarrow> string \<Rightarrow> string option" where
  "text_at v k = Option.bind (json_get v k) as_str"

definition read_covers :: "json \<Rightarrow> covers_offer option" where
  "read_covers v0 =
     (case as_named [''field'', ''unit''] v0 of
        None \<Rightarrow> None
      | Some v \<Rightarrow>
          (case (text_at v ''field'', text_at v ''unit'') of
             (Some f, Some u) \<Rightarrow> Some \<lparr>co_field = f, co_unit = u\<rparr>
           | _ \<Rightarrow> None))"

definition read_gate_record :: "(string \<Rightarrow> uuid option) \<Rightarrow> json \<Rightarrow> gate_record option" where
  "read_gate_record parse_uuid v0 =
     (case as_named [''requires'', ''shape'', ''job_id'', ''session_id'', ''covers''] v0 of
        None \<Rightarrow> None
      | Some v \<Rightarrow>
          (case (text_at v ''requires'', text_at v ''shape'', uuid_at parse_uuid v ''job_id'',
                 uuid_at parse_uuid v ''session_id'',
                 (case json_get v ''covers'' of
                    None \<Rightarrow> Some None
                  | Some JNull \<Rightarrow> Some None
                  | Some c \<Rightarrow> map_option Some (read_covers c))) of
             (Some rq, Some sh, Some j, Some s, Some c) \<Rightarrow>
               Some \<lparr>gk_requires = rq, gk_shape = sh, gk_job = j, gk_session = s, gk_covers = c\<rparr>
           | _ \<Rightarrow> None))"

section \<open>Grants\<close>

record new_grant =
  ng_workspace :: uuid
  ng_session :: uuid
  ng_job :: uuid
  ng_requires :: string
  ng_extent :: extent
  ng_keyed_on :: string
  ng_granted_by :: "uuid option"

definition grant_row_of :: "time \<Rightarrow> uuid \<Rightarrow> new_grant \<Rightarrow> grant_row" where
  "grant_row_of now i g =
     \<lparr>gw_workspace = ng_workspace g, gw_id = i, gw_session = ng_session g, gw_job = ng_job g,
      gw_requires = ng_requires g, gw_extent = extent_text (ng_extent g), gw_keyed_on = ng_keyed_on g,
      gw_granted_by = ng_granted_by g, gw_granted_at = now, gw_spent_at = None\<rparr>"

definition write_grant :: "time \<Rightarrow> uuid \<Rightarrow> new_grant \<Rightarrow> desk \<Rightarrow> uuid \<times> desk" where
  "write_grant now i g ds = (i, ds\<lparr>ds_grants := ds_grants ds @ [grant_row_of now i g]\<rparr>)"

text \<open>A grant whose extent this build does not know is left out, never read as a wider one.\<close>

definition granted_row :: "grant_row \<Rightarrow> granted option" where
  "granted_row r =
     map_option (\<lambda>x. \<lparr>granted_requires = gw_requires r, granted_extent = x, keyed_on = gw_keyed_on r\<rparr>)
       (extent_parse (gw_extent r))"

definition live_for :: "grant_row list \<Rightarrow> uuid \<Rightarrow> uuid \<Rightarrow> granted list" where
  "live_for rows workspace_id job_id =
     List.map_filter granted_row
       (sort_key gw_granted_at (filter (\<lambda>r. gw_workspace r = workspace_id \<and> gw_job r = job_id \<and> gw_spent_at r = None) rows))"

definition was_answered :: "(json \<Rightarrow> string) \<Rightarrow> outside \<Rightarrow> queue \<Rightarrow> uuid \<Rightarrow> uuid \<Rightarrow> bool" where
  "was_answered jsonb_text e q workspace_id job_id \<longleftrightarrow>
     list_ex (\<lambda>r. it_workspace r = workspace_id \<and>
       payload_text jsonb_text (it_payload r) ''job_id'' = Some (uuid_text e job_id) \<and>
       is_approval (it_kind r) \<and> it_state r \<in> {''resolved'', ''cancelled''}) (q_items q)"

section \<open>Settling and releasing\<close>

record settling =
  se_workspace :: uuid
  se_item :: uuid
  se_state :: item_state
  se_by :: "uuid option"
  se_note :: "string option"
  se_hold :: "uuid option"
  se_grant :: "new_grant option"
  se_wake :: "wake_note option"
  se_held :: "held_decision option"

text \<open>The names the statements write under, each fresh: a note, its turn, a grant, and what is recorded in a conversation.\<close>

record fresh_ids =
  fr_note :: uuid
  fr_job :: uuid
  fr_grant :: uuid
  fr_message :: uuid

definition settle_item :: "time \<Rightarrow> settling \<Rightarrow> queue \<Rightarrow> queue" where
  "settle_item now s q =
     change_items (to_settle (se_workspace s) (se_item s)) (settled_row now (se_state s) (se_by s) (se_note s)) q"

text \<open>The hold read for its scope, lifted, and what its scope says given back.\<close>

definition lift_hold :: "(string \<Rightarrow> uuid option) \<Rightarrow> time \<Rightarrow> uuid option \<Rightarrow> desk \<Rightarrow> action_error + (nat \<times> desk)" where
  "lift_hold parse_uuid now hold ds =
     (case hold of
        None \<Rightarrow> Inr (0, ds)
      | Some h \<Rightarrow>
     (case find (\<lambda>r. hr_id r = h) (ds_holds ds) of
        None \<Rightarrow> Inr (0, ds)
      | Some r \<Rightarrow>
     (case read_scope r of
        Inl _ \<Rightarrow> Inl StoreFailed
      | Inr sc \<Rightarrow>
          (let (n, jobs) = resume_for_scope parse_uuid now sc (ds_jobs ds) in
           Inr (n, ds\<lparr>ds_holds := filter (\<lambda>r. hr_id r \<noteq> h) (ds_holds ds), ds_jobs := jobs\<rparr>)))))"

definition write_wake :: "outside \<Rightarrow> calendar \<Rightarrow> time \<Rightarrow> fresh_ids \<Rightarrow> wake_note option \<Rightarrow> desk \<Rightarrow> desk" where
  "write_wake e c now fr wake ds =
     (case wake of None \<Rightarrow> ds | Some n \<Rightarrow> snd (write_note e c now (fr_note fr) (fr_job fr) n ds))"

definition write_grants :: "time \<Rightarrow> fresh_ids \<Rightarrow> new_grant option \<Rightarrow> desk \<Rightarrow> desk" where
  "write_grants now fr grant ds =
     (case grant of None \<Rightarrow> ds | Some g \<Rightarrow> snd (write_grant now (fr_grant fr) g ds))"

definition write_decision :: "time \<Rightarrow> settling \<Rightarrow> desk \<Rightarrow> desk" where
  "write_decision now s ds =
     (case se_held s of None \<Rightarrow> ds | Some d \<Rightarrow> snd (decide_tx now (se_workspace s) (se_item s) d (se_by s) ds))"

definition settle_and_release ::
  "outside \<Rightarrow> calendar \<Rightarrow> (string \<Rightarrow> uuid option) \<Rightarrow> time \<Rightarrow> fresh_ids \<Rightarrow> settling \<Rightarrow> desk \<Rightarrow> (action_error + nat) \<times> desk" where
  "settle_and_release e c parse_uuid now fr s ds =
     (if item_is_open (se_state s)
      then (Inl (InvalidItem ''settling an item requires a state that is not pending''), ds)
      else if filter (to_settle (se_workspace s) (se_item s)) (q_items (ds_queue ds)) = []
      then (Inl (not_settled (se_workspace s) (se_item s) (ds_queue ds)), ds)
      else
        (let ds1 = write_wake e c now fr (se_wake s) (ds\<lparr>ds_queue := settle_item now s (ds_queue ds)\<rparr>) in
         (case lift_hold parse_uuid now (se_hold s) ds1 of
            Inl err \<Rightarrow> (Inl err, ds)
          | Inr (resumed, ds2) \<Rightarrow>
              (let ds3 = write_decision now s (write_grants now fr (se_grant s) ds2);
                   heard = Targeted [se_item s] (targets_of (q_targets (ds_queue ds3)) (se_workspace s) (se_item s)) in
               (Inr resumed, ds3\<lparr>ds_queue := announce (se_workspace s) heard (ds_queue ds3)\<rparr>)))))"

section \<open>All of it or none\<close>

lemma write_wake_simps [simp]:
  "ds_queue (write_wake e c t fr w ds) = ds_queue ds" "ds_holds (write_wake e c t fr w ds) = ds_holds ds"
  "ds_grants (write_wake e c t fr w ds) = ds_grants ds" "ds_held (write_wake e c t fr w ds) = ds_held ds"
  "write_wake e c t fr None ds = ds"
  by (simp_all add: write_wake_def split: option.split)

lemma write_grants_simps [simp]:
  "ds_queue (write_grants t fr g ds) = ds_queue ds" "ds_holds (write_grants t fr g ds) = ds_holds ds"
  "ds_jobs (write_grants t fr g ds) = ds_jobs ds" "ds_held (write_grants t fr g ds) = ds_held ds"
  "ds_messages (write_grants t fr g ds) = ds_messages ds"
  "write_grants t fr None ds = ds"
  by (simp_all add: write_grants_def write_grant_def split: option.split)

lemma write_decision_simps [simp]:
  "ds_queue (write_decision t s ds) = ds_queue ds" "ds_holds (write_decision t s ds) = ds_holds ds"
  "ds_jobs (write_decision t s ds) = ds_jobs ds" "ds_grants (write_decision t s ds) = ds_grants ds"
  "ds_messages (write_decision t s ds) = ds_messages ds"
  by (simp_all add: write_decision_def decide_tx_def change_held_def Let_def split: option.split)

lemma lift_hold_Inr:
  "lift_hold p t h ds = Inr (n, ds') \<Longrightarrow>
     ds_queue ds' = ds_queue ds \<and> ds_grants ds' = ds_grants ds \<and> ds_held ds' = ds_held ds \<and>
     ds_messages ds' = ds_messages ds \<and>
     ds_holds ds' = (case h of None \<Rightarrow> ds_holds ds | Some i \<Rightarrow> filter (\<lambda>r. hr_id r \<noteq> i) (ds_holds ds))"
  by (auto simp: lift_hold_def find_None_iff split: option.splits sum.splits prod.splits intro!: filter_True [symmetric])

lemma settle_and_release_Inl:
  "settle_and_release e c p now fr s ds = (Inl err, ds') \<Longrightarrow> ds' = ds"
  by (auto simp: settle_and_release_def Let_def split: if_splits sum.splits prod.splits)

lemma settle_and_release_Inr:
  assumes "settle_and_release e c p now fr s ds = (Inr n, ds')"
  obtains ds1 ds2 where
    "\<not> item_is_open (se_state s)"
    "filter (to_settle (se_workspace s) (se_item s)) (q_items (ds_queue ds)) \<noteq> []"
    "ds1 = write_wake e c now fr (se_wake s) (ds\<lparr>ds_queue := settle_item now s (ds_queue ds)\<rparr>)"
    "lift_hold p now (se_hold s) ds1 = Inr (n, ds2)"
    "ds' = (let ds3 = write_decision now s (write_grants now fr (se_grant s) ds2) in
       ds3\<lparr>ds_queue := announce (se_workspace s)
         (Targeted [se_item s] (targets_of (q_targets (ds_queue ds3)) (se_workspace s) (se_item s))) (ds_queue ds3)\<rparr>)"
  using assms by (auto simp: settle_and_release_def Let_def split: if_splits sum.splits prod.splits)

lemma settled_row_not_pending: "\<not> item_is_open st \<Longrightarrow> it_state (settled_row now st by_whom msg r) \<noteq> ''pending''"
  by (cases st) (simp_all add: settled_row_def item_is_open_def)

lemma nothing_left_to_settle:
  assumes "\<not> item_is_open (se_state s)"
  shows "filter (to_settle (se_workspace s) (se_item s)) (q_items (settle_item now s q)) = []"
  using settled_row_not_pending [OF assms]
  by (auto simp: settle_item_def filter_empty_conv to_settle_def)

definition decided_rows :: "time \<Rightarrow> settling \<Rightarrow> held_row list \<Rightarrow> held_row list" where
  "decided_rows now s rows = ds_held (write_decision now s \<lparr>ds_queue = \<lparr>q_items = [], q_targets = [], q_announced = []\<rparr>,
     ds_holds = [], ds_jobs = [], ds_grants = [], ds_held = rows, ds_messages = [], ds_live = [], ds_events = []\<rparr>)"

lemma held_write_decision: "ds_held (write_decision now s ds) = decided_rows now s (ds_held ds)"
  by (simp add: write_decision_def decided_rows_def decide_tx_def change_held_def Let_def split: option.split)

lemma write_grants_rows:
  "ds_grants (write_grants now fr g ds) = ds_grants ds @ map (grant_row_of now (fr_grant fr)) (option_list g)"
  by (simp add: write_grants_def write_grant_def option_list_def split: option.split)

text \<open>What a hold lifted gives back: the turns parked where it held, which are a workspace's, an agent's or a conversation's.\<close>

definition parked_under :: "(string \<Rightarrow> uuid option) \<Rightarrow> hold_scope \<Rightarrow> job \<Rightarrow> bool" where
  "parked_under p sc j \<longleftrightarrow> j_state j = Parked \<and>
     (case sc of
        PlatformScope \<Rightarrow> False
      | WorkspaceScope ws \<Rightarrow> j_workspace j = ws
      | AgentScope ws ag \<Rightarrow> j_workspace j = ws \<and> uuid_at p (j_payload j) ''agent_id'' = Some ag
      | SessionScope ws ss \<Rightarrow> j_workspace j = ws \<and> uuid_at p (j_payload j) ''session_id'' = Some ss)"

definition kept_by :: "(string \<Rightarrow> uuid option) \<Rightarrow> hold_row list \<Rightarrow> uuid option \<Rightarrow> job \<Rightarrow> bool" where
  "kept_by p rows hold j \<longleftrightarrow>
     (case hold of
        None \<Rightarrow> False
      | Some h \<Rightarrow>
          (case find (\<lambda>r. hr_id r = h) rows of
             None \<Rightarrow> False
           | Some r \<Rightarrow> (case read_scope r of Inl _ \<Rightarrow> False | Inr sc \<Rightarrow> parked_under p sc j)))"

definition given_back :: "time \<Rightarrow> job \<Rightarrow> job" where
  "given_back now j = j\<lparr>j_state := Pending, run_after := now, last_error := None, updated_at := now\<rparr>"

lemma resume_rows:
  "resume_for_scope p now sc db =
     (length (filter (parked_under p sc) db), map (\<lambda>j. if parked_under p sc j then given_back now j else j) db)"
  by (cases sc) (simp_all add: parked_under_def [abs_def] resume_parked_def Let_def returning_def update_rows_def given_back_def)

lemma lift_hold_jobs:
  assumes "lift_hold p now hold ds = Inr (n, ds')"
  shows "n = length (filter (kept_by p (ds_holds ds) hold) (ds_jobs ds)) \<and>
    ds_jobs ds' = map (\<lambda>j. if kept_by p (ds_holds ds) hold j then given_back now j else j) (ds_jobs ds)"
proof (cases "Option.bind hold (\<lambda>h. find (\<lambda>r. hr_id r = h) (ds_holds ds))")
  case None
  then have "kept_by p (ds_holds ds) hold = (\<lambda>j. False)" "n = 0" "ds' = ds"
    using assms by (auto simp: lift_hold_def kept_by_def split: option.splits)
  then show ?thesis by simp
next
  case (Some r)
  then obtain h sc where h: "hold = Some h" "find (\<lambda>r. hr_id r = h) (ds_holds ds) = Some r" "read_scope r = Inr sc"
    using assms by (auto simp: lift_hold_def bind_eq_Some_conv split: sum.splits)
  then have "kept_by p (ds_holds ds) hold = parked_under p sc" by (simp add: kept_by_def fun_eq_iff)
  then show ?thesis using assms h by (auto simp: lift_hold_def resume_rows)
qed

lemma kept_by_parked: "kept_by p rows hold j \<Longrightarrow> j_state j = Parked"
proof -
  have "parked_under p sc j \<Longrightarrow> j_state j = Parked" for sc by (simp add: parked_under_def)
  then show "kept_by p rows hold j \<Longrightarrow> j_state j = Parked" by (auto simp: kept_by_def split: option.splits sum.splits)
qed

lemma write_wake_jobs:
  "\<exists>queued. ds_jobs (write_wake e c now fr wake ds) = ds_jobs ds @ queued \<and> length queued = length (option_list wake) \<and>
     list_all (\<lambda>j. j_state j = Pending) queued"
  by (cases wake) (simp_all add: write_wake_def write_note_jobs enqueue_def option_list_def)

text \<open>Everybody a question is addressed to hears that it was settled.\<close>

definition hears :: "announcement \<Rightarrow> target \<Rightarrow> bool" where
  "hears news t \<longleftrightarrow> (case t of RoleTarget i \<Rightarrow> i \<in> set (an_roles news) | UserTarget i \<Rightarrow> i \<in> set (an_users news))"

lemma announce_heard:
  "\<exists>news. q_announced (announce ws (Targeted ids ts) q) = q_announced q @ [news] \<and> an_workspace news = ws \<and>
     (\<forall>t. hears news t \<longleftrightarrow> t \<in> set ts)"
proof -
  have "i \<in> set (List.map_filter target_role ts) \<longleftrightarrow> RoleTarget i \<in> set ts" for i
    by (force simp: map_filter_def split: target.splits elim: target_role.elims)
  moreover have "i \<in> set (List.map_filter target_user ts) \<longleftrightarrow> UserTarget i \<in> set ts" for i
    by (force simp: map_filter_def split: target.splits elim: target_user.elims)
  ultimately show ?thesis by (simp add: announce_def hears_def split: target.split)
qed


section \<open>A question, and its answer\<close>

text \<open>Text of the few names in play, and back.\<close>

definition few_names :: "(uuid \<times> string) list" where
  "few_names = [(3, ''h''), (7, ''j''), (8, ''s''), (9, ''i'')]"

definition few_text :: "uuid \<Rightarrow> string" where
  "few_text u = (case map_of few_names u of Some s \<Rightarrow> s | None \<Rightarrow> ''other'')"

definition few_parse :: "string \<Rightarrow> uuid option" where
  "few_parse s = map_of (map (\<lambda>(u, s). (s, u)) few_names) s"

definition charge_question :: item_row where
  "charge_question = \<lparr>it_workspace = 2, it_id = 9, it_kind = ''approval.charge'', it_event = None, it_inhibitor = Some 3,
     it_payload = JObj [(''inhibitor_id'', JStr ''h''), (''job_id'', JStr ''j''), (''requires'', JStr ''charge''),
       (''session_id'', JStr ''s''), (''shape'', JStr ''d'')],
     it_state = ''pending'', it_resolved_by = None, it_note = None, it_resolved_at = None, it_created = 0, it_expires = None\<rparr>"

definition session_hold :: hold_row where
  "session_hold = \<lparr>hr_id = 3, hr_level = ''session'', hr_workspace = Some 2, hr_agent = None, hr_session = Some 8,
     hr_strength = ''suspended'', hr_reason = ''a charge'', hr_held_by = ''gate'', hr_created = 0\<rparr>"

definition waiting_turn :: job where
  "waiting_turn = \<lparr>j_id = 7, j_workspace = 2, j_kind = CHAT_TURN, j_payload = JObj [(''session_id'', JStr ''s'')],
     j_state = Parked, attempts = 1, max_attempts = 3, releases = 0, lease_token = None, leased_until = None,
     run_after = 0, cancel_requested_at = None, last_error = None, serial_key = None, priority = 10, updated_at = 0\<rparr>"

definition charge_desk :: desk where
  "charge_desk = \<lparr>ds_queue = \<lparr>q_items = [charge_question], q_targets = [target_row_of 2 9 (RoleTarget 4)], q_announced = []\<rparr>,
     ds_holds = [session_hold], ds_jobs = [waiting_turn], ds_grants = [], ds_held = [], ds_messages = [], ds_live = [],
     ds_events = []\<rparr>"

definition some_ids :: fresh_ids where
  "some_ids = \<lparr>fr_note = 11, fr_job = 12, fr_grant = 13, fr_message = 14\<rparr>"

definition charge_settling :: settling where
  "charge_settling = \<lparr>se_workspace = 2, se_item = 9, se_state = ItemResolved, se_by = Some 5, se_note = None, se_hold = Some 3,
     se_grant = None, se_wake = None, se_held = None\<rparr>"

lemma charge_settled: "fst (settle_and_release toy_outside toy_calendar few_parse 1 some_ids charge_settling charge_desk) = Inr 1"
  by code_simp


end
