(* ===== verification/Answering.thy ===== *)
theory Answering
  imports Approvals
begin

text \<open>
  Asking by hand and answering, \<open>crates/api/src/approvals.rs\<close>, with what an answer leaves in the
  conversation, \<open>record_approval\<close> of \<open>chat/postgres.rs\<close>, and what a caller may do in a workspace, of
  \<open>router.rs\<close> and \<open>role/postgres.rs\<close>. Who a caller is, what the roles of a workspace carry and whether it
  has a conversation are arguments.
\<close>

section \<open>What a caller may do\<close>

record caller =
  cl_subject :: uuid
  cl_workspace :: uuid
  cl_roles :: "string list"

record office = api_world +
  of_authenticate :: "headers \<Rightarrow> api_error + caller"
  of_roles :: "uuid \<Rightarrow> api_error + (string \<times> authority list) list"
  of_members :: memberships
  of_session :: "uuid \<Rightarrow> uuid \<Rightarrow> bool"
  of_calendar :: calendar

definition authorities_for :: "('a office_scheme) \<Rightarrow> uuid \<Rightarrow> string list \<Rightarrow> api_error + authority set" where
  "authorities_for w workspace_id names =
     try_step (of_roles w workspace_id) (\<lambda>carried.
       Inr (\<Union> (set ` set (List.map_filter (map_of carried) names))))"

definition authorities_of :: "('a office_scheme) \<Rightarrow> caller \<Rightarrow> api_error + authority set" where
  "authorities_of w c =
     try_step (authorities_for w (cl_workspace c) (cl_roles c)) (\<lambda>gs. Inr (platform_authorities (cl_roles c) \<union> gs))"

definition FORBIDDEN :: api_error where "FORBIDDEN = (403, ''insufficient permissions'')"

definition require :: "('a office_scheme) \<Rightarrow> caller \<Rightarrow> authority \<Rightarrow> api_error + unit" where
  "require w c a = try_step (authorities_of w c) (\<lambda>gs. check_that (a \<in> gs) FORBIDDEN)"

definition require_in :: "('a office_scheme) \<Rightarrow> caller \<Rightarrow> uuid \<Rightarrow> authority \<Rightarrow> api_error + unit" where
  "require_in w c workspace_id a =
     try_step (authorities_for w workspace_id (cl_roles c)) (\<lambda>gs.
       check_that (a \<in> platform_authorities (cl_roles c) \<union> gs) FORBIDDEN)"

definition authorize :: "('a office_scheme) \<Rightarrow> headers \<Rightarrow> authority \<Rightarrow> api_error + caller" where
  "authorize w hs a =
     try_step (of_authenticate w hs) (\<lambda>c. try_step (require w c a) (\<lambda>_. Inr c))"

section \<open>Errors, in words\<close>

fun action_error_text :: "action_error \<Rightarrow> string" where
  "action_error_text ItemNotFound = ''action item not found''"
| "action_error_text (NotPending s) = ''action item is already '' @ s"
| "action_error_text (InvalidItem s) = ''invalid action item: '' @ s"
| "action_error_text StoreFailed = ''action store error''"
| "action_error_text (UnknownState s) = ''action store error: unknown action item state '' @ s"

fun hold_api_error :: "hold_error \<Rightarrow> api_error" where
  "hold_api_error NoSuchHold = (404, ''no such inhibitor'')"
| "hold_api_error NoReason = (400, ''an inhibitor needs a reason'')"
| "hold_api_error NoHolder = (400, ''an inhibitor needs a holder'')"
| "hold_api_error (BadRow level) =
     (500, ''an inhibitor row says '' @ level @ '' but does not carry that level's columns'')"
| "hold_api_error (BadStrength s) = (500, ''not a strength: '' @ s)"

definition internally :: "action_error \<Rightarrow> api_error" where
  "internally err = (500, action_error_text err)"

section \<open>Asking by hand\<close>

record request_approval =
  ra_session :: uuid
  ra_requires :: string
  ra_reason :: string
  ra_roles :: "uuid list"
  ra_users :: "uuid list"
  ra_payload :: json

definition MAX_QUEUE_SCAN :: nat where "MAX_QUEUE_SCAN = 2000"

fun with_members :: "(string \<times> json) list \<Rightarrow> json \<Rightarrow> json" where
  "with_members ms (JObj o1) = JObj (fold (\<lambda>(k, v) o1. obj_insert k v o1) ms o1)"
| "with_members ms v = v"

definition request_payload :: "outside \<Rightarrow> uuid \<Rightarrow> request_approval \<Rightarrow> json" where
  "request_payload e hold_id inp =
     with_members [(''requires'', JStr (ra_requires inp)), (''reason'', JStr (ra_reason inp)),
         (''inhibitor_id'', JStr (uuid_text e hold_id)), (''session_id'', JStr (uuid_text e (ra_session inp)))]
       (if is_null (ra_payload inp) then JObj [] else ra_payload inp)"

definition request_targets :: "request_approval \<Rightarrow> target list" where
  "request_targets inp = map RoleTarget (ra_roles inp) @ map UserTarget (ra_users inp)"

text \<open>Whether a request can be raised at all, before anything is written.\<close>

definition may_request :: "('a office_scheme) \<Rightarrow> headers \<Rightarrow> request_approval \<Rightarrow> api_error + caller" where
  "may_request w hs inp =
     try_step (authorize w hs AgentsInhibit) (\<lambda>c.
       if trim (ra_requires inp) = [] then Inl (400, ''an approval has to say what it is asking about'')
       else if trim (ra_reason inp) = [] then Inl (400, ''an approval has to say why, or nobody can answer it'')
       else if request_targets inp = [] then Inl (400, ''an approval has to be addressed to a role or a person'')
       else if \<not> of_session w (cl_workspace c) (ra_session inp) then Inl (404, ''no such conversation'')
       else Inr c)"

definition by_hand_item :: "outside \<Rightarrow> uuid \<Rightarrow> request_approval \<Rightarrow> new_item" where
  "by_hand_item e hold_id inp =
     \<lparr>ni_kind = ''approval.'' @ trim (ra_requires inp), ni_event = None, ni_inhibitor = Some hold_id,
      ni_payload = request_payload e hold_id inp, ni_targets = request_targets inp, ni_expires = None\<rparr>"

definition request ::
  "('a office_scheme) \<Rightarrow> time \<Rightarrow> uuid \<Rightarrow> uuid \<Rightarrow> headers \<Rightarrow> request_approval \<Rightarrow> desk \<Rightarrow> (api_error + (uuid \<times> uuid)) \<times> desk" where
  "request w now hold_id item_id hs inp ds =
     (case may_request w hs inp of
        Inl err \<Rightarrow> (Inl err, ds)
      | Inr c \<Rightarrow>
     (case take_inhibitor hold_id now \<lparr>th_scope = SessionScope (cl_workspace c) (ra_session inp),
          th_strength = SuspendedHold, th_reason = ra_reason inp, th_held_by = uuid_text (aw_outside w) (cl_subject c)\<rparr>
          (ds_holds ds) of
        (Inl err, holds) \<Rightarrow> (Inl (hold_api_error err), ds\<lparr>ds_holds := holds\<rparr>)
      | (Inr held, holds) \<Rightarrow>
     (case raise_item (aw_jsonb_text w) now item_id (cl_workspace c) (by_hand_item (aw_outside w) (in_id held) inp)
          (ds_queue ds) of
        (Inr i, q) \<Rightarrow> (Inr (i, in_id held), ds\<lparr>ds_holds := holds, ds_queue := q\<rparr>)
      | (Inl err, q) \<Rightarrow>
          (Inl (internally err), ds\<lparr>ds_holds := snd (release_hold (in_id held) holds), ds_queue := q\<rparr>))))"

section \<open>What an answer leaves in the conversation\<close>

definition APPROVAL_MARK :: string where "APPROVAL_MARK = ''approval''"

definition DECLINED_GUIDANCE :: string where
  "DECLINED_GUIDANCE = ''Do not re-attempt this before discussing it with the user.''"

record approval_answer =
  aa_requires :: string
  aa_approved :: bool
  aa_by :: "uuid option"
  aa_name :: "string option"
  aa_note :: "string option"

definition answer_content :: "approval_answer \<Rightarrow> string" where
  "answer_content a =
     (let who = (case aa_name a of Some n \<Rightarrow> n | None \<Rightarrow> SOMEBODY);
          said = (case aa_note a of Some n \<Rightarrow> if trim n = [] then None else Some n | None \<Rightarrow> None) in
      if aa_approved a
      then who @ '' approved this '' @ aa_requires a @ (case said of Some n \<Rightarrow> '': '' @ n | None \<Rightarrow> ''.'')
      else who @ '' declined this '' @ aa_requires a @ (case said of Some n \<Rightarrow> '': '' @ n | None \<Rightarrow> ''.'') @
        [NL, NL] @ DECLINED_GUIDANCE)"

definition answer_mark :: "outside \<Rightarrow> approval_answer \<Rightarrow> json" where
  "answer_mark e a =
     json_object [(APPROVAL_MARK, json_object [(''requires'', JStr (aa_requires a)), (''approved'', JBool (aa_approved a)),
       (''answered_by'', json_opt (JStr \<circ> uuid_text e) (aa_by a)), (''answered_by_name'', json_opt JStr (aa_name a)),
       (''note'', json_opt JStr (aa_note a))])]"

definition record_approval :: "outside \<Rightarrow> time \<Rightarrow> uuid \<Rightarrow> uuid \<Rightarrow> approval_answer \<Rightarrow> desk \<Rightarrow> message_row \<times> desk" where
  "record_approval e now i session_id a ds =
     (let m = \<lparr>ms_id = i, ms_session = session_id, ms_role = ''assistant'', ms_content = answer_content a, ms_user = aa_by a,
            ms_metadata = answer_mark e a, ms_created = now, ms_replies_to = None, ms_absorbed_by = None\<rparr> in
      (m, ds\<lparr>ds_messages := ds_messages ds @ [m]\<rparr>))"

text \<open>A message as a document carries it; what only the transcript's read fills is not there yet.\<close>

definition message_json :: "outside \<Rightarrow> message_row \<Rightarrow> json" where
  "message_json e m =
     json_object [(''id'', JStr (uuid_text e (ms_id m))), (''session_id'', JStr (uuid_text e (ms_session m))),
       (''role'', JStr (ms_role m)), (''content'', JStr (ms_content m)), (''metadata'', ms_metadata m),
       (''delta_next'', JNum (PosInt 0)), (''model'', JNull), (''prompt_tokens'', JNull), (''completion_tokens'', JNull),
       (''replies_to'', json_opt (JStr \<circ> uuid_text e) (ms_replies_to m)), (''attempt'', JNum (PosInt 1)),
       (''absorbed_by'', json_opt (JStr \<circ> uuid_text e) (ms_absorbed_by m)), (''job_state'', JNull)]"

section \<open>Answering\<close>

record answer_approval =
  an_approved :: bool
  an_note :: "string option"
  an_covers_unit :: bool

text \<open>The item read through the caller's own queue; one already settled is a conflict, any other is not there.\<close>

definition own_item :: "('a office_scheme) \<Rightarrow> caller \<Rightarrow> uuid \<Rightarrow> desk \<Rightarrow> api_error + action_item" where
  "own_item w c item_id ds =
     (case queue_for_user_everywhere (of_members w) (ds_queue ds) (cl_subject c) None MAX_QUEUE_SCAN of
        Inl err \<Rightarrow> Inl (internally err)
      | Inr mine \<Rightarrow>
     (case find (\<lambda>i. ai_id i = item_id) mine of
        Some item \<Rightarrow> Inr item
      | None \<Rightarrow>
     (case settled_for_user (of_members w) (ds_queue ds) (cl_subject c) item_id of
        Inl err \<Rightarrow> Inl (internally err)
      | Inr (Some st) \<Rightarrow> Inl (409, ''this approval was already '' @ item_state_text st)
      | Inr None \<Rightarrow> Inl (404, ''no such approval''))))"

text \<open>What a yes is worth, from the item that recorded the request.\<close>

definition grant_from :: "(string \<Rightarrow> uuid option) \<Rightarrow> action_item \<Rightarrow> caller \<Rightarrow> bool \<Rightarrow> new_grant option" where
  "grant_from parse_uuid item c covers_unit =
     (case read_gate_record parse_uuid (ai_payload item) of
        None \<Rightarrow> None
      | Some r \<Rightarrow>
          (let (x, k) = (case (covers_unit, gk_covers r) of
               (True, Some cv) \<Rightarrow> (Unit, co_unit cv)
             | _ \<Rightarrow> (Call, gk_shape r)) in
           Some \<lparr>ng_workspace = ai_workspace item, ng_session = gk_session r, ng_job = gk_job r,
             ng_requires = gk_requires r, ng_extent = x, ng_keyed_on = k, ng_granted_by = Some (cl_subject c)\<rparr>))"

text \<open>Settling, as the two endpoints report it: a loser is told what the winner did.\<close>

definition settled_or :: "string \<Rightarrow> (action_error + nat) \<Rightarrow> api_error + nat" where
  "settled_or what r =
     (case r of
        Inr n \<Rightarrow> Inr n
      | Inl (NotPending st) \<Rightarrow> Inl (409, what @ st)
      | Inl err \<Rightarrow> Inl (internally err))"

definition settle_followup ::
  "('a office_scheme) \<Rightarrow> time \<Rightarrow> fresh_ids \<Rightarrow> caller \<Rightarrow> action_item \<Rightarrow> held_decision \<Rightarrow> string option \<Rightarrow> desk \<Rightarrow>
     (api_error + nat) \<times> desk" where
  "settle_followup w now fr c item d msg ds =
     (case settle_and_release (aw_outside w) (of_calendar w) (aw_parse_uuid w) now fr
        \<lparr>se_workspace = ai_workspace item, se_item = ai_id item, se_state = ItemResolved, se_by = Some (cl_subject c),
         se_note = msg, se_hold = None, se_grant = None, se_wake = None, se_held = Some d\<rparr> ds of
        (r, ds1) \<Rightarrow>
          (case settled_or ''this was already '' r of
             Inl err \<Rightarrow> (Inl err, ds1)
           | Inr _ \<Rightarrow>
               if d \<noteq> Resend then (Inr 0, ds1)
               else
                 (case resend_now (api_world.truncate w) now (fr_note fr) (fr_job fr) (ai_workspace item) (ai_id item)
                    (cl_subject c) ds1 of
                    (started, ds2) \<Rightarrow> (Inr (of_bool started), ds2))))"

definition answer_settling :: "('a office_scheme) \<Rightarrow> caller \<Rightarrow> action_item \<Rightarrow> answer_approval \<Rightarrow> desk \<Rightarrow> settling" where
  "answer_settling w c item inp ds =
     (let holds_request = held_for_item ds (ai_workspace item) (ai_id item);
          grant = (if an_approved inp
            then (case grant_from (aw_parse_uuid w) item c (an_covers_unit inp) of
                    Some g \<Rightarrow> if \<not> holds_request \<or> ng_extent g = Unit then Some g else None
                  | None \<Rightarrow> None)
            else None) in
      \<lparr>se_workspace = ai_workspace item, se_item = ai_id item,
       se_state = (if an_approved inp then ItemResolved else ItemCancelled), se_by = Some (cl_subject c),
       se_note = an_note inp, se_hold = uuid_at (aw_parse_uuid w) (ai_payload item) ''inhibitor_id'',
       se_grant = grant, se_wake = None,
       se_held = (if holds_request then Some (if an_approved inp then Approve else Decline) else None)\<rparr>)"

text \<open>What is recorded once the answer is given, where the item says what it was about and in which conversation.\<close>

definition tell_conversation :: "('a office_scheme) \<Rightarrow> time \<Rightarrow> fresh_ids \<Rightarrow> caller \<Rightarrow> action_item \<Rightarrow> answer_approval \<Rightarrow> desk \<Rightarrow> desk" where
  "tell_conversation w now fr c item inp ds =
     (case (text_at (ai_payload item) ''requires'', uuid_at (aw_parse_uuid w) (ai_payload item) ''session_id'') of
        (Some rq, Some session_id) \<Rightarrow>
          (case record_approval (aw_outside w) now (fr_message fr) session_id
             \<lparr>aa_requires = rq, aa_approved = an_approved inp, aa_by = Some (cl_subject c),
              aa_name = aw_name_of w (cl_subject c), aa_note = an_note inp\<rparr> ds of
             (m, ds1) \<Rightarrow>
               append_event (ai_workspace item) (Some session_id) ''chat.message'' (message_json (aw_outside w) m) ds1)
      | _ \<Rightarrow> ds)"

definition answer ::
  "('a office_scheme) \<Rightarrow> time \<Rightarrow> fresh_ids \<Rightarrow> headers \<Rightarrow> uuid \<Rightarrow> answer_approval \<Rightarrow> desk \<Rightarrow> (api_error + nat) \<times> desk" where
  "answer w now fr hs item_id inp ds =
     (case try_step (of_authenticate w hs) (\<lambda>c. try_step (own_item w c item_id ds) (\<lambda>item.
             if \<not> is_approval (ai_kind item) then Inl (409, ''this is not an approval'')
             else try_step (require_in w c (ai_workspace item) ApprovalsAnswer) (\<lambda>_. Inr (c, item)))) of
        Inl err \<Rightarrow> (Inl err, ds)
      | Inr (c, item) \<Rightarrow>
          if json_get (ai_payload item) ''followup'' \<noteq> None
          then settle_followup w now fr c item (if an_approved inp then Resend else Done) (an_note inp) ds
          else
            (case settle_and_release (aw_outside w) (of_calendar w) (aw_parse_uuid w) now fr
                (answer_settling w c item inp ds) ds of
               (r, ds1) \<Rightarrow>
                 (case settled_or ''this approval was already '' r of
                    Inl err \<Rightarrow> (Inl err, ds1)
                  | Inr resumed \<Rightarrow> (Inr resumed, tell_conversation w now fr c item inp ds1))))"

text \<open>A note is optional, and so is a body to carry one.\<close>

definition read_followup_note :: "outside \<Rightarrow> bytes \<Rightarrow> api_error + string option" where
  "read_followup_note e body =
     (if body = [] then Inr None
      else
        (case Option.bind (json_parse e body) (as_named [''note'']) of
           None \<Rightarrow> Inl (400, ''that is not a note'')
         | Some v \<Rightarrow>
             (case read_optional v ''note'' Some of
                None \<Rightarrow> Inl (400, ''that is not a note'')
              | Some msg \<Rightarrow> Inr msg)))"

definition follow_up ::
  "('a office_scheme) \<Rightarrow> time \<Rightarrow> fresh_ids \<Rightarrow> headers \<Rightarrow> uuid \<Rightarrow> bytes \<Rightarrow> held_decision \<Rightarrow> desk \<Rightarrow> (api_error + nat) \<times> desk" where
  "follow_up w now fr hs item_id body d ds =
     (case try_step (of_authenticate w hs) (\<lambda>c. try_step (own_item w c item_id ds) (\<lambda>item.
             if json_get (ai_payload item) ''followup'' = None
             then Inl (409, ''this asks whether to approve, not what to do about a request that did not go'')
             else try_step (require_in w c (ai_workspace item) ApprovalsAnswer) (\<lambda>_.
               try_step (read_followup_note (aw_outside w) body) (\<lambda>msg. Inr (c, item, msg))))) of
        Inl err \<Rightarrow> (Inl err, ds)
      | Inr (c, item, msg) \<Rightarrow> settle_followup w now fr c item d msg ds)"

definition resend_approved :: "('a office_scheme) \<Rightarrow> time \<Rightarrow> fresh_ids \<Rightarrow> headers \<Rightarrow> uuid \<Rightarrow> bytes \<Rightarrow> desk \<Rightarrow> (api_error + nat) \<times> desk" where
  "resend_approved w now fr hs item_id body ds = follow_up w now fr hs item_id body Resend ds"

definition done_with :: "('a office_scheme) \<Rightarrow> time \<Rightarrow> fresh_ids \<Rightarrow> headers \<Rightarrow> uuid \<Rightarrow> bytes \<Rightarrow> desk \<Rightarrow> (api_error + nat) \<times> desk" where
  "done_with w now fr hs item_id body ds = follow_up w now fr hs item_id body Done ds"

section \<open>Who may answer, and what follows\<close>

lemma read_items_member:
  "read_items rs = Inr is \<Longrightarrow> i \<in> set is \<Longrightarrow> \<exists>r \<in> set rs. read_item r = Inr i"
  by (induction rs arbitrary: "is") (auto split: sum.splits)

lemma read_item_fields:
  "read_item r = Inr i \<Longrightarrow> ai_id i = it_id r \<and> ai_workspace i = it_workspace r \<and> ai_kind i = it_kind r \<and>
     ai_payload i = it_payload r"
  by (auto simp: read_item_def split: option.splits)

text \<open>Of every row: it is open, in a workspace the caller is admitted to, and addressed to them.\<close>

definition owed_to :: "('a office_scheme) \<Rightarrow> caller \<Rightarrow> desk \<Rightarrow> item_row \<Rightarrow> bool" where
  "owed_to w c ds r \<longleftrightarrow>
     r \<in> set (q_items (ds_queue ds)) \<and> it_state r = ''pending'' \<and>
     admitted (of_members w) (it_workspace r) (cl_subject c) \<and>
     targeted_at (of_members w) (ds_queue ds) (cl_subject c) r"

lemma own_item_Inr:
  assumes "own_item w c item_id ds = Inr item"
  obtains r where "owed_to w c ds r" "read_item r = Inr item" "it_id r = item_id"
proof -
  obtain mine where mine: "queue_for_user_everywhere (of_members w) (ds_queue ds) (cl_subject c) None MAX_QUEUE_SCAN = Inr mine"
    and "find (\<lambda>i. ai_id i = item_id) mine = Some item"
    using assms by (auto simp: own_item_def split: sum.splits option.splits)
  then have i: "item \<in> set mine" "ai_id item = item_id" by (auto simp: find_Some_iff)
  obtain r where r: "r \<in> set (owed_everywhere (of_members w) (ds_queue ds) (cl_subject c) None MAX_QUEUE_SCAN)"
    "read_item r = Inr item"
    using read_items_member [OF mine [unfolded queue_for_user_everywhere_def] i(1)] by blast
  moreover have "owed_to w c ds r"
    using r(1) by (auto simp: owed_everywhere_def owed_to_def dest!: in_set_takeD)
  ultimately show thesis using that read_item_fields [OF r(2)] i(2) by simp
qed

lemma answer_Inr:
  assumes "answer w now fr hs item_id inp ds = (Inr n, ds')"
  obtains c item r where "of_authenticate w hs = Inr c" "own_item w c item_id ds = Inr item"
    "owed_to w c ds r" "read_item r = Inr item" "it_id r = item_id" "is_approval (it_kind r)"
    "require_in w c (it_workspace r) ApprovalsAnswer = Inr ()"
    "json_get (it_payload r) ''followup'' \<noteq> None \<Longrightarrow>
       settle_followup w now fr c item (if an_approved inp then Resend else Done) (an_note inp) ds = (Inr n, ds')"
    "json_get (it_payload r) ''followup'' = None \<Longrightarrow>
       \<exists>ds1. settle_and_release (aw_outside w) (of_calendar w) (aw_parse_uuid w) now fr
         (answer_settling w c item inp ds) ds = (Inr n, ds1) \<and> ds' = tell_conversation w now fr c item inp ds1"
proof -
  obtain c item where c: "of_authenticate w hs = Inr c" "own_item w c item_id ds = Inr item"
    "is_approval (ai_kind item)" "require_in w c (ai_workspace item) ApprovalsAnswer = Inr ()"
    and rest: "(if json_get (ai_payload item) ''followup'' \<noteq> None
          then settle_followup w now fr c item (if an_approved inp then Resend else Done) (an_note inp) ds
          else
            (case settle_and_release (aw_outside w) (of_calendar w) (aw_parse_uuid w) now fr
                (answer_settling w c item inp ds) ds of
               (r, ds1) \<Rightarrow>
                 (case settled_or ''this approval was already '' r of
                    Inl err \<Rightarrow> (Inl err, ds1)
                  | Inr resumed \<Rightarrow> (Inr resumed, tell_conversation w now fr c item inp ds1)))) = (Inr n, ds')"
    using assms by (auto simp: answer_def split: sum.splits if_splits)
  from own_item_Inr [OF c(2)] obtain r where r: "owed_to w c ds r" "read_item r = Inr item" "it_id r = item_id" .
  note f = read_item_fields [OF r(2)]
  show thesis
    by (rule that [OF c(1,2) r])
      (use c(3,4) f rest in \<open>auto simp: settled_or_def split: sum.splits prod.splits action_error.splits if_splits\<close>)
qed

lemma resend_now_simps:
  "ds_grants (snd (resend_now w now ni ji ws i u ds)) = ds_grants ds" "ds_holds (snd (resend_now w now ni ji ws i u ds)) = ds_holds ds"
  by (simp_all add: resend_now_def Let_def split: option.split)

lemma tell_conversation_simps [simp]:
  "ds_queue (tell_conversation w now fr c item inp ds) = ds_queue ds"
  "ds_holds (tell_conversation w now fr c item inp ds) = ds_holds ds"
  "ds_jobs (tell_conversation w now fr c item inp ds) = ds_jobs ds"
  "ds_grants (tell_conversation w now fr c item inp ds) = ds_grants ds"
  "ds_held (tell_conversation w now fr c item inp ds) = ds_held ds"
  by (simp_all add: tell_conversation_def record_approval_def Let_def split: option.split)

definition parked_in :: "(string \<Rightarrow> uuid option) \<Rightarrow> uuid \<Rightarrow> uuid \<Rightarrow> job \<Rightarrow> bool" where
  "parked_in p ws ss j \<longleftrightarrow>
     j_state j = Parked \<and> j_workspace j = ws \<and> uuid_at p (j_payload j) ''session_id'' = Some ss"

lemma resume_session:
  assumes "resume_for_scope p now (SessionScope ws ss) db = (n, db')"
  shows "n = length (filter (parked_in p ws ss) db) \<and> list_all (\<lambda>j. \<not> parked_in p ws ss j) db'"
proof -
  define f where "f = (\<lambda>j :: job. j\<lparr>j_state := Pending, run_after := now, last_error := None, updated_at := now\<rparr>)"
  have P: "(\<lambda>j. j_state j = Parked \<and> j_workspace j = ws \<and>
      (None = None \<or> uuid_at p (j_payload j) ''agent_id'' = None) \<and>
      (Some ss = None \<or> uuid_at p (j_payload j) ''session_id'' = Some ss)) = parked_in p ws ss"
    by (simp add: fun_eq_iff parked_in_def)
  have "n = length (filter (parked_in p ws ss) db)" "db' = update_rows (parked_in p ws ss) f db"
    using assms unfolding resume_for_scope.simps resume_parked_def Let_def P f_def [symmetric]
    by (simp_all add: returning_def)
  moreover have "\<not> parked_in p ws ss (f j)" for j by (simp add: f_def parked_in_def)
  ultimately show ?thesis by (auto simp: list_all_iff update_rows_def)
qed

lemma find_unique:
  "distinct (map f xs) \<Longrightarrow> x \<in> set xs \<Longrightarrow> find (\<lambda>y. f y = f x) xs = Some x"
  by (induction xs) (auto simp: image_iff)

lemma lift_session_hold:
  assumes "lift_hold p now (Some (hr_id hold)) ds = Inr (n, ds')" and "hold \<in> set (ds_holds ds)"
    and "distinct (map hr_id (ds_holds ds))" and "read_scope hold = Inr (SessionScope ws ss)"
  shows "n = length (filter (parked_in p ws ss) (ds_jobs ds)) \<and> list_all (\<lambda>j. \<not> parked_in p ws ss j) (ds_jobs ds')"
proof -
  have "resume_for_scope p now (SessionScope ws ss) (ds_jobs ds) = (n, ds_jobs ds')"
    using assms(1,4) by (auto simp: lift_hold_def find_unique [OF assms(3,2)] split: prod.splits)
  then show ?thesis by (rule resume_session)
qed

lemma decided_rows_decline:
  "se_held s \<in> {None, Some Decline, Some Done} \<Longrightarrow> x \<in> set (decided_rows now s rows) \<Longrightarrow> hd_state x = ''approved'' \<Longrightarrow> x \<in> set rows"
  by (auto simp: decided_rows_def write_decision_def decide_tx_def change_held_def Let_def split: option.splits if_splits)

lemma settling_released:
  assumes "settle_and_release e c p now fr s ds = (Inr n, ds')" and "se_wake s = None"
    and "se_hold s = Some (hr_id hold)" and "hold \<in> set (ds_holds ds)" and "distinct (map hr_id (ds_holds ds))"
    and "read_scope hold = Inr (SessionScope ws ss)"
  shows "ds_holds ds' = filter (\<lambda>x. hr_id x \<noteq> hr_id hold) (ds_holds ds) \<and>
    list_all (\<lambda>j. \<not> parked_in p ws ss j) (ds_jobs ds') \<and> n = length (filter (parked_in p ws ss) (ds_jobs ds))"
proof (rule settle_and_release_Inr [OF assms(1)])
  fix ds1 ds2
  assume st: "ds1 = write_wake e c now fr (se_wake s) (ds\<lparr>ds_queue := settle_item now s (ds_queue ds)\<rparr>)"
    "lift_hold p now (se_hold s) ds1 = Inr (n, ds2)"
    "ds' = (let ds3 = write_decision now s (write_grants now fr (se_grant s) ds2) in
       ds3\<lparr>ds_queue := announce (se_workspace s)
         (Targeted [se_item s] (targets_of (q_targets (ds_queue ds3)) (se_workspace s) (se_item s))) (ds_queue ds3)\<rparr>)"
  have ds1: "ds_holds ds1 = ds_holds ds" "ds_jobs ds1 = ds_jobs ds" using st(1) assms(2) by simp_all
  have "ds_jobs ds' = ds_jobs ds2" "ds_holds ds' = ds_holds ds2" by (simp_all add: st(3) Let_def)
  then show ?thesis
    using lift_session_hold [OF st(2) [unfolded assms(3)], of ws ss] lift_hold_Inr [OF st(2)] assms(3-6) ds1 by simp
qed

lemma settling_holds:
  assumes "settle_and_release e c p now fr s ds = (Inr n, ds')"
  shows "ds_holds ds' = filter (\<lambda>r. Some (hr_id r) \<noteq> se_hold s) (ds_holds ds)"
proof (rule settle_and_release_Inr [OF assms])
  fix ds1 ds2
  assume st: "ds1 = write_wake e c now fr (se_wake s) (ds\<lparr>ds_queue := settle_item now s (ds_queue ds)\<rparr>)"
    "lift_hold p now (se_hold s) ds1 = Inr (n, ds2)"
    "ds' = (let ds3 = write_decision now s (write_grants now fr (se_grant s) ds2) in
       ds3\<lparr>ds_queue := announce (se_workspace s)
         (Targeted [se_item s] (targets_of (q_targets (ds_queue ds3)) (se_workspace s) (se_item s))) (ds_queue ds3)\<rparr>)"
  show ?thesis using lift_hold_Inr [OF st(2)] st(1) by (cases "se_hold s") (simp_all add: st(3) Let_def)
qed

lemma settling_grants:
  assumes "settle_and_release e c p now fr s ds = (Inr n, ds')"
  shows "ds_grants ds' = ds_grants (write_grants now fr (se_grant s) ds) \<and> ds_held ds' = decided_rows now s (ds_held ds)"
proof (rule settle_and_release_Inr [OF assms])
  fix ds1 ds2
  assume st: "ds1 = write_wake e c now fr (se_wake s) (ds\<lparr>ds_queue := settle_item now s (ds_queue ds)\<rparr>)"
    "lift_hold p now (se_hold s) ds1 = Inr (n, ds2)"
    "ds' = (let ds3 = write_decision now s (write_grants now fr (se_grant s) ds2) in
       ds3\<lparr>ds_queue := announce (se_workspace s)
         (Targeted [se_item s] (targets_of (q_targets (ds_queue ds3)) (se_workspace s) (se_item s))) (ds_queue ds3)\<rparr>)"
  show ?thesis
    using lift_hold_Inr [OF st(2)] st(1) by (simp add: st(3) Let_def held_write_decision write_grants_rows)
qed

lemma settle_followup_does:
  assumes "settle_followup w now fr c item d msg ds = (r, ds')"
  shows "ds_grants ds' = ds_grants ds \<and> ds_holds ds' = ds_holds ds \<and>
    (d \<in> {Decline, Done} \<longrightarrow> (\<forall>x \<in> set (ds_held ds'). hd_state x = ''approved'' \<longrightarrow> x \<in> set (ds_held ds)))"
proof -
  let ?s = "\<lparr>se_workspace = ai_workspace item, se_item = ai_id item, se_state = ItemResolved, se_by = Some (cl_subject c),
       se_note = msg, se_hold = None, se_grant = None, se_wake = None, se_held = Some d\<rparr>"
  obtain r1 ds1 where st: "settle_and_release (aw_outside w) (of_calendar w) (aw_parse_uuid w) now fr ?s ds = (r1, ds1)"
    by (metis surj_pair)
  have "ds_grants ds1 = ds_grants ds \<and> ds_holds ds1 = ds_holds ds \<and> (ds_held ds1 = ds_held ds \<or> ds_held ds1 = decided_rows now ?s (ds_held ds))"
  proof (cases r1)
    case (Inl err)
    then show ?thesis using settle_and_release_Inl st by blast
  next
    case (Inr m)
    then have st': "settle_and_release (aw_outside w) (of_calendar w) (aw_parse_uuid w) now fr ?s ds = (Inr m, ds1)" using st by simp
    then show ?thesis using settling_grants [OF st'] settling_holds [OF st'] by simp
  qed
  moreover have "d \<noteq> Resend \<longrightarrow> ds' = ds1" "ds' = ds1 \<or> ds' = snd (resend_now (api_world.truncate w) now (fr_note fr) (fr_job fr)
      (ai_workspace item) (ai_id item) (cl_subject c) ds1)"
    using assms by (simp_all add: settle_followup_def st split: sum.splits prod.splits if_splits)
  ultimately show ?thesis using resend_now_simps decided_rows_decline [of ?s] by fastforce
qed

lemma one_row: "distinct (map it_id rows) \<Longrightarrow> r \<in> set rows \<Longrightarrow> r' \<in> set rows \<Longrightarrow> it_id r = it_id r' \<Longrightarrow> r = r'"
  by (auto simp: distinct_map inj_on_def)

text \<open>
  C23. Answering leaves nobody waiting behind the question, unless its document names a follow-up. Once a
  question that holds a conversation is answered, yes or no, and its document has no member \<open>followup\<close>, its hold
  is gone and every other stands, no turn of that conversation is parked any more, and the answer says how many
  were given back. Where it has one the answer is a follow-up's and touches no hold (which leaves the hold of a
  question raised by hand with such a document: \<open>hold_outlives_its_question\<close>). Of either, a no grants nothing
  and approves no request that is held.
\<close>
theorem answer_frees_the_conversation:
  assumes "answer w now fr hs item_id inp ds = (Inr n, ds')"
    and "r \<in> set (q_items (ds_queue ds))" and "it_id r = item_id" and "distinct (map it_id (q_items (ds_queue ds)))"
    and "uuid_at (aw_parse_uuid w) (it_payload r) ''inhibitor_id'' = Some (hr_id hold)"
    and "hold \<in> set (ds_holds ds)" and "distinct (map hr_id (ds_holds ds))"
    and "read_scope hold = Inr (SessionScope ws ss)"
  shows "(json_get (it_payload r) ''followup'' = None \<longrightarrow>
      ds_holds ds' = filter (\<lambda>x. hr_id x \<noteq> hr_id hold) (ds_holds ds) \<and>
      list_all (\<lambda>j. \<not> parked_in (aw_parse_uuid w) ws ss j) (ds_jobs ds') \<and>
      n = length (filter (parked_in (aw_parse_uuid w) ws ss) (ds_jobs ds))) \<and>
    (json_get (it_payload r) ''followup'' \<noteq> None \<longrightarrow> ds_holds ds' = ds_holds ds) \<and>
    (\<not> an_approved inp \<longrightarrow> ds_grants ds' = ds_grants ds \<and>
      (\<forall>x \<in> set (ds_held ds'). hd_state x = ''approved'' \<longrightarrow> x \<in> set (ds_held ds)))"
proof (rule answer_Inr [OF assms(1)])
  fix c item r0
  assume r0: "owed_to w c ds r0" "read_item r0 = Inr item" "it_id r0 = item_id"
    and followup: "json_get (it_payload r0) ''followup'' \<noteq> None \<Longrightarrow>
       settle_followup w now fr c item (if an_approved inp then Resend else Done) (an_note inp) ds = (Inr n, ds')"
    and asked: "json_get (it_payload r0) ''followup'' = None \<Longrightarrow>
       \<exists>ds1. settle_and_release (aw_outside w) (of_calendar w) (aw_parse_uuid w) now fr
         (answer_settling w c item inp ds) ds = (Inr n, ds1) \<and> ds' = tell_conversation w now fr c item inp ds1"
  have same: "r0 = r" using one_row [OF assms(4)] assms(2,3) r0 by (auto simp: owed_to_def)
  show ?thesis
  proof (cases "json_get (it_payload r) ''followup'' = None")
    case False
    then show ?thesis using settle_followup_does [OF followup] same by auto
  next
    case True
    then obtain ds1 where st: "settle_and_release (aw_outside w) (of_calendar w) (aw_parse_uuid w) now fr
        (answer_settling w c item inp ds) ds = (Inr n, ds1)" and ds': "ds' = tell_conversation w now fr c item inp ds1"
      using asked same by auto
    have hold: "se_hold (answer_settling w c item inp ds) = Some (hr_id hold)" and wake: "se_wake (answer_settling w c item inp ds) = None"
      using assms(5) read_item_fields [OF r0(2)] same by (simp_all add: answer_settling_def Let_def)
    have no: "se_grant (answer_settling w c item inp ds) = None" "se_held (answer_settling w c item inp ds) \<in> {None, Some Decline, Some Done}"
      if "\<not> an_approved inp"
      using that by (simp_all add: answer_settling_def Let_def)
    show ?thesis
      using settling_released [OF st wake hold assms(6-8)] settling_grants [OF st] no decided_rows_decline ds' True by auto
  qed
qed

lemma answer_was_asked:
  assumes "answer w now fr hs item_id inp ds = (Inr n, ds')" and "g \<in> set (ds_grants ds')" and "g \<notin> set (ds_grants ds)"
  shows "\<exists>c r rec. of_authenticate w hs = Inr c \<and> owed_to w c ds r \<and> it_id r = item_id \<and> is_approval (it_kind r) \<and>
    require_in w c (it_workspace r) ApprovalsAnswer = Inr () \<and> an_approved inp \<and>
    read_gate_record (aw_parse_uuid w) (it_payload r) = Some rec \<and>
    gw_workspace g = it_workspace r \<and> gw_session g = gk_session rec \<and> gw_job g = gk_job rec \<and>
    gw_requires g = gk_requires rec \<and> gw_granted_by g = Some (cl_subject c) \<and>
    ((gw_extent g = ''call'' \<and> gw_keyed_on g = gk_shape rec \<and> \<not> held_for_item ds (it_workspace r) item_id) \<or>
     (gw_extent g = ''unit'' \<and> an_covers_unit inp \<and>
        (\<exists>cv. gk_covers rec = Some cv \<and> gw_keyed_on g = co_unit cv)))"
proof (rule answer_Inr [OF assms(1)])
  fix c item r
  assume c: "of_authenticate w hs = Inr c" "owed_to w c ds r" "read_item r = Inr item" "it_id r = item_id"
      "is_approval (it_kind r)" "require_in w c (it_workspace r) ApprovalsAnswer = Inr ()"
    and followup: "json_get (it_payload r) ''followup'' \<noteq> None \<Longrightarrow>
       settle_followup w now fr c item (if an_approved inp then Resend else Done) (an_note inp) ds = (Inr n, ds')"
    and asked: "json_get (it_payload r) ''followup'' = None \<Longrightarrow>
       \<exists>ds1. settle_and_release (aw_outside w) (of_calendar w) (aw_parse_uuid w) now fr
         (answer_settling w c item inp ds) ds = (Inr n, ds1) \<and> ds' = tell_conversation w now fr c item inp ds1"
  note f = read_item_fields [OF c(3)]
  have "json_get (it_payload r) ''followup'' = None"
    using settle_followup_does [OF followup] assms(2,3) by force
  then obtain ds1 where st: "settle_and_release (aw_outside w) (of_calendar w) (aw_parse_uuid w) now fr
      (answer_settling w c item inp ds) ds = (Inr n, ds1)" and "ds' = tell_conversation w now fr c item inp ds1"
    using asked by blast
  then have "g \<in> set (ds_grants (write_grants now fr (se_grant (answer_settling w c item inp ds)) ds))"
    using assms(2) settling_grants [OF st] by simp
  then have "\<exists>ng. se_grant (answer_settling w c item inp ds) = Some ng \<and> g = grant_row_of now (fr_grant fr) ng"
    using assms(3) by (cases "se_grant (answer_settling w c item inp ds)") (auto simp: write_grants_rows option_list_def)
  then obtain ng where ng: "se_grant (answer_settling w c item inp ds) = Some ng" and
    g: "g = grant_row_of now (fr_grant fr) ng"
    by blast
  from ng have yes: "an_approved inp" "grant_from (aw_parse_uuid w) item c (an_covers_unit inp) = Some ng"
    "\<not> held_for_item ds (it_workspace r) item_id \<or> ng_extent ng = Unit"
    using f c(4) by (auto simp: answer_settling_def Let_def split: if_splits option.splits)
  from yes(2) obtain rec where rec: "read_gate_record (aw_parse_uuid w) (it_payload r) = Some rec"
    using f by (auto simp: grant_from_def split: option.splits)
  show ?thesis
    using c f yes g rec by (intro exI [of _ c] exI [of _ r] exI [of _ rec])
      (auto simp: grant_from_def grant_row_of_def split: option.splits bool.splits prod.splits)
qed

text \<open>
  C20. What an answer grants. A grant appears only where somebody the question was addressed to, admitted
  to its workspace and carrying the authority to answer there, said yes to it while it was open; it is
  for the turn and the act the question recorded; and it lets out the request as it was recorded, or,
  where the wider unit was offered and ticked, that unit. Where the request itself is held, only the
  latter: the yes is then the request's, not the turn's.
\<close>
theorem answer_grants_what_was_asked:
  assumes "answer w now fr hs item_id inp ds = (Inr n, ds')" and "g \<in> set (ds_grants ds')" and "g \<notin> set (ds_grants ds)"
  shows "\<exists>c r rec. of_authenticate w hs = Inr c \<and> owed_to w c ds r \<and> it_id r = item_id \<and> is_approval (it_kind r) \<and>
    require_in w c (it_workspace r) ApprovalsAnswer = Inr () \<and> an_approved inp \<and>
    read_gate_record (aw_parse_uuid w) (it_payload r) = Some rec \<and>
    gw_workspace g = it_workspace r \<and> gw_session g = gk_session rec \<and> gw_job g = gk_job rec \<and>
    gw_requires g = gk_requires rec \<and> gw_granted_by g = Some (cl_subject c) \<and>
    ((gw_extent g = ''call'' \<and> gw_keyed_on g = gk_shape rec \<and> \<not> held_for_item ds (it_workspace r) item_id) \<or>
     (gw_extent g = ''unit'' \<and> an_covers_unit inp \<and>
        (\<exists>cv. gk_covers rec = Some cv \<and> gw_keyed_on g = co_unit cv)))"
  using assms by (rule answer_was_asked)

section \<open>At work\<close>

text \<open>Two workspaces: in 2 the caller approves and so does the role; in 6 they are a guest, and only named alike.\<close>

definition example_office :: office where
  "example_office = \<lparr>aw_outside = toy_outside\<lparr>uuid_text := few_text\<rparr>, aw_parse_uuid = few_parse, aw_parse_url = (\<lambda>u. None),
     aw_jsonb_text = (\<lambda>v. []), aw_authorize = (\<lambda>hs a. Inr ()), aw_name_of = (\<lambda>u. Some ''Ana''), aw_agent_of = (\<lambda>s. Some 1),
     aw_operations = (\<lambda>ws ag. Some []), aw_roles_with = (\<lambda>ws a. Inr [4]),
     of_authenticate = (\<lambda>hs. Inr \<lparr>cl_subject = 5, cl_workspace = 2, cl_roles = [''admin'']\<rparr>),
     of_roles = (\<lambda>ws. Inr [(''admin'', [ApprovalsAnswer, AgentsInhibit]), (''guest'', [])]),
     of_members = \<lparr>workspace_roles = [(5, 2, 4), (5, 6, 40)], system_roles = []\<rparr>,
     of_session = (\<lambda>ws s. True), of_calendar = toy_calendar\<rparr>"

definition yes :: answer_approval where
  "yes = \<lparr>an_approved = True, an_note = None, an_covers_unit = False\<rparr>"

lemma yes_given: "fst (answer example_office 1 some_ids [] 9 yes charge_desk) = Inr 1"
  by code_simp

lemma yes_granted: "map gw_id (ds_grants (snd (answer example_office 1 some_ids [] 9 yes charge_desk))) = [13]"
  by code_simp

lemma charge_answered:
  obtains ds' where "answer example_office 1 some_ids [] 9 yes charge_desk = (Inr 1, ds')"
    "map gw_id (ds_grants ds') = [13]"
proof -
  obtain ds' where "answer example_office 1 some_ids [] 9 yes charge_desk = (Inr 1, ds')"
    using yes_given by (metis prod.collapse)
  then show thesis using that yes_granted by simp
qed

lemma answer_frees_the_conversation_witness:
  "ds_holds (snd (answer example_office 1 some_ids [] 9 yes charge_desk)) = []"
proof -
  obtain ds' where ds': "answer example_office 1 some_ids [] 9 yes charge_desk = (Inr 1, ds')" using charge_answered .
  have "charge_question \<in> set (q_items (ds_queue charge_desk))" "it_id charge_question = 9"
    "distinct (map it_id (q_items (ds_queue charge_desk)))" "json_get (it_payload charge_question) ''followup'' = None"
    "session_hold \<in> set (ds_holds charge_desk)" "distinct (map hr_id (ds_holds charge_desk))"
    "read_scope session_hold = Inr (SessionScope 2 8)"
    by (simp_all add: charge_desk_def charge_question_def session_hold_def read_scope_def obj_get_def)
  moreover have "uuid_at (aw_parse_uuid example_office) (it_payload charge_question) ''inhibitor_id'' = Some (hr_id session_hold)"
    by code_simp
  ultimately have "ds_holds ds' = filter (\<lambda>x. hr_id x \<noteq> hr_id session_hold) (ds_holds charge_desk)"
    using answer_frees_the_conversation [OF ds'] by blast
  then have "ds_holds ds' = []" by (simp add: charge_desk_def)
  then show ?thesis by (simp add: ds')
qed

lemma answer_grants_what_was_asked_witness:
  "\<exists>c r. owed_to example_office c charge_desk r \<and> require_in example_office c (it_workspace r) ApprovalsAnswer = Inr ()"
proof -
  obtain ds' where ds': "answer example_office 1 some_ids [] 9 yes charge_desk = (Inr 1, ds')" "map gw_id (ds_grants ds') = [13]"
    using charge_answered .
  then obtain g where "g \<in> set (ds_grants ds')" by auto
  moreover have "g \<notin> set (ds_grants charge_desk)" by (simp add: charge_desk_def)
  ultimately show ?thesis using answer_grants_what_was_asked [OF ds'(1)] by blast
qed

section \<open>What is not as it is meant to be\<close>

text \<open>
  A request raised by hand may carry any document to show. One with a member named as a follow-up's is
  answered as a follow-up is, which lifts no hold: the item is settled and the hold stays, with nothing
  left in any queue to lift it by.
\<close>

definition asked_by_hand :: request_approval where
  "asked_by_hand = \<lparr>ra_session = 8, ra_requires = ''refund'', ra_reason = ''large'', ra_roles = [4], ra_users = [],
     ra_payload = JNull\<rparr>"

definition shown_as_followup :: request_approval where
  "shown_as_followup = asked_by_hand\<lparr>ra_payload := JObj [(''followup'', JBool True)]\<rparr>"

definition empty_office :: desk where
  "empty_office = charge_desk\<lparr>ds_queue := \<lparr>q_items = [], q_targets = [], q_announced = []\<rparr>, ds_holds := []\<rparr>"

lemma words_trimmed [simp]:
  "trim ''refund'' = ''refund''" "trim ''large'' = ''large''" "trim ''approval.refund'' = ''approval.refund''" "trim ''other'' = ''other''"
  by (rule trim_graphic, code_simp)+

lemma request_authorized: "authorize example_office [] AgentsInhibit = Inr \<lparr>cl_subject = 5, cl_workspace = 2, cl_roles = [''admin'']\<rparr>"
  by code_simp

lemma office_facts:
  "of_session example_office ws s" "aw_jsonb_text example_office = (\<lambda>v. [])" "uuid_text (aw_outside example_office) 5 = ''other''"
  by (simp_all add: example_office_def few_text_def few_names_def)

definition requested_with :: "json \<Rightarrow> desk" where
  "requested_with payload = empty_office\<lparr>
     ds_holds := [\<lparr>hr_id = 3, hr_level = ''session'', hr_workspace = Some 2, hr_agent = None, hr_session = Some 8,
       hr_strength = ''suspended'', hr_reason = ''large'', hr_held_by = ''other'', hr_created = 0\<rparr>],
     ds_queue := \<lparr>q_items = [\<lparr>it_workspace = 2, it_id = 9, it_kind = ''approval.refund'', it_event = None, it_inhibitor = Some 3,
         it_payload = payload, it_state = ''pending'', it_resolved_by = None, it_note = None, it_resolved_at = None,
         it_created = 0, it_expires = None\<rparr>],
       q_targets = [target_row_of 2 9 (RoleTarget 4)],
       q_announced = [\<lparr>an_workspace = 2, an_roles = [4], an_users = [], an_invalidate = False\<rparr>]\<rparr>\<rparr>"

lemma requested:
  assumes "ra_session inp = 8" "ra_requires inp = ''refund''" "ra_reason inp = ''large''" "ra_roles inp = [4]" "ra_users inp = []"
    "request_payload (aw_outside example_office) 3 inp = JObj doc"
  shows "request example_office 0 3 9 [] inp empty_office = (Inr (9, 3), requested_with (JObj doc))"
  using assms
  by (simp add: request_def may_request_def request_authorized request_targets_def office_facts take_inhibitor_def
      read_hold_def read_scope_def strength_parse_def by_hand_item_def raise_item_def validate_item_def
      dedupe_targets_def item_row_of_def asked_by_turn_def payload_text_def announce_def requested_with_def empty_office_def
      Let_def split: option.split)

lemma hold_outlives_its_question:
  "fst (request example_office 0 3 9 [] shown_as_followup empty_office) = Inr (9, 3) \<and>
   (let ds = snd (request example_office 0 3 9 [] shown_as_followup empty_office);
        (r, ds') = answer example_office 1 some_ids [] 9 yes ds in
    r = Inr 0 \<and> map hr_id (ds_holds ds') = [3] \<and> map it_state (q_items (ds_queue ds')) = [''resolved''])"
proof -
  let ?doc = "[(''followup'', JBool True), (''inhibitor_id'', JStr ''h''), (''reason'', JStr ''large''),
    (''requires'', JStr ''refund''), (''session_id'', JStr ''s'')]"
  have "request_payload (aw_outside example_office) 3 shown_as_followup = JObj ?doc" by code_simp
  then have r: "request example_office 0 3 9 [] shown_as_followup empty_office = (Inr (9, 3), requested_with (JObj ?doc))"
    by (rule requested [rotated 5]) (simp_all add: shown_as_followup_def asked_by_hand_def)
  have "(let (r, ds') = answer example_office 1 some_ids [] 9 yes (requested_with (JObj ?doc)) in
    r = Inr 0 \<and> map hr_id (ds_holds ds') = [3] \<and> map it_state (q_items (ds_queue ds')) = [''resolved''])"
    by code_simp
  then show ?thesis by (simp add: r)
qed

text \<open>
  The same document may name a turn and a shape, and the yes that was to lift a hold then writes a grant.
\<close>

definition shown_as_gated :: request_approval where
  "shown_as_gated = asked_by_hand\<lparr>ra_payload := JObj [(''job_id'', JStr ''j''), (''shape'', JStr ''d'')]\<rparr>"

lemma request_by_hand_is_granted:
  "fst (request example_office 0 3 9 [] shown_as_gated empty_office) = Inr (9, 3) \<and>
   map gw_keyed_on (ds_grants (snd (answer example_office 1 some_ids [] 9 yes
     (snd (request example_office 0 3 9 [] shown_as_gated empty_office))))) = [''d'']"
proof -
  let ?doc = "JObj [(''inhibitor_id'', JStr ''h''), (''job_id'', JStr ''j''), (''reason'', JStr ''large''),
    (''requires'', JStr ''refund''), (''session_id'', JStr ''s''), (''shape'', JStr ''d'')]"
  have "request_payload (aw_outside example_office) 3 shown_as_gated = ?doc" by code_simp
  then have r: "request example_office 0 3 9 [] shown_as_gated empty_office = (Inr (9, 3), requested_with ?doc)"
    by (rule requested [rotated 5]) (simp_all add: shown_as_gated_def asked_by_hand_def)
  have "map gw_keyed_on (ds_grants (snd (answer example_office 1 some_ids [] 9 yes (requested_with ?doc)))) = [''d'']"
    by code_simp
  then show ?thesis by (simp add: r)
qed

text \<open>
  What a caller may do in another workspace is what that workspace gives the roles named in their token,
  not the roles they hold there: the guest of workspace 6, an administrator of workspace 2, may answer in 6.
\<close>

definition their_question :: item_row where
  "their_question = charge_question\<lparr>it_workspace := 6\<rparr>"

definition their_desk :: desk where
  "their_desk = charge_desk\<lparr>ds_queue := \<lparr>q_items = [their_question], q_targets = [target_row_of 6 9 (UserTarget 5)], q_announced = []\<rparr>\<rparr>"

lemma role_of_the_same_name_answers:
  "fst (answer example_office 1 some_ids [] 9 yes their_desk) = Inr 1"
  by code_simp

end
