(* ===== verification/Gated.thy ===== *)
theory Gated
  imports Answering Gates
begin

text \<open>
  Turning a gateway's refusal into somebody being asked, \<open>crates/api/src/gated.rs\<close>, with who is asked
  by risk, of \<open>auto_approval/routes.rs\<close>, and an amount as a page reads it, \<open>auto_approval/money.rs\<close>.
  The gates a turn's skills, hosts and settings come to, the operations its skills declare and the
  policy that would have said yes are arguments, each of a database this model does not hold.
\<close>

section \<open>Data\<close>

definition GATE_HOLDER :: string where "GATE_HOLDER = ''gate''"

record refused =
  rf_session :: uuid
  rf_job :: uuid
  rf_method :: string
  rf_host :: string
  rf_path :: string
  rf_body :: "string option"
  rf_url :: "string option"
  rf_headers :: headers
  rf_operation :: "string option"

record raised =
  rs_item :: "uuid option"
  rs_park :: bool

record money =
  mo_amount :: int
  mo_currency :: string
  mo_minor_units :: nat
  mo_display :: string
  mo_figure :: string

definition money_of :: "int \<Rightarrow> string \<Rightarrow> nat \<Rightarrow> money" where
  "money_of a currency minor_units =
     \<lparr>mo_amount = a, mo_currency = currency, mo_minor_units = minor_units,
      mo_display = format_amount a currency minor_units, mo_figure = figure a minor_units\<rparr>"

definition money_standard :: "int \<Rightarrow> string \<Rightarrow> money" where
  "money_standard a currency = money_of a currency (standard_minor_units currency)"

definition money_members :: "money \<Rightarrow> (string \<times> json) list" where
  "money_members m =
     [(''amount'', json_of_i64 (mo_amount m)), (''currency'', JStr (mo_currency m)),
      (''minor_units'', JNum (PosInt (mo_minor_units m))), (''display'', JStr (mo_display m)),
      (''figure'', JStr (mo_figure m))]"

text \<open>A gate as its declaration describes it, as far as a question needs.\<close>

record declared =
  dl_gate :: gate
  dl_risk :: risk
  dl_amount :: "amount_decl option"
  dl_banding :: "banding option"

record assessed =
  as_risk :: risk
  as_field :: "string option"
  as_money :: "money option"

record gating = office +
  gt_gates_for :: "chat_turn \<Rightarrow> string + gate_set"
  gt_declared :: "uuid \<Rightarrow> uuid \<Rightarrow> string + (string + declared list)"
  gt_would_approve :: "chat_turn \<Rightarrow> gate \<Rightarrow> string \<Rightarrow> string option \<Rightarrow> string option \<Rightarrow> uuid option"
  gt_named :: "uuid \<Rightarrow> string + uuid list"
  gt_asker_for :: "chat_turn \<Rightarrow> string + uuid option"
  gt_debug :: "string \<Rightarrow> string"

section \<open>Its risk, and who is asked\<close>

definition as_object :: "json \<Rightarrow> object option" where
  "as_object v = (case v of JObj o1 \<Rightarrow> Some o1 | _ \<Rightarrow> None)"

definition assess_request ::
  "('a gating_scheme) \<Rightarrow> (string + declared list) \<Rightarrow> gate \<Rightarrow> string option \<Rightarrow> string + assessed option" where
  "assess_request w decls g body =
     (case decls of
        Inl cause \<Rightarrow> Inl (''the declared gates: '' @ cause)
      | Inr ds \<Rightarrow>
     (case find (\<lambda>d. dl_gate d = g) ds of
        None \<Rightarrow> Inr None
      | Some d \<Rightarrow>
     (case (dl_banding d, dl_amount d) of
        (Some banding, Some a) \<Rightarrow>
          (let parsed = (case Option.bind (parse_body (aw_outside w) body) as_object of Some o1 \<Rightarrow> o1 | None \<Rightarrow> []);
               (r, v) = assess banding parsed in
           Inr (Some \<lparr>as_risk = r, as_field = Some (am_field (decl_amount a)),
             as_money = map_option (\<lambda>v. money_of v (am_currency (decl_amount a)) (am_minor_units (decl_amount a))) v\<rparr>))
      | _ \<Rightarrow> Inr (Some \<lparr>as_risk = dl_risk d, as_field = None, as_money = None\<rparr>))))"

fun route_risk :: "(string + assessed option) \<Rightarrow> gate \<Rightarrow> risk" where
  "route_risk (Inr (Some a)) g = as_risk a"
| "route_risk (Inr None) g = (if binds g = [] then Medium else High)"
| "route_risk (Inl cause) g = High"

definition routed :: "risk \<Rightarrow> uuid list \<Rightarrow> uuid list \<Rightarrow> target list" where
  "routed r chosen_roles answerers =
     (let chosen = (case r of High \<Rightarrow> filter (\<lambda>x. x \<in> set answerers) chosen_roles | _ \<Rightarrow> []) in
      map RoleTarget (if chosen = [] then answerers else chosen))"

section \<open>What the question shows\<close>

definition bound_values :: "outside \<Rightarrow> gate \<Rightarrow> string \<Rightarrow> string option \<Rightarrow> json" where
  "bound_values e g path body =
     (let from_path = path_params g;
          wants_body = list_ex (\<lambda>b. b \<notin> set from_path) (binds g);
          readable = (parse_body e body \<noteq> None) in
      (case bound e g path body of
         Inl _ \<Rightarrow> JArr []
       | Inr b \<Rightarrow>
           if wants_body \<and> \<not> readable then JArr []
           else JArr (map (\<lambda>field. json_object [(''field'', JStr field),
             (''value'', case obj_get b field of Some v \<Rightarrow> v | None \<Rightarrow> JNull)]) (binds g))))"

text \<open>What a reader needs to answer from the conversation: what the row carries, and nothing else.\<close>

definition answerable :: "outside \<Rightarrow> action_item \<Rightarrow> json" where
  "answerable e i =
     json_object ((''item_id'', JStr (uuid_text e (ai_id i))) #
       map (member_or_null (ai_payload i)) [''requires'', ''reason'', ''binds'', ''covers'', ''risk'', ''money''])"

definition risk_members :: "assessed option \<Rightarrow> (string \<times> json) list" where
  "risk_members a =
     (case a of
        None \<Rightarrow> []
      | Some a \<Rightarrow>
          (''risk'', JStr (risk_text (as_risk a))) #
          (case as_money a of
             None \<Rightarrow> []
           | Some m \<Rightarrow> [(''money'', json_object (money_members m @ [(''field'', json_opt JStr (as_field a))]))]))"

definition refusal_reason :: "refused \<Rightarrow> string" where
  "refusal_reason inp = to_upper (rf_method inp) @ '' '' @ rf_path inp @ '' on '' @ rf_host inp @ '' needs approval''"

definition refusal_shape :: "outside \<Rightarrow> gate \<Rightarrow> refused \<Rightarrow> string" where
  "refusal_shape e g inp = digest e g (to_upper (rf_method inp)) (rf_host inp) (rf_path inp) (rf_body inp)"

definition question_payload ::
  "outside \<Rightarrow> gate \<Rightarrow> refused \<Rightarrow> uuid \<Rightarrow> uuid \<Rightarrow> assessed option \<Rightarrow> uuid option \<Rightarrow> json" where
  "question_payload e g inp hold_id session_id a verdict =
     json_object ([(''requires'', JStr (gate_requires g)), (''reason'', JStr (refusal_reason inp)),
         (''inhibitor_id'', JStr (uuid_text e hold_id)), (''session_id'', JStr (uuid_text e session_id)),
         (''job_id'', JStr (uuid_text e (rf_job inp))), (''method'', JStr (to_upper (rf_method inp))),
         (''host'', JStr (rf_host inp)), (''path'', JStr (rf_path inp)), (''shape'', JStr (refusal_shape e g inp)),
         (''binds'', bound_values e g (rf_path inp) (rf_body inp))] @
       risk_members a @
       (case verdict of None \<Rightarrow> [] | Some p \<Rightarrow> [(''would_auto_approve'', JStr (uuid_text e p))]) @
       (case (identified_by g, grant_unit e g (rf_path inp) (rf_body inp)) of
          (Some field, Some v) \<Rightarrow> [(''covers'', json_object [(''field'', JStr field), (''unit'', JStr v)])]
        | _ \<Rightarrow> []))"

section \<open>Raising one\<close>

fun path_error_words :: "('a gating_scheme) \<Rightarrow> string \<Rightarrow> string \<Rightarrow> path_error \<Rightarrow> string" where
  "path_error_words w pattern path WrongSegments =
     ''the path '' @ path @ '' does not have the segments '' @ pattern @ '' names once its slashes are decoded''"
| "path_error_words w pattern path (AmbiguousSegment name got) =
     ''the path segment for {'' @ name @ ''} is '' @ gt_debug w got @
     '' once decoded, which a recipient may read as another path''"
| "path_error_words w pattern path NoMatch =
     ''the path '' @ path @ '' does not match '' @ pattern @ '' segment by segment''"

text \<open>What is held has to be what was judged.\<close>

definition as_described :: "('a gating_scheme) \<Rightarrow> refused \<Rightarrow> api_error + unit" where
  "as_described w inp =
     (case rf_url inp of
        None \<Rightarrow> Inr ()
      | Some u \<Rightarrow>
          (case aw_parse_url w u of
             None \<Rightarrow> Inl (400, ''that URL is not one'')
           | Some p \<Rightarrow> check_that (url_host p = Some (rf_host inp) \<and> url_path p = rf_path inp)
               (400, ''the URL relayed is not the request described'')))"

definition small_enough :: "refused \<Rightarrow> api_error + unit" where
  "small_enough inp =
     check_that (case rf_body inp of Some b \<Rightarrow> length b \<le> BODY_LIMIT | None \<Rightarrow> True)
       (413, ''that request's body is larger than '' @ nat_text BODY_LIMIT @
         '' bytes, so it cannot be held for approval'')"

text \<open>The gate still standing: of those covering the request, one no grant of the turn permits it through.\<close>

definition standing_gate :: "('a gating_scheme) \<Rightarrow> chat_turn \<Rightarrow> gate_set \<Rightarrow> refused \<Rightarrow> desk \<Rightarrow> api_error + gate" where
  "standing_gate w t gs inp ds =
     (case unpermitted (aw_outside w) (with_grants gs (live_for (ds_grants ds) (ct_workspace t) (rf_job inp)))
         (rf_host inp) (to_upper (rf_method inp)) (rf_path inp) (rf_body inp) of
        None \<Rightarrow> Inl (403, ''that request is not one this turn has to have approved'')
      | Some g \<Rightarrow>
          (case path_values (gate_path g) (rf_path inp) of
             Inl err \<Rightarrow> Inl (400, path_error_words w (gate_path g) (rf_path inp) err)
           | Inr _ \<Rightarrow> Inr g))"

text \<open>The turn a refusal is about and the gate it is refused at, derived again from what this tier knows.\<close>

definition refused_at :: "('a gating_scheme) \<Rightarrow> headers \<Rightarrow> refused \<Rightarrow> desk \<Rightarrow> api_error + (chat_turn \<times> gate)" where
  "refused_at w hs inp ds =
     try_step (leased_turn (aw_authorize w) (aw_parse_uuid w) (ds_jobs ds) hs (rf_job inp)) (\<lambda>(j, t).
     if ct_session t \<noteq> rf_session inp then Inl (403, ''that turn is not for that conversation'')
     else
     try_step (map_error (\<lambda>cause. (500, cause)) (gt_gates_for w t)) (\<lambda>gs.
     try_step (as_described w inp) (\<lambda>_.
     try_step (small_enough inp) (\<lambda>_.
     try_step (standing_gate w t gs inp ds) (\<lambda>g. Inr (t, g))))))"

text \<open>Who is asked, or why nobody can be.\<close>

definition asked_of :: "('a gating_scheme) \<Rightarrow> uuid \<Rightarrow> risk \<Rightarrow> api_error + target list" where
  "asked_of w workspace_id r =
     (case (aw_roles_with w workspace_id ApprovalsAnswer, case r of High \<Rightarrow> gt_named w workspace_id | _ \<Rightarrow> Inr []) of
        (Inr answerers, Inr chosen_roles) \<Rightarrow>
          (case routed r chosen_roles answerers of
             [] \<Rightarrow> Inl (403, ''that request needs approval and nobody in this workspace may give it'')
           | ts \<Rightarrow> Inr ts)
      | (Inl err, _) \<Rightarrow> Inl err
      | (_, Inl cause) \<Rightarrow> Inl (503, ''who is asked about that request could not be read, so it stays refused''))"

definition query_of :: "('a gating_scheme) \<Rightarrow> refused \<Rightarrow> string option" where
  "query_of w inp = Option.bind (Option.bind (rf_url inp) (aw_parse_url w)) url_query"

text \<open>The request itself, beside the item; not fatal where it fails, but for who asked not being read.\<close>

definition hold_refused :: "('a gating_scheme) \<Rightarrow> uuid \<Rightarrow> chat_turn \<Rightarrow> gate \<Rightarrow> refused \<Rightarrow> uuid \<Rightarrow> desk \<Rightarrow> (api_error + unit) \<times> desk" where
  "hold_refused w held_id t g inp item_id ds =
     (case rf_url inp of
        None \<Rightarrow> (Inr (), ds)
      | Some u \<Rightarrow>
          (case gt_asker_for w t of
             Inl cause \<Rightarrow> (Inl (500, cause), ds)
           | Inr asker \<Rightarrow>
               (Inr (), snd (hold_request held_id
                 \<lparr>nh_workspace = ct_workspace t, nh_item = item_id, nh_session = ct_session t, nh_job = rf_job inp,
                  nh_requires = gate_requires g, nh_shape = refusal_shape (aw_outside w) g inp,
                  nh_operation = rf_operation inp, nh_method = to_upper (rf_method inp), nh_url = u,
                  nh_headers = rf_headers inp, nh_body = rf_body inp, nh_asker = asker\<rparr> ds))))"

definition question_item :: "('a gating_scheme) \<Rightarrow> chat_turn \<Rightarrow> gate \<Rightarrow> refused \<Rightarrow> uuid \<Rightarrow> (string + assessed option) \<Rightarrow> target list \<Rightarrow> new_item" where
  "question_item w t g inp hold_id a ts =
     (let verdict = (case gt_declared w (ct_workspace t) (ct_agent t) of
            Inr _ \<Rightarrow> gt_would_approve w t g (rf_path inp) (query_of w inp) (rf_body inp)
          | Inl _ \<Rightarrow> None) in
      \<lparr>ni_kind = ''approval.'' @ gate_requires g, ni_event = None, ni_inhibitor = Some hold_id,
       ni_payload = question_payload (aw_outside w) g inp hold_id (ct_session t)
         (case a of Inr x \<Rightarrow> x | Inl _ \<Rightarrow> None) verdict,
       ni_targets = ts, ni_expires = None\<rparr>)"

definition assessment :: "('a gating_scheme) \<Rightarrow> chat_turn \<Rightarrow> gate \<Rightarrow> refused \<Rightarrow> string + assessed option" where
  "assessment w t g inp =
     (case gt_declared w (ct_workspace t) (ct_agent t) of
        Inl cause \<Rightarrow> Inl (''the agent's skills: '' @ cause)
      | Inr decls \<Rightarrow> assess_request w decls g (rf_body inp))"

record raise_ids =
  ri_hold :: uuid
  ri_item :: uuid
  ri_held :: uuid

text \<open>With the hold taken: who is asked, the question, and the request held beside it.\<close>

definition ask_about ::
  "('a gating_scheme) \<Rightarrow> time \<Rightarrow> raise_ids \<Rightarrow> chat_turn \<Rightarrow> gate \<Rightarrow> refused \<Rightarrow> uuid \<Rightarrow> desk \<Rightarrow> (api_error + raised) \<times> desk" where
  "ask_about w now ids t g inp hold_id ds =
     (let a = assessment w t g inp;
          given_back = (\<lambda>ds. ds\<lparr>ds_holds := snd (release_hold hold_id (ds_holds ds))\<rparr>) in
      (case asked_of w (ct_workspace t) (route_risk a g) of
         Inl err \<Rightarrow> (Inl err, given_back ds)
       | Inr ts \<Rightarrow>
      (case raise_item (aw_jsonb_text w) now (ri_item ids) (ct_workspace t) (question_item w t g inp hold_id a ts)
           (ds_queue ds) of
         (Inr i, q) \<Rightarrow>
           (case hold_refused w (ri_held ids) t g inp i (ds\<lparr>ds_queue := q\<rparr>) of
              (Inl err, ds1) \<Rightarrow> (Inl err, ds1)
            | (Inr _, ds1) \<Rightarrow> (Inr \<lparr>rs_item = Some i, rs_park = True\<rparr>, ds1))
       | (Inl err, q) \<Rightarrow>
           (let ds1 = given_back (ds\<lparr>ds_queue := q\<rparr>) in
            (case approval_on_session (ds_holds ds1) (ds_queue ds1) (ct_workspace t) (ct_session t) of
               Inr (Some existing) \<Rightarrow> (Inr \<lparr>rs_item = Some (ai_id existing), rs_park = True\<rparr>, ds1)
             | _ \<Rightarrow> (Inl (internally err), ds1))))))"

definition raise_refused ::
  "('a gating_scheme) \<Rightarrow> time \<Rightarrow> raise_ids \<Rightarrow> headers \<Rightarrow> refused \<Rightarrow> desk \<Rightarrow> (api_error + raised) \<times> desk" where
  "raise_refused w now ids hs inp ds =
     (case refused_at w hs inp ds of
        Inl err \<Rightarrow> (Inl err, ds)
      | Inr (t, g) \<Rightarrow>
     (case approval_on_session (ds_holds ds) (ds_queue ds) (ct_workspace t) (ct_session t) of
        Inl err \<Rightarrow> (Inl (internally err), ds)
      | Inr (Some existing) \<Rightarrow> (Inr \<lparr>rs_item = Some (ai_id existing), rs_park = True\<rparr>, ds)
      | Inr None \<Rightarrow>
     (case take_inhibitor (ri_hold ids) now \<lparr>th_scope = SessionScope (ct_workspace t) (ct_session t),
          th_strength = SuspendedHold, th_reason = refusal_reason inp, th_held_by = GATE_HOLDER\<rparr> (ds_holds ds) of
        (Inl err, hs1) \<Rightarrow> (Inl (hold_api_error err), ds\<lparr>ds_holds := hs1\<rparr>)
      | (Inr held, hs1) \<Rightarrow> ask_about w now ids t g inp (in_id held) (ds\<lparr>ds_holds := hs1\<rparr>))))"

section \<open>What is written is what is read\<close>

lemma as_named_object [simp]: "as_named places (json_object ms) = Some (json_object ms)"
  by (simp add: json_object_def)

definition offer_of :: "outside \<Rightarrow> gate \<Rightarrow> refused \<Rightarrow> covers_offer option" where
  "offer_of e g inp =
     (case (identified_by g, grant_unit e g (rf_path inp) (rf_body inp)) of
        (Some field, Some v) \<Rightarrow> Some \<lparr>co_field = field, co_unit = v\<rparr>
      | _ \<Rightarrow> None)"

lemma question_members:
  "json_get (question_payload e g inp h s a v) ''requires'' = Some (JStr (gate_requires g))"
  "json_get (question_payload e g inp h s a v) ''shape'' = Some (JStr (refusal_shape e g inp))"
  "json_get (question_payload e g inp h s a v) ''job_id'' = Some (JStr (uuid_text e (rf_job inp)))"
  "json_get (question_payload e g inp h s a v) ''session_id'' = Some (JStr (uuid_text e s))"
  "json_get (question_payload e g inp h s a v) ''inhibitor_id'' = Some (JStr (uuid_text e h))"
  "json_get (question_payload e g inp h s a v) ''followup'' = None"
  "json_get (question_payload e g inp h s a v) ''covers'' =
     map_option (\<lambda>o1. json_object [(''field'', JStr (co_field o1)), (''unit'', JStr (co_unit o1))]) (offer_of e g inp)"
  by (simp_all add: question_payload_def json_get_object risk_members_def offer_of_def split: option.split)

lemma covers_read_back [simp]:
  "read_covers (json_object [(''field'', JStr f), (''unit'', JStr u)]) = Some \<lparr>co_field = f, co_unit = u\<rparr>"
  by (simp add: read_covers_def text_at_def json_get_object)

lemma question_as_read:
  assumes "\<And>u. p (uuid_text e u) = Some u"
  shows "read_gate_record p (question_payload e g inp hold_id session_id a verdict) =
      Some \<lparr>gk_requires = gate_requires g, gk_shape = refusal_shape e g inp, gk_job = rf_job inp,
        gk_session = session_id, gk_covers = offer_of e g inp\<rparr> \<and>
    uuid_at p (question_payload e g inp hold_id session_id a verdict) ''inhibitor_id'' = Some hold_id \<and>
    json_get (question_payload e g inp hold_id session_id a verdict) ''followup'' = None"
proof -
  let ?q = "question_payload e g inp hold_id session_id a verdict"
  have "as_named places ?q = Some ?q" for places by (simp add: question_payload_def)
  moreover have "(case map_option (\<lambda>o1. json_object [(''field'', JStr (co_field o1)), (''unit'', JStr (co_unit o1))]) x of
      None \<Rightarrow> Some None | Some JNull \<Rightarrow> Some None | Some c \<Rightarrow> map_option Some (read_covers c)) = Some x" for x
  proof (cases x)
    case (Some offer)
    obtain o1 where o1: "json_object [(''field'', JStr (co_field offer)), (''unit'', JStr (co_unit offer))] = JObj o1"
      by (simp add: json_object_def)
    moreover have "read_covers (JObj o1) = Some offer" using covers_read_back [of "co_field offer" "co_unit offer"] o1 by simp
    ultimately show ?thesis using Some by simp
  qed simp
  ultimately show ?thesis
    using assms by (simp add: read_gate_record_def text_at_def uuid_at_def question_members)
qed

text \<open>
  What a question is raised with is what its answer reads. The document raising writes gives back,
  read as answering reads it, the act, the shape and the turn that were refused, and the wider unit just
  where the gate names one and the request carries it -- whatever else the question shows.
\<close>
theorem question_reads_back:
  assumes "\<And>u. p (uuid_text e u) = Some u"
  shows "read_gate_record p (question_payload e g inp hold_id session_id a verdict) =
      Some \<lparr>gk_requires = gate_requires g, gk_shape = refusal_shape e g inp, gk_job = rf_job inp,
        gk_session = session_id, gk_covers = offer_of e g inp\<rparr> \<and>
    uuid_at p (question_payload e g inp hold_id session_id a verdict) ''inhibitor_id'' = Some hold_id \<and>
    json_get (question_payload e g inp hold_id session_id a verdict) ''followup'' = None"
  using assms by (rule question_as_read)

definition charge_refused :: refused where
  "charge_refused = \<lparr>rf_session = 8, rf_job = 7, rf_method = ''post'', rf_host = ''ab.c'', rf_path = ''/charges'',
     rf_body = Some ''1'', rf_url = Some ''https://ab.c/charges'', rf_headers = [], rf_operation = None\<rparr>"

lemma question_reads_back_witness:
  "\<exists>p. read_gate_record p (question_payload toy_outside charge_gate charge_refused 3 8 None None) =
      Some \<lparr>gk_requires = ''charge'', gk_shape = refusal_shape toy_outside charge_gate charge_refused, gk_job = rf_job charge_refused,
        gk_session = 8, gk_covers = None\<rparr>"
proof -
  have "inv (uuid_text toy_outside) (uuid_text toy_outside u) = u" for u
    using toy_uuid_forms by (simp add: uuid_forms_def)
  then show ?thesis
    using question_reads_back [of "\<lambda>s. Some (inv (uuid_text toy_outside) s)" toy_outside charge_gate charge_refused 3 8 None None]
    by (auto simp: charge_gate_def offer_of_def)
qed

section \<open>Whom a question goes to\<close>

lemma refused_at_Inr:
  assumes "refused_at w hs inp ds = Inr (t, g)"
  obtains j gs where "leased_turn (aw_authorize w) (aw_parse_uuid w) (ds_jobs ds) hs (rf_job inp) = Inr (j, t)"
    "ct_session t = rf_session inp" "gt_gates_for w t = Inr gs" "g \<in> set (gs_gates gs)"
    "covers_request g (rf_host inp) (to_upper (rf_method inp)) (rf_path inp)"
    "\<And>gr. gr \<in> set (live_for (ds_grants ds) (ct_workspace t) (rf_job inp)) \<Longrightarrow>
       \<not> permits (aw_outside w) gr g (to_upper (rf_method inp)) (rf_host inp) (rf_path inp) (rf_body inp)"
    "as_described w inp = Inr ()" "small_enough inp = Inr ()" "\<exists>vs. path_values (gate_path g) (rf_path inp) = Inr vs"
proof -
  obtain j gs where l: "leased_turn (aw_authorize w) (aw_parse_uuid w) (ds_jobs ds) hs (rf_job inp) = Inr (j, t)"
      "ct_session t = rf_session inp" "gt_gates_for w t = Inr gs" "as_described w inp = Inr ()" "small_enough inp = Inr ()"
      and st: "standing_gate w t gs inp ds = Inr g"
    using assms by (auto simp: refused_at_def split: if_splits prod.splits)
  from st have u: "unpermitted (aw_outside w) (with_grants gs (live_for (ds_grants ds) (ct_workspace t) (rf_job inp)))
      (rf_host inp) (to_upper (rf_method inp)) (rf_path inp) (rf_body inp) = Some g"
    and p: "\<exists>vs. path_values (gate_path g) (rf_path inp) = Inr vs"
    by (auto simp: standing_gate_def split: option.splits sum.splits)
  from u have "g \<in> set (gs_gates gs)" "covers_request g (rf_host inp) (to_upper (rf_method inp)) (rf_path inp)"
    "permitted (aw_outside w) (with_grants gs (live_for (ds_grants ds) (ct_workspace t) (rf_job inp))) g
      (to_upper (rf_method inp)) (rf_host inp) (rf_path inp) (rf_body inp) = None"
    by (auto simp: unpermitted_def find_Some_iff covering_all_def with_grants_def dest!: nth_mem)
  then show thesis using that l p by (auto simp: permitted_None_iff with_grants_def)
qed

lemma routed_set: "set (routed r chosen answerers) \<subseteq> RoleTarget ` set answerers"
  by (auto simp: routed_def Let_def split: risk.splits)

lemma asked_of_Inr:
  assumes "asked_of w ws r = Inr ts"
  obtains answerers role where "aw_roles_with w ws ApprovalsAnswer = Inr answerers" "ts \<noteq> []"
    "set ts \<subseteq> RoleTarget ` set answerers" "RoleTarget role \<in> set ts" "role \<in> set answerers"
proof -
  obtain answerers chosen where "aw_roles_with w ws ApprovalsAnswer = Inr answerers" "ts \<noteq> []" "ts = routed r chosen answerers"
    using assms by (auto simp: asked_of_def split: sum.splits list.splits) (metis list.distinct(1))
  moreover from this have "set ts \<subseteq> RoleTarget ` set answerers" using routed_set by simp
  moreover have "hd ts \<in> set ts" using \<open>ts \<noteq> []\<close> by simp
  moreover obtain role where "hd ts = RoleTarget role" "role \<in> set answerers" using calculation by blast
  ultimately show thesis using that by metis
qed

lemma raise_item_Inr:
  "raise_item jt now i ws inp q = (Inr i', q') \<Longrightarrow>
     i' = i \<and> q_items q' = q_items q @ [item_row_of now ws i inp] \<and>
     set (q_targets q') = set (q_targets q) \<union> target_row_of ws i ` set (ni_targets inp)"
  by (auto simp: raise_item_def Let_def set_insert_targets split: sum.splits if_splits)

lemma raise_item_Inl: "raise_item jt now i ws inp q = (Inl err, q') \<Longrightarrow> q' = q"
  by (auto simp: raise_item_def Let_def split: sum.splits if_splits)

lemma ask_about_Inr:
  assumes "ask_about w now ids t g inp h ds = (r, ds')"
  shows "ds_holds ds' = snd (release_hold h (ds_holds ds)) \<and> ds_queue ds' = ds_queue ds \<and> ds_held ds' = ds_held ds \<or>
    (\<exists>ts. asked_of w (ct_workspace t) (route_risk (assessment w t g inp) g) = Inr ts \<and> ds_holds ds' = ds_holds ds \<and>
      q_items (ds_queue ds') = q_items (ds_queue ds) @ [item_row_of now (ct_workspace t) (ri_item ids)
        (question_item w t g inp h (assessment w t g inp) ts)] \<and>
      target_row_of (ct_workspace t) (ri_item ids) ` set ts \<subseteq> set (q_targets (ds_queue ds')))"
proof (cases "asked_of w (ct_workspace t) (route_risk (assessment w t g inp) g)")
  case (Inl err)
  then show ?thesis using assms by (simp add: ask_about_def) auto
next
  case (Inr ts)
  obtain res q where raised: "raise_item (aw_jsonb_text w) now (ri_item ids) (ct_workspace t)
      (question_item w t g inp h (assessment w t g inp) ts) (ds_queue ds) = (res, q)"
    by (metis surj_pair)
  show ?thesis
  proof (cases res)
    case (Inl err)
    then show ?thesis
      using assms raised raise_item_Inl [of _ _ _ _ _ _ err q] Inr
      by (auto simp: ask_about_def Let_def split: sum.splits option.splits)
  next
    case (Inr i)
    obtain r2 d2 where held: "hold_refused w (ri_held ids) t g inp i (ds\<lparr>ds_queue := q\<rparr>) = (r2, d2)" by (metis surj_pair)
    then have "ds_holds d2 = ds_holds ds \<and> ds_queue d2 = q"
      by (auto simp: hold_refused_def hold_request_def split: option.splits sum.splits)
    then have "ds_holds ds' = ds_holds ds \<and> ds_queue ds' = q"
      using assms raised Inr \<open>asked_of _ _ _ = Inr ts\<close> by (auto simp: ask_about_def Let_def held split: sum.splits)
    moreover have "ni_targets (question_item w t g inp h (assessment w t g inp) ts) = ts"
      by (simp add: question_item_def Let_def)
    ultimately show ?thesis
      using raise_item_Inr [of _ _ _ _ _ _ i q] raised Inr \<open>asked_of _ _ _ = Inr ts\<close> by (metis Un_upper2)
  qed
qed

lemma hold_refused_held:
  "x \<in> set (ds_held (snd (hold_refused w i t g inp k ds))) \<Longrightarrow> x \<notin> set (ds_held ds) \<Longrightarrow>
     rf_url inp = Some (hd_url x) \<and> hd_body x = rf_body inp \<and> hd_method x = to_upper (rf_method inp) \<and>
     hd_state x = ''held'' \<and> hd_shape x = refusal_shape (aw_outside w) g inp"
  by (auto simp: hold_refused_def hold_request_def split: option.splits sum.splits)

lemma ask_about_held:
  assumes "ask_about w now ids t g inp h ds = (r, ds')" and "x \<in> set (ds_held ds')" and "x \<notin> set (ds_held ds)"
  shows "rf_url inp = Some (hd_url x) \<and> hd_body x = rf_body inp \<and> hd_method x = to_upper (rf_method inp) \<and>
    hd_state x = ''held'' \<and> hd_shape x = refusal_shape (aw_outside w) g inp"
proof -
  have "\<exists>i d. ds_held d = ds_held ds \<and> (ds_held ds' = ds_held d \<or> ds_held ds' = ds_held (snd (hold_refused w (ri_held ids) t g inp i d)))"
    using assms(1)
    by (auto simp: ask_about_def Let_def split: sum.splits prod.splits option.splits)
      (metis snd_conv desk.select_convs desk.surjective desk.update_convs)+
  then show ?thesis using assms(2,3) hold_refused_held by metis
qed

lemma taken_for_session:
  assumes "take_inhibitor i now \<lparr>th_scope = SessionScope ws ss, th_strength = st, th_reason = why1, th_held_by = who\<rparr> db = (r, db')"
  shows "(\<exists>err. r = Inl err) \<and> db' = db \<or>
    (\<exists>row inh. r = Inr inh \<and> in_id inh = i \<and> db' = db @ [row] \<and> hr_id row = i \<and> read_scope row = Inr (SessionScope ws ss))"
proof (cases "trim why1 = [] \<or> trim who = []")
  case True
  then show ?thesis using assms by (auto simp: take_inhibitor_def split: if_splits)
next
  case False
  define row where "row = \<lparr>hr_id = i, hr_level = ''session'', hr_workspace = Some ws, hr_agent = None, hr_session = Some ss,
    hr_strength = strength_text st, hr_reason = trim why1, hr_held_by = trim who, hr_created = now\<rparr>"
  have "read_scope row = Inr (SessionScope ws ss)" by (simp add: read_scope_Inr row_def)
  moreover from this obtain inh where "read_hold row = Inr inh" "in_id inh = i" by (simp add: read_hold_def row_def)
  moreover have "r = read_hold row" "db' = db @ [row]" "hr_id row = i"
    using assms False by (simp_all add: take_inhibitor_def Let_def row_def)
  ultimately show ?thesis by auto
qed

text \<open>
  C24. No hold without its question. Whatever raising a refusal comes to, it leaves the holds as they
  were, or it leaves one more, on the one conversation, and with it a pending question that names it and
  is addressed to a role whose holders may answer: a turn is not parked on a question nobody is asked.
\<close>
theorem no_hold_without_its_question:
  assumes "raise_refused w now ids hs inp ds = (r, ds')" and "ri_hold ids \<notin> hr_id ` set (ds_holds ds)"
  shows "ds_holds ds' = ds_holds ds \<or>
    (\<exists>hold x role answerers. ds_holds ds' = ds_holds ds @ [hold] \<and>
      read_scope hold = Inr (SessionScope (it_workspace x) (rf_session inp)) \<and>
      x \<in> set (q_items (ds_queue ds')) \<and> it_state x = ''pending'' \<and> is_approval (it_kind x) \<and>
      it_inhibitor x = Some (hr_id hold) \<and>
      target_row_of (it_workspace x) (it_id x) (RoleTarget role) \<in> set (q_targets (ds_queue ds')) \<and>
      aw_roles_with w (it_workspace x) ApprovalsAnswer = Inr answerers \<and> role \<in> set answerers)"
proof (cases "ds_holds ds' = ds_holds ds")
  case False
  then obtain t g where tg: "refused_at w hs inp ds = Inr (t, g)"
    and none: "approval_on_session (ds_holds ds) (ds_queue ds) (ct_workspace t) (ct_session t) = Inr None"
    using assms(1) by (auto simp: raise_refused_def split: sum.splits option.splits)
  obtain res holds1 where tk: "take_inhibitor (ri_hold ids) now \<lparr>th_scope = SessionScope (ct_workspace t) (ct_session t),
        th_strength = SuspendedHold, th_reason = refusal_reason inp, th_held_by = GATE_HOLDER\<rparr> (ds_holds ds) = (res, holds1)"
    by (metis surj_pair)
  from taken_for_session [OF this] False assms(1) tg none obtain row inh where row: "res = Inr inh" "in_id inh = ri_hold ids"
    "holds1 = ds_holds ds @ [row]" "hr_id row = ri_hold ids" "read_scope row = Inr (SessionScope (ct_workspace t) (ct_session t))"
    by (auto simp: raise_refused_def tk)
  have ask: "ask_about w now ids t g inp (ri_hold ids) (ds\<lparr>ds_holds := ds_holds ds @ [row]\<rparr>) = (r, ds')"
    using assms(1) tg none tk row by (simp add: raise_refused_def)
  have given_back: "snd (release_hold (ri_hold ids) (ds_holds ds @ [row])) = ds_holds ds"
  proof -
    have "\<forall>x \<in> set (ds_holds ds). hr_id x \<noteq> ri_hold ids"
      using assms(2) unfolding image_iff by metis
    then show ?thesis using row(4) by (simp add: release_hold_def filter_True)
  qed
  obtain ts where ts: "asked_of w (ct_workspace t) (route_risk (assessment w t g inp) g) = Inr ts"
      "ds_holds ds' = ds_holds ds @ [row]"
      "q_items (ds_queue ds') = q_items (ds_queue ds) @ [item_row_of now (ct_workspace t) (ri_item ids)
        (question_item w t g inp (ri_hold ids) (assessment w t g inp) ts)]"
      "target_row_of (ct_workspace t) (ri_item ids) ` set ts \<subseteq> set (q_targets (ds_queue ds'))"
    using ask_about_Inr [OF ask] given_back False by auto
  obtain answerers role where "aw_roles_with w (ct_workspace t) ApprovalsAnswer = Inr answerers"
      "RoleTarget role \<in> set ts" "role \<in> set answerers"
    using asked_of_Inr [OF ts(1)] by metis
  moreover have "ct_session t = rf_session inp" using refused_at_Inr [OF tg] by metis
  moreover define x where "x = item_row_of now (ct_workspace t) (ri_item ids)
        (question_item w t g inp (ri_hold ids) (assessment w t g inp) ts)"
  moreover have "it_workspace x = ct_workspace t" "it_id x = ri_item ids" "it_state x = ''pending''"
      "is_approval (it_kind x)" "it_inhibitor x = Some (hr_id row)"
    using row(4) by (simp_all add: x_def item_row_of_def question_item_def Let_def is_approval_def starts_with_iff)
  ultimately show ?thesis using ts row(5)
    by (intro disjI2 exI [of _ row] exI [of _ x] exI [of _ role] exI [of _ answerers]) auto
qed simp

text \<open>
  C18. Only a refusal that really was one is asked about. If raising changes anything, then the runtime
  holds the lease of the turn it names and the turn is of the conversation it names; the turn's own gates,
  derived again here, have one that covers the request and that no grant the turn has permits it through;
  nothing was being asked in the conversation; and a URL relayed with it is of the host and path judged.
  Every question it adds shows that request and its shape at that gate, and every request it holds is the
  one relayed.
\<close>
theorem only_a_refusal_is_asked_about:
  assumes "raise_refused w now ids hs inp ds = (r, ds')" and "ds' \<noteq> ds"
  shows "\<exists>j t gs g. leased_turn (aw_authorize w) (aw_parse_uuid w) (ds_jobs ds) hs (rf_job inp) = Inr (j, t) \<and>
    ct_session t = rf_session inp \<and> gt_gates_for w t = Inr gs \<and> g \<in> set (gs_gates gs) \<and>
    covers_request g (rf_host inp) (to_upper (rf_method inp)) (rf_path inp) \<and>
    (\<forall>gr \<in> set (live_for (ds_grants ds) (ct_workspace t) (rf_job inp)).
       \<not> permits (aw_outside w) gr g (to_upper (rf_method inp)) (rf_host inp) (rf_path inp) (rf_body inp)) \<and>
    approval_on_session (ds_holds ds) (ds_queue ds) (ct_workspace t) (rf_session inp) = Inr None \<and>
    (\<forall>u. rf_url inp = Some u \<longrightarrow>
       (\<exists>p. aw_parse_url w u = Some p \<and> url_host p = Some (rf_host inp) \<and> url_path p = rf_path inp)) \<and>
    (\<forall>x \<in> set (q_items (ds_queue ds')). x \<notin> set (q_items (ds_queue ds)) \<longrightarrow>
       it_kind x = ''approval.'' @ gate_requires g \<and>
       (\<exists>a v. it_payload x = question_payload (aw_outside w) g inp (ri_hold ids) (rf_session inp) a v)) \<and>
    (\<forall>x \<in> set (ds_held ds'). x \<notin> set (ds_held ds) \<longrightarrow>
       rf_url inp = Some (hd_url x) \<and> hd_body x = rf_body inp \<and> hd_method x = to_upper (rf_method inp) \<and>
       hd_state x = ''held'' \<and> hd_shape x = refusal_shape (aw_outside w) g inp)"
proof -
  obtain t g where tg: "refused_at w hs inp ds = Inr (t, g)"
    and none: "approval_on_session (ds_holds ds) (ds_queue ds) (ct_workspace t) (ct_session t) = Inr None"
    using assms by (auto simp: raise_refused_def split: sum.splits option.splits)
  obtain res holds1 where tk: "take_inhibitor (ri_hold ids) now \<lparr>th_scope = SessionScope (ct_workspace t) (ct_session t),
        th_strength = SuspendedHold, th_reason = refusal_reason inp, th_held_by = GATE_HOLDER\<rparr> (ds_holds ds) = (res, holds1)"
    by (metis surj_pair)
  have "\<exists>db. ds' = ds\<lparr>ds_holds := db\<rparr> \<or> ask_about w now ids t g inp (ri_hold ids) (ds\<lparr>ds_holds := db\<rparr>) = (r, ds')"
    using taken_for_session [OF tk] assms tg none by (auto simp: raise_refused_def tk)
  then obtain db where db: "ds' = ds\<lparr>ds_holds := db\<rparr> \<or> ask_about w now ids t g inp (ri_hold ids) (ds\<lparr>ds_holds := db\<rparr>) = (r, ds')" ..
  have items: "it_kind x = ''approval.'' @ gate_requires g \<and>
       (\<exists>a v. it_payload x = question_payload (aw_outside w) g inp (ri_hold ids) (ct_session t) a v)"
    if new: "x \<in> set (q_items (ds_queue ds'))" "x \<notin> set (q_items (ds_queue ds))" for x
  proof -
    from db have "ds_queue ds' = ds_queue ds \<or> (\<exists>ts. q_items (ds_queue ds') = q_items (ds_queue ds) @
        [item_row_of now (ct_workspace t) (ri_item ids) (question_item w t g inp (ri_hold ids) (assessment w t g inp) ts)])"
      by (auto dest!: ask_about_Inr)
    then obtain ts where "x = item_row_of now (ct_workspace t) (ri_item ids)
        (question_item w t g inp (ri_hold ids) (assessment w t g inp) ts)" using new by auto
    then show ?thesis by (auto simp: item_row_of_def question_item_def Let_def)
  qed
  have held: "rf_url inp = Some (hd_url x) \<and> hd_body x = rf_body inp \<and> hd_method x = to_upper (rf_method inp) \<and>
       hd_state x = ''held'' \<and> hd_shape x = refusal_shape (aw_outside w) g inp"
    if "x \<in> set (ds_held ds')" "x \<notin> set (ds_held ds)" for x
    using db that ask_about_held [of w now ids t g inp "ri_hold ids" "ds\<lparr>ds_holds := db\<rparr>" r ds' x] by auto
  have url: "\<exists>p. aw_parse_url w u = Some p \<and> url_host p = Some (rf_host inp) \<and> url_path p = rf_path inp"
    if "as_described w inp = Inr ()" "rf_url inp = Some u" for u
    using that by (auto simp: as_described_def split: option.splits)
  show ?thesis
  proof (rule refused_at_Inr [OF tg])
    fix j gs
    assume "leased_turn (aw_authorize w) (aw_parse_uuid w) (ds_jobs ds) hs (rf_job inp) = Inr (j, t)"
      "ct_session t = rf_session inp" "gt_gates_for w t = Inr gs" "g \<in> set (gs_gates gs)"
      "covers_request g (rf_host inp) (to_upper (rf_method inp)) (rf_path inp)"
      "\<And>gr. gr \<in> set (live_for (ds_grants ds) (ct_workspace t) (rf_job inp)) \<Longrightarrow>
         \<not> permits (aw_outside w) gr g (to_upper (rf_method inp)) (rf_host inp) (rf_path inp) (rf_body inp)"
      "as_described w inp = Inr ()"
    then show ?thesis using none items held url
      by (intro exI [of _ j] exI [of _ t] exI [of _ gs] exI [of _ g]) auto
  qed
qed

section \<open>From the refusal to what its yes lets out\<close>

text \<open>
  C4. A yes lets out what was shown and nothing else. Where the question answered is one raising wrote
  about a refused request, a grant its answer writes permits, through the gate it was raised at, only a
  request with the same method, host and path and the same value in every field the gate binds -- or,
  where the wider unit was offered and ticked, one carrying that same unit -- as long as no string
  digested holds the separating byte and the two digests are no collision.
\<close>
theorem yes_lets_out_what_was_shown:
  assumes "answer w now fr hs item_id inp ds = (Inr n, ds')" and "row \<in> set (ds_grants ds')" "row \<notin> set (ds_grants ds)"
    and "\<And>r. r \<in> set (q_items (ds_queue ds)) \<Longrightarrow> it_id r = item_id \<Longrightarrow>
      \<exists>h s a v. it_payload r = question_payload (aw_outside w) g rq h s a v"
    and "\<And>u. aw_parse_uuid w (uuid_text (aw_outside w) u) = Some u"
    and "granted_row row = Some gr" and "permits (aw_outside w) gr g m h p body"
    and "no_collision (aw_outside w)
      {digest_input (aw_outside w) g (to_upper (rf_method rq)) (rf_host rq) (rf_path rq) (rf_body rq),
       digest_input (aw_outside w) g m h p body}"
    and "request_clean (to_upper (rf_method rq)) (rf_host rq) (rf_path rq)" and "request_clean m h p"
    and "bound (aw_outside w) g (rf_path rq) (rf_body rq) = Inr b" and "bound (aw_outside w) g p body = Inr b'"
    and "list_all (\<lambda>f. value_clean (aw_outside w) (obj_get b f) \<and> value_clean (aw_outside w) (obj_get b' f)) (binds g)"
  shows "(to_upper m = to_upper (rf_method rq) \<and> to_lower h = to_lower (rf_host rq) \<and>
      normalize_path p = normalize_path (rf_path rq) \<and>
      list_all (\<lambda>f. same_value (aw_outside w) (obj_get b f) (obj_get b' f)) (binds g)) \<or>
    (an_covers_unit inp \<and> grant_unit (aw_outside w) g p body \<noteq> None \<and>
      grant_unit (aw_outside w) g p body = grant_unit (aw_outside w) g (rf_path rq) (rf_body rq))"
proof -
  let ?e = "aw_outside w"
  obtain c r rec where r: "owed_to w c ds r" "it_id r = item_id" "read_gate_record (aw_parse_uuid w) (it_payload r) = Some rec"
    and how: "(gw_extent row = ''call'' \<and> gw_keyed_on row = gk_shape rec) \<or>
      (gw_extent row = ''unit'' \<and> an_covers_unit inp \<and> (\<exists>cv. gk_covers rec = Some cv \<and> gw_keyed_on row = co_unit cv))"
    using answer_was_asked [OF assms(1-3)] by blast
  obtain hd s a v where "it_payload r = question_payload ?e g rq hd s a v"
    using assms(4) [OF _ r(2)] r(1) unfolding owed_to_def by blast
  then have rec: "gk_shape rec = refusal_shape ?e g rq" "gk_covers rec = offer_of ?e g rq"
    using r(3) question_as_read [of "aw_parse_uuid w" ?e g rq hd s a v, OF assms(5)] by auto
  from how show ?thesis
  proof
    assume "gw_extent row = ''call'' \<and> gw_keyed_on row = gk_shape rec"
    then have gr: "granted_extent gr = Call" "keyed_on gr = digest ?e g (to_upper (rf_method rq)) (rf_host rq) (rf_path rq) (rf_body rq)"
      using assms(6) rec by (auto simp: granted_row_def extent_parse_def refusal_shape_def)
    show ?thesis
      using call_permits_shown [OF gr assms(7-13)] by auto
  next
    assume unit: "gw_extent row = ''unit'' \<and> an_covers_unit inp \<and> (\<exists>cv. gk_covers rec = Some cv \<and> gw_keyed_on row = co_unit cv)"
    then obtain cv where "offer_of ?e g rq = Some cv" "gw_keyed_on row = co_unit cv" using rec by auto
    then have "grant_unit ?e g (rf_path rq) (rf_body rq) = Some (gw_keyed_on row)"
      by (auto simp: offer_of_def split: option.splits)
    moreover have "grant_unit ?e g p body = Some (gw_keyed_on row)"
      using assms(6,7) unit by (auto simp: granted_row_def extent_parse_def permits_def split: option.splits)
    ultimately show ?thesis using unit by simp
  qed
qed

section \<open>At work\<close>

lemma trim_ends: "s \<noteq> [] \<Longrightarrow> graphic (hd s) \<Longrightarrow> graphic (last s) \<Longrightarrow> trim s = s"
proof -
  assume s: "s \<noteq> []" "graphic (hd s)" "graphic (last s)"
  have "trim_start s = s"
    using s(1,2) by (cases s; subst trim_start.simps) (simp_all add: leading_space_graphic)
  moreover have "trim_end s = s"
    using s(1,3) by (cases s rule: rev_cases; subst trim_end.simps) (simp_all add: trailing_space_graphic)
  ultimately show ?thesis by (simp add: trim_def)
qed

definition number_text :: "uuid \<Rightarrow> string" where "number_text u = nat_text (unat u)"
definition number_parse :: "string \<Rightarrow> uuid option" where "number_parse s = Some (of_nat (digits_val 0 s))"

lemma number_parse_text: "number_parse (number_text u) = Some u"
  by (simp add: number_parse_def number_text_def digits_val_nat_text)

definition one_charge :: outside where
  "one_charge = (charge_outside (charge ''40'' ''visa'') (charge ''40'' ''visa''))\<lparr>uuid_text := number_text\<rparr>"

definition charge_turn :: chat_turn where
  "charge_turn = \<lparr>ct_workspace = 2, ct_session = 8, ct_agent = 1, ct_message = 6, ct_timezone = None, ct_user = None\<rparr>"

definition charging_turn :: job where
  "charging_turn = waiting_turn\<lparr>j_state := Running, lease_token := Some 5, j_payload := JObj [(''agent_id'', JStr ''1''), (''message_id'', JStr ''6''), (''session_id'', JStr ''8''), (''workspace_id'', JStr ''2'')]\<rparr>"

definition example_gating :: gating where
  "example_gating = \<lparr>aw_outside = one_charge, aw_parse_uuid = number_parse,
     aw_parse_url = (\<lambda>u. Some \<lparr>url_scheme = ''https'', url_username = [], url_password = None, url_host = Some ''ab.c'',
       url_path = ''/charges'', url_query = None, url_port = None\<rparr>),
     aw_jsonb_text = (\<lambda>v. []), aw_authorize = (\<lambda>hs a. Inr ()), aw_name_of = (\<lambda>u. Some ''Ana''), aw_agent_of = (\<lambda>s. Some 1),
     aw_operations = (\<lambda>ws ag. Some []), aw_roles_with = (\<lambda>ws a. Inr [4]),
     of_authenticate = of_authenticate example_office, of_roles = of_roles example_office,
     of_members = of_members example_office, of_session = (\<lambda>ws s. True), of_calendar = toy_calendar,
     gt_gates_for = (\<lambda>t. Inr (gates_of [charge_gate])), gt_declared = (\<lambda>ws ag. Inr (Inr [])),
     gt_would_approve = (\<lambda>t g p q b. None), gt_named = (\<lambda>ws. Inr []), gt_asker_for = (\<lambda>t. Inr (Some 5)), gt_debug = id\<rparr>"

definition charging_desk :: desk where
  "charging_desk = empty_office\<lparr>ds_jobs := [charging_turn]\<rparr>"

lemma charging_leased:
  "leased_turn (aw_authorize example_gating) number_parse [charging_turn] [(LEASE_HEADER, ''5'')] 7 = Inr (charging_turn, charge_turn)"
  by code_simp

lemma charge_upper: "to_upper ''post'' = ''POST''" by code_simp

lemma charge_standing:
  "standing_gate example_gating charge_turn (gates_of [charge_gate]) charge_refused charging_desk = Inr charge_gate"
proof -
  have "path_values (gate_path charge_gate) ''/charges'' = Inr []" by code_simp
  moreover have "live_for (ds_grants charging_desk) 2 7 = []"
    by (simp add: charging_desk_def empty_office_def charge_desk_def live_for_def List.map_filter_def)
  ultimately show ?thesis
    using charge_gate_covers
    by (simp add: standing_gate_def unpermitted_def covering_all_def gates_of_def with_grants_def permitted_def
        charge_refused_def charge_upper charge_turn_def)
qed

lemma charge_small: "small_enough charge_refused = Inr ()"
  by (simp add: small_enough_def charge_refused_def BODY_LIMIT_def)

lemma charge_refused_at:
  "refused_at example_gating [(LEASE_HEADER, ''5'')] charge_refused charging_desk = Inr (charge_turn, charge_gate)"
proof -
  have "as_described example_gating charge_refused = Inr ()"
    by (simp add: as_described_def charge_refused_def example_gating_def)
  moreover have "rf_job charge_refused = 7" "rf_session charge_refused = ct_session charge_turn" "ds_jobs charging_desk = [charging_turn]"
    "aw_parse_uuid example_gating = number_parse" "gt_gates_for example_gating charge_turn = Inr (gates_of [charge_gate])"
    by (simp_all add: charge_refused_def charge_turn_def charging_desk_def example_gating_def)
  ultimately show ?thesis
    by (simp add: refused_at_def charging_leased charge_standing charge_small)
qed

definition raise_names :: raise_ids where
  "raise_names = \<lparr>ri_hold = 3, ri_item = 9, ri_held = 20\<rparr>"

lemma charge_words:
  "refusal_reason charge_refused = ''POST /charges on ab.c needs approval''"
  "trim ''POST /charges on ab.c needs approval'' = ''POST /charges on ab.c needs approval''"
  "trim GATE_HOLDER = GATE_HOLDER" "trim ''approval.charge'' = ''approval.charge''" "GATE_HOLDER \<noteq> []"
proof -
  show "refusal_reason charge_refused = ''POST /charges on ab.c needs approval''"
    by (simp add: refusal_reason_def charge_refused_def charge_upper)
  have "hd ''POST /charges on ab.c needs approval'' = CHR ''P''" "last ''POST /charges on ab.c needs approval'' = CHR ''l''"
    "graphic (CHR ''P'')" "graphic (CHR ''l'')"
    by code_simp+
  then show "trim ''POST /charges on ab.c needs approval'' = ''POST /charges on ab.c needs approval''"
    by (intro trim_ends) auto
  show "trim GATE_HOLDER = GATE_HOLDER" by (rule trim_graphic) code_simp
  show "trim ''approval.charge'' = ''approval.charge''" by (rule trim_graphic) code_simp
qed (simp add: GATE_HOLDER_def)

lemma charge_asked:
  "asked_of example_gating 2 (route_risk (assessment example_gating charge_turn charge_gate charge_refused) charge_gate) =
     Inr [RoleTarget 4]"
  by (simp add: asked_of_def assessment_def assess_request_def example_gating_def charge_gate_def routed_def)

lemma question_is_object: "\<exists>o1. question_payload e g inp h s a v = JObj o1"
  by (simp add: question_payload_def json_object_def)

lemma charge_raised:
  "\<exists>ds'. raise_refused example_gating 0 raise_names [(LEASE_HEADER, ''5'')] charge_refused charging_desk =
     (Inr \<lparr>rs_item = Some 9, rs_park = True\<rparr>, ds') \<and> map hr_id (ds_holds ds') = [3]"
proof -
  have desk: "ds_holds charging_desk = []" "q_items (ds_queue charging_desk) = []"
    by (simp_all add: charging_desk_def empty_office_def)
  then have none: "approval_on_session (ds_holds charging_desk) (ds_queue charging_desk) 2 8 = Inr None"
    by (simp add: approval_on_session_def)
  have turn: "ct_workspace charge_turn = 2" "ct_session charge_turn = 8" by (simp_all add: charge_turn_def)
  obtain row inh where tk: "take_inhibitor 3 0 \<lparr>th_scope = SessionScope 2 8, th_strength = SuspendedHold,
      th_reason = refusal_reason charge_refused, th_held_by = GATE_HOLDER\<rparr> [] = (Inr inh, [row])" "hr_id row = 3" "in_id inh = 3"
    by (simp add: take_inhibitor_def charge_words read_hold_def read_scope_def strength_parse_def)
  obtain q where raised: "raise_item (aw_jsonb_text example_gating) 0 9 2
      (question_item example_gating charge_turn charge_gate charge_refused 3
        (assessment example_gating charge_turn charge_gate charge_refused) [RoleTarget 4]) (ds_queue charging_desk) = (Inr 9, q)"
  proof -
    have "validate_item (question_item example_gating charge_turn charge_gate charge_refused 3 a [RoleTarget 4]) = Inr ()" for a
      using question_is_object
      by (auto simp: validate_item_def question_item_def Let_def charge_gate_def charge_words split: json.split) (metis json.distinct)+
    then have "fst (raise_item (aw_jsonb_text example_gating) 0 9 2
      (question_item example_gating charge_turn charge_gate charge_refused 3
        (assessment example_gating charge_turn charge_gate charge_refused) [RoleTarget 4]) (ds_queue charging_desk)) = Inr 9"
      using desk by (simp add: raise_item_def Let_def split: option.split)
    then show thesis using that by (metis prod.collapse)
  qed
  have "rf_url charge_refused = Some ''https://ab.c/charges''" "gt_asker_for example_gating charge_turn = Inr (Some 5)"
    by (simp_all add: charge_refused_def example_gating_def)
  then obtain d2 where held: "hold_refused example_gating 20 charge_turn charge_gate charge_refused 9
      (charging_desk\<lparr>ds_holds := [row], ds_queue := q\<rparr>) = (Inr (), d2)" "ds_holds d2 = [row]"
    by (simp add: hold_refused_def hold_request_def)
  then show ?thesis
    using tk raised
    by (simp add: raise_refused_def charge_refused_at turn none [unfolded desk] raise_names_def desk ask_about_def
        charge_asked)
qed

lemma no_hold_without_its_question_witness:
  "\<exists>(ds' :: desk) x role. x \<in> set (q_items (ds_queue ds')) \<and> it_inhibitor x = Some 3 \<and> role \<in> set [4::uuid] \<and>
     fst (raise_refused example_gating 0 raise_names [(LEASE_HEADER, ''5'')] charge_refused charging_desk) =
       Inr \<lparr>rs_item = Some 9, rs_park = True\<rparr>"
proof -
  obtain ds' where ds': "raise_refused example_gating 0 raise_names [(LEASE_HEADER, ''5'')] charge_refused charging_desk =
     (Inr \<lparr>rs_item = Some 9, rs_park = True\<rparr>, ds')" "map hr_id (ds_holds ds') = [3]"
    using charge_raised by (elim exE conjE) (rule that)
  have empty: "ds_holds charging_desk = []" by (simp add: charging_desk_def empty_office_def)
  then have fresh: "ri_hold raise_names \<notin> hr_id ` set (ds_holds charging_desk)" by simp
  have four: "aw_roles_with example_gating ws ApprovalsAnswer = Inr [4]" for ws by (simp add: example_gating_def)
  from no_hold_without_its_question [OF ds'(1) fresh] show ?thesis
  proof (elim disjE exE conjE)
    assume "ds_holds ds' = ds_holds charging_desk"
    then show ?thesis using ds'(2) empty by simp
  next
    fix hold x role answerers
    assume x: "ds_holds ds' = ds_holds charging_desk @ [hold]" "x \<in> set (q_items (ds_queue ds'))"
      "it_inhibitor x = Some (hr_id hold)" "aw_roles_with example_gating (it_workspace x) ApprovalsAnswer = Inr answerers"
      "role \<in> set answerers"
    have hold: "hr_id hold = 3" using x(1) ds'(2) empty by simp
    have role: "role \<in> set [4]" using x(4,5) four by simp
    show ?thesis
      by (intro exI [of _ ds'] exI [of _ x] exI [of _ role]) (use x(2,3) ds'(1) hold role in simp)
  qed
qed

lemma only_a_refusal_is_asked_about_witness:
  "\<exists>j t. leased_turn (aw_authorize example_gating) (aw_parse_uuid example_gating) (ds_jobs charging_desk)
     [(LEASE_HEADER, ''5'')] (rf_job charge_refused) = Inr (j, t)"
proof -
  obtain ds' where ds': "raise_refused example_gating 0 raise_names [(LEASE_HEADER, ''5'')] charge_refused charging_desk =
     (Inr \<lparr>rs_item = Some 9, rs_park = True\<rparr>, ds')" "map hr_id (ds_holds ds') = [3]"
    using charge_raised by (elim exE conjE) (rule that)
  have "ds_holds charging_desk = []" by (simp add: charging_desk_def empty_office_def)
  then have "ds' \<noteq> charging_desk" using ds'(2) by auto
  from only_a_refusal_is_asked_about [OF ds'(1) this] show ?thesis
    by (elim exE conjE) (intro exI, assumption)
qed

definition shown_row :: item_row where
  "shown_row = charge_question\<lparr>it_payload := question_payload one_charge charge_gate charge_refused 3 8 None None\<rparr>"

definition shown_desk :: desk where
  "shown_desk = charge_desk\<lparr>ds_queue := \<lparr>q_items = [shown_row], q_targets = [target_row_of 2 9 (RoleTarget 4)], q_announced = []\<rparr>\<rparr>"

lemma shown_answered: "fst (answer example_gating 1 some_ids [] 9 yes shown_desk) = Inr 0"
  by code_simp

lemma shown_granted:
  "(case ds_grants (snd (answer example_gating 1 some_ids [] 9 yes shown_desk)) of
      [row] \<Rightarrow> (case granted_row row of
          Some gr \<Rightarrow> permits one_charge gr charge_gate ''POST'' ''ab.c'' ''/charges'' (Some ''1'')
        | None \<Rightarrow> False)
    | _ \<Rightarrow> False)"
  by code_simp

lemma yes_lets_out_what_was_shown_witness:
  "list_all (\<lambda>f. same_value one_charge (obj_get [(''amount'', JStr ''40''), (''card'', JStr ''visa'')] f)
     (obj_get [(''amount'', JStr ''40''), (''card'', JStr ''visa'')] f)) (binds charge_gate)"
proof -
  obtain ds' where ds': "answer example_gating 1 some_ids [] 9 yes shown_desk = (Inr 0, ds')"
    using shown_answered by (metis prod.collapse)
  obtain row gr where row: "ds_grants ds' = [row]" "granted_row row = Some gr"
    "permits one_charge gr charge_gate ''POST'' ''ab.c'' ''/charges'' (Some ''1'')"
    using shown_granted by (auto simp: ds' split: list.splits option.splits)
  have parsed: "json_parse one_charge ''1'' = Some (charge ''40'' ''visa'')" by (simp add: one_charge_def charge_outside_def)
  have in_play: "aw_outside example_gating = one_charge" "aw_parse_uuid example_gating = number_parse" "uuid_text one_charge = number_text"
    "q_items (ds_queue shown_desk) = [shown_row]" "ds_grants shown_desk = []" "rf_method charge_refused = ''post''"
    "rf_host charge_refused = ''ab.c''" "rf_path charge_refused = ''/charges''" "rf_body charge_refused = Some ''1''"
    by (simp_all add: example_gating_def one_charge_def shown_desk_def charge_desk_def charge_refused_def)
  have shown: "\<exists>h s a v. it_payload shown_row = question_payload one_charge charge_gate charge_refused h s a v"
    by (intro exI) (simp add: shown_row_def)
  have clean: "list_all (\<lambda>f. value_clean one_charge (obj_get [(''amount'', JStr ''40''), (''card'', JStr ''visa'')] f) \<and>
      value_clean one_charge (obj_get [(''amount'', JStr ''40''), (''card'', JStr ''visa'')] f)) (binds charge_gate)"
    by (simp add: charge_gate_def obj_get_def clean_def NUL_def)
  have "?thesis \<or> an_covers_unit yes"
    using yes_lets_out_what_was_shown [of example_gating 1 some_ids "[]" 9 yes shown_desk 0 ds' row charge_gate charge_refused gr
        "''POST''" "''ab.c''" "''/charges''" "Some ''1''" "[(''amount'', JStr ''40''), (''card'', JStr ''visa'')]"
        "[(''amount'', JStr ''40''), (''card'', JStr ''visa'')]"]
      ds' row shown clean charge_request_clean charge_bound [OF parsed]
    by (auto simp: in_play charge_upper number_parse_text no_collision_def)
  then show ?thesis by (simp add: yes_def)
qed

end
