(* ===== verification/Wake.thy ===== *)
theory Wake
  imports Answering
begin

text \<open>
  Sleeps and timers, the rest of \<open>crates/api/src/wake.rs\<close>: asking to wait, listing and cancelling timers,
  waking early, and a wakeup coming due. Whose a conversation is, whether it exists, who may send to it
  and the words for a payload nobody can read are arguments.
\<close>

section \<open>What a wakeup carries\<close>

definition due_json :: "outside \<Rightarrow> calendar \<Rightarrow> due \<Rightarrow> json" where
  "due_json e c d =
     json_object [(''workspace_id'', JStr (uuid_text e (du_workspace d))), (''session_id'', JStr (uuid_text e (du_session d))),
       (''agent_id'', JStr (uuid_text e (du_agent d))), (''kind'', JStr (wake_kind_text (du_kind d))),
       (''reason'', JStr (du_reason d)), (''set_at'', JStr (cal_text c (du_set_at d))),
       (''due_at'', JStr (cal_text c (du_due_at d))), (''timezone'', json_opt JStr (du_timezone d)),
       (''item_id'', json_opt (JStr \<circ> uuid_text e) (du_item d)),
       (''inhibitor_id'', json_opt (JStr \<circ> uuid_text e) (du_inhibitor d))]"

definition read_due :: "(string \<Rightarrow> uuid option) \<Rightarrow> calendar \<Rightarrow> json \<Rightarrow> due option" where
  "read_due parse_uuid c v0 =
     (case as_named [''workspace_id'', ''session_id'', ''agent_id'', ''kind'', ''reason'', ''set_at'', ''due_at'', ''timezone'',
         ''item_id'', ''inhibitor_id''] v0 of
        None \<Rightarrow> None
      | Some v \<Rightarrow>
          (case (uuid_at parse_uuid v ''workspace_id'', uuid_at parse_uuid v ''session_id'', uuid_at parse_uuid v ''agent_id'',
                 Option.bind (text_at v ''kind'') read_wake_kind, text_at v ''reason'',
                 Option.bind (text_at v ''set_at'') (cal_read c), Option.bind (text_at v ''due_at'') (cal_read c),
                 read_optional v ''timezone'' Some, read_optional v ''item_id'' parse_uuid,
                 read_optional v ''inhibitor_id'' parse_uuid) of
             (Some ws, Some ss, Some ag, Some k, Some rs, Some st, Some du, Some tz, Some it, Some inh) \<Rightarrow>
               Some \<lparr>du_workspace = ws, du_session = ss, du_agent = ag, du_kind = k, du_reason = rs, du_set_at = st,
                 du_due_at = du, du_timezone = tz, du_item = it, du_inhibitor = inh\<rparr>
           | _ \<Rightarrow> None))"

text \<open>
  The sleep a conversation is in, as a reader is shown it: of the pending sleeps whose hold is on this
  session, the last.
\<close>

definition asleep :: "outside \<Rightarrow> desk \<Rightarrow> uuid \<Rightarrow> uuid \<Rightarrow> json option" where
  "asleep e ds workspace_id session_id =
     (case rev (sort_key it_id (filter (\<lambda>r. it_workspace r = workspace_id \<and> it_state r = ''pending'' \<and>
         it_kind r = SLEEP_ITEM \<and>
         list_ex (\<lambda>h. it_inhibitor r = Some (hr_id h) \<and> hr_level h = ''session'' \<and> hr_session h = Some session_id)
           (ds_holds ds)) (q_items (ds_queue ds)))) of
        [] \<Rightarrow> None
      | r # _ \<Rightarrow> Some (json_object [(''item_id'', JStr (uuid_text e (it_id r))),
          (''until'', snd (member_or_null (it_payload r) ''until'')), (''reason'', snd (member_or_null (it_payload r) ''reason''))]))"

section \<open>Asking to wait\<close>

datatype asked = AskSleep | AskTimer | AskList | AskCancel

record wait_request =
  wt_job :: uuid
  wt_session :: uuid
  wt_kind :: asked
  wt_seconds :: "nat option"
  wt_at :: "string option"
  wt_reason :: string
  wt_id :: "string option"

record waking = office +
  wk_owner_of :: "uuid \<Rightarrow> uuid option"
  wk_exists :: "uuid \<Rightarrow> bool"
  wk_may_send :: "caller \<Rightarrow> uuid \<Rightarrow> api_error + unit"
  wk_unreadable :: "json \<Rightarrow> string"

fun job_error_text :: "job_error \<Rightarrow> string" where
  "job_error_text JobNotFound = ''job not found''"

definition refuse :: "string \<Rightarrow> api_error" where "refuse words = (422, words)"

definition moment :: "calendar \<Rightarrow> string \<Rightarrow> string option \<Rightarrow> api_error + time" where
  "moment c at0 timezone =
     (let at = trim at0 in
      case cal_exact c at of
        Some t \<Rightarrow> Inr t
      | None \<Rightarrow>
          (case cal_local c at timezone of
             NotATime \<Rightarrow> Inl (refuse ''at must be a date and time, e.g. 2026-10-01T09:00:00 in the user's own zone'')
           | NoSuchLocal tz \<Rightarrow>
               Inl (refuse (at @ '' does not exist in '' @ tz @ '': the clocks change then. Pick a time either side''))
           | Moment t \<Rightarrow> Inr t))"

definition TOO_LONG :: api_error where "TOO_LONG = refuse ''that is longer than 30 days''"

definition moment_asked :: "calendar \<Rightarrow> wait_request \<Rightarrow> wake_kind \<Rightarrow> time \<Rightarrow> string option \<Rightarrow> api_error + time" where
  "moment_asked c inp k now timezone =
     (case (wt_seconds inp, wt_at inp) of
        (Some s, None) \<Rightarrow>
          if s = 0 then Inl (refuse ''seconds must be above zero'')
          else if int s > i64_max then Inl TOO_LONG
          else Inr (now + min (seconds (int s)) (LONGEST + seconds 1))
      | (None, Some at) \<Rightarrow>
          (case k of
             Timer \<Rightarrow> moment c at timezone
           | Sleep \<Rightarrow> Inl (refuse ''sleep takes seconds; use set_timer to wake at a time''))
      | (Some _, Some _) \<Rightarrow> Inl (refuse ''give either at or seconds, not both'')
      | (None, None) \<Rightarrow> Inl (refuse ''give at or seconds''))"

definition due_at :: "calendar \<Rightarrow> wait_request \<Rightarrow> wake_kind \<Rightarrow> time \<Rightarrow> string option \<Rightarrow> api_error + time" where
  "due_at c inp k now timezone =
     try_step (moment_asked c inp k now timezone) (\<lambda>due.
       if due \<le> now then Inl (refuse ''that time has already passed'')
       else if due - now > LONGEST then Inl TOO_LONG
       else Inr due)"

text \<open>Characters, as \<open>chars\<close> counts them in UTF-8: every byte that does not continue one.\<close>

definition char_count :: "string \<Rightarrow> nat" where
  "char_count s = length (filter (\<lambda>b. \<not> (128 \<le> byte_val b \<and> byte_val b < 192)) s)"

definition reason_of :: "wait_request \<Rightarrow> api_error + string" where
  "reason_of inp =
     (let reason = trim (wt_reason inp) in
      if reason = [] then Inl (refuse ''give a reason'')
      else if char_count reason > LONGEST_REASON
      then Inl (refuse (''keep the reason under '' @ nat_text LONGEST_REASON @ '' characters''))
      else Inr reason)"

definition already_asleep :: "desk \<Rightarrow> uuid \<Rightarrow> bool" where
  "already_asleep ds session_id \<longleftrightarrow>
     list_ex (\<lambda>h. hr_level h = ''session'' \<and> hr_session h = Some session_id \<and> hr_held_by h = SLEEP_HOLDER) (ds_holds ds)"

section \<open>Timers\<close>

definition pending_timer :: "(string \<Rightarrow> uuid option) \<Rightarrow> uuid \<Rightarrow> job \<Rightarrow> bool" where
  "pending_timer parse_uuid session_id j \<longleftrightarrow>
     j_kind j = WAKE \<and> j_state j = Pending \<and> uuid_at parse_uuid (j_payload j) ''session_id'' = Some session_id \<and>
     text_at (j_payload j) ''kind'' = Some ''timer''"

definition pending_timers :: "(string \<Rightarrow> uuid option) \<Rightarrow> calendar \<Rightarrow> job list \<Rightarrow> uuid \<Rightarrow> (uuid \<times> due) list" where
  "pending_timers parse_uuid c jobs session_id =
     List.map_filter (\<lambda>j. map_option (Pair (j_id j)) (read_due parse_uuid c (j_payload j)))
       (sort_key (\<lambda>j. (run_after j, j_id j)) (filter (pending_timer parse_uuid session_id) jobs))"

definition described :: "outside \<Rightarrow> calendar \<Rightarrow> time \<Rightarrow> uuid \<times> due \<Rightarrow> json" where
  "described e c now idd =
     (case idd of (i, d) \<Rightarrow>
       json_object [(''id'', JStr (uuid_text e i)), (''at'', JStr (cal_text c (du_due_at d))),
         (''when'', JStr (cal_when c (du_due_at d) (du_timezone d))),
         (''in'', JStr (span (whole_seconds (du_due_at d - now)))), (''reason'', JStr (du_reason d))])"

definition list_timers :: "outside \<Rightarrow> (string \<Rightarrow> uuid option) \<Rightarrow> calendar \<Rightarrow> time \<Rightarrow> chat_turn \<Rightarrow> desk \<Rightarrow> string" where
  "list_timers e parse_uuid c now t ds =
     (let timers = map (described e c now) (pending_timers parse_uuid c (ds_jobs ds) (ct_session t)) in
      json_text e (json_object [(''timers'', JArr timers),
        (''note'', JStr (if length timers = 0 then ''No timers are pending in this conversation.''
           else if length timers = 1 then ''1 timer is pending in this conversation.''
           else nat_text (length timers) @ '' timers are pending in this conversation.''))]))"

definition NO_TIMER :: api_error where
  "NO_TIMER = refuse ''no timer with that id is pending in this conversation; list_timers shows the ones that are''"

definition cancel_timer ::
  "outside \<Rightarrow> (string \<Rightarrow> uuid option) \<Rightarrow> calendar \<Rightarrow> time \<Rightarrow> chat_turn \<Rightarrow> string option \<Rightarrow> desk \<Rightarrow> (api_error + string) \<times> desk" where
  "cancel_timer e parse_uuid c now t name ds =
     (case Option.bind (map_option trim name) parse_uuid of
        None \<Rightarrow> (Inl NO_TIMER, ds)
      | Some i \<Rightarrow>
          (let P = (\<lambda>j. j_id j = i \<and> pending_timer parse_uuid (ct_session t) j);
               ds1 = ds\<lparr>ds_jobs := filter (\<lambda>j. \<not> P j) (ds_jobs ds)\<rparr> in
           (case Option.bind (find P (ds_jobs ds)) (\<lambda>j. read_due parse_uuid c (j_payload j)) of
              None \<Rightarrow> (Inl NO_TIMER, ds1)
            | Some d \<Rightarrow>
                (Inr (json_text e (json_object [(''cancelled'', described e c now (i, d)),
                   (''note'', JStr (''Cancelled the timer for '' @ cal_when c (du_due_at d) (du_timezone d) @ ''.''))])), ds1))))"

section \<open>Going to sleep\<close>

record wait_ids =
  wi_hold :: uuid
  wi_item :: uuid
  wi_job :: uuid

definition sleep_item :: "outside \<Rightarrow> calendar \<Rightarrow> due \<Rightarrow> uuid \<Rightarrow> uuid \<Rightarrow> new_item" where
  "sleep_item e c d hold_id owner =
     \<lparr>ni_kind = SLEEP_ITEM, ni_event = None, ni_inhibitor = Some hold_id,
      ni_payload = json_object [(''session_id'', JStr (uuid_text e (du_session d))), (''agent_id'', JStr (uuid_text e (du_agent d))),
        (''reason'', JStr (du_reason d)), (''set_at'', JStr (cal_text c (du_set_at d))), (''until'', JStr (cal_text c (du_due_at d)))],
      ni_targets = [UserTarget owner], ni_expires = None\<rparr>"

definition sleep_hold :: "calendar \<Rightarrow> due \<Rightarrow> take_hold" where
  "sleep_hold c d =
     \<lparr>th_scope = SessionScope (du_workspace d) (du_session d), th_strength = SuspendedHold,
      th_reason = ''asleep until '' @ cal_clock c (du_due_at d) (du_timezone d) @ '': '' @ du_reason d,
      th_held_by = SLEEP_HOLDER\<rparr>"

text \<open>The hold and the item a sleep stands for, or why there is to be no sleep.\<close>

definition fall_asleep :: "('a waking_scheme) \<Rightarrow> time \<Rightarrow> wait_ids \<Rightarrow> due \<Rightarrow> desk \<Rightarrow> (api_error + due) \<times> desk" where
  "fall_asleep w now ids d ds =
     (if already_asleep ds (du_session d) then (Inl (refuse ''this conversation is already asleep''), ds)
      else
        (case wk_owner_of w (du_session d) of
           None \<Rightarrow> (Inl (refuse (''nobody could be told this conversation is asleep, so it cannot sleep; '' @
             ''use set_timer instead'')), ds)
         | Some owner \<Rightarrow>
        (case take_inhibitor (wi_hold ids) now (sleep_hold (of_calendar w) d) (ds_holds ds) of
           (Inl err, hs1) \<Rightarrow> (Inl (hold_api_error err), ds\<lparr>ds_holds := hs1\<rparr>)
         | (Inr held, hs1) \<Rightarrow>
        (case raise_item (aw_jsonb_text w) now (wi_item ids) (du_workspace d)
             (sleep_item (aw_outside w) (of_calendar w) d (in_id held) owner) (ds_queue ds) of
           (Inl err, q) \<Rightarrow>
             (Inl (internally err), ds\<lparr>ds_holds := snd (release_hold (in_id held) hs1), ds_queue := q\<rparr>)
         | (Inr item, q) \<Rightarrow>
             (Inr (d\<lparr>du_item := Some item, du_inhibitor := Some (in_id held)\<rparr>), ds\<lparr>ds_holds := hs1, ds_queue := q\<rparr>)))))"

definition sleep_words :: "calendar \<Rightarrow> time \<Rightarrow> due \<Rightarrow> json" where
  "sleep_words c now d =
     (let moment_words = cal_when c (du_due_at d) (du_timezone d) in
      json_object [(''sleeping_until'', JStr (cal_text c (du_due_at d))), (''when'', JStr moment_words),
        (''in'', JStr (span (whole_seconds (du_due_at d - now)))),
        (''note'', JStr (''Asleep until '' @ moment_words @ ''. Your turn ends now. Anything sent meanwhile will be '' @
           ''shown to you when you wake.''))])"

definition timer_words :: "outside \<Rightarrow> calendar \<Rightarrow> time \<Rightarrow> uuid \<Rightarrow> due \<Rightarrow> (uuid \<times> due) list \<Rightarrow> json" where
  "timer_words e c now i d pending =
     (let others = map (described e c now) (filter (\<lambda>(j, _). j \<noteq> i) pending);
          moment_words = cal_when c (du_due_at d) (du_timezone d);
          away = span (whole_seconds (du_due_at d - now));
          words = ''Timer '' @ uuid_text e i @ '' set for '' @ moment_words @ '', '' @ away @
            '' from now. Carry on; you will be woken then. Check this is the time the user asked for.'';
          more = (if others = [] then []
            else '' '' @ nat_text (length others) @ '' other timer'' @ (if length others = 1 then '' is'' else ''s are'') @
              '' still pending in this conversation, listed in other_timers. Setting a timer never replaces one: '' @
              ''cancel any that are no longer wanted with cancel_timer.'') in
      json_object [(''id'', JStr (uuid_text e i)), (''timer_set_for'', JStr (cal_text c (du_due_at d))),
        (''when'', JStr moment_words), (''in'', JStr away), (''reason'', JStr (du_reason d)),
        (''other_timers'', JArr others), (''note'', JStr (words @ more))])"

definition due_of :: "time \<Rightarrow> wake_kind \<Rightarrow> chat_turn \<Rightarrow> string \<Rightarrow> time \<Rightarrow> due" where
  "due_of now k t reason due =
     \<lparr>du_workspace = ct_workspace t, du_session = ct_session t, du_agent = ct_agent t, du_kind = k, du_reason = reason,
      du_set_at = now, du_due_at = due, du_timezone = ct_timezone t, du_item = None, du_inhibitor = None\<rparr>"

text \<open>The wakeup put in the queue, and what the agent is told of it.\<close>

definition set_wakeup :: "('a waking_scheme) \<Rightarrow> time \<Rightarrow> wait_ids \<Rightarrow> due \<Rightarrow> desk \<Rightarrow> string \<times> desk" where
  "set_wakeup w now ids d ds =
     (let e = aw_outside w; c = of_calendar w;
          ds1 = ds\<lparr>ds_jobs := snd (enqueue now (wi_job ids) (du_workspace d) WAKE (due_json e c d)
            (Some (max 0 (du_due_at d - now))) None PRIORITY_BACKGROUND (ds_jobs ds))\<rparr> in
      (case du_kind d of
         Sleep \<Rightarrow>
           (json_text e (sleep_words c now d),
            append_event (du_workspace d) (Some (du_session d)) ''chat.sleeping''
              (json_object [(''item_id'', json_opt (JStr \<circ> uuid_text e) (du_item d)),
                (''until'', JStr (cal_text c (du_due_at d))), (''reason'', JStr (du_reason d))]) ds1)
       | Timer \<Rightarrow>
           (json_text e (timer_words e c now (wi_job ids) d
              (pending_timers (aw_parse_uuid w) c (ds_jobs ds1) (du_session d))), ds1)))"

definition arrange :: "('a waking_scheme) \<Rightarrow> time \<Rightarrow> wait_ids \<Rightarrow> wait_request \<Rightarrow> wake_kind \<Rightarrow> chat_turn \<Rightarrow> desk \<Rightarrow> (api_error + string) \<times> desk" where
  "arrange w now ids inp k t ds =
     (case try_step (reason_of inp) (\<lambda>reason. try_step (due_at (of_calendar w) inp k now (ct_timezone t)) (\<lambda>due.
             Inr (due_of now k t reason due))) of
        Inl err \<Rightarrow> (Inl err, ds)
      | Inr d \<Rightarrow>
          (case (if k = Sleep then fall_asleep w now ids d ds else (Inr d, ds)) of
             (Inl err, ds1) \<Rightarrow> (Inl err, ds1)
           | (Inr d1, ds1) \<Rightarrow> (case set_wakeup w now ids d1 ds1 of (words, ds2) \<Rightarrow> (Inr words, ds2))))"

definition wait :: "('a waking_scheme) \<Rightarrow> time \<Rightarrow> wait_ids \<Rightarrow> headers \<Rightarrow> wait_request \<Rightarrow> desk \<Rightarrow> (api_error + string) \<times> desk" where
  "wait w now ids hs inp ds =
     (case leased_turn (aw_authorize w) (aw_parse_uuid w) (ds_jobs ds) hs (wt_job inp) of
        Inl err \<Rightarrow> (Inl err, ds)
      | Inr (_, t) \<Rightarrow>
          if ct_session t \<noteq> wt_session inp then (Inl (403, ''that turn is not for that conversation''), ds)
          else
            (case wt_kind inp of
               AskSleep \<Rightarrow> arrange w now ids inp Sleep t ds
             | AskTimer \<Rightarrow> arrange w now ids inp Timer t ds
             | AskList \<Rightarrow> (Inr (list_timers (aw_outside w) (aw_parse_uuid w) (of_calendar w) now t ds), ds)
             | AskCancel \<Rightarrow> cancel_timer (aw_outside w) (aw_parse_uuid w) (of_calendar w) now t (wt_id inp) ds))"

section \<open>Waking\<close>

definition sleep_settling :: "due \<Rightarrow> uuid \<Rightarrow> uuid \<Rightarrow> uuid option \<Rightarrow> string option \<Rightarrow> settling" where
  "sleep_settling d item hold by_whom woken_by =
     \<lparr>se_workspace = du_workspace d, se_item = item, se_state = ItemResolved, se_by = by_whom,
      se_note = Some (if woken_by \<noteq> None then ''woken early'' else ''slept until it was due''), se_hold = Some hold,
      se_grant = None, se_wake = Some (note_of d woken_by), se_held = None\<rparr>"

definition settle_sleep :: "('a waking_scheme) \<Rightarrow> time \<Rightarrow> fresh_ids \<Rightarrow> due \<Rightarrow> uuid option \<Rightarrow> string option \<Rightarrow> desk \<Rightarrow> (string + bool) \<times> desk" where
  "settle_sleep w now fr d by_whom woken_by ds =
     (case (du_item d, du_inhibitor d) of
        (Some item, Some hold) \<Rightarrow>
          (case settle_and_release (aw_outside w) (of_calendar w) (aw_parse_uuid w) now fr
              (sleep_settling d item hold by_whom woken_by) ds of
             (Inr _, ds1) \<Rightarrow> (Inr True, ds1)
           | (Inl (NotPending _), ds1) \<Rightarrow> (Inr False, ds1)
           | (Inl ItemNotFound, ds1) \<Rightarrow> (Inr False, ds1)
           | (Inl err, ds1) \<Rightarrow> (Inl (action_error_text err), ds1))
      | _ \<Rightarrow> (Inl ''a sleep without its item or hold'', ds))"

definition pending_sleep :: "(string \<Rightarrow> uuid option) \<Rightarrow> uuid \<Rightarrow> uuid \<Rightarrow> job \<Rightarrow> bool" where
  "pending_sleep parse_uuid workspace_id session_id j \<longleftrightarrow>
     j_kind j = WAKE \<and> j_state j = Pending \<and> j_workspace j = workspace_id \<and>
     uuid_at parse_uuid (j_payload j) ''session_id'' = Some session_id \<and> text_at (j_payload j) ''kind'' = Some ''sleep''"

definition wake_now :: "('a waking_scheme) \<Rightarrow> time \<Rightarrow> fresh_ids \<Rightarrow> headers \<Rightarrow> uuid \<Rightarrow> desk \<Rightarrow> (api_error + bool) \<times> desk" where
  "wake_now w now fr hs session_id ds =
     (case try_step (of_authenticate w hs) (\<lambda>c. try_step (wk_may_send w c session_id) (\<lambda>_. Inr c)) of
        Inl err \<Rightarrow> (Inl err, ds)
      | Inr c \<Rightarrow>
          (case rev (sort_key j_id (filter (pending_sleep (aw_parse_uuid w) (cl_workspace c) session_id) (ds_jobs ds))) of
             [] \<Rightarrow> (Inr False, ds)
           | j # _ \<Rightarrow>
               (case read_due (aw_parse_uuid w) (of_calendar w) (j_payload j) of
                  None \<Rightarrow> (Inl (500, wk_unreadable w (j_payload j)), ds)
                | Some d \<Rightarrow>
                    (case settle_sleep w now fr d (Some (cl_subject c))
                        (Some (case aw_name_of w (cl_subject c) of Some n \<Rightarrow> n | None \<Rightarrow> ''Somebody'')) ds of
                       (Inl cause, ds1) \<Rightarrow> (Inl (500, cause), ds1)
                     | (Inr woke, ds1) \<Rightarrow> (Inr woke, ds1)))))"

text \<open>A timer's firing, one transaction: the note, the turn it starts and the job's completion, or none of them.\<close>

definition fire_timer :: "('a waking_scheme) \<Rightarrow> time \<Rightarrow> fresh_ids \<Rightarrow> due \<Rightarrow> job \<Rightarrow> desk \<Rightarrow> (string + unit) \<times> desk" where
  "fire_timer w now fr d j ds =
     (let ds1 = (if wk_exists w (du_session d)
            then snd (write_note (aw_outside w) (of_calendar w) now (fr_note fr) (fr_job fr) (note_of d None) ds) else ds) in
      (case complete now (j_id j) (lease_token j) (ds_jobs ds1) of
         (Inl err, _) \<Rightarrow> (Inl (''closing the wakeup: '' @ job_error_text err), ds)
       | (Inr _, jobs) \<Rightarrow> (Inr (), ds1\<lparr>ds_jobs := jobs\<rparr>)))"

definition fire :: "('a waking_scheme) \<Rightarrow> time \<Rightarrow> fresh_ids \<Rightarrow> job \<Rightarrow> desk \<Rightarrow> (string + unit) \<times> desk" where
  "fire w now fr j ds =
     (case read_due (aw_parse_uuid w) (of_calendar w) (j_payload j) of
        None \<Rightarrow> (Inl (wk_unreadable w (j_payload j)), ds)
      | Some d \<Rightarrow>
          (case du_kind d of
             Sleep \<Rightarrow>
               (case settle_sleep w now fr d None None ds of
                  (Inl cause, ds1) \<Rightarrow> (Inl cause, ds1)
                | (Inr _, ds1) \<Rightarrow>
                    (case complete now (j_id j) (lease_token j) (ds_jobs ds1) of
                       (Inl err, jobs) \<Rightarrow> (Inl (job_error_text err), ds1\<lparr>ds_jobs := jobs\<rparr>)
                     | (Inr _, jobs) \<Rightarrow> (Inr (), ds1\<lparr>ds_jobs := jobs\<rparr>)))
           | Timer \<Rightarrow> fire_timer w now fr d j ds))"

section \<open>A wait ends once\<close>

lemma not_settled_resolved:
  assumes "r \<in> set (q_items q)" "it_workspace r = ws" "it_id r = i" "it_state r = ''resolved''" "distinct (map it_id (q_items q))"
  shows "not_settled ws i q = NotPending ''resolved''" and "filter (to_settle ws i) (q_items q) = []"
proof -
  have same: "x = r" if "x \<in> set (q_items q)" "it_id x = i" for x
    using one_row [OF assms(5) that(1) assms(1)] that(2) assms(3) by simp
  obtain x where x: "find (\<lambda>r. it_workspace r = ws \<and> it_id r = i) (q_items q) = Some x"
    using assms(1-3) by (cases "find (\<lambda>r. it_workspace r = ws \<and> it_id r = i) (q_items q)") (auto simp: find_None_iff)
  then have "x = r" using same by (auto simp: find_Some_iff)
  then show "not_settled ws i q = NotPending ''resolved''"
    using x assms(4) by (simp add: not_settled_def item_state_parse_def)
  show "filter (to_settle ws i) (q_items q) = []"
    using same assms(4) by (auto simp: filter_empty_conv to_settle_def)
qed

lemma settle_sleep_Inr:
  assumes "settle_sleep w now fr d by_whom woken_by ds = (Inr woke, ds1)"
  shows "\<exists>item hold res. du_item d = Some item \<and> du_inhibitor d = Some hold \<and>
    settle_and_release (aw_outside w) (of_calendar w) (aw_parse_uuid w) now fr (sleep_settling d item hold by_whom woken_by) ds =
      (res, ds1) \<and> (if woke then \<exists>n. res = Inr n else res = Inl ItemNotFound \<or> (\<exists>st. res = Inl (NotPending st)))"
proof -
  obtain item hold where ih: "du_item d = Some item" "du_inhibitor d = Some hold"
    using assms by (auto simp: settle_sleep_def split: option.splits)
  obtain res ds2 where res: "settle_and_release (aw_outside w) (of_calendar w) (aw_parse_uuid w) now fr
      (sleep_settling d item hold by_whom woken_by) ds = (res, ds2)" by fastforce
  have "ds2 = ds1 \<and> (if woke then \<exists>n. res = Inr n else res = Inl ItemNotFound \<or> (\<exists>st. res = Inl (NotPending st)))"
    using assms by (simp add: settle_sleep_def ih res split: sum.splits action_error.splits)
  then show ?thesis using ih res by simp
qed

lemma settle_sleep_again:
  assumes "du_item d = Some item" "du_inhibitor d = Some hold"
    and "filter (to_settle (du_workspace d) item) (q_items (ds_queue ds)) = []"
    and "not_settled (du_workspace d) item (ds_queue ds) = ItemNotFound \<or>
      (\<exists>st. not_settled (du_workspace d) item (ds_queue ds) = NotPending st)"
  shows "settle_sleep w now fr d by_whom woken_by ds = (Inr False, ds)"
  using assms(3,4) by (auto simp: settle_sleep_def assms(1,2) settle_and_release_def sleep_settling_def item_is_open_def)

lemma settle_and_release_NotOpen:
  assumes "settle_and_release e c p now fr s ds = (Inl err, ds1)" "err = ItemNotFound \<or> (\<exists>st. err = NotPending st)"
  shows "filter (to_settle (se_workspace s) (se_item s)) (q_items (ds_queue ds)) = [] \<and>
    not_settled (se_workspace s) (se_item s) (ds_queue ds) = err"
  using assms by (auto simp: settle_and_release_def Let_def lift_hold_def split: if_splits sum.splits prod.splits option.splits)

lemma one_settled:
  assumes "distinct (map it_id rows)" "r \<in> set rows" "to_settle ws i r"
  shows "find (\<lambda>r. it_workspace r = ws \<and> it_id r = i) (map (\<lambda>r. if to_settle ws i r then settled_row now st u m r else r) rows) =
    Some (settled_row now st u m r)"
  using assms by (induction rows) (auto simp: to_settle_def settled_row_def image_iff)

lemma settled_sleep_stays:
  assumes "distinct (map it_id (q_items (ds_queue ds)))"
    and "settle_sleep w now fr d by_whom woken_by ds = (Inr woke, ds1)"
    and "ds_queue ds2 = ds_queue ds1"
  shows "settle_sleep w now2 fr2 d by2 woken2 ds2 = (Inr False, ds2)"
    and "length (ds_messages ds1) \<le> Suc (length (ds_messages ds))"
proof -
  obtain item hold res where ih: "du_item d = Some item" "du_inhibitor d = Some hold"
    and res: "settle_and_release (aw_outside w) (of_calendar w) (aw_parse_uuid w) now fr
      (sleep_settling d item hold by_whom woken_by) ds = (res, ds1)"
    and woke: "if woke then \<exists>n. res = Inr n else res = Inl ItemNotFound \<or> (\<exists>st. res = Inl (NotPending st))"
    using settle_sleep_Inr [OF assms(2)] by blast
  let ?s = "sleep_settling d item hold by_whom woken_by"
  have s: "se_workspace ?s = du_workspace d" "se_item ?s = item" "se_state ?s = ItemResolved"
    by (simp_all add: sleep_settling_def)
  have "settle_sleep w now2 fr2 d by2 woken2 ds2 = (Inr False, ds2) \<and>
      length (ds_messages ds1) \<le> Suc (length (ds_messages ds))"
  proof (cases woke)
    case False
    then obtain err where err: "res = Inl err" "err = ItemNotFound \<or> (\<exists>st. err = NotPending st)" using woke by auto
    then have "ds1 = ds" using res settle_and_release_Inl by blast
    moreover have "filter (to_settle (du_workspace d) item) (q_items (ds_queue ds)) = [] \<and>
        not_settled (du_workspace d) item (ds_queue ds) = err"
      using settle_and_release_NotOpen [OF res [unfolded err(1)] err(2)] by (simp add: s)
    ultimately show ?thesis using settle_sleep_again [OF ih, of ds2] err(2) assms(3) by simp
  next
    case True
    then obtain n where n: "res = Inr n" using woke by auto
    obtain ds3 ds4 where st: "filter (to_settle (du_workspace d) item) (q_items (ds_queue ds)) \<noteq> []"
      "ds3 = write_wake (aw_outside w) (of_calendar w) now fr (se_wake ?s) (ds\<lparr>ds_queue := settle_item now ?s (ds_queue ds)\<rparr>)"
      "lift_hold (aw_parse_uuid w) now (se_hold ?s) ds3 = Inr (n, ds4)"
      "ds1 = (let ds3 = write_decision now ?s (write_grants now fr (se_grant ?s) ds4) in
         ds3\<lparr>ds_queue := announce (du_workspace d)
           (Targeted [item] (targets_of (q_targets (ds_queue ds3)) (du_workspace d) item)) (ds_queue ds3)\<rparr>)"
      using settle_and_release_Inr [OF res [unfolded n]] unfolding s by metis
    note lifted = lift_hold_Inr [OF st(3)]
    have items: "q_items (ds_queue ds1) = q_items (settle_item now ?s (ds_queue ds))"
      and msgs: "ds_messages ds1 = ds_messages ds3"
      using lifted by (simp_all add: st(4) st(2) Let_def announce_def)
    obtain r where r: "r \<in> set (q_items (ds_queue ds))" "to_settle (du_workspace d) item r"
      using st(1) by (auto simp: filter_empty_conv)
    have "filter (to_settle (du_workspace d) item) (q_items (ds_queue ds2)) = []"
      using nothing_left_to_settle [of ?s now "ds_queue ds"] by (simp add: s items assms(3) item_is_open_def)
    moreover have "not_settled (du_workspace d) item (ds_queue ds2) = NotPending ''resolved''"
      using one_settled [OF assms(1) r]
      by (simp add: not_settled_def assms(3) items settle_item_def s settled_row_def item_state_parse_def)
    moreover have "length (ds_messages ds3) = Suc (length (ds_messages ds))"
      by (simp add: st(2) write_wake_def sleep_settling_def write_note_messages Let_def absorb_def)
    ultimately show ?thesis using settle_sleep_again [OF ih, of ds2 w now2 fr2 by2 woken2] msgs by simp
  qed
  then show "settle_sleep w now2 fr2 d by2 woken2 ds2 = (Inr False, ds2)"
    and "length (ds_messages ds1) \<le> Suc (length (ds_messages ds))" by simp_all
qed

lemma complete_none:
  assumes "\<not> list_ex (running_for i token) db"
  shows "complete now i token db = (Inl JobNotFound, db)"
proof -
  have none: "\<not> running_for i token j" if "j \<in> set db" for j using assms that by (simp add: list_ex_iff)
  have "returning (running_for i token) g db = []" for g :: "job \<Rightarrow> job" using none by (simp add: returning_def filter_empty_conv)
  moreover have "update_rows (running_for i token) g db = db" for g using none by (simp add: update_rows_def map_idI)
  ultimately show ?thesis by (simp add: complete_def Let_def written_def)
qed

lemma completed_once:
  assumes "complete now i token db = (Inr u, db')"
  shows "\<not> list_ex (running_for i token) db'"
proof -
  define f where "f = (\<lambda>j :: job. j\<lparr>j_state := Succeeded, leased_until := None, lease_token := None, updated_at := now\<rparr>)"
  have db: "db' = update_rows (running_for i token) f db"
    using assms by (simp add: complete_def Let_def written_def f_def [symmetric] split: if_splits)
  have "\<not> running_for i token (f j)" for j by (simp add: f_def running_for_def)
  then show ?thesis unfolding db by (auto simp: update_rows_def list_ex_iff)
qed

text \<open>
  C22. A wait ends once. A wakeup that fired writes at most one note, and does not fire again: its job is
  closed in the step the note is written in. What ended a sleep -- it coming due, or somebody waking it
  just before -- ended it for everyone: whoever comes after is told it had ended, and changes nothing.
\<close>
theorem wait_ends_once:
  assumes "distinct (map it_id (q_items (ds_queue ds)))" and "fire w now fr j ds = (Inr (), ds1)"
  shows "(\<exists>cause. fire w now2 fr2 j ds1 = (Inl cause, ds1)) \<and>
    length (ds_messages ds1) \<le> Suc (length (ds_messages ds)) \<and>
    (\<exists>d. read_due (aw_parse_uuid w) (of_calendar w) (j_payload j) = Some d \<and>
       (du_kind d = Sleep \<longrightarrow> (\<forall>by_whom woken_by. settle_sleep w now2 fr2 d by_whom woken_by ds1 = (Inr False, ds1))))"
proof -
  obtain d where d: "read_due (aw_parse_uuid w) (of_calendar w) (j_payload j) = Some d"
    using assms(2) by (auto simp: fire_def split: option.splits)
  show ?thesis
  proof (cases "du_kind d")
    case Sleep
    obtain woke ds0 jobs where first: "settle_sleep w now fr d None None ds = (Inr woke, ds0)"
      "complete now (j_id j) (lease_token j) (ds_jobs ds0) = (Inr (), jobs)" "ds1 = ds0\<lparr>ds_jobs := jobs\<rparr>"
      using assms(2) by (auto simp: fire_def d Sleep split: sum.splits prod.splits)
    have again: "settle_sleep w now2 fr2 d by_whom woken_by ds1 = (Inr False, ds1)" for by_whom woken_by
      by (rule settled_sleep_stays(1) [OF assms(1) first(1)]) (simp add: first(3))
    have "complete now2 (j_id j) (lease_token j) (ds_jobs ds1) = (Inl JobNotFound, ds_jobs ds1)"
      using complete_none [OF completed_once [OF first(2)]] by (simp add: first(3))
    then have "\<exists>cause. fire w now2 fr2 j ds1 = (Inl cause, ds1)"
      by (simp add: fire_def d Sleep again)
    then show ?thesis using again d settled_sleep_stays(2) [OF assms(1) first(1) refl] first(3) by simp
  next
    case Timer
    define m where "m = (if wk_exists w (du_session d)
      then snd (write_note (aw_outside w) (of_calendar w) now (fr_note fr) (fr_job fr) (note_of d None) ds) else ds)"
    obtain jobs where first: "complete now (j_id j) (lease_token j) (ds_jobs m) = (Inr (), jobs)" "ds1 = m\<lparr>ds_jobs := jobs\<rparr>"
      using assms(2) by (auto simp: fire_def d Timer fire_timer_def Let_def m_def [symmetric] split: sum.splits prod.splits)
    have "\<not> list_ex (running_for (j_id j) (lease_token j)) (ds_jobs (snd (write_note e c t ni ji n ds1)))" for e c t ni ji n
      using completed_once [OF first(1)] by (simp add: write_note_jobs enqueue_def first(2) running_for_def)
    then have "\<exists>cause. fire w now2 fr2 j ds1 = (Inl cause, ds1)"
      using completed_once [OF first(1)]
      by (simp add: fire_def d Timer fire_timer_def complete_none first(2))
    moreover have "length (ds_messages m) \<le> Suc (length (ds_messages ds))"
      by (simp add: m_def write_note_messages Let_def absorb_def)
    ultimately show ?thesis using d Timer first(2) by simp
  qed
qed

section \<open>What asking to wait leaves behind\<close>

definition asleep_until :: "uuid \<Rightarrow> uuid \<Rightarrow> due \<Rightarrow> desk \<Rightarrow> bool" where
  "asleep_until ws session_id d ds \<longleftrightarrow>
     (\<exists>hold \<in> set (ds_holds ds). \<exists>item \<in> set (q_items (ds_queue ds)).
        du_inhibitor d = Some (hr_id hold) \<and> hr_level hold = ''session'' \<and> hr_session hold = Some session_id \<and>
        hr_held_by hold = SLEEP_HOLDER \<and> hr_strength hold = ''suspended'' \<and>
        du_item d = Some (it_id item) \<and> it_workspace item = ws \<and> it_kind item = SLEEP_ITEM \<and>
        it_state item = ''pending'' \<and> it_inhibitor item = Some (hr_id hold))"

lemma sleep_holder_trimmed: "trim SLEEP_HOLDER = SLEEP_HOLDER"
  by (rule trim_graphic) code_simp

lemma fall_asleep_Inr:
  assumes "fall_asleep w now ids d ds = (Inr d1, ds1)"
  shows "\<not> already_asleep ds (du_session d)"
    and "\<exists>item hold. d1 = d\<lparr>du_item := Some item, du_inhibitor := Some hold\<rparr>"
    and "asleep_until (du_workspace d) (du_session d) d1 ds1" and "ds_jobs ds1 = ds_jobs ds"
proof -
  show "\<not> already_asleep ds (du_session d)" using assms by (auto simp: fall_asleep_def)
  obtain owner where owner: "wk_owner_of w (du_session d) = Some owner"
    using assms by (auto simp: fall_asleep_def split: if_splits option.splits)
  let ?th = "sleep_hold (of_calendar w) d"
  obtain r hs1 where take: "take_inhibitor (wi_hold ids) now ?th (ds_holds ds) = (r, hs1)" by fastforce
  then obtain held where held: "r = Inr held"
    using assms \<open>\<not> already_asleep ds (du_session d)\<close> by (cases r) (simp_all add: fall_asleep_def owner)
  obtain r2 q where raised: "raise_item (aw_jsonb_text w) now (wi_item ids) (du_workspace d)
      (sleep_item (aw_outside w) (of_calendar w) d (in_id held) owner) (ds_queue ds) = (r2, q)" by fastforce
  then obtain item where item: "r2 = Inr item" and ds1: "ds1 = ds\<lparr>ds_holds := hs1, ds_queue := q\<rparr>"
    and d1: "d1 = d\<lparr>du_item := Some item, du_inhibitor := Some (in_id held)\<rparr>"
    using assms \<open>\<not> already_asleep ds (du_session d)\<close>
    by (cases r2) (simp_all add: fall_asleep_def owner take held)
  have th: "trim (th_held_by ?th) = SLEEP_HOLDER" "th_scope ?th = SessionScope (du_workspace d) (du_session d)"
    "th_strength ?th = SuspendedHold" by (simp_all add: sleep_hold_def sleep_holder_trimmed)
  note held = take [unfolded held] and item = raised [unfolded item]
  have "\<exists>h \<in> set hs1. hr_id h = in_id held \<and> hr_level h = ''session'' \<and> hr_session h = Some (du_session d) \<and>
      hr_held_by h = SLEEP_HOLDER \<and> hr_strength h = ''suspended''"
    using held by (auto simp: take_inhibitor_def Let_def th read_hold_def split: if_splits sum.splits option.splits)
  then obtain h where h: "h \<in> set hs1" "hr_id h = in_id held" "hr_level h = ''session''" "hr_session h = Some (du_session d)"
    "hr_held_by h = SLEEP_HOLDER" "hr_strength h = ''suspended''" by blast
  have "\<exists>r \<in> set (q_items q). it_id r = item \<and> it_workspace r = du_workspace d \<and> it_kind r = SLEEP_ITEM \<and>
      it_state r = ''pending'' \<and> it_inhibitor r = Some (in_id held)"
    using item by (auto simp: raise_item_def Let_def item_row_of_def sleep_item_def announce_def split: sum.splits if_splits)
  then obtain r where "r \<in> set (q_items q)" "it_id r = item" "it_workspace r = du_workspace d" "it_kind r = SLEEP_ITEM"
    "it_state r = ''pending''" "it_inhibitor r = Some (in_id held)" by blast
  with h show "asleep_until (du_workspace d) (du_session d) d1 ds1"
    unfolding asleep_until_def by (intro bexI [of _ h] bexI [of _ r]) (simp_all add: ds1 d1)
  show "\<exists>item hold. d1 = d\<lparr>du_item := Some item, du_inhibitor := Some hold\<rparr>" using d1 by blast
  show "ds_jobs ds1 = ds_jobs ds" by (simp add: ds1)
qed

lemma set_wakeup_jobs:
  "ds_jobs (snd (set_wakeup w now ids d ds)) = snd (enqueue now (wi_job ids) (du_workspace d) WAKE
     (due_json (aw_outside w) (of_calendar w) d) (Some (max 0 (du_due_at d - now))) None PRIORITY_BACKGROUND (ds_jobs ds))"
  by (cases "du_kind d") (simp_all add: set_wakeup_def Let_def)

lemma due_at_Inr:
  "due_at c inp k now tz = Inr due \<Longrightarrow> now < due \<and> due \<le> now + LONGEST"
  by (auto simp: due_at_def split: if_splits)

lemma reason_of_Inr:
  "reason_of inp = Inr reason \<Longrightarrow> reason \<noteq> [] \<and> char_count reason \<le> LONGEST_REASON"
  by (auto simp: reason_of_def Let_def split: if_splits)

text \<open>
  A wait that was agreed to ends. Its wakeup is queued, one job, to run at the moment it names, and
  that moment lies ahead and no more than the longest wait away; the reason it carries is there and is
  short enough. A sleep was not one already, and leaves a hold on the conversation with an item open to
  wake it by, the two the wakeup names.
\<close>
theorem wait_agreed_to_ends:
  assumes "arrange w now ids inp k t ds = (Inr words, ds1)"
  shows "\<exists>j d. ds_jobs ds1 = ds_jobs ds @ [j] \<and> j_kind j = WAKE \<and> j_state j = Pending \<and>
    j_payload j = due_json (aw_outside w) (of_calendar w) d \<and> run_after j = du_due_at d \<and>
    now < du_due_at d \<and> du_due_at d \<le> now + LONGEST \<and>
    du_reason d \<noteq> [] \<and> char_count (du_reason d) \<le> LONGEST_REASON \<and>
    du_kind d = k \<and> du_session d = ct_session t \<and> du_workspace d = ct_workspace t \<and>
    (k = Sleep \<longrightarrow> \<not> already_asleep ds (ct_session t) \<and> asleep_until (ct_workspace t) (ct_session t) d ds1)"
proof -
  obtain reason due where ok: "reason_of inp = Inr reason" "due_at (of_calendar w) inp k now (ct_timezone t) = Inr due"
    using assms by (auto simp: arrange_def try_step_def split: sum.splits)
  let ?d = "due_of now k t reason due"
  obtain d1 ds0 where step: "(if k = Sleep then fall_asleep w now ids ?d ds else (Inr ?d, ds)) = (Inr d1, ds0)"
    and ds1: "ds1 = snd (set_wakeup w now ids d1 ds0)"
    using assms by (auto simp: arrange_def ok split: sum.splits prod.splits if_splits)
  have d1: "\<exists>item hold. d1 = ?d\<lparr>du_item := item, du_inhibitor := hold\<rparr>"
    using step fall_asleep_Inr(2) [of w now ids ?d ds d1 ds0] by (auto simp: due_of_def split: if_splits)
  have same: "du_due_at d1 = due" "du_reason d1 = reason" "du_kind d1 = k" "du_session d1 = ct_session t" "du_workspace d1 = ct_workspace t"
    using d1 by (auto simp: due_of_def)
  have jobs: "ds_jobs ds0 = ds_jobs ds" using step fall_asleep_Inr(4) by (auto split: if_splits)
  have sleep: "\<not> already_asleep ds (ct_session t) \<and> asleep_until (ct_workspace t) (ct_session t) d1 ds0" if "k = Sleep"
    using step fall_asleep_Inr(1,3) [of w now ids ?d ds d1 ds0] that by (simp add: due_of_def)
  have left: "ds_holds ds1 = ds_holds ds0" "ds_queue ds1 = ds_queue ds0"
    by (simp_all add: ds1 set_wakeup_def Let_def split: wake_kind.split)
  have "now < due" using due_at_Inr [OF ok(2)] by simp
  then have "\<exists>j. ds_jobs ds1 = ds_jobs ds @ [j] \<and> j_kind j = WAKE \<and> j_state j = Pending \<and>
      j_payload j = due_json (aw_outside w) (of_calendar w) d1 \<and> run_after j = due"
    by (simp add: ds1 set_wakeup_jobs enqueue_def jobs same)
  then obtain j where j: "ds_jobs ds1 = ds_jobs ds @ [j]" "j_kind j = WAKE" "j_state j = Pending"
    "j_payload j = due_json (aw_outside w) (of_calendar w) d1" "run_after j = due" by blast
  have "k = Sleep \<longrightarrow> \<not> already_asleep ds (ct_session t) \<and> asleep_until (ct_workspace t) (ct_session t) d1 ds1"
    using sleep by (simp add: asleep_until_def left)
  then show ?thesis
    using j same due_at_Inr [OF ok(2)] reason_of_Inr [OF ok(1)] by (intro exI [of _ j] exI [of _ d1]) simp
qed

section \<open>A timer that comes due\<close>

definition wake_office :: waking where
  "wake_office = \<lparr>aw_outside = toy_outside, aw_parse_uuid = few_parse, aw_parse_url = (\<lambda>u. None),
     aw_jsonb_text = (\<lambda>v. []), aw_authorize = (\<lambda>hs a. Inr ()), aw_name_of = (\<lambda>u. None), aw_agent_of = (\<lambda>s. Some 1),
     aw_operations = (\<lambda>ws ag. Some []), aw_roles_with = (\<lambda>ws a. Inr []),
     of_authenticate = (\<lambda>hs. Inl (401, [])), of_roles = (\<lambda>ws. Inr []), of_members = \<lparr>workspace_roles = [], system_roles = []\<rparr>,
     of_session = (\<lambda>ws s. True), of_calendar = toy_calendar\<lparr>cal_read := (\<lambda>s. Some 0)\<rparr>,
     wk_owner_of = (\<lambda>s. None), wk_exists = (\<lambda>s. True), wk_may_send = (\<lambda>c s. Inr ()), wk_unreadable = (\<lambda>v. [])\<rparr>"

definition wakeup_job :: job where
  "wakeup_job = \<lparr>j_id = 20, j_workspace = 7, j_kind = WAKE,
     j_payload = JObj [(''agent_id'', JStr ''s''), (''due_at'', JStr ''noon''), (''kind'', JStr ''timer''),
       (''reason'', JStr ''The deposit''), (''session_id'', JStr ''s''), (''set_at'', JStr ''noon''), (''workspace_id'', JStr ''j'')],
     j_state = Running, attempts = 1, max_attempts = 3, releases = 0, lease_token = Some 21, leased_until = Some 60,
     run_after = 0, cancel_requested_at = None, last_error = None, serial_key = None, priority = 0, updated_at = 0\<rparr>"

definition waiting_desk :: desk where
  "waiting_desk = charge_desk\<lparr>ds_jobs := [wakeup_job]\<rparr>"

lemma wakeup_read: "map_option du_kind (read_due (aw_parse_uuid wake_office) (of_calendar wake_office) (j_payload wakeup_job)) = Some Timer"
  by code_simp

lemma timer_came_due: "\<exists>ds1. fire wake_office 1 some_ids wakeup_job waiting_desk = (Inr (), ds1)"
proof -
  obtain d where d: "read_due (aw_parse_uuid wake_office) (of_calendar wake_office) (j_payload wakeup_job) = Some d" "du_kind d = Timer"
    using wakeup_read by auto
  have "running_for (j_id wakeup_job) (lease_token wakeup_job) wakeup_job" by code_simp
  moreover have "wakeup_job \<in> set (ds_jobs (snd (write_note e c t ni ji n waiting_desk)))" for e c t ni ji n
    by (simp add: write_note_jobs enqueue_def waiting_desk_def)
  ultimately have "\<exists>db. complete 1 (j_id wakeup_job) (lease_token wakeup_job)
      (ds_jobs (snd (write_note e c t ni ji n waiting_desk))) = (Inr (), db)" for e c t ni ji n
    by (auto simp: complete_def Let_def written_def returning_def filter_empty_conv)
  then obtain db where "complete 1 (j_id wakeup_job) (lease_token wakeup_job)
      (ds_jobs (snd (write_note (aw_outside wake_office) (of_calendar wake_office) 1 (fr_note some_ids) (fr_job some_ids)
        (note_of d None) waiting_desk))) = (Inr (), db)" by fastforce
  moreover have "wk_exists wake_office (du_session d)" by (simp add: wake_office_def)
  ultimately show ?thesis by (simp add: fire_def d fire_timer_def Let_def)
qed

lemma wait_ends_once_witness:
  "\<exists>ds1. fire wake_office 1 some_ids wakeup_job waiting_desk = (Inr (), ds1) \<and>
     (\<exists>cause. fire wake_office 2 some_ids wakeup_job ds1 = (Inl cause, ds1))"
proof -
  obtain ds1 where first: "fire wake_office 1 some_ids wakeup_job waiting_desk = (Inr (), ds1)"
    using timer_came_due by blast
  have "distinct (map it_id (q_items (ds_queue waiting_desk)))" by (simp add: waiting_desk_def charge_desk_def)
  from wait_ends_once [OF this first, of 2 some_ids] first show ?thesis by simp
qed

definition ten_minutes :: wait_request where
  "ten_minutes = \<lparr>wt_job = 7, wt_session = 8, wt_kind = AskTimer, wt_seconds = Some 600, wt_at = None, wt_reason = ''deposit'',
     wt_id = None\<rparr>"

definition example_turn :: chat_turn where
  "example_turn = \<lparr>ct_workspace = 7, ct_session = 8, ct_agent = 1, ct_message = 5, ct_timezone = None, ct_user = None\<rparr>"

definition example_ids :: wait_ids where "example_ids = \<lparr>wi_hold = 31, wi_item = 32, wi_job = 33\<rparr>"

lemma ten_minutes_agreed:
  "\<exists>words ds1. arrange wake_office 0 example_ids ten_minutes Timer example_turn waiting_desk = (Inr words, ds1)"
proof -
  have "trim ''deposit'' = ''deposit''" by (rule trim_graphic) code_simp
  moreover have "char_count ''deposit'' \<le> LONGEST_REASON" by code_simp
  ultimately have reason: "reason_of ten_minutes = Inr ''deposit''" by (simp add: reason_of_def ten_minutes_def Let_def)
  have due: "due_at c ten_minutes Timer 0 None = Inr (seconds 600)" for c
    by (simp add: due_at_def moment_asked_def ten_minutes_def seconds_def LONGEST_def i64_max_def)
  show ?thesis by (simp add: arrange_def reason due example_turn_def split: prod.split)
qed

lemma wait_agreed_to_ends_witness:
  "\<exists>words ds1 j. \<exists>d :: due. arrange wake_office 0 example_ids ten_minutes Timer example_turn waiting_desk = (Inr words, ds1) \<and>
     ds_jobs ds1 = ds_jobs waiting_desk @ [j] \<and> run_after j = du_due_at d \<and> du_due_at d \<le> LONGEST"
proof -
  obtain words ds1 where agreed: "arrange wake_office 0 example_ids ten_minutes Timer example_turn waiting_desk = (Inr words, ds1)"
    using ten_minutes_agreed by blast
  obtain j and d :: due where "ds_jobs ds1 = ds_jobs waiting_desk @ [j]" "run_after j = du_due_at d" "du_due_at d \<le> 0 + LONGEST"
    using wait_agreed_to_ends [OF agreed] by blast
  then show ?thesis using agreed by (intro exI conjI) simp_all
qed

end
