(* ===== verification/JobsEnd.thy ===== *)
theory JobsEnd
  imports Jobs
begin

text \<open>
  No job is run for ever: the statements of \<open>crates/core/src/jobs/store.rs\<close> one after another, and how often
  they give one job to a runtime. What may give a job more turns is a person asking for it again and a hold
  parking it; nothing a runtime does, and nothing that happens to one, can.
\<close>

datatype queue_step =
    Takes time "string list" nat time "uuid \<Rightarrow> uuid"
  | Does time job_op

fun step_queue :: "(string \<Rightarrow> int) \<Rightarrow> queue_step \<Rightarrow> job list \<Rightarrow> job list" where
  "step_queue hashtext (Takes now kinds lim lease fresh) db = snd (claim hashtext now kinds lim lease fresh db)"
| "step_queue hashtext (Does now op) db = apply_op now op db"

fun given :: "(string \<Rightarrow> int) \<Rightarrow> queue_step \<Rightarrow> job list \<Rightarrow> job list" where
  "given hashtext (Takes now kinds lim lease fresh) db = fst (claim hashtext now kinds lim lease fresh db)"
| "given hashtext (Does now op) db = []"

text \<open>How many of a run's claims give a job out.\<close>

fun times_given :: "(string \<Rightarrow> int) \<Rightarrow> uuid \<Rightarrow> queue_step list \<Rightarrow> job list \<Rightarrow> nat" where
  "times_given hashtext i [] db = 0"
| "times_given hashtext i (s # ss) db =
     (if i \<in> j_id ` set (given hashtext s db) then 1 else 0) + times_given hashtext i ss (step_queue hashtext s db)"

text \<open>A run in which nobody parks the job or asks for it again, and runtimes hand work back as they are told to.\<close>

fun ordinary :: "uuid \<Rightarrow> job_op \<Rightarrow> bool" where
  "ordinary i (Park i' token) \<longleftrightarrow> i' \<noteq> i"
| "ordinary i (Requeue i') \<longleftrightarrow> i' \<noteq> i"
| "ordinary i (Release i' delay max_releases token) \<longleftrightarrow> max_releases \<le> MAX_RELEASES"
| "ordinary i _ \<longleftrightarrow> True"

fun ordinary_run :: "(string \<Rightarrow> int) \<Rightarrow> uuid \<Rightarrow> queue_step list \<Rightarrow> job list \<Rightarrow> bool" where
  "ordinary_run hashtext i [] db \<longleftrightarrow> True"
| "ordinary_run hashtext i (s # ss) db \<longleftrightarrow>
     (case s of Does now op \<Rightarrow> op_ok db op \<and> ordinary i op | _ \<Rightarrow> True) \<and> ordinary_run hashtext i ss (step_queue hashtext s db)"

text \<open>What a job has left: its attempts, and the times it may be handed back.\<close>

definition turns_left :: "job \<Rightarrow> nat" where
  "turns_left j = (if j_state j \<in> {Pending, Running, Parked}
     then nat (max_attempts j - attempts j) + nat (MAX_RELEASES - releases j) else 0)"

lemma update_keeps_left:
  assumes "j \<in> set db" "\<And>j. j \<in> set db \<Longrightarrow> j_id j = i \<Longrightarrow> P j \<Longrightarrow> turns_left (f j) \<le> turns_left j \<and> j_id (f j) = i" "j_id j = i"
  shows "\<exists>j' \<in> set (update_rows P f db). j_id j' = i \<and> turns_left j' \<le> turns_left j"
proof
  let ?j = "if P j then f j else j"
  show "?j \<in> set (update_rows P f db)" using assms(1) by (auto simp: update_rows_def)
  show "j_id ?j = i \<and> turns_left ?j \<le> turns_left j" using assms by auto
qed

lemmas statement_defs = complete_def record_failure_def requeue_failed_def request_cancel_def cancel_for_session_def
  mark_cancelled_def release_def park_def resume_parked_def reap_abandoned_def extend_lease_def written_def
  running_for_def

lemma op_keeps_left:
  assumes "jobs_ok db" "op_ok db op" "ordinary i op" "j \<in> set db" "j_id j = i"
  shows "\<exists>j' \<in> set (apply_op now op db). j_id j' = i \<and> turns_left j' \<le> turns_left j"
proof (cases op)
  case (Enqueue i' ws kind payload delay key prio)
  then show ?thesis using assms(4,5) by (auto simp: enqueue_def)
next
  case (Requeue i')
  then show ?thesis
    using assms(3-5) by (auto simp: requeue_failed_def Let_def intro!: update_keeps_left)
next
  case (Release i' delay max_releases token)
  have "attempts r \<le> max_attempts r" if "r \<in> set db" for r
    using assms(1) that by (simp add: jobs_ok_def job_ok_def)
  then show ?thesis
    unfolding Release apply_op.simps release_def Let_def snd_conv
    using Release assms(3-5) by (intro update_keeps_left) (auto simp: running_for_def turns_left_def)
qed (use assms(3-5) in \<open>(simp only: apply_op.simps statement_defs Let_def snd_conv; intro update_keeps_left;
    auto simp: turns_left_def stopped_def Let_def)+\<close>)

lemma claim_spends:
  assumes "jobs_ok db" "j \<in> set db" "j_id j = i"
  shows "\<exists>j' \<in> set (snd (claim hashtext now kinds lim lease fresh db)). j_id j' = i \<and>
    turns_left j' + (if i \<in> j_id ` set (fst (claim hashtext now kinds lim lease fresh db)) then 1 else 0) \<le> turns_left j"
proof -
  let ?picked = "map j_id (pick hashtext now kinds lim (\<lambda>_. False) (\<lambda>_. False) db)"
  let ?j = "if takes ?picked db j then claimed now lease fresh j else j"
  have only: "i \<in> j_id ` set (returning (takes ?picked db) (claimed now lease fresh) db) \<longleftrightarrow> takes ?picked db j"
  proof
    assume "i \<in> j_id ` set (returning (takes ?picked db) (claimed now lease fresh) db)"
    then obtain r where "r \<in> set db" "takes ?picked db r" "j_id r = i" by (auto simp: returning_def claimed_def)
    then show "takes ?picked db j" using row_unique [OF assms(1,2)] assms(3) by metis
  next
    assume "takes ?picked db j"
    then show "i \<in> j_id ` set (returning (takes ?picked db) (claimed now lease fresh) db)"
      using assms(2,3) by (auto simp: returning_def claimed_def image_iff intro!: bexI [of _ j])
  qed
  have spent: "turns_left (claimed now lease fresh j) + 1 \<le> turns_left j" if taken: "takes ?picked db j"
  proof -
    obtain p where p: "p \<in> set (pick hashtext now kinds lim (\<lambda>_. False) (\<lambda>_. False) db)" "j_id p = j_id j"
      using taken by (auto simp: takes_def)
    then have "p = j" using pick_pending [OF p(1)] row_unique [OF assms(1) _ assms(2)] by simp
    then have "j_state j = Pending" using pick_pending [OF p(1)] by (simp add: may_start_def)
    then show ?thesis using assms(1,2) by (auto simp: turns_left_def claimed_def jobs_ok_def job_ok_def)
  qed
  show ?thesis
  proof (cases "?picked = []")
    case True
    then show ?thesis using assms(2,3) by (auto simp: claim_def Let_def)
  next
    case False
    then have "?j \<in> set (snd (claim hashtext now kinds lim lease fresh db))" "j_id ?j = i"
      using assms(2,3) by (auto simp: claim_def Let_def update_rows_def claimed_def)
    moreover have "i \<in> j_id ` set (fst (claim hashtext now kinds lim lease fresh db)) \<longleftrightarrow> takes ?picked db j"
      using False only by (simp add: claim_def Let_def)
    ultimately show ?thesis using spent by (intro bexI [of _ ?j]) auto
  qed
qed

text \<open>
  C15. No job is run for ever. However claims and the statements of runtimes, people and the reaper follow one
  another, as long as the job is neither parked nor asked for again it is given out no more often than it has
  attempts and hand-backs left -- a new one 153 times, three attempts and 150 hand-backs, whether its runtimes
  finish it, fail it, give it back or die with it.
\<close>

theorem no_job_runs_forever:
  assumes "jobs_ok db" "j \<in> set db" "ordinary_run hashtext (j_id j) steps db"
  shows "times_given hashtext (j_id j) steps db \<le> nat (max_attempts j - attempts j) + nat (MAX_RELEASES - releases j)"
proof -
  have "times_given hashtext i steps db \<le> turns_left j"
    if "jobs_ok db" "j \<in> set db" "j_id j = i" "ordinary_run hashtext i steps db" for i
    using that
  proof (induction steps arbitrary: db j)
    case (Cons s ss)
    show ?case
    proof (cases s)
      case (Takes now kinds lim lease fresh)
      obtain j' where "j' \<in> set (step_queue hashtext s db)" "j_id j' = i"
        "turns_left j' + (if i \<in> j_id ` set (given hashtext s db) then 1 else 0) \<le> turns_left j"
        using claim_spends [OF Cons.prems(1-3), of hashtext now kinds lim lease fresh] Takes by auto
      moreover have "jobs_ok (step_queue hashtext s db)" using claim_ok [OF Cons.prems(1)] Takes by simp
      ultimately show ?thesis using Cons.IH [of "step_queue hashtext s db" j'] Cons.prems(4) by auto
    next
      case (Does now op)
      obtain j' where "j' \<in> set (step_queue hashtext s db)" "j_id j' = i" "turns_left j' \<le> turns_left j"
        using op_keeps_left [OF Cons.prems(1) _ _ Cons.prems(2,3), of op now] Cons.prems(4) Does by auto
      moreover have "jobs_ok (step_queue hashtext s db)"
        using rows_move_ok [OF Cons.prems(1) op_moves_rows] Cons.prems(4) Does by simp
      ultimately show ?thesis using Cons.IH [of "step_queue hashtext s db" j'] Cons.prems(4) Does by auto
    qed
  qed simp
  from this [OF assms(1,2) refl assms(3)] show ?thesis by (simp add: turns_left_def split: if_splits)
qed

definition tried_twice :: "queue_step list" where
  "tried_twice = [Takes 0 [] 1 10 (\<lambda>_. 7), Does 20 Reap, Takes 30 [] 1 10 (\<lambda>_. 8)]"

theorem no_job_runs_forever_witness:
  "times_given (\<lambda>_. 0) 1 tried_twice [example_job 1 ''s''] = 2 \<and> times_given (\<lambda>_. 0) 1 tried_twice [example_job 1 ''s''] \<le> 153"
proof -
  have "jobs_ok [example_job 1 ''s'']" by (simp add: jobs_ok_def job_ok_def example_job_def)
  moreover have "ordinary_run (\<lambda>_. 0) (j_id (example_job 1 ''s'')) tried_twice [example_job 1 ''s'']"
    by (simp add: tried_twice_def op_ok_def)
  moreover have "times_given (\<lambda>_. 0) 1 tried_twice [example_job 1 ''s''] = 2" by code_simp
  ultimately show ?thesis
    using no_job_runs_forever [of "[example_job 1 ''s'']" "example_job 1 ''s''" "\<lambda>_. 0" tried_twice]
    by (simp add: example_job_def MAX_RELEASES_def)
qed

end
