(* ===== verification/Llm.thy ===== *)
theory Llm
  imports External
begin

text \<open>
  What a model is asked and what it answers, in the one shape every tier reads: \<open>crates/core/src/llm.rs\<close>,
  and what is known of a model, \<open>crates/core/src/facts.rs\<close>. Token counts are \<open>u32\<close>, which wrap in a
  release build; a temperature is the bits of its \<open>f32\<close>.
\<close>

type_synonym tokens = "32 word"

section \<open>A model's facts\<close>

record model_facts =
  mf_sampling :: bool
  mf_output_limit :: "tokens option"
  mf_context_window :: "tokens option"
  mf_canonical :: "string option"
  mf_efforts :: "string list"
  mf_adaptive_thinking :: bool
  mf_thinking_binding :: bool

definition default_facts :: model_facts where
  "default_facts = \<lparr>mf_sampling = True, mf_output_limit = None, mf_context_window = None, mf_canonical = None,
     mf_efforts = [], mf_adaptive_thinking = False, mf_thinking_binding = False\<rparr>"

fun as_bool :: "json \<Rightarrow> bool option" where
  "as_bool (JBool b) = Some b"
| "as_bool _ = None"

fun as_u64 :: "json \<Rightarrow> nat option" where
  "as_u64 (JNum (PosInt n)) = Some n"
| "as_u64 _ = None"

fun as_array :: "json \<Rightarrow> json list option" where
  "as_array (JArr vs) = Some vs"
| "as_array _ = None"

text \<open>An array's elements, and none of anything else.\<close>

definition elements :: "json \<Rightarrow> json list" where
  "elements v = (case as_array v of Some vs \<Rightarrow> vs | None \<Rightarrow> [])"

definition as_u32 :: "json \<Rightarrow> tokens option" where
  "as_u32 v = Option.bind (as_u64 v) (\<lambda>n. if n < 2 ^ 32 then Some (word_of_nat n) else None)"

definition or_else :: "'a option \<Rightarrow> 'a \<Rightarrow> 'a" where
  "or_else x d = (case x of Some y \<Rightarrow> y | None \<Rightarrow> d)"

definition CLAUDE_ADAPTIVE_FROM :: string where "CLAUDE_ADAPTIVE_FROM = ''2026-02-04''"
definition CLAUDE_BINDING_FROM :: string where "CLAUDE_BINDING_FROM = ''2026-06-07''"

definition family_defaults :: "json \<Rightarrow> (string \<times> json) list" where
  "family_defaults entry =
     (let family = or_else (as_str (json_at entry ''family'')) [];
          released = or_else (as_str (json_at entry ''release_date'')) [] in
      if \<not> starts_with family ''claude'' \<or> released = [] then []
      else [(''adaptive_thinking'', JBool (CLAUDE_ADAPTIVE_FROM \<le> released)),
            (''thinking_binding'', JBool (CLAUDE_BINDING_FROM \<le> released))])"

definition lay_over :: "(string \<times> json) list \<Rightarrow> object \<Rightarrow> object" where
  "lay_over ms o1 = fold (\<lambda>(k, v) o1. obj_insert k v o1) ms o1"

definition merged_entry :: "json option \<Rightarrow> json option \<Rightarrow> json" where
  "merged_entry entry overrides =
     (let base = (case entry of Some (JObj o1) \<Rightarrow> o1 | _ \<Rightarrow> []);
          told = lay_over (family_defaults (JObj base)) base in
      JObj (case overrides of Some (JObj over) \<Rightarrow> lay_over over told | _ \<Rightarrow> told))"

definition efforts_of :: "json \<Rightarrow> string list" where
  "efforts_of merged =
     (case find (\<lambda>option. json_at option ''type'' = JStr ''effort'') (elements (json_at merged ''reasoning_options'')) of
        None \<Rightarrow> []
      | Some option \<Rightarrow> List.map_filter as_str (elements (json_at option ''values'')))"

definition facts_of :: "json option \<Rightarrow> json option \<Rightarrow> model_facts" where
  "facts_of entry overrides =
     (let merged = merged_entry entry overrides in
      \<lparr>mf_sampling = or_else (as_bool (json_at merged ''temperature'')) (mf_sampling default_facts),
       mf_output_limit = as_u32 (json_at (json_at merged ''limit'') ''output''),
       mf_context_window = as_u32 (json_at (json_at merged ''limit'') ''context''),
       mf_canonical = as_str (json_at merged ''canonical_model_id''),
       mf_efforts = efforts_of merged,
       mf_adaptive_thinking = or_else (as_bool (json_at merged ''adaptive_thinking'')) False,
       mf_thinking_binding = or_else (as_bool (json_at merged ''thinking_binding'')) False\<rparr>)"

section \<open>What is asked\<close>

record function_call =
  fc_name :: string
  fc_arguments :: string

record tool_call =
  tc_id :: string
  tc_type :: string
  tc_function :: function_call
  tc_signature :: "string option"

datatype speaker = BySystem | ByUser | ByAssistant | ByTool

datatype content_part = TextPart string | ImagePart string

datatype message_content = TextContent string | PartsContent "content_part list"

record llm_message =
  lm_role :: speaker
  lm_content :: message_content
  lm_name :: "string option"
  lm_tool_calls :: "tool_call list option"
  lm_tool_call_id :: "string option"
  lm_thinking :: "json list"
  lm_signed_by :: "string option"

record tool_def =
  td_name :: string
  td_description :: "string option"
  td_parameters :: "json option"

record completion_request =
  cr_model :: string
  cr_messages :: "llm_message list"
  cr_temperature :: "32 word option"
  cr_max_tokens :: "tokens option"
  cr_tools :: "tool_def list option"
  cr_effort :: "string option"
  cr_facts :: "model_facts option"

section \<open>What is answered\<close>

datatype reply_part = SaidText string | SaidCall tool_call

fun flatten_parts :: "reply_part list \<Rightarrow> string \<times> tool_call list" where
  "flatten_parts [] = ([], [])"
| "flatten_parts (SaidText t # ps) = (case flatten_parts ps of (text, calls) \<Rightarrow> (t @ text, calls))"
| "flatten_parts (SaidCall c # ps) = (case flatten_parts ps of (text, calls) \<Rightarrow> (text, c # calls))"

record prompt_details =
  pd_cached :: tokens
  pd_cache_creation :: tokens

record usage =
  us_prompt :: tokens
  us_completion :: tokens
  us_total :: tokens
  us_prompt_details :: "prompt_details option"
  us_reasoning :: "tokens option"
  us_extra :: object

record choice =
  ch_message :: llm_message
  ch_finish :: "string option"
  ch_parts :: "reply_part list"

record completion =
  co_id :: string
  co_object :: string
  co_model :: string
  co_choices :: "choice list"
  co_usage :: "usage option"

record call_delta =
  cd_index :: tokens
  cd_signature :: "string option"
  cd_id :: "string option"
  cd_type :: "string option"
  cd_name :: "string option"
  cd_arguments :: "string option"

record delta =
  dt_content :: "string option"
  dt_reasoning :: "string option"
  dt_calls :: "call_delta list option"
  dt_thinking :: "json option"
  dt_refusal :: "string option"
  dt_refusal_category :: "string option"

definition no_delta :: delta where
  "no_delta = \<lparr>dt_content = None, dt_reasoning = None, dt_calls = None, dt_thinking = None, dt_refusal = None,
     dt_refusal_category = None\<rparr>"

record chunk =
  ck_id :: string
  ck_object :: string
  ck_model :: string
  ck_delta :: delta
  ck_finish :: "string option"
  ck_usage :: "usage option"
  ck_tier :: "string option"

section \<open>What a stream adds up to\<close>

text \<open>
  The chunks of a reply as their reader puts them together: text and reasoning end to end, each call under
  its place, the last finish reason, refusal and usage.
\<close>

record reply =
  rp_text :: string
  rp_reasoning :: string
  rp_thinking :: "json list"
  rp_calls :: "(string \<times> string \<times> string \<times> string option) list"
  rp_finish :: "string option"
  rp_refusal :: "string option"
  rp_usage :: "usage option"

definition no_reply :: reply where
  "no_reply = \<lparr>rp_text = [], rp_reasoning = [], rp_thinking = [], rp_calls = [], rp_finish = None, rp_refusal = None,
     rp_usage = None\<rparr>"

definition at_slot :: "nat \<Rightarrow> 'a \<Rightarrow> 'a list \<Rightarrow> 'a list" where
  "at_slot i d xs = (if i < length xs then xs else xs @ replicate (Suc i - length xs) d)"

definition read_call :: "call_delta \<Rightarrow> (string \<times> string \<times> string \<times> string option) list \<Rightarrow>
    (string \<times> string \<times> string \<times> string option) list" where
  "read_call c calls =
     (let i = unat (cd_index c);
          known = at_slot i ([], [], [], None) calls in
      (case known ! i of (name_id, name, args, sig) \<Rightarrow>
         known[i := (or_else (cd_id c) name_id, or_else (cd_name c) name, args @ or_else (cd_arguments c) [],
           (case cd_signature c of None \<Rightarrow> sig | Some s \<Rightarrow> Some s))]))"

definition later :: "'a option \<Rightarrow> 'a option \<Rightarrow> 'a option" where
  "later new old = (case new of None \<Rightarrow> old | Some x \<Rightarrow> Some x)"

definition read_chunk :: "chunk \<Rightarrow> reply \<Rightarrow> reply" where
  "read_chunk k r =
     (let d = ck_delta k in
      \<lparr>rp_text = rp_text r @ or_else (dt_content d) [], rp_reasoning = rp_reasoning r @ or_else (dt_reasoning d) [],
       rp_thinking = rp_thinking r @ (case dt_thinking d of None \<Rightarrow> [] | Some b \<Rightarrow> [b]),
       rp_calls = fold read_call (or_else (dt_calls d) []) (rp_calls r),
       rp_finish = later (ck_finish k) (rp_finish r), rp_refusal = later (dt_refusal d) (rp_refusal r),
       rp_usage = later (ck_usage k) (rp_usage r)\<rparr>)"

definition read_chunks :: "chunk list \<Rightarrow> reply \<Rightarrow> reply" where
  "read_chunks ks r = fold read_chunk ks r"

lemma or_else_simps [simp]: "or_else (Some x) d = x" "or_else None d = d"
  by (simp_all add: or_else_def)

lemma later_simps [simp]: "later (Some x) y = Some x" "later None y = y"
  by (simp_all add: later_def)

lemma elements_simps [simp]: "elements (JArr vs) = vs" "elements JNull = []"
  by (simp_all add: elements_def)

lemma read_chunks_simps [simp]:
  "read_chunks [] r = r" "read_chunks (k # ks) r = read_chunks ks (read_chunk k r)"
  "read_chunks (ks @ ls) r = read_chunks ls (read_chunks ks r)"
  by (simp_all add: read_chunks_def)

lemma read_call_new:
  assumes "unat (cd_index c) = length calls"
  shows "read_call c calls = calls @ [(or_else (cd_id c) [], or_else (cd_name c) [], or_else (cd_arguments c) [], cd_signature c)]"
  using assms by (cases "cd_signature c") (simp_all add: read_call_def at_slot_def Let_def nth_append)

lemma read_call_last:
  assumes "unat (cd_index c) = length calls" "cd_id c = None" "cd_name c = None" "cd_signature c = None"
  shows "read_call c (calls @ [(i, n, a, s)]) = calls @ [(i, n, a @ or_else (cd_arguments c) [], s)]"
  using assms by (simp add: read_call_def at_slot_def Let_def nth_append)

lemma flatten_parts_append:
  "flatten_parts (ps @ qs) = (fst (flatten_parts ps) @ fst (flatten_parts qs), snd (flatten_parts ps) @ snd (flatten_parts qs))"
  by (induction ps rule: flatten_parts.induct) (simp_all split: prod.split)

end
