(* ===== verification/Anthropic.thy ===== *)
theory Anthropic
  imports Llm
begin

text \<open>
  Asking and hearing an Anthropic model: the Messages API half of \<open>crates/gateway/src/llm/translate.rs\<close>.
  A request and a whole response are each one function; a stream is a state machine over its events.
  How \<open>serde_json\<close> writes an \<open>f32\<close> is an argument. Indexing a JSON value by a name that is not there, or
  that is not an object, is null, as in the crate.
\<close>

record wire = outside +
  f32_json :: "32 word \<Rightarrow> json"

definition f32_one :: "32 word" where "f32_one = 0x3F800000"

definition ephemeral :: json where
  "ephemeral = json_object [(''type'', JStr ''ephemeral'')]"

definition text_block :: "string \<Rightarrow> json" where
  "text_block t = json_object [(''type'', JStr ''text''), (''text'', JStr t)]"

text \<open>\<open>value[key] = x\<close>: a null becomes an object; of anything else that is no object the code would panic.\<close>

fun json_set :: "string \<Rightarrow> json \<Rightarrow> json \<Rightarrow> json" where
  "json_set k x (JObj o1) = JObj (obj_insert k x o1)"
| "json_set k x JNull = JObj [(k, x)]"
| "json_set k x v = v"

section \<open>Asking\<close>

definition data_url :: "string \<Rightarrow> (string \<times> string) option" where
  "data_url url =
     Option.bind (strip_prefix url ''data:'') (\<lambda>rest.
     Option.bind (split_once (CHR '','') rest) (\<lambda>(header, data).
     Option.bind (strip_suffix header '';base64'') (\<lambda>media_type. Some (media_type, data))))"

definition anthropic_image :: "string \<Rightarrow> json" where
  "anthropic_image url =
     (case data_url url of
        Some (media_type, data) \<Rightarrow>
          json_object [(''type'', JStr ''image''), (''source'', json_object [(''type'', JStr ''base64''),
            (''media_type'', JStr media_type), (''data'', JStr data)])]
      | None \<Rightarrow> json_object [(''type'', JStr ''image''),
          (''source'', json_object [(''type'', JStr ''url''), (''url'', JStr url)])])"

fun part_texts :: "content_part list \<Rightarrow> string list" where
  "part_texts [] = []"
| "part_texts (TextPart t # ps) = t # part_texts ps"
| "part_texts (ImagePart u # ps) = part_texts ps"

fun content_text :: "message_content \<Rightarrow> string" where
  "content_text (TextContent t) = t"
| "content_text (PartsContent ps) = join_with (CHR 0x0A) (part_texts ps)"

fun anthropic_part :: "content_part \<Rightarrow> json" where
  "anthropic_part (TextPart t) = text_block t"
| "anthropic_part (ImagePart u) = anthropic_image u"

fun anthropic_content :: "message_content \<Rightarrow> json" where
  "anthropic_content (TextContent t) = JStr t"
| "anthropic_content (PartsContent ps) = JArr (map anthropic_part ps)"

definition call_input :: "('a outside_scheme) \<Rightarrow> string \<Rightarrow> json" where
  "call_input e args = (case json_parse e args of Some (JObj o1) \<Rightarrow> JObj o1 | _ \<Rightarrow> JObj [])"

definition tool_use :: "('a outside_scheme) \<Rightarrow> tool_call \<Rightarrow> json" where
  "tool_use e c =
     json_object [(''type'', JStr ''tool_use''), (''id'', JStr (tc_id c)), (''name'', JStr (fc_name (tc_function c))),
       (''input'', call_input e (fc_arguments (tc_function c)))]"

definition reply_blocks :: "('a outside_scheme) \<Rightarrow> llm_message \<Rightarrow> tool_call list \<Rightarrow> json list" where
  "reply_blocks e m calls =
     lm_thinking m @
     (case lm_content m of TextContent t \<Rightarrow> (if t = [] then [] else [text_block t]) | PartsContent ps \<Rightarrow> []) @
     map (tool_use e) calls"

fun role_name :: "speaker \<Rightarrow> string" where
  "role_name ByAssistant = ''assistant''"
| "role_name _ = ''user''"

definition spoken :: "('a outside_scheme) \<Rightarrow> llm_message \<Rightarrow> json" where
  "spoken e m =
     json_object [(''role'', JStr (role_name (lm_role m))),
       (''content'', (case lm_tool_calls m of
           Some calls \<Rightarrow> JArr (reply_blocks e m calls)
         | None \<Rightarrow> anthropic_content (lm_content m)))]"

definition tool_result :: "llm_message \<Rightarrow> string + json" where
  "tool_result m =
     (case (lm_tool_call_id m, lm_content m) of
        (None, _) \<Rightarrow> Inl ''tool message missing tool_call_id''
      | (Some i, PartsContent ps) \<Rightarrow> Inl ''tool message with parts not supported''
      | (Some i, TextContent t) \<Rightarrow>
          Inr (json_object [(''role'', JStr ''user''),
            (''content'', JArr [json_object [(''type'', JStr ''tool_result''), (''tool_use_id'', JStr i), (''content'', JStr t)]])]))"

definition joined :: "string option \<Rightarrow> string \<Rightarrow> string option" where
  "joined system text = Some (case system of Some existing \<Rightarrow> existing @ CHR 0x0A # text | None \<Rightarrow> text)"

fun anthropic_messages :: "('a outside_scheme) \<Rightarrow> llm_message list \<Rightarrow> string option \<Rightarrow> json list \<Rightarrow> string + (string option \<times> json list)" where
  "anthropic_messages e [] system out = Inr (system, out)"
| "anthropic_messages e (m # ms) system out =
     (case lm_role m of
        BySystem \<Rightarrow> anthropic_messages e ms (joined system (content_text (lm_content m))) out
      | ByTool \<Rightarrow>
          (case tool_result m of
             Inl err \<Rightarrow> Inl err
           | Inr r \<Rightarrow> anthropic_messages e ms system (out @ [r]))
      | _ \<Rightarrow> anthropic_messages e ms system (out @ [spoken e m]))"

text \<open>The last block of a message marked as the end of a cached prefix.\<close>

definition may_be_marked :: "json \<Rightarrow> bool" where
  "may_be_marked block \<longleftrightarrow>
     \<not> (json_at block ''type'' = JStr ''text'' \<and> (case as_str (json_at block ''text'') of None \<Rightarrow> True | Some t \<Rightarrow> t = []))"

definition mark_block :: "json \<Rightarrow> json" where
  "mark_block block = (if may_be_marked block then json_set ''cache_control'' ephemeral block else block)"

definition mark_for_cache :: "json \<Rightarrow> json" where
  "mark_for_cache message =
     (let message = (case as_str (json_at message ''content'') of
          Some t \<Rightarrow> if t = [] then message else json_set ''content'' (JArr [text_block t]) message
        | None \<Rightarrow> message) in
      (case as_array (json_at message ''content'') of
         Some (b # bs) \<Rightarrow> json_set ''content'' (JArr (butlast (b # bs) @ [mark_block (last (b # bs))])) message
       | _ \<Rightarrow> message))"

definition mark_last :: "json list \<Rightarrow> json list" where
  "mark_last ms = (if ms = [] then [] else butlast ms @ [mark_for_cache (last ms)])"

definition UNDESCRIBED_OUTPUT_LIMIT :: tokens where "UNDESCRIBED_OUTPUT_LIMIT = 4096"

definition THINKING_BINDING_BETA :: string where
  "THINKING_BINDING_BETA = ''thinking-binding-controls-2026-08-01''"

definition effort_level :: "model_facts \<Rightarrow> string \<Rightarrow> string option" where
  "effort_level facts asked =
     (if asked \<in> set (mf_efforts facts) then Some asked
      else if asked \<in> {''xhigh'', ''max''} then (if mf_efforts facts = [] then None else Some (last (mf_efforts facts)))
      else None)"

definition effort_json :: "string \<Rightarrow> json" where
  "effort_json level = json_object [(''effort'', JStr level)]"

definition thinking_asked :: "model_facts \<Rightarrow> json" where
  "thinking_asked facts =
     (let thinking = json_object [(''type'', JStr ''adaptive''), (''display'', JStr ''summarized'')] in
      if mf_thinking_binding facts
      then json_set ''block_binding'' (json_object [(''prefix_mismatch_behavior'', JStr ''drop_block'')]) thinking
      else thinking)"

definition apply_thinking :: "json \<Rightarrow> model_facts \<Rightarrow> string option \<Rightarrow> json" where
  "apply_thinking body facts effort =
     (if effort = Some ''none''
      then (case mf_efforts facts of lowest # _ \<Rightarrow> json_set ''output_config'' (effort_json lowest) body | [] \<Rightarrow> body)
      else
        (let effort = (if effort = Some ''minimal'' then Some ''low'' else effort);
             body = json_set ''thinking'' (thinking_asked facts) body;
             body = (if mf_thinking_binding facts then json_set ''anthropic_beta'' (JArr [JStr THINKING_BINDING_BETA]) body else body) in
         (case Option.bind effort (effort_level facts) of
            Some level \<Rightarrow> json_set ''output_config'' (effort_json level) body
          | None \<Rightarrow> body)))"

definition anthropic_tool :: "tool_def \<Rightarrow> json" where
  "anthropic_tool t =
     json_object [(''name'', JStr (td_name t)), (''description'', json_opt JStr (td_description t)),
       (''input_schema'', json_opt id (td_parameters t))]"

definition json_u32 :: "tokens \<Rightarrow> json" where "json_u32 n = JNum (PosInt (unat n))"

text \<open>What of a request's settings is said: the temperature where it is taken, the limit always, the thinking, the tools.\<close>

definition with_temperature :: "('a wire_scheme) \<Rightarrow> completion_request \<Rightarrow> model_facts \<Rightarrow> json \<Rightarrow> json" where
  "with_temperature e req facts body =
     (case cr_temperature req of
        Some temp \<Rightarrow> if mf_sampling facts \<or> temp = f32_one then json_set ''temperature'' (f32_json e temp) body else body
      | None \<Rightarrow> body)"

definition output_limit :: "completion_request \<Rightarrow> model_facts \<Rightarrow> tokens" where
  "output_limit req facts =
     or_else (case cr_max_tokens req of Some n \<Rightarrow> Some n | None \<Rightarrow> mf_output_limit facts) UNDESCRIBED_OUTPUT_LIMIT"

definition system_block :: "string \<Rightarrow> json" where
  "system_block sys = json_object [(''type'', JStr ''text''), (''text'', JStr sys), (''cache_control'', ephemeral)]"

definition anthropic_body :: "('a wire_scheme) \<Rightarrow> completion_request \<Rightarrow> string option \<Rightarrow> json list \<Rightarrow> json" where
  "anthropic_body e req system messages =
     (let facts = or_else (cr_facts req) default_facts;
          body = json_object [(''model'', JStr (cr_model req)), (''messages'', JArr (mark_last messages))];
          body = (case system of
              Some sys \<Rightarrow> if sys = [] then body else json_set ''system'' (JArr [system_block sys]) body
            | None \<Rightarrow> body);
          body = with_temperature e req facts body;
          body = json_set ''max_tokens'' (json_u32 (output_limit req facts)) body;
          body = (if mf_adaptive_thinking facts then apply_thinking body facts (cr_effort req) else body) in
      (case cr_tools req of
         Some tools \<Rightarrow> json_set ''tools'' (JArr (map anthropic_tool tools)) body
       | None \<Rightarrow> body))"

definition openai_to_anthropic :: "('a wire_scheme) \<Rightarrow> completion_request \<Rightarrow> string + json" where
  "openai_to_anthropic e req =
     (case anthropic_messages e (cr_messages req) None [] of
        Inl err \<Rightarrow> Inl err
      | Inr (system, messages) \<Rightarrow> Inr (anthropic_body e req system messages))"

text \<open>The betas a body asks for, moved to the header the API reads them from.\<close>

fun join_commas :: "string list \<Rightarrow> string" where
  "join_commas ss = join_with (CHR '','') ss"

definition take_betas :: "json \<Rightarrow> string option \<times> json" where
  "take_betas body =
     (case body of
        JObj o1 \<Rightarrow>
          (let betas = join_commas (List.map_filter as_str (case obj_get o1 ''anthropic_beta'' of Some v \<Rightarrow> elements v | None \<Rightarrow> [])) in
           (if betas = [] then None else Some betas, JObj (filter (\<lambda>(k, _). k \<noteq> ''anthropic_beta'') o1)))
      | _ \<Rightarrow> (None, body))"

section \<open>Hearing\<close>

datatype block_kind = TextBlock | ToolUseBlock | ThinkingBlock | OtherBlock

definition block_kind_of :: "json \<Rightarrow> block_kind" where
  "block_kind_of block =
     (case as_str (json_at block ''type'') of
        Some t \<Rightarrow> if t = ''text'' then TextBlock else if t = ''thinking'' then ThinkingBlock
          else if t = ''tool_use'' then ToolUseBlock else OtherBlock
      | None \<Rightarrow> OtherBlock)"

definition tool_use_head :: "json \<Rightarrow> string \<times> string" where
  "tool_use_head block = (or_else (as_str (json_at block ''id'')) [], or_else (as_str (json_at block ''name'')) [])"

definition finish_reason_of :: "string \<Rightarrow> string" where
  "finish_reason_of r =
     (if r = ''tool_use'' then ''tool_calls'' else if r = ''max_tokens'' then ''length''
      else if r = ''refusal'' then ''content_filter'' else ''stop'')"

definition DECLINED :: string where "DECLINED = ''The model declined to answer this request.''"

definition first_sentence :: "string \<Rightarrow> string" where
  "first_sentence s = (case split_once_text ''. '' s of Some (a, _) \<Rightarrow> a @ ''. '' | None \<Rightarrow> s)"

definition refusal_of :: "json \<Rightarrow> string" where
  "refusal_of details =
     (let said = trim (first_sentence (or_else (as_str (json_at details ''explanation'')) [])) in
      if said = [] then DECLINED else said)"

record stop =
  sp_finish :: string
  sp_refusal :: "(string \<times> string option) option"

definition stop_of :: "string option \<Rightarrow> json \<Rightarrow> stop" where
  "stop_of reason details =
     \<lparr>sp_finish = or_else (map_option finish_reason_of reason) ''stop'',
      sp_refusal = (if reason = Some ''refusal'' then Some (refusal_of details, as_str (json_at details ''category'')) else None)\<rparr>"

record partial_usage =
  pu_input :: "tokens option"
  pu_output :: "tokens option"
  pu_cache_read :: "tokens option"
  pu_cache_write :: "tokens option"
  pu_raw :: object

definition no_usage :: partial_usage where
  "no_usage = \<lparr>pu_input = None, pu_output = None, pu_cache_read = None, pu_cache_write = None, pu_raw = []\<rparr>"

text \<open>A count as it is read: \<open>as_u64\<close>, cut to 32 bits.\<close>

definition count_at :: "json \<Rightarrow> string \<Rightarrow> tokens option" where
  "count_at u k = map_option word_of_nat (as_u64 (json_at u k))"

definition absorb_usage :: "json \<Rightarrow> bool \<Rightarrow> partial_usage \<Rightarrow> partial_usage" where
  "absorb_usage u opening p =
     (case u of
        JObj o1 \<Rightarrow>
          \<lparr>pu_input = later (count_at u ''input_tokens'') (pu_input p),
           pu_output = (case count_at u ''output_tokens'' of
               Some n \<Rightarrow> if \<not> opening \<or> pu_output p = None then Some n else pu_output p
             | None \<Rightarrow> pu_output p),
           pu_cache_read = later (count_at u ''cache_read_input_tokens'') (pu_cache_read p),
           pu_cache_write = later (count_at u ''cache_creation_input_tokens'') (pu_cache_write p),
           pu_raw = lay_over o1 (pu_raw p)\<rparr>
      | _ \<Rightarrow> p)"

definition usage_known :: "partial_usage \<Rightarrow> bool" where
  "usage_known p \<longleftrightarrow> pu_input p \<noteq> None \<or> pu_output p \<noteq> None"

definition to_usage :: "partial_usage \<Rightarrow> usage" where
  "to_usage p =
     (let input = or_else (pu_input p) 0; output = or_else (pu_output p) 0;
          cache_read = or_else (pu_cache_read p) 0; cache_write = or_else (pu_cache_write p) 0 in
      \<lparr>us_prompt = input, us_completion = output, us_total = input + output + cache_read + cache_write,
       us_prompt_details = Some \<lparr>pd_cached = cache_read, pd_cache_creation = cache_write\<rparr>, us_reasoning = None,
       us_extra = [(''anthropic'', JObj (pu_raw p))]\<rparr>)"

text \<open>A whole response.\<close>

definition whole_part :: "('a outside_scheme) \<Rightarrow> json \<Rightarrow> reply_part list" where
  "whole_part e block =
     (case block_kind_of block of
        TextBlock \<Rightarrow> (case as_str (json_at block ''text'') of Some t \<Rightarrow> [SaidText t] | None \<Rightarrow> [])
      | ToolUseBlock \<Rightarrow>
          (case tool_use_head block of (i, n) \<Rightarrow>
             [SaidCall \<lparr>tc_id = i, tc_type = ''function'',
                tc_function = \<lparr>fc_name = n, fc_arguments = json_text e (json_at block ''input'')\<rparr>, tc_signature = None\<rparr>])
      | _ \<Rightarrow> [])"

definition assistant_message :: "string \<Rightarrow> tool_call list \<Rightarrow> llm_message" where
  "assistant_message text calls =
     \<lparr>lm_role = ByAssistant, lm_content = TextContent text, lm_name = None,
      lm_tool_calls = (if calls = [] then None else Some calls), lm_tool_call_id = None, lm_thinking = [], lm_signed_by = None\<rparr>"

definition anthropic_to_openai :: "('a outside_scheme) \<Rightarrow> json \<Rightarrow> completion" where
  "anthropic_to_openai e resp =
     (let parts = concat (map (whole_part e) (elements (json_at resp ''content''))) in
      case flatten_parts parts of (text, calls) \<Rightarrow>
        \<lparr>co_id = or_else (as_str (json_at resp ''id'')) [], co_object = ''chat.completion'',
         co_model = or_else (as_str (json_at resp ''model'')) [],
         co_choices = [\<lparr>ch_message = assistant_message text calls,
           ch_finish = Some (sp_finish (stop_of (as_str (json_at resp ''stop_reason'')) (json_at resp ''stop_details''))),
           ch_parts = parts\<rparr>],
         co_usage = map_option (\<lambda>u. to_usage (absorb_usage u False no_usage)) (json_get resp ''usage'')\<rparr>)"

section \<open>Hearing it as it is said\<close>

record anthropic_stream =
  as_id :: string
  as_model :: string
  as_blocks :: "tokens \<Rightarrow> block_kind option"
  as_slots :: "tokens \<Rightarrow> tokens option"
  as_next_slot :: tokens
  as_usage :: partial_usage
  as_finish :: "string option"
  as_thinking :: "tokens \<Rightarrow> (string \<times> string) option"

definition new_stream :: anthropic_stream where
  "new_stream = \<lparr>as_id = [], as_model = [], as_blocks = (\<lambda>_. None), as_slots = (\<lambda>_. None), as_next_slot = 0,
     as_usage = no_usage, as_finish = None, as_thinking = (\<lambda>_. None)\<rparr>"

definition chunk_of :: "anthropic_stream \<Rightarrow> delta \<Rightarrow> string option \<Rightarrow> chunk" where
  "chunk_of st d finish =
     \<lparr>ck_id = as_id st, ck_object = ''chat.completion.chunk'', ck_model = as_model st, ck_delta = d, ck_finish = finish,
      ck_usage = (if usage_known (as_usage st) then Some (to_usage (as_usage st)) else None), ck_tier = None\<rparr>"

definition event_index :: "json \<Rightarrow> tokens" where
  "event_index ev = word_of_nat (or_else (as_u64 (json_at ev ''index'')) 0)"

definition on_message_start :: "json \<Rightarrow> anthropic_stream \<Rightarrow> chunk option \<times> anthropic_stream" where
  "on_message_start ev st =
     (let message = json_at ev ''message'';
          st1 = st\<lparr>as_id := or_else (as_str (json_at message ''id'')) [],
            as_model := or_else (as_str (json_at message ''model'')) [],
            as_usage := absorb_usage (json_at message ''usage'') True (as_usage st)\<rparr> in
      (Some (chunk_of st1 no_delta None), st1))"

definition call_head :: "tokens \<Rightarrow> string \<Rightarrow> string \<Rightarrow> call_delta" where
  "call_head slot i n = \<lparr>cd_index = slot, cd_signature = None, cd_id = Some i, cd_type = Some ''function'', cd_name = Some n,
     cd_arguments = Some []\<rparr>"

definition call_fragment :: "tokens \<Rightarrow> string \<Rightarrow> call_delta" where
  "call_fragment slot s = \<lparr>cd_index = slot, cd_signature = None, cd_id = None, cd_type = None, cd_name = None,
     cd_arguments = Some s\<rparr>"

definition on_block_start :: "json \<Rightarrow> anthropic_stream \<Rightarrow> chunk option \<times> anthropic_stream" where
  "on_block_start ev st =
     (let i = event_index ev; block = json_at ev ''content_block''; k = block_kind_of block;
          st1 = st\<lparr>as_blocks := (as_blocks st)(i \<mapsto> k)\<rparr> in
      (case k of
         TextBlock \<Rightarrow> (None, st1)
       | ThinkingBlock \<Rightarrow> (None, st1\<lparr>as_thinking := (as_thinking st)(i \<mapsto> ([], []))\<rparr>)
       | ToolUseBlock \<Rightarrow>
           (let slot = as_next_slot st;
                st2 = st1\<lparr>as_next_slot := slot + 1, as_slots := (as_slots st)(i \<mapsto> slot)\<rparr> in
            (case tool_use_head block of (call_id, n) \<Rightarrow>
               (Some (chunk_of st2 (no_delta\<lparr>dt_calls := Some [call_head slot call_id n]\<rparr>) None), st2)))
       | OtherBlock \<Rightarrow>
           (if json_at block ''type'' = JStr ''redacted_thinking''
            then (Some (chunk_of st1 (no_delta\<lparr>dt_thinking := Some block\<rparr>) None), st1)
            else (None, st1))))"

definition on_text :: "json \<Rightarrow> anthropic_stream \<Rightarrow> chunk option \<times> anthropic_stream" where
  "on_text d st =
     (case as_str (json_at d ''text'') of
        None \<Rightarrow> (None, st)
      | Some t \<Rightarrow> (Some (chunk_of st (no_delta\<lparr>dt_content := Some t\<rparr>) None), st))"

definition on_thinking :: "tokens \<Rightarrow> json \<Rightarrow> anthropic_stream \<Rightarrow> chunk option \<times> anthropic_stream" where
  "on_thinking i d st =
     (if as_blocks st i \<noteq> Some ThinkingBlock then (None, st)
      else
        (case as_str (json_at d ''thinking'') of
           None \<Rightarrow> (None, st)
         | Some t \<Rightarrow>
             (let st1 = (case as_thinking st i of
                  Some (text, sig) \<Rightarrow> st\<lparr>as_thinking := (as_thinking st)(i \<mapsto> (text @ t, sig))\<rparr>
                | None \<Rightarrow> st) in
              (Some (chunk_of st1 (no_delta\<lparr>dt_reasoning := Some t\<rparr>) None), st1))))"

definition on_signature :: "tokens \<Rightarrow> json \<Rightarrow> anthropic_stream \<Rightarrow> chunk option \<times> anthropic_stream" where
  "on_signature i d st =
     (case as_thinking st i of
        Some (text, sig) \<Rightarrow>
          (None, st\<lparr>as_thinking := (as_thinking st)(i \<mapsto> (text, sig @ or_else (as_str (json_at d ''signature'')) []))\<rparr>)
      | None \<Rightarrow> (None, st))"

definition on_input :: "tokens \<Rightarrow> json \<Rightarrow> anthropic_stream \<Rightarrow> chunk option \<times> anthropic_stream" where
  "on_input i d st =
     (if as_blocks st i \<noteq> Some ToolUseBlock then (None, st)
      else
        (case (as_slots st i, as_str (json_at d ''partial_json'')) of
           (Some slot, Some fragment) \<Rightarrow>
             (Some (chunk_of st (no_delta\<lparr>dt_calls := Some [call_fragment slot fragment]\<rparr>) None), st)
         | _ \<Rightarrow> (None, st)))"

definition on_block_delta :: "json \<Rightarrow> anthropic_stream \<Rightarrow> chunk option \<times> anthropic_stream" where
  "on_block_delta ev st =
     (let i = event_index ev; d = json_at ev ''delta'' in
      (case as_str (json_at d ''type'') of
         Some t \<Rightarrow>
           if t = ''text_delta'' then on_text d st
           else if t = ''thinking_delta'' then on_thinking i d st
           else if t = ''signature_delta'' then on_signature i d st
           else if t = ''input_json_delta'' then on_input i d st
           else (None, st)
       | None \<Rightarrow> (None, st)))"

definition on_message_delta :: "json \<Rightarrow> anthropic_stream \<Rightarrow> chunk option \<times> anthropic_stream" where
  "on_message_delta ev st =
     (let stop = stop_of (as_str (json_at (json_at ev ''delta'') ''stop_reason'')) (json_at (json_at ev ''delta'') ''stop_details'');
          st1 = st\<lparr>as_usage := absorb_usage (json_at ev ''usage'') False (as_usage st), as_finish := Some (sp_finish stop)\<rparr>;
          d = no_delta\<lparr>dt_refusal := map_option fst (sp_refusal stop),
            dt_refusal_category := Option.bind (sp_refusal stop) snd\<rparr> in
      (Some (chunk_of st1 d (Some (sp_finish stop))), st1))"

definition thinking_json :: "string \<Rightarrow> string \<Rightarrow> json" where
  "thinking_json text sig = json_object [(''type'', JStr ''thinking''), (''thinking'', JStr text), (''signature'', JStr sig)]"

definition on_block_stop :: "json \<Rightarrow> anthropic_stream \<Rightarrow> chunk option \<times> anthropic_stream" where
  "on_block_stop ev st =
     (let i = event_index ev in
      (case as_thinking st i of
         None \<Rightarrow> (None, st)
       | Some (text, sig) \<Rightarrow>
           (let st1 = st\<lparr>as_thinking := (as_thinking st)(i := None)\<rparr> in
            if sig = [] then (None, st1)
            else (Some (chunk_of st1 (no_delta\<lparr>dt_thinking := Some (thinking_json text sig)\<rparr>) None), st1))))"

definition anthropic_event :: "json \<Rightarrow> anthropic_stream \<Rightarrow> chunk option \<times> anthropic_stream" where
  "anthropic_event ev st =
     (case as_str (json_at ev ''type'') of
        None \<Rightarrow> (None, st)
      | Some t \<Rightarrow>
          if t = ''message_start'' then on_message_start ev st
          else if t = ''content_block_start'' then on_block_start ev st
          else if t = ''content_block_delta'' then on_block_delta ev st
          else if t = ''message_delta'' then on_message_delta ev st
          else if t = ''content_block_stop'' then on_block_stop ev st
          else (None, st))"

text \<open>The events of a stream, and the chunks they become.\<close>

fun anthropic_chunks :: "json list \<Rightarrow> anthropic_stream \<Rightarrow> chunk list \<times> anthropic_stream" where
  "anthropic_chunks [] st = ([], st)"
| "anthropic_chunks (ev # evs) st =
     (case anthropic_event ev st of (k, st1) \<Rightarrow>
      (case anthropic_chunks evs st1 of (ks, st2) \<Rightarrow> (case k of None \<Rightarrow> ks | Some c \<Rightarrow> c # ks, st2)))"

end
