(* ===== verification/AnthropicAgrees.thy ===== *)
theory AnthropicAgrees
  imports Anthropic
begin

text \<open>
  The two ways of hearing an Anthropic model agree. A reply is a sequence of blocks, each said in whatever
  fragments; it is sent whole, or as the events that stream it, and both come to the same text, calls,
  finish reason, refusal and cost.
\<close>

section \<open>A reply, whole and as events\<close>

datatype said_block =
    Prose "string list"
  | Calling string string json "string list"
  | Thinking "string list" "string list"

fun block_whole :: "said_block \<Rightarrow> json" where
  "block_whole (Prose ts) = text_block (concat ts)"
| "block_whole (Calling i n input fs) =
     json_object [(''type'', JStr ''tool_use''), (''id'', JStr i), (''name'', JStr n), (''input'', input)]"
| "block_whole (Thinking ts ss) = thinking_json (concat ts) (concat ss)"

fun block_opening :: "said_block \<Rightarrow> json" where
  "block_opening (Prose ts) = text_block []"
| "block_opening (Calling i n input fs) =
     json_object [(''type'', JStr ''tool_use''), (''id'', JStr i), (''name'', JStr n), (''input'', JObj [])]"
| "block_opening (Thinking ts ss) = thinking_json [] []"

definition ev_start :: "nat \<Rightarrow> json \<Rightarrow> json" where
  "ev_start i b = json_object [(''type'', JStr ''content_block_start''), (''index'', JNum (PosInt i)), (''content_block'', b)]"

definition ev_delta :: "nat \<Rightarrow> string \<Rightarrow> string \<Rightarrow> string \<Rightarrow> json" where
  "ev_delta i kind field s =
     json_object [(''type'', JStr ''content_block_delta''), (''index'', JNum (PosInt i)),
       (''delta'', json_object [(''type'', JStr kind), (field, JStr s)])]"

definition ev_stop :: "nat \<Rightarrow> json" where
  "ev_stop i = json_object [(''type'', JStr ''content_block_stop''), (''index'', JNum (PosInt i))]"

fun block_deltas :: "nat \<Rightarrow> said_block \<Rightarrow> json list" where
  "block_deltas i (Prose ts) = map (ev_delta i ''text_delta'' ''text'') ts"
| "block_deltas i (Calling c n input fs) = map (ev_delta i ''input_json_delta'' ''partial_json'') fs"
| "block_deltas i (Thinking ts ss) =
     map (ev_delta i ''thinking_delta'' ''thinking'') ts @ map (ev_delta i ''signature_delta'' ''signature'') ss"

definition block_events :: "nat \<Rightarrow> said_block \<Rightarrow> json list" where
  "block_events i b = ev_start i (block_opening b) # block_deltas i b @ [ev_stop i]"

fun blocks_events :: "nat \<Rightarrow> said_block list \<Rightarrow> json list" where
  "blocks_events i [] = []"
| "blocks_events i (b # bs) = block_events i b @ blocks_events (Suc i) bs"

text \<open>The counts a reply opens with and those it ends with; whole, the later over the earlier.\<close>

record said_reply =
  sr_id :: string
  sr_model :: string
  sr_blocks :: "said_block list"
  sr_stop :: string
  sr_details :: json
  sr_opening :: object
  sr_closing :: object

definition reply_whole :: "said_reply \<Rightarrow> json" where
  "reply_whole s =
     json_object [(''id'', JStr (sr_id s)), (''model'', JStr (sr_model s)), (''content'', JArr (map block_whole (sr_blocks s))),
       (''stop_reason'', JStr (sr_stop s)), (''stop_details'', sr_details s),
       (''usage'', JObj (lay_over (sr_closing s) (sr_opening s)))]"

definition ev_message_start :: "said_reply \<Rightarrow> json" where
  "ev_message_start s =
     json_object [(''type'', JStr ''message_start''),
       (''message'', json_object [(''id'', JStr (sr_id s)), (''model'', JStr (sr_model s)), (''usage'', JObj (sr_opening s))])]"

definition ev_message_delta :: "said_reply \<Rightarrow> json" where
  "ev_message_delta s =
     json_object [(''type'', JStr ''message_delta''),
       (''delta'', json_object [(''stop_reason'', JStr (sr_stop s)), (''stop_details'', sr_details s)]),
       (''usage'', JObj (sr_closing s))]"

definition reply_events :: "said_reply \<Rightarrow> json list" where
  "reply_events s =
     ev_message_start s # blocks_events 0 (sr_blocks s) @
     [ev_message_delta s, json_object [(''type'', JStr ''message_stop'')]]"

section \<open>What each block says\<close>

fun prose_of :: "said_block \<Rightarrow> string" where
  "prose_of (Prose ts) = concat ts"
| "prose_of _ = []"

fun reasoning_of :: "said_block \<Rightarrow> string" where
  "reasoning_of (Thinking ts ss) = concat ts"
| "reasoning_of _ = []"

fun signed_of :: "said_block \<Rightarrow> json list" where
  "signed_of (Thinking ts ss) = (if concat ss = [] then [] else [thinking_json (concat ts) (concat ss)])"
| "signed_of _ = []"

fun streamed_calls :: "said_block \<Rightarrow> (string \<times> string \<times> string \<times> string option) list" where
  "streamed_calls (Calling i n input fs) = [(i, n, concat fs, None)]"
| "streamed_calls _ = []"

definition says :: "said_block list \<Rightarrow> reply \<Rightarrow> reply" where
  "says bs r = r\<lparr>rp_text := rp_text r @ concat (map prose_of bs), rp_reasoning := rp_reasoning r @ concat (map reasoning_of bs),
     rp_thinking := rp_thinking r @ concat (map signed_of bs), rp_calls := rp_calls r @ concat (map streamed_calls bs)\<rparr>"

section \<open>One block at a time\<close>

lemmas event_simps = json_at_object json_get_object ev_start_def ev_delta_def ev_stop_def event_index_def anthropic_event_def

lemma anthropic_chunks_append:
  "anthropic_chunks (xs @ ys) st =
     (case anthropic_chunks xs st of (ks, st1) \<Rightarrow> (case anthropic_chunks ys st1 of (ls, st2) \<Rightarrow> (ks @ ls, st2)))"
  by (induction xs arbitrary: st) (auto split: prod.splits option.splits)

lemma ev_text:
  "anthropic_event (ev_delta i ''text_delta'' ''text'' t) st = (Some (chunk_of st (no_delta\<lparr>dt_content := Some t\<rparr>) None), st)"
  by (simp add: event_simps on_block_delta_def on_text_def Let_def)

lemma ev_input:
  "as_blocks st (word_of_nat i) = Some ToolUseBlock \<Longrightarrow> as_slots st (word_of_nat i) = Some slot \<Longrightarrow>
     anthropic_event (ev_delta i ''input_json_delta'' ''partial_json'' t) st =
       (Some (chunk_of st (no_delta\<lparr>dt_calls := Some [call_fragment slot t]\<rparr>) None), st)"
  by (simp add: event_simps on_block_delta_def on_input_def Let_def)

abbreviation thinks :: "nat \<Rightarrow> string \<Rightarrow> string \<Rightarrow> anthropic_stream \<Rightarrow> anthropic_stream" where
  "thinks i said sig st \<equiv> st\<lparr>as_thinking := (as_thinking st)(word_of_nat i \<mapsto> (said, sig))\<rparr>"

lemma ev_thinking:
  "as_blocks st (word_of_nat i) = Some ThinkingBlock \<Longrightarrow> as_thinking st (word_of_nat i) = Some (said, sig) \<Longrightarrow>
     anthropic_event (ev_delta i ''thinking_delta'' ''thinking'' t) st =
       (Some (chunk_of (thinks i (said @ t) sig st) (no_delta\<lparr>dt_reasoning := Some t\<rparr>) None), thinks i (said @ t) sig st)"
  by (simp add: event_simps on_block_delta_def on_thinking_def Let_def)

lemma ev_signature:
  "as_thinking st (word_of_nat i) = Some (said, sig) \<Longrightarrow>
     anthropic_event (ev_delta i ''signature_delta'' ''signature'' t) st = (None, thinks i said (sig @ t) st)"
  by (simp add: event_simps on_block_delta_def on_signature_def Let_def)

lemma text_run:
  "anthropic_chunks (map (ev_delta i ''text_delta'' ''text'') ts) st =
     (map (\<lambda>t. chunk_of st (no_delta\<lparr>dt_content := Some t\<rparr>) None) ts, st)"
  by (induction ts) (simp_all add: ev_text)

lemma input_run:
  assumes "as_blocks st (word_of_nat i) = Some ToolUseBlock" "as_slots st (word_of_nat i) = Some slot"
  shows "anthropic_chunks (map (ev_delta i ''input_json_delta'' ''partial_json'') fs) st =
     (map (\<lambda>t. chunk_of st (no_delta\<lparr>dt_calls := Some [call_fragment slot t]\<rparr>) None) fs, st)"
  by (induction fs) (simp_all add: ev_input [OF assms])

fun thinking_run :: "nat \<Rightarrow> string list \<Rightarrow> string \<Rightarrow> anthropic_stream \<Rightarrow> chunk list" where
  "thinking_run i [] said st = []"
| "thinking_run i (t # ts) said st =
     chunk_of (thinks i (said @ t) [] st) (no_delta\<lparr>dt_reasoning := Some t\<rparr>) None #
     thinking_run i ts (said @ t) (thinks i (said @ t) [] st)"

lemma thinking_runs:
  assumes "as_blocks st (word_of_nat i) = Some ThinkingBlock" "as_thinking st (word_of_nat i) = Some (said, [])"
  shows "anthropic_chunks (map (ev_delta i ''thinking_delta'' ''thinking'') ts) st =
     (thinking_run i ts said st, thinks i (said @ concat ts) [] st)"
  using assms
proof (induction ts arbitrary: st said)
  case Nil
  then have "(as_thinking st)(word_of_nat i \<mapsto> (said, [])) = as_thinking st" by auto
  then show ?case by simp
next
  case (Cons t ts)
  have "anthropic_chunks (map (ev_delta i ''thinking_delta'' ''thinking'') ts) (thinks i (said @ t) [] st) =
     (thinking_run i ts (said @ t) (thinks i (said @ t) [] st), thinks i ((said @ t) @ concat ts) [] (thinks i (said @ t) [] st))"
    by (rule Cons.IH) (simp_all add: Cons.prems)
  then show ?case by (simp add: ev_thinking [OF Cons.prems] fun_upd_def cong: if_cong)
qed

lemma signature_runs:
  assumes "as_thinking st (word_of_nat i) = Some (said, sig)"
  shows "anthropic_chunks (map (ev_delta i ''signature_delta'' ''signature'') ss) st = ([], thinks i said (sig @ concat ss) st)"
  using assms
proof (induction ss arbitrary: st sig)
  case Nil
  then have "(as_thinking st)(word_of_nat i \<mapsto> (said, sig)) = as_thinking st" by auto
  then show ?case by simp
next
  case (Cons s ss)
  have "anthropic_chunks (map (ev_delta i ''signature_delta'' ''signature'') ss) (thinks i said (sig @ s) st) =
     ([], thinks i said ((sig @ s) @ concat ss) (thinks i said (sig @ s) st))"
    by (rule Cons.IH) simp
  then show ?case by (simp add: ev_signature [OF Cons.prems] fun_upd_def cong: if_cong)
qed

section \<open>What its chunks add up to\<close>

lemma ck_chunk_of [simp]: "ck_delta (chunk_of st d f) = d" "ck_finish (chunk_of st d f) = f"
  by (simp_all add: chunk_of_def)

text \<open>A reply but for its cost, which every chunk states anew.\<close>

abbreviation uncosted :: "reply \<Rightarrow> reply" where "uncosted r \<equiv> r\<lparr>rp_usage := None\<rparr>"

lemma read_texts:
  "uncosted (read_chunks (map (\<lambda>t. chunk_of st (no_delta\<lparr>dt_content := Some t\<rparr>) None) ts) r) =
     uncosted (r\<lparr>rp_text := rp_text r @ concat ts\<rparr>)"
  by (induction ts arbitrary: r) (simp_all add: read_chunk_def no_delta_def)

lemma read_thoughts:
  "uncosted (read_chunks (thinking_run i ts said st) r) = uncosted (r\<lparr>rp_reasoning := rp_reasoning r @ concat ts\<rparr>)"
  by (induction i ts said st arbitrary: r rule: thinking_run.induct) (simp_all add: read_chunk_def no_delta_def)

lemma read_fragments:
  assumes "unat slot = length calls" "rp_calls r = calls @ [(i, n, a, None)]"
  shows "uncosted (read_chunks (map (\<lambda>t. chunk_of st (no_delta\<lparr>dt_calls := Some [call_fragment slot t]\<rparr>) None) fs) r) =
     uncosted (r\<lparr>rp_calls := calls @ [(i, n, a @ concat fs, None)]\<rparr>)"
  using assms(2)
proof (induction fs arbitrary: r a)
  case Nil
  then show ?case by simp
next
  case (Cons f fs)
  let ?k = "chunk_of st (no_delta\<lparr>dt_calls := Some [call_fragment slot f]\<rparr>) None"
  have calls: "read_call (call_fragment slot f) (rp_calls r) = calls @ [(i, n, a @ f, None)]"
    using assms(1) Cons.prems by (simp add: read_call_last call_fragment_def)
  then have "rp_calls (read_chunk ?k r) = calls @ [(i, n, a @ f, None)]" by (simp add: read_chunk_def)
  from Cons.IH [OF this] have "uncosted (read_chunks (map (\<lambda>t. chunk_of st (no_delta\<lparr>dt_calls := Some [call_fragment slot t]\<rparr>) None) (f # fs)) r) =
      uncosted ((read_chunk ?k r)\<lparr>rp_calls := calls @ [(i, n, (a @ f) @ concat fs, None)]\<rparr>)" by simp
  then show ?case by (simp add: read_chunk_def no_delta_def)
qed

section \<open>A block, and every block\<close>

lemma block_starts:
  "anthropic_event (ev_start i (block_opening (Prose ts))) st =
     (None, st\<lparr>as_blocks := (as_blocks st)(word_of_nat i \<mapsto> TextBlock)\<rparr>)"
  "anthropic_event (ev_start i (block_opening (Thinking ts ss))) st =
     (None, st\<lparr>as_blocks := (as_blocks st)(word_of_nat i \<mapsto> ThinkingBlock),
        as_thinking := (as_thinking st)(word_of_nat i \<mapsto> ([], []))\<rparr>)"
  "anthropic_event (ev_start i (block_opening (Calling c n input fs))) st =
     (let st1 = st\<lparr>as_blocks := (as_blocks st)(word_of_nat i \<mapsto> ToolUseBlock), as_next_slot := as_next_slot st + 1,
        as_slots := (as_slots st)(word_of_nat i \<mapsto> as_next_slot st)\<rparr> in
      (Some (chunk_of st1 (no_delta\<lparr>dt_calls := Some [call_head (as_next_slot st) c n]\<rparr>) None), st1))"
  by (simp_all add: event_simps on_block_start_def block_kind_of_def text_block_def thinking_json_def tool_use_head_def Let_def)

lemma block_stops:
  "as_thinking st (word_of_nat i) = None \<Longrightarrow> anthropic_event (ev_stop i) st = (None, st)"
  "as_thinking st (word_of_nat i) = Some (said, sig) \<Longrightarrow> anthropic_event (ev_stop i) st =
     (let st1 = st\<lparr>as_thinking := (as_thinking st)(word_of_nat i := None)\<rparr> in
      (if sig = [] then None else Some (chunk_of st1 (no_delta\<lparr>dt_thinking := Some (thinking_json said sig)\<rparr>) None), st1))"
  by (simp_all add: event_simps on_block_stop_def Let_def)

text \<open>Between blocks no thinking is open, and the next call's place is how many calls there were.\<close>

definition between :: "anthropic_stream \<Rightarrow> nat \<Rightarrow> bool" where
  "between st n \<longleftrightarrow> as_thinking st = (\<lambda>_. None) \<and> as_next_slot st = word_of_nat n"

definition same_reply :: "anthropic_stream \<Rightarrow> anthropic_stream \<Rightarrow> bool" where
  "same_reply st st' \<longleftrightarrow> as_id st' = as_id st \<and> as_model st' = as_model st \<and> as_usage st' = as_usage st"

lemma uncosted_read: "uncosted (read_chunks ks (uncosted r)) = uncosted (read_chunks ks r)"
proof (induction ks arbitrary: r)
  case (Cons k ks)
  have "uncosted (read_chunk k (uncosted r)) = uncosted (read_chunk k r)" by (simp add: read_chunk_def Let_def)
  then have "uncosted (read_chunks ks (read_chunk k (uncosted r))) = uncosted (read_chunks ks (read_chunk k r))"
    by (metis Cons.IH)
  then show ?case by simp
qed simp

lemma block_run:
  assumes "anthropic_event (ev_start i (block_opening b)) st = (k, st1)"
    and "anthropic_chunks (block_deltas i b) st1 = (ks, st2)"
    and "anthropic_event (ev_stop i) st2 = (k', st3)"
    and "(case k of None \<Rightarrow> [] | Some c \<Rightarrow> [c]) = l" "(case k' of None \<Rightarrow> [] | Some c \<Rightarrow> [c]) = l'"
  shows "anthropic_chunks (block_events i b) st = (l @ ks @ l', st3)"
  using assms(2) assms(4,5) [symmetric]
  by (simp add: block_events_def assms(1,3) anthropic_chunks_append split: option.split del: block_opening.simps block_deltas.simps)

lemma uncosted_next: "uncosted r = uncosted r' \<Longrightarrow> uncosted (read_chunks ks r) = uncosted (read_chunks ks r')"
  by (metis uncosted_read)

lemma prose_says:
  assumes "between st n"
  shows "\<exists>ks st'. anthropic_chunks (block_events i (Prose ts)) st = (ks, st') \<and> between st' n \<and> same_reply st st' \<and>
     uncosted (read_chunks ks r) = uncosted (says [Prose ts] r)"
proof -
  let ?st = "st\<lparr>as_blocks := (as_blocks st)(word_of_nat i \<mapsto> TextBlock)\<rparr>"
  have "anthropic_event (ev_stop i) ?st = (None, ?st)" using assms by (simp add: block_stops between_def)
  moreover have "anthropic_chunks (block_deltas i (Prose ts)) ?st =
      (map (\<lambda>t. chunk_of ?st (no_delta\<lparr>dt_content := Some t\<rparr>) None) ts, ?st)"
    by (simp add: text_run)
  ultimately have "anthropic_chunks (block_events i (Prose ts)) st =
      (map (\<lambda>t. chunk_of ?st (no_delta\<lparr>dt_content := Some t\<rparr>) None) ts, ?st)"
    using block_run [OF block_starts(1), of i ts st, where l = "[]" and l' = "[]"] by simp
  moreover have "between ?st n" "same_reply st ?st" using assms by (simp_all add: between_def same_reply_def)
  ultimately show ?thesis using read_texts [of ?st ts r] by (auto simp: says_def)
qed

lemma calling_says:
  assumes "between st n" "length (rp_calls r) = n" "n < 2 ^ 32"
  shows "\<exists>ks st'. anthropic_chunks (block_events i (Calling c nm input fs)) st = (ks, st') \<and> between st' (Suc n) \<and>
     same_reply st st' \<and> uncosted (read_chunks ks r) = uncosted (says [Calling c nm input fs] r)"
proof -
  let ?slot = "word_of_nat n :: tokens"
  let ?st = "st\<lparr>as_blocks := (as_blocks st)(word_of_nat i \<mapsto> ToolUseBlock), as_next_slot := as_next_slot st + 1,
        as_slots := (as_slots st)(word_of_nat i \<mapsto> as_next_slot st)\<rparr>"
  let ?head = "chunk_of ?st (no_delta\<lparr>dt_calls := Some [call_head (as_next_slot st) c nm]\<rparr>) None"
  let ?rest = "map (\<lambda>t. chunk_of ?st (no_delta\<lparr>dt_calls := Some [call_fragment ?slot t]\<rparr>) None) fs"
  have slot: "unat ?slot = length (rp_calls r)" using assms(2,3) by (simp add: unat_of_nat take_bit_nat_eq_self)
  have next_slot: "as_next_slot st = ?slot" and none: "as_thinking st = (\<lambda>_. None)" using assms(1) by (auto simp: between_def)
  have run: "anthropic_chunks (block_events i (Calling c nm input fs)) st = (?head # ?rest, ?st)"
  proof -
    have stop: "anthropic_event (ev_stop i) ?st = (None, ?st)" using none by (simp add: block_stops)
    have fragments: "anthropic_chunks (block_deltas i (Calling c nm input fs)) ?st = (?rest, ?st)"
      using next_slot by (simp add: input_run [where slot = ?slot])
    show ?thesis using block_run [OF block_starts(3) [unfolded Let_def] fragments stop, of "[?head]" "[]"] by simp
  qed
  have calls: "rp_calls (read_chunk ?head r) = rp_calls r @ [(c, nm, [], None)]"
    using slot next_slot by (simp add: read_chunk_def read_call_new call_head_def)
  have "uncosted (read_chunks (?head # ?rest) r) =
      uncosted ((read_chunk ?head r)\<lparr>rp_calls := rp_calls r @ [(c, nm, concat fs, None)]\<rparr>)"
    using read_fragments [OF slot calls, of ?st fs] by simp
  also have "\<dots> = uncosted (says [Calling c nm input fs] r)" by (simp add: says_def read_chunk_def no_delta_def)
  finally have read: "uncosted (read_chunks (?head # ?rest) r) = uncosted (says [Calling c nm input fs] r)" .
  have "between ?st (Suc n)" "same_reply st ?st" using next_slot none by (simp_all add: between_def same_reply_def add.commute)
  then show ?thesis using run read by blast
qed

lemma thinking_says:
  assumes "between st n"
  shows "\<exists>ks st'. anthropic_chunks (block_events i (Thinking ts ss)) st = (ks, st') \<and> between st' n \<and> same_reply st st' \<and>
     uncosted (read_chunks ks r) = uncosted (says [Thinking ts ss] r)"
proof -
  let ?st = "st\<lparr>as_blocks := (as_blocks st)(word_of_nat i \<mapsto> ThinkingBlock),
      as_thinking := (as_thinking st)(word_of_nat i \<mapsto> ([], []))\<rparr>"
  let ?heard = "thinks i (concat ts) [] ?st"
  let ?signed = "thinks i (concat ts) (concat ss) ?heard"
  let ?done = "?signed\<lparr>as_thinking := (as_thinking ?signed)(word_of_nat i := None)\<rparr>"
  let ?last = "if concat ss = [] then [] else [chunk_of ?done (no_delta\<lparr>dt_thinking := Some (thinking_json (concat ts) (concat ss))\<rparr>) None]"
  have none: "as_thinking st = (\<lambda>_. None)" using assms by (auto simp: between_def)
  have thoughts: "anthropic_chunks (map (ev_delta i ''thinking_delta'' ''thinking'') ts) ?st = (thinking_run i ts [] ?st, ?heard)"
    using thinking_runs [of ?st i "[]" ts] by simp
  have signs: "anthropic_chunks (map (ev_delta i ''signature_delta'' ''signature'') ss) ?heard = ([], ?signed)"
    using signature_runs [of ?heard i "concat ts" "[]" ss] by simp
  have stop: "anthropic_event (ev_stop i) ?signed = (if concat ss = [] then None
      else Some (chunk_of ?done (no_delta\<lparr>dt_thinking := Some (thinking_json (concat ts) (concat ss))\<rparr>) None), ?done)"
    by (rule block_stops(2) [of ?signed i "concat ts" "concat ss", unfolded Let_def]) simp
  have deltas: "anthropic_chunks (block_deltas i (Thinking ts ss)) ?st = (thinking_run i ts [] ?st, ?signed)"
    unfolding block_deltas.simps anthropic_chunks_append thoughts prod.case signs append_Nil2 ..
  have run: "anthropic_chunks (block_events i (Thinking ts ss)) st = (thinking_run i ts [] ?st @ ?last, ?done)"
    by (rule block_run [OF block_starts(2) deltas stop, of "[]" ?last, unfolded append_Nil]) (simp_all split: if_split)
  have "uncosted (read_chunks (thinking_run i ts [] ?st) r) = uncosted (r\<lparr>rp_reasoning := rp_reasoning r @ concat ts\<rparr>)"
    by (rule read_thoughts)
  then have "uncosted (read_chunks ?last (read_chunks (thinking_run i ts [] ?st) r)) =
      uncosted (read_chunks ?last (r\<lparr>rp_reasoning := rp_reasoning r @ concat ts\<rparr>))"
    by (rule uncosted_next)
  also have "\<dots> = uncosted (says [Thinking ts ss] r)" by (simp add: says_def read_chunk_def no_delta_def)
  finally have read: "uncosted (read_chunks (thinking_run i ts [] ?st @ ?last) r) = uncosted (says [Thinking ts ss] r)" by simp
  have "between ?done n" "same_reply st ?done" using assms by (auto simp: between_def same_reply_def)
  then show ?thesis using run read by blast
qed

lemma block_says:
  assumes "between st n" "length (rp_calls r) = n" "n < 2 ^ 32"
  shows "\<exists>ks st'. anthropic_chunks (block_events i b) st = (ks, st') \<and> between st' (n + length (streamed_calls b)) \<and>
     same_reply st st' \<and> uncosted (read_chunks ks r) = uncosted (says [b] r)"
proof (cases b)
  case (Prose ts)
  then show ?thesis using prose_says [OF assms(1)] by simp
next
  case (Calling c nm input fs)
  then show ?thesis using calling_says [OF assms] by simp
next
  case (Thinking ts ss)
  then show ?thesis using thinking_says [OF assms(1)] by simp
qed

lemma calls_uncosted: "uncosted r = uncosted r' \<Longrightarrow> rp_calls r = rp_calls r'"
  by (cases r; cases r') simp

lemma says_uncosted: "uncosted r = uncosted r' \<Longrightarrow> uncosted (says bs r) = uncosted (says bs r')"
  by (cases r; cases r') (simp add: says_def)

lemma says_Cons: "says (b # bs) r = says bs (says [b] r)"
  by (simp add: says_def)

lemma length_streamed_calls: "length (streamed_calls b) \<le> 1"
  by (cases b) simp_all

lemma blocks_say:
  assumes "between st (length (rp_calls r))" "length (rp_calls r) + length bs < 2 ^ 32"
  shows "\<exists>ks st'. anthropic_chunks (blocks_events i bs) st = (ks, st') \<and> as_thinking st' = (\<lambda>_. None) \<and>
     same_reply st st' \<and> uncosted (read_chunks ks r) = uncosted (says bs r)"
  using assms
proof (induction bs arbitrary: i st r)
  case Nil
  then show ?case by (auto simp: between_def same_reply_def says_def)
next
  case (Cons b bs)
  let ?n = "length (rp_calls r) + length (streamed_calls b)"
  obtain ks st1 where b: "anthropic_chunks (block_events i b) st = (ks, st1)" "between st1 ?n" "same_reply st st1"
    "uncosted (read_chunks ks r) = uncosted (says [b] r)"
    using block_says [OF Cons.prems(1), of r i b] Cons.prems(2) by auto
  have n: "length (rp_calls (read_chunks ks r)) = ?n" using calls_uncosted [OF b(4)] by (simp add: says_def)
  have "between st1 (length (rp_calls (read_chunks ks r)))" using b(2) by (simp only: n)
  moreover have "length (rp_calls (read_chunks ks r)) + length bs < 2 ^ 32"
    using n Cons.prems(2) length_streamed_calls [of b] by simp
  ultimately obtain ls st2 where bs: "anthropic_chunks (blocks_events (Suc i) bs) st1 = (ls, st2)"
    "as_thinking st2 = (\<lambda>_. None)" "same_reply st1 st2"
    "uncosted (read_chunks ls (read_chunks ks r)) = uncosted (says bs (read_chunks ks r))"
    using Cons.IH by blast
  have "anthropic_chunks (blocks_events i (b # bs)) st = (ks @ ls, st2)" by (simp add: anthropic_chunks_append b(1) bs(1))
  moreover have "uncosted (read_chunks (ks @ ls) r) = uncosted (says (b # bs) r)"
    using bs(4) says_uncosted [OF b(4), of bs] by (simp add: says_Cons [of b bs])
  moreover have "same_reply st st2" using b(3) bs(3) by (simp add: same_reply_def)
  ultimately show ?case using bs(2) by blast
qed

section \<open>Its cost\<close>

lemma obj_get_lay_over:
  "obj_get (lay_over ms o1) k = (case map_of (rev ms) k of Some v \<Rightarrow> Some v | None \<Rightarrow> obj_get o1 k)"
  unfolding lay_over_def by (induction ms arbitrary: o1) (auto simp: map_add_def split: option.splits)

lemma lay_over_ok: "obj_ok o1 \<Longrightarrow> obj_ok (lay_over ms o1)"
  unfolding lay_over_def by (induction ms arbitrary: o1) (auto intro: obj_ok_insert)

lemma obj_ok_distinct: "obj_ok o1 \<Longrightarrow> distinct (map fst o1) \<and> sorted (map fst o1)"
  by (simp add: obj_ok_def strict_sorted_iff)

lemma obj_ok_eqI:
  assumes "obj_ok a" "obj_ok b" "\<And>k. obj_get a k = obj_get b k"
  shows "a = b"
proof -
  have "map_of a = map_of b" using assms(3) by (auto simp: obj_get_def)
  then have "set a = set b" using assms(1,2) by (metis obj_ok_distinct map_of_inject_set)
  then show ?thesis
    using assms(1,2) by (intro map_sorted_distinct_set_unique [of fst]) (auto dest!: obj_ok_distinct simp: distinct_map)
qed

lemma obj_get_lay_over_ok:
  assumes "obj_ok c"
  shows "obj_get (lay_over c o1) k = (case obj_get c k of Some v \<Rightarrow> Some v | None \<Rightarrow> obj_get o1 k)"
proof -
  have "map_of (rev c) = map_of c"
    using obj_ok_distinct [OF assms] by (subst map_of_inject_set) (simp_all add: rev_map [symmetric])
  then show ?thesis by (simp add: obj_get_lay_over obj_get_def [of c])
qed

definition counts_stated :: "object \<Rightarrow> bool" where
  "counts_stated c \<longleftrightarrow> (\<forall>k \<in> {''input_tokens'', ''output_tokens'', ''cache_read_input_tokens'', ''cache_creation_input_tokens''}.
     obj_get c k = None \<or> count_at (JObj c) k \<noteq> None)"

lemma count_lay_over:
  assumes "obj_ok c" "obj_get c k = None \<or> count_at (JObj c) k \<noteq> None"
  shows "count_at (JObj (lay_over c o1)) k = later (count_at (JObj c) k) (count_at (JObj o1) k)"
  using assms by (auto simp: count_at_def json_at_def obj_get_lay_over_ok split: option.splits)

lemma counts_agree:
  assumes "obj_ok o1" "obj_ok c" "counts_stated c"
  shows "absorb_usage (JObj c) False (absorb_usage (JObj o1) True no_usage) = absorb_usage (JObj (lay_over c o1)) False no_usage"
proof -
  have none: "obj_ok []" by (simp add: obj_ok_def)
  have "lay_over c (lay_over o1 []) = lay_over (lay_over c o1) []"
    by (intro obj_ok_eqI lay_over_ok)
      (simp_all add: none assms(1,2) obj_get_lay_over_ok lay_over_ok split: option.split)
  moreover have "count_at (JObj (lay_over c o1)) k = later (count_at (JObj c) k) (count_at (JObj o1) k)"
    if "k \<in> {''input_tokens'', ''output_tokens'', ''cache_read_input_tokens'', ''cache_creation_input_tokens''}" for k
    by (rule count_lay_over [OF assms(2) assms(3) [unfolded counts_stated_def, rule_format, OF that]])
  ultimately show ?thesis by (simp add: absorb_usage_def no_usage_def later_def split: option.split)
qed

section \<open>Heard whole and heard as it is said\<close>

text \<open>How the calls a stream names stand to those of a whole reply: the same ids and names, arguments of the same meaning.\<close>

definition same_call :: "outside \<Rightarrow> (string \<times> string \<times> string \<times> string option) \<Rightarrow> tool_call \<Rightarrow> bool" where
  "same_call e heard c \<longleftrightarrow>
     (case heard of (i, n, args, sig) \<Rightarrow> i = tc_id c \<and> n = fc_name (tc_function c) \<and>
        json_parse e args = json_parse e (fc_arguments (tc_function c)) \<and> sig = tc_signature c)"

text \<open>The fragments of a call's arguments, end to end, are a text of the input the whole reply carries.\<close>

fun fragments_of_input :: "outside \<Rightarrow> said_block \<Rightarrow> bool" where
  "fragments_of_input e (Calling i n input fs) \<longleftrightarrow> json_parse e (concat fs) = Some input \<and> json_parse e (json_text e input) = Some input"
| "fragments_of_input e _ \<longleftrightarrow> True"

lemma whole_block:
  "flatten_parts (whole_part e (block_whole (Prose ts))) = (concat ts, [])"
  "flatten_parts (whole_part e (block_whole (Thinking ts ss))) = ([], [])"
  "flatten_parts (whole_part e (block_whole (Calling i n input fs))) =
     ([], [\<lparr>tc_id = i, tc_type = ''function'', tc_function = \<lparr>fc_name = n, fc_arguments = json_text e input\<rparr>, tc_signature = None\<rparr>])"
  by (simp_all add: whole_part_def block_kind_of_def text_block_def thinking_json_def json_at_object tool_use_head_def)

lemma whole_blocks:
  assumes "\<forall>b \<in> set bs. fragments_of_input e b"
  shows "\<exists>calls. flatten_parts (concat (map (whole_part e) (map block_whole bs))) = (concat (map prose_of bs), calls) \<and>
    list_all2 (same_call e) (concat (map streamed_calls bs)) calls"
  using assms
proof (induction bs)
  case (Cons b bs)
  then obtain calls where bs: "flatten_parts (concat (map (whole_part e) (map block_whole bs))) = (concat (map prose_of bs), calls)"
    "list_all2 (same_call e) (concat (map streamed_calls bs)) calls"
    by auto
  show ?case
  proof (cases b)
    case (Calling i n input fs)
    then have "same_call e (i, n, concat fs, None) \<lparr>tc_id = i, tc_type = ''function'',
        tc_function = \<lparr>fc_name = n, fc_arguments = json_text e input\<rparr>, tc_signature = None\<rparr>"
      using Cons.prems by (simp add: same_call_def)
    then show ?thesis using bs Calling by (simp add: flatten_parts_append whole_block del: block_whole.simps)
  qed (use bs in \<open>simp_all add: flatten_parts_append whole_block del: block_whole.simps\<close>)
qed simp

lemma message_starts:
  "\<exists>k st. anthropic_event (ev_message_start s) new_stream = (Some k, st) \<and> between st 0 \<and>
    as_usage st = absorb_usage (JObj (sr_opening s)) True no_usage \<and> uncosted (read_chunk k no_reply) = no_reply"
  by (simp add: event_simps ev_message_start_def on_message_start_def Let_def between_def new_stream_def chunk_of_def no_delta_def
      read_chunk_def no_reply_def)

lemma message_ends:
  "anthropic_chunks [ev_message_delta s, json_object [(''type'', JStr ''message_stop'')]] st =
     (let stop = stop_of (Some (sr_stop s)) (sr_details s);
          st1 = st\<lparr>as_usage := absorb_usage (JObj (sr_closing s)) False (as_usage st), as_finish := Some (sp_finish stop)\<rparr> in
      ([chunk_of st1 (no_delta\<lparr>dt_refusal := map_option fst (sp_refusal stop),
          dt_refusal_category := Option.bind (sp_refusal stop) snd\<rparr>) (Some (sp_finish stop))], st1))"
  by (simp add: event_simps ev_message_delta_def on_message_delta_def Let_def)

lemma message_end_read:
  assumes "pu_input p \<noteq> None" "as_usage st = p" "uncosted r = uncosted r'"
  shows "read_chunk (chunk_of st d (Some f)) r = (uncosted r')\<lparr>rp_text := rp_text r' @ or_else (dt_content d) [],
     rp_reasoning := rp_reasoning r' @ or_else (dt_reasoning d) [],
     rp_thinking := rp_thinking r' @ (case dt_thinking d of None \<Rightarrow> [] | Some b \<Rightarrow> [b]),
     rp_calls := fold read_call (or_else (dt_calls d) []) (rp_calls r'), rp_finish := Some f,
     rp_refusal := later (dt_refusal d) (rp_refusal r'), rp_usage := Some (to_usage p)\<rparr>"
  using assms by (cases r; cases r') (simp add: read_chunk_def chunk_of_def usage_known_def Let_def)

lemma reply_heard:
  assumes "length (sr_blocks s) < 2 ^ 32"
    and "count_at (JObj (sr_opening s)) ''input_tokens'' \<noteq> None"
    and "obj_ok (sr_opening s)" "obj_ok (sr_closing s)" "counts_stated (sr_closing s)"
  shows "\<exists>ks st. anthropic_chunks (reply_events s) new_stream = (ks, st) \<and>
     read_chunks ks no_reply = (says (sr_blocks s) no_reply)\<lparr>
       rp_finish := Some (finish_reason_of (sr_stop s)),
       rp_refusal := (if sr_stop s = ''refusal'' then Some (refusal_of (sr_details s)) else None),
       rp_usage := Some (to_usage (absorb_usage (JObj (lay_over (sr_closing s) (sr_opening s))) False no_usage))\<rparr>"
proof -
  let ?opened = "absorb_usage (JObj (sr_opening s)) True no_usage"
  let ?cost = "absorb_usage (JObj (lay_over (sr_closing s) (sr_opening s))) False no_usage"
  obtain k st where start: "anthropic_event (ev_message_start s) new_stream = (Some k, st)" "between st 0"
    "as_usage st = ?opened" "uncosted (read_chunk k no_reply) = no_reply"
    using message_starts by blast
  let ?r = "read_chunk k no_reply"
  have r: "uncosted ?r = uncosted no_reply" "rp_calls ?r = []" using start(4) by (cases ?r; simp add: no_reply_def)+
  obtain ks st1 where blocks: "anthropic_chunks (blocks_events 0 (sr_blocks s)) st = (ks, st1)" "same_reply st st1"
    "uncosted (read_chunks ks ?r) = uncosted (says (sr_blocks s) ?r)"
    using blocks_say [of st ?r "sr_blocks s" 0] start(2) r(2) assms(1) by auto
  have read: "uncosted (read_chunks ks ?r) = uncosted (says (sr_blocks s) no_reply)"
    using blocks(3) says_uncosted [OF r(1)] by simp
  let ?stop = "stop_of (Some (sr_stop s)) (sr_details s)"
  let ?d = "no_delta\<lparr>dt_refusal := map_option fst (sp_refusal ?stop), dt_refusal_category := Option.bind (sp_refusal ?stop) snd\<rparr>"
  let ?st2 = "st1\<lparr>as_usage := absorb_usage (JObj (sr_closing s)) False (as_usage st1), as_finish := Some (sp_finish ?stop)\<rparr>"
  let ?last = "chunk_of ?st2 ?d (Some (sp_finish ?stop))"
  have cost: "as_usage ?st2 = ?cost" using blocks(2) start(3) counts_agree [OF assms(3-5)] by (simp add: same_reply_def)
  have "pu_input (absorb_usage (JObj (sr_closing s)) False ?opened) \<noteq> None"
    using assms(2) by (auto simp: absorb_usage_def later_def split: option.split)
  then have known: "pu_input ?cost \<noteq> None" unfolding counts_agree [OF assms(3-5)] .
  have run: "anthropic_chunks (reply_events s) new_stream = (k # ks @ [?last], ?st2)"
    using start(1) blocks(1) message_ends [of s st1] unfolding reply_events_def
    by (simp add: anthropic_chunks_append Let_def del: anthropic_chunks.simps(2)) (simp add: anthropic_chunks_append)
  have "read_chunks (k # ks @ [?last]) no_reply = read_chunk ?last (read_chunks ks ?r)" by simp
  also have "\<dots> = (says (sr_blocks s) no_reply)\<lparr>rp_finish := Some (finish_reason_of (sr_stop s)),
       rp_refusal := (if sr_stop s = ''refusal'' then Some (refusal_of (sr_details s)) else None), rp_usage := Some (to_usage ?cost)\<rparr>"
    unfolding message_end_read [OF known cost read]
    by (simp add: stop_of_def says_def no_reply_def no_delta_def)
  finally show ?thesis using run by blast
qed

lemma heard_alike:
  assumes "length (sr_blocks s) < 2 ^ 32" "\<forall>b \<in> set (sr_blocks s). fragments_of_input e b"
    and "count_at (JObj (sr_opening s)) ''input_tokens'' \<noteq> None"
    and "obj_ok (sr_opening s)" "obj_ok (sr_closing s)" "counts_stated (sr_closing s)"
    and "heard = read_chunks (fst (anthropic_chunks (reply_events s) new_stream)) no_reply"
    and "whole = anthropic_to_openai e (reply_whole s)"
  shows "\<exists>c. co_choices whole = [c] \<and> lm_content (ch_message c) = TextContent (rp_text heard) \<and>
     list_all2 (same_call e) (rp_calls heard) (or_else (lm_tool_calls (ch_message c)) []) \<and>
     ch_finish c = rp_finish heard \<and> co_usage whole = rp_usage heard"
proof -
  obtain calls where blocks: "flatten_parts (concat (map (whole_part e) (map block_whole (sr_blocks s)))) =
      (concat (map prose_of (sr_blocks s)), calls)"
    "list_all2 (same_call e) (concat (map streamed_calls (sr_blocks s))) calls"
    using whole_blocks [OF assms(2)] by blast
  show ?thesis
    using reply_heard [OF assms(1,3-6)] blocks
    by (auto simp: assms(7,8) anthropic_to_openai_def reply_whole_def json_at_object json_get_object assistant_message_def
        stop_of_def says_def no_reply_def Let_def)
qed

text \<open>
  C10. An Anthropic reply is the same reply heard whole and heard as it is said: whatever fragments its text,
  its thinking and its calls' arguments come in, the streamed text, the calls (ids, names, and arguments of the
  same meaning, in order), the finish reason and the cost are those the whole response is read as.
\<close>

theorem streamed_as_whole:
  assumes "length (sr_blocks s) < 2 ^ 32" "\<forall>b \<in> set (sr_blocks s). fragments_of_input e b"
    and "count_at (JObj (sr_opening s)) ''input_tokens'' \<noteq> None"
    and "obj_ok (sr_opening s)" "obj_ok (sr_closing s)" "counts_stated (sr_closing s)"
    and "heard = read_chunks (fst (anthropic_chunks (reply_events s) new_stream)) no_reply"
    and "whole = anthropic_to_openai e (reply_whole s)"
  shows "\<exists>c. co_choices whole = [c] \<and> lm_content (ch_message c) = TextContent (rp_text heard) \<and>
     list_all2 (same_call e) (rp_calls heard) (or_else (lm_tool_calls (ch_message c)) []) \<and>
     ch_finish c = rp_finish heard \<and> co_usage whole = rp_usage heard"
  using assms by (rule heard_alike)

section \<open>A reply said back\<close>

text \<open>A reply's message, put to the model again as part of the conversation, says its text and then makes its calls.\<close>

fun is_call :: "said_block \<Rightarrow> bool" where
  "is_call (Calling i n input fs) = True"
| "is_call _ = False"

fun call_is_object :: "outside \<Rightarrow> said_block \<Rightarrow> bool" where
  "call_is_object e (Calling i n (JObj o1) fs) \<longleftrightarrow> json_parse e (json_text e (JObj o1)) = Some (JObj o1)"
| "call_is_object e (Calling i n _ fs) \<longleftrightarrow> False"
| "call_is_object e _ \<longleftrightarrow> True"

lemma calls_replayed:
  assumes "\<forall>b \<in> set bs. call_is_object e b"
  shows "map (tool_use e) (snd (flatten_parts (concat (map (whole_part e) (map block_whole bs))))) = map block_whole (filter is_call bs)"
  using assms
proof (induction bs)
  case (Cons b bs)
  show ?case
  proof (cases b)
    case (Calling i n input fs)
    moreover obtain o1 where "input = JObj o1" "json_parse e (json_text e (JObj o1)) = Some (JObj o1)"
      using Cons.prems Calling by (cases input) auto
    ultimately show ?thesis
      using Cons by (simp add: flatten_parts_append whole_block(3) tool_use_def call_input_def del: block_whole.simps) simp
  qed (use Cons in \<open>simp_all add: flatten_parts_append whole_block del: block_whole.simps\<close>)
qed simp

lemma text_replayed:
  "fst (flatten_parts (concat (map (whole_part e) (map block_whole bs)))) = concat (map prose_of bs)"
proof (induction bs)
  case (Cons b bs)
  then show ?case by (cases b) (simp_all add: flatten_parts_append whole_block del: block_whole.simps)
qed simp

lemma reply_replayed:
  assumes "\<forall>b \<in> set (sr_blocks s). call_is_object e b" "filter is_call (sr_blocks s) \<noteq> []"
    and "co_choices (anthropic_to_openai e (reply_whole s)) = [c]"
  shows "json_at (spoken e (ch_message c)) ''content'' =
     JArr ((case concat (map prose_of (sr_blocks s)) of [] \<Rightarrow> [] | t \<Rightarrow> [text_block t]) @ map block_whole (filter is_call (sr_blocks s)))"
proof -
  let ?parts = "concat (map (whole_part e) (map block_whole (sr_blocks s)))"
  obtain said calls where parts: "flatten_parts ?parts = (said, calls)" by (cases "flatten_parts ?parts")
  then have said: "said = concat (map prose_of (sr_blocks s))" and calls: "map (tool_use e) calls = map block_whole (filter is_call (sr_blocks s))"
    using text_replayed [of e "sr_blocks s"] calls_replayed [OF assms(1)] by simp_all
  then have "calls \<noteq> []" using assms(2) by auto
  moreover have "ch_message c = assistant_message said calls"
    using assms(3) parts by (auto simp: anthropic_to_openai_def reply_whole_def json_at_object Let_def)
  ultimately show ?thesis
    by (simp add: spoken_def json_at_object assistant_message_def reply_blocks_def calls said split: list.split del: concat_eq_Nil_conv)
qed

text \<open>
  C29. What an Anthropic reply asked for is what the next request says it asked for: the reply read into the
  common form and sent back in a conversation makes the same calls, with the same ids, names and inputs, in
  order, after the text it said.
\<close>

theorem reply_sent_back:
  assumes "\<forall>b \<in> set (sr_blocks s). call_is_object e b" "filter is_call (sr_blocks s) \<noteq> []"
    and "co_choices (anthropic_to_openai e (reply_whole s)) = [c]"
  shows "json_at (spoken e (ch_message c)) ''content'' =
     JArr ((case concat (map prose_of (sr_blocks s)) of [] \<Rightarrow> [] | t \<Rightarrow> [text_block t]) @ map block_whole (filter is_call (sr_blocks s)))"
  using assms by (rule reply_replayed)

section \<open>Examples\<close>

definition braces :: outside where
  "braces = toy_outside\<lparr>json_parse := (\<lambda>b. if b = ''{}'' then Some (JObj []) else None), json_text := (\<lambda>v. ''{}'')\<rparr>"

definition greeting :: said_reply where
  "greeting = \<lparr>sr_id = ''m1'', sr_model = ''claude'',
     sr_blocks = [Thinking [''Hm''] [''s''], Prose [''Hel'', ''lo''], Calling ''c1'' ''look'' (JObj []) [''{'', ''}'']],
     sr_stop = ''tool_use'', sr_details = JNull, sr_opening = [(''input_tokens'', JNum (PosInt 7))],
     sr_closing = [(''output_tokens'', JNum (PosInt 5))]\<rparr>"

lemma greeting_said:
  "length (sr_blocks greeting) < 2 ^ 32" "\<forall>b \<in> set (sr_blocks greeting). fragments_of_input braces b"
  "count_at (JObj (sr_opening greeting)) ''input_tokens'' \<noteq> None"
  "obj_ok (sr_opening greeting)" "obj_ok (sr_closing greeting)" "counts_stated (sr_closing greeting)"
  "\<forall>b \<in> set (sr_blocks greeting). call_is_object braces b" "filter is_call (sr_blocks greeting) \<noteq> []"
  by (simp_all add: greeting_def braces_def obj_ok_def counts_stated_def count_at_def json_at_def obj_get_def)

theorem streamed_as_whole_witness:
  "\<exists>c. co_choices (anthropic_to_openai braces (reply_whole greeting)) = [c] \<and>
     lm_content (ch_message c) = TextContent (rp_text (read_chunks (fst (anthropic_chunks (reply_events greeting) new_stream)) no_reply))"
  using streamed_as_whole [OF greeting_said(1-6) refl refl] by blast

theorem reply_sent_back_witness:
  "json_at (spoken braces (ch_message (hd (co_choices (anthropic_to_openai braces (reply_whole greeting)))))) ''content'' =
     JArr [text_block ''Hello'', block_whole (Calling ''c1'' ''look'' (JObj []) [''{'', ''}''])]"
proof -
  obtain c where c: "co_choices (anthropic_to_openai braces (reply_whole greeting)) = [c]"
    using heard_alike [OF greeting_said(1-6) refl refl] by blast
  show ?thesis
    unfolding c list.sel reply_sent_back [OF greeting_said(7,8) c]
    by (simp add: greeting_def del: block_whole.simps)
qed

end
