(* ===== verification/Sse.thy ===== *)
theory Sse
  imports Anthropic Utf8
begin

text \<open>
  What stands between a model provider's bytes and its events, \<open>crates/gateway/src/llm/provider/mod.rs\<close>:
  the framing of server-sent events, and what a failure to answer is and says. \<open>sse_next\<close> is one turn of
  the stream's \<open>unfold\<close>, \<open>sse_payloads\<close> the stream it makes. A stream is the list of what it yields.
\<close>

section \<open>What a failure is\<close>

datatype provider_error =
    Unavailable
  | RateLimited
  | Upstream "nat option" string
  | TranslationError string
  | Unreached string

fun is_client_error :: "provider_error \<Rightarrow> bool" where
  "is_client_error (Upstream (Some s) d) \<longleftrightarrow> 400 \<le> s \<and> s < 500 \<and> s \<noteq> 408 \<and> s \<noteq> 429"
| "is_client_error _ \<longleftrightarrow> False"

definition contains_text :: "string \<Rightarrow> string \<Rightarrow> bool" where
  "contains_text s pat \<longleftrightarrow> split_once_text pat s \<noteq> None"

text \<open>
  \<open>str::to_lowercase\<close>, read for ASCII words only: besides the ASCII letters, the two characters whose
  lower case has an ASCII letter in it, the Kelvin sign and the dotted capital I.
\<close>

function to_lowercase :: "string \<Rightarrow> string" where
  "to_lowercase s =
     (if s = [] then []
      else if starts_with s [CHR 0xE2, CHR 0x84, CHR 0xAA] then CHR ''k'' # to_lowercase (drop 3 s)
      else if starts_with s [CHR 0xC4, CHR 0xB0] then [CHR ''i'', CHR 0xCC, CHR 0x87] @ to_lowercase (drop 2 s)
      else lower_char (hd s) # to_lowercase (tl s))"
  by pat_completeness auto
termination
  by (relation "measure length") auto

declare to_lowercase.simps [simp del]

definition MISSING :: "string list" where
  "MISSING = [''not found'', ''not_found'', ''does not exist'', ''could not resolve'', ''retired'', ''deprecated'',
     ''decommissioned'', ''no longer'', ''end of its life'']"

definition ROUTING :: "string list" where
  "ROUTING = [''page not found'', ''route not found'', ''no route'', ''cannot post'', ''cannot get'', ''<html'']"

definition SAID_OUTRIGHT :: "string list" where
  "SAID_OUTRIGHT = [''model not found'', ''model_not_found'', ''no such model'', ''model identifier is invalid'',
     ''model version has reached the end of its life'', ''model has been deprecated'', ''model has been retired'',
     ''model has been decommissioned'', ''model is no longer available'', ''model is no longer supported'']"

definition model_gone :: "nat \<Rightarrow> string \<Rightarrow> bool" where
  "model_gone status detail \<longleftrightarrow>
     (if status = 404 \<or> status = 410
      then contains_text detail ''model'' \<and> list_ex (contains_text detail) MISSING \<and> \<not> list_ex (contains_text detail) ROUTING
      else status = 400 \<and> list_ex (contains_text detail) SAID_OUTRIGHT)"

fun is_model_gone :: "provider_error \<Rightarrow> bool" where
  "is_model_gone (Upstream (Some s) d) \<longleftrightarrow> model_gone s (to_lowercase d)"
| "is_model_gone _ \<longleftrightarrow> False"

fun is_malformed_reply :: "provider_error \<Rightarrow> bool" where
  "is_malformed_reply (Upstream s d) \<longleftrightarrow> contains_text d ''Failed to parse tool call arguments''"
| "is_malformed_reply _ \<longleftrightarrow> False"

fun may_have_been_taken :: "provider_error \<Rightarrow> bool" where
  "may_have_been_taken (Upstream None d) \<longleftrightarrow> True"
| "may_have_been_taken _ \<longleftrightarrow> False"

text \<open>A failed response: its status, the status as it is written, and its body.\<close>

definition from_response :: "nat \<Rightarrow> string \<Rightarrow> bytes \<Rightarrow> provider_error" where
  "from_response status said body =
     (if status = 429 then RateLimited else Upstream (Some status) (said @ '': '' @ from_utf8_lossy (take (64 * 1024) body)))"

definition strip_url :: "string \<Rightarrow> string" where
  "strip_url message = join_with (CHR '' '') (map (\<lambda>w. if contains_text w ''://'' then ''<url>'' else w) (split_whitespace message))"

definition transport :: "string \<Rightarrow> provider_error" where
  "transport said = Upstream None (strip_url said)"

definition reason_in :: "outside \<Rightarrow> string \<Rightarrow> string option" where
  "reason_in e detail =
     (case split_once_text ''{'' detail of
        None \<Rightarrow> None
      | Some (before, rest) \<Rightarrow>
          Option.bind (json_parse e (CHR ''{'' # rest)) (\<lambda>body.
            (case json_at body ''error'' of
               JStr s \<Rightarrow> Some s
             | JNull \<Rightarrow> as_str (json_at body ''message'')
             | err \<Rightarrow> as_str (json_at err ''message''))))"

definition SHOWN :: nat where "SHOWN = 300"

text \<open>Where the characters of a text begin.\<close>

definition char_indices :: "string \<Rightarrow> nat list" where
  "char_indices s = filter (\<lambda>i. \<not> cont (s ! i)) [0..<length s]"

definition shown :: "string \<Rightarrow> string" where
  "shown reason =
     (if SHOWN < length (char_indices reason)
      then (let cut = char_indices reason ! SHOWN in
        take cut reason @ [CHR 0xE2, CHR 0x80, CHR 0xA6] @ '' ('' @ nat_text (length reason - cut) @ '' more bytes in the gateway log)'')
      else reason)"

definition what_it_did :: "nat option \<Rightarrow> string" where
  "what_it_did status =
     (case status of
        Some s \<Rightarrow> if 400 \<le> s \<and> s \<le> 499 then ''refused the request'' else ''failed''
      | None \<Rightarrow> ''did not finish answering'')"

fun error_text :: "outside \<Rightarrow> provider_error \<Rightarrow> string" where
  "error_text e Unavailable = ''the model provider is unavailable''"
| "error_text e RateLimited = ''the model provider is rate limiting these requests''"
| "error_text e (Unreached d) = ''the model provider could not be reached: '' @ d"
| "error_text e (TranslationError d) = ''translation error: '' @ d"
| "error_text e (Upstream s d) =
     (if is_malformed_reply (Upstream s d)
      then ''the model wrote a tool call its arguments could not be read from, most likely cut off when the reply ran out of room''
      else ''the model provider '' @ what_it_did s @ '': '' @ shown (or_else (reason_in e d) d))"

section \<open>What the OpenAI protocol counts twice\<close>

text \<open>That protocol counts cached tokens inside the prompt's; they come out, saturating.\<close>

definition unfold_cache :: "usage \<Rightarrow> usage" where
  "unfold_cache u =
     (let cached = (case us_prompt_details u of Some d \<Rightarrow> pd_cached d | None \<Rightarrow> 0) in
      u\<lparr>us_prompt := (if cached \<le> us_prompt u then us_prompt u - cached else 0)\<rparr>)"

lemma unfold_cache_counts:
  "us_prompt_details u = Some d \<Longrightarrow> pd_cached d \<le> us_prompt u \<Longrightarrow>
     unat (us_prompt (unfold_cache u)) + unat (pd_cached d) = unat (us_prompt u)"
  by (simp add: unfold_cache_def word_le_nat_alt unat_sub)

section \<open>The framing\<close>

definition NEWLINE :: char where "NEWLINE = CHR 0x0A"

definition MAX_SSE_LINE :: nat where "MAX_SSE_LINE = 8 * 1024 * 1024"

datatype line_says = Nothing | Ended | Says json

definition line_payload :: "outside \<Rightarrow> string \<Rightarrow> line_says" where
  "line_payload e line =
     (case strip_prefix (trim line) ''data:'' of
        None \<Rightarrow> Nothing
      | Some payload \<Rightarrow>
          (let payload = trim payload in
           if payload = ''[DONE]'' then Ended
           else if payload = [] then Nothing
           else (case json_parse e payload of Some v \<Rightarrow> Says v | None \<Rightarrow> Nothing)))"

text \<open>What is already buffered, line by line, to the first that says something.\<close>

datatype buffered = Yield json string | Over | Short string

function next_payload :: "outside \<Rightarrow> string \<Rightarrow> buffered" where
  "next_payload e buffer =
     (case split_once NEWLINE buffer of
        None \<Rightarrow> Short buffer
      | Some (line, rest) \<Rightarrow>
          (case line_payload e line of
             Nothing \<Rightarrow> next_payload e rest
           | Ended \<Rightarrow> Over
           | Says v \<Rightarrow> Yield v rest))"
  by pat_completeness auto
termination
  by (relation "measure (\<lambda>(e, buffer). length buffer)") (auto dest: split_once_SomeD)

declare next_payload.simps [simp del]

type_synonym piece = "provider_error + bytes"

record sse =
  sse_stream :: "piece list"
  sse_buffer :: string
  sse_decoder :: decoder
  sse_done :: bool

definition TOO_LONG :: string where
  "TOO_LONG = ''the stream sent a line longer than the gateway will hold''"

text \<open>How a decoder's error is said is the core crate's; here it is an argument.\<close>

fun sse_next :: "outside \<Rightarrow> (nat \<times> nat \<Rightarrow> string) \<Rightarrow> piece list \<Rightarrow> string \<Rightarrow> decoder \<Rightarrow> ((provider_error + json) \<times> sse) option" where
  "sse_next e utf8_error stream buffer dec =
     (case next_payload e buffer of
        Yield v rest \<Rightarrow> Some (Inr v, \<lparr>sse_stream = stream, sse_buffer = rest, sse_decoder = dec, sse_done = False\<rparr>)
      | Over \<Rightarrow> None
      | Short held \<Rightarrow>
          (case stream of
             [] \<Rightarrow> None
           | Inl err # stream' \<Rightarrow>
               Some (Inl err, \<lparr>sse_stream = stream', sse_buffer = held, sse_decoder = dec, sse_done = True\<rparr>)
           | Inr bytes # stream' \<Rightarrow>
               (case push dec bytes held of
                  Inl err \<Rightarrow>
                    Some (Inl (transport (utf8_error err)), \<lparr>sse_stream = stream', sse_buffer = held, sse_decoder = dec, sse_done = True\<rparr>)
                | Inr (dec', buffer') \<Rightarrow>
                    if MAX_SSE_LINE < length buffer' \<and> NEWLINE \<notin> set buffer'
                    then Some (Inl (transport TOO_LONG), \<lparr>sse_stream = stream', sse_buffer = [], sse_decoder = dec', sse_done = True\<rparr>)
                    else sse_next e utf8_error stream' buffer' dec')))"

declare sse_next.simps [simp del]

definition sse_step :: "outside \<Rightarrow> (nat \<times> nat \<Rightarrow> string) \<Rightarrow> sse \<Rightarrow> ((provider_error + json) \<times> sse) option" where
  "sse_step e utf8_error st =
     (if sse_done st then None else sse_next e utf8_error (sse_stream st) (sse_buffer st) (sse_decoder st))"

text \<open>Every turn of the loop leaves less: it is over, or the stream is shorter, or as long and the buffer is.\<close>

lemma next_payload_shorter: "next_payload e buffer = Yield v rest \<Longrightarrow> length rest < length buffer"
proof (induction e buffer rule: next_payload.induct)
  case (1 e buffer)
  obtain line after where line: "split_once NEWLINE buffer = Some (line, after)"
  proof (cases "split_once NEWLINE buffer")
    case None
    then show ?thesis using 1(2) by (simp add: next_payload.simps [of e buffer])
  qed auto
  then have "length after < length buffer" by (auto dest: split_once_SomeD)
  then show ?case
    using 1(2) 1(1) [OF line refl] by (auto simp: next_payload.simps [of e buffer] line split: line_says.splits)
qed

lemma sse_next_less:
  "sse_next e u stream buffer dec = Some (x, st) \<Longrightarrow>
     sse_done st \<or> length (sse_stream st) < length stream \<or>
       (length (sse_stream st) = length stream \<and> length (sse_buffer st) < length buffer)"
proof (induction e u stream buffer dec rule: sse_next.induct)
  case (1 e u stream buffer dec)
  show ?case
    using 1(2) by (subst (asm) sse_next.simps)
      (auto split: buffered.splits list.splits sum.splits if_splits prod.splits dest: next_payload_shorter dest!: 1(1))
qed

function sse_payloads :: "outside \<Rightarrow> (nat \<times> nat \<Rightarrow> string) \<Rightarrow> sse \<Rightarrow> (provider_error + json) list" where
  "sse_payloads e u st =
     (case sse_step e u st of None \<Rightarrow> [] | Some (x, st') \<Rightarrow> x # sse_payloads e u st')"
  by pat_completeness auto
termination
proof (relation "measures [\<lambda>(e, u, st). if sse_done st then 0 else 1, \<lambda>(e, u, st). length (sse_stream st),
      \<lambda>(e, u, st). length (sse_buffer st)]")
  fix e u st and y :: "(provider_error + json) \<times> sse" and x st'
  assume "sse_step e u st = Some y" "(x, st') = y"
  then have "\<not> sse_done st" "sse_next e u (sse_stream st) (sse_buffer st) (sse_decoder st) = Some (x, st')"
    by (auto simp: sse_step_def split: if_splits)
  with sse_next_less [OF this(2)]
  show "((e, u, st'), (e, u, st)) \<in> measures [\<lambda>(e, u, st). if sse_done st then 0 else 1, \<lambda>(e, u, st). length (sse_stream st),
      \<lambda>(e, u, st). length (sse_buffer st)]"
    by auto
qed simp

declare sse_payloads.simps [simp del]

definition sse_of :: "piece list \<Rightarrow> sse" where
  "sse_of stream = \<lparr>sse_stream = stream, sse_buffer = [], sse_decoder = new_decoder, sse_done = False\<rparr>"

section \<open>What the lines say\<close>

fun said_by :: "outside \<Rightarrow> string list \<Rightarrow> json list" where
  "said_by e [] = []"
| "said_by e (l # ls) = (case line_payload e l of Nothing \<Rightarrow> said_by e ls | Ended \<Rightarrow> [] | Says v \<Rightarrow> v # said_by e ls)"

text \<open>What a text's finished lines say, and what is left of it unless it said it was over.\<close>

function lines_say :: "outside \<Rightarrow> string \<Rightarrow> json list \<times> string option" where
  "lines_say e s =
     (case split_once NEWLINE s of
        None \<Rightarrow> ([], Some s)
      | Some (line, rest) \<Rightarrow>
          (case line_payload e line of
             Nothing \<Rightarrow> lines_say e rest
           | Ended \<Rightarrow> ([], None)
           | Says v \<Rightarrow> (case lines_say e rest of (vs, r) \<Rightarrow> (v # vs, r))))"
  by pat_completeness auto
termination
  by (relation "measure (\<lambda>(e, s). length s)") (auto dest: split_once_SomeD)

declare lines_say.simps [simp del]

lemma lines_say_none: "NEWLINE \<notin> set s \<Longrightarrow> lines_say e s = ([], Some s)"
  by (subst lines_say.simps) (simp add: split_once_None [THEN iffD2])

lemma lines_say_line:
  "NEWLINE \<notin> set line \<Longrightarrow> lines_say e (line @ NEWLINE # rest) =
     (case line_payload e line of Nothing \<Rightarrow> lines_say e rest | Ended \<Rightarrow> ([], None)
      | Says v \<Rightarrow> (case lines_say e rest of (vs, r) \<Rightarrow> (v # vs, r)))"
  by (subst lines_say.simps) (simp add: split_once_SomeI)

text \<open>A text is a run of finished lines and a last one without its newline.\<close>

lemma text_lines_induct [case_names last line]:
  assumes "\<And>s. NEWLINE \<notin> set s \<Longrightarrow> P s" and "\<And>line rest. NEWLINE \<notin> set line \<Longrightarrow> P rest \<Longrightarrow> P (line @ NEWLINE # rest)"
  shows "P s"
proof (induction s rule: length_induct)
  case (1 s)
  show ?case
  proof (cases "split_once NEWLINE s")
    case None
    then show ?thesis using assms(1) by (simp add: split_once_None)
  next
    case (Some lr)
    then obtain line rest where s: "s = line @ NEWLINE # rest" "NEWLINE \<notin> set line"
      by (cases lr) (auto simp: split_once_Some)
    have "length rest < length s" by (simp add: s(1))
    then show ?thesis using assms(2) 1 s by blast
  qed
qed

lemma lines_say_spec: "fst (lines_say e s) = said_by e (butlast (split_on NEWLINE s))"
proof (induction s rule: text_lines_induct)
  case (last s)
  then show ?case by (simp add: lines_say_none split_on_plain)
next
  case (line line rest)
  obtain ws q where "lines_say e rest = (ws, q)" by (cases "lines_say e rest")
  then show ?case using line by (simp add: lines_say_line split_on_append split: line_says.split)
qed

lemma lines_say_append:
  "lines_say e (s @ t) = (case lines_say e s of (vs, None) \<Rightarrow> (vs, None)
     | (vs, Some r) \<Rightarrow> (case lines_say e (r @ t) of (ws, q) \<Rightarrow> (vs @ ws, q)))"
proof (induction s rule: text_lines_induct)
  case (last s)
  then show ?case by (simp add: lines_say_none split: prod.split)
next
  case (line line rest)
  have "lines_say e ((line @ NEWLINE # rest) @ t) = lines_say e (line @ NEWLINE # (rest @ t))" by simp
  then show ?case using line by (simp add: lines_say_line split: line_says.split prod.split option.split)
qed

lemma lines_say_rest:
  "lines_say e s = (vs, Some r) \<Longrightarrow> NEWLINE \<notin> set r \<and> (r = s \<or> (\<exists>pre. s = pre @ NEWLINE # r))"
proof (induction s arbitrary: vs rule: text_lines_induct)
  case (last s)
  then show ?case by (simp add: lines_say_none)
next
  case (line line rest)
  then obtain ws where "lines_say e rest = (ws, Some r)"
    by (auto simp: lines_say_line split: line_says.splits prod.splits)
  from line(2) [OF this] show ?case by (auto intro: exI [of _ "line @ NEWLINE # _"])
qed

lemma split_on_suffix: "\<exists>ps. ps \<noteq> [] \<and> split_on d (pre @ d # z) = ps @ split_on d z"
proof (induction pre)
  case Nil
  show ?case by (auto intro: exI [of _ "[[]]"])
next
  case (Cons a pre)
  then obtain p ps where "split_on d (pre @ d # z) = (p # ps) @ split_on d z" by (metis list.exhaust)
  then show ?case by (auto intro: exI [of _ "[] # p # ps"] exI [of _ "(a # p) # ps"])
qed

definition short_lines :: "string \<Rightarrow> bool" where
  "short_lines t \<longleftrightarrow> list_all (\<lambda>l. length l \<le> MAX_SSE_LINE) (split_on NEWLINE t)"

lemma short_lines_suffix: "short_lines (pre @ NEWLINE # z) \<Longrightarrow> short_lines z"
  using split_on_suffix [of NEWLINE pre z] by (auto simp: short_lines_def)

lemma short_first_line:
  assumes "short_lines (r @ x)" "NEWLINE \<notin> set r"
  shows "length r \<le> MAX_SSE_LINE"
proof (cases "split_once NEWLINE x")
  case None
  then have "split_on NEWLINE (r @ x) = [r @ x]" using assms(2) by (intro split_on_plain) (simp add: split_once_None)
  then show ?thesis using assms(1) by (simp add: short_lines_def)
next
  case (Some lr)
  then obtain a b where x: "x = a @ NEWLINE # b" "NEWLINE \<notin> set a" by (cases lr) (auto simp: split_once_Some)
  then have "split_on NEWLINE (r @ x) = (r @ a) # split_on NEWLINE b"
    using assms(2) split_on_append [of NEWLINE "r @ a" b] by simp
  then show ?thesis using assms(1) by (simp add: short_lines_def)
qed

section \<open>The stream, however it is cut\<close>

abbreviation reading :: "piece list \<Rightarrow> string \<Rightarrow> decoder \<Rightarrow> sse" where
  "reading stream buffer dec \<equiv> \<lparr>sse_stream = stream, sse_buffer = buffer, sse_decoder = dec, sse_done = False\<rparr>"

lemma reading_buffered:
  "sse_payloads e u (reading stream buffer dec) =
     (case lines_say e buffer of (vs, None) \<Rightarrow> map Inr vs
      | (vs, Some r) \<Rightarrow> map Inr vs @ sse_payloads e u (reading stream r dec))"
proof (induction buffer rule: text_lines_induct)
  case (last s)
  then show ?case by (simp add: lines_say_none)
next
  case (line line rest)
  have np: "next_payload e (line @ NEWLINE # rest) = (case line_payload e line of
      Nothing \<Rightarrow> next_payload e rest | Ended \<Rightarrow> Over | Says v \<Rightarrow> Yield v rest)"
    by (subst next_payload.simps) (simp add: split_once_SomeI line(1))
  show ?case
  proof (cases "line_payload e line")
    case Nothing
    then have "sse_step e u (reading stream (line @ NEWLINE # rest) dec) = sse_step e u (reading stream rest dec)"
      by (simp add: sse_step_def sse_next.simps [of e u stream] np)
    then have "sse_payloads e u (reading stream (line @ NEWLINE # rest) dec) = sse_payloads e u (reading stream rest dec)"
      by (simp add: sse_payloads.simps [of e u "reading stream _ dec"])
    then show ?thesis using Nothing line by (simp add: lines_say_line)
  next
    case Ended
    then show ?thesis using line(1)
      by (simp add: lines_say_line sse_payloads.simps [of e u "reading _ _ _"] sse_step_def sse_next.simps [of e u stream] np)
  next
    case (Says v)
    then have "sse_payloads e u (reading stream (line @ NEWLINE # rest) dec) = Inr v # sse_payloads e u (reading stream rest dec)"
      by (subst sse_payloads.simps) (simp add: sse_step_def sse_next.simps [of e u stream] np)
    then show ?thesis using Says line by (simp add: lines_say_line split: prod.split option.split)
  qed
qed

lemma next_payload_short: "NEWLINE \<notin> set r \<Longrightarrow> next_payload e r = Short r"
  by (subst next_payload.simps) (simp add: split_once_None [THEN iffD2])

lemma reading_short:
  assumes "NEWLINE \<notin> set r" "push dec c r = Inr (dec', r')" "length r' \<le> MAX_SSE_LINE \<or> NEWLINE \<in> set r'"
  shows "sse_payloads e u (reading (Inr c # stream) r dec) = sse_payloads e u (reading stream r' dec')"
proof -
  have "sse_step e u (reading (Inr c # stream) r dec) = sse_step e u (reading stream r' dec')"
    using assms by (auto simp: sse_step_def sse_next.simps [of e u "Inr c # stream"] next_payload_short)
  then show ?thesis by (subst (1 2) sse_payloads.simps) simp
qed

lemma push_out: "push dec c out = map_sum id (\<lambda>(d, x). (d, out @ x)) (push dec c [])"
  by (auto simp: push_eq split: option.split)

lemma push_all_Inr:
  "push_all dec cs out = Inr (d, o1) \<longleftrightarrow> (\<exists>x. push_all dec cs [] = Inr (d, x) \<and> o1 = out @ x)"
proof (induction cs arbitrary: dec out o1)
  case (Cons c cs)
  show ?case
  proof (cases "push dec c []")
    case (Inl err)
    then show ?thesis using push_out [of dec c out] by simp
  next
    case (Inr dx)
    obtain d1 x1 where dx: "dx = (d1, x1)" by (cases dx)
    have "push dec c out = Inr (d1, out @ x1)" using push_out [of dec c out] Inr dx by simp
    then show ?thesis using Inr dx Cons.IH [of d1 "out @ x1" o1] Cons.IH [of d1 x1]  by auto
  qed
qed auto

lemma reading_all:
  assumes "push_all dec cs [] = Inr (d, x)" "NEWLINE \<notin> set r" "short_lines (r @ x)"
  shows "sse_payloads e u (reading (map Inr cs) r dec) = map Inr (fst (lines_say e (r @ x)))"
  using assms
proof (induction cs arbitrary: dec r x)
  case Nil
  then show ?case
    by (subst sse_payloads.simps)
      (simp add: sse_step_def sse_next.simps [of e u "[]"] next_payload_short lines_say_none)
next
  case (Cons c cs)
  then obtain d1 x1 where x1: "push dec c [] = Inr (d1, x1)" "push_all d1 cs x1 = Inr (d, x)"
    by (auto split: sum.splits)
  then obtain x2 where x2: "push_all d1 cs [] = Inr (d, x2)" "x = x1 @ x2" using push_all_Inr by blast
  have push: "push dec c r = Inr (d1, r @ x1)" using push_out [of dec c r] x1(1) by simp
  have "length (r @ x1) \<le> MAX_SSE_LINE \<or> NEWLINE \<in> set (r @ x1)"
    using short_first_line [of "r @ x1" x2] Cons.prems(3) x2(2) by (auto simp del: length_append)
  then have step: "sse_payloads e u (reading (map Inr (c # cs)) r dec) = sse_payloads e u (reading (map Inr cs) (r @ x1) d1)"
    using reading_short [OF Cons.prems(2) push] by simp
  show ?case
  proof (cases "lines_say e (r @ x1)")
    case (Pair vs q)
    show ?thesis
    proof (cases q)
      case None
      then show ?thesis using Pair lines_say_append [of e "r @ x1" x2] unfolding step reading_buffered [of e u _ "r @ x1"] by (simp add: x2(2))
    next
      case (Some r2)
      with Pair have rest: "NEWLINE \<notin> set r2" "r2 = r @ x1 \<or> (\<exists>pre. r @ x1 = pre @ NEWLINE # r2)"
        using lines_say_rest by blast+
      have "short_lines ((r @ x1) @ x2)" using Cons.prems(3) x2(2) by simp
      then have "short_lines (r2 @ x2)" using rest(2) short_lines_suffix by (metis append_Cons append_assoc)
      from Cons.IH [OF x2(1) rest(1) this] show ?thesis
        using Pair Some lines_say_append [of e "r @ x1" x2]
        unfolding step reading_buffered [of e u _ "r @ x1"] by (simp add: x2(2) split: prod.split)
    qed
  qed
qed

lemma stream_read:
  assumes "from_utf8 (concat chunks) = None" "short_lines (concat chunks)"
  shows "sse_payloads e u (sse_of (map Inr chunks)) = map Inr (said_by e (butlast (split_on NEWLINE (concat chunks))))"
proof -
  have "push_all [] chunks [] = Inr ([], concat chunks)"
    using push_all_reads [of "[]" chunks "[]"] assms(1) by (simp add: held_back_def)
  then show ?thesis using reading_all [of "[]" chunks "[]" "concat chunks" "[]" e u] assms(2)
    by (simp add: sse_of_def new_decoder_def lines_say_spec)
qed

lemma sse_next_done: "sse_next e u stream buffer dec = Some (Inl err, st) \<Longrightarrow> sse_done st"
proof (induction e u stream buffer dec rule: sse_next.induct)
  case (1 e u stream buffer dec)
  show ?case
    using 1(2) by (subst (asm) sse_next.simps)
      (auto split: buffered.splits list.splits sum.splits if_splits prod.splits dest!: 1(1))
qed

lemma errors_end:
  "sse_payloads e u st = xs @ Inl err # ys \<Longrightarrow> ys = []"
proof (induction e u st arbitrary: xs rule: sse_payloads.induct)
  case (1 e u st)
  show ?case
  proof (cases "sse_step e u st")
    case None
    then show ?thesis using 1(2) by (simp add: sse_payloads.simps [of e u st])
  next
    case (Some y)
    obtain x st' where y: "y = (x, st')" by (cases y)
    have all: "sse_payloads e u st = x # sse_payloads e u st'" using Some y by (simp add: sse_payloads.simps [of e u st])
    show ?thesis
    proof (cases xs)
      case Nil
      then have "x = Inl err" "ys = sse_payloads e u st'" using all 1(2) by simp_all
      moreover have "sse_done st'" if "x = Inl err"
        using that Some y sse_next_done by (auto simp: sse_step_def split: if_splits)
      ultimately show ?thesis by (simp add: sse_payloads.simps [of e u st'] sse_step_def)
    next
      case (Cons x' xs')
      then show ?thesis using 1(1) [OF Some, of x st' xs'] y all 1(2) by simp
    qed
  qed
qed

text \<open>
  C21. A model's stream reads the same however the network cut it: of valid text whose lines fit, the payloads
  the gateway hands on are what its finished lines say, in order, up to the sentinel -- and no error. The
  line the stream broke off in says nothing.
\<close>

theorem stream_reads_as_its_lines:
  assumes "from_utf8 (concat chunks) = None" "short_lines (concat chunks)"
  shows "sse_payloads e u (sse_of (map Inr chunks)) = map Inr (said_by e (butlast (split_on NEWLINE (concat chunks))))"
  using assms by (rule stream_read)

definition shouts :: outside where
  "shouts = toy_outside\<lparr>json_parse := (\<lambda>b. if b = ''{}'' then Some (JObj []) else None)\<rparr>"

theorem stream_reads_as_its_lines_witness:
  "sse_payloads shouts (\<lambda>_. []) (sse_of (map Inr [''da'', ''ta:'', ''{}'' @ [NEWLINE, CHR ''d'']])) = [Inr (JObj [])]"
proof -
  have valid: "from_utf8 (concat [''da'', ''ta:'', ''{}'' @ [NEWLINE, CHR ''d'']]) = None"
    by (simp add: NEWLINE_def from_utf8.simps byte_val_def)
  have lines: "split_on NEWLINE (concat [''da'', ''ta:'', ''{}'' @ [NEWLINE, CHR ''d'']]) = [''data:{}'', ''d'']"
    by (simp add: NEWLINE_def)
  have "line_payload shouts ''data:{}'' = Says (JObj [])"
    by (simp add: line_payload_def graphic_def byte_val_def strip_prefix_def starts_with_def shouts_def)
  then show ?thesis
    using stream_reads_as_its_lines [OF valid, of shouts "\<lambda>_. []"] unfolding lines short_lines_def
    by (simp add: MAX_SSE_LINE_def)
qed

section \<open>What is told apart\<close>

text \<open>A model that is gone is a client's error of the endpoint's, and no lost answer.\<close>

lemma gone_is_client_error: "is_model_gone e \<Longrightarrow> is_client_error e \<and> \<not> may_have_been_taken e"
  by (cases e rule: is_model_gone.cases) (auto simp: model_gone_def split: if_splits)

lemma taken_is_no_client_error: "may_have_been_taken e \<Longrightarrow> \<not> is_client_error e"
  by (cases e rule: may_have_been_taken.cases) simp_all

end
