(* ===== verification/ListenedCache.thy ===== *)
theory ListenedCache
  imports Credentials Gateway "HOL-Library.Product_Lexorder"
begin

text \<open>
  A cache kept honest by a listener: the gateway's of sealed credentials, \<open>crates/gateway/src/egress/sealed.rs\<close>,
  and the rules it shares with the API's of roles. Reading a row and then keeping what was read races a
  change that lands in between, so every load takes a ticket first, every change heard makes old tickets
  void, and a load's answer is kept only on a ticket still good. Counters are naturals: they count changes
  heard, 2 to the 64 of which no process sees.
\<close>

section \<open>The cache of sealed credentials\<close>

definition ENTRY_TTL :: int where "ENTRY_TTL = seconds 60"

type_synonym ticket = "nat \<times> nat"

record 'v listened =
  lc_entries :: "uuid \<Rightarrow> (time \<times> 'v) option"
  lc_generations :: "uuid \<Rightarrow> nat option"
  lc_epoch :: nat
  lc_trusted :: bool

definition new_listened :: "'v listened" where
  "new_listened = \<lparr>lc_entries = (\<lambda>_. None), lc_generations = (\<lambda>_. None), lc_epoch = 0, lc_trusted = False\<rparr>"

definition cached :: "'v listened \<Rightarrow> uuid \<Rightarrow> time \<Rightarrow> 'v option" where
  "cached c i now =
     (if \<not> lc_trusted c then None
      else (case lc_entries c i of
          Some (at, v) \<Rightarrow> if now - at < ENTRY_TTL then Some v else None
        | None \<Rightarrow> None))"

definition ticket_for :: "'v listened \<Rightarrow> uuid \<Rightarrow> ticket" where
  "ticket_for c i = (lc_epoch c, case lc_generations c i of Some g \<Rightarrow> g | None \<Rightarrow> 0)"

definition keep :: "uuid \<Rightarrow> ticket \<Rightarrow> 'v \<Rightarrow> time \<Rightarrow> 'v listened \<Rightarrow> 'v listened" where
  "keep i t v now c =
     (if lc_trusted c \<and> ticket_for c i = t then c\<lparr>lc_entries := (lc_entries c)(i \<mapsto> (now, v))\<rparr> else c)"

definition invalidate :: "uuid \<Rightarrow> 'v listened \<Rightarrow> 'v listened" where
  "invalidate i c =
     c\<lparr>lc_entries := (lc_entries c)(i := None),
       lc_generations := (lc_generations c)(i \<mapsto> (case lc_generations c i of Some g \<Rightarrow> g | None \<Rightarrow> 0) + 1)\<rparr>"

definition set_trusted :: "bool \<Rightarrow> 'v listened \<Rightarrow> 'v listened" where
  "set_trusted b c = \<lparr>lc_entries = (\<lambda>_. None), lc_generations = (\<lambda>_. None), lc_epoch = lc_epoch c + 1, lc_trusted = b\<rparr>"

section \<open>Reading through it\<close>

text \<open>
  A row of the table, and what the gateway's keys open: the secret under a key's id, and its fingerprint.
  The sealing, and the strict reading of a binding's bytes, are arguments.
\<close>

record sealed_row =
  sr_binding :: bytes
  sr_sealed :: bytes
  sr_key :: string

record keyring =
  kr_open :: "string \<Rightarrow> bytes \<Rightarrow> bytes \<Rightarrow> bytes option"
  kr_binding :: "bytes \<Rightarrow> seal_binding option"
  kr_fingerprint :: "string \<Rightarrow> bytes \<Rightarrow> string option"

definition NOT_AVAILABLE :: string where
  "NOT_AVAILABLE = ''this host'' @ [CHR 0x27] @ ''s credential is not available''"

definition opened_row :: "keyring \<Rightarrow> uuid \<Rightarrow> sealed_row \<Rightarrow> opened_seal option" where
  "opened_row k i row =
     Option.bind (kr_open k (sr_key row) (sr_sealed row) (sr_binding row)) (\<lambda>secret.
     Option.bind (kr_binding k (sr_binding row)) (\<lambda>binding.
       if sb_credential binding \<noteq> i then None
       else Some \<lparr>os_binding = binding, os_secret = secret,
         os_fingerprint = (case kr_fingerprint k (sr_key row) secret of Some f \<Rightarrow> f | None \<Rightarrow> [])\<rparr>))"

text \<open>What a live row is worth, for a table that may not answer.\<close>

definition read_credential :: "keyring \<Rightarrow> (uuid \<Rightarrow> sealed_row option) option \<Rightarrow> uuid \<Rightarrow> opened_seal option" where
  "read_credential k table i = Option.bind table (\<lambda>rows. Option.bind (rows i) (opened_row k i))"

text \<open>One read through the cache with nothing in between: what it answers, and the cache after.\<close>

definition get_credential :: "keyring \<Rightarrow> bool \<Rightarrow> (uuid \<Rightarrow> sealed_row option) option \<Rightarrow> time \<Rightarrow> uuid \<Rightarrow>
    opened_seal listened \<Rightarrow> (string + opened_seal) \<times> opened_seal listened" where
  "get_credential k has_pool table now i c =
     (if \<not> has_pool then (Inl NOT_AVAILABLE, c)
      else (case cached c i now of
          Some found \<Rightarrow> (Inr found, c)
        | None \<Rightarrow>
            (let t = ticket_for c i in
             (case read_credential k table i of
                None \<Rightarrow> (Inl NOT_AVAILABLE, c)
              | Some opened \<Rightarrow> (Inr opened, keep i t opened now c)))))"

section \<open>Any cache of this kind, and what it does between changes\<close>

text \<open>The operations, and the laws the protocol rests on.\<close>

record ('c, 'v) cache_ops =
  op_cached :: "'c \<Rightarrow> uuid \<Rightarrow> time \<Rightarrow> 'v option"
  op_ticket :: "'c \<Rightarrow> uuid \<Rightarrow> ticket"
  op_keep :: "uuid \<Rightarrow> ticket \<Rightarrow> 'v \<Rightarrow> time \<Rightarrow> 'c \<Rightarrow> 'c"
  op_forget :: "uuid \<Rightarrow> 'c \<Rightarrow> 'c"
  op_trust :: "'c \<Rightarrow> 'c"
  op_distrust :: "'c \<Rightarrow> 'c"
  op_held :: "'c \<Rightarrow> uuid \<Rightarrow> (time \<times> 'v) option"
  op_trusted :: "'c \<Rightarrow> bool"

text \<open>The listener: not connected, listening but not yet believed, believed, or lost and not yet missed.\<close>

datatype listener = Deaf | Connected | Believed | Lost

text \<open>A load in flight: what it is of, its ticket, and what it has read.\<close>

record 'v loading =
  ld_of :: uuid
  ld_ticket :: ticket
  ld_read :: "'v option option"

text \<open>
  A tier with such a cache, and the table behind it. \<open>ti_owed\<close> are changes made and not yet announced,
  \<open>ti_heard\<close> announcements on the connection not yet received.
\<close>

record ('c, 'v) tier =
  ti_table :: "uuid \<Rightarrow> 'v option"
  ti_cache :: 'c
  ti_listener :: listener
  ti_owed :: "uuid list"
  ti_heard :: "uuid list"
  ti_loads :: "'v loading list"

definition hears :: "('c, 'v) tier \<Rightarrow> uuid \<Rightarrow> ('c, 'v) tier" where
  "hears s i = (if ti_listener s \<in> {Connected, Believed} then s\<lparr>ti_heard := ti_heard s @ [i]\<rparr> else s)"

text \<open>
  The steps. Where a trigger announces a change it is announced in the transaction that makes it; otherwise
  after it, the tier's own cache forgetting first where the change is its own.
\<close>

inductive tier_step :: "('c, 'v) cache_ops \<Rightarrow> bool \<Rightarrow> ('c, 'v) tier \<Rightarrow> ('c, 'v) tier \<Rightarrow> bool" for ops by_trigger where
  created: "ti_table s i = None \<Longrightarrow> tier_step ops by_trigger s (s\<lparr>ti_table := (ti_table s)(i \<mapsto> v)\<rparr>)"
| changed: "by_trigger \<Longrightarrow> tier_step ops by_trigger s (hears (s\<lparr>ti_table := (ti_table s)(i := v)\<rparr>) i)"
| changed_first: "\<not> by_trigger \<Longrightarrow>
    tier_step ops by_trigger s (s\<lparr>ti_table := (ti_table s)(i := v), ti_owed := ti_owed s @ [i]\<rparr>)"
| forgets: "tier_step ops by_trigger s (s\<lparr>ti_cache := op_forget ops i (ti_cache s)\<rparr>)"
| announced: "i \<in> set (ti_owed s) \<Longrightarrow> tier_step ops by_trigger s (hears (s\<lparr>ti_owed := remove1 i (ti_owed s)\<rparr>) i)"
| connects: "ti_listener s = Deaf \<Longrightarrow> tier_step ops by_trigger s (s\<lparr>ti_listener := Connected, ti_heard := []\<rparr>)"
| believes: "ti_listener s = Connected \<Longrightarrow>
    tier_step ops by_trigger s (s\<lparr>ti_listener := Believed, ti_cache := op_trust ops (ti_cache s)\<rparr>)"
| receives: "ti_listener s \<in> {Believed, Lost} \<Longrightarrow> ti_heard s = i # rest \<Longrightarrow>
    tier_step ops by_trigger s (s\<lparr>ti_heard := rest, ti_cache := op_forget ops i (ti_cache s)\<rparr>)"
| drops: "ti_listener s \<in> {Connected, Believed} \<Longrightarrow> tier_step ops by_trigger s (s\<lparr>ti_listener := Lost\<rparr>)"
| notices: "ti_listener s = Lost \<Longrightarrow>
    tier_step ops by_trigger s (s\<lparr>ti_listener := Deaf, ti_heard := [], ti_cache := op_distrust ops (ti_cache s)\<rparr>)"
| begins: "op_cached ops (ti_cache s) i now = None \<Longrightarrow>
    tier_step ops by_trigger s
      (s\<lparr>ti_loads := ti_loads s @ [\<lparr>ld_of = i, ld_ticket = op_ticket ops (ti_cache s) i, ld_read = None\<rparr>]\<rparr>)"
| reads: "ti_loads s = before @ l # after \<Longrightarrow> ld_read l = None \<Longrightarrow>
    tier_step ops by_trigger s (s\<lparr>ti_loads := before @ l\<lparr>ld_read := Some (ti_table s (ld_of l))\<rparr> # after\<rparr>)"
| finishes: "ti_loads s = before @ l # after \<Longrightarrow> ld_read l = Some (Some v) \<Longrightarrow>
    tier_step ops by_trigger s
      (s\<lparr>ti_loads := before @ after, ti_cache := op_keep ops (ld_of l) (ld_ticket l) v now (ti_cache s)\<rparr>)"
| gives_up: "ti_loads s = before @ l # after \<Longrightarrow> tier_step ops by_trigger s (s\<lparr>ti_loads := before @ after\<rparr>)"

inductive_cases tier_stepE: "tier_step ops by_trigger s t"

definition tier_starts :: "('c, 'v) cache_ops \<Rightarrow> ('c, 'v) tier \<Rightarrow> bool" where
  "tier_starts ops s \<longleftrightarrow> ti_listener s = Deaf \<and> ti_owed s = [] \<and> ti_heard s = [] \<and> ti_loads s = [] \<and>
     \<not> op_trusted ops (ti_cache s)"

locale listened_cache =
  fixes ops :: "('c, 'v) cache_ops"
  assumes cached_held: "op_cached ops c i now = Some v \<Longrightarrow> op_trusted ops c \<and> (\<exists>at. op_held ops c i = Some (at, v))"
    and held_keep: "op_held ops (op_keep ops i t v now c) j = Some x \<Longrightarrow>
      op_held ops c j = Some x \<or> (j = i \<and> x = (now, v) \<and> op_ticket ops c i = t)"
    and ticket_keep [simp]: "op_ticket ops (op_keep ops i t v now c) j = op_ticket ops c j"
    and held_forget [simp]: "op_held ops (op_forget ops i c) j = (if j = i then None else op_held ops c j)"
    and ticket_forget: "op_ticket ops c i < op_ticket ops (op_forget ops i c) i"
    and ticket_forget_other [simp]: "j \<noteq> i \<Longrightarrow> op_ticket ops (op_forget ops i c) j = op_ticket ops c j"
    and held_cleared [simp]: "op_held ops (op_trust ops c) j = None" "op_held ops (op_distrust ops c) j = None"
    and ticket_cleared: "op_ticket ops c j < op_ticket ops (op_trust ops c) j" "op_ticket ops c j < op_ticket ops (op_distrust ops c) j"
    and trusted_ops [simp]: "op_trusted ops (op_trust ops c)" "\<not> op_trusted ops (op_distrust ops c)"
      "op_trusted ops (op_keep ops i t v now c) \<longleftrightarrow> op_trusted ops c" "op_trusted ops (op_forget ops i c) \<longleftrightarrow> op_trusted ops c"
begin

definition settled :: "('c, 'v) tier \<Rightarrow> uuid \<Rightarrow> bool" where
  "settled s i \<longleftrightarrow> ti_listener s = Believed \<and> i \<notin> set (ti_heard s) \<and> i \<notin> set (ti_owed s)"

definition tickets_past :: "('c, 'v) tier \<Rightarrow> bool" where
  "tickets_past s \<longleftrightarrow> (\<forall>l \<in> set (ti_loads s). ld_ticket l \<le> op_ticket ops (ti_cache s) (ld_of l))"

definition held_current :: "('c, 'v) tier \<Rightarrow> bool" where
  "held_current s \<longleftrightarrow> (\<forall>i at v. settled s i \<longrightarrow> op_held ops (ti_cache s) i = Some (at, v) \<longrightarrow> ti_table s i = Some v)"

definition loads_current :: "('c, 'v) tier \<Rightarrow> bool" where
  "loads_current s \<longleftrightarrow> (\<forall>l \<in> set (ti_loads s). \<forall>v. settled s (ld_of l) \<longrightarrow>
     ld_ticket l = op_ticket ops (ti_cache s) (ld_of l) \<longrightarrow> ld_read l = Some (Some v) \<longrightarrow> ti_table s (ld_of l) = Some v)"

definition trust_heard :: "('c, 'v) tier \<Rightarrow> bool" where
  "trust_heard s \<longleftrightarrow> (op_trusted ops (ti_cache s) \<longrightarrow> ti_listener s \<in> {Believed, Lost})"

definition tier_ok :: "('c, 'v) tier \<Rightarrow> bool" where
  "tier_ok s \<longleftrightarrow> tickets_past s \<and> held_current s \<and> loads_current s \<and> trust_heard s"

lemmas ok_defs = tier_ok_def tickets_past_def held_current_def loads_current_def trust_heard_def settled_def

lemma forgets_ticket_le: "t \<le> op_ticket ops c j \<Longrightarrow> t \<le> op_ticket ops (op_forget ops i c) j"
  using ticket_forget [of c i] by (cases "j = i") auto

lemma forgets_ticket_ne: "t \<le> op_ticket ops c i \<Longrightarrow> t \<noteq> op_ticket ops (op_forget ops i c) i"
  using ticket_forget [of c i] by auto

lemma starts_ok: "tier_starts ops s \<Longrightarrow> tier_ok s"
  by (simp add: tier_starts_def ok_defs)

lemma hears_ok: "tier_ok s \<Longrightarrow> tier_ok (hears s i)"
  by (auto simp: hears_def ok_defs)

text \<open>A change to the table leaves the rest as it was where the row is not settled after it.\<close>

lemma change_ok:
  assumes "tier_ok s" "ti_table t = (ti_table s)(i := v)" "ti_cache t = ti_cache s" "ti_loads t = ti_loads s"
    and "ti_listener t = ti_listener s" "\<not> settled t i" "\<And>j. settled t j \<Longrightarrow> settled s j"
  shows "tier_ok t"
proof -
  have table: "ti_table t j = ti_table s j" if "settled t j" for j using that assms(2,6) by auto
  show ?thesis
    using assms(1,3,4,5,7) table unfolding tier_ok_def tickets_past_def held_current_def loads_current_def trust_heard_def by auto
qed

lemma changed_ok: "tier_ok s \<Longrightarrow> tier_ok (hears (s\<lparr>ti_table := (ti_table s)(i := v)\<rparr>) i)"
  by (erule change_ok [where i = i and v = v]) (auto simp: hears_def settled_def split: if_splits)

lemma changed_first_ok: "tier_ok s \<Longrightarrow> tier_ok (s\<lparr>ti_table := (ti_table s)(i := v), ti_owed := ti_owed s @ [i]\<rparr>)"
  by (erule change_ok [where i = i and v = v]) (auto simp: settled_def)

lemma created_ok:
  assumes "tier_ok s" "ti_table s i = None"
  shows "tier_ok (s\<lparr>ti_table := (ti_table s)(i \<mapsto> v)\<rparr>)"
  using assms by (fastforce simp: ok_defs)

lemma announced_ok:
  assumes "tier_ok s" "i \<in> set (ti_owed s)"
  shows "tier_ok (hears (s\<lparr>ti_owed := remove1 i (ti_owed s)\<rparr>) i)"
proof -
  have "j \<in> set (remove1 i (ti_owed s)) \<longleftrightarrow> j \<in> set (ti_owed s)" if "j \<noteq> i" for j using that by simp
  then have settled: "settled (hears (s\<lparr>ti_owed := remove1 i (ti_owed s)\<rparr>) i) j \<Longrightarrow> settled s j" for j
    by (cases "j = i") (auto simp: settled_def hears_def split: if_splits)
  then show ?thesis
    using assms(1) unfolding tier_ok_def tickets_past_def held_current_def loads_current_def trust_heard_def
    by (auto simp: hears_def)
qed

lemma forgets_ok:
  assumes "tier_ok s" "t = s\<lparr>ti_cache := op_forget ops i (ti_cache s)\<rparr> \<or>
    (ti_heard s = i # rest \<and> t = s\<lparr>ti_heard := rest, ti_cache := op_forget ops i (ti_cache s)\<rparr>)"
  shows "tier_ok t"
proof -
  have t: "ti_cache t = op_forget ops i (ti_cache s)" "ti_table t = ti_table s" "ti_loads t = ti_loads s" "ti_listener t = ti_listener s"
    using assms(2) by auto
  have settled: "settled s j" if "settled t j" "j \<noteq> i" for j using assms(2) that by (auto simp: settled_def)
  have "tickets_past t" using assms(1) t by (auto simp: tier_ok_def tickets_past_def intro: forgets_ticket_le)
  moreover have "held_current t" using assms(1) t settled by (auto simp: tier_ok_def held_current_def)
  moreover have "loads_current t"
    unfolding loads_current_def t
  proof (intro ballI allI impI)
    fix l v
    assume l: "l \<in> set (ti_loads s)" "settled t (ld_of l)" "ld_read l = Some (Some v)"
      and ticket: "ld_ticket l = op_ticket ops (op_forget ops i (ti_cache s)) (ld_of l)"
    have "ld_ticket l \<le> op_ticket ops (ti_cache s) (ld_of l)" using assms(1) l(1) by (simp add: tier_ok_def tickets_past_def)
    then have "ld_of l \<noteq> i" using ticket by (metis forgets_ticket_ne)
    then show "ti_table s (ld_of l) = Some v"
      using assms(1) l ticket settled by (simp add: tier_ok_def loads_current_def)
  qed
  moreover have "trust_heard t" using assms(1) t by (simp add: tier_ok_def trust_heard_def)
  ultimately show ?thesis by (simp add: tier_ok_def)
qed

lemma connects_ok: "tier_ok s \<Longrightarrow> ti_listener s = Deaf \<Longrightarrow> tier_ok (s\<lparr>ti_listener := Connected, ti_heard := []\<rparr>)"
  by (auto simp: ok_defs)

lemma drops_ok: "tier_ok s \<Longrightarrow> ti_listener s \<in> {Connected, Believed} \<Longrightarrow> tier_ok (s\<lparr>ti_listener := Lost\<rparr>)"
  by (auto simp: ok_defs)

lemma cleared_ticket: "t \<le> op_ticket ops c j \<Longrightarrow> t \<noteq> op_ticket ops (op_trust ops c) j \<and> t \<le> op_ticket ops (op_trust ops c) j \<and>
    t \<le> op_ticket ops (op_distrust ops c) j"
  using ticket_cleared [of c j] by (auto dest: order.strict_trans1)

lemma tickets_cleared:
  assumes "tickets_past s" "l \<in> set (ti_loads s)"
  shows "ld_ticket l \<noteq> op_ticket ops (op_trust ops (ti_cache s)) (ld_of l)"
    "ld_ticket l \<le> op_ticket ops (op_trust ops (ti_cache s)) (ld_of l)"
    "ld_ticket l \<le> op_ticket ops (op_distrust ops (ti_cache s)) (ld_of l)"
  using cleared_ticket assms unfolding tickets_past_def by blast+

lemma believes_ok:
  "tier_ok s \<Longrightarrow> tier_ok (s\<lparr>ti_listener := Believed, ti_cache := op_trust ops (ti_cache s)\<rparr>)"
  using tickets_cleared [of s]
  by (simp add: tier_ok_def tickets_past_def held_current_def loads_current_def trust_heard_def)

lemma notices_ok:
  "tier_ok s \<Longrightarrow> tier_ok (s\<lparr>ti_listener := Deaf, ti_heard := [], ti_cache := op_distrust ops (ti_cache s)\<rparr>)"
  using tickets_cleared [of s]
  by (simp add: tier_ok_def tickets_past_def held_current_def loads_current_def trust_heard_def settled_def)

lemma loads_ok:
  assumes "tier_ok s" "\<forall>l \<in> set ls. l \<in> set (ti_loads s) \<or>
    (ld_ticket l \<le> op_ticket ops (ti_cache s) (ld_of l) \<and> (ld_read l = None \<or> ld_read l = Some (ti_table s (ld_of l))))"
  shows "tier_ok (s\<lparr>ti_loads := ls\<rparr>)"
  using assms by (fastforce simp: ok_defs)

lemma begins_ok:
  "tier_ok s \<Longrightarrow> tier_ok (s\<lparr>ti_loads := ti_loads s @ [\<lparr>ld_of = i, ld_ticket = op_ticket ops (ti_cache s) i, ld_read = None\<rparr>]\<rparr>)"
  by (rule loads_ok) auto

lemma reads_ok:
  assumes "tier_ok s" "ti_loads s = before @ l # after"
  shows "tier_ok (s\<lparr>ti_loads := before @ l\<lparr>ld_read := Some (ti_table s (ld_of l))\<rparr> # after\<rparr>)"
proof (rule loads_ok [OF assms(1)])
  have "ld_ticket l \<le> op_ticket ops (ti_cache s) (ld_of l)" using assms by (simp add: tier_ok_def tickets_past_def)
  then show "\<forall>l' \<in> set (before @ l\<lparr>ld_read := Some (ti_table s (ld_of l))\<rparr> # after). l' \<in> set (ti_loads s) \<or>
      (ld_ticket l' \<le> op_ticket ops (ti_cache s) (ld_of l') \<and> (ld_read l' = None \<or> ld_read l' = Some (ti_table s (ld_of l'))))"
    using assms(2) by auto
qed

lemma keep_ok:
  assumes "tier_ok s" "l \<in> set (ti_loads s)" "ld_read l = Some (Some v)"
  shows "tier_ok (s\<lparr>ti_cache := op_keep ops (ld_of l) (ld_ticket l) v now (ti_cache s)\<rparr>)"
proof -
  let ?t = "s\<lparr>ti_cache := op_keep ops (ld_of l) (ld_ticket l) v now (ti_cache s)\<rparr>"
  have settled: "settled ?t i \<longleftrightarrow> settled s i" for i by (simp add: settled_def)
  have "held_current ?t"
    unfolding held_current_def
  proof (intro allI impI)
    fix i at w assume i: "settled ?t i" "op_held ops (ti_cache ?t) i = Some (at, w)"
    then have "op_held ops (ti_cache s) i = Some (at, w) \<or>
        (i = ld_of l \<and> (at, w) = (now, v) \<and> op_ticket ops (ti_cache s) (ld_of l) = ld_ticket l)"
      using held_keep by fastforce
    then show "ti_table ?t i = Some w"
      using assms i(1) settled by (auto simp: tier_ok_def held_current_def loads_current_def)
  qed
  then show ?thesis using assms(1) by (auto simp: ok_defs)
qed

lemma finishes_ok:
  assumes "tier_ok s" "ti_loads s = before @ l # after" "ld_read l = Some (Some v)"
  shows "tier_ok (s\<lparr>ti_loads := before @ after, ti_cache := op_keep ops (ld_of l) (ld_ticket l) v now (ti_cache s)\<rparr>)"
proof -
  have "tier_ok ((s\<lparr>ti_cache := op_keep ops (ld_of l) (ld_ticket l) v now (ti_cache s)\<rparr>)\<lparr>ti_loads := before @ after\<rparr>)"
    by (rule loads_ok [OF keep_ok]) (use assms in auto)
  then show ?thesis by (cases s) simp
qed

lemma step_ok: "tier_step ops by_trigger s t \<Longrightarrow> tier_ok s \<Longrightarrow> tier_ok t"
proof (induction rule: tier_step.induct)
  case (gives_up s before l after)
  then show ?case by (intro loads_ok) auto
qed (auto intro: created_ok changed_ok changed_first_ok announced_ok connects_ok drops_ok believes_ok notices_ok
      begins_ok reads_ok finishes_ok forgets_ok)

lemma served_current:
  assumes "(tier_step ops by_trigger)\<^sup>*\<^sup>* s0 s" "tier_starts ops s0" "op_cached ops (ti_cache s) i now = Some v"
  shows "ti_listener s \<in> {Believed, Lost} \<and> (settled s i \<longrightarrow> ti_table s i = Some v)"
proof -
  have "tier_ok s" using assms(1)
  proof (induction rule: rtranclp_induct)
    case base
    show ?case by (rule starts_ok [OF assms(2)])
  next
    case (step s t)
    then show ?case using step_ok by blast
  qed
  then show ?thesis using cached_held [OF assms(3)] by (auto simp: tier_ok_def held_current_def trust_heard_def)
qed

end

section \<open>The two caches are of this kind\<close>

definition listened_ops :: "('v listened, 'v) cache_ops" where
  "listened_ops = \<lparr>op_cached = cached, op_ticket = ticket_for, op_keep = keep, op_forget = invalidate,
     op_trust = set_trusted True, op_distrust = set_trusted False, op_held = lc_entries, op_trusted = lc_trusted\<rparr>"

lemmas listened_defs = listened_ops_def cached_def ticket_for_def keep_def invalidate_def set_trusted_def

interpretation sealed: listened_cache "listened_ops :: (opened_seal listened, opened_seal) cache_ops"
  by unfold_locales (auto simp: listened_defs split: if_splits option.splits)

text \<open>A trigger owes nothing: what it changes it announces.\<close>

lemma trigger_owes_nothing: "(tier_step ops True)\<^sup>*\<^sup>* s0 s \<Longrightarrow> ti_owed s0 = [] \<Longrightarrow> ti_owed s = []"
  by (induction rule: rtranclp_induct) (auto elim!: tier_stepE simp: hears_def)

text \<open>
  C6. The gateway never sends a revoked credential from memory once it could have heard: whatever loads,
  changes, announcements, losses and returns of the connection came before, in any order, nothing is served
  from the cache while its listener is not up, and what is served while it is up, and no announcement of the
  credential waits to be received, is what the table now holds.
\<close>

theorem served_is_not_revoked:
  assumes "(tier_step listened_ops True)\<^sup>*\<^sup>* s0 s" "tier_starts listened_ops s0"
    and "cached (ti_cache s) i now = Some (v :: opened_seal)"
  shows "ti_listener s \<in> {Believed, Lost} \<and> (ti_listener s = Believed \<and> i \<notin> set (ti_heard s) \<longrightarrow> ti_table s i = Some v)"
  using sealed.served_current [OF assms(1,2), of i now v] assms(3) trigger_owes_nothing [OF assms(1)] assms(2)
  by (simp add: listened_ops_def sealed.settled_def tier_starts_def)

definition a_secret :: opened_seal where
  "a_secret = \<lparr>os_binding = example_seal, os_secret = ''k'', os_fingerprint = []\<rparr>"

definition no_tier :: "(opened_seal listened, opened_seal) tier" where
  "no_tier = \<lparr>ti_table = [7 \<mapsto> a_secret], ti_cache = new_listened, ti_listener = Deaf, ti_owed = [], ti_heard = [], ti_loads = []\<rparr>"

definition loaded_tier :: "(opened_seal listened, opened_seal) tier" where
  "loaded_tier = no_tier\<lparr>ti_listener := Believed, ti_cache := keep 7 (1, 0) a_secret 0 (set_trusted True new_listened)\<rparr>"

lemma loaded_tier_reached: "(tier_step listened_ops True)\<^sup>*\<^sup>* no_tier loaded_tier"
proof -
  let ?l = "\<lparr>ld_of = 7, ld_ticket = (1, 0), ld_read = None\<rparr> :: opened_seal loading"
  let ?up = "no_tier\<lparr>ti_listener := Believed, ti_cache := set_trusted True new_listened\<rparr>"
  have "tier_step listened_ops True no_tier (no_tier\<lparr>ti_listener := Connected\<rparr>)"
    using tier_step.connects [of no_tier listened_ops True] by (simp add: no_tier_def)
  moreover have "tier_step listened_ops True (no_tier\<lparr>ti_listener := Connected\<rparr>) ?up"
    using tier_step.believes [of "no_tier\<lparr>ti_listener := Connected\<rparr>" listened_ops True] by (simp add: no_tier_def listened_ops_def)
  moreover have "tier_step listened_ops True ?up (?up\<lparr>ti_loads := [?l]\<rparr>)"
    using tier_step.begins [of listened_ops ?up 7 0 True]
    by (simp add: no_tier_def listened_ops_def cached_def set_trusted_def ticket_for_def new_listened_def)
  moreover have "tier_step listened_ops True (?up\<lparr>ti_loads := [?l]\<rparr>) (?up\<lparr>ti_loads := [?l\<lparr>ld_read := Some (Some a_secret)\<rparr>]\<rparr>)"
    using tier_step.reads [of "?up\<lparr>ti_loads := [?l]\<rparr>" "[]" ?l "[]" listened_ops True] by (simp add: no_tier_def)
  moreover have "tier_step listened_ops True (?up\<lparr>ti_loads := [?l\<lparr>ld_read := Some (Some a_secret)\<rparr>]\<rparr>) loaded_tier"
    using tier_step.finishes [of "?up\<lparr>ti_loads := [?l\<lparr>ld_read := Some (Some a_secret)\<rparr>]\<rparr>" "[]" _ "[]" a_secret listened_ops True 0]
    by (simp add: loaded_tier_def no_tier_def listened_ops_def)
  ultimately show ?thesis by (meson converse_rtranclp_into_rtranclp rtranclp.rtrancl_refl)
qed

theorem served_is_not_revoked_witness: "cached (ti_cache loaded_tier) 7 5 = Some a_secret \<and> ti_table loaded_tier 7 = Some a_secret"
proof -
  have "cached (ti_cache loaded_tier) 7 5 = Some a_secret"
    by (simp add: loaded_tier_def no_tier_def keep_def set_trusted_def ticket_for_def cached_def new_listened_def ENTRY_TTL_def seconds_def)
  moreover have "tier_starts listened_ops no_tier" by (simp add: tier_starts_def no_tier_def listened_ops_def new_listened_def)
  ultimately show ?thesis
    using served_is_not_revoked [OF loaded_tier_reached, of 7 5 a_secret] by (simp add: loaded_tier_def no_tier_def)
qed

end
