(* ===== verification/Roles.thy ===== *)
theory Roles
  imports Rbac ListenedCache
begin

text \<open>
  Roles a workspace defines for itself, \<open>crates/api/src/role/mod.rs\<close> and \<open>role/postgres.rs\<close>: what a name and
  a list of authorities must be, the store's operations over its tables, and the cache in front of it. A
  sum's left is the error. An id the store makes is an argument, as is what a failed statement says.
\<close>

section \<open>What may be asked\<close>

datatype role_error =
    RoleNotFound
  | DuplicateRole string
  | InvalidRole string
  | RoleInUse nat
  | RoleStoreError string

fun validate_authorities :: "string list \<Rightarrow> authority list \<Rightarrow> role_error + authority list" where
  "validate_authorities [] parsed = Inr parsed"
| "validate_authorities (name # names) parsed =
     (case authority_parse (trim name) of
        None \<Rightarrow> Inl (InvalidRole (name @ '' is not an authority''))
      | Some a \<Rightarrow>
          if \<not> workspace_assignable a
          then Inl (InvalidRole (authority_text a @ '' is reserved to the platform and cannot be put in a role''))
          else validate_authorities names (if a \<in> set parsed then parsed else parsed @ [a]))"

definition validate_name :: "string \<Rightarrow> role_error + string" where
  "validate_name name =
     (let name = trim name in
      if name = [] then Inl (InvalidRole ''a role needs a name'')
      else if 64 < length name then Inl (InvalidRole ''a role name can be at most 64 characters'')
      else if is_platform_role_name name then Inl (InvalidRole (name @ '' is the name of a platform role and cannot be used here''))
      else Inr name)"

section \<open>The tables\<close>

record role_row =
  rr_workspace :: uuid
  rr_id :: uuid
  rr_name :: string
  rr_description :: string

record authority_row =
  ra_workspace :: uuid
  ra_role :: uuid
  ra_authority :: string

record grant_row =
  gr_user :: uuid
  gr_workspace :: uuid
  gr_role :: uuid

record template_row =
  tr_name :: string
  tr_description :: string
  tr_authorities :: "string list"

text \<open>The templates are in the order of their position and then their name.\<close>

record role_tables =
  rt_roles :: "role_row list"
  rt_authorities :: "authority_row list"
  rt_grants :: "grant_row list"
  rt_templates :: "template_row list"

definition role_at :: "role_tables \<Rightarrow> uuid \<Rightarrow> uuid \<Rightarrow> role_row option" where
  "role_at db ws i = find (\<lambda>r. rr_workspace r = ws \<and> rr_id r = i) (rt_roles db)"

definition authorities_of :: "role_tables \<Rightarrow> uuid \<Rightarrow> uuid \<Rightarrow> string list" where
  "authorities_of db ws i =
     map ra_authority (filter (\<lambda>a. ra_workspace a = ws \<and> ra_role a = i) (rt_authorities db))"

definition holders_of :: "role_tables \<Rightarrow> uuid \<Rightarrow> uuid \<Rightarrow> nat" where
  "holders_of db ws i = length (filter (\<lambda>g. gr_workspace g = ws \<and> gr_role g = i) (rt_grants db))"

record workspace_role =
  wr_id :: uuid
  wr_workspace :: uuid
  wr_name :: string
  wr_description :: string
  wr_authorities :: "string list"
  wr_holders :: nat

definition shown_role :: "role_tables \<Rightarrow> role_row \<Rightarrow> workspace_role" where
  "shown_role db r =
     \<lparr>wr_id = rr_id r, wr_workspace = rr_workspace r, wr_name = rr_name r, wr_description = rr_description r,
      wr_authorities = sort (authorities_of db (rr_workspace r) (rr_id r)), wr_holders = holders_of db (rr_workspace r) (rr_id r)\<rparr>"

section \<open>The store\<close>

definition read_one :: "role_tables \<Rightarrow> uuid \<Rightarrow> uuid \<Rightarrow> role_error + workspace_role" where
  "read_one db ws i = (case role_at db ws i of None \<Rightarrow> Inl RoleNotFound | Some r \<Rightarrow> Inr (shown_role db r))"

definition list_roles :: "role_tables \<Rightarrow> uuid \<Rightarrow> uuid option \<Rightarrow> nat \<Rightarrow> workspace_role list" where
  "list_roles db ws after limit =
     map (shown_role db) (take limit (sort_key rr_id
       (filter (\<lambda>r. rr_workspace r = ws \<and> (case after of None \<Rightarrow> True | Some a \<Rightarrow> a < rr_id r)) (rt_roles db))))"

text \<open>A role's authorities, replacing what was there.\<close>

definition write_authorities :: "uuid \<Rightarrow> uuid \<Rightarrow> authority list \<Rightarrow> role_tables \<Rightarrow> role_tables" where
  "write_authorities ws i as db =
     db\<lparr>rt_authorities :=
       filter (\<lambda>a. \<not> (ra_workspace a = ws \<and> ra_role a = i)) (rt_authorities db) @
       map (\<lambda>a. \<lparr>ra_workspace = ws, ra_role = i, ra_authority = authority_text a\<rparr>) as\<rparr>"

definition name_taken :: "role_tables \<Rightarrow> uuid \<Rightarrow> string \<Rightarrow> uuid option \<Rightarrow> bool" where
  "name_taken db ws name besides \<longleftrightarrow>
     list_ex (\<lambda>r. rr_workspace r = ws \<and> rr_name r = name \<and> Some (rr_id r) \<noteq> besides) (rt_roles db)"

definition add_role :: "uuid \<Rightarrow> uuid \<Rightarrow> string \<Rightarrow> string \<Rightarrow> authority list \<Rightarrow> role_tables \<Rightarrow> role_tables" where
  "add_role ws i name description as db =
     write_authorities ws i as
       (db\<lparr>rt_roles := rt_roles db @ [\<lparr>rr_workspace = ws, rr_id = i, rr_name = name, rr_description = description\<rparr>]\<rparr>)"

record create_role =
  mk_name :: string
  mk_description :: string
  mk_authorities :: "string list"

record update_role =
  up_name :: "string option"
  up_description :: "string option"
  up_authorities :: "string list option"

text \<open>A row whose key is taken is a duplicate, as a name that is taken is.\<close>

definition create :: "uuid \<Rightarrow> uuid \<Rightarrow> create_role \<Rightarrow> role_tables \<Rightarrow> role_tables \<times> (role_error + workspace_role)" where
  "create ws i input db =
     (case validate_name (mk_name input) of
        Inl err \<Rightarrow> (db, Inl err)
      | Inr name \<Rightarrow>
          (case validate_authorities (mk_authorities input) [] of
             Inl err \<Rightarrow> (db, Inl err)
           | Inr as \<Rightarrow>
               if name_taken db ws name None \<or> role_at db ws i \<noteq> None then (db, Inl (DuplicateRole name))
               else (let db' = add_role ws i name (trim (mk_description input)) as db in (db', read_one db' ws i))))"

definition validated :: "('a \<Rightarrow> role_error + 'b) \<Rightarrow> 'a option \<Rightarrow> role_error + 'b option" where
  "validated f x = (case x of None \<Rightarrow> Inr None | Some y \<Rightarrow> (case f y of Inl err \<Rightarrow> Inl err | Inr z \<Rightarrow> Inr (Some z)))"

definition renamed :: "uuid \<Rightarrow> uuid \<Rightarrow> string option \<Rightarrow> string option \<Rightarrow> role_tables \<Rightarrow> role_tables" where
  "renamed ws i name description db =
     db\<lparr>rt_roles := map (\<lambda>r. if rr_workspace r = ws \<and> rr_id r = i
       then r\<lparr>rr_name := (case name of Some n \<Rightarrow> n | None \<Rightarrow> rr_name r),
          rr_description := (case description of Some d \<Rightarrow> d | None \<Rightarrow> rr_description r)\<rparr> else r) (rt_roles db)\<rparr>"

definition update :: "uuid \<Rightarrow> uuid \<Rightarrow> update_role \<Rightarrow> role_tables \<Rightarrow> role_tables \<times> (role_error + workspace_role)" where
  "update ws i input db =
     (case validated validate_name (up_name input) of
        Inl err \<Rightarrow> (db, Inl err)
      | Inr name \<Rightarrow>
          (case validated (\<lambda>as. validate_authorities as []) (up_authorities input) of
             Inl err \<Rightarrow> (db, Inl err)
           | Inr as \<Rightarrow>
               if role_at db ws i = None then (db, Inl RoleNotFound)
               else if (case name of Some n \<Rightarrow> name_taken db ws n (Some i) | None \<Rightarrow> False)
                 then (db, Inl (DuplicateRole (case name of Some n \<Rightarrow> n | None \<Rightarrow> [])))
               else
                 (let db1 = renamed ws i name (map_option trim (up_description input)) db;
                      db2 = (case as of Some as \<Rightarrow> write_authorities ws i as db1 | None \<Rightarrow> db1) in
                  (db2, read_one db2 ws i))))"

text \<open>
  Deleting is two statements: the count of who holds the role, and the row, with what hangs off it. Somebody
  else's work may come between them.
\<close>

definition delete_row :: "uuid \<Rightarrow> uuid \<Rightarrow> role_tables \<Rightarrow> role_tables" where
  "delete_row ws i db =
     db\<lparr>rt_roles := filter (\<lambda>r. \<not> (rr_workspace r = ws \<and> rr_id r = i)) (rt_roles db),
        rt_authorities := filter (\<lambda>a. \<not> (ra_workspace a = ws \<and> ra_role a = i)) (rt_authorities db),
        rt_grants := filter (\<lambda>g. \<not> (gr_workspace g = ws \<and> gr_role g = i)) (rt_grants db)\<rparr>"

definition delete :: "uuid \<Rightarrow> uuid \<Rightarrow> (role_tables \<Rightarrow> role_tables) \<Rightarrow> role_tables \<Rightarrow> role_tables \<times> (role_error + unit)" where
  "delete ws i meanwhile db =
     (case read_one db ws i of
        Inl err \<Rightarrow> (db, Inl err)
      | Inr role \<Rightarrow> if 0 < wr_holders role then (db, Inl (RoleInUse (wr_holders role)))
          else (delete_row ws i (meanwhile db), Inr ()))"

section \<open>What roles grant\<close>

type_synonym workspace_map = "string \<Rightarrow> authority set option"

text \<open>What a load reads: each role's name, and those of its authorities this build knows.\<close>

definition load_map :: "role_tables \<Rightarrow> uuid \<Rightarrow> workspace_map" where
  "load_map db ws name =
     (case filter (\<lambda>r. rr_workspace r = ws \<and> rr_name r = name) (rt_roles db) of
        [] \<Rightarrow> None
      | rs \<Rightarrow> Some (\<Union>r \<in> set rs. set (List.map_filter authority_parse (authorities_of db ws (rr_id r)))))"

definition authorities_for :: "workspace_map \<Rightarrow> string list \<Rightarrow> authority set" where
  "authorities_for m roles = \<Union> (set (List.map_filter m roles))"

definition roles_with :: "role_tables \<Rightarrow> uuid \<Rightarrow> authority \<Rightarrow> uuid list" where
  "roles_with db ws a =
     sort (map rr_id (filter (\<lambda>r. rr_workspace r = ws \<and> authority_text a \<in> set (authorities_of db ws (rr_id r))) (rt_roles db)))"

section \<open>Templates\<close>

definition usable :: "string \<Rightarrow> authority option" where
  "usable raw = (case authority_parse (trim raw) of None \<Rightarrow> None | Some a \<Rightarrow> if workspace_assignable a then Some a else None)"

definition templates :: "role_tables \<Rightarrow> (string \<times> string \<times> authority list) list" where
  "templates db = map (\<lambda>t. (tr_name t, tr_description t, List.map_filter usable (tr_authorities t))) (rt_templates db)"

fun seed_all :: "uuid \<Rightarrow> uuid list \<Rightarrow> (string \<times> string \<times> authority list) list \<Rightarrow> role_tables \<Rightarrow> role_tables" where
  "seed_all ws (i # ids) ((name, description, as) # ts) db = seed_all ws ids ts (add_role ws i name description as db)"
| "seed_all ws _ _ db = db"

text \<open>All or nothing: two of a template's authorities that are one are a key taken twice.\<close>

definition seed_defaults :: "uuid \<Rightarrow> uuid list \<Rightarrow> role_tables \<Rightarrow> role_tables \<times> (role_error + unit)" where
  "seed_defaults ws fresh db =
     (if list_ex (\<lambda>r. rr_workspace r = ws) (rt_roles db) then (db, Inr ())
      else if \<not> list_all (\<lambda>(_, _, as). distinct as) (templates db)
        then (db, Inl (RoleStoreError ''duplicate key value violates unique constraint''))
      else (seed_all ws fresh (templates db) db, Inr ()))"

section \<open>The cache in front of it\<close>

text \<open>
  \<open>RoleCache\<close> reads, tickets, keeps and forgets as the cache of sealed credentials does; it is cleared when
  the listener is lost and when it is back.
\<close>

definition role_clear :: "'v listened \<Rightarrow> 'v listened" where
  "role_clear c = c\<lparr>lc_entries := (\<lambda>_. None), lc_generations := (\<lambda>_. None), lc_epoch := lc_epoch c + 1\<rparr>"

definition role_trust :: "'v listened \<Rightarrow> 'v listened" where
  "role_trust c = role_clear (c\<lparr>lc_trusted := True\<rparr>)"

definition role_distrust :: "'v listened \<Rightarrow> 'v listened" where
  "role_distrust c = role_clear (c\<lparr>lc_trusted := False\<rparr>)"

definition role_cache_ops :: "(workspace_map listened, workspace_map) cache_ops" where
  "role_cache_ops = \<lparr>op_cached = cached, op_ticket = ticket_for, op_keep = keep, op_forget = invalidate,
     op_trust = role_trust, op_distrust = role_distrust, op_held = lc_entries, op_trusted = lc_trusted\<rparr>"

interpretation role_cache: listened_cache role_cache_ops
  by unfold_locales
    (auto simp: role_cache_ops_def role_trust_def role_distrust_def role_clear_def listened_defs split: if_splits option.splits)

text \<open>
  In any interleaving of loads, changes, announcements and lost connections, what a pod's role cache serves
  while its listener is up, and once every change to the workspace's roles has been announced and received,
  is what the tables now say. An announcement that fails is a change that stays owed.
\<close>

lemma roles_served_are_current:
  assumes "(tier_step role_cache_ops False)\<^sup>*\<^sup>* s0 s" "tier_starts role_cache_ops s0"
    and "cached (ti_cache s) ws now = Some m" "ti_listener s = Believed"
    and "ws \<notin> set (ti_owed s)" "ws \<notin> set (ti_heard s)"
  shows "ti_table s ws = Some m"
  using role_cache.served_current [OF assms(1,2), of ws now m] assms(3-6)
  by (simp add: role_cache_ops_def role_cache.settled_def)

section \<open>Nothing of the platform's\<close>

definition assignable_only :: "role_tables \<Rightarrow> bool" where
  "assignable_only db \<longleftrightarrow>
     list_all (\<lambda>r. \<exists>a \<in> set ALL_AUTHORITIES. ra_authority r = authority_text a \<and> workspace_assignable a) (rt_authorities db)"

lemma validate_authorities_assignable:
  "validate_authorities names parsed = Inr as \<Longrightarrow> list_all workspace_assignable parsed \<Longrightarrow> list_all workspace_assignable as"
  by (induction names parsed rule: validate_authorities.induct) (auto split: option.splits if_splits)

lemma validate_authorities_distinct:
  "validate_authorities names parsed = Inr as \<Longrightarrow> distinct parsed \<Longrightarrow> distinct as"
  by (induction names parsed rule: validate_authorities.induct) (auto split: option.splits if_splits)

lemma write_keeps_assignable:
  "assignable_only db \<Longrightarrow> list_all workspace_assignable as \<Longrightarrow> assignable_only (write_authorities ws i as db)"
  using ALL_AUTHORITIES_complete by (fastforce simp: assignable_only_def write_authorities_def list_all_iff)

lemma add_keeps_assignable:
  "assignable_only db \<Longrightarrow> list_all workspace_assignable as \<Longrightarrow> assignable_only (add_role ws i name d as db)"
  unfolding add_role_def by (rule write_keeps_assignable) (simp_all add: assignable_only_def)

lemma create_keeps_assignable: "assignable_only db \<Longrightarrow> assignable_only (fst (create ws i input db))"
  by (auto simp: create_def Let_def split: sum.splits intro: add_keeps_assignable dest!: validate_authorities_assignable)

lemma update_keeps_assignable:
  assumes "assignable_only db"
  shows "assignable_only (fst (update ws i input db))"
proof -
  have "assignable_only (renamed ws i name d db)" for name d using assms by (simp add: assignable_only_def renamed_def)
  then show ?thesis
    using assms
    by (auto simp: update_def validated_def Let_def split: sum.splits option.splits
        intro: write_keeps_assignable dest!: validate_authorities_assignable)
qed

lemma delete_row_keeps_assignable: "assignable_only db \<Longrightarrow> assignable_only (delete_row ws i db)"
  by (auto simp: assignable_only_def delete_row_def list_all_iff)

lemma usable_assignable: "list_all workspace_assignable (List.map_filter usable raws)"
  by (auto simp: list_all_iff in_map_filter usable_def split: option.splits if_splits)

lemma seed_all_keeps_assignable:
  "assignable_only db \<Longrightarrow> list_all (\<lambda>(_, _, as). list_all workspace_assignable as) ts \<Longrightarrow> assignable_only (seed_all ws ids ts db)"
  by (induction ws ids ts db rule: seed_all.induct) (auto intro: add_keeps_assignable)

lemma seed_keeps_assignable: "assignable_only db \<Longrightarrow> assignable_only (fst (seed_defaults ws fresh db))"
  by (auto simp: seed_defaults_def templates_def list_all_iff usable_assignable [unfolded list_all_iff]
      intro!: seed_all_keeps_assignable)

lemma assignable_rest [simp]:
  "assignable_only (db\<lparr>rt_grants := grants\<rparr>) = assignable_only db" "assignable_only (db\<lparr>rt_templates := ts\<rparr>) = assignable_only db"
  by (simp_all add: assignable_only_def)

text \<open>Everything that may happen to the tables; grants and templates are others' to write.\<close>

inductive roles_step :: "role_tables \<Rightarrow> role_tables \<Rightarrow> bool" where
  created: "roles_step db (fst (create ws i input db))"
| updated: "roles_step db (fst (update ws i input db))"
| deleted: "roles_step db (delete_row ws i db)"
| seeded: "roles_step db (fst (seed_defaults ws fresh db))"
| granted: "roles_step db (db\<lparr>rt_grants := grants\<rparr>)"
| templates_edited: "roles_step db (db\<lparr>rt_templates := ts\<rparr>)"

lemma roles_step_keeps: "roles_step db db' \<Longrightarrow> assignable_only db \<Longrightarrow> assignable_only db'"
  by (induction rule: roles_step.induct)
    (auto intro: create_keeps_assignable update_keeps_assignable delete_row_keeps_assignable seed_keeps_assignable)

interpretation roles: invariant_relation roles_step assignable_only
  by unfold_locales (rule roles_step_keeps)

lemma assignable_loaded:
  assumes "assignable_only db" "load_map db ws name = Some as" "a \<in> as"
  shows "workspace_assignable a"
proof -
  obtain i raw where "raw \<in> set (authorities_of db ws i)" "authority_parse raw = Some a"
    using assms(2,3) by (auto simp: load_map_def in_map_filter split: list.splits)
  moreover from this obtain b where "raw = authority_text b" "workspace_assignable b"
    using assms(1) by (auto simp: assignable_only_def authorities_of_def list_all_iff)
  ultimately show ?thesis using authority_text_inj by (auto simp: authority_parse_Some)
qed

text \<open>
  C14. A workspace's roles never grant what is the platform's: however its roles are created, edited, deleted
  and seeded, from templates edited in any way, the authorities the roles somebody names carry there are ones
  a workspace may assign.
\<close>

theorem workspace_roles_stay_assignable:
  assumes "roles_step\<^sup>*\<^sup>* db0 db" "rt_authorities db0 = []" "a \<in> authorities_for (load_map db ws) names"
  shows "workspace_assignable a"
proof -
  have "assignable_only db" using roles.reach_keeps [OF assms(1)] assms(2) by (simp add: assignable_only_def)
  then show ?thesis using assms(3) assignable_loaded by (fastforce simp: authorities_for_def in_map_filter)
qed

text \<open>
  A role is not deleted while somebody holds it -- unless they were given it after it was looked at, and then
  what they were given goes with it.
\<close>

lemma grant_lost_in_deletion:
  assumes "role_at db ws i = Some r" "holders_of db ws i = 0"
    and "meanwhile db = db\<lparr>rt_grants := \<lparr>gr_user = u, gr_workspace = ws, gr_role = i\<rparr> # rt_grants db\<rparr>"
  shows "snd (delete ws i meanwhile db) = Inr () \<and> holders_of (meanwhile db) ws i = 1 \<and>
    holders_of (fst (delete ws i meanwhile db)) ws i = 0"
proof -
  have r: "rr_workspace r = ws" "rr_id r = i" using assms(1) by (auto simp: role_at_def find_Some_iff)
  then show ?thesis using assms by (simp add: delete_def read_one_def shown_role_def delete_row_def holders_of_def)
qed

definition no_roles :: role_tables where
  "no_roles = \<lparr>rt_roles = [], rt_authorities = [], rt_grants = [], rt_templates = []\<rparr>"

definition reader :: create_role where
  "reader = \<lparr>mk_name = ''reader'', mk_description = [], mk_authorities = [''users:read'']\<rparr>"

lemma reader_created: "fst (create 1 7 reader no_roles) = add_role 1 7 ''reader'' [] [UsersRead] no_roles"
proof -
  have "authority_parse ''users:read'' = Some UsersRead" using authority_parse_Some [of "''users:read''" UsersRead] by simp
  moreover have "trim ''users:read'' = ''users:read''" "trim ''reader'' = ''reader''"
    by (simp_all add: graphic_def byte_val_def)
  moreover have "trim [] = []" by (rule trim_graphic) simp
  ultimately show ?thesis
    by (simp add: create_def reader_def validate_name_def is_platform_role_name_def role_parse_def no_roles_def name_taken_def
        role_at_def workspace_assignable_def Let_def)
qed

theorem workspace_roles_stay_assignable_witness:
  "UsersRead \<in> authorities_for (load_map (fst (create 1 7 reader no_roles)) 1) [''reader''] \<and> workspace_assignable UsersRead"
proof -
  have "authority_parse ''users:read'' = Some UsersRead" using authority_parse_Some [of "''users:read''" UsersRead] by simp
  then have granted: "UsersRead \<in> authorities_for (load_map (fst (create 1 7 reader no_roles)) 1) [''reader'']"
    unfolding reader_created
    by (simp add: authorities_for_def load_map_def add_role_def write_authorities_def no_roles_def
        authorities_of_def map_filter_def)
  have "roles_step\<^sup>*\<^sup>* no_roles (fst (create 1 7 reader no_roles))" by (rule r_into_rtranclp) (rule roles_step.created)
  from workspace_roles_stay_assignable [OF this _ granted] show ?thesis using granted by (simp add: no_roles_def)
qed

end
