(* ===== verification/Circuits.thy ===== *)
theory Circuits
  imports Breaker Sse
begin

text \<open>
  The circuit breaker as every gateway replica shares it, \<open>crates/gateway/src/breaker/mod.rs\<close>: the stored
  circuits and sightings, what a provider's error is evidence of, and the two operations the router calls.
  The tables may be out of reach for a whole operation, which is \<open>None\<close>; one statement of an operation
  failing where another succeeds is not modelled.
\<close>

section \<open>The tables\<close>

text \<open>\<open>failures\<close> is an \<open>integer\<close> column: a count past its range is stored as it wraps.\<close>

record circuit_row =
  ci_state :: circuit_state
  ci_failures :: int
  ci_probe_after :: "time option"
  ci_opened_at :: "time option"
  ci_last_error :: "string option"

record sighting_row =
  si_endpoint :: string
  si_workspace :: "uuid option"
  si_caller :: caller
  si_at :: time

record breaker_db =
  bd_circuits :: "string \<times> uuid option \<Rightarrow> circuit_row option"
  bd_sightings :: "sighting_row list"

definition scope_of :: "uuid option \<Rightarrow> circuit_scope" where
  "scope_of ws = (case ws of Some _ \<Rightarrow> WorkspaceScope | None \<Rightarrow> PlatformScope)"

definition wrap_i32 :: "nat \<Rightarrow> int" where
  "wrap_i32 n = (if n mod 2 ^ 32 < 2 ^ 31 then int (n mod 2 ^ 32) else int (n mod 2 ^ 32) - 2 ^ 32)"

text \<open>The sightings of a circuit that are still inside the window.\<close>

definition seen_lately :: "time \<Rightarrow> breaker_db \<Rightarrow> string \<Rightarrow> uuid option \<Rightarrow> sighting list" where
  "seen_lately now db endpoint ws =
     map (\<lambda>r. \<lparr>seen_caller = si_caller r, seen_at = si_at r\<rparr>)
       (filter (\<lambda>r. si_endpoint r = endpoint \<and> si_workspace r = ws \<and> now - BREADTH_WINDOW < si_at r) (bd_sightings db))"

definition load_circuit :: "time \<Rightarrow> breaker_db \<Rightarrow> string \<Rightarrow> uuid option \<Rightarrow> health" where
  "load_circuit now db endpoint ws =
     (let h = new_health (scope_of ws);
          h = (case bd_circuits db (endpoint, ws) of
              None \<Rightarrow> h
            | Some r \<Rightarrow> h\<lparr>state := ci_state r, failures := nat (max (ci_failures r) 0), probe_after := ci_probe_after r,
                opened_at := ci_opened_at r\<rparr>) in
      h\<lparr>sightings := seen_lately now db endpoint ws\<rparr>)"

definition store_circuit :: "string \<Rightarrow> uuid option \<Rightarrow> health \<Rightarrow> string option \<Rightarrow> breaker_db \<Rightarrow> breaker_db" where
  "store_circuit endpoint ws h detail db =
     db\<lparr>bd_circuits := (bd_circuits db)((endpoint, ws) \<mapsto>
       \<lparr>ci_state = state h, ci_failures = wrap_i32 (failures h), ci_probe_after = probe_after h, ci_opened_at = opened_at h,
        ci_last_error = detail\<rparr>)\<rparr>"

section \<open>What a provider's error is evidence of\<close>

definition observation_for :: "provider_error \<Rightarrow> observation" where
  "observation_for e =
     (case e of
        Unavailable \<Rightarrow> Unreachable
      | _ \<Rightarrow>
          if is_client_error e then NotEvidence
          else (case e of Upstream _ _ \<Rightarrow> Undetermined | Unreached _ \<Rightarrow> Undetermined | _ \<Rightarrow> NotEvidence))"

section \<open>Asking and telling\<close>

text \<open>One conditional update claims a probe, if one is due and nobody took it first.\<close>

definition claim :: "time \<Rightarrow> string \<Rightarrow> uuid option \<Rightarrow> breaker_db \<Rightarrow> bool \<times> breaker_db" where
  "claim now endpoint ws db =
     (case bd_circuits db (endpoint, ws) of
        None \<Rightarrow> (False, db)
      | Some r \<Rightarrow>
          (case ci_probe_after r of
             None \<Rightarrow> (False, db)
           | Some due \<Rightarrow>
               if due \<le> now
               then (True, db\<lparr>bd_circuits := (bd_circuits db)((endpoint, ws) \<mapsto>
                 r\<lparr>ci_state := HalfOpen, ci_probe_after := Some (now + PROBE_LEASE)\<rparr>)\<rparr>)
               else (False, db)))"

definition check_circuit :: "time \<Rightarrow> string \<Rightarrow> uuid option \<Rightarrow> breaker_db option \<Rightarrow> bool \<times> breaker_db option" where
  "check_circuit now endpoint ws tables =
     (case tables of
        None \<Rightarrow> (True, None)
      | Some db \<Rightarrow>
          (case check (load_circuit now db endpoint ws) now of
             Allow \<Rightarrow> (True, Some db)
           | Reject \<Rightarrow> (False, Some db)
           | Probe \<Rightarrow> (case claim now endpoint ws db of (won, db') \<Rightarrow> (won, Some db'))))"

definition observe_circuit :: "time \<Rightarrow> string \<Rightarrow> uuid option \<Rightarrow> observation \<Rightarrow> caller \<Rightarrow> string option \<Rightarrow> breaker_db option \<Rightarrow> breaker_db option" where
  "observe_circuit now endpoint ws obs c detail tables =
     (case tables of
        None \<Rightarrow> None
      | Some db \<Rightarrow>
          if obs = NotEvidence then Some db
          else
            (let db1 = (if obs = Undetermined
                 then db\<lparr>bd_sightings := bd_sightings db @ [\<lparr>si_endpoint = endpoint, si_workspace = ws, si_caller = c, si_at = now\<rparr>]\<rparr>
                 else db);
                 next_health = record_observation (load_circuit now db1 endpoint ws) obs c now in
             Some (store_circuit endpoint ws next_health detail db1)))"

section \<open>What the store keeps of the policy\<close>

text \<open>Two circuits are told apart; what is learnt of one is nothing of another.\<close>

lemma observe_elsewhere:
  assumes "(endpoint, ws) \<noteq> (endpoint', ws')" "observe_circuit now endpoint ws obs c detail (Some db) = Some db'"
  shows "bd_circuits db' (endpoint', ws') = bd_circuits db (endpoint', ws') \<and> seen_lately t db' endpoint' ws' = seen_lately t db endpoint' ws'"
  using assms by (auto simp: observe_circuit_def store_circuit_def seen_lately_def Let_def split: if_splits)

lemma claim_elsewhere:
  assumes "(endpoint, ws) \<noteq> (endpoint', ws')"
  shows "bd_circuits (snd (claim now endpoint ws db)) (endpoint', ws') = bd_circuits db (endpoint', ws')"
  using assms by (auto simp: claim_def split: option.split)

lemma wrap_i32_small: "n < 2 ^ 31 \<Longrightarrow> wrap_i32 n = int n"
  by (simp add: wrap_i32_def)

text \<open>A failed claim is somebody else's probe: of two at once, one goes out.\<close>

lemma claimed_once:
  assumes "claim now endpoint ws db = (True, db')" "t < now + PROBE_LEASE"
  shows "fst (claim t endpoint ws db') = False"
proof -
  obtain r due where "bd_circuits db (endpoint, ws) = Some r" "ci_probe_after r = Some due" "due \<le> now"
    "db' = db\<lparr>bd_circuits := (bd_circuits db)((endpoint, ws) \<mapsto> r\<lparr>ci_state := HalfOpen, ci_probe_after := Some (now + PROBE_LEASE)\<rparr>)\<rparr>"
    using assms(1) by (auto simp: claim_def split: option.splits if_splits)
  then show ?thesis using assms(2) by (simp add: claim_def)
qed

lemma one_probe_at_once:
  assumes "check_circuit now endpoint ws (Some db) = (True, Some db')" "check (load_circuit now db endpoint ws) now = Probe"
    and "now \<le> t" "t < now + PROBE_LEASE"
  shows "fst (check_circuit t endpoint ws (Some db')) = False"
proof -
  have claimed: "claim now endpoint ws db = (True, db')" using assms(1,2) by (auto simp: check_circuit_def split: prod.splits)
  then obtain r due where "bd_circuits db (endpoint, ws) = Some r" "ci_probe_after r = Some due" "due \<le> now"
    "db' = db\<lparr>bd_circuits := (bd_circuits db)((endpoint, ws) \<mapsto> r\<lparr>ci_state := HalfOpen, ci_probe_after := Some (now + PROBE_LEASE)\<rparr>)\<rparr>"
    by (auto simp: claim_def split: option.splits if_splits)
  then have "check (load_circuit t db' endpoint ws) t = Reject"
    using assms(4) by (simp add: load_circuit_def new_health_def check_def)
  then show ?thesis by (simp add: check_circuit_def)
qed

section \<open>The store refines the policy\<close>

definition same_circuit :: "health \<Rightarrow> health \<Rightarrow> bool" where
  "same_circuit h h' \<longleftrightarrow> state h = state h' \<and> scope h = scope h' \<and> failures h = failures h' \<and>
     probe_after h = probe_after h' \<and> opened_at h = opened_at h'"

abbreviation callers :: "health \<Rightarrow> caller set" where
  "callers h \<equiv> seen_caller ` set (sightings h)"

lemma in_window: "elapsed now at BREADTH_WINDOW < BREADTH_WINDOW \<longleftrightarrow> now - BREADTH_WINDOW < at"
  by (auto simp: elapsed_def breaker_constants)

lemma loaded_in_window:
  "filter (\<lambda>s. elapsed now (seen_at s) BREADTH_WINDOW < BREADTH_WINDOW) (sightings (load_circuit now db ep ws)) =
     sightings (load_circuit now db ep ws)"
  by (auto simp: load_circuit_def seen_lately_def in_window Let_def filter_id_conv)

lemma load_store:
  assumes "failures h < 2 ^ 31" "scope h = scope_of ws"
  shows "same_circuit (load_circuit t (store_circuit ep ws h detail db) ep ws) h"
  using assms by (simp add: same_circuit_def load_circuit_def store_circuit_def new_health_def wrap_i32_small Let_def)

lemma sightings_store [simp]: "sightings (load_circuit t (store_circuit ep ws h detail db) ep ws) = seen_lately t db ep ws"
  by (simp add: load_circuit_def store_circuit_def seen_lately_def Let_def)

lemma scope_load [simp]: "scope (load_circuit now db ep ws) = scope_of ws"
  by (auto simp: load_circuit_def new_health_def Let_def split: option.split)

lemma scope_record [simp]: "scope (record_observation h obs c now) = scope h"
  by (auto simp: record_observation_def record_unreachable_def record_undetermined_def Let_def split: observation.split)

lemma failures_record: "failures (record_observation h obs c now) \<le> Suc (failures h)"
  by (auto simp: record_observation_def record_unreachable_def record_undetermined_def saturating_succ_u32_def Let_def
      split: observation.split)

lemma sightings_load [simp]: "sightings (load_circuit t db ep ws) = seen_lately t db ep ws"
  by (simp add: load_circuit_def Let_def)

lemma seen_lately_store [simp]: "seen_lately t (store_circuit ep' ws' h detail db) ep ws = seen_lately t db ep ws"
  by (simp add: store_circuit_def seen_lately_def)

definition sighted :: "string \<Rightarrow> uuid option \<Rightarrow> caller \<Rightarrow> time \<Rightarrow> breaker_db \<Rightarrow> breaker_db" where
  "sighted ep ws c now db =
     db\<lparr>bd_sightings := bd_sightings db @ [\<lparr>si_endpoint = ep, si_workspace = ws, si_caller = c, si_at = now\<rparr>]\<rparr>"

lemma seen_lately_sighted: "seen_lately now (sighted ep ws c now db) ep ws = seen_lately now db ep ws @ [\<lparr>seen_caller = c, seen_at = now\<rparr>]"
  by (simp add: sighted_def seen_lately_def breaker_constants)

lemma load_sighted:
  "load_circuit now (sighted ep ws c now db) ep ws =
     (load_circuit now db ep ws)\<lparr>sightings := sightings (load_circuit now db ep ws) @ [\<lparr>seen_caller = c, seen_at = now\<rparr>]\<rparr>"
  by (simp add: load_circuit_def sighted_def seen_lately_def Let_def breaker_constants)

text \<open>The sighting is there when the policy adds it again, which changes nothing it decides.\<close>

lemma undetermined_twice:
  assumes "\<forall>s \<in> set (sightings h). elapsed now (seen_at s) BREADTH_WINDOW < BREADTH_WINDOW"
  shows "same_circuit (record_observation (h\<lparr>sightings := sightings h @ [\<lparr>seen_caller = c, seen_at = now\<rparr>]\<rparr>) Undetermined c now)
    (record_observation h Undetermined c now)"
proof -
  have "elapsed now now BREADTH_WINDOW < BREADTH_WINDOW" by (simp only: in_window) (simp add: breaker_constants)
  moreover have "filter (\<lambda>s. elapsed now (seen_at s) BREADTH_WINDOW < BREADTH_WINDOW) (sightings h) = sightings h"
    using assms by (simp add: filter_id_conv)
  ultimately show ?thesis
    by (simp add: record_observation_def record_undetermined_def same_circuit_def Let_def insert_commute)
qed

lemma store_refines:
  assumes "observe_circuit now ep ws obs c detail (Some db) = Some db'" "failures (load_circuit now db ep ws) < 2 ^ 31 - 1"
    and "obs \<noteq> NotEvidence"
  shows "same_circuit (load_circuit t db' ep ws) (record_observation (load_circuit now db ep ws) obs c now)"
proof -
  let ?h = "load_circuit now db ep ws"
  let ?db1 = "if obs = Undetermined then sighted ep ws c now db else db"
  let ?next = "record_observation (load_circuit now ?db1 ep ws) obs c now"
  have db': "db' = store_circuit ep ws ?next detail ?db1"
    using assms(1,3) by (auto simp: observe_circuit_def sighted_def Let_def)
  have "failures (load_circuit now ?db1 ep ws) = failures ?h" by (simp add: load_sighted)
  then have "failures ?next < 2 ^ 31" using failures_record [of "load_circuit now ?db1 ep ws" obs c now] assms(2) by simp
  moreover have "scope ?next = scope_of ws" by simp
  ultimately have stored: "same_circuit (load_circuit t db' ep ws) ?next" unfolding db' by (rule load_store)
  have "same_circuit ?next (record_observation ?h obs c now)"
  proof (cases "obs = Undetermined")
    case True
    have "\<forall>s \<in> set (sightings ?h). elapsed now (seen_at s) BREADTH_WINDOW < BREADTH_WINDOW"
      using loaded_in_window [of now db ep ws] by (simp add: filter_id_conv)
    then show ?thesis using True undetermined_twice [of ?h now c] by (simp add: load_sighted)
  qed (simp add: same_circuit_def)
  then show ?thesis using stored by (simp add: same_circuit_def)
qed

lemma callers_kept:
  assumes "observe_circuit now ep ws obs c detail (Some db) = Some db'" "obs \<notin> {NotEvidence, Success}"
  shows "callers (load_circuit now db' ep ws) = callers (record_observation (load_circuit now db ep ws) obs c now)"
proof (cases "obs = Undetermined")
  case True
  have now: "elapsed now now BREADTH_WINDOW < BREADTH_WINDOW" by (simp only: in_window) (simp add: breaker_constants)
  have "callers (load_circuit now db' ep ws) = insert c (callers (load_circuit now db ep ws))"
    using assms(1) True by (auto simp: observe_circuit_def sighted_def [symmetric] Let_def seen_lately_sighted)
  moreover have "callers (record_observation (load_circuit now db ep ws) obs c now) = insert c (callers (load_circuit now db ep ws))"
    using True loaded_in_window [of now db ep ws] by (simp add: record_observation_def record_undetermined_def Let_def)
  ultimately show ?thesis by simp
next
  case False
  then have "callers (record_observation (load_circuit now db ep ws) obs c now) = callers (load_circuit now db ep ws)"
    using assms(2) loaded_in_window [of now db ep ws]
    by (cases obs) (simp_all add: record_observation_def record_unreachable_def Let_def)
  moreover have "sightings (load_circuit now db' ep ws) = sightings (load_circuit now db ep ws)"
    using assms False by (auto simp: observe_circuit_def Let_def)
  ultimately show ?thesis by simp
qed

text \<open>
  C16. The circuits every replica shares are the policy's: after any observation, what any replica loads of the
  circuit is what the policy makes of what was loaded before -- its state, its count, when it may be probed --
  and, but for a success, the callers counted against it are the ones the policy counts.
\<close>

theorem circuits_follow_the_policy:
  assumes "observe_circuit now ep ws obs c detail (Some db) = Some db'" "obs \<noteq> NotEvidence"
    and "failures (load_circuit now db ep ws) < 2 ^ 31 - 1"
  shows "same_circuit (load_circuit t db' ep ws) (record_observation (load_circuit now db ep ws) obs c now) \<and>
    (obs \<noteq> Success \<longrightarrow>
       callers (load_circuit now db' ep ws) = callers (record_observation (load_circuit now db ep ws) obs c now))"
  using store_refines [OF assms(1,3,2)] callers_kept [OF assms(1)] assms(2) by simp

definition quiet_db :: breaker_db where
  "quiet_db = \<lparr>bd_circuits = (\<lambda>_. None), bd_sightings = []\<rparr>"

definition somebody :: "uuid \<Rightarrow> caller" where
  "somebody u = \<lparr>caller_workspace = u, caller_session = u\<rparr>"

theorem circuits_follow_the_policy_witness:
  "\<exists>db'. observe_circuit 0 ''openai:x'' None Unreachable (somebody 1) None (Some quiet_db) = Some db' \<and>
     failures (load_circuit 5 db' ''openai:x'' None) = 1"
proof -
  obtain db' where db': "observe_circuit 0 ''openai:x'' None Unreachable (somebody 1) None (Some quiet_db) = Some db'"
    by (simp add: observe_circuit_def Let_def)
  have "failures (load_circuit 0 quiet_db ''openai:x'' None) = 0" by (simp add: load_circuit_def quiet_db_def new_health_def)
  moreover from this have "failures (record_observation (load_circuit 0 quiet_db ''openai:x'' None) Unreachable (somebody 1) 0) = 1"
    by (simp add: record_observation_def record_unreachable_def saturating_succ_u32_def breaker_constants
        load_circuit_def quiet_db_def new_health_def)
  ultimately show ?thesis
    using circuits_follow_the_policy [OF db', of 5] db' by (simp add: same_circuit_def)
qed

section \<open>Evidence that is not spent\<close>

text \<open>
  A success ends an outage and spends what was gathered in it; the policy's record forgets the sightings.
  The table keeps them, so one caller's failure just after a recovery opens the circuit again on the callers
  of the outage that ended.
\<close>

definition recovered_db :: breaker_db where
  "recovered_db = \<lparr>bd_circuits = (\<lambda>_. None),
     bd_sightings = [\<lparr>si_endpoint = ''e'', si_workspace = None, si_caller = somebody 1, si_at = 0\<rparr>,
       \<lparr>si_endpoint = ''e'', si_workspace = None, si_caller = somebody 2, si_at = 0\<rparr>]\<rparr>"

definition after_recovery :: "breaker_db option" where
  "after_recovery =
     observe_circuit 2 ''e'' None Undetermined (somebody 3) None
       (observe_circuit 1 ''e'' None Success (somebody 3) None (Some recovered_db))"

lemma evidence_outlives_success:
  "map_option (\<lambda>db. state (load_circuit 2 db ''e'' None)) after_recovery = Some Open"
  "state (record_observation (record_observation (load_circuit 1 recovered_db ''e'' None) Success (somebody 3) 1)
     Undetermined (somebody 3) 2) = Closed"
  by (simp_all add: after_recovery_def observe_circuit_def recovered_db_def load_circuit_def store_circuit_def seen_lately_def
      new_health_def record_observation_def record_undetermined_def scope_of_def somebody_def Let_def breaker_constants elapsed_def
      card_insert_if del: set_filter)

end
