(* ===== verification/Chains.thy ===== *)
theory Chains
  imports Llm
begin

text \<open>
  Which models a class of traffic walks, \<open>crates/core/src/chains.rs\<close>, and the settings each is asked with,
  \<open>crates/core/src/model_settings.rs\<close>. The tables are lists of rows; a query is the rows it selects, in its
  order. Reading a number as an \<open>f32\<close> is an argument.
\<close>

section \<open>Chains\<close>

record link =
  lk_model_id :: uuid
  lk_model :: string
  lk_facts :: model_facts
  lk_account :: uuid
  lk_protocol :: string
  lk_base_url :: string
  lk_credential_env :: "string option"
  lk_credential_id :: "uuid option"
  lk_previous :: "(string \<times> model_facts) option"
  lk_changed_at :: "time option"

definition for_turn_begun :: "time option \<Rightarrow> link \<Rightarrow> link" where
  "for_turn_begun began l =
     (case (began, lk_changed_at l, lk_previous l) of
        (Some began, Some changed, Some (model, facts)) \<Rightarrow>
          if began < changed then l\<lparr>lk_model := model, lk_facts := facts, lk_previous := None\<rparr> else l
      | _ \<Rightarrow> l)"

definition DEFAULT_TRAFFIC_TYPE :: string where "DEFAULT_TRAFFIC_TYPE = ''assistant''"
definition BACKGROUND_TRAFFIC_TYPE :: string where "BACKGROUND_TRAFFIC_TYPE = ''background''"
definition SESSION_NAME_TRAFFIC_TYPE :: string where "SESSION_NAME_TRAFFIC_TYPE = ''session-name''"

lemmas traffic_defs = DEFAULT_TRAFFIC_TYPE_def BACKGROUND_TRAFFIC_TYPE_def SESSION_NAME_TRAFFIC_TYPE_def

definition borrows_from :: "string \<Rightarrow> string option" where
  "borrows_from traffic =
     (if traffic = BACKGROUND_TRAFFIC_TYPE \<or> traffic = SESSION_NAME_TRAFFIC_TYPE then Some DEFAULT_TRAFFIC_TYPE else None)"

record assignment_row =
  as_workspace :: "uuid option"
  as_traffic :: string
  as_chain :: uuid

record chain_link_row =
  cl_chain :: uuid
  cl_model :: uuid
  cl_position :: int

record model_row =
  mr_id :: uuid
  mr_model :: string
  mr_facts :: "json option"
  mr_overrides :: json
  mr_previous_model :: "string option"
  mr_previous_facts :: "json option"
  mr_changed_at :: "time option"
  mr_account :: uuid

record account_row =
  ac_id :: uuid
  ac_protocol :: string
  ac_base_url :: string
  ac_credential_env :: "string option"
  ac_credential_id :: "uuid option"

record chain_tables =
  ch_assignments :: "assignment_row list"
  ch_links :: "chain_link_row list"
  ch_models :: "model_row list"
  ch_accounts :: "account_row list"

definition link_of :: "model_row \<Rightarrow> account_row \<Rightarrow> link" where
  "link_of m a =
     \<lparr>lk_model_id = mr_id m, lk_model = mr_model m, lk_facts = facts_of (mr_facts m) (Some (mr_overrides m)),
      lk_account = ac_id a, lk_protocol = ac_protocol a, lk_base_url = ac_base_url a,
      lk_credential_env = ac_credential_env a, lk_credential_id = ac_credential_id a,
      lk_previous = map_option (\<lambda>model. (model, facts_of (mr_previous_facts m) (Some (mr_overrides m)))) (mr_previous_model m),
      lk_changed_at = mr_changed_at m\<rparr>"

text \<open>Whose chain it is: the workspace's own where it has one for this class, else the platform's.\<close>

definition owner_of :: "chain_tables \<Rightarrow> uuid \<Rightarrow> string \<Rightarrow> uuid option" where
  "owner_of db ws traffic =
     (if list_ex (\<lambda>c. as_workspace c = Some ws \<and> as_traffic c = traffic) (ch_assignments db) then Some ws else None)"

definition links_of :: "chain_tables \<Rightarrow> uuid \<Rightarrow> string \<Rightarrow> link list" where
  "links_of db ws traffic =
     map snd (sort_key fst
       [(cl_position l, link_of m a).
          c \<leftarrow> ch_assignments db, as_traffic c = traffic \<and> as_workspace c = owner_of db ws traffic,
          l \<leftarrow> ch_links db, cl_chain l = as_chain c,
          m \<leftarrow> ch_models db, mr_id m = cl_model l,
          a \<leftarrow> ch_accounts db, ac_id a = mr_account m])"

definition links_for :: "chain_tables \<Rightarrow> uuid \<Rightarrow> string \<Rightarrow> link list" where
  "links_for db ws traffic =
     (let links = links_of db ws traffic in
      (case borrows_from traffic of
         Some parent \<Rightarrow> if links = [] then links_of db ws parent else links
       | None \<Rightarrow> links))"

section \<open>Settings that belong to a model\<close>

definition PER_MODEL :: "string list" where
  "PER_MODEL = [''temperature'', ''reasoning_effort'', ''context_budget'']"

definition PLATFORM_WORKSPACE :: uuid where "PLATFORM_WORKSPACE = 1"
definition DEFAULT_REASONING_EFFORT :: string where "DEFAULT_REASONING_EFFORT = ''low''"
definition DEFAULT_CONTEXT_BUDGET :: nat where "DEFAULT_CONTEXT_BUDGET = 400000"
definition BYTES_PER_WINDOW_TOKEN :: nat where "BYTES_PER_WINDOW_TOKEN = 2"
definition REPEAT_PROMPT :: string where "REPEAT_PROMPT = ''none_repeat_prompt''"

definition largest_budget :: "model_facts \<Rightarrow> nat option" where
  "largest_budget facts = map_option (\<lambda>tokens. unat tokens * BYTES_PER_WINDOW_TOKEN) (mf_context_window facts)"

definition default_budget :: "model_facts \<Rightarrow> nat" where
  "default_budget facts = (case largest_budget facts of None \<Rightarrow> DEFAULT_CONTEXT_BUDGET | Some most \<Rightarrow> min most DEFAULT_CONTEXT_BUDGET)"

record model_settings =
  ms_temperature :: "32 word option"
  ms_effort :: string
  ms_repeat_prompt :: bool
  ms_budget :: nat

definition valid_effort :: "model_facts \<Rightarrow> json \<Rightarrow> bool" where
  "valid_effort facts v =
     (case as_str v of
        Some level \<Rightarrow> level = ''none'' \<or> level = REPEAT_PROMPT \<or> mf_efforts facts = [] \<or> level \<in> set (mf_efforts facts)
      | None \<Rightarrow> False)"

definition valid_budget :: "model_facts \<Rightarrow> json \<Rightarrow> bool" where
  "valid_budget facts v =
     (case (as_u64 v, largest_budget facts) of
        (Some bytes, Some most) \<Rightarrow> bytes \<le> most
      | (Some _, None) \<Rightarrow> True
      | _ \<Rightarrow> False)"

definition valid_for :: "string \<Rightarrow> json \<Rightarrow> model_facts \<Rightarrow> bool" where
  "valid_for key v facts =
     (if key = ''temperature'' then is_null v \<or> mf_sampling facts
      else if key = ''reasoning_effort'' then valid_effort facts v
      else if key = ''context_budget'' then valid_budget facts v
      else True)"

definition EFFORT_ORDER :: "string list" where
  "EFFORT_ORDER = [''low'', ''medium'', ''high'', ''xhigh'', ''max'']"

fun position_in :: "string list \<Rightarrow> string \<Rightarrow> nat option" where
  "position_in [] level = None"
| "position_in (l # ls) level = (if l = level then Some 0 else map_option Suc (position_in ls level))"

definition distance :: "nat \<Rightarrow> nat \<Rightarrow> nat" where
  "distance i j = (if i \<le> j then j - i else i - j)"

text \<open>The first of the least: what \<open>min_by_key\<close> answers.\<close>

fun min_first :: "('a \<Rightarrow> nat \<times> nat) \<Rightarrow> 'a list \<Rightarrow> 'a option" where
  "min_first f [] = None"
| "min_first f (x # xs) =
     (case min_first f xs of
        None \<Rightarrow> Some x
      | Some y \<Rightarrow> if fst (f y) < fst (f x) \<or> (fst (f y) = fst (f x) \<and> snd (f y) < snd (f x)) then Some y else Some x)"

definition adjust_effort :: "json \<Rightarrow> model_facts \<Rightarrow> json" where
  "adjust_effort v facts =
     (let asked = or_else (Option.bind (as_str v) (position_in EFFORT_ORDER)) 0;
          known = List.map_filter (\<lambda>e. map_option (\<lambda>i. (i, e)) (position_in EFFORT_ORDER e)) (mf_efforts facts) in
      (case min_first (\<lambda>(i, e). (distance i asked, i)) known of
         None \<Rightarrow> JStr ''none''
       | Some (i, e) \<Rightarrow> JStr e))"

definition adjust :: "string \<Rightarrow> json \<Rightarrow> model_facts \<Rightarrow> json" where
  "adjust key v facts =
     (if key = ''temperature'' then JNull
      else if key = ''reasoning_effort'' then adjust_effort v facts
      else if key = ''context_budget'' then (case largest_budget facts of None \<Rightarrow> v | Some most \<Rightarrow> JNum (PosInt most))
      else v)"

text \<open>A row as the query ranks it, and the query's ranking: nearer is less, and a model's own beats every model's.\<close>

type_synonym ranked = "string \<times> json \<times> int"

record override_row =
  or_workspace :: uuid
  or_agent :: uuid
  or_model :: uuid
  or_key :: string
  or_value :: json

definition rank_of :: "override_row \<Rightarrow> int" where
  "rank_of r =
     (if or_workspace r = PLATFORM_WORKSPACE \<and> or_agent r = 0 then 4 else if or_agent r = 0 then 2 else 0) +
     (if or_model r = 0 then 1 else 0)"

definition settings_rows :: "override_row list \<Rightarrow> uuid \<Rightarrow> uuid option \<Rightarrow> uuid option \<Rightarrow> ranked list" where
  "settings_rows rows ws agent model =
     (let agent = or_else agent 0; model = or_else model 0 in
      map (\<lambda>r. (or_key r, or_value r, rank_of r))
        (filter (\<lambda>r. or_key r \<in> set PER_MODEL \<and> (or_model r = 0 \<or> or_model r = model) \<and>
            ((or_workspace r = PLATFORM_WORKSPACE \<and> or_agent r = 0) \<or> (or_workspace r = ws \<and> or_agent r = 0) \<or>
             (or_workspace r = ws \<and> or_agent r = agent))) rows))"

definition found_values :: "ranked list \<Rightarrow> string \<Rightarrow> json list" where
  "found_values rows key = map (\<lambda>(k, v, rank). v) (sort_key (\<lambda>(k, v, rank). rank) (filter (\<lambda>(k, v, rank). k = key) rows))"

definition pick :: "ranked list \<Rightarrow> json option \<Rightarrow> model_facts \<Rightarrow> string \<Rightarrow> json option" where
  "pick rows fixed facts key =
     (case Option.bind fixed (\<lambda>f. json_get f key) of
        Some v \<Rightarrow> if valid_for key v facts then Some v else find (\<lambda>v. valid_for key v facts) (found_values rows key)
      | None \<Rightarrow> find (\<lambda>v. valid_for key v facts) (found_values rows key))"

definition cascade :: "(json \<Rightarrow> 32 word option) \<Rightarrow> ranked list \<Rightarrow> json option \<Rightarrow> model_facts \<Rightarrow> model_settings" where
  "cascade to_float rows fixed facts =
     (let effort = or_else (Option.bind (pick rows fixed facts ''reasoning_effort'') as_str) DEFAULT_REASONING_EFFORT in
      \<lparr>ms_temperature = Option.bind (pick rows fixed facts ''temperature'') to_float,
       ms_effort = (if effort = REPEAT_PROMPT then ''none'' else effort),
       ms_repeat_prompt = (effort = REPEAT_PROMPT),
       ms_budget = or_else (Option.bind (pick rows fixed facts ''context_budget'') as_u64) (default_budget facts)\<rparr>)"

definition resolve_settings :: "(json \<Rightarrow> 32 word option) \<Rightarrow> override_row list \<Rightarrow> (uuid \<Rightarrow> json option) \<Rightarrow> uuid \<Rightarrow> uuid option \<Rightarrow>
    uuid option \<Rightarrow> model_facts \<Rightarrow> model_settings" where
  "resolve_settings to_float rows template_settings ws agent model facts =
     cascade to_float (settings_rows rows ws agent model) (Option.bind agent template_settings) facts"

section \<open>What they promise\<close>

lemma pick_valid: "pick rows fixed facts key = Some v \<Longrightarrow> valid_for key v facts"
  by (auto simp: pick_def split: option.splits if_splits dest: find_SomeD)

lemma budget_fits:
  assumes "largest_budget facts = Some most"
  shows "ms_budget (cascade to_float rows fixed facts) \<le> most"
proof (cases "Option.bind (pick rows fixed facts ''context_budget'') as_u64")
  case None
  then show ?thesis using assms by (simp add: cascade_def Let_def default_budget_def)
next
  case (Some bytes)
  then obtain v where "pick rows fixed facts ''context_budget'' = Some v" "as_u64 v = Some bytes" by (auto simp: bind_eq_Some_conv)
  then have "valid_budget facts v" using pick_valid [of rows fixed facts "''context_budget''" v] by (simp add: valid_for_def)
  then show ?thesis using Some assms \<open>as_u64 v = Some bytes\<close> by (simp add: cascade_def Let_def valid_budget_def)
qed

lemma effort_taken:
  "ms_effort (cascade to_float rows fixed facts) \<in> {''none'', DEFAULT_REASONING_EFFORT} \<union> set (mf_efforts facts) \<or> mf_efforts facts = []"
proof (cases "Option.bind (pick rows fixed facts ''reasoning_effort'') as_str")
  case None
  then show ?thesis by (simp add: cascade_def Let_def DEFAULT_REASONING_EFFORT_def REPEAT_PROMPT_def)
next
  case (Some level)
  then obtain v where "pick rows fixed facts ''reasoning_effort'' = Some v" "as_str v = Some level" by (auto simp: bind_eq_Some_conv)
  then have "valid_effort facts v" using pick_valid [of rows fixed facts "''reasoning_effort''" v] by (simp add: valid_for_def)
  then show ?thesis using Some \<open>as_str v = Some level\<close> by (auto simp: cascade_def Let_def valid_effort_def)
qed

lemma temperature_taken:
  assumes "\<not> mf_sampling facts" "to_float JNull = None"
  shows "ms_temperature (cascade to_float rows fixed facts) = None"
proof (cases "pick rows fixed facts ''temperature''")
  case None
  then show ?thesis by (simp add: cascade_def Let_def)
next
  case (Some v)
  then have "is_null v" using pick_valid [OF Some] assms(1) by (simp add: valid_for_def)
  then show ?thesis using Some assms(2) by (cases v) (simp_all add: cascade_def Let_def)
qed

text \<open>What is resolved fits the model, whatever is set at any level and whatever a template fixes.\<close>

definition effort_offered :: "model_facts \<Rightarrow> string \<Rightarrow> bool" where
  "effort_offered facts level \<longleftrightarrow>
     level \<in> {''none'', DEFAULT_REASONING_EFFORT} \<union> set (mf_efforts facts) \<or> mf_efforts facts = []"

lemma settings_fit:
  assumes "to_float JNull = None"
  shows "(case mf_context_window facts of Some tokens \<Rightarrow>
            ms_budget (resolve_settings to_float rows ts ws agent model facts) \<le> 2 * unat tokens | None \<Rightarrow> True) \<and>
    effort_offered facts (ms_effort (resolve_settings to_float rows ts ws agent model facts)) \<and>
    (mf_sampling facts \<or> ms_temperature (resolve_settings to_float rows ts ws agent model facts) = None)"
proof -
  let ?s = "resolve_settings to_float rows ts ws agent model facts"
  have "ms_budget ?s \<le> 2 * unat tokens" if "mf_context_window facts = Some tokens" for tokens
    unfolding resolve_settings_def
    by (rule budget_fits) (simp add: largest_budget_def that BYTES_PER_WINDOW_TOKEN_def mult.commute)
  moreover have "mf_sampling facts \<or> ms_temperature ?s = None"
    unfolding resolve_settings_def by (cases "mf_sampling facts") (simp_all add: temperature_taken assms)
  ultimately show ?thesis using effort_taken unfolding resolve_settings_def effort_offered_def by (simp split: option.split)
qed

text \<open>What is nearer is chosen: no valid value of a lesser rank is passed over.\<close>

lemma sorted_find_least:
  "sorted (map f xs) \<Longrightarrow> find P xs = Some x \<Longrightarrow> y \<in> set xs \<Longrightarrow> P y \<Longrightarrow> f x \<le> f y"
  by (induction xs) (auto split: if_splits)

lemma find_map: "find P (map f xs) = map_option f (find (P \<circ> f) xs)"
  by (induction xs) auto

lemma nearest_chosen:
  assumes "Option.bind fixed (\<lambda>f. json_get f key) = None" "(key, v, rank) \<in> set rows" "valid_for key v facts"
  shows "\<exists>w r. pick rows fixed facts key = Some w \<and> (key, w, r) \<in> set rows \<and> r \<le> rank \<and> valid_for key w facts"
proof -
  let ?mine = "sort_key (\<lambda>(k, v, rank). rank) (filter (\<lambda>(k, v, rank). k = key) rows)"
  let ?P = "(\<lambda>v. valid_for key v facts) \<circ> (\<lambda>(k, v, rank). v)"
  have mem: "(key, v, rank) \<in> set ?mine" using assms(2) by simp
  then obtain y where y: "find ?P ?mine = Some y" using assms(3) by (cases "find ?P ?mine") (auto simp: find_None_iff)
  obtain k w r where kwr: "y = (k, w, r)" by (cases y)
  have "y \<in> set ?mine" "?P y" using find_SomeD [OF y] by blast+
  then have "k = key" "(key, w, r) \<in> set rows" "valid_for key w facts" by (auto simp: kwr)
  moreover have "r \<le> rank"
    using sorted_find_least [of "\<lambda>(k, v, rank). rank" ?mine ?P y "(key, v, rank)"] y mem assms(3) kwr by simp
  moreover have "pick rows fixed facts key = Some w" using assms(1) y by (simp add: pick_def found_values_def find_map kwr)
  ultimately show ?thesis by blast
qed

text \<open>A model moved to another version, as of an instant.\<close>

definition moved :: "string \<Rightarrow> model_facts \<Rightarrow> time \<Rightarrow> link \<Rightarrow> link" where
  "moved model facts now l =
     l\<lparr>lk_previous := Some (lk_model l, lk_facts l), lk_model := model, lk_facts := facts, lk_changed_at := Some now\<rparr>"

lemma turn_keeps_its_version:
  assumes "began < now" "lk_changed_at l = None \<or> (\<exists>c. lk_changed_at l = Some c \<and> c \<le> began)"
  shows "lk_model (for_turn_begun (Some began) (moved model facts now l)) = lk_model (for_turn_begun (Some began) l) \<and>
    lk_facts (for_turn_begun (Some began) (moved model facts now l)) = lk_facts (for_turn_begun (Some began) l)"
  using assms by (auto simp: for_turn_begun_def moved_def split: option.splits)

text \<open>Two moves inside one turn are one too many: the version it began on is no longer kept.\<close>

lemma two_moves_lose_it:
  assumes "began < t1" "began < t2" "m1 \<noteq> lk_model l" "lk_changed_at l = None"
  shows "lk_model (for_turn_begun (Some began) (moved m2 f2 t2 (moved m1 f1 t1 l))) \<noteq> lk_model (for_turn_begun (Some began) l)"
  using assms by (simp add: for_turn_begun_def moved_def)

text \<open>A workspace's own chain is walked and no other.\<close>

lemma own_chain_only:
  assumes "\<exists>c \<in> set (ch_assignments db). as_workspace c = Some ws \<and> as_traffic c = traffic" "l \<in> set (links_of db ws traffic)"
  shows "\<exists>c \<in> set (ch_assignments db). \<exists>r \<in> set (ch_links db). \<exists>m \<in> set (ch_models db). \<exists>a \<in> set (ch_accounts db).
    as_workspace c = Some ws \<and> as_traffic c = traffic \<and> cl_chain r = as_chain c \<and> mr_id m = cl_model r \<and>
    ac_id a = mr_account m \<and> l = link_of m a"
proof -
  have "owner_of db ws traffic = Some ws" using assms(1) by (auto simp: owner_of_def list_ex_iff)
  then show ?thesis using assms(2) unfolding links_of_def by (force split: if_splits)
qed

text \<open>
  A workspace that chose where its assistant traffic goes, and said nothing of its background traffic, has
  that walked down the platform's background chain where the platform has one.
\<close>

lemma background_leaves_the_workspace:
  assumes "\<not> (\<exists>c \<in> set (ch_assignments db). as_workspace c = Some ws \<and> as_traffic c = BACKGROUND_TRAFFIC_TYPE)"
    and "links_of db ws BACKGROUND_TRAFFIC_TYPE \<noteq> []"
  shows "owner_of db ws BACKGROUND_TRAFFIC_TYPE = None \<and> links_for db ws BACKGROUND_TRAFFIC_TYPE = links_of db ws BACKGROUND_TRAFFIC_TYPE"
  using assms by (auto simp: owner_of_def links_for_def borrows_from_def Let_def list_ex_iff split: if_splits)

end
