(* ===== verification/Walk.thy ===== *)
theory Walk
  imports Circuits Chains Gateway
begin

text \<open>
  How a request finds a model: \<open>crates/gateway/src/routing.rs\<close> and the model half of
  \<open>crates/gateway/src/router.rs\<close>. A class of traffic is a chain of routes; each becomes a provider, built or
  kept; the walk asks them in turn, and stops where going on would send a request twice. What a provider
  answers, the environment, the sealed store and the address parser are arguments; a provider's answer to the
  nth request sent is the nth.
\<close>

section \<open>Routes and providers\<close>

record route =
  ro_model_id :: uuid
  ro_account :: uuid
  ro_provider :: string
  ro_base_url :: string
  ro_model :: string
  ro_credential_ref :: "string option"
  ro_credential_id :: "uuid option"
  ro_facts :: model_facts

definition route_of :: "time option \<Rightarrow> link \<Rightarrow> route" where
  "route_of began l =
     (let l = for_turn_begun began l in
      \<lparr>ro_model_id = lk_model_id l, ro_account = lk_account l, ro_provider = lk_protocol l, ro_base_url = lk_base_url l,
       ro_model = lk_model l, ro_credential_ref = lk_credential_env l, ro_credential_id = lk_credential_id l, ro_facts = lk_facts l\<rparr>)"

definition routes_for_turn :: "chain_tables \<Rightarrow> uuid \<Rightarrow> string \<Rightarrow> time option \<Rightarrow> route list" where
  "routes_for_turn db ws traffic began = map (route_of began) (links_for db ws traffic)"

datatype bedrock_auth = ApiKey string | AwsSigned string

datatype llm_provider =
    OpenAiAt string "string option"
  | AnthropicAt string string
  | BedrockAt string bedrock_auth
  | GeminiAt string string string
  | StaticAt string

text \<open>Where a provider's health is kept: its protocol and where it is.\<close>

definition slash :: "char \<Rightarrow> bool" where "slash c \<longleftrightarrow> c = CHR ''/''"

fun endpoint :: "llm_provider \<Rightarrow> string" where
  "endpoint (OpenAiAt base key) = ''openai:'' @ trim_end_matches slash base"
| "endpoint (AnthropicAt base key) = ''anthropic:'' @ base"
| "endpoint (BedrockAt base auth) = ''bedrock:'' @ base"
| "endpoint (GeminiAt base key model) = ''gemini:'' @ base"
| "endpoint (StaticAt name) = name"

fun model_circuit :: "llm_provider \<Rightarrow> string \<Rightarrow> string" where
  "model_circuit p model = endpoint p @ '' model='' @ model"

text \<open>
  What the gateway is given besides: its sealed keys, each with the address it is held at, and the AWS keys'
  region for a base URL.
\<close>

record walk_world =
  ww_gateway :: gateway_world
  ww_sealed :: "uuid \<Rightarrow> string + (nat \<times> opened_seal)"
  ww_aws :: "string \<Rightarrow> string option"
  ww_static :: "llm_provider list"

record kept_provider =
  kp_provider :: llm_provider
  kp_base_url :: string
  kp_protocol :: string
  kp_sealed :: "(nat \<times> opened_seal) option"

type_synonym provider_cache = "uuid \<Rightarrow> kept_provider option"

definition open_provider_key :: "walk_world \<Rightarrow> uuid \<Rightarrow> route \<Rightarrow> uuid \<Rightarrow> (nat \<times> opened_seal) option" where
  "open_provider_key w i r ws =
     (case ww_sealed w i of
        Inl why \<Rightarrow> None
      | Inr (at, opened) \<Rightarrow>
          (case Option.bind (parse_url (ww_gateway w) (ro_base_url r)) url_host of
             None \<Rightarrow> None
           | Some host \<Rightarrow>
               (case allows_use (gw_outside (ww_gateway w)) (os_binding opened) ws host None Provider of
                  Inl why \<Rightarrow> None
                | Inr _ \<Rightarrow> Some (at, opened))))"

text \<open>The key a provider is built with: from the seal, as text, or from the environment; a blank one is none.\<close>

definition provider_key :: "walk_world \<Rightarrow> route \<Rightarrow> (nat \<times> opened_seal) option \<Rightarrow> string option option" where
  "provider_key w r opened =
     (case opened of
        Some (at, o1) \<Rightarrow>
          if from_utf8 (os_secret o1) = None
          then Some (if trim (os_secret o1) = [] then None else Some (trim (os_secret o1)))
          else None
      | None \<Rightarrow>
          Some (case Option.bind (ro_credential_ref r) (env_var (ww_gateway w)) of
              Some value \<Rightarrow> if trim value = [] then None else Some value
            | None \<Rightarrow> None))"

definition build_provider :: "walk_world \<Rightarrow> route \<Rightarrow> string option \<Rightarrow> llm_provider option" where
  "build_provider w r key =
     (if ro_provider r = ''openai'' then Some (OpenAiAt (ro_base_url r) key)
      else if ro_provider r = ''anthropic'' then map_option (AnthropicAt (ro_base_url r)) key
      else if ro_provider r = ''bedrock''
        then (case key of
            Some k \<Rightarrow> Some (BedrockAt (ro_base_url r) (ApiKey k))
          | None \<Rightarrow> map_option (\<lambda>region. BedrockAt (ro_base_url r) (AwsSigned region)) (ww_aws w (ro_base_url r)))
      else if ro_provider r = ''gemini'' then map_option (\<lambda>k. GeminiAt (ro_base_url r) k (ro_model r)) key
      else None)"

definition same_key :: "(nat \<times> opened_seal) option \<Rightarrow> (nat \<times> opened_seal) option \<Rightarrow> bool" where
  "same_key was now =
     (case (was, now) of (None, None) \<Rightarrow> True | (Some (a, _), Some (b, _)) \<Rightarrow> a = b | _ \<Rightarrow> False)"

definition provider_for :: "walk_world \<Rightarrow> route \<Rightarrow> uuid \<Rightarrow> provider_cache \<Rightarrow> llm_provider option \<times> provider_cache" where
  "provider_for w r ws cache =
     (case (case ro_credential_id r of
          Some i \<Rightarrow> map_option Some (open_provider_key w i r ws)
        | None \<Rightarrow> Some None) of
        None \<Rightarrow> (None, cache)
      | Some opened \<Rightarrow>
          (case cache (ro_account r) of
             Some k \<Rightarrow>
               if same_key (kp_sealed k) opened \<and> kp_base_url k = ro_base_url r \<and> kp_protocol k = ro_provider r
               then (Some (kp_provider k), cache)
               else (case Option.bind (provider_key w r opened) (build_provider w r) of
                   None \<Rightarrow> (None, cache)
                 | Some p \<Rightarrow> (Some p, cache(ro_account r \<mapsto>
                     \<lparr>kp_provider = p, kp_base_url = ro_base_url r, kp_protocol = ro_provider r, kp_sealed = opened\<rparr>)))
           | None \<Rightarrow>
               (case Option.bind (provider_key w r opened) (build_provider w r) of
                  None \<Rightarrow> (None, cache)
                | Some p \<Rightarrow> (Some p, cache(ro_account r \<mapsto>
                    \<lparr>kp_provider = p, kp_base_url = ro_base_url r, kp_protocol = ro_provider r, kp_sealed = opened\<rparr>)))))"

section \<open>What to try\<close>

definition route_turned_away :: "gateway_world \<Rightarrow> route \<Rightarrow> string option" where
  "route_turned_away w r =
     (case parse_url w (ro_base_url r) of
        None \<Rightarrow> Some (ro_base_url r @ '' is not a URL'')
      | Some u \<Rightarrow>
          (case url_host u of
             None \<Rightarrow> Some (ro_base_url r @ '' names no host'')
           | Some host \<Rightarrow>
               (case url_port u of
                  None \<Rightarrow> Some (ro_base_url r @ '' names no port'')
                | Some port \<Rightarrow>
                    if internal_allows (gw_internal w) host port then None
                    else (case parse_ip (trim_matches bracket host) of
                        Some addr \<Rightarrow>
                          if is_forbidden addr
                          then Some (ro_base_url r @ '' is inside the network, and the gateway reaches such an address only where OUTTURN_INTERNAL_HOSTS opens it'')
                          else None
                      | None \<Rightarrow> None))))"

record attempt =
  at_provider :: llm_provider
  at_model :: "string option"
  at_facts :: "model_facts option"
  at_model_id :: "uuid option"

fun route_attempts :: "walk_world \<Rightarrow> uuid \<Rightarrow> route list \<Rightarrow> provider_cache \<Rightarrow> (attempt list \<times> string list) \<times> provider_cache" where
  "route_attempts w ws [] cache = (([], []), cache)"
| "route_attempts w ws (r # rs) cache =
     (case route_turned_away (ww_gateway w) r of
        Some why \<Rightarrow>
          (case route_attempts w ws rs cache of ((as, whys), cache') \<Rightarrow> ((as, why # whys), cache'))
      | None \<Rightarrow>
          (case provider_for w r ws cache of
             (Some p, cache1) \<Rightarrow>
               (case route_attempts w ws rs cache1 of
                  ((as, whys), cache') \<Rightarrow>
                    ((\<lparr>at_provider = p, at_model = Some (ro_model r), at_facts = Some (ro_facts r), at_model_id = Some (ro_model_id r)\<rparr> # as,
                      whys), cache'))
           | (None, cache1) \<Rightarrow>
               (case route_attempts w ws rs cache1 of
                  ((as, whys), cache') \<Rightarrow>
                    ((as, (ro_model r @ '' at '' @ ro_base_url r @ '' has no key the gateway can use'') # whys), cache'))))"

definition static_attempts :: "walk_world \<Rightarrow> attempt list" where
  "static_attempts w = map (\<lambda>p. \<lparr>at_provider = p, at_model = None, at_facts = None, at_model_id = None\<rparr>) (ww_static w)"

text \<open>The chains' tables, where there is a database and it answers.\<close>

definition attempts ::
  "walk_world \<Rightarrow> chain_tables option \<Rightarrow> uuid \<Rightarrow> string \<Rightarrow> time option \<Rightarrow> provider_cache \<Rightarrow> (attempt list \<times> string list) \<times> provider_cache" where
  "attempts w db ws traffic began cache =
     (case (if has_database (ww_gateway w) then db else None) of
        Some tables \<Rightarrow>
          (let routes = routes_for_turn tables ws traffic began in
           if routes \<noteq> [] then route_attempts w ws routes cache else ((static_attempts w, []), cache))
      | None \<Rightarrow> ((static_attempts w, []), cache))"

section \<open>The settings of the model about to be asked\<close>

definition apply_settings :: "(uuid option \<Rightarrow> model_facts \<Rightarrow> model_settings option) option \<Rightarrow> uuid option \<Rightarrow> completion_request \<Rightarrow> completion_request" where
  "apply_settings settings model_id req =
     (case settings of
        None \<Rightarrow> req
      | Some settings_of \<Rightarrow>
          if cr_temperature req \<noteq> None \<and> cr_effort req \<noteq> None then req
          else (case settings_of model_id (or_else (cr_facts req) default_facts) of
              None \<Rightarrow> req
            | Some s \<Rightarrow>
                req\<lparr>cr_temperature := (if cr_temperature req = None then ms_temperature s else cr_temperature req),
                  cr_effort := (if cr_effort req = None then Some (ms_effort s) else cr_effort req)\<rparr>))"

section \<open>Why a model was passed over\<close>

definition passed_because :: "provider_error \<Rightarrow> string" where
  "passed_because e =
     (if is_model_gone e then ''is no longer offered''
      else if may_have_been_taken e then ''was sent the request and its answer was lost, so it was not sent again''
      else if e = RateLimited \<or> (case e of Upstream (Some s) d \<Rightarrow> s = 429 | _ \<Rightarrow> False) then ''was rate limited''
      else ''was unavailable'')"

record passed_over =
  po_first :: "(uuid option \<times> string \<times> string option) option"
  po_why :: "string option"
  po_turned_away :: "string list"

definition trying :: "attempt \<Rightarrow> string \<Rightarrow> passed_over \<Rightarrow> passed_over" where
  "trying a model p =
     (case po_first p of
        None \<Rightarrow> p\<lparr>po_first := Some (at_model_id a, model, Option.bind (at_facts a) mf_canonical)\<rparr>
      | Some _ \<Rightarrow> p)"

definition because :: "string \<Rightarrow> passed_over \<Rightarrow> passed_over" where
  "because why p = p\<lparr>po_why := Some (or_else (po_why p) why)\<rparr>"

text \<open>What is recorded on a reply answered by another model than the first tried.\<close>

record fallback_row =
  fb_configured :: string
  fb_configured_id :: "uuid option"
  fb_served :: string
  fb_served_id :: "uuid option"
  fb_reason :: string

definition fallback :: "passed_over \<Rightarrow> attempt \<Rightarrow> string \<Rightarrow> fallback_row option" where
  "fallback p served model =
     (case po_first p of
        None \<Rightarrow> None
      | Some (first_id, first, first_canonical) \<Rightarrow>
          (let same = (case (first_canonical, Option.bind (at_facts served) mf_canonical) of
               (Some a, Some b) \<Rightarrow> a = b
             | _ \<Rightarrow> first = model) in
           if same then None
           else Some \<lparr>fb_configured = first, fb_configured_id = first_id, fb_served = model, fb_served_id = at_model_id served,
             fb_reason = or_else (po_why p) ''was unavailable''\<rparr>))"

section \<open>The walk\<close>

definition timed_out :: string where "timed_out = ''it did not answer in time''"

definition with_policy_hint :: "gateway_world \<Rightarrow> string \<Rightarrow> provider_error \<Rightarrow> provider_error" where
  "with_policy_hint w ep e =
     (case e of
        Unreached detail \<Rightarrow>
          if detail \<noteq> timed_out then e
          else (case parse_url w (case split_once (CHR '':'') ep of Some (_, url) \<Rightarrow> url | None \<Rightarrow> ep) of
              None \<Rightarrow> e
            | Some u \<Rightarrow>
                (case (url_host u, url_port u) of
                   (Some host, Some port) \<Rightarrow>
                     if internal_allows (gw_internal w) host port
                     then Unreached (detail @ ''. It is inside the network, so check that a network policy lets the gateway reach it on port '' @ nat_text port)
                     else e
                 | _ \<Rightarrow> e))
      | _ \<Rightarrow> e)"

text \<open>The breaker's tables, where the gateway has a database: without one everything is admitted and nothing learnt.\<close>

type_synonym shared = "breaker_db option option"

definition admits :: "time \<Rightarrow> llm_provider \<Rightarrow> string \<Rightarrow> shared \<Rightarrow> bool \<times> shared" where
  "admits now p model sh =
     (case sh of
        None \<Rightarrow> (True, None)
      | Some db \<Rightarrow>
          (case check_circuit now (endpoint p) None db of
             (False, db1) \<Rightarrow> (False, Some db1)
           | (True, db1) \<Rightarrow> (case check_circuit now (model_circuit p model) None db1 of (ok, db2) \<Rightarrow> (ok, Some db2))))"

definition learn :: "outside \<Rightarrow> time \<Rightarrow> llm_provider \<Rightarrow> string \<Rightarrow> caller \<Rightarrow> provider_error option \<Rightarrow> shared \<Rightarrow> shared" where
  "learn e now p model c outcome sh =
     (case sh of
        None \<Rightarrow> None
      | Some db \<Rightarrow>
          (let of_model = (case outcome of None \<Rightarrow> Some Success | Some err \<Rightarrow> if is_model_gone err then Some Retired else None);
               detail = map_option (error_text e) outcome;
               db1 = (case of_model of Some obs \<Rightarrow> observe_circuit now (model_circuit p model) None obs c detail db | None \<Rightarrow> db) in
           Some (observe_circuit now (endpoint p) None (case outcome of None \<Rightarrow> Success | Some err \<Rightarrow> observation_for err) c detail db1)))"

text \<open>What came of asking a provider: a failure, an answer begun, or a stop that came before either.\<close>

datatype 'r called = Failed provider_error | Heard 'r | Halted

record 'r sent =
  sn_provider :: llm_provider
  sn_request :: completion_request
  sn_answer :: "'r called"

datatype 'r ended = Answered attempt string 'r | Unanswered | StoppedAt llm_provider

record walk_state =
  wk_shared :: shared
  wk_passed :: passed_over
  wk_error :: "provider_error option"

definition request_for :: "(uuid option \<Rightarrow> model_facts \<Rightarrow> model_settings option) option \<Rightarrow> attempt \<Rightarrow> completion_request \<Rightarrow> completion_request" where
  "request_for settings a req =
     apply_settings settings (at_model_id a)
       (req\<lparr>cr_model := or_else (at_model a) (cr_model req), cr_facts := at_facts a\<rparr>)"

definition ends_the_walk :: "provider_error \<Rightarrow> bool" where
  "ends_the_walk e \<longleftrightarrow> (is_client_error e \<and> \<not> is_model_gone e) \<or> may_have_been_taken e"

definition RESTED :: string where "RESTED = ''has been failing, and is being rested''"

fun walk :: "walk_world \<Rightarrow> (nat \<Rightarrow> time) \<Rightarrow> (uuid option \<Rightarrow> model_facts \<Rightarrow> model_settings option) option \<Rightarrow>
    (nat \<Rightarrow> llm_provider \<Rightarrow> completion_request \<Rightarrow> 'r called) \<Rightarrow> caller \<Rightarrow> completion_request \<Rightarrow>
    attempt list \<Rightarrow> nat \<Rightarrow> walk_state \<Rightarrow> 'r ended \<times> walk_state \<times> 'r sent list" where
  "walk w clock settings call c req [] n st = (Unanswered, st, [])"
| "walk w clock settings call c req (a # as) n st =
     (let p = at_provider a;
          model = or_else (at_model a) (cr_model req);
          passed = trying a model (wk_passed st) in
      (case admits (clock n) p model (wk_shared st) of
         (False, sh) \<Rightarrow> walk w clock settings call c req as (Suc n) (st\<lparr>wk_shared := sh, wk_passed := because RESTED passed\<rparr>)
       | (True, sh) \<Rightarrow>
           (let asked = request_for settings a req;
                answer = call n p asked;
                log = \<lparr>sn_provider = p, sn_request = asked, sn_answer = answer\<rparr>;
                st = st\<lparr>wk_shared := sh, wk_passed := passed\<rparr> in
            (case answer of
               Halted \<Rightarrow> (StoppedAt p, st, [log])
             | Heard r \<Rightarrow>
                 (Answered a model r, st\<lparr>wk_shared := learn (gw_outside (ww_gateway w)) (clock n) p model c None sh\<rparr>, [log])
             | Failed err \<Rightarrow>
                 (let err = with_policy_hint (ww_gateway w) (endpoint p) err;
                      st = st\<lparr>wk_shared := learn (gw_outside (ww_gateway w)) (clock n) p model c (Some err) sh,
                        wk_passed := because (passed_because err) passed, wk_error := Some err\<rparr> in
                  if ends_the_walk err then (Unanswered, st, [log])
                  else (case walk w clock settings call c req as (Suc n) st of (how, st', logs) \<Rightarrow> (how, st', log # logs)))))))"

definition sentence :: "string \<Rightarrow> string" where
  "sentence message =
     (case message of
        [] \<Rightarrow> []
      | c # cs \<Rightarrow>
          (let out = upper_char c # cs in
           if last out \<in> {CHR ''.'', CHR ''!'', CHR ''?'', CHR '')''} then out else out @ ''.''))"

definition failure_message :: "outside \<Rightarrow> provider_error option \<Rightarrow> string" where
  "failure_message e last_error =
     (case last_error of
        Some err \<Rightarrow> sentence (error_text e err)
      | None \<Rightarrow> ''No model provider was available for this request.'')"

fun join_text :: "string \<Rightarrow> string list \<Rightarrow> string" where
  "join_text sep [] = []"
| "join_text sep [x] = x"
| "join_text sep (x # xs) = x @ sep @ join_text sep xs"

definition unanswered :: "outside \<Rightarrow> passed_over \<Rightarrow> provider_error option \<Rightarrow> string \<Rightarrow> string" where
  "unanswered e p last_error traffic =
     (if po_first p = None \<and> last_error = None
      then
        (if po_turned_away p \<noteq> []
         then ''Every model configured for '' @ traffic @ '' traffic was turned away: '' @ join_text ''; '' (po_turned_away p) @ ''.''
         else ''No model is configured for '' @ traffic @ '' traffic. The operator can give it a chain on Platform, Models.'')
      else failure_message e last_error)"

text \<open>A request asked of its chain: who answered and what is recorded of it, or the status and the words.\<close>

datatype chat_error = NotAllowed refusal | BadGateway string

definition chat_completions ::
  "walk_world \<Rightarrow> (nat \<Rightarrow> time) \<Rightarrow> (uuid option \<Rightarrow> model_facts \<Rightarrow> model_settings option) option \<Rightarrow>
    (nat \<Rightarrow> llm_provider \<Rightarrow> completion_request \<Rightarrow> 'r called) \<Rightarrow> chain_tables option \<Rightarrow> refusal + session_claims \<Rightarrow> string \<Rightarrow> time option \<Rightarrow>
    completion_request \<Rightarrow> provider_cache \<Rightarrow> shared \<Rightarrow> (chat_error + 'r ended \<times> fallback_row option) \<times> provider_cache \<times> shared \<times> 'r sent list" where
  "chat_completions w clock settings call db authenticated traffic began req cache sh =
     (case authenticated of
        Inl refused \<Rightarrow> (Inl (NotAllowed refused), cache, sh, [])
      | Inr claims \<Rightarrow>
          (case attempts w db (claim_workspace claims) traffic began cache of
             ((as, whys), cache') \<Rightarrow>
               (case walk w clock settings call \<lparr>caller_workspace = claim_workspace claims, caller_session = claim_subject claims\<rparr> req as 0
                   \<lparr>wk_shared = sh, wk_passed = \<lparr>po_first = None, po_why = None, po_turned_away = whys\<rparr>, wk_error = None\<rparr> of
                  (Answered a model r, st, logs) \<Rightarrow> (Inr (Answered a model r, fallback (wk_passed st) a model), cache', wk_shared st, logs)
                | (StoppedAt p, st, logs) \<Rightarrow> (Inr (StoppedAt p, None), cache', wk_shared st, logs)
                | (Unanswered, st, logs) \<Rightarrow>
                    (Inl (BadGateway (unanswered (gw_outside (ww_gateway w)) (wk_passed st) (wk_error st) traffic)), cache', wk_shared st, logs))))"

section \<open>A request is sent on only where nobody did the work\<close>

lemma hint_keeps: "may_have_been_taken (with_policy_hint w ep e) = may_have_been_taken e"
  "is_client_error (with_policy_hint w ep e) = is_client_error e" "is_model_gone (with_policy_hint w ep e) = is_model_gone e"
  by (cases e; simp add: with_policy_hint_def split: option.split prod.split)+

definition refused_outright :: "'r called \<Rightarrow> bool" where
  "refused_outright a \<longleftrightarrow> (case a of Failed e \<Rightarrow> \<not> may_have_been_taken e \<and> (is_client_error e \<longrightarrow> is_model_gone e) | _ \<Rightarrow> False)"

lemma walk_goes_on:
  "walk w clock settings call c req as n st = (how, st', logs) \<Longrightarrow> list_all (\<lambda>s. refused_outright (sn_answer s)) (butlast logs)"
proof (induction as arbitrary: n st how st' logs)
  case (Cons a as)
  show ?case
  proof (cases "admits (clock n) (at_provider a) (or_else (at_model a) (cr_model req)) (wk_shared st)")
    case (Pair ok sh)
    show ?thesis
    proof (cases ok)
      case False
      then show ?thesis using Cons.prems Cons.IH Pair by (auto simp: Let_def)
    next
      case True
      show ?thesis
      proof (cases "call n (at_provider a) (request_for settings a req)")
        case (Failed e)
        then show ?thesis using Cons.prems True Pair Cons.IH
          by (auto simp: Let_def refused_outright_def ends_the_walk_def hint_keeps split: if_splits prod.splits)
      qed (use Cons.prems True Pair in \<open>auto simp: Let_def\<close>)
    qed
  qed
qed simp

lemma walk_asks_attempts:
  "walk w clock settings call c req as n st = (how, st', logs) \<Longrightarrow>
     list_all (\<lambda>s. \<exists>a \<in> set as. sn_provider s = at_provider a \<and> sn_request s = request_for settings a req) logs"
proof (induction as arbitrary: n st how st' logs)
  case (Cons a as)
  show ?case
  proof (cases "admits (clock n) (at_provider a) (or_else (at_model a) (cr_model req)) (wk_shared st)")
    case (Pair ok sh)
    show ?thesis
    proof (cases ok)
      case False
      then have "list_all (\<lambda>s. \<exists>a \<in> set as. sn_provider s = at_provider a \<and> sn_request s = request_for settings a req) logs"
        using Cons.prems Cons.IH Pair by (auto simp: Let_def)
      then show ?thesis by (auto simp: list_all_iff)
    next
      case True
      show ?thesis
      proof (cases "call n (at_provider a) (request_for settings a req)")
        case (Failed e)
        then show ?thesis using Cons.prems True Pair Cons.IH
          by (fastforce simp: Let_def list_all_iff split: if_splits prod.splits)
      qed (use Cons.prems True Pair in \<open>auto simp: Let_def\<close>)
    qed
  qed
qed simp

lemma sent_log:
  assumes "chat_completions w clock settings call db authenticated traffic began req cache sh = (res, kept, sh', logs)"
  shows "logs = [] \<or> (\<exists>claims whys cache' as how st.
     authenticated = Inr claims \<and> attempts w db (claim_workspace claims) traffic began cache = ((as, whys), cache') \<and>
     walk w clock settings call \<lparr>caller_workspace = claim_workspace claims, caller_session = claim_subject claims\<rparr> req as 0
       \<lparr>wk_shared = sh, wk_passed = \<lparr>po_first = None, po_why = None, po_turned_away = whys\<rparr>, wk_error = None\<rparr> = (how, st, logs))"
proof (cases authenticated)
  case (Inl r)
  then show ?thesis using assms by (simp add: chat_completions_def)
next
  case (Inr claims)
  obtain as whys cache' where at: "attempts w db (claim_workspace claims) traffic began cache = ((as, whys), cache')"
    by (cases "attempts w db (claim_workspace claims) traffic began cache") auto
  obtain how st logs' where walk: "walk w clock settings call
      \<lparr>caller_workspace = claim_workspace claims, caller_session = claim_subject claims\<rparr> req as 0
      \<lparr>wk_shared = sh, wk_passed = \<lparr>po_first = None, po_why = None, po_turned_away = whys\<rparr>, wk_error = None\<rparr> = (how, st, logs')"
    by (cases "walk w clock settings call
      \<lparr>caller_workspace = claim_workspace claims, caller_session = claim_subject claims\<rparr> req as 0
      \<lparr>wk_shared = sh, wk_passed = \<lparr>po_first = None, po_why = None, po_turned_away = whys\<rparr>, wk_error = None\<rparr>") auto
  then have "logs' = logs" using assms Inr at by (cases how) (simp_all add: chat_completions_def)
  then show ?thesis using Inr at walk by blast
qed

section \<open>What a model is asked with\<close>

text \<open>The settings the store resolves for a workspace and an agent, as the gateway asks for them.\<close>

definition settings_of :: "(json \<Rightarrow> 32 word option) \<Rightarrow> override_row list \<Rightarrow> (uuid \<Rightarrow> json option) \<Rightarrow> uuid \<Rightarrow> uuid option \<Rightarrow>
    uuid option \<Rightarrow> model_facts \<Rightarrow> model_settings option" where
  "settings_of to_float rows ts ws agent model facts = Some (resolve_settings to_float rows ts ws agent model facts)"

text \<open>
  C30. Where the settings can be read and the caller of the gateway names no effort, no model is asked with one that it does
  not offer: the
  effort of every request a walk sends is off, the default, or a level of the facts sent with it, unless nobody
  described its levels; where the caller names no temperature, a model that takes none is given none. What the
  caller names goes as it is. That is so whatever is set at any level and whatever a template fixes; and the budget
  resolved with them, to which a conversation is trimmed, is at most two bytes a token of a window that is known.
\<close>

theorem asked_with_what_it_takes:
  assumes "chat_completions w clock (Some (settings_of to_float rows ts ws agent)) call db authenticated traffic began req cache sh
      = (res, kept, sh', logs)"
    and "s \<in> set logs" and "to_float JNull = None"
  shows "let facts = or_else (cr_facts (sn_request s)) default_facts in
    (case cr_effort req of
       None \<Rightarrow> (\<exists>level. cr_effort (sn_request s) = Some level \<and> effort_offered facts level)
     | Some level \<Rightarrow> cr_effort (sn_request s) = Some level) \<and>
    (case cr_temperature req of
       None \<Rightarrow> mf_sampling facts \<or> cr_temperature (sn_request s) = None
     | Some t \<Rightarrow> cr_temperature (sn_request s) = Some t) \<and>
    (\<forall>model. case mf_context_window facts of
       Some tokens \<Rightarrow> ms_budget (resolve_settings to_float rows ts ws agent model facts) \<le> 2 * unat tokens
     | None \<Rightarrow> True)"
proof -
  obtain a where a: "sn_request s = request_for (Some (settings_of to_float rows ts ws agent)) a req"
    using sent_log [OF assms(1)] walk_asks_attempts assms(2) by (fastforce simp: list_all_iff)
  have facts: "cr_facts (sn_request s) = at_facts a" by (simp add: a request_for_def apply_settings_def settings_of_def)
  let ?facts = "or_else (at_facts a) default_facts"
  note fit = settings_fit [where to_float = to_float and facts = ?facts and rows = rows and ts = ts and ws = ws and agent = agent, OF assms(3)]
  show ?thesis
    unfolding facts Let_def
    using fit by (auto simp: a request_for_def apply_settings_def settings_of_def split: option.split)
qed

section \<open>A configured chain is all that is asked\<close>

fun where_is :: "llm_provider \<Rightarrow> (string \<times> string) option" where
  "where_is (OpenAiAt base key) = Some (''openai'', base)"
| "where_is (AnthropicAt base key) = Some (''anthropic'', base)"
| "where_is (BedrockAt base auth) = Some (''bedrock'', base)"
| "where_is (GeminiAt base key model) = Some (''gemini'', base)"
| "where_is (StaticAt name) = None"

fun key_of :: "llm_provider \<Rightarrow> string option" where
  "key_of (OpenAiAt base key) = key"
| "key_of (AnthropicAt base key) = Some key"
| "key_of (BedrockAt base auth) = (case auth of ApiKey k \<Rightarrow> Some k | AwsSigned region \<Rightarrow> None)"
| "key_of (GeminiAt base key model) = Some key"
| "key_of (StaticAt name) = None"

definition sealed_key :: "opened_seal \<Rightarrow> string option" where
  "sealed_key o1 = (if trim (os_secret o1) = [] then None else Some (trim (os_secret o1)))"

text \<open>What is held at an address is one thing, and what is kept was built from it.\<close>

definition one_address :: "(nat \<Rightarrow> opened_seal) \<Rightarrow> walk_world \<Rightarrow> bool" where
  "one_address held w \<longleftrightarrow> (\<forall>i a o1. ww_sealed w i = Inr (a, o1) \<longrightarrow> held a = o1)"

definition kept_ok :: "(nat \<Rightarrow> opened_seal) \<Rightarrow> provider_cache \<Rightarrow> bool" where
  "kept_ok held cache \<longleftrightarrow> (\<forall>acct k. cache acct = Some k \<longrightarrow>
     where_is (kp_provider k) = Some (kp_protocol k, kp_base_url k) \<and>
     (\<forall>a o1. kp_sealed k = Some (a, o1) \<longrightarrow> o1 = held a \<and> key_of (kp_provider k) = sealed_key o1))"

lemma build_where: "build_provider w r key = Some p \<Longrightarrow> where_is p = Some (ro_provider r, ro_base_url r) \<and> key_of p = key"
  by (auto simp: build_provider_def split: if_splits option.splits)

lemma build_sealed:
  "Option.bind (provider_key w r (Some (a, o1))) (build_provider w r) = Some p \<Longrightarrow> key_of p = sealed_key o1"
  by (auto simp: provider_key_def sealed_key_def bind_eq_Some_conv split: if_splits dest: build_where)

lemma build_bind_where:
  "Option.bind (provider_key w r opened) (build_provider w r) = Some p \<Longrightarrow> where_is p = Some (ro_provider r, ro_base_url r)"
  by (auto simp: bind_eq_Some_conv dest: build_where)

text \<open>A route's provider is at the route's base URL, speaks its protocol, and holds the key its seal opens to now.\<close>

definition serves :: "walk_world \<Rightarrow> uuid \<Rightarrow> route \<Rightarrow> llm_provider \<Rightarrow> bool" where
  "serves w ws r p \<longleftrightarrow> where_is p = Some (ro_provider r, ro_base_url r) \<and>
     (case ro_credential_id r of
        None \<Rightarrow> True
      | Some i \<Rightarrow> (case open_provider_key w i r ws of None \<Rightarrow> False | Some (a, o1) \<Rightarrow> key_of p = sealed_key o1))"

lemma opened_held: "one_address held w \<Longrightarrow> open_provider_key w i r ws = Some (a, o1) \<Longrightarrow> o1 = held a"
  by (auto simp: open_provider_key_def one_address_def split: sum.splits option.splits)

lemma kept_built:
  assumes "kept_ok held cache" "one_address held w" "Option.bind (provider_key w r opened) (build_provider w r) = Some p"
    and "opened = None \<or> (\<exists>i a o1. open_provider_key w i r ws = Some (a, o1) \<and> opened = Some (a, o1))"
  shows "kept_ok held (cache(ro_account r \<mapsto>
     \<lparr>kp_provider = p, kp_base_url = ro_base_url r, kp_protocol = ro_provider r, kp_sealed = opened\<rparr>))"
  using assms build_bind_where [OF assms(3)] build_sealed opened_held by (fastforce simp: kept_ok_def)

lemma provider_for_serves:
  assumes "kept_ok held cache" "one_address held w" "provider_for w r ws cache = (found, cache')"
  shows "kept_ok held cache' \<and> (\<forall>p. found = Some p \<longrightarrow> serves w ws r p)"
proof -
  let ?opened = "case ro_credential_id r of Some i \<Rightarrow> map_option Some (open_provider_key w i r ws) | None \<Rightarrow> Some None"
  show ?thesis
  proof (cases ?opened)
    case None
    then show ?thesis using assms by (simp add: provider_for_def)
  next
    case (Some opened)
    have origin: "opened = None \<or> (\<exists>i a o1. open_provider_key w i r ws = Some (a, o1) \<and> opened = Some (a, o1))"
      using Some by (auto split: option.splits)
    have served: "serves w ws r p" if "where_is p = Some (ro_provider r, ro_base_url r)"
      "\<And>a o1. opened = Some (a, o1) \<Longrightarrow> key_of p = sealed_key o1" for p
      using that Some by (auto simp: serves_def split: option.splits)
    have built: "serves w ws r p" if "Option.bind (provider_key w r opened) (build_provider w r) = Some p" for p
    proof (rule served)
      show "where_is p = Some (ro_provider r, ro_base_url r)" using that by (rule build_bind_where)
      show "key_of p = sealed_key o1" if "opened = Some (a, o1)" for a o1
        using \<open>Option.bind (provider_key w r opened) (build_provider w r) = Some p\<close> that build_sealed by simp
    qed
    have new: "kept_ok held cache' \<and> (\<forall>p. found = Some p \<longrightarrow> serves w ws r p)"
      if "(case Option.bind (provider_key w r opened) (build_provider w r) of None \<Rightarrow> (None, cache)
         | Some p \<Rightarrow> (Some p, cache(ro_account r \<mapsto> \<lparr>kp_provider = p, kp_base_url = ro_base_url r, kp_protocol = ro_provider r,
             kp_sealed = opened\<rparr>))) = (found, cache')"
    proof (cases "Option.bind (provider_key w r opened) (build_provider w r)")
      case None
      then show ?thesis using that assms(1) by simp
    next
      case (Some p)
      then have "found = Some p" "cache' = cache(ro_account r \<mapsto>
          \<lparr>kp_provider = p, kp_base_url = ro_base_url r, kp_protocol = ro_provider r, kp_sealed = opened\<rparr>)"
        using that by simp_all
      then show ?thesis using built [OF Some] kept_built [OF assms(1,2) Some origin] by simp
    qed
    show ?thesis
    proof (cases "cache (ro_account r)")
      case None
      then show ?thesis using new assms(3) Some by (simp add: provider_for_def)
    next
      case (Some k)
      show ?thesis
      proof (cases "same_key (kp_sealed k) opened \<and> kp_base_url k = ro_base_url r \<and> kp_protocol k = ro_provider r")
        case True
        have key: "key_of (kp_provider k) = sealed_key o1" if now: "opened = Some (a, o1)" for a o1
        proof -
          have "\<exists>o2. kp_sealed k = Some (a, o2)" using True unfolding now by (cases "kp_sealed k") (auto simp: same_key_def)
          then obtain o2 where "kp_sealed k = Some (a, o2)" by blast
          moreover have "o1 = held a" using now origin opened_held [OF assms(2)] by blast
          ultimately show ?thesis using assms(1) Some by (auto simp: kept_ok_def)
        qed
        have "where_is (kp_provider k) = Some (ro_provider r, ro_base_url r)" using assms(1) Some True by (auto simp: kept_ok_def)
        then show ?thesis using assms(1,3) \<open>?opened = Some opened\<close> Some True served key by (auto simp: provider_for_def)
      next
        case False
        have "(if same_key (kp_sealed k) opened \<and> kp_base_url k = ro_base_url r \<and> kp_protocol k = ro_provider r
            then (Some (kp_provider k), cache)
            else (case Option.bind (provider_key w r opened) (build_provider w r) of None \<Rightarrow> (None, cache)
               | Some p \<Rightarrow> (Some p, cache(ro_account r \<mapsto> \<lparr>kp_provider = p, kp_base_url = ro_base_url r, kp_protocol = ro_provider r,
                   kp_sealed = opened\<rparr>)))) = (found, cache')"
          using assms(3) \<open>?opened = Some opened\<close> Some by (simp only: provider_for_def option.case)
        then show ?thesis unfolding if_not_P [OF False] by (rule new)
      qed
    qed
  qed
qed

lemma route_attempts_serve:
  assumes "one_address held w"
  shows "kept_ok held cache \<Longrightarrow> route_attempts w ws rs cache = ((as, whys), cache') \<Longrightarrow>
     kept_ok held cache' \<and> (\<forall>a \<in> set as. \<exists>r \<in> set rs. route_turned_away (ww_gateway w) r = None \<and> serves w ws r (at_provider a) \<and>
       at_model a = Some (ro_model r))"
proof (induction rs arbitrary: cache as whys cache')
  case (Cons r rs)
  show ?case
  proof (cases "route_turned_away (ww_gateway w) r")
    case (Some why)
    then show ?thesis using Cons by (fastforce split: prod.splits)
  next
    case None
    obtain found cache1 where found: "provider_for w r ws cache = (found, cache1)" by (cases "provider_for w r ws cache")
    obtain as1 whys1 cache2 where rest: "route_attempts w ws rs cache1 = ((as1, whys1), cache2)"
      by (cases "route_attempts w ws rs cache1") auto
    have "kept_ok held cache1" "\<forall>p. found = Some p \<longrightarrow> serves w ws r p"
      using provider_for_serves [OF Cons.prems(1) assms found] by blast+
    then show ?thesis using Cons.IH [OF _ rest] Cons.prems(2) None found rest by (cases found) auto
  qed
qed simp

lemma request_model: "cr_model (request_for settings a req) = or_else (at_model a) (cr_model req)"
  by (auto simp: request_for_def apply_settings_def split: option.split)

text \<open>What is kept between requests stays what was built.\<close>

lemma kept_ok_stays:
  assumes "chat_completions w clock settings call db authenticated traffic began req cache sh = (res, cache', sh', logs)"
    and "kept_ok held cache" "one_address held w"
  shows "kept_ok held cache'"
proof -
  have "kept_ok held c" if "attempts w db ws traffic began cache = ((as, whys), c)" for ws as whys c
    using that route_attempts_serve [OF assms(3,2)] assms(2)
    by (auto simp: attempts_def Let_def split: option.splits if_splits)
  then show ?thesis
    using assms(1,2) by (auto simp: chat_completions_def split: sum.splits prod.splits ended.splits)
qed

text \<open>
  C8. Where a workspace's traffic has a chain, nobody else is asked: every request that leaves goes to a route of that
  chain the gateway may reach -- at its base URL, in its protocol, for its model, with the key its seal opens to now for that workspace
  and host -- and never to another vendor because those were turned away.
\<close>

theorem configured_chain_is_all_that_is_asked:
  assumes "chat_completions w clock settings call (Some tables) (Inr claims) traffic began req cache sh = (res, cache', sh', logs)"
    and "has_database (ww_gateway w)" "routes_for_turn tables (claim_workspace claims) traffic began \<noteq> []"
    and "kept_ok held cache" "one_address held w"
  shows "\<forall>s \<in> set logs. \<exists>r \<in> set (routes_for_turn tables (claim_workspace claims) traffic began).
    route_turned_away (ww_gateway w) r = None \<and> serves w (claim_workspace claims) r (sn_provider s) \<and>
    cr_model (sn_request s) = ro_model r"
proof (cases "logs = []")
  case False
  then obtain as whys cache' how st where at: "attempts w (Some tables) (claim_workspace claims) traffic began cache = ((as, whys), cache')"
    and "walk w clock settings call \<lparr>caller_workspace = claim_workspace claims, caller_session = claim_subject claims\<rparr> req as 0
       \<lparr>wk_shared = sh, wk_passed = \<lparr>po_first = None, po_why = None, po_turned_away = whys\<rparr>, wk_error = None\<rparr> = (how, st, logs)"
    using sent_log [OF assms(1)] by auto
  then have "list_all (\<lambda>s. \<exists>a \<in> set as. sn_provider s = at_provider a \<and> sn_request s = request_for settings a req) logs"
    by (intro walk_asks_attempts)
  moreover have "route_attempts w (claim_workspace claims) (routes_for_turn tables (claim_workspace claims) traffic began) cache =
      ((as, whys), cache')"
    using at assms(2,3) by (simp add: attempts_def Let_def)
  ultimately show ?thesis
    using route_attempts_serve [OF assms(5,4)] by (fastforce simp: list_all_iff request_model)
qed simp

text \<open>
  C9. A request a provider may have taken is never sent to another: of all that a chain is asked, everything
  but the last was answered by a failure that says the work was not done -- and was not the request's own
  fault, unless the model asked for was gone.
\<close>

theorem sent_on_only_undone:
  assumes "chat_completions w clock settings call db authenticated traffic began req cache sh = (res, cache', sh', logs)"
    and "logs = before @ s # after" "after \<noteq> []"
  shows "\<exists>e. sn_answer s = Failed e \<and> \<not> may_have_been_taken e \<and> (is_client_error e \<longrightarrow> is_model_gone e)"
proof -
  have "list_all (\<lambda>s. refused_outright (sn_answer s)) (butlast logs)"
    using sent_log [OF assms(1)] walk_goes_on by auto
  moreover have "s \<in> set (butlast logs)" using assms(2,3) by (simp add: butlast_append)
  ultimately show ?thesis by (cases "sn_answer s") (auto simp: list_all_iff refused_outright_def)
qed

section \<open>A model that is gone\<close>

lemma model_circuit_apart: "model_circuit p m \<noteq> endpoint p" "model_circuit p m = model_circuit p m' \<longleftrightarrow> m = m'"
  by simp_all

lemma retired_row:
  assumes "observe_circuit now ep ws Retired c detail (Some db) = Some db'"
  shows "\<exists>r. bd_circuits db' (ep, ws) = Some r \<and> ci_state r = Open \<and> ci_probe_after r = Some (now + backoff RETIRED_FOR)"
  using assms by (auto simp: observe_circuit_def store_circuit_def record_observation_def Let_def)

lemma rejected_while_open:
  assumes "bd_circuits db (ep, ws) = Some r" "ci_state r = Open" "ci_probe_after r = Some due" "t < due"
  shows "\<not> fst (check_circuit t ep ws (Some db))"
  using assms by (simp add: check_circuit_def load_circuit_def new_health_def check_def Let_def)

lemma check_elsewhere:
  assumes "check_circuit t ep ws (Some db) = (ok, sh)" "(ep, ws) \<noteq> (ep', ws')"
  shows "\<exists>db'. sh = Some db' \<and> bd_circuits db' (ep', ws') = bd_circuits db (ep', ws')"
  using assms claim_elsewhere [OF assms(2), of t db]
  by (auto simp: check_circuit_def split: verdict.splits prod.splits)

text \<open>
  C31. A model its provider no longer has is that model's circuit and no other's: the failure that says so leaves
  the endpoint's health, and every other model's there, as they were, and the model is not asked for there
  again for a day.
\<close>

theorem gone_model_rests_alone:
  assumes "is_model_gone err" "learn e now p model c (Some err) (Some (Some db)) = sh"
  shows "\<exists>db'. sh = Some (Some db') \<and>
    bd_circuits db' (endpoint p, None) = bd_circuits db (endpoint p, None) \<and>
    (\<forall>m. m \<noteq> model \<longrightarrow> bd_circuits db' (model_circuit p m, None) = bd_circuits db (model_circuit p m, None)) \<and>
    (\<forall>t. t < now + backoff RETIRED_FOR \<longrightarrow> \<not> fst (admits t p model sh))"
proof -
  have client: "is_client_error err" using gone_is_client_error [OF assms(1)] by blast
  have "observation_for err = NotEvidence"
    using assms(1) client by (cases err) (simp_all add: observation_for_def)
  moreover obtain db' where db': "observe_circuit now (model_circuit p model) None Retired c (Some (error_text e err)) (Some db) = Some db'"
    by (simp add: observe_circuit_def Let_def)
  ultimately have sh: "sh = Some (Some db')" using assms by (simp add: learn_def observe_circuit_def Let_def)
  have rests: "\<not> fst (admits t p model sh)" if "t < now + backoff RETIRED_FOR" for t
  proof -
    obtain r where r: "bd_circuits db' (model_circuit p model, None) = Some r" "ci_state r = Open"
      "ci_probe_after r = Some (now + backoff RETIRED_FOR)"
      using retired_row [OF db'] by blast
    obtain ok db1 where first: "check_circuit t (endpoint p) None (Some db') = (ok, Some db1)"
      "bd_circuits db1 (model_circuit p model, None) = bd_circuits db' (model_circuit p model, None)"
      using check_elsewhere [of t "endpoint p" None db' _ _ "model_circuit p model" None] model_circuit_apart(1) [of p model]
      by (cases "check_circuit t (endpoint p) None (Some db')") fastforce
    have "\<not> fst (check_circuit t (model_circuit p model) None (Some db1))"
      using rejected_while_open [of db1 "model_circuit p model" None r] r first(2) that by simp
    then show ?thesis using first(1) by (cases ok) (auto simp: admits_def sh split: prod.split)
  qed
  have elsewhere: "bd_circuits db' (ep, None) = bd_circuits db (ep, None)" if "ep \<noteq> model_circuit p model" for ep
    using observe_elsewhere [of "model_circuit p model" None ep None, OF _ db'] that by blast
  show ?thesis
  proof (intro exI conjI allI impI)
    show "sh = Some (Some db')" by (rule sh)
    show "bd_circuits db' (endpoint p, None) = bd_circuits db (endpoint p, None)"
      using elsewhere model_circuit_apart(1) [of p model] by metis
    show "bd_circuits db' (model_circuit p m, None) = bd_circuits db (model_circuit p m, None)" if "m \<noteq> model" for m
      using elsewhere model_circuit_apart(2) [of p m model] that by metis
    show "\<not> fst (admits t p model sh)" if "t < now + backoff RETIRED_FOR" for t by (rule rests [OF that])
  qed
qed

section \<open>A key that moved to another variable\<close>

text \<open>
  A kept provider is rebuilt where its base URL, its protocol or its sealed key changed. An account whose key is
  named in the environment and is given another name keeps being asked with the old key.
\<close>

lemma moved_variable_unnoticed:
  assumes "provider_for w r ws cache = (Some p, cache1)" "ro_credential_id r = None"
    and "cache (ro_account r) = None"
  shows "provider_for w (r\<lparr>ro_credential_ref := other\<rparr>) ws cache1 = (Some p, cache1)"
  using assms by (auto simp: provider_for_def same_key_def split: option.splits)

section \<open>Witnesses\<close>

definition two_statics :: walk_world where
  "two_statics = \<lparr>ww_gateway = example_world\<lparr>has_database := False\<rparr>, ww_sealed = (\<lambda>_. Inl []), ww_aws = (\<lambda>_. None),
     ww_static = [StaticAt ''a'', StaticAt ''b'']\<rparr>"

definition hello :: completion_request where
  "hello = \<lparr>cr_model = ''m'', cr_messages = [], cr_temperature = None, cr_max_tokens = None, cr_tools = None, cr_effort = None, cr_facts = None\<rparr>"

definition first_unreached :: "nat \<Rightarrow> llm_provider \<Rightarrow> completion_request \<Rightarrow> nat called" where
  "first_unreached n p req = (if n = 0 then Failed (Unreached ''x'') else Heard 5)"

definition to_two :: "(chat_error + nat ended \<times> fallback_row option) \<times> provider_cache \<times> shared \<times> nat sent list" where
  "to_two = chat_completions two_statics (\<lambda>_. 0) None first_unreached None (Inr example_claims) ''assistant'' None hello (\<lambda>_. None) None"

lemma to_two_sent: "snd (snd (snd to_two)) =
    [\<lparr>sn_provider = StaticAt ''a'', sn_request = hello, sn_answer = Failed (Unreached ''x'')\<rparr>,
     \<lparr>sn_provider = StaticAt ''b'', sn_request = hello, sn_answer = Heard 5\<rparr>]"
  by (simp add: to_two_def chat_completions_def attempts_def two_statics_def static_attempts_def first_unreached_def hello_def
      admits_def request_for_def apply_settings_def with_policy_hint_def timed_out_def ends_the_walk_def learn_def Let_def)

theorem sent_on_only_undone_witness:
  "\<exists>e. sn_answer (hd (snd (snd (snd to_two)))) = Failed e \<and> \<not> may_have_been_taken e"
proof -
  obtain res kept sh logs where all: "to_two = (res, kept, sh, logs)" by (cases to_two)
  have "logs = [] @ hd logs # tl logs" "tl logs \<noteq> []" using to_two_sent unfolding all by simp_all
  from sent_on_only_undone [OF all [unfolded to_two_def] this] show ?thesis unfolding all by auto
qed

definition to_offered :: "(chat_error + nat ended \<times> fallback_row option) \<times> provider_cache \<times> shared \<times> nat sent list" where
  "to_offered = chat_completions two_statics (\<lambda>_. 0) (Some (settings_of (\<lambda>_. None) [] (\<lambda>_. None) 1 None)) first_unreached None
     (Inr example_claims) ''assistant'' None hello (\<lambda>_. None) None"

lemma to_offered_sent: "map (cr_facts \<circ> sn_request) (snd (snd (snd to_offered))) = [None, None]"
  by (simp add: to_offered_def chat_completions_def attempts_def two_statics_def static_attempts_def first_unreached_def hello_def
      admits_def request_for_def apply_settings_def settings_of_def with_policy_hint_def timed_out_def ends_the_walk_def learn_def Let_def)

theorem asked_with_what_it_takes_witness:
  "\<exists>s level. s \<in> set (snd (snd (snd to_offered))) \<and> cr_effort (sn_request s) = Some level \<and> effort_offered default_facts level"
proof -
  obtain res kept sh logs where all: "to_offered = (res, kept, sh, logs)" by (cases to_offered)
  obtain s where s: "s \<in> set logs" "cr_facts (sn_request s) = None" using to_offered_sent unfolding all by (cases logs) auto
  from asked_with_what_it_takes [OF all [unfolded to_offered_def] s(1)] show ?thesis
    using s unfolding all by (auto simp: Let_def hello_def)
qed

definition lone_tables :: chain_tables where
  "lone_tables = \<lparr>ch_assignments = [\<lparr>as_workspace = None, as_traffic = ''assistant'', as_chain = 1\<rparr>],
     ch_links = [\<lparr>cl_chain = 1, cl_model = 2, cl_position = 0\<rparr>],
     ch_models = [\<lparr>mr_id = 2, mr_model = ''m'', mr_facts = None, mr_overrides = JNull, mr_previous_model = None,
       mr_previous_facts = None, mr_changed_at = None, mr_account = 3\<rparr>],
     ch_accounts = [\<lparr>ac_id = 3, ac_protocol = ''openai'', ac_base_url = ''u'', ac_credential_env = None, ac_credential_id = None\<rparr>]\<rparr>"

definition lone_route :: route where
  "lone_route = \<lparr>ro_model_id = 2, ro_account = 3, ro_provider = ''openai'', ro_base_url = ''u'', ro_model = ''m'',
     ro_credential_ref = None, ro_credential_id = None, ro_facts = facts_of None (Some JNull)\<rparr>"

definition lone_world :: walk_world where
  "lone_world = two_statics\<lparr>ww_gateway := example_world\<rparr>"

lemma lone_routes: "routes_for_turn lone_tables 1 ''assistant'' None = [lone_route]"
  by (simp add: routes_for_turn_def links_for_def links_of_def owner_of_def lone_tables_def borrows_from_def traffic_defs
      link_of_def route_of_def for_turn_begun_def lone_route_def Let_def)

lemma lone_reachable: "route_turned_away example_world lone_route = None"
  using example_name by (simp add: route_turned_away_def example_world_def example_url_def internal_allows_def)

definition to_lone :: "(chat_error + nat ended \<times> fallback_row option) \<times> provider_cache \<times> shared \<times> nat sent list" where
  "to_lone = chat_completions lone_world (\<lambda>_. 0) None (\<lambda>n p req. Heard 5) (Some lone_tables) (Inr example_claims)
     ''assistant'' None hello (\<lambda>_. None) None"

lemma to_lone_sent: "map sn_provider (snd (snd (snd to_lone))) = [OpenAiAt ''u'' None]"
proof -
  have "provider_for lone_world lone_route 1 (\<lambda>_. None) =
      (Some (OpenAiAt ''u'' None), [3 \<mapsto> \<lparr>kp_provider = OpenAiAt ''u'' None, kp_base_url = ''u'', kp_protocol = ''openai'', kp_sealed = None\<rparr>])"
    by (simp add: provider_for_def lone_route_def provider_key_def build_provider_def)
  then have "attempts lone_world (Some lone_tables) 1 ''assistant'' None (\<lambda>_. None) =
      (([\<lparr>at_provider = OpenAiAt ''u'' None, at_model = Some ''m'', at_facts = Some (ro_facts lone_route), at_model_id = Some 2\<rparr>], []),
       [3 \<mapsto> \<lparr>kp_provider = OpenAiAt ''u'' None, kp_base_url = ''u'', kp_protocol = ''openai'', kp_sealed = None\<rparr>])"
    using lone_reachable
    by (simp add: attempts_def lone_routes lone_world_def) (simp add: example_world_def lone_route_def)
  then show ?thesis
    by (simp add: to_lone_def chat_completions_def example_claims_def admits_def request_for_def apply_settings_def Let_def)
qed

theorem configured_chain_is_all_that_is_asked_witness:
  "\<exists>s. set (snd (snd (snd to_lone))) = {s} \<and> cr_model (sn_request s) = ''m'' \<and> serves lone_world 1 lone_route (sn_provider s)"
proof -
  obtain res kept sh logs where all: "to_lone = (res, kept, sh, logs)" by (cases to_lone)
  have "has_database (ww_gateway lone_world)" by (simp add: lone_world_def example_world_def)
  moreover have "routes_for_turn lone_tables (claim_workspace example_claims) ''assistant'' None \<noteq> []"
    by (simp add: example_claims_def lone_routes)
  moreover have "kept_ok (\<lambda>_. undefined) (\<lambda>_. None)" "one_address (\<lambda>_. undefined) lone_world"
    by (simp_all add: kept_ok_def one_address_def lone_world_def two_statics_def)
  ultimately have "\<forall>s \<in> set logs. serves lone_world 1 lone_route (sn_provider s) \<and> cr_model (sn_request s) = ''m''"
    using configured_chain_is_all_that_is_asked [OF all [unfolded to_lone_def]]
    by (simp add: example_claims_def lone_routes) (simp add: lone_route_def)
  moreover obtain s where "logs = [s]" using to_lone_sent unfolding all by auto
  ultimately show ?thesis unfolding all by simp
qed

definition gone :: provider_error where
  "gone = Upstream (Some 404) ''model not found''"

theorem gone_model_rests_alone_witness:
  "is_model_gone gone \<and>
   \<not> fst (admits 5 (StaticAt ''a'') ''m'' (learn toy_outside 0 (StaticAt ''a'') ''m'' (somebody 1) (Some gone) (Some (Some quiet_db))))"
proof -
  have "is_model_gone gone" unfolding gone_def by code_simp
  moreover have "(5::int) < 0 + backoff RETIRED_FOR" by (simp add: backoff_def breaker_constants i64_max_def)
  ultimately show ?thesis
    using gone_model_rests_alone [of gone toy_outside 0 "StaticAt ''a''" "''m''" "somebody 1" quiet_db] by blast
qed

end
