(* ===== verification/Steering.thy ===== *)
theory Steering
  imports WakeNotes Walk
begin

text \<open>
  Speaking to a turn while it runs: \<open>take_pending\<close> of \<open>crates/gateway/src/routing.rs\<close>, the streaming handler of
  \<open>crates/gateway/src/router.rs\<close> that carries what was said and why it was stopped, and the part of
  \<open>prepare_turn\<close> (\<open>crates/api/src/worker/turn.rs\<close>) that begins a reply, with its statements in
  \<open>crates/api/src/chat/postgres.rs\<close>. A message is a row with the columns those statements read besides; what a
  reply said so far is a flag of its row, as \<open>said_something\<close> answers for the row and for its events.
\<close>

section \<open>The rows\<close>

record talk_row = message_row +
  ms_delivery :: string
  ms_attempt :: nat
  ms_finished :: bool
  ms_said :: bool
  ms_streamed :: bool

type_synonym talk = "talk_row list"

definition row_at :: "talk \<Rightarrow> uuid \<Rightarrow> talk_row option" where
  "row_at rows i = find (\<lambda>r. ms_id r = i) rows"

definition answered :: "talk \<Rightarrow> uuid \<Rightarrow> bool" where
  "answered rows i \<longleftrightarrow> list_ex (\<lambda>r. ms_replies_to r = Some i) rows"

section \<open>Taking what was said since\<close>

text \<open>Who sent the prompt a reply answers: nobody, where either row is not there.\<close>

definition asker_of :: "talk \<Rightarrow> uuid \<Rightarrow> uuid option" where
  "asker_of rows reply =
     Option.bind (row_at rows reply) (\<lambda>r. Option.bind (ms_replies_to r) (\<lambda>p. Option.bind (row_at rows p) ms_user))"

text \<open>A message that invokes a skill waits for a turn of its own, and what came after it waits behind it.\<close>

definition invokes_skill :: "talk_row \<Rightarrow> bool" where
  "invokes_skill r \<longleftrightarrow> json_get (ms_metadata r) ''skill'' \<noteq> None"

definition behind_invocation :: "talk \<Rightarrow> uuid \<Rightarrow> talk_row \<Rightarrow> bool" where
  "behind_invocation rows session_id u \<longleftrightarrow>
     list_ex (\<lambda>s. ms_session s = session_id \<and> ms_role s = ''user'' \<and> invokes_skill s \<and> ms_id s \<le> ms_id u \<and>
       ms_absorbed_by s = None \<and> \<not> answered rows (ms_id s)) rows"

definition may_be_taken :: "talk \<Rightarrow> uuid \<Rightarrow> uuid \<Rightarrow> talk_row \<Rightarrow> bool" where
  "may_be_taken rows session_id reply u \<longleftrightarrow>
     ms_session u = session_id \<and> ms_role u = ''user'' \<and> ms_absorbed_by u = None \<and> ms_user u = asker_of rows reply \<and>
     \<not> answered rows (ms_id u) \<and> \<not> behind_invocation rows session_id u"

record pending =
  pd_id :: uuid
  pd_content :: string
  pd_delivery :: string

definition pending_of :: "talk_row \<Rightarrow> pending" where
  "pending_of u = \<lparr>pd_id = ms_id u, pd_content = ms_content u, pd_delivery = ms_delivery u\<rparr>"

text \<open>One statement: rows somebody else has locked are passed over. In which order it returns them is the database's.\<close>

definition take_pending :: "(uuid \<Rightarrow> bool) \<Rightarrow> uuid \<Rightarrow> uuid \<Rightarrow> talk \<Rightarrow> pending list \<times> talk" where
  "take_pending locked session_id reply rows =
     (let taken = (\<lambda>u. may_be_taken rows session_id reply u \<and> \<not> locked (ms_id u)) in
      (map pending_of (filter taken rows),
       map (\<lambda>u. if taken u then u\<lparr>ms_absorbed_by := Some reply\<rparr> else u) rows))"

section \<open>Beginning a reply\<close>

definition was_absorbed :: "talk \<Rightarrow> uuid \<Rightarrow> bool" where
  "was_absorbed rows i \<longleftrightarrow> Option.bind (row_at rows i) ms_absorbed_by \<noteq> None"

text \<open>The last attempt at answering a message.\<close>

definition latest_reply :: "talk \<Rightarrow> uuid \<Rightarrow> talk_row option" where
  "latest_reply rows p =
     (case filter (\<lambda>r. ms_replies_to r = Some p) rows of
        [] \<Rightarrow> None
      | rs \<Rightarrow> Some (last (sort_key ms_attempt rs)))"

text \<open>A reply cut off, sealed from its events where they said something; then what is sealed says it too.\<close>

definition seal_interrupted :: "uuid \<Rightarrow> talk \<Rightarrow> bool \<times> talk" where
  "seal_interrupted i rows =
     (if list_ex (\<lambda>r. ms_id r = i \<and> ms_streamed r) rows
      then (True, map (\<lambda>r. if ms_id r = i \<and> \<not> ms_finished r then r\<lparr>ms_said := True, ms_finished := True\<rparr> else r) rows)
      else (False, rows))"

definition attempt_for :: "uuid \<Rightarrow> bool \<Rightarrow> talk \<Rightarrow> nat \<times> talk" where
  "attempt_for p resuming rows =
     (case latest_reply rows p of
        None \<Rightarrow> (1, rows)
      | Some r \<Rightarrow>
          if ms_finished r \<and> resuming then (ms_attempt r + 1, rows)
          else if ms_said r then (ms_attempt r + 1, rows)
          else if ms_finished r then (ms_attempt r, rows)
          else (case seal_interrupted (ms_id r) rows of
              (True, rows') \<Rightarrow> (ms_attempt r + 1, rows')
            | (False, rows') \<Rightarrow> (ms_attempt r, rows')))"

definition placeholder :: "time \<Rightarrow> uuid \<Rightarrow> uuid \<Rightarrow> uuid \<Rightarrow> nat \<Rightarrow> talk_row" where
  "placeholder now fresh p session_id attempt =
     \<lparr>ms_id = fresh, ms_session = session_id, ms_role = ''assistant'', ms_content = [], ms_user = None, ms_metadata = JObj [],
      ms_created = now, ms_replies_to = Some p, ms_absorbed_by = None, ms_delivery = ''steer'', ms_attempt = attempt,
      ms_finished = False, ms_said = False, ms_streamed = False\<rparr>"

text \<open>The reply of an attempt, made or taken back; whether it was made is told.\<close>

definition claim_placeholder :: "time \<Rightarrow> uuid \<Rightarrow> uuid \<Rightarrow> uuid \<Rightarrow> nat \<Rightarrow> talk \<Rightarrow> (bool \<times> uuid) \<times> talk" where
  "claim_placeholder now fresh p session_id attempt rows =
     (case find (\<lambda>r. ms_replies_to r = Some p \<and> ms_attempt r = attempt) rows of
        Some r \<Rightarrow> ((False, ms_id r), rows)
      | None \<Rightarrow> ((True, fresh), rows @ [placeholder now fresh p session_id attempt]))"

definition put_back :: "uuid \<Rightarrow> uuid \<Rightarrow> talk \<Rightarrow> talk" where
  "put_back reply session_id rows =
     map (\<lambda>u. if ms_absorbed_by u = Some reply \<and> ms_session u = session_id then u\<lparr>ms_absorbed_by := None\<rparr> else u) rows"

text \<open>
  A turn begins: nothing where its message was answered in another; else its reply, and what a lost try at it took
  goes back. What the browser is told of either is left out.
\<close>

definition start_reply :: "time \<Rightarrow> uuid \<Rightarrow> uuid \<Rightarrow> uuid \<Rightarrow> bool \<Rightarrow> talk \<Rightarrow> uuid \<times> talk" where
  "start_reply now fresh p session_id resuming rows =
     (case attempt_for p resuming rows of
        (attempt, rows1) \<Rightarrow>
          (case claim_placeholder now fresh p session_id attempt rows1 of
             ((created, reply), rows2) \<Rightarrow> (reply, if created then rows2 else put_back reply session_id rows2)))"

definition begin_reply :: "time \<Rightarrow> uuid \<Rightarrow> uuid \<Rightarrow> uuid \<Rightarrow> bool \<Rightarrow> talk \<Rightarrow> uuid option \<times> talk" where
  "begin_reply now fresh p session_id resuming rows =
     (if was_absorbed rows p then (None, rows)
      else (case start_reply now fresh p session_id resuming rows of (reply, rows') \<Rightarrow> (Some reply, rows')))"

definition let_go :: "uuid list \<Rightarrow> talk_row \<Rightarrow> talk_row" where
  "let_go ids u = (if list_ex (\<lambda>i. ms_absorbed_by u = Some i) ids then u\<lparr>ms_absorbed_by := None\<rparr> else u)"

text \<open>A last attempt given up: the reply goes if it said nothing, and what it had taken is nobody's again.\<close>

definition discard_placeholder :: "uuid \<Rightarrow> nat \<Rightarrow> talk \<Rightarrow> talk" where
  "discard_placeholder p attempt rows =
     (let this = (\<lambda>r. ms_replies_to r = Some p \<and> ms_attempt r = attempt);
          rows1 = (case find (\<lambda>r. this r \<and> \<not> ms_finished r) rows of
              Some r \<Rightarrow> snd (seal_interrupted (ms_id r) rows)
            | None \<Rightarrow> rows);
          goes = (\<lambda>r. this r \<and> \<not> ms_said r) in
      map (let_go (map ms_id (filter goes rows1))) (filter (\<lambda>r. \<not> goes r) rows1))"

section \<open>A wait that ends\<close>

text \<open>
  The messages a note answers are marked as taken by it, in the statements of \<open>write_note\<close>, over rows with
  the columns kept here.
\<close>

definition wake_talk :: "outside \<Rightarrow> calendar \<Rightarrow> time \<Rightarrow> uuid \<Rightarrow> wake_note \<Rightarrow> talk \<Rightarrow> talk" where
  "wake_talk e c woke_at note_id n rows =
     (let queued = wake_answers (WakeNotes.unanswered rows n) in
      absorb note_id (map ms_id queued) (rows @
        [\<lparr>ms_id = note_id, ms_session = wn_session n, ms_role = ''user'', ms_content = compose c n woke_at (map ms_created queued),
          ms_user = None, ms_metadata = wake_metadata e c n woke_at (map ms_id queued), ms_created = woke_at, ms_replies_to = None,
          ms_absorbed_by = None, ms_delivery = ''steer'', ms_attempt = 1, ms_finished = False, ms_said = True, ms_streamed = False\<rparr>]))"

lemma truncated [simp]:
  "ms_id (message_row.truncate r) = ms_id r" "ms_session (message_row.truncate r) = ms_session r"
  "ms_role (message_row.truncate r) = ms_role r" "ms_user (message_row.truncate r) = ms_user r"
  "ms_created (message_row.truncate r) = ms_created r" "ms_replies_to (message_row.truncate r) = ms_replies_to r"
  "ms_absorbed_by (message_row.truncate r) = ms_absorbed_by r"
  "message_row.truncate (r\<lparr>ms_absorbed_by := i\<rparr>) = (message_row.truncate r)\<lparr>ms_absorbed_by := i\<rparr>"
  by (simp_all add: message_row.truncate_def)

lemma insort_key_map: "insort_key f (g x) (map g xs) = map g (insort_key (\<lambda>x. f (g x)) x xs)"
  by (induction xs) simp_all

lemma sort_key_map: "sort_key f (map g xs) = map g (sort_key (\<lambda>x. f (g x)) xs)"
  by (induction xs) (simp_all add: insort_key_map)

lemma unanswered_truncated: "WakeNotes.unanswered (map message_row.truncate rows) n = map message_row.truncate (WakeNotes.unanswered rows n)"
  by (simp add: WakeNotes.unanswered_def filter_map sort_key_map o_def waits_unanswered_def [abs_def] list_ex_iff)

lemma wake_answers_truncated: "wake_answers (map message_row.truncate rows) = map message_row.truncate (wake_answers rows)"
  by (cases rows) (simp_all add: wake_answers_def wake_asker_def filter_map o_def)

lemma wake_talk_is_write_note:
  assumes "ds_messages ds = map message_row.truncate rows"
  shows "ds_messages (snd (write_note e c t note_id ji n ds)) = map message_row.truncate (wake_talk e c t note_id n rows)"
proof -
  have "map ms_id (wake_answers (WakeNotes.unanswered (ds_messages ds) n)) = map ms_id (wake_answers (WakeNotes.unanswered rows n))"
    "map ms_created (wake_answers (WakeNotes.unanswered (ds_messages ds) n)) = map ms_created (wake_answers (WakeNotes.unanswered rows n))"
    by (simp_all add: assms unanswered_truncated wake_answers_truncated o_def)
  then show ?thesis
    unfolding write_note_messages wake_talk_def Let_def absorb_def assms
    by (simp add: o_def if_distrib [of message_row.truncate] cong: if_cong) (simp add: message_row.truncate_def)
qed

section \<open>The stream that carries it\<close>

definition header_text :: "headers \<Rightarrow> string \<Rightarrow> string option" where
  "header_text hs name =
     Option.bind (map_of hs name) (\<lambda>v. if list_all (\<lambda>c. c = CHR 0x09 \<or> (32 \<le> byte_val c \<and> byte_val c < 127)) v then Some v else None)"

definition REPLY_HEADER :: string where "REPLY_HEADER = ''x-outturn-reply''"
definition TRAFFIC_HEADER :: string where "TRAFFIC_HEADER = ''x-outturn-traffic''"

definition reply_id :: "(string \<Rightarrow> uuid option) \<Rightarrow> headers \<Rightarrow> uuid option" where
  "reply_id parse_uuid hs = Option.bind (header_text hs REPLY_HEADER) parse_uuid"

definition traffic_type :: "headers \<Rightarrow> string" where
  "traffic_type hs =
     (case header_text hs TRAFFIC_HEADER of
        Some v \<Rightarrow> if trim v = [] then DEFAULT_TRAFFIC_TYPE else trim v
      | None \<Rightarrow> DEFAULT_TRAFFIC_TYPE)"

text \<open>What a turn takes, and what the browser is told of it. Without a database, or a reply to take it for, nothing.\<close>

definition absorbed_event :: "outside \<Rightarrow> uuid \<Rightarrow> uuid \<Rightarrow> uuid \<Rightarrow> pending \<Rightarrow> event_row" where
  "absorbed_event e workspace_id session_id reply m =
     \<lparr>ev_workspace = workspace_id, ev_session = Some session_id, ev_kind = ''chat.absorbed'',
      ev_payload = json_object [(''message_id'', JStr (uuid_text e (pd_id m))), (''absorbed_by'', JStr (uuid_text e reply))]\<rparr>"

definition take_for_turn :: "outside \<Rightarrow> bool \<Rightarrow> (uuid \<Rightarrow> bool) \<Rightarrow> uuid \<Rightarrow> uuid \<Rightarrow> uuid option \<Rightarrow> talk \<times> event_row list \<Rightarrow>
    pending list \<times> talk \<times> event_row list" where
  "take_for_turn e has_pool locked workspace_id session_id reply st =
     (case (if has_pool then reply else None) of
        None \<Rightarrow> ([], st)
      | Some r \<Rightarrow>
          (case take_pending locked session_id r (fst st) of
             (taken, rows) \<Rightarrow> (taken, rows, snd st @ map (absorbed_event e workspace_id session_id r) taken)))"

text \<open>Whether a person stopped the turn, or a hold did, and why.\<close>

definition cancel_seen :: "(string \<Rightarrow> uuid option) \<Rightarrow> job list \<Rightarrow> uuid \<Rightarrow> uuid \<Rightarrow> bool" where
  "cancel_seen parse_uuid jobs workspace_id session_id =
     (case live_turn_for_session parse_uuid jobs workspace_id session_id of
        Some i \<Rightarrow> cancel_requested jobs i
      | None \<Rightarrow> False)"

definition held_for :: "(uuid \<Rightarrow> uuid option) \<Rightarrow> hold_row list \<Rightarrow> uuid \<Rightarrow> uuid \<Rightarrow> string option" where
  "held_for agent_of standing workspace_id session_id =
     (case covering_session agent_of standing workspace_id session_id of
        Inl _ \<Rightarrow> None
      | Inr held \<Rightarrow> if dc_verdict (decide held) = Stop then Some (why (decide held)) else None)"

definition stop_polled ::
  "(string \<Rightarrow> uuid option) \<Rightarrow> (uuid \<Rightarrow> uuid option) \<Rightarrow> bool \<Rightarrow> job list \<Rightarrow> hold_row list \<Rightarrow> uuid \<Rightarrow> uuid \<Rightarrow> string option option" where
  "stop_polled parse_uuid agent_of has_pool jobs standing workspace_id session_id =
     (if \<not> has_pool then None
      else if cancel_seen parse_uuid jobs workspace_id session_id then Some None
      else map_option Some (held_for agent_of standing workspace_id session_id))"

definition pending_json :: "outside \<Rightarrow> pending \<Rightarrow> json" where
  "pending_json e m = json_object [(''id'', JStr (uuid_text e (pd_id m))), (''content'', JStr (pd_content m)), (''delivery'', JStr (pd_delivery m))]"

definition trailer :: "outside \<Rightarrow> pending list \<Rightarrow> string option option \<Rightarrow> json option" where
  "trailer e taken stop =
     (let said = (if taken = [] then [] else [(''pending'', JArr (map (pending_json e) taken))]) @
            (case stop of
               None \<Rightarrow> []
             | Some held \<Rightarrow> (''cancelled'', JBool True) # (case held of None \<Rightarrow> [] | Some reason \<Rightarrow> [(''held'', JStr reason)])) in
      if said = [] then None else Some (json_object [(''outturn'', json_object said)]))"

text \<open>
  The streaming handler. What the poll found by the time the last line is written is an argument; a provider
  that was stopped before it answered is a \<open>Halted\<close> call.
\<close>

datatype 'r streamed =
    Refused refusal
  | Streaming llm_provider 'r "json option"
  | OnlyTrailer llm_provider "json option"
  | StreamFailed bool string

definition chat_completions_stream ::
  "walk_world \<Rightarrow> (nat \<Rightarrow> time) \<Rightarrow> (uuid option \<Rightarrow> model_facts \<Rightarrow> model_settings option) option \<Rightarrow>
    (nat \<Rightarrow> llm_provider \<Rightarrow> completion_request \<Rightarrow> 'r called) \<Rightarrow> chain_tables option \<Rightarrow> refusal + session_claims \<Rightarrow> string \<Rightarrow> time option \<Rightarrow>
    uuid option \<Rightarrow> (uuid \<Rightarrow> bool) \<Rightarrow> string option option \<Rightarrow> completion_request \<Rightarrow> provider_cache \<Rightarrow> shared \<Rightarrow> talk \<times> event_row list \<Rightarrow>
    ('r streamed \<times> fallback_row option) \<times> provider_cache \<times> shared \<times> 'r sent list \<times> talk \<times> event_row list" where
  "chat_completions_stream w clock settings call db authenticated traffic began reply locked stop req cache sh st =
     (case authenticated of
        Inl refused \<Rightarrow> ((Refused refused, None), cache, sh, [], st)
      | Inr claims \<Rightarrow>
          (case take_for_turn (gw_outside (ww_gateway w)) (has_database (ww_gateway w)) locked (claim_workspace claims)
              (claim_subject claims) reply st of
             (taken, st1) \<Rightarrow>
               (case attempts w db (claim_workspace claims) traffic began cache of
                  ((as, whys), cache') \<Rightarrow>
                    (case walk w clock settings call \<lparr>caller_workspace = claim_workspace claims, caller_session = claim_subject claims\<rparr>
                        req as 0 \<lparr>wk_shared = sh, wk_passed = \<lparr>po_first = None, po_why = None, po_turned_away = whys\<rparr>, wk_error = None\<rparr> of
                       (Answered a model r, ws, logs) \<Rightarrow>
                         ((Streaming (at_provider a) r (trailer (gw_outside (ww_gateway w)) taken stop), fallback (wk_passed ws) a model),
                          cache', wk_shared ws, logs, st1)
                     | (StoppedAt p, ws, logs) \<Rightarrow>
                         ((OnlyTrailer p (trailer (gw_outside (ww_gateway w)) taken stop), None), cache', wk_shared ws, logs, st1)
                     | (Unanswered, ws, logs) \<Rightarrow>
                         ((StreamFailed (case wk_error ws of Some err \<Rightarrow> is_malformed_reply err | None \<Rightarrow> False)
                             (unanswered (gw_outside (ww_gateway w)) (wk_passed ws) (wk_error ws) traffic), None),
                          cache', wk_shared ws, logs, st1)))))"

section \<open>A conversation under way\<close>

text \<open>
  Everything that happens to its messages: somebody says something (or an answer or a summary is recorded), a
  turn begins to answer, a running turn takes what was said since, a reply says something, is finished, or is
  given up, a sleep or a timer ends with a note. Beginning is one step because the turns of a conversation share a key, and jobs of a key run one at
  a time (\<open>one_running_of_a_key\<close>), so nothing is taken for another of them meanwhile, and a conversation that
  waits is one whose turns find its hold; what that leaves open is \<open>woken_while_beginning\<close> below. Nothing else
  writes who took a message, and nothing calls \<open>delete_message\<close>.
\<close>

inductive talk_step :: "talk \<Rightarrow> talk \<Rightarrow> bool" where
  says: "ms_id u \<notin> ms_id ` set rows \<Longrightarrow> ms_replies_to u = None \<Longrightarrow> ms_absorbed_by u = None \<Longrightarrow>
    talk_step rows (rows @ [u])"
| begins: "row_at rows p = Some m \<Longrightarrow> ms_replies_to m = None \<Longrightarrow> fresh \<notin> ms_id ` set rows \<Longrightarrow>
    talk_step rows (snd (begin_reply now fresh p session_id resuming rows))"
| takes: "reply \<in> ms_id ` set rows \<Longrightarrow> talk_step rows (snd (take_pending locked session_id reply rows))"
| streams: "talk_step rows (map (\<lambda>r. if ms_id r = i then r\<lparr>ms_streamed := True\<rparr> else r) rows)"
| finishes: "talk_step rows (map (\<lambda>r. if ms_id r = i then r\<lparr>ms_finished := True, ms_said := b\<rparr> else r) rows)"
| gives_up: "talk_step rows (discard_placeholder p attempt rows)"
| wakes: "note_id \<notin> ms_id ` set rows \<Longrightarrow> talk_step rows (wake_talk e c woke_at note_id n rows)"

text \<open>
  Prompts are nobody's reply; what was taken has no reply, and was taken by a note, or for a reply to its own
  sender.
\<close>

definition for_its_asker :: "talk \<Rightarrow> uuid \<Rightarrow> talk_row \<Rightarrow> bool" where
  "for_its_asker rows i u \<longleftrightarrow> (\<exists>r. row_at rows i = Some r \<and> (ms_replies_to r = None \<or> asker_of rows i = ms_user u))"

definition talk_ok :: "talk \<Rightarrow> bool" where
  "talk_ok rows \<longleftrightarrow>
     distinct (map ms_id rows) \<and>
     (\<forall>r \<in> set rows. \<forall>p. ms_replies_to r = Some p \<longrightarrow> (\<exists>m \<in> set rows. ms_id m = p \<and> ms_replies_to m = None)) \<and>
     (\<forall>u \<in> set rows. \<forall>r. ms_absorbed_by u = Some r \<longrightarrow>
        \<not> answered rows (ms_id u) \<and> for_its_asker rows r u)"

lemma talk_okD:
  assumes "talk_ok rows"
  shows "distinct (map ms_id rows)"
    and "r \<in> set rows \<Longrightarrow> ms_replies_to r = Some p \<Longrightarrow> \<exists>m \<in> set rows. ms_id m = p \<and> ms_replies_to m = None"
    and "u \<in> set rows \<Longrightarrow> ms_absorbed_by u = Some i \<Longrightarrow> \<not> answered rows (ms_id u) \<and> for_its_asker rows i u"
  using assms unfolding talk_ok_def by blast+

text \<open>A statement that writes columns no other row is found by.\<close>

definition keeps_place :: "(talk_row \<Rightarrow> talk_row) \<Rightarrow> bool" where
  "keeps_place f \<longleftrightarrow> (\<forall>r. ms_id (f r) = ms_id r \<and> ms_replies_to (f r) = ms_replies_to r \<and> ms_user (f r) = ms_user r)"

lemma keeps_placeD:
  "keeps_place f \<Longrightarrow> ms_id (f r) = ms_id r" "keeps_place f \<Longrightarrow> ms_replies_to (f r) = ms_replies_to r"
  "keeps_place f \<Longrightarrow> ms_user (f r) = ms_user r"
  by (simp_all add: keeps_place_def)

lemma row_at_map: "keeps_place f \<Longrightarrow> row_at (map f rows) i = map_option f (row_at rows i)"
  by (induction rows) (simp_all add: row_at_def keeps_placeD(1) [of f])

lemma asker_of_map [simp]: "keeps_place f \<Longrightarrow> asker_of (map f rows) = asker_of rows"
  by (rule ext) (simp add: asker_of_def row_at_map keeps_placeD [of f] bind_map_option o_def)

lemma answered_map [simp]: "keeps_place f \<Longrightarrow> answered (map f rows) = answered rows"
  by (rule ext) (simp add: answered_def list_ex_iff keeps_placeD [of f])

lemma for_its_asker_map: "keeps_place f \<Longrightarrow> for_its_asker (map f rows) i (f u) = for_its_asker rows i u"
  by (auto simp: for_its_asker_def row_at_map keeps_placeD [of f])

lemma ids_map [simp]: "keeps_place f \<Longrightarrow> map ms_id (map f rows) = map ms_id rows" "keeps_place f \<Longrightarrow> ms_id ` f ` A = ms_id ` A"
  by (simp_all add: keeps_placeD [of f] image_image)

lemma talk_ok_map:
  assumes "talk_ok rows" "keeps_place f"
    and "\<And>u i. u \<in> set rows \<Longrightarrow> ms_absorbed_by (f u) = Some i \<Longrightarrow> ms_absorbed_by u = Some i \<or>
      (\<not> answered rows (ms_id u) \<and> for_its_asker rows i u)"
  shows "talk_ok (map f rows)"
  unfolding talk_ok_def
proof (intro conjI ballI allI impI)
  show "distinct (map ms_id (map f rows))" using assms talk_okD(1) by (simp only: ids_map)
next
  fix r p assume "r \<in> set (map f rows)" "ms_replies_to r = Some p"
  then obtain r0 where "r0 \<in> set rows" "ms_replies_to r0 = Some p" by (auto simp: keeps_placeD [OF assms(2)])
  from talk_okD(2) [OF assms(1) this] show "\<exists>m \<in> set (map f rows). ms_id m = p \<and> ms_replies_to m = None"
    by (auto simp: keeps_placeD [OF assms(2)])
next
  fix u i assume "u \<in> set (map f rows)" and i: "ms_absorbed_by u = Some i"
  then obtain u0 where u0: "u0 \<in> set rows" "u = f u0" by auto
  then have "\<not> answered rows (ms_id u0) \<and> for_its_asker rows i u0"
    using assms(3) [OF u0(1)] i talk_okD(3) [OF assms(1) u0(1)] by blast
  then show "\<not> answered (map f rows) (ms_id u)" "for_its_asker (map f rows) i u"
    using assms(2) u0(2) by (simp_all add: keeps_placeD [OF assms(2)] for_its_asker_map)
qed

lemma row_at_in: "row_at rows i = Some r \<Longrightarrow> r \<in> set rows \<and> ms_id r = i"
  unfolding row_at_def by (auto dest: find_SomeD)

lemma row_at_append: "i \<in> ms_id ` set rows \<Longrightarrow> row_at (rows @ xs) i = row_at rows i"
  by (induction rows) (auto simp: row_at_def)

lemma row_at_unique: "distinct (map ms_id rows) \<Longrightarrow> r \<in> set rows \<Longrightarrow> row_at rows (ms_id r) = Some r"
  by (induction rows) (auto simp: row_at_def)

lemma asker_of_append:
  assumes "talk_ok rows" "i \<in> ms_id ` set rows"
  shows "asker_of (rows @ xs) i = asker_of rows i"
proof (cases "row_at rows i")
  case None
  then show ?thesis by (simp add: asker_of_def row_at_append [OF assms(2)])
next
  case (Some r)
  then have "p \<in> ms_id ` set rows" if "ms_replies_to r = Some p" for p
    using talk_okD(2) [OF assms(1) _ that] row_at_in by blast
  then show ?thesis
    by (cases "ms_replies_to r") (simp_all add: asker_of_def row_at_append assms(2) Some)
qed

lemma for_its_asker_append: "talk_ok rows \<Longrightarrow> for_its_asker rows i u \<Longrightarrow> for_its_asker (rows @ xs) i u"
  using row_at_in unfolding for_its_asker_def by (fastforce simp: row_at_append asker_of_append)

lemma talk_ok_append:
  assumes "talk_ok rows" "ms_id x \<notin> ms_id ` set rows" "ms_absorbed_by x = None"
    and "\<And>p. ms_replies_to x = Some p \<Longrightarrow> \<exists>m. row_at rows p = Some m \<and> ms_replies_to m = None \<and> ms_absorbed_by m = None"
  shows "talk_ok (rows @ [x])"
  unfolding talk_ok_def
proof (intro conjI ballI allI impI)
  show "distinct (map ms_id (rows @ [x]))" using assms(2) talk_okD(1) [OF assms(1)] by simp
next
  fix r p assume "r \<in> set (rows @ [x])" "ms_replies_to r = Some p"
  then consider "r \<in> set rows" "ms_replies_to r = Some p" | "ms_replies_to x = Some p" by auto
  then show "\<exists>m \<in> set (rows @ [x]). ms_id m = p \<and> ms_replies_to m = None"
  proof cases
    case 1
    from talk_okD(2) [OF assms(1) this] show ?thesis by auto
  next
    case 2
    from assms(4) [OF this] show ?thesis by (auto dest: row_at_in)
  qed
next
  fix u i assume u: "u \<in> set (rows @ [x])" and i: "ms_absorbed_by u = Some i"
  have in_rows: "u \<in> set rows" using u i assms(3) by auto
  note old = talk_okD(3) [OF assms(1) in_rows i]
  show "for_its_asker (rows @ [x]) i u" using old for_its_asker_append [OF assms(1)] by blast
  have "ms_replies_to x \<noteq> Some (ms_id u)"
    using assms(4) [of "ms_id u"] row_at_unique [OF talk_okD(1) [OF assms(1)] in_rows] i by fastforce
  then show "\<not> answered (rows @ [x]) (ms_id u)" using old by (simp add: answered_def)
qed

lemma row_at_filter: "distinct (map ms_id rows) \<Longrightarrow> row_at rows i = Some r \<Longrightarrow> P r \<Longrightarrow> row_at (filter P rows) i = Some r"
  by (induction rows) (auto simp: row_at_def split: if_splits)

text \<open>Replies that go, with what pointed at them cleared.\<close>

lemma let_go_keeps [simp]: "keeps_place (let_go ids)"
  by (simp add: keeps_place_def let_go_def)

lemmas let_go_columns [simp] = keeps_placeD [OF let_go_keeps]

lemma let_go_absorbed: "ms_absorbed_by (let_go ids u) = Some i \<longleftrightarrow> ms_absorbed_by u = Some i \<and> i \<notin> set ids"
  by (auto simp: let_go_def list_ex_iff)

lemma asker_of_filter:
  assumes "talk_ok rows" "\<And>r. r \<in> set rows \<Longrightarrow> \<not> Q r \<Longrightarrow> ms_replies_to r \<noteq> None" "r \<in> set rows" "Q r"
  shows "asker_of (filter Q rows) (ms_id r) = asker_of rows (ms_id r)"
proof -
  note d = talk_okD(1) [OF assms(1)]
  have at: "row_at (filter Q rows) (ms_id r) = Some r" "row_at rows (ms_id r) = Some r"
    using row_at_unique [OF d assms(3)] assms(4) by (simp_all add: row_at_filter [OF d])
  show ?thesis
  proof (cases "ms_replies_to r")
    case (Some p)
    obtain m where m: "m \<in> set rows" "ms_id m = p" "ms_replies_to m = None"
      using talk_okD(2) [OF assms(1,3) Some] by blast
    then have "row_at rows p = Some m" "Q m" using row_at_unique [OF d m(1)] assms(2) by blast+
    then show ?thesis using at Some row_at_filter [OF d] by (simp add: asker_of_def)
  qed (simp add: asker_of_def at)
qed

lemma talk_ok_drop:
  assumes "talk_ok rows" "\<And>r. r \<in> set rows \<Longrightarrow> goes r \<Longrightarrow> ms_replies_to r \<noteq> None"
  shows "talk_ok (map (let_go (map ms_id (filter goes rows))) (filter (\<lambda>r. \<not> goes r) rows))"
    (is "talk_ok (map (let_go ?ids) ?rows)")
  unfolding talk_ok_def
proof (intro conjI ballI allI impI)
  show "distinct (map ms_id (map (let_go ?ids) ?rows))"
    using talk_okD(1) [OF assms(1)] by (simp only: ids_map let_go_keeps distinct_map_filter)
next
  fix r p assume "r \<in> set (map (let_go ?ids) ?rows)" "ms_replies_to r = Some p"
  then obtain r0 where "r0 \<in> set rows" "ms_replies_to r0 = Some p" by auto
  from talk_okD(2) [OF assms(1) this] obtain m where m: "m \<in> set rows" "ms_id m = p" "ms_replies_to m = None" by blast
  then have "m \<in> set ?rows" using assms(2) [OF m(1)] by auto
  then show "\<exists>m \<in> set (map (let_go ?ids) ?rows). ms_id m = p \<and> ms_replies_to m = None"
    using m by (intro bexI [of _ "let_go ?ids m"]) simp_all
next
  fix u i assume u: "u \<in> set (map (let_go ?ids) ?rows)" and i: "ms_absorbed_by u = Some i"
  obtain u0 where u0: "u0 \<in> set rows" "u = let_go ?ids u0" using u by auto
  then have a: "ms_absorbed_by u0 = Some i" "i \<notin> set ?ids" using i let_go_absorbed by blast+
  note old = talk_okD(3) [OF assms(1) u0(1) a(1)]
  then obtain r where at: "row_at rows i = Some r" "ms_replies_to r = None \<or> asker_of rows i = ms_user u0"
    by (auto simp: for_its_asker_def)
  then have r: "r \<in> set rows" "ms_id r = i" using row_at_in by blast+
  then have stays: "\<not> goes r" using a(2) by auto
  show "\<not> answered (map (let_go ?ids) ?rows) (ms_id u)"
    using old u0(2) by (simp add: answered_def list_ex_iff)
  have "for_its_asker ?rows i u0"
    using at row_at_filter [OF talk_okD(1) [OF assms(1)] at(1), of "\<lambda>r. \<not> goes r"] stays r(2)
      asker_of_filter [OF assms(1) _ r(1), of "\<lambda>r. \<not> goes r"] assms(2) by (simp add: for_its_asker_def)
  then show "for_its_asker (map (let_go ?ids) ?rows) i u" by (simp add: for_its_asker_map u0(2))
qed

lemma seal_rows: "\<exists>f. keeps_place f \<and> (\<forall>u. ms_absorbed_by (f u) = ms_absorbed_by u) \<and> snd (seal_interrupted i rows) = map f rows"
proof (cases "list_ex (\<lambda>r. ms_id r = i \<and> ms_streamed r) rows")
  case True
  let ?f = "\<lambda>r. if ms_id r = i \<and> \<not> ms_finished r then r\<lparr>ms_said := True, ms_finished := True\<rparr> else r"
  have "keeps_place ?f" "\<forall>u. ms_absorbed_by (?f u) = ms_absorbed_by u" by (simp_all add: keeps_place_def)
  moreover have "snd (seal_interrupted i rows) = map ?f rows" unfolding seal_interrupted_def using True by simp
  ultimately show ?thesis by blast
next
  case False
  then have "snd (seal_interrupted i rows) = map id rows" unfolding seal_interrupted_def by simp
  moreover have "keeps_place id" by (simp add: keeps_place_def)
  ultimately show ?thesis by (metis id_apply)
qed

lemma attempt_rows:
  assumes "attempt_for p resuming rows = (attempt, rows1)"
  shows "\<exists>f. keeps_place f \<and> (\<forall>u. ms_absorbed_by (f u) = ms_absorbed_by u) \<and> rows1 = map f rows"
proof -
  have "rows1 = rows \<or> (\<exists>i. rows1 = snd (seal_interrupted i rows))"
    using assms by (auto simp: attempt_for_def split: option.splits if_splits prod.splits bool.splits)
      (metis snd_conv)+
  moreover have "\<exists>f. keeps_place f \<and> (\<forall>u. ms_absorbed_by (f u) = ms_absorbed_by u) \<and> rows = map f rows"
    by (intro exI [of _ id]) (simp add: keeps_place_def)
  ultimately show ?thesis using seal_rows by blast
qed

lemma talk_ok_put_back: "talk_ok rows \<Longrightarrow> talk_ok (put_back reply session_id rows)"
  unfolding put_back_def by (rule talk_ok_map) (auto simp: keeps_place_def split: if_splits)

lemma talk_ok_begin:
  assumes "talk_ok rows" "row_at rows p = Some m" "ms_replies_to m = None" "fresh \<notin> ms_id ` set rows"
  shows "talk_ok (snd (begin_reply now fresh p session_id resuming rows))"
proof (cases "was_absorbed rows p")
  case False
  obtain attempt rows1 where a: "attempt_for p resuming rows = (attempt, rows1)" by (cases "attempt_for p resuming rows")
  obtain f where f: "keeps_place f" "\<forall>u. ms_absorbed_by (f u) = ms_absorbed_by u" "rows1 = map f rows"
    using attempt_rows [OF a] by blast
  have ok: "talk_ok rows1" unfolding f(3) by (rule talk_ok_map [OF assms(1) f(1)]) (simp add: f(2))
  note place = keeps_placeD [OF f(1)]
  have at: "row_at rows1 p = Some (f m)" by (simp add: f(3) row_at_map [OF f(1)] assms(2))
  have free: "ms_absorbed_by m = None" using False assms(2) by (simp add: was_absorbed_def)
  have "fresh \<notin> ms_id ` set rows1" using assms(4) by (simp add: f(3) image_image place)
  then have "talk_ok (rows1 @ [placeholder now fresh p session_id attempt])"
    using talk_ok_append [OF ok, of "placeholder now fresh p session_id attempt"] at assms(3) free
    by (simp add: placeholder_def place f(2))
  then show ?thesis
    using False ok talk_ok_put_back
    by (auto simp: begin_reply_def start_reply_def a claim_placeholder_def split: option.split)
qed (simp add: begin_reply_def assms(1))

lemma row_at_of: "i \<in> ms_id ` set rows \<Longrightarrow> \<exists>r. row_at rows i = Some r"
  by (induction rows) (auto simp: row_at_def)

lemma talk_ok_wake:
  assumes "talk_ok rows" "note_id \<notin> ms_id ` set rows"
  shows "talk_ok (wake_talk e c woke_at note_id n rows)"
proof -
  let ?queued = "wake_answers (WakeNotes.unanswered rows n)"
  obtain nt :: talk_row where nt: "ms_id nt = note_id" "ms_replies_to nt = None" "ms_absorbed_by nt = None"
    "wake_talk e c woke_at note_id n rows = absorb note_id (map ms_id ?queued) (rows @ [nt])"
    by (rule that, simp_all only: wake_talk_def Let_def) simp_all
  have ok: "talk_ok (rows @ [nt])" using talk_ok_append [OF assms(1), of nt] assms(2) nt by simp
  have at: "row_at (rows @ [nt]) note_id = Some nt"
    using row_at_unique [OF talk_okD(1) [OF ok], of nt] nt(1) by simp
  have free: "\<not> answered (rows @ [nt]) (ms_id u)" if "ms_id u \<in> set (map ms_id ?queued)" for u :: talk_row
    using that nt(2) by (auto simp: set_wake_answers answers_of_def waits_unanswered_def answered_def)
  show ?thesis
    unfolding nt(4) absorb_def
    by (rule talk_ok_map [OF ok]) (use free at nt(2) in \<open>auto simp: keeps_place_def for_its_asker_def split: if_splits\<close>)
qed

lemma talk_ok_take:
  assumes "talk_ok rows" "reply \<in> ms_id ` set rows"
  shows "talk_ok (snd (take_pending locked session_id reply rows))"
proof -
  let ?f = "\<lambda>u. if may_be_taken rows session_id reply u \<and> \<not> locked (ms_id u) then u\<lparr>ms_absorbed_by := Some reply\<rparr> else u"
  have "keeps_place ?f" by (simp add: keeps_place_def)
  moreover have "ms_absorbed_by (?f u) = Some i \<Longrightarrow> ms_absorbed_by u = Some i \<or>
      (\<not> answered rows (ms_id u) \<and> for_its_asker rows i u)" for u i
    using row_at_of [OF assms(2)] by (auto simp: may_be_taken_def for_its_asker_def split: if_split_asm)
  ultimately have "talk_ok (map ?f rows)" by (intro talk_ok_map [OF assms(1)])
  then show ?thesis by (simp add: take_pending_def Let_def)
qed

lemma talk_ok_discard:
  assumes "talk_ok rows"
  shows "talk_ok (discard_placeholder p attempt rows)"
proof -
  let ?at = "\<lambda>r :: talk_row. ms_replies_to r = Some p \<and> ms_attempt r = attempt"
  let ?rows = "case find (\<lambda>r. ?at r \<and> \<not> ms_finished r) rows of Some r \<Rightarrow> snd (seal_interrupted (ms_id r) rows) | None \<Rightarrow> rows"
  have "talk_ok (snd (seal_interrupted i rows))" for i
  proof -
    obtain f where "keeps_place f" "\<forall>u. ms_absorbed_by (f u) = ms_absorbed_by u" "snd (seal_interrupted i rows) = map f rows"
      using seal_rows by blast
    then show ?thesis using talk_ok_map [OF assms, of f] by simp
  qed
  then have "talk_ok ?rows" using assms by (simp split: option.split)
  from talk_ok_drop [OF this, of "\<lambda>r. ?at r \<and> \<not> ms_said r"] show ?thesis
    unfolding discard_placeholder_def Let_def by blast
qed

lemma talk_step_keeps: "talk_step rows rows' \<Longrightarrow> talk_ok rows \<Longrightarrow> talk_ok rows'"
proof (induction rule: talk_step.induct)
  case (says u rows)
  then show ?case by (intro talk_ok_append) auto
next
  case (begins rows p m fresh now session_id resuming)
  then show ?case by (intro talk_ok_begin)
next
  case (takes reply rows locked session_id)
  then show ?case by (intro talk_ok_take)
next
  case (streams rows i)
  then show ?case by (intro talk_ok_map) (auto simp: keeps_place_def split: if_splits)
next
  case (finishes rows i b)
  then show ?case by (intro talk_ok_map) (auto simp: keeps_place_def split: if_splits)
next
  case (gives_up rows p attempt)
  then show ?case by (intro talk_ok_discard)
next
  case (wakes note_id rows e c woke_at n)
  then show ?case by (intro talk_ok_wake)
qed

interpretation conversation: invariant_relation talk_step talk_ok
  by unfold_locales (rule talk_step_keeps)

lemma taken_row:
  assumes "take_pending locked session_id reply rows = (handed, rows')" "m \<in> set handed"
  shows "\<exists>u \<in> set rows. m = pending_of u \<and> may_be_taken rows session_id reply u"
  using assms by (auto simp: take_pending_def Let_def)

lemma taken_marked:
  assumes "take_pending locked session_id reply rows = (handed, rows')" "talk_ok rows" "m \<in> set handed" "v \<in> set rows'" "ms_id v = pd_id m"
  shows "ms_absorbed_by v = Some reply"
proof -
  let ?taken = "\<lambda>u. may_be_taken rows session_id reply u \<and> \<not> locked (ms_id u)"
  obtain u where u: "u \<in> set rows" "?taken u" "m = pending_of u" using assms(1,3) by (auto simp: take_pending_def Let_def)
  obtain v0 where v0: "v0 \<in> set rows" "v = (if ?taken v0 then v0\<lparr>ms_absorbed_by := Some reply\<rparr> else v0)"
    using assms(1,4) by (auto simp: take_pending_def Let_def)
  then have "ms_id v0 = ms_id u" using assms(5) u(3) by (auto simp: pending_of_def split: if_splits)
  then have "v0 = u" using talk_okD(1) [OF assms(2)] u(1) v0(1) by (auto simp: distinct_map inj_on_def)
  then show ?thesis using u(2) v0(2) by simp
qed

text \<open>
  C11. Where each turn begins in one step, a message said while a turn runs is answered at most once, and by a reply
  only as the one who said it. However messages, beginnings of turns, takes, lost and given up replies and the ends
  of waits follow one another: a message taken for a reply or by a note has no reply of its own, and where it was
  taken for a reply, that reply is to a message of the same sender; and what a running turn takes nobody had taken
  or answered, came from that turn's sender, and is not handed to any turn that asks next. (What a sleep that ends
  amid a turn's beginning does instead is \<open>woken_while_beginning\<close>; that the message is answered at all is not so,
  by \<open>steer_lost_with_its_reply\<close> and \<open>failed_stream_carries_nothing\<close>.)
\<close>

theorem steer_answered_at_most_once:
  assumes "talk_step\<^sup>*\<^sup>* [] rows" "reply \<in> ms_id ` set rows"
    and "take_pending locked session_id reply rows = (handed, rows')"
  shows "(\<forall>u \<in> set rows'. \<forall>i. ms_absorbed_by u = Some i \<longrightarrow> \<not> answered rows' (ms_id u) \<and>
       (\<exists>r. row_at rows' i = Some r \<and> (ms_replies_to r = None \<or> asker_of rows' i = ms_user u))) \<and>
    (\<forall>m \<in> set handed. \<exists>u \<in> set rows. m = pending_of u \<and> ms_absorbed_by u = None \<and> \<not> answered rows (ms_id u) \<and>
       ms_user u = asker_of rows reply) \<and>
    (\<forall>m \<in> set handed. \<forall>locked2 session2 reply2. pd_id m \<notin> pd_id ` set (fst (take_pending locked2 session2 reply2 rows')))"
proof (intro conjI ballI allI impI)
  have ok: "talk_ok rows" using conversation.reach_keeps [OF assms(1)] by (simp add: talk_ok_def)
  then have ok': "talk_ok rows'" using talk_ok_take [OF ok assms(2), of locked session_id] assms(3) by simp
  show "\<not> answered rows' (ms_id u)" "\<exists>r. row_at rows' i = Some r \<and> (ms_replies_to r = None \<or> asker_of rows' i = ms_user u)"
    if "u \<in> set rows'" "ms_absorbed_by u = Some i" for u i
    using talk_okD(3) [OF ok' that] unfolding for_its_asker_def by blast+
  show "\<exists>u \<in> set rows. m = pending_of u \<and> ms_absorbed_by u = None \<and> \<not> answered rows (ms_id u) \<and> ms_user u = asker_of rows reply"
    if "m \<in> set handed" for m
    using taken_row [OF assms(3) that] by (auto simp: may_be_taken_def)
  show "pd_id m \<notin> pd_id ` set (fst (take_pending locked2 session2 reply2 rows'))" if m: "m \<in> set handed" for m locked2 session2 reply2
  proof
    assume "pd_id m \<in> pd_id ` set (fst (take_pending locked2 session2 reply2 rows'))"
    then obtain m2 where m2: "m2 \<in> set (fst (take_pending locked2 session2 reply2 rows'))" "pd_id m2 = pd_id m" by auto
    obtain v where "v \<in> set rows'" "m2 = pending_of v" "may_be_taken rows' session2 reply2 v"
      using taken_row [OF surjective_pairing m2(1)] by blast
    moreover from this have "ms_absorbed_by v = Some reply"
      using taken_marked [OF assms(3) ok m] m2(2) by (simp add: pending_of_def)
    ultimately show False by (simp add: may_be_taken_def)
  qed
qed

section \<open>What is lost with a reply\<close>

text \<open>
  A turn whose reply had said something when its pod was lost begins again with a reply of its own, and what
  the lost one had taken stays marked as its: it is handed to nobody, and its own turn finds nothing to do.
\<close>

lemma latest_is_last:
  assumes "latest_reply rows p = Some r"
  shows "r \<in> set rows \<and> ms_replies_to r = Some p \<and> (\<forall>r' \<in> set rows. ms_replies_to r' = Some p \<longrightarrow> ms_attempt r' \<le> ms_attempt r)"
proof -
  let ?rs = "sort_key ms_attempt (filter (\<lambda>r. ms_replies_to r = Some p) rows)"
  have ne: "filter (\<lambda>r. ms_replies_to r = Some p) rows \<noteq> []" and r: "r = last ?rs"
    using assms by (auto simp: latest_reply_def split: list.splits)
  have "?rs \<noteq> []" using ne by (metis length_0_conv length_sort)
  then have "r \<in> set ?rs" using r last_in_set by blast
  moreover have "ms_attempt r' \<le> ms_attempt r" if a: "r' \<in> set ?rs" for r'
  proof -
    obtain i where "i < length ?rs" "?rs ! i = r'" using a unfolding in_set_conv_nth by blast
    then show ?thesis
      using sorted_nth_mono [of "map ms_attempt ?rs" i "length ?rs - 1"] r \<open>?rs \<noteq> []\<close> by (simp add: last_conv_nth)
  qed
  ultimately show ?thesis by auto
qed

lemma steer_lost_with_its_reply:
  assumes "talk_ok rows" "latest_reply rows p = Some r" "\<not> ms_finished r" "ms_said r \<or> ms_streamed r" "\<not> was_absorbed rows p"
    and "u \<in> set rows" "ms_absorbed_by u = Some (ms_id r)"
    and "begin_reply now fresh p session_id False rows = (reply, rows')"
  shows "reply = Some fresh \<and> was_absorbed rows' (ms_id u) \<and>
    (\<forall>again. begin_reply now again (ms_id u) session_id False rows' = (None, rows'))"
proof -
  note last = latest_is_last [OF assms(2)]
  obtain rows1 where a: "attempt_for p False rows = (ms_attempt r + 1, rows1)"
  proof (cases "ms_said r")
    case False
    then have "list_ex (\<lambda>r'. ms_id r' = ms_id r \<and> ms_streamed r') rows" using last assms(4) by (auto simp: list_ex_iff)
    then show ?thesis using that assms(2,3) False by (simp add: attempt_for_def seal_interrupted_def)
  qed (use that assms(2,3) in \<open>simp add: attempt_for_def\<close>)
  obtain f where f: "keeps_place f" "\<forall>u. ms_absorbed_by (f u) = ms_absorbed_by u" "rows1 = map f rows"
    using attempt_rows [OF a] by blast
  have attempts: "map ms_attempt rows1 = map ms_attempt rows"
    using a by (auto simp: attempt_for_def seal_interrupted_def assms(2) split: if_splits)
  have "\<not> (ms_replies_to r' = Some p \<and> ms_attempt r' = ms_attempt r + 1)" if a: "r' \<in> set rows1" for r'
  proof
    assume r': "ms_replies_to r' = Some p \<and> ms_attempt r' = ms_attempt r + 1"
    obtain k where k: "k < length rows" "r' = f (rows ! k)"
      using a unfolding f(3) in_set_conv_nth by auto
    moreover have "ms_attempt (f (rows ! k)) = ms_attempt (rows ! k)"
      using arg_cong [OF attempts, of "\<lambda>xs. xs ! k"] k(1) by (simp add: f(3))
    ultimately have "ms_attempt (rows ! k) = ms_attempt r + 1" "ms_replies_to (rows ! k) = Some p"
      using r' by (simp_all add: keeps_placeD [OF f(1)])
    moreover have "rows ! k \<in> set rows" using k(1) by (rule nth_mem)
    ultimately have "ms_attempt r + 1 \<le> ms_attempt r" using last by metis
    then show False by simp
  qed
  then have "find (\<lambda>r'. ms_replies_to r' = Some p \<and> ms_attempt r' = ms_attempt r + 1) rows1 = None"
    by (auto simp: find_None_iff)
  then have all: "reply = Some fresh" "rows' = rows1 @ [placeholder now fresh p session_id (ms_attempt r + 1)]"
    using assms(5,8) unfolding begin_reply_def start_reply_def a claim_placeholder_def by simp_all
  have "row_at rows (ms_id u) = Some u" by (rule row_at_unique [OF talk_okD(1) [OF assms(1)] assms(6)])
  then have "row_at rows' (ms_id u) = Some (f u)"
    using assms(6) by (simp add: all(2) f(3) row_at_append row_at_map [OF f(1)] image_image keeps_placeD [OF f(1)])
  then have "was_absorbed rows' (ms_id u)" using f(2) assms(7) by (simp add: was_absorbed_def)
  then show ?thesis using all(1) by (simp add: begin_reply_def)
qed

text \<open>So is what was taken for a call no provider answered: it is marked, and the answer that failed carries none of it.\<close>

lemma failed_stream_carries_nothing:
  assumes "chat_completions_stream w clock settings call db (Inr claims) traffic began (Some reply) locked stop req cache sh (rows, evs) =
      ((StreamFailed malformed said, fb), cache', sh', logs, rows', evs')"
    and "has_database (ww_gateway w)"
  shows "rows' = snd (take_pending locked (claim_subject claims) reply rows)"
  using assms by (auto simp: chat_completions_stream_def take_for_turn_def split: prod.splits ended.splits)

section \<open>Witness\<close>

definition said_by_one :: "uuid \<Rightarrow> talk_row" where
  "said_by_one i =
     \<lparr>ms_id = i, ms_session = 2, ms_role = ''user'', ms_content = ''Also'', ms_user = Some 7, ms_metadata = JObj [], ms_created = 0,
      ms_replies_to = None, ms_absorbed_by = None, ms_delivery = ''steer'', ms_attempt = 0, ms_finished = False, ms_said = False,
      ms_streamed = False\<rparr>"

definition under_way :: talk where
  "under_way = [said_by_one 1, placeholder 0 10 1 2 1, said_by_one 3]"

lemma under_way_reached: "talk_step\<^sup>*\<^sup>* [] under_way"
proof -
  have "talk_step [] [said_by_one 1]" using talk_step.says [of "said_by_one 1" "[]"] by (simp add: said_by_one_def)
  moreover have "talk_step [said_by_one 1] [said_by_one 1, placeholder 0 10 1 2 1]"
    using talk_step.begins [of "[said_by_one 1]" 1 "said_by_one 1" 10 0 2 False]
    by (simp add: row_at_def begin_reply_def start_reply_def was_absorbed_def attempt_for_def latest_reply_def claim_placeholder_def said_by_one_def)
  moreover have "talk_step [said_by_one 1, placeholder 0 10 1 2 1] under_way"
    using talk_step.says [of "said_by_one 3" "[said_by_one 1, placeholder 0 10 1 2 1]"]
    by (simp add: under_way_def said_by_one_def placeholder_def)
  ultimately show ?thesis by (meson converse_rtranclp_into_rtranclp rtranclp.rtrancl_refl)
qed

text \<open>
  A turn asks whether its message was taken, then whether its conversation is held, then claims its reply. A sleep
  that ends between the first and the second leaves the message marked as the note's and answered by its own turn
  too: it is answered twice.
\<close>

lemma woken_while_beginning:
  "\<not> was_absorbed [said_by_one 1] 1 \<and>
   (let rows = snd (start_reply 0 10 1 2 False (wake_talk toy_outside toy_calendar 9 5 deposit_note [said_by_one 1])) in
    Option.bind (row_at rows 1) ms_absorbed_by = Some 5 \<and> answered rows 1)"
proof -
  have "wake_answers (WakeNotes.unanswered [said_by_one 1] deposit_note) = [said_by_one 1]"
    by (simp add: wake_answers_def WakeNotes.unanswered_def waits_unanswered_def wake_asker_def said_by_one_def deposit_note_def)
  then have "\<exists>nt :: talk_row. ms_id nt = 5 \<and> ms_replies_to nt = None \<and>
    wake_talk toy_outside toy_calendar 9 5 deposit_note [said_by_one 1] = [(said_by_one 1)\<lparr>ms_absorbed_by := Some 5\<rparr>, nt]"
    by (simp add: wake_talk_def absorb_def said_by_one_def)
  then obtain nt :: talk_row where "ms_id nt = 5" "ms_replies_to nt = None"
    "wake_talk toy_outside toy_calendar 9 5 deposit_note [said_by_one 1] = [(said_by_one 1)\<lparr>ms_absorbed_by := Some 5\<rparr>, nt]"
    by blast
  then show ?thesis
    by (simp add: start_reply_def attempt_for_def latest_reply_def claim_placeholder_def was_absorbed_def row_at_def answered_def
        said_by_one_def placeholder_def Let_def)
qed

theorem steer_answered_at_most_once_witness:
  "fst (take_pending (\<lambda>_. False) 2 10 under_way) = [pending_of (said_by_one 3)] \<and>
   3 \<notin> pd_id ` set (fst (take_pending (\<lambda>_. False) 2 10 (snd (take_pending (\<lambda>_. False) 2 10 under_way))))"
proof -
  have taken: "fst (take_pending (\<lambda>_. False) 2 10 under_way) = [pending_of (said_by_one 3)]"
    by (simp add: take_pending_def may_be_taken_def under_way_def said_by_one_def placeholder_def asker_of_def row_at_def
        answered_def behind_invocation_def invokes_skill_def obj_get_def)
  obtain handed rows' where all: "take_pending (\<lambda>_. False) 2 10 under_way = (handed, rows')"
    by (cases "take_pending (\<lambda>_. False) 2 10 under_way")
  have "pending_of (said_by_one 3) \<in> set handed" using taken unfolding all by simp
  moreover have "10 \<in> ms_id ` set under_way" by (simp add: under_way_def placeholder_def)
  ultimately have "pd_id (pending_of (said_by_one 3)) \<notin> pd_id ` set (fst (take_pending (\<lambda>_. False) 2 10 rows'))"
    using steer_answered_at_most_once [OF under_way_reached _ all] by blast
  then show ?thesis using taken unfolding all by (simp add: pending_of_def said_by_one_def)
qed

end
