(* ===== verification/Spec2Isabelle.thy ===== *)
theory Spec2Isabelle
  imports Breaker Gateway Utf8 GuestFiles Trim Cron HeldHistory Gated Wake JobsEnd AnthropicAgrees Sse ListenedCache Roles Walk Steering
begin

text \<open>
  Outturn runs agents that other people's text can steer, so what an agent may do is decided where it cannot
  reach: its guest is WebAssembly in a runtime pod (\<open>crates/runtime\<close>), every request it makes and every
  question it asks a model leaves through a gateway that holds the credentials (\<open>crates/gateway\<close>), and what it
  may ask for is chosen by the API (\<open>crates/api\<close>) from rows in Postgres. \<open>crates/core\<close> holds the rules all three
  share. This development models those rules and the state machines built from them, one theory a component,
  and proves what each promises and what they promise together.

  How the parts meet. The API puts into a turn's token the roots of two trees: over the egress rules of the
  workspace, and over the gates, grants and policies of the turn. The runtime relays the rules and gates with a
  request; the gateway believes them only against the token. A gate that nothing satisfies is a refusal, which
  the API turns into a question (an item of the queue of what waits, and a hold on the turn); the answer settles
  the item, lifts the hold, writes the grant and queues the next turn, in one transaction. Turns are jobs of a
  queue whose rows several workers claim. A request that may be sent only once is held as a row with its own
  small machine. A question for a model is walked down a chain of models, whose circuits every replica shares.

  Which theory is which part.
  Shared: \<open>Prelude\<close> (lists, bytes, text and words as Rust has them, the locale of invariants of a step
  relation), \<open>External\<close> (what the program calls and does not contain: SHA-256, UUID text, serde_json), \<open>Json\<close>.
  The gateway and what it enforces: \<open>Ip\<close>, \<open>Internal\<close>, \<open>EgressRule\<close> (core/src/egress/rule.rs, internal.rs),
  \<open>Merkle\<close> and \<open>Commit\<close> (commit.rs), \<open>Gate\<close>, \<open>Grant\<close>, \<open>Gates\<close> (gate.rs, grant.rs), \<open>Amount\<close> and \<open>Policy\<close> (amount.rs,
  policy.rs), \<open>Credentials\<close> (seal.rs, bindings.rs), \<open>Token\<close> and \<open>Rbac\<close> (core/src/auth), \<open>Gateway\<close>
  (gateway/src/egress/mod.rs), \<open>ListenedCache\<close> (egress/sealed.rs).
  Models: \<open>Llm\<close> (core/src/llm.rs, facts.rs), \<open>Anthropic\<close> and \<open>AnthropicAgrees\<close> (gateway/src/llm/translate.rs),
  \<open>Utf8\<close> (core/src/utf8.rs), \<open>Sse\<close> (llm/provider/mod.rs), \<open>Breaker\<close> (core/src/breaker.rs), \<open>Circuits\<close>
  (gateway/src/breaker/mod.rs), \<open>Chains\<close> (core/src/chains.rs, model_settings.rs), \<open>Walk\<close> (gateway/src/routing.rs,
  router.rs).
  The API: \<open>Jobs\<close> and \<open>JobsEnd\<close> (core/src/jobs), \<open>Holds\<close> (core/src/inhibitor), \<open>Actions\<close> (api/src/actions), \<open>Approvals\<close>,
  \<open>Answering\<close> and \<open>Gated\<close> (api/src/grant.rs, approvals.rs, gated.rs), \<open>HeldRequests\<close> and \<open>HeldHistory\<close> (egress/held.rs,
  api/src/held.rs), \<open>Wake\<close> and \<open>WakeNotes\<close> (api/src/wake.rs), \<open>Roles\<close> (api/src/role), \<open>Trim\<close> (api/src/chat/trim.rs), \<open>Cron\<close>
  (api/src/schedule/cron.rs), and, between the API and the gateway, \<open>Steering\<close> (what is said to a turn while it
  runs: gateway/src/routing.rs, router.rs, api/src/worker/turn.rs, chat/postgres.rs).
  The runtime: \<open>Admission\<close> (runtime/src/admission.rs), \<open>Scope\<close> and \<open>ObjectStore\<close> (core/src/storage), \<open>GuestFiles\<close>
  (runtime/src/component/storage.rs).

  How the code is read. A struct is a record, an enum a datatype, a function that may fail answers a sum whose
  left is the error, a handler takes the state and gives it back with its answer. A table is a list of rows (or
  a map, where a key is all it is reached by) and a statement a function over it; a transaction that fails gives
  back the tables it was given. Where statements of several workers interleave, each statement is a step of an
  inductive relation and what is promised is an invariant of it, by the locale \<open>invariant_relation\<close> or one of its
  own. A string is its UTF-8 bytes as characters. Integers whose width shows are words (token counts and
  sizes wrap as a release build's do); a count no process reaches is a natural. Times are integers of nanoseconds.
  Names clash with the library's here and there: \<open>update\<close>, \<open>create\<close>, \<open>claim\<close> are the source's.

  What the groups of lemmas show. Of the gateway, that what leaves was allowed, however the runtime in between
  behaves (the theorem below, and \<open>Gateway\<close>, \<open>Commit\<close>, \<open>Gates\<close>, \<open>Policy\<close>). Of approvals, that what is sent after a yes is
  what was shown, that a decision is one act, that no hold stands without its question, that a held request goes
  at most once a yes. Of the queue, that work of one key never runs beside itself, that a lease once lost says
  nothing, that no job is run for ever. Of a conversation, that what is said while a turn runs is answered at most once,
  and by a reply only as the one who said it. Of models, that a reply streamed is the reply sent whole, that a stream
  reads alike wherever the network cut it, that a request one provider may have taken is sent to no other, that
  a configured chain is all that is asked. Of caches, that nothing revoked is served once it could have been
  heard. Of the guest, that its files stay in its spaces and within its allowance.

  Interfaces are locales, each interpreted on the model's own definitions where they are made: the invariant of
  a machine or of a step relation (\<open>Prelude\<close>), how a host is matched (\<open>EgressRule\<close>), a commitment to a list
  (\<open>Merkle\<close>, for rules and for gates), the store of objects (\<open>ObjectStore\<close>), and the cache a listener keeps honest
  (\<open>ListenedCache\<close>, for credentials there and for roles in \<open>Roles\<close>).

  Bounds. Loops of the source are structural or have their measure proved; there is no fuel. The stream reader
  (\<open>Sse\<close>) ends because each turn shortens the stream or the buffer; the search for a schedule's next firing
  (\<open>Cron\<close>) ends at its horizon of days, as the code's does. Streams and histories are finite lists of any length. Theorems
  about digests assume no two of the byte strings hashed share one, and name which.

  Not modelled, and why. HTTP, JSON text and TLS are libraries. Gemini's and Bedrock's wire formats are further
  translations of the kind \<open>Anthropic\<close> models. Handlers that parse a request, check an authority and call a
  store, and stores whose statements decide nothing outside the database, are left to the database. The
  WebAssembly host around the guest, the guest itself and the renderers are on the far side of the boundary:
  what is proved holds whatever they do. A database statement that fails amid an operation is modelled where the
  code does something about it; the object store of \<open>GuestFiles\<close> is the one in memory, whose writes do not fail.
  Some sequences are one step: loading, judging and storing a circuit (\<open>Circuits\<close>), a check and the count it
  is of (\<open>Admission\<close>), the transaction of a policy's records, which its row lock makes one (\<open>Policy\<close>), and a turn's
  beginning (\<open>Steering\<close>, which shows what a sleep that ends amid it does).
\<close>

section \<open>From the API's word to the request on the wire\<close>

lemma gate_satisfied_sets:
  "set (gs_grants s) = set (gs_grants s') \<Longrightarrow> set (gs_policies s) = set (gs_policies s') \<Longrightarrow>
     gate_satisfied w ws s meth host u body now db g = gate_satisfied w ws s' meth host u body now db g"
  by (simp add: gate_satisfied_def list_ex_iff)

text \<open>
  C1. What the API allowed is all that leaves, whatever the runtime in between sends. Where a turn's
  token carries the root over the rules the API chose and the root over the gates, grants and policies
  it chose, a request the gateway sends is to a host one of those rules names, and every one of those
  gates that covers it is satisfied by one of those grants, or by one of those policies with its yes
  on record for the turn -- unless two of the byte strings hashed share a digest.
\<close>
theorem only_what_the_api_allowed_leaves:
  assumes "vet_and_send w now (Inr c) rq has_file db = (db', Inr sent)"
    and "claim_egress c = Some (root (gw_outside w) (claim_workspace c) rules)"
    and "claim_gates c = Some (gates_root (gw_outside w) (policy_bytes w) (claim_workspace c) gates)"
    and "digest_width (gw_outside w)" and "uuid_forms (gw_outside w)"
    and "list_all rule_fits rules" and "proof_wf (rq_proof rq)"
    and "list_all kind_fits (leaf_kinds gates)" and "list_all kind_fits (leaf_kinds (rq_gates rq))"
    and "inj_on (policy_bytes w) (set (gs_policies gates) \<union> set (gs_policies (rq_gates rq)))"
    and "no_collision (gw_outside w) (rules_hashed (gw_outside w) (claim_workspace c) rules \<union>
      proof_hashed (gw_outside w) (claim_workspace c) (rq_proof rq))"
    and "no_collision (gw_outside w) (gates_hashed (gw_outside w) (policy_bytes w) (claim_workspace c) gates \<union>
      gates_hashed (gw_outside w) (policy_bytes w) (claim_workspace c) (rq_gates rq))"
  shows "(\<exists>r \<in> set rules. host_matches (rule_host r) (v_host sent)) \<and>
    list_all (gate_satisfied w (claim_workspace c) gates (v_method sent) (v_host sent) (v_url sent) (rq_body rq) now db')
      (covering_all gates (v_host sent) (v_method sent) (url_path (v_url sent)))"
proof -
  obtain vouched r where v:
    "verify (gw_outside w) (claim_workspace c) (root (gw_outside w) (claim_workspace c) rules) (rq_proof rq) = Inr vouched"
    "r \<in> set vouched" "host_matches (rule_host r) (v_host sent)"
    and m: "gates_match (gw_outside w) (policy_bytes w) (claim_workspace c) (rq_gates rq)
      (gates_root (gw_outside w) (policy_bytes w) (claim_workspace c) gates)"
    and all: "list_all (gate_satisfied w (claim_workspace c) (rq_gates rq) (v_method sent) (v_host sent) (v_url sent)
        (rq_body rq) now db')
      (covering_all (rq_gates rq) (v_host sent) (v_method sent) (url_path (v_url sent)))"
    using goes_out [OF assms(1)] assms(2,3) by auto
  have "r \<in> set rules" using vouched_committed [OF assms(4-7,11) v(1)] v(2) by blast
  moreover note sets = gates_match_sets [OF assms(4,5,10,8,9,12) m]
  ultimately show ?thesis
    using v(3) all gate_satisfied_sets [of "rq_gates rq" gates]
    by (auto simp: list_all_iff covering_all_def)
qed

theorem only_what_the_api_allowed_leaves_witness:
  "\<exists>r \<in> set [plain_rule]. host_matches (rule_host r) (v_host example_sent)"
proof -
  have c: "claim_workspace example_claims = 1" "claim_egress example_claims = Some (root toy_outside 1 [plain_rule])"
    "claim_gates example_claims = Some (gates_root toy_outside pg_gate 1 no_gates)"
    "gw_outside example_world = toy_outside" "policy_bytes example_world = pg_gate"
    "rq_gates example_request = no_gates" "rq_proof example_request = Inclusion plain_rule []"
    by (simp_all add: example_claims_def example_world_def example_request_def)
  have none: "gates_hashed e pb ws no_gates = {TAG_GATE_EMPTY}" "leaf_kinds no_gates = []" "gs_policies no_gates = []" for e pb ws
    by (simp_all add: gates_hashed_def committed_inputs_def leaf_kinds_def no_gates_def)
  show ?thesis
    using only_what_the_api_allowed_leaves [OF example_goes_out [of 0 example_tables], of "[plain_rule]" no_gates]
      no_collision_mono [OF example_no_collision]
    by (simp add: c none rules_hashed_single) (simp add: no_collision_def)
qed

end
